(* ===== verification/Prelude.thy ===== *)
theory Prelude
  imports Main "HOL-Library.Word" "HOL-Library.While_Combinator" "HOL-Library.Monad_Syntax"
    "HOL-Library.Code_Target_Nat"
begin

text \<open>
  Shared vocabulary of the development: the machine types of the hypervisor, the macros of
  \<^verbatim>\<open>lib/inc/util.h\<close>, and the generic lemmas on words, lists and bounded counting that the
  component theories rest on.

  Conventions used everywhere below.
  \<^item> A \<^verbatim>\<open>uint64_t\<close> that the code treats as a bit pattern (a colour mask, a page table entry, a
    register) is a \<open>64 word\<close>; a \<^verbatim>\<open>size_t\<close> or \<^verbatim>\<open>uint64_t\<close> that the code uses as a number (an
    index, a count, a physical address) is a \<open>nat\<close>, and where it can wrap around the reduction
    modulo \<open>2 ^ 64\<close> is written out (\<open>sub64\<close>).
  \<^item> The macro \<^verbatim>\<open>ERROR\<close> of \<^verbatim>\<open>core/inc/bao.h\<close> prints a message and spins for ever. A function that may
    execute it, or whose loop may have no exit, has a result of type \<open>'a option\<close>, where \<open>None\<close>
    says that the call never returns to its caller.
\<close>

unbundle bit_operations_syntax

declare One_nat_def [simp del]

type_synonym u8 = "8 word"
type_synonym u16 = "16 word"
type_synonym u32 = "32 word"
type_synonym u64 = "64 word"

named_theorems bm_simps \<open>rewrite rules for bitmaps\<close>
named_theorems pool_simps \<open>rewrite rules for the page pools\<close>
named_theorems pt_simps \<open>rewrite rules for page table entries\<close>

subsection \<open>Macros of util.h\<close>

definition PAGE_SIZE :: nat where
  "PAGE_SIZE = 0x1000"

definition ALIGN :: "nat \<Rightarrow> nat \<Rightarrow> nat" where
  "ALIGN v t = ((v + t - 1) div t) * t"

definition NUM_PAGES :: "nat \<Rightarrow> nat" where
  "NUM_PAGES sz = ALIGN sz PAGE_SIZE div PAGE_SIZE"

definition range_in_range :: "nat \<Rightarrow> nat \<Rightarrow> nat \<Rightarrow> nat \<Rightarrow> bool" where
  "range_in_range base1 size1 base2 size2 \<longleftrightarrow> base1 \<ge> base2 \<and> base1 + size1 \<le> base2 + size2"

definition in_range :: "nat \<Rightarrow> nat \<Rightarrow> nat \<Rightarrow> bool" where
  "in_range addr base sz = range_in_range addr 0 base sz"

text \<open>Unsigned 64-bit subtraction on naturals below \<open>2 ^ 64\<close>.\<close>

definition sub64 :: "nat \<Rightarrow> nat \<Rightarrow> nat" where
  "sub64 a b = (a + (2 ^ 64 - b mod 2 ^ 64)) mod 2 ^ 64"

lemma PAGE_SIZE_pos [simp]: "0 < PAGE_SIZE" "PAGE_SIZE \<noteq> 0"
  by (simp_all add: PAGE_SIZE_def)

lemma sub64_le: "b \<le> a \<Longrightarrow> a < 2 ^ 64 \<Longrightarrow> sub64 a b = a - b"
proof -
  assume ba: "b \<le> a" and a: "a < 2 ^ 64"
  then have "b mod 2 ^ 64 = b" by (intro mod_less) linarith
  moreover have "a + (2 ^ 64 - b) = (a - b) + 2 ^ 64" using ba a by linarith
  moreover have "((a - b) + 2 ^ 64) mod 2 ^ 64 = (a - b :: nat)"
    using a by (simp only: mod_add_self2) (rule mod_less, linarith)
  ultimately show ?thesis by (simp only: sub64_def)
qed

lemma ALIGN_multiple: "t dvd ALIGN v t"
  by (simp add: ALIGN_def)

lemma ALIGN_ge: "0 < t \<Longrightarrow> v \<le> ALIGN v t"
proof -
  assume t: "0 < t"
  have "v + t - 1 = (v + t - 1) div t * t + (v + t - 1) mod t" by simp
  moreover have "(v + t - 1) mod t < t" using t by simp
  ultimately show ?thesis unfolding ALIGN_def using t by linarith
qed

lemma ALIGN_lt: "0 < t \<Longrightarrow> ALIGN v t < v + t"
proof -
  assume t: "0 < t"
  have "(v + t - 1) div t * t \<le> v + t - 1" by simp
  then show ?thesis unfolding ALIGN_def using t by linarith
qed

lemma NUM_PAGES_ge: "sz \<le> NUM_PAGES sz * PAGE_SIZE"
proof -
  have "PAGE_SIZE dvd ALIGN sz PAGE_SIZE" by (rule ALIGN_multiple)
  then have "NUM_PAGES sz * PAGE_SIZE = ALIGN sz PAGE_SIZE" by (simp add: NUM_PAGES_def)
  then show ?thesis by (simp add: ALIGN_ge)
qed

lemma NUM_PAGES_mult [simp]: "NUM_PAGES (k * PAGE_SIZE) = k"
proof -
  have "(k * PAGE_SIZE + PAGE_SIZE - 1) div PAGE_SIZE = k"
    by (simp add: PAGE_SIZE_def)
  then show ?thesis by (simp add: NUM_PAGES_def ALIGN_def)
qed


subsection \<open>Linear search as a loop\<close>

lemma while_search_Some:
  assumes "while_option (\<lambda>i. \<not> P i) Suc start = Some r"
  shows "start \<le> r" "P r" "\<And>i. start \<le> i \<Longrightarrow> i < r \<Longrightarrow> \<not> P i"
proof -
  show "P r" using while_option_stop [OF assms] by simp
  have inv: "start \<le> r \<and> (\<forall>i. start \<le> i \<and> i < r \<longrightarrow> \<not> P i)"
    by (rule while_option_rule [where P = "\<lambda>r. start \<le> r \<and> (\<forall>i. start \<le> i \<and> i < r \<longrightarrow> \<not> P i)",
          OF _ assms]) (auto simp: less_Suc_eq)
  then show "start \<le> r" "\<And>i. start \<le> i \<Longrightarrow> i < r \<Longrightarrow> \<not> P i" by auto
qed

lemma while_search_exists:
  assumes "start \<le> i" "P i"
  shows "\<exists>r. while_option (\<lambda>i. \<not> P i) Suc start = Some r \<and> r \<le> i"
  using assms
proof (induction "i - start" arbitrary: start)
  case 0
  then show ?case by (subst while_option_unfold) simp
next
  case (Suc d)
  show ?case
  proof (cases "P start")
    case True
    with Suc.prems show ?thesis by (subst while_option_unfold) simp
  next
    case False
    then have "start \<noteq> i" using Suc.prems by auto
    then have "Suc start \<le> i" "d = i - Suc start" using Suc by linarith+
    then show ?thesis using Suc.hyps(1) Suc.prems False by (subst while_option_unfold) simp
  qed
qed

subsection \<open>Step relations\<close>

text \<open>
  A step relation with an invariant that every step keeps; the systems of interleaved operations of the components are
  instances. Where the initial states are given, the invariant holds in all states that are reached.
\<close>

locale step_system =
  fixes step :: "'s \<Rightarrow> 's \<Rightarrow> bool" and inv :: "'s \<Rightarrow> bool"
  assumes inv_step: "inv s \<Longrightarrow> step s t \<Longrightarrow> inv t"
begin

lemma run_inv: "rtranclp step s t \<Longrightarrow> inv s \<Longrightarrow> inv t"
  by (induction rule: rtranclp_induct) (auto intro: inv_step)

end

locale reach_system = step_system +
  fixes start :: "'s \<Rightarrow> bool"
  assumes inv_start: "start s \<Longrightarrow> inv s"
begin

lemma reach_inv: "start s \<Longrightarrow> rtranclp step s t \<Longrightarrow> inv t"
  using inv_start run_inv by blast

end

end
