(* ===== verification/Spinlock.thy ===== *)
theory Spinlock
  imports Prelude
begin

text \<open>
  The ticket spin lock of \<^verbatim>\<open>arch/riscv/riscv_locks.c\<close>. The lock is a 32-bit word: the low half is the
  ticket being served (\<^verbatim>\<open>owner\<close>), the high half the next ticket to hand out (\<^verbatim>\<open>next\<close>). The assembly of
  \<^verbatim>\<open>spin_lock\<close>, \<^verbatim>\<open>spin_trylock\<close> and \<^verbatim>\<open>spin_unlock\<close> is a state machine per hart with one transition per
  access to the lock word; the harts interleave in any order. Memory ordering is sequentially
  consistent: the acquire and release annotations of the source are what that rests on.
\<close>

definition TICKET_SHIFT :: nat where
  "TICKET_SHIFT = 16"

definition lk_owner :: "u32 \<Rightarrow> u16" where
  "lk_owner w = ucast w"

definition lk_next :: "u32 \<Rightarrow> u16" where
  "lk_next w = ucast (drop_bit TICKET_SHIFT w)"

definition spin_lock_unlocked :: "u32 \<Rightarrow> bool" where
  "spin_lock_unlocked w \<longleftrightarrow> lk_owner w = lk_next w"

definition spin_lock_check :: "u32 \<Rightarrow> bool" where
  "spin_lock_check w \<longleftrightarrow> \<not> spin_lock_unlocked w"

definition SPINLOCK_INITVAL :: u32 where
  "SPINLOCK_INITVAL = 0"

definition take_ticket :: "u32 \<Rightarrow> u32" where
  "take_ticket w = w + push_bit TICKET_SHIFT 1"

definition store_owner :: "u32 \<Rightarrow> u16 \<Rightarrow> u32" where
  "store_owner w o' = push_bit TICKET_SHIFT (drop_bit TICKET_SHIFT w) OR ucast o'"

text \<open>
  Where a hart is in the code. \<open>Check t l0\<close>: in \<^verbatim>\<open>spin_lock\<close> with ticket \<open>t\<close>, the lock word last read
  is \<open>l0\<close>; \<open>Reload t\<close>: about to read it again; \<open>TryCheck l0\<close>: between \<^verbatim>\<open>lr\<close> and \<^verbatim>\<open>sc\<close> of \<^verbatim>\<open>spin_trylock\<close>;
  \<open>Held t\<close>: in the critical section; \<open>Release t o\<close>: in \<^verbatim>\<open>spin_unlock\<close>, having read the owner field.
  The ticket kept by \<open>Held\<close> and \<open>Release\<close> is not in a register of the program, it names the hart's
  place for the statements below.
\<close>

datatype pc = Out | Check u16 u32 | Reload u16 | TryCheck u32 | TryFailed | Held u16 | Release u16 u16

definition spin_lock_step :: "pc \<Rightarrow> u32 \<Rightarrow> pc \<times> u32" where
  "spin_lock_step p w =
     (case p of
        Out \<Rightarrow> (Check (lk_next w) w, take_ticket w)
      | Check t l0 \<Rightarrow> (if t = lk_owner l0 then Held t else Reload t, w)
      | Reload t \<Rightarrow> (Check t w, w)
      | _ \<Rightarrow> (p, w))"

text \<open>\<^verbatim>\<open>sc\<close> fails when the word has changed since \<^verbatim>\<open>lr\<close>, and may fail without a reason (\<open>ok\<close>).\<close>

definition spin_trylock_step :: "bool \<Rightarrow> pc \<Rightarrow> u32 \<Rightarrow> pc \<times> u32" where
  "spin_trylock_step ok p w =
     (case p of
        Out \<Rightarrow> (if lk_next w = lk_owner w then TryCheck w else TryFailed, w)
      | TryCheck l0 \<Rightarrow> (if ok \<and> w = l0 then (Held (lk_next l0), take_ticket l0) else (Out, w))
      | TryFailed \<Rightarrow> (Out, w)
      | _ \<Rightarrow> (p, w))"

definition spin_unlock_step :: "pc \<Rightarrow> u32 \<Rightarrow> pc \<times> u32" where
  "spin_unlock_step p w =
     (case p of
        Held t \<Rightarrow> (Release t (lk_owner w), w)
      | Release t v \<Rightarrow> (Out, store_owner w (v + 1))
      | _ \<Rightarrow> (p, w))"

record lock_state =
  word :: u32
  pcs :: "nat \<Rightarrow> pc"

definition lock_init :: lock_state where
  "lock_init = \<lparr>word = SPINLOCK_INITVAL, pcs = (\<lambda>_. Out)\<rparr>"

definition upd_hart :: "lock_state \<Rightarrow> nat \<Rightarrow> pc \<times> u32 \<Rightarrow> lock_state" where
  "upd_hart s i r = \<lparr>word = snd r, pcs = (pcs s)(i := fst r)\<rparr>"

inductive lock_step :: "nat \<Rightarrow> lock_state \<Rightarrow> lock_state \<Rightarrow> bool" for n where
  lock: "i < n \<Longrightarrow> lock_step n s (upd_hart s i (spin_lock_step (pcs s i) (word s)))"
| trylock: "i < n \<Longrightarrow> lock_step n s (upd_hart s i (spin_trylock_step ok (pcs s i) (word s)))"
| unlock: "i < n \<Longrightarrow> lock_step n s (upd_hart s i (spin_unlock_step (pcs s i) (word s)))"

inductive lock_reach :: "nat \<Rightarrow> lock_state \<Rightarrow> bool" for n where
  init: "lock_reach n lock_init"
| step: "lock_reach n s \<Longrightarrow> lock_step n s t \<Longrightarrow> lock_reach n t"

subsection \<open>The fields of the lock word\<close>

lemma unat_lk_owner: "unat (lk_owner w) = unat w mod 2 ^ 16"
  by (simp add: lk_owner_def unsigned_ucast_eq take_bit_eq_mod)

lemma unat_lk_next: "unat (lk_next w) = unat w div 2 ^ 16"
proof -
  have "unat w < 2 ^ 32" using unsigned_less [of w, where ?'a = nat] by simp
  then have "unat w div 2 ^ 16 < 2 ^ 16" by simp
  moreover have "unat (lk_next w) = unat w div 2 ^ 16 mod 2 ^ 16"
    by (simp add: lk_next_def TICKET_SHIFT_def unsigned_ucast_eq take_bit_eq_mod drop_bit_eq_div unat_div_distrib)
  ultimately show ?thesis by (simp only: mod_less)
qed

lemma unat_take_ticket: "unat (take_ticket w) = (unat w + 2 ^ 16) mod 2 ^ 32"
  by (simp add: take_ticket_def TICKET_SHIFT_def unat_word_ariths push_bit_eq_mult)

lemma lk_owner_take [simp]: "lk_owner (take_ticket w) = lk_owner w"
proof -
  have "(unat w + 2 ^ 16) mod 2 ^ 32 mod 2 ^ 16 = (unat w + 2 ^ 16) mod 2 ^ 16"
    by (rule mod_mod_cancel) (simp add: le_imp_power_dvd)
  then show ?thesis by (simp add: word_unat_eq_iff unat_lk_owner unat_take_ticket)
qed

lemma lk_next_take [simp]: "lk_next (take_ticket w) = lk_next w + 1"
proof -
  have "(unat w + 2 ^ 16) mod (2 ^ 16 * 2 ^ 16) div 2 ^ 16 = (unat w + 2 ^ 16) div 2 ^ 16 mod 2 ^ 16"
    by (simp only: mod_mult2_eq) simp
  also have "(unat w + 2 ^ 16) div 2 ^ 16 = unat w div 2 ^ 16 + 1" by simp
  finally show ?thesis
    by (simp add: word_unat_eq_iff unat_lk_next unat_take_ticket unat_word_ariths)
qed

lemma lk_owner_store [simp]: "lk_owner (store_owner w v) = v"
  unfolding lk_owner_def store_owner_def TICKET_SHIFT_def by (rule bit_word_eqI) (auto simp: bit_simps)

lemma lk_next_store [simp]: "lk_next (store_owner w v) = lk_next w"
  unfolding lk_next_def store_owner_def TICKET_SHIFT_def
  by (rule bit_word_eqI) (auto simp: bit_simps dest: bit_imp_le_length)

subsection \<open>The queue of tickets\<close>

fun ticket :: "pc \<Rightarrow> u16 option" where
  "ticket (Check t l0) = Some t"
| "ticket (Reload t) = Some t"
| "ticket (Held t) = Some t"
| "ticket (Release t v) = Some t"
| "ticket _ = None"

definition queued :: "nat \<Rightarrow> lock_state \<Rightarrow> nat set" where
  "queued n s = {i. i < n \<and> ticket (pcs s i) \<noteq> None}"

text \<open>How many harts are served before the hart \<open>i\<close>.\<close>

definition position :: "lock_state \<Rightarrow> nat \<Rightarrow> nat" where
  "position s i = unat (the (ticket (pcs s i)) - lk_owner (word s))"

fun in_turn :: "pc \<Rightarrow> bool" where
  "in_turn (Check t l0) \<longleftrightarrow> t = lk_owner l0"
| "in_turn (Held t) \<longleftrightarrow> True"
| "in_turn (Release t v) \<longleftrightarrow> True"
| "in_turn _ \<longleftrightarrow> False"

fun in_critical :: "pc \<Rightarrow> bool" where
  "in_critical (Held t) \<longleftrightarrow> True"
| "in_critical (Release t v) \<longleftrightarrow> True"
| "in_critical _ \<longleftrightarrow> False"

fun pc_ok :: "u16 \<Rightarrow> pc \<Rightarrow> bool" where
  "pc_ok ow (Release t v) \<longleftrightarrow> v = ow"
| "pc_ok ow (TryCheck l0) \<longleftrightarrow> lk_next l0 = lk_owner l0"
| "pc_ok ow _ \<longleftrightarrow> True"

definition lock_inv :: "nat \<Rightarrow> lock_state \<Rightarrow> bool" where
  "lock_inv n s \<longleftrightarrow>
     inj_on (position s) (queued n s) \<and>
     (\<forall>i \<in> queued n s. position s i < card (queued n s)) \<and>
     unat (lk_next (word s) - lk_owner (word s)) = card (queued n s) \<and>
     (\<forall>i < n. in_turn (pcs s i) \<longrightarrow> position s i = 0) \<and>
     (\<forall>i < n. pc_ok (lk_owner (word s)) (pcs s i))"

lemma finite_queued [simp]: "finite (queued n s)"
  by (simp add: queued_def)

lemma card_queued_le: "card (queued n s) \<le> n"
  using card_mono [of "{..<n}" "queued n s"] by (auto simp: queued_def)

lemma in_turn_ticket: "in_turn p \<Longrightarrow> ticket p \<noteq> None"
  by (cases p) auto

lemma lock_inv_init: "lock_inv n lock_init"
  by (simp add: lock_inv_def lock_init_def queued_def lk_next_def lk_owner_def SPINLOCK_INITVAL_def)

text \<open>A transition that neither takes a ticket nor serves one.\<close>

lemma lock_inv_local:
  assumes "lock_inv n s" "i < n" "ticket p = ticket (pcs s i)"
    "in_turn p \<Longrightarrow> the (ticket p) = lk_owner (word s)" "pc_ok (lk_owner (word s)) p"
  shows "lock_inv n (upd_hart s i (p, word s))"
proof -
  let ?s = "upd_hart s i (p, word s)"
  have q: "queued n ?s = queued n s" using assms(3) by (auto simp: queued_def upd_hart_def)
  have pos: "position ?s = position s" using assms(3) by (auto simp: position_def upd_hart_def)
  have w: "word ?s = word s" by (simp add: upd_hart_def)
  have "position s i = 0" if "in_turn p" using assms(3,4) that by (simp add: position_def)
  then show ?thesis using assms(1,2,5) unfolding lock_inv_def q pos w by (auto simp: upd_hart_def)
qed

lemma lock_inv_take:
  assumes "lock_inv n s" "i < n" "n < 2 ^ 16" "ticket (pcs s i) = None" "ticket p = Some (lk_next (word s))"
    "in_turn p \<Longrightarrow> lk_next (word s) = lk_owner (word s)" "pc_ok (lk_owner (word s)) p"
  shows "lock_inv n (upd_hart s i (p, take_ticket (word s)))"
proof -
  let ?s = "upd_hart s i (p, take_ticket (word s))" and ?k = "card (queued n s)"
  let ?d = "lk_next (word s) - lk_owner (word s)"
  have i: "i \<notin> queued n s" using assms(4) by (simp add: queued_def)
  have q: "queued n ?s = insert i (queued n s)" using assms(2,5) by (auto simp: queued_def upd_hart_def)
  then have c: "card (queued n ?s) = ?k + 1" using i by simp
  have d: "unat ?d = ?k" using assms(1) by (simp add: lock_inv_def)
  have le: "?k + 1 < 2 ^ 16" using card_queued_le [of n ?s] c assms(3) by simp
  have pos: "position ?s j = (if j = i then ?k else position s j)" for j
    using assms(5) d by (simp add: position_def upd_hart_def)
  have nx: "unat (?d + 1) = ?k + 1"
    using le d by (simp add: unat_word_ariths)
  have old: "inj_on (position s) (queued n s)" "\<forall>j \<in> queued n s. position s j < ?k"
    "\<forall>j < n. in_turn (pcs s j) \<longrightarrow> position s j = 0"
    "\<forall>j < n. pc_ok (lk_owner (word s)) (pcs s j)"
    using assms(1) by (simp_all add: lock_inv_def)
  have same: "position ?s j = position s j" if "j \<in> queued n s" for j
    using that i pos by (cases "j = i") simp_all
  then have "inj_on (position ?s) (queued n s)" using old(1) inj_on_cong [of "queued n s"] by metis
  moreover have "position ?s i \<notin> position ?s ` queued n s" using old(2) same pos [of i] by fastforce
  ultimately have "inj_on (position ?s) (queued n ?s)" unfolding q using i by simp
  moreover have "\<forall>j \<in> queued n ?s. position ?s j < ?k + 1" unfolding q using old(2) by (auto simp: pos)
  moreover have "\<forall>j < n. in_turn (pcs ?s j) \<longrightarrow> position ?s j = 0"
    unfolding pos using old(3) assms(6) d by (auto simp: upd_hart_def)
  moreover have "unat (lk_next (word ?s) - lk_owner (word ?s)) = ?k + 1"
    using nx by (simp add: upd_hart_def add_diff_eq diff_add_eq)
  ultimately show ?thesis
    unfolding lock_inv_def c using old(4) assms(7) by (simp add: upd_hart_def)
qed

lemma lock_inv_release:
  assumes "lock_inv n s" "i < n" "n < 2 ^ 16" "pcs s i = Release t v"
  shows "lock_inv n (upd_hart s i (Out, store_owner (word s) (v + 1)))"
    and "j \<in> queued n s - {i} \<Longrightarrow>
      position (upd_hart s i (Out, store_owner (word s) (v + 1))) j + 1 = position s j"
proof -
  let ?s = "upd_hart s i (Out, store_owner (word s) (v + 1))" and ?k = "card (queued n s)"
  have old: "inj_on (position s) (queued n s)" "\<forall>j \<in> queued n s. position s j < ?k"
    "\<forall>j < n. in_turn (pcs s j) \<longrightarrow> position s j = 0"
    "\<forall>j < n. pc_ok (lk_owner (word s)) (pcs s j)"
    "unat (lk_next (word s) - lk_owner (word s)) = ?k"
    using assms(1) by (simp_all add: lock_inv_def)
  have v: "v = lk_owner (word s)" using old(4) assms(2,4) by fastforce
  have p0: "position s i = 0" using old(3) assms(2,4) by simp
  have i: "i \<in> queued n s" using assms(2,4) by (simp add: queued_def)
  have q: "queued n ?s = queued n s - {i}" by (auto simp: queued_def upd_hart_def)
  then have c: "card (queued n ?s) = ?k - 1" "0 < ?k" using i by (auto simp: card_gt_0_iff)
  have shift: "unat (x - (lk_owner (word s) + 1)) + 1 = unat (x - lk_owner (word s))"
    if "0 < unat (x - lk_owner (word s))" for x :: u16
  proof -
    have "x - (lk_owner (word s) + 1) = (x - lk_owner (word s)) - 1" by simp
    moreover have "x - lk_owner (word s) \<noteq> 0" using that by auto
    ultimately show ?thesis using unat_minus_one that by (metis Suc_diff_1 Suc_eq_plus1)
  qed
  have pos: "position ?s j + 1 = position s j" if "j \<in> queued n s - {i}" for j
  proof -
    have "0 < position s j" using old(1) p0 i that by (metis DiffE inj_on_eq_iff insertI1 not_gr_zero)
    then show ?thesis using shift that v by (simp add: position_def upd_hart_def)
  qed
  show "j \<in> queued n s - {i} \<Longrightarrow> position ?s j + 1 = position s j" by (rule pos)
  have inj: "inj_on (position ?s) (queued n ?s)"
    unfolding q using old(1) pos by (auto simp: inj_on_def) (metis Diff_iff singletonD)
  have "\<forall>j \<in> queued n ?s. position ?s j < ?k - 1"
    unfolding q using old(2) pos by fastforce
  moreover have "unat (lk_next (word ?s) - lk_owner (word ?s)) = ?k - 1"
    using shift [of "lk_next (word s)"] old(5) c(2) v by (simp add: upd_hart_def)
  moreover have none: "\<not> in_turn (pcs s j)" if "j < n" "j \<noteq> i" for j
  proof
    assume t: "in_turn (pcs s j)"
    then have "j \<in> queued n s" using in_turn_ticket that by (simp add: queued_def)
    then show False using old(1,3) p0 i t that by (metis inj_on_eq_iff)
  qed
  then have "\<forall>j < n. in_turn (pcs ?s j) \<longrightarrow> position ?s j = 0" by (auto simp: upd_hart_def)
  moreover have "pc_ok (lk_owner (word ?s)) (pcs ?s j)" if "j < n" for j
    using none [OF that] old(4) that by (cases "pcs s j") (auto simp: upd_hart_def)
  ultimately show "lock_inv n ?s" unfolding lock_inv_def c(1) using inj by blast
qed

lemma lock_inv_at:
  assumes "lock_inv n s" "i < n"
  shows "in_turn (pcs s i) \<Longrightarrow> the (ticket (pcs s i)) = lk_owner (word s)" "pc_ok (lk_owner (word s)) (pcs s i)"
proof -
  show "pc_ok (lk_owner (word s)) (pcs s i)" using assms by (simp add: lock_inv_def)
  assume "in_turn (pcs s i)"
  then have "unat (the (ticket (pcs s i)) - lk_owner (word s)) = 0"
    using assms by (simp add: lock_inv_def position_def)
  then have "the (ticket (pcs s i)) - lk_owner (word s) = 0" by (simp only: word_unat_eq_iff unsigned_0)
  then show "the (ticket (pcs s i)) = lk_owner (word s)" by simp
qed

lemma lock_inv_step:
  assumes "lock_inv n s" "n < 2 ^ 16" "lock_step n s t"
  shows "lock_inv n t"
  using assms(3)
proof cases
  case (lock i)
  note at = lock_inv_at [OF assms(1) lock(2)] and loc = lock_inv_local [OF assms(1) lock(2)]
  show ?thesis
  proof (cases "pcs s i")
    case Out
    then show ?thesis unfolding lock(1)
      using lock_inv_take [OF assms(1) lock(2) assms(2), of "Check (lk_next (word s)) (word s)"]
      by (simp add: spin_lock_step_def)
  qed (use at in \<open>auto simp: lock(1) spin_lock_step_def intro!: loc\<close>)
next
  case (trylock i ok)
  note at = lock_inv_at [OF assms(1) trylock(2)] and loc = lock_inv_local [OF assms(1) trylock(2)]
  show ?thesis
  proof (cases "pcs s i")
    case (TryCheck l0)
    then show ?thesis unfolding trylock(1)
      using lock_inv_take [OF assms(1) trylock(2) assms(2), of "Held (lk_next (word s))"] at loc [of Out]
      by (auto simp: spin_trylock_step_def)
  qed (use at in \<open>auto simp: trylock(1) spin_trylock_step_def intro!: loc\<close>)
next
  case (unlock i)
  note at = lock_inv_at [OF assms(1) unlock(2)] and loc = lock_inv_local [OF assms(1) unlock(2)]
  show ?thesis
  proof (cases "pcs s i")
    case (Release t v)
    then show ?thesis unfolding unlock(1)
      using lock_inv_release(1) [OF assms(1) unlock(2) assms(2) Release] by (simp add: spin_unlock_step_def)
  qed (use at in \<open>auto simp: unlock(1) spin_unlock_step_def intro!: loc\<close>)
qed

lemma lock_inv_reach: "lock_reach n s \<Longrightarrow> n < 2 ^ 16 \<Longrightarrow> lock_inv n s"
  by (induction rule: lock_reach.induct) (auto intro: lock_inv_init lock_inv_step)

lemma critical_in_turn: "in_critical p \<Longrightarrow> in_turn p"
  by (cases p) auto

text \<open>One of the harts in the queue is at its head.\<close>

lemma head_exists:
  assumes "lock_inv n s" "queued n s \<noteq> {}"
  shows "\<exists>i \<in> queued n s. position s i = 0"
proof -
  have "position s ` queued n s \<subseteq> {..<card (queued n s)}" "inj_on (position s) (queued n s)"
    using assms(1) by (auto simp: lock_inv_def)
  then have "position s ` queued n s = {..<card (queued n s)}"
    by (intro card_subset_eq) (simp_all add: card_image)
  moreover have "0 \<in> {..<card (queued n s)}" using assms(2) by (simp add: card_gt_0_iff)
  ultimately show ?thesis by (metis imageE)
qed

definition run_lock :: "nat \<Rightarrow> lock_state \<Rightarrow> lock_state" where
  "run_lock i s = upd_hart s i (spin_lock_step (pcs s i) (word s))"

lemma head_enters:
  assumes "lock_inv n s" "i \<in> queued n s" "position s i = 0"
  shows "\<exists>k \<le> 3. in_critical (pcs ((run_lock i ^^ k) s) i)"
proof -
  have t: "the (ticket (pcs s i)) - lk_owner (word s) = 0"
    using assms(3) by (simp only: position_def word_unat_eq_iff unsigned_0)
  show ?thesis
  proof (cases "pcs s i")
    case (Check t l0)
    then have "in_critical (pcs (run_lock i s) i) \<or> in_critical (pcs (run_lock i (run_lock i (run_lock i s))) i)"
      using t by (auto simp: run_lock_def upd_hart_def spin_lock_step_def)
    then show ?thesis
    proof
      assume "in_critical (pcs (run_lock i s) i)"
      then show ?thesis by (intro exI [of _ 1]) (simp add: One_nat_def)
    next
      assume "in_critical (pcs (run_lock i (run_lock i (run_lock i s))) i)"
      then show ?thesis by (intro exI [of _ 3]) (simp add: numeral_3_eq_3)
    qed
  next
    case (Reload t)
    then have "in_critical (pcs (run_lock i (run_lock i s)) i)"
      using t by (auto simp: run_lock_def upd_hart_def spin_lock_step_def)
    then show ?thesis by (intro exI [of _ 2]) (simp add: numeral_2_eq_2)
  qed (use assms(2) in \<open>auto simp: queued_def intro: exI [of _ 0]\<close>)
qed

subsection \<open>Properties\<close>

text \<open>
  C4: Mutual exclusion: however fewer than \<open>2 ^ 16\<close> harts interleave the memory accesses of
  \<^verbatim>\<open>spin_lock\<close>, \<^verbatim>\<open>spin_trylock\<close> and \<^verbatim>\<open>spin_unlock\<close>, and however often the 16-bit tickets wrap around, at
  most one hart is between the end of an acquisition and the release.
\<close>

theorem spin_lock_mutual_exclusion:
  assumes "lock_reach n s" "n < 2 ^ 16" "i < n" "j < n" "in_critical (pcs s i)" "in_critical (pcs s j)"
  shows "i = j"
proof -
  have inv: "lock_inv n s" using lock_inv_reach [OF assms(1,2)] .
  have t: "in_turn (pcs s i)" "in_turn (pcs s j)" using assms(5,6) critical_in_turn by auto
  then have "i \<in> queued n s" "j \<in> queued n s" using in_turn_ticket assms(3,4) by (auto simp: queued_def)
  moreover have "position s i = 0" "position s j = 0" using inv t assms(3,4) by (auto simp: lock_inv_def)
  ultimately show ?thesis using inv by (metis lock_inv_def inj_on_eq_iff)
qed

definition two_harts :: lock_state where
  "two_harts = run_lock 1 (run_lock 0 (run_lock 0 lock_init))"

lemma run_lock_reach: "lock_reach n s \<Longrightarrow> i < n \<Longrightarrow> lock_reach n (run_lock i s)"
  unfolding run_lock_def by (rule lock_reach.step) (auto intro: lock_step.lock)

lemma two_harts_reach: "lock_reach 2 two_harts"
  unfolding two_harts_def by (intro run_lock_reach lock_reach.init) simp_all

theorem spin_lock_mutual_exclusion_witness:
  "lock_reach 2 two_harts \<and> in_critical (pcs two_harts 0) \<and> \<not> in_critical (pcs two_harts 1)"
proof -
  have "in_critical (pcs two_harts 0)" by code_simp
  then show ?thesis using two_harts_reach spin_lock_mutual_exclusion [OF two_harts_reach, of 0 1] by auto
qed

text \<open>
  C28: The lock is fair and never stuck: whenever harts have taken tickets, one of them is at the
  head of the queue and is in the critical section after at most three steps of its own; and the
  store of \<^verbatim>\<open>spin_unlock\<close> moves every other waiting hart forward by exactly one place.
\<close>

theorem spin_lock_fifo_progress:
  assumes "lock_reach n s" "n < 2 ^ 16"
  shows "(queued n s \<noteq> {} \<longrightarrow>
      (\<exists>i \<in> queued n s. position s i = 0 \<and> (\<exists>k \<le> 3. in_critical (pcs ((run_lock i ^^ k) s) i)))) \<and>
    (\<forall>i < n. \<forall>t v j. pcs s i = Release t v \<and> j \<in> queued n s - {i} \<longrightarrow>
      position (upd_hart s i (spin_unlock_step (pcs s i) (word s))) j + 1 = position s j)"
proof -
  have inv: "lock_inv n s" using lock_inv_reach [OF assms] .
  have "position (upd_hart s i (spin_unlock_step (pcs s i) (word s))) j + 1 = position s j"
    if "i < n" "pcs s i = Release t v" "j \<in> queued n s - {i}" for i t v j
    using lock_inv_release(2) [OF inv that(1) assms(2) that(2,3)] that(2) by (simp add: spin_unlock_step_def)
  then show ?thesis using head_exists [OF inv] head_enters [OF inv] by blast
qed

theorem spin_lock_fifo_progress_witness:
  "\<exists>i \<in> queued 2 two_harts. position two_harts i = 0 \<and>
     (\<exists>k \<le> 3. in_critical (pcs ((run_lock i ^^ k) two_harts) i))"
proof -
  have "ticket (pcs two_harts 0) \<noteq> None" by code_simp
  then have "0 \<in> queued 2 two_harts" by (simp add: queued_def)
  then have "queued 2 two_harts \<noteq> {}" by blast
  then show ?thesis using spin_lock_fifo_progress [OF two_harts_reach] by simp
qed

end
