(* ===== verification/Bitmap.thy ===== *)
theory Bitmap
  imports Prelude
begin

text \<open>
  \<^verbatim>\<open>lib/inc/bitmap.h\<close> and \<^verbatim>\<open>lib/bitmap.c\<close>. A \<^verbatim>\<open>bitmap_t\<close> is a pointer to 32-bit granules; the model is
  the function from the granule's index to its value, so that a read past the end of the array
  reads whatever granule is there, as the C code does. The locale \<open>bitset\<close> is the contract the
  clients of bitmaps rely on; it is interpreted on the bitmap operations themselves.
\<close>

type_synonym bitmap = "nat \<Rightarrow> u32"

definition BITMAP_GRANULE_LEN :: nat where
  "BITMAP_GRANULE_LEN = 32"

definition bitmap_set :: "bitmap \<Rightarrow> nat \<Rightarrow> bitmap" where
  "bitmap_set bm b =
     bm(b div BITMAP_GRANULE_LEN :=
       bm (b div BITMAP_GRANULE_LEN) OR push_bit (b mod BITMAP_GRANULE_LEN) 1)"

definition bitmap_clear :: "bitmap \<Rightarrow> nat \<Rightarrow> bitmap" where
  "bitmap_clear bm b =
     bm(b div BITMAP_GRANULE_LEN :=
       bm (b div BITMAP_GRANULE_LEN) AND NOT (push_bit (b mod BITMAP_GRANULE_LEN) 1))"

definition bitmap_get :: "bitmap \<Rightarrow> nat \<Rightarrow> nat" where
  "bitmap_get bm b =
     (if bm (b div BITMAP_GRANULE_LEN) AND push_bit (b mod BITMAP_GRANULE_LEN) 1 \<noteq> 0
      then 1 else 0)"

definition bitmap_set_consecutive :: "bitmap \<Rightarrow> nat \<Rightarrow> nat \<Rightarrow> bitmap" where
  "bitmap_set_consecutive bm start n = fold (\<lambda>i m. bitmap_set m (start + i)) [0..<n] bm"

definition bitmap_clear_consecutive :: "bitmap \<Rightarrow> nat \<Rightarrow> nat \<Rightarrow> bitmap" where
  "bitmap_clear_consecutive bm start n = fold (\<lambda>i m. bitmap_clear m (start + i)) [0..<n] bm"

definition bitmap_count :: "bitmap \<Rightarrow> nat \<Rightarrow> nat \<Rightarrow> bool \<Rightarrow> nat" where
  "bitmap_count bm start n st =
     fold (\<lambda>i count. if bitmap_get bm i = of_bool st then count + 1 else count) [start..<n] 0"

text \<open>The search loop of \<^verbatim>\<open>bitmap_find_nth\<close>: the loop variables are \<open>i\<close> and \<open>count\<close>.\<close>

function find_nth_loop :: "bitmap \<Rightarrow> nat \<Rightarrow> nat \<Rightarrow> nat \<Rightarrow> nat \<Rightarrow> nat \<Rightarrow> int" where
  "find_nth_loop bm sz k bv i count =
     (if i < sz then
        if bitmap_get bm i = bv then
          if count + 1 = k then int i else find_nth_loop bm sz k bv (i + 1) (count + 1)
        else find_nth_loop bm sz k bv (i + 1) count
      else -1)"
  by pat_completeness auto
termination
  by (relation "measure (\<lambda>(bm, sz, k, bv, i, count). sz - i)") auto

declare find_nth_loop.simps [simp del]

definition bitmap_find_nth :: "bitmap \<Rightarrow> nat \<Rightarrow> nat \<Rightarrow> nat \<Rightarrow> bool \<Rightarrow> int" where
  "bitmap_find_nth bm sz k start st =
     (if sz = 0 \<or> k = 0 then -1
      else find_nth_loop bm sz k (if st then 1 else 0) start 0)"

function count_consecutive_loop :: "bitmap \<Rightarrow> nat \<Rightarrow> nat \<Rightarrow> nat \<Rightarrow> nat \<Rightarrow> nat \<Rightarrow> nat" where
  "count_consecutive_loop bm sz b n start count =
     (if start < sz then
        if bitmap_get bm start = b then
          if count + 1 = n then count + 1
          else count_consecutive_loop bm sz b n (start + 1) (count + 1)
        else count
      else count)"
  by pat_completeness auto
termination
  by (relation "measure (\<lambda>(bm, sz, b, n, start, count). sz - start)") auto

declare count_consecutive_loop.simps [simp del]

definition bitmap_count_consecutive :: "bitmap \<Rightarrow> nat \<Rightarrow> nat \<Rightarrow> nat \<Rightarrow> nat" where
  "bitmap_count_consecutive bm sz start n =
     (if n \<le> 1 then n
      else count_consecutive_loop bm sz (bitmap_get bm start) n (start + 1) 1)"

text \<open>The value \<^verbatim>\<open>(size_t)-1\<close> that asks \<^verbatim>\<open>bitmap_count_consecutive\<close> for a whole run.\<close>

definition SIZE_MAX :: nat where
  "SIZE_MAX = 2 ^ 64 - 1"

lemma count_consecutive_loop_ge: "count \<le> count_consecutive_loop bm sz b n start count"
proof (induction bm sz b n start count rule: count_consecutive_loop.induct)
  case (1 bm sz b n start count)
  then show ?case by (subst count_consecutive_loop.simps) auto
qed

lemma bitmap_count_consecutive_pos: "0 < n \<Longrightarrow> 0 < bitmap_count_consecutive bm sz start n"
  using count_consecutive_loop_ge [of 1 bm sz "bitmap_get bm start" n "start + 1"]
  by (simp add: bitmap_count_consecutive_def)

function find_consec_loop :: "bitmap \<Rightarrow> nat \<Rightarrow> nat \<Rightarrow> nat \<Rightarrow> nat" where
  "find_consec_loop bm sz n i =
     (if i < sz then
        let count = bitmap_count_consecutive bm sz i n in
        if count < n then
          find_consec_loop bm sz n
            (i + count + bitmap_count_consecutive bm sz (i + count) SIZE_MAX)
        else i
      else i)"
  by pat_completeness auto
termination
proof (relation "measure (\<lambda>(bm, sz, n, i). sz - i)", goal_cases)
  case 1
  show ?case by simp
next
  case (2 bm sz n i count)
  have "0 < bitmap_count_consecutive bm sz (i + count) SIZE_MAX"
    by (rule bitmap_count_consecutive_pos) (simp add: SIZE_MAX_def)
  with 2 show ?case by simp
qed

declare find_consec_loop.simps [simp del]

text \<open>
  \<^verbatim>\<open>bitmap_find_consec\<close> returns a \<^verbatim>\<open>uint64_t\<close> that its only caller, \<^verbatim>\<open>pp_alloc\<close>, stores in an \<^verbatim>\<open>int64_t\<close>;
  the model gives the value as that caller sees it.
\<close>

definition bitmap_find_consec :: "bitmap \<Rightarrow> nat \<Rightarrow> nat \<Rightarrow> nat \<Rightarrow> bool \<Rightarrow> int" where
  "bitmap_find_consec bm sz start n st =
     (let i = bitmap_find_nth bm sz 1 start st in
      if i < 0 then -1
      else let i = find_consec_loop bm sz n (nat i) in
           if i \<ge> sz then -1 else int i)"


subsection \<open>Reading after writing\<close>

lemma bitmap_get_bit: "bitmap_get bm b = of_bool (bit (bm (b div 32)) (b mod 32))"
  by (simp add: bitmap_get_def BITMAP_GRANULE_LEN_def push_bit_eq_mult and_exp_eq_0_iff_not_bit)

lemma bitmap_get_le: "bitmap_get bm b \<le> 1"
  by (simp add: bitmap_get_bit)

lemma bitmap_get_cases: "bitmap_get bm b = 0 \<or> bitmap_get bm b = 1"
  by (simp add: bitmap_get_bit)

lemma bitmap_get_neq_0 [simp]: "bitmap_get bm b \<noteq> 0 \<longleftrightarrow> bitmap_get bm b = 1"
  by (simp add: bitmap_get_bit)

lemma bitmap_get_gt_0 [simp]: "0 < bitmap_get bm b \<longleftrightarrow> bitmap_get bm b = 1"
  by (simp add: bitmap_get_bit)

lemma granule_eqD: "b div 32 = c div 32 \<Longrightarrow> b mod 32 = c mod 32 \<Longrightarrow> b = (c::nat)"
  by (metis div_mult_mod_eq)

lemma bitmap_get_set [bm_simps]:
  "bitmap_get (bitmap_set bm b) c = (if c = b then 1 else bitmap_get bm c)"
  by (auto simp: bitmap_get_bit bitmap_set_def BITMAP_GRANULE_LEN_def bit_simps dest: granule_eqD)

lemma bitmap_get_clear [bm_simps]:
  "bitmap_get (bitmap_clear bm b) c = (if c = b then 0 else bitmap_get bm c)"
  by (auto simp: bitmap_get_bit bitmap_clear_def BITMAP_GRANULE_LEN_def bit_simps dest: granule_eqD)

text \<open>A 64-bit word read as a bitmap, \<^verbatim>\<open>(bitmap_t)&w\<close> on a little-endian machine.\<close>

definition word_bitmap :: "u64 \<Rightarrow> bitmap" where
  "word_bitmap w = (\<lambda>g. ucast (drop_bit (32 * g) w))"

lemma word_bitmap_get: "i < 64 \<Longrightarrow> bitmap_get (word_bitmap w) i = of_bool (bit w i)"
proof -
  assume "i < 64"
  have "32 * (i div 32) + i mod 32 = i" by simp
  then show ?thesis by (simp add: bitmap_get_bit word_bitmap_def bit_simps)
qed

subsection \<open>The contract of a bit set\<close>

locale bitset =
  fixes get :: "'m \<Rightarrow> nat \<Rightarrow> nat"
    and ins :: "'m \<Rightarrow> nat \<Rightarrow> 'm"
    and del :: "'m \<Rightarrow> nat \<Rightarrow> 'm"
  assumes get_ins: "get (ins m b) c = (if c = b then 1 else get m c)"
    and get_del: "get (del m b) c = (if c = b then 0 else get m c)"
    and get_range: "get m b = 0 \<or> get m b = 1"
begin

lemma get_ins_consecutive:
  "get (fold (\<lambda>i m. ins m (s + i)) [0..<n] m) c = (if s \<le> c \<and> c < s + n then 1 else get m c)"
  by (induction n) (auto simp: get_ins)

lemma get_del_consecutive:
  "get (fold (\<lambda>i m. del m (s + i)) [0..<n] m) c = (if s \<le> c \<and> c < s + n then 0 else get m c)"
  by (induction n) (auto simp: get_del)

lemma ins_member: "get (ins m b) b = 1"
  by (simp add: get_ins)

lemma del_ins_other: "c \<noteq> b \<Longrightarrow> get (del (ins m b) b) c = get m c"
  by (simp add: get_ins get_del)

lemma count_ins:
  assumes "finite S" "b \<in> S" "get m b = 0"
  shows "card {x \<in> S. get (ins m b) x = 1} = Suc (card {x \<in> S. get m x = 1})"
proof -
  have "{x \<in> S. get (ins m b) x = 1} = insert b {x \<in> S. get m x = 1}"
    using assms by (auto simp: get_ins)
  with assms show ?thesis by simp
qed

end

interpretation bmset: bitset bitmap_get bitmap_set bitmap_clear
  by unfold_locales (simp_all add: bm_simps bitmap_get_cases)

lemma bitmap_get_set_consecutive [bm_simps]:
  "bitmap_get (bitmap_set_consecutive bm s n) c =
     (if s \<le> c \<and> c < s + n then 1 else bitmap_get bm c)"
  unfolding bitmap_set_consecutive_def by (rule bmset.get_ins_consecutive)

lemma bitmap_get_clear_consecutive [bm_simps]:
  "bitmap_get (bitmap_clear_consecutive bm s n) c =
     (if s \<le> c \<and> c < s + n then 0 else bitmap_get bm c)"
  unfolding bitmap_clear_consecutive_def by (rule bmset.get_del_consecutive)

subsection \<open>Counting\<close>

definition bits_in :: "bitmap \<Rightarrow> nat \<Rightarrow> nat \<Rightarrow> nat \<Rightarrow> nat" where
  "bits_in bm v i j = length (filter (\<lambda>x. bitmap_get bm x = v) [i..<j])"

lemma bits_in_Suc: "i < j \<Longrightarrow> bits_in bm v i j = of_bool (bitmap_get bm i = v) + bits_in bm v (i + 1) j"
  by (simp add: bits_in_def upt_conv_Cons Suc_eq_plus1 del: upt_Suc)

lemma bits_in_empty [simp]: "j \<le> i \<Longrightarrow> bits_in bm v i j = 0"
  by (simp add: bits_in_def)

lemma bits_in_eq_card: "bits_in bm v i j = card {x. i \<le> x \<and> x < j \<and> bitmap_get bm x = v}"
proof -
  have "bits_in bm v i j = card (set (filter (\<lambda>x. bitmap_get bm x = v) [i..<j]))"
    unfolding bits_in_def by (rule distinct_card [symmetric]) simp
  then show ?thesis by (simp add: conj_assoc)
qed

lemma fold_count: "fold (\<lambda>x c. if P x then c + 1 else c) xs (c::nat) = c + length (filter P xs)"
  by (induction xs arbitrary: c) auto

lemma bitmap_count_eq: "bitmap_count bm start n st = bits_in bm (of_bool st) start n"
  by (simp only: bitmap_count_def bits_in_def fold_count add_0)

subsection \<open>Searching for the nth bit\<close>

lemma find_nth_loop_spec:
  assumes "count < k"
  shows "(find_nth_loop bm sz k v i count = -1 \<and> bits_in bm v i sz + count < k) \<or>
         (\<exists>r. find_nth_loop bm sz k v i count = int r \<and> i \<le> r \<and> r < sz \<and> bitmap_get bm r = v \<and>
              bits_in bm v i r + count + 1 = k)"
  using assms
proof (induction bm sz k v i count rule: find_nth_loop.induct)
  case (1 bm sz k v i count)
  note step = find_nth_loop.simps [of bm sz k v i count]
  consider (stop) "\<not> i < sz" | (hit) "i < sz" "bitmap_get bm i = v" "count + 1 = k"
    | (tk) "i < sz" "bitmap_get bm i = v" "count + 1 < k" | (skip) "i < sz" "bitmap_get bm i \<noteq> v"
    using "1.prems" by linarith
  then show ?case
  proof cases
    case stop
    with "1.prems" step show ?thesis by simp
  next
    case hit
    with step show ?thesis by auto
  next
    case tk
    then have "find_nth_loop bm sz k v i count = find_nth_loop bm sz k v (i + 1) (count + 1)"
      using step by simp
    moreover have "(find_nth_loop bm sz k v (i + 1) (count + 1) = -1 \<and>
          bits_in bm v (i + 1) sz + (count + 1) < k) \<or>
        (\<exists>r. find_nth_loop bm sz k v (i + 1) (count + 1) = int r \<and> i + 1 \<le> r \<and> r < sz \<and>
          bitmap_get bm r = v \<and> bits_in bm v (i + 1) r + (count + 1) + 1 = k)"
      using "1.IH"(1) tk by simp
    ultimately show ?thesis using tk bits_in_Suc [of i sz bm v] bits_in_Suc [of i _ bm v]
      by auto
  next
    case skip
    then have "find_nth_loop bm sz k v i count = find_nth_loop bm sz k v (i + 1) count"
      using step by simp
    moreover have "(find_nth_loop bm sz k v (i + 1) count = -1 \<and>
          bits_in bm v (i + 1) sz + count < k) \<or>
        (\<exists>r. find_nth_loop bm sz k v (i + 1) count = int r \<and> i + 1 \<le> r \<and> r < sz \<and>
          bitmap_get bm r = v \<and> bits_in bm v (i + 1) r + count + 1 = k)"
      using "1.IH"(2) skip "1.prems" by simp
    ultimately show ?thesis using skip bits_in_Suc [of i sz bm v] bits_in_Suc [of i _ bm v]
      by auto
  qed
qed

lemma bitmap_find_nth_spec:
  assumes "0 < k"
  shows "(bitmap_find_nth bm sz k start st = -1 \<and> bits_in bm (of_bool st) start sz < k) \<or>
         (\<exists>r. bitmap_find_nth bm sz k start st = int r \<and> start \<le> r \<and> r < sz \<and>
              bitmap_get bm r = of_bool st \<and> bits_in bm (of_bool st) start r + 1 = k)"
proof (cases "sz = 0")
  case True
  with assms show ?thesis by (simp add: bitmap_find_nth_def)
next
  case False
  have v: "(if st then 1 else 0) = (of_bool st :: nat)" by simp
  from find_nth_loop_spec [of 0 k bm sz "of_bool st" start] assms False show ?thesis
    by (simp add: bitmap_find_nth_def v)
qed


subsection \<open>Runs of equal bits\<close>

definition bit_run :: "bitmap \<Rightarrow> nat \<Rightarrow> nat \<Rightarrow> nat \<Rightarrow> bool" where
  "bit_run bm v r n \<longleftrightarrow> (\<forall>x \<in> {r..<r + n}. bitmap_get bm x = v)"

lemma bit_runD: "bit_run bm v r n \<Longrightarrow> r \<le> x \<Longrightarrow> x < r + n \<Longrightarrow> bitmap_get bm x = v"
  by (simp add: bit_run_def)

lemma bit_run_0 [simp]: "bit_run bm v r 0"
  by (simp add: bit_run_def)

lemma bit_run_1 [simp]: "bit_run bm v r 1 \<longleftrightarrow> bitmap_get bm r = v"
  by (simp add: bit_run_def One_nat_def)

lemma bit_run_Suc: "bitmap_get bm r = v \<Longrightarrow> bit_run bm v (r + 1) n \<Longrightarrow> bit_run bm v r (n + 1)"
  unfolding bit_run_def
proof
  fix x assume "bitmap_get bm r = v" "\<forall>x\<in>{r + 1..<r + 1 + n}. bitmap_get bm x = v" "x \<in> {r..<r + (n + 1)}"
  then show "bitmap_get bm x = v" by (cases "x = r") auto
qed

lemma count_consecutive_loop_spec:
  assumes "count < n" "start \<le> sz"
  obtains j where "count_consecutive_loop bm sz b n start count = count + j" "count + j \<le> n"
    "start + j \<le> sz" "bit_run bm b start j"
    "count + j < n \<Longrightarrow> start + j < sz \<Longrightarrow> bitmap_get bm (start + j) \<noteq> b"
proof -
  have "\<exists>j. count_consecutive_loop bm sz b n start count = count + j \<and> count + j \<le> n \<and>
    start + j \<le> sz \<and> bit_run bm b start j \<and>
    (count + j < n \<and> start + j < sz \<longrightarrow> bitmap_get bm (start + j) \<noteq> b)"
    using assms
  proof (induction bm sz b n start count rule: count_consecutive_loop.induct)
    case (1 bm sz b n start count)
    note step = count_consecutive_loop.simps [of bm sz b n start count]
    consider (stop) "\<not> start < sz \<or> bitmap_get bm start \<noteq> b"
      | (last) "start < sz" "bitmap_get bm start = b" "count + 1 = n"
      | (more) "start < sz" "bitmap_get bm start = b" "count + 1 < n"
      using "1.prems" by linarith
    then show ?case
    proof cases
      case stop
      then show ?thesis using step "1.prems" by (intro exI [of _ 0]) auto
    next
      case last
      then show ?thesis using step "1.prems" by (intro exI [of _ 1]) auto
    next
      case more
      then obtain j where j: "count_consecutive_loop bm sz b n (start + 1) (count + 1) = count + 1 + j"
        "count + 1 + j \<le> n" "start + 1 + j \<le> sz" "bit_run bm b (start + 1) j"
        "count + 1 + j < n \<and> start + 1 + j < sz \<longrightarrow> bitmap_get bm (start + 1 + j) \<noteq> b"
        using "1.IH" by auto
      then have "bit_run bm b start (j + 1)" using more bit_run_Suc by blast
      with j more step show ?thesis by (intro exI [of _ "j + 1"]) (auto simp: ac_simps)
    qed
  qed
  then show thesis using that by blast
qed

lemma bitmap_count_consecutive_spec:
  fixes bm :: bitmap
  assumes "start < sz" "0 < n"
  defines "c \<equiv> bitmap_count_consecutive bm sz start n"
  shows "0 < c" "c \<le> n" "start + c \<le> sz" "bit_run bm (bitmap_get bm start) start c"
    "c < n \<Longrightarrow> start + c < sz \<Longrightarrow> bitmap_get bm (start + c) \<noteq> bitmap_get bm start"
proof -
  have "0 < c \<and> c \<le> n \<and> start + c \<le> sz \<and> bit_run bm (bitmap_get bm start) start c \<and>
    (c < n \<and> start + c < sz \<longrightarrow> bitmap_get bm (start + c) \<noteq> bitmap_get bm start)"
  proof (cases "n \<le> 1")
    case True
    with assms have "c = 1" "n = 1" by (simp_all add: bitmap_count_consecutive_def)
    with assms(1) show ?thesis by simp
  next
    case False
    then obtain j where j: "c = 1 + j" "1 + j \<le> n" "start + 1 + j \<le> sz"
        "bit_run bm (bitmap_get bm start) (start + 1) j"
        "1 + j < n \<Longrightarrow> start + 1 + j < sz \<Longrightarrow> bitmap_get bm (start + 1 + j) \<noteq> bitmap_get bm start"
      using count_consecutive_loop_spec [of 1 n "start + 1" sz bm "bitmap_get bm start"] assms
      by (auto simp: bitmap_count_consecutive_def)
    then have "bit_run bm (bitmap_get bm start) start (j + 1)" by (intro bit_run_Suc) auto
    with j show ?thesis by (auto simp: ac_simps)
  qed
  then show "0 < c" "c \<le> n" "start + c \<le> sz" "bit_run bm (bitmap_get bm start) start c"
    "c < n \<Longrightarrow> start + c < sz \<Longrightarrow> bitmap_get bm (start + c) \<noteq> bitmap_get bm start" by auto
qed

text \<open>A run of \<open>n\<close> bits of value \<open>v\<close> at \<open>r\<close> inside the first \<open>sz\<close> bits.\<close>

definition run_at :: "bitmap \<Rightarrow> nat \<Rightarrow> nat \<Rightarrow> nat \<Rightarrow> nat \<Rightarrow> bool" where
  "run_at bm v sz n r \<longleftrightarrow> r + n \<le> sz \<and> bit_run bm v r n"

lemma no_run_across:
  assumes "bitmap_get bm y \<noteq> v" "r \<le> y" "y < r + n"
  shows "\<not> run_at bm v sz n r"
  using assms by (auto simp: run_at_def dest: bit_runD)

lemma find_consec_loop_spec:
  assumes "i < sz" "bitmap_get bm i = v" "0 < n" "sz \<le> SIZE_MAX" "v \<le> 1"
  defines "f \<equiv> find_consec_loop bm sz n i"
  shows "i \<le> f \<and> (f < sz \<longrightarrow> run_at bm v sz n f) \<and>
         (\<forall>r \<in> {i..<min f sz}. \<not> run_at bm v sz n r)"
  using assms(1-4) unfolding f_def
proof (induction bm sz n i rule: find_consec_loop.induct)
  case (1 bm sz n i)
  note step = find_consec_loop.simps [of bm sz n i]
  let ?c = "bitmap_count_consecutive bm sz i n"
  let ?d = "bitmap_count_consecutive bm sz (i + ?c) SIZE_MAX"
  have sm: "0 < SIZE_MAX" by (simp add: SIZE_MAX_def)
  note c = bitmap_count_consecutive_spec [OF "1.prems"(1,3), of bm]
  consider (found) "?c = n" | (short_end) "?c < n" "i + ?c = sz"
    | (short) "?c < n" "i + ?c < sz" using c by linarith
  then show ?case
  proof cases
    case found
    then have "find_consec_loop bm sz n i = i" using step "1.prems" by simp
    with found c "1.prems" show ?thesis by (auto simp: run_at_def)
  next
    case short_end
    have "0 < ?d" by (rule bitmap_count_consecutive_pos) (rule sm)
    then have big: "sz < i + ?c + ?d" using short_end by linarith
    then have "find_consec_loop bm sz n (i + ?c + ?d) = i + ?c + ?d"
      by (subst find_consec_loop.simps) simp
    then have "find_consec_loop bm sz n i = i + ?c + ?d" using step "1.prems" short_end by simp
    moreover have "\<not> run_at bm v sz n r" if "i \<le> r" for r
      using that short_end by (auto simp: run_at_def)
    ultimately show ?thesis using big by auto
  next
    case short
    note d = bitmap_count_consecutive_spec [OF short(2) sm, of bm]
    have nv: "bitmap_get bm (i + ?c) \<noteq> v" using c(5) short "1.prems" by simp
    have gap: "\<not> run_at bm v sz n r" if "i \<le> r" "r < i + ?c + ?d" for r
    proof (cases "r \<le> i + ?c")
      case True
      then show ?thesis using no_run_across [OF nv True] that(1) short(1) by simp
    next
      case False
      then have "bitmap_get bm r = bitmap_get bm (i + ?c)"
        using bit_runD [OF d(4), of r] that by linarith
      then have "bitmap_get bm r \<noteq> v" using nv by simp
      then show ?thesis using no_run_across [of bm r v r n sz] "1.prems"(3) by simp
    qed
    have rec: "find_consec_loop bm sz n i = find_consec_loop bm sz n (i + ?c + ?d)"
      using step "1.prems" short by (simp add: Let_def)
    show ?thesis
    proof (cases "i + ?c + ?d < sz")
      case True
      then have "?d < SIZE_MAX" using "1.prems" by linarith
      then have "bitmap_get bm (i + ?c + ?d) \<noteq> bitmap_get bm (i + ?c)" using d(5) True by blast
      then have v: "bitmap_get bm (i + ?c + ?d) = v"
        using nv \<open>v \<le> 1\<close> bitmap_get_le [of bm "i + ?c + ?d"] bitmap_get_le [of bm "i + ?c"] by linarith
      have "i + ?c + ?d \<le> find_consec_loop bm sz n (i + ?c + ?d) \<and>
        (find_consec_loop bm sz n (i + ?c + ?d) < sz \<longrightarrow>
           run_at bm v sz n (find_consec_loop bm sz n (i + ?c + ?d))) \<and>
        (\<forall>r\<in>{i + ?c + ?d..<min (find_consec_loop bm sz n (i + ?c + ?d)) sz}. \<not> run_at bm v sz n r)"
        using "1.IH" [OF "1.prems"(1) refl short(1) True v] "1.prems" by blast
      then show ?thesis unfolding rec using gap by (meson atLeastLessThan_iff le_trans not_le le_add1)
    next
      case False
      then have "find_consec_loop bm sz n (i + ?c + ?d) = i + ?c + ?d"
        by (subst find_consec_loop.simps) simp
      with rec False gap show ?thesis by auto
    qed
  qed
qed


lemma bits_in_0: "bits_in bm v i j = 0 \<Longrightarrow> i \<le> x \<Longrightarrow> x < j \<Longrightarrow> bitmap_get bm x \<noteq> v"
  by (auto simp: bits_in_def filter_empty_conv)

text \<open>
  The search is exact: it returns the least run at or after \<open>start\<close>, and \<open>-1\<close> only when there is
  none.
\<close>

lemma bitmap_find_consec_spec:
  fixes bm :: bitmap and start :: nat and st :: bool
  assumes n: "0 < n" and sz: "sz \<le> SIZE_MAX"
  defines "f \<equiv> bitmap_find_consec bm sz start n st"
  shows "(f = -1 \<and> (\<forall>r \<ge> start. \<not> run_at bm (of_bool st) sz n r)) \<or>
         (\<exists>r. f = int r \<and> start \<le> r \<and> run_at bm (of_bool st) sz n r \<and>
              (\<forall>r' \<in> {start..<r}. \<not> run_at bm (of_bool st) sz n r'))"
  using bitmap_find_nth_spec [OF zero_less_one, of bm sz start st]
proof (elim disjE conjE exE)
  assume none: "bitmap_find_nth bm sz 1 start st = -1" "bits_in bm (of_bool st) start sz < 1"
  have "\<not> run_at bm (of_bool st) sz n r" if "start \<le> r" for r
    using bits_in_0 [of bm "of_bool st" start sz r] none(2) that n
    by (auto simp: run_at_def dest: bit_runD [of _ _ _ _ r])
  with none(1) show ?thesis by (simp add: f_def bitmap_find_consec_def)
next
  fix i assume i: "bitmap_find_nth bm sz 1 start st = int i" "start \<le> i" "i < sz"
    "bitmap_get bm i = of_bool st" "bits_in bm (of_bool st) start i + 1 = 1"
  let ?f = "find_consec_loop bm sz n i"
  have skip: "\<not> run_at bm (of_bool st) sz n r" if "start \<le> r" "r < i" for r
    using bits_in_0 [of bm "of_bool st" start i r] i(5) that n
    by (auto simp: run_at_def dest: bit_runD [of _ _ _ _ r])
  have loop: "i \<le> ?f" "?f < sz \<Longrightarrow> run_at bm (of_bool st) sz n ?f"
    "\<And>r. i \<le> r \<Longrightarrow> r < min ?f sz \<Longrightarrow> \<not> run_at bm (of_bool st) sz n r"
    using find_consec_loop_spec [OF i(3,4) n sz] by auto
  have f: "f = (if ?f \<ge> sz then -1 else int ?f)"
    using i(1) by (simp add: f_def bitmap_find_consec_def Let_def)
  have before: "\<not> run_at bm (of_bool st) sz n r" if "start \<le> r" "r < min ?f sz" for r
    using skip loop(3) that by (cases "r < i") auto
  have beyond: "\<not> run_at bm (of_bool st) sz n r" if "sz \<le> r" for r
    using that n by (simp add: run_at_def)
  show ?thesis
  proof (cases "?f \<ge> sz")
    case True
    with f before beyond show ?thesis by (metis min.absorb2 not_le)
  next
    case False
    with f before loop i(2) show ?thesis by auto
  qed
qed

lemma bitmap_find_consec_int:
  assumes "0 < n" "sz \<le> SIZE_MAX" "bitmap_find_consec bm sz start n st = int r"
  shows "start \<le> r" "r + n \<le> sz" "bit_run bm (of_bool st) r n"
  using bitmap_find_consec_spec [OF assms(1,2), of bm start st] assms(3) by (auto simp: run_at_def)

lemma bitmap_find_consec_ge: "-1 \<le> bitmap_find_consec bm sz start n st"
  by (simp add: bitmap_find_consec_def Let_def)

end
