(* ===== verification/Colors.thy ===== *)
theory Colors
  imports Prelude
begin

text \<open>
  Cache colouring: \<^verbatim>\<open>core/cache.c\<close> (how many page colours the last level cache has), the colour
  predicates of \<^verbatim>\<open>core/inc/mem.h\<close>, and \<^verbatim>\<open>pp_next_clr\<close> of \<^verbatim>\<open>core/mem.c\<close> (the next page of a colour set).
  The globals \<^verbatim>\<open>COLOR_NUM\<close> and \<^verbatim>\<open>COLOR_SIZE\<close> are the record \<open>color_cfg\<close>.
\<close>

datatype cache_type = UNIFIED | SEPARATE | DATA | INSTRUCTION
datatype cache_index = PIPT | VIPT

record cache =
  lvls :: nat
  min_shared_lvl :: nat
  ctype :: "nat \<Rightarrow> cache_type"
  indexed :: "nat \<Rightarrow> nat \<Rightarrow> cache_index"
  line_size :: "nat \<Rightarrow> nat \<Rightarrow> nat"
  assoc :: "nat \<Rightarrow> nat \<Rightarrow> nat"
  numset :: "nat \<Rightarrow> nat \<Rightarrow> nat"

record color_cfg =
  COLOR_NUM :: nat
  COLOR_SIZE :: nat

definition color_cfg_init :: color_cfg where
  "color_cfg_init = \<lparr>COLOR_NUM = 1, COLOR_SIZE = 1\<rparr>"

text \<open>
  \<^verbatim>\<open>UNIFIED\<close> is the enumeration value \<open>0\<close>, used as the index of the (single) data side. The final
  division is undefined when the first level cache contributes no colour: \<open>None\<close>.
\<close>

definition cache_calc_colors :: "cache \<Rightarrow> nat \<Rightarrow> color_cfg \<Rightarrow> color_cfg option" where
  "cache_calc_colors dscr page_size cc =
     (if lvls dscr = 0 then Some cc
      else let llc = min_shared_lvl dscr in
        if ctype dscr llc \<noteq> UNIFIED \<or> indexed dscr llc 0 \<noteq> PIPT then Some cc
        else
          let llc_way_size = numset dscr llc 0 * line_size dscr llc 0;
              flc_way_size =
                (if ctype dscr 0 \<noteq> UNIFIED then
                   let d = numset dscr 0 0 * line_size dscr 0 0;
                       i = numset dscr 0 1 * line_size dscr 0 1
                   in if (indexed dscr 0 0 = PIPT \<or> i < d) \<and> indexed dscr 0 1 = PIPT then i else d
                 else 0);
              llc_num_colors = llc_way_size div page_size;
              flc_num_colors = flc_way_size div page_size
          in if flc_num_colors = 0 then None
             else Some (cc\<lparr>COLOR_SIZE := flc_num_colors,
                           COLOR_NUM := llc_num_colors div flc_num_colors\<rparr>))"

text \<open>\<^verbatim>\<open>cache_enumerate\<close>: on RISC-V the description is the platform's (\<^verbatim>\<open>arch/riscv/cache.c\<close>).\<close>

definition cache_arch_enumerate :: "cache \<Rightarrow> cache" where
  "cache_arch_enumerate platform_cache = platform_cache"

definition cache_enumerate :: "cache \<Rightarrow> color_cfg \<Rightarrow> color_cfg option" where
  "cache_enumerate platform_cache cc =
     cache_calc_colors (cache_arch_enumerate platform_cache) PAGE_SIZE cc"

definition all_clrs :: "color_cfg \<Rightarrow> u64 \<Rightarrow> bool" where
  "all_clrs cc clrs \<longleftrightarrow>
     clrs = 0 \<or>
     clrs AND (push_bit (COLOR_NUM cc) 1 - 1) = push_bit (COLOR_NUM cc) 1 - 1"

text \<open>The colour of the page at index \<open>i\<close> after \<open>base\<close>, as \<^verbatim>\<open>pp_next_clr\<close> computes it.\<close>

definition clr_offset :: "color_cfg \<Rightarrow> nat \<Rightarrow> nat" where
  "clr_offset cc base = (base div PAGE_SIZE) mod (COLOR_NUM cc * COLOR_SIZE cc)"

definition page_clr :: "color_cfg \<Rightarrow> nat \<Rightarrow> nat \<Rightarrow> nat" where
  "page_clr cc base i = (i + clr_offset cc base) div COLOR_SIZE cc mod COLOR_NUM cc"

definition has_clr :: "color_cfg \<Rightarrow> nat \<Rightarrow> u64 \<Rightarrow> nat \<Rightarrow> bool" where
  "has_clr cc base colors i \<longleftrightarrow> drop_bit (page_clr cc base i) colors AND 1 \<noteq> 0"

definition pp_next_clr :: "color_cfg \<Rightarrow> nat \<Rightarrow> nat \<Rightarrow> u64 \<Rightarrow> nat option" where
  "pp_next_clr cc base start colors =
     while_option (\<lambda>index. \<not> has_clr cc base colors index) Suc start"

lemma has_clr_bit: "has_clr cc base colors i \<longleftrightarrow> bit colors (page_clr cc base i)"
  by (simp add: has_clr_def one_and_eq and.commute bit_iff_odd_drop_bit odd_iff_mod_2_eq_one flip: mod_2_eq_odd)

text \<open>Some colour of the mask exists, so that the search has an exit.\<close>

definition some_clr :: "color_cfg \<Rightarrow> u64 \<Rightarrow> bool" where
  "some_clr cc colors \<longleftrightarrow> 0 < COLOR_SIZE cc \<and> (\<exists>c < COLOR_NUM cc. bit colors c)"

lemma page_clr_lt: "0 < COLOR_NUM cc \<Longrightarrow> page_clr cc base i < COLOR_NUM cc"
  by (simp add: page_clr_def)

lemma next_clr_exists:
  assumes "some_clr cc colors"
  shows "\<exists>i \<ge> start. has_clr cc base colors i"
proof -
  from assms obtain c where c: "c < COLOR_NUM cc" "bit colors c" and cs: "0 < COLOR_SIZE cc"
    by (auto simp: some_clr_def)
  let ?o = "clr_offset cc base" and ?s = "COLOR_SIZE cc" and ?n = "COLOR_NUM cc"
  define k where "k = start + ?o + 1"
  define i where "i = (k * ?n + c) * ?s - ?o"
  have n: "0 < ?n" using c by simp
  have "k \<le> k * ?n" using n by simp
  also have "k * ?n \<le> (k * ?n + c) * ?s" using cs by (simp add: trans_le_add1 le_trans [of _ "k * ?n + c"])
  finally have big: "start + ?o + 1 \<le> (k * ?n + c) * ?s" by (simp add: k_def)
  then have "i + ?o = (k * ?n + c) * ?s" "start \<le> i" by (simp_all add: i_def)
  then have "page_clr cc base i = c" using cs c by (simp add: page_clr_def)
  with c \<open>start \<le> i\<close> show ?thesis by (auto simp: has_clr_bit)
qed

lemma pp_next_clr_total:
  assumes "some_clr cc colors"
  obtains r where "pp_next_clr cc base start colors = Some r" "start \<le> r" "has_clr cc base colors r"
    "\<And>i. start \<le> i \<Longrightarrow> i < r \<Longrightarrow> \<not> has_clr cc base colors i"
proof -
  obtain i where "start \<le> i" "has_clr cc base colors i" using next_clr_exists [OF assms] by blast
  then obtain r where r: "pp_next_clr cc base start colors = Some r"
    using while_search_exists [of start i "has_clr cc base colors"] by (auto simp: pp_next_clr_def)
  note s = while_search_Some [OF r [unfolded pp_next_clr_def]]
  show thesis using that [OF r s(1) s(2)] s(3) by blast
qed

lemma pp_next_clr_Some:
  assumes "pp_next_clr cc base start colors = Some r"
  shows "start \<le> r" "has_clr cc base colors r" "\<And>i. start \<le> i \<Longrightarrow> i < r \<Longrightarrow> \<not> has_clr cc base colors i"
  using while_search_Some [OF assms [unfolded pp_next_clr_def]] by auto

lemma pp_next_clr_at: "has_clr cc base colors i \<Longrightarrow> pp_next_clr cc base i colors = Some i"
  unfolding pp_next_clr_def by (subst while_option_unfold) simp

end
