(* ===== verification/Page_Pool.thy ===== *)
theory Page_Pool
  imports Bitmap Colors
begin

text \<open>
  The physical page allocator of \<^verbatim>\<open>core/mem.c\<close>: page pools, allocation of contiguous, aligned and
  coloured page segments, release, and reservation. Each operation of the source runs under the
  pool's spin lock; the model is the effect of one critical section. The list of pools
  \<^verbatim>\<open>page_pool_list\<close> is the Isabelle list of its elements in the order \<^verbatim>\<open>list_foreach\<close> visits them.
\<close>

record page_pool =
  pp_base :: nat
  pp_size :: nat
  pp_free :: nat
  pp_last :: nat
  pp_bitmap :: bitmap

record ppages =
  pg_base :: nat
  pg_size :: nat
  pg_colors :: u64

definition mem_ppages_get :: "nat \<Rightarrow> nat \<Rightarrow> ppages" where
  "mem_ppages_get b sz = \<lparr>pg_base = b, pg_size = sz, pg_colors = 0\<rparr>"

subsection \<open>Releasing pages\<close>

text \<open>The coloured loop of \<^verbatim>\<open>mem_free_ppages\<close>; its index starts at \<open>0\<close>.\<close>

primrec clr_clear :: "color_cfg \<Rightarrow> nat \<Rightarrow> u64 \<Rightarrow> nat \<Rightarrow> nat \<Rightarrow> bitmap \<Rightarrow> bitmap option" where
  "clr_clear cc b colors 0 index bm = Some bm"
| "clr_clear cc b colors (Suc n) index bm =
     do { i \<leftarrow> pp_next_clr cc b index colors;
          clr_clear cc b colors n (i + 1) (bitmap_clear bm i) }"

definition pool_free_ppages :: "color_cfg \<Rightarrow> ppages \<Rightarrow> page_pool \<Rightarrow> page_pool option" where
  "pool_free_ppages cc ppages pool =
     (if in_range (pg_base ppages) (pp_base pool) (pp_size pool * PAGE_SIZE) then
        let index = (pg_base ppages - pp_base pool) div PAGE_SIZE in
        if \<not> all_clrs cc (pg_colors ppages) then
          do { bm \<leftarrow> clr_clear cc (pp_base pool) (pg_colors ppages) (pg_size ppages) 0 (pp_bitmap pool);
               Some (pool\<lparr>pp_bitmap := bm\<rparr>) }
        else Some (pool\<lparr>pp_bitmap :=
               bitmap_clear_consecutive (pp_bitmap pool) index (pg_size ppages)\<rparr>)
      else Some pool)"

fun mem_free_ppages :: "color_cfg \<Rightarrow> ppages \<Rightarrow> page_pool list \<Rightarrow> page_pool list option" where
  "mem_free_ppages cc ppages [] = Some []"
| "mem_free_ppages cc ppages (pool # pools) =
     do { pool' \<leftarrow> pool_free_ppages cc ppages pool;
          pools' \<leftarrow> mem_free_ppages cc ppages pools;
          Some (pool' # pools') }"

subsection \<open>Allocation of coloured segments\<close>

text \<open>The three nested loops of \<^verbatim>\<open>pp_alloc_clr\<close>, from the inside out, and the marking loop.\<close>

partial_function (option) clr_skip_used ::
  "color_cfg \<Rightarrow> page_pool \<Rightarrow> u64 \<Rightarrow> nat \<Rightarrow> nat \<Rightarrow> nat option" where
  "clr_skip_used cc pool colors tp index =
     (if index < tp \<and> bitmap_get (pp_bitmap pool) index \<noteq> 0
      then Option.bind (pp_next_clr cc (pp_base pool) (index + 1) colors)
             (clr_skip_used cc pool colors tp)
      else Some index)"

partial_function (option) clr_count_free ::
  "color_cfg \<Rightarrow> page_pool \<Rightarrow> u64 \<Rightarrow> nat \<Rightarrow> nat \<Rightarrow> nat \<Rightarrow> nat \<Rightarrow> (nat \<times> nat) option" where
  "clr_count_free cc pool colors tp n index allocated =
     (if index < tp \<and> bitmap_get (pp_bitmap pool) index = 0 \<and> allocated < n
      then Option.bind (pp_next_clr cc (pp_base pool) (index + 1) colors)
             (\<lambda>i. clr_count_free cc pool colors tp n i (allocated + 1))
      else Some (index, allocated))"

partial_function (option) clr_search ::
  "color_cfg \<Rightarrow> page_pool \<Rightarrow> u64 \<Rightarrow> nat \<Rightarrow> nat \<Rightarrow> nat \<Rightarrow> nat \<Rightarrow> nat \<Rightarrow> (nat \<times> nat) option" where
  "clr_search cc pool colors n tp index allocated first_index =
     (if allocated < n \<and> index < tp
      then Option.bind (clr_skip_used cc pool colors tp index)
             (\<lambda>first. Option.bind (clr_count_free cc pool colors tp n first 0)
               (\<lambda>(i, a). clr_search cc pool colors n tp (i + 1) a first))
      else Some (allocated, first_index))"

declare clr_skip_used.simps [code] clr_count_free.simps [code] clr_search.simps [code]

primrec clr_mark :: "color_cfg \<Rightarrow> nat \<Rightarrow> u64 \<Rightarrow> nat \<Rightarrow> nat \<Rightarrow> bitmap \<Rightarrow> (nat \<times> bitmap) option" where
  "clr_mark cc b colors 0 index bm = Some (index, bm)"
| "clr_mark cc b colors (Suc n) index bm =
     do { i \<leftarrow> pp_next_clr cc b index colors;
          clr_mark cc b colors n (i + 1) (bitmap_set bm i) }"

definition clr_commit ::
  "color_cfg \<Rightarrow> page_pool \<Rightarrow> nat \<Rightarrow> u64 \<Rightarrow> ppages \<Rightarrow> nat \<Rightarrow> (bool \<times> ppages \<times> page_pool) option" where
  "clr_commit cc pool n colors ppages first_index =
     do { (i, bm) \<leftarrow> clr_mark cc (pp_base pool) colors n first_index (pp_bitmap pool);
          Some (True,
                ppages\<lparr>pg_size := n, pg_base := pp_base pool + first_index * PAGE_SIZE\<rparr>,
                pool\<lparr>pp_bitmap := bm, pp_free := sub64 (pp_free pool) n, pp_last := i\<rparr>) }"

definition pp_alloc_clr ::
  "color_cfg \<Rightarrow> page_pool \<Rightarrow> nat \<Rightarrow> u64 \<Rightarrow> ppages \<Rightarrow> (bool \<times> ppages \<times> page_pool) option" where
  "pp_alloc_clr cc pool n colors ppages =
     (let ppages = ppages\<lparr>pg_colors := colors, pg_size := 0\<rparr> in
      do { index \<leftarrow> pp_next_clr cc (pp_base pool) (pp_last pool) colors;
           (a, f) \<leftarrow> clr_search cc pool colors n (pp_size pool) index 0 0;
           if a = n then clr_commit cc pool n colors ppages f
           else do { (a', f') \<leftarrow> clr_search cc pool colors n (pp_last pool) 0 a f;
                     if a' = n then clr_commit cc pool n colors ppages f'
                     else Some (False, ppages, pool) } })"

subsection \<open>Allocation of contiguous segments\<close>

text \<open>
  The inner loop of \<^verbatim>\<open>pp_alloc\<close>: \<open>Some bit\<close> is the segment it takes, \<open>None\<close> that the search found
  none.
\<close>

definition pp_search_next :: "page_pool \<Rightarrow> nat \<Rightarrow> nat \<Rightarrow> int" where
  "pp_search_next pool n cur = bitmap_find_consec (pp_bitmap pool) (pp_size pool) cur n False"

lemma find_nth_loop_start: "0 \<le> find_nth_loop bm sz k v i c \<Longrightarrow> int i \<le> find_nth_loop bm sz k v i c"
proof (induction bm sz k v i c rule: find_nth_loop.induct)
  case (1 bm sz k v i c)
  note step = find_nth_loop.simps [of bm sz k v i c]
  show ?case
  proof (cases "i < sz \<and> (bitmap_get bm i = v \<longrightarrow> c + 1 \<noteq> k)")
    case True
    then have "int (i + 1) \<le> find_nth_loop bm sz k v i c"
      using step 1 by (auto split: if_splits)
    then show ?thesis by simp
  next
    case False
    with step "1.prems" show ?thesis by (auto split: if_splits)
  qed
qed

lemma find_consec_loop_start: "i \<le> find_consec_loop bm sz n i"
proof (induction bm sz n i rule: find_consec_loop.induct)
  case (1 bm sz n i)
  then show ?case by (subst find_consec_loop.simps) (auto simp: Let_def intro: le_trans [rotated])
qed

lemma bitmap_find_consec_bounds:
  assumes "0 \<le> bitmap_find_consec bm sz start n st"
  shows "int start \<le> bitmap_find_consec bm sz start n st" "bitmap_find_consec bm sz start n st < int sz"
proof -
  let ?i = "bitmap_find_nth bm sz 1 start st"
  from assms have i: "0 \<le> ?i" "find_consec_loop bm sz n (nat ?i) < sz"
    and f: "bitmap_find_consec bm sz start n st = int (find_consec_loop bm sz n (nat ?i))"
    by (auto simp: bitmap_find_consec_def Let_def not_less split: if_splits)
  from i(1) have "int start \<le> ?i"
    using find_nth_loop_start by (auto simp: bitmap_find_nth_def split: if_splits)
  moreover have "nat ?i \<le> find_consec_loop bm sz n (nat ?i)" by (rule find_consec_loop_start)
  ultimately show "int start \<le> bitmap_find_consec bm sz start n st"
    "bitmap_find_consec bm sz start n st < int sz" using f i by linarith+
qed

function pp_search :: "page_pool \<Rightarrow> nat \<Rightarrow> bool \<Rightarrow> nat \<Rightarrow> nat \<Rightarrow> nat option" where
  "pp_search pool n aligned start cur =
     (let b = pp_search_next pool n cur in
      if b < 0 then None
      else if aligned \<and> (nat b + start) mod n \<noteq> 0
           then pp_search pool n aligned start (nat b + (nat b + start) mod n)
      else Some (nat b))"
  by pat_completeness auto
termination
proof (relation "measure (\<lambda>(pool, n, aligned, start, cur). pp_size pool - cur)", goal_cases)
  case 1
  show ?case by simp
next
  case (2 pool n aligned start cur b)
  then have "0 \<le> bitmap_find_consec (pp_bitmap pool) (pp_size pool) cur n False"
    by (simp add: pp_search_next_def)
  from bitmap_find_consec_bounds [OF this] 2
  have "cur \<le> nat b" "nat b < pp_size pool" "0 < (nat b + start) mod n"
    by (simp_all add: pp_search_next_def)
  then show ?case by simp
qed

declare pp_search.simps [simp del]

definition pp_commit :: "page_pool \<Rightarrow> nat \<Rightarrow> ppages \<Rightarrow> nat \<Rightarrow> bool \<times> ppages \<times> page_pool" where
  "pp_commit pool n ppages b =
     (True,
      ppages\<lparr>pg_base := pp_base pool + b * PAGE_SIZE, pg_size := n\<rparr>,
      pool\<lparr>pp_bitmap := bitmap_set_consecutive (pp_bitmap pool) b n,
           pp_free := sub64 (pp_free pool) n, pp_last := b + n\<rparr>)"

definition pp_alloc :: "page_pool \<Rightarrow> nat \<Rightarrow> bool \<Rightarrow> ppages \<Rightarrow> bool \<times> ppages \<times> page_pool" where
  "pp_alloc pool n aligned ppages =
     (let ppages = ppages\<lparr>pg_colors := 0, pg_size := 0\<rparr> in
      if n = 0 then (False, ppages, pool)
      else
        let start = (if aligned then n - (pp_base pool div PAGE_SIZE) mod n else 0);
            cur = pp_last pool + (pp_last pool + start) mod n
        in if pp_free pool = 0 then (False, ppages, pool)
           else case pp_search pool n aligned start cur of
                  Some b \<Rightarrow> pp_commit pool n ppages b
                | None \<Rightarrow>
                    (let cur = (if aligned then (n - (pp_base pool div PAGE_SIZE) mod n) mod n else 0)
                     in case pp_search pool n aligned start cur of
                          Some b \<Rightarrow> pp_commit pool n ppages b
                        | None \<Rightarrow> (False, ppages, pool)))"

text \<open>\<^verbatim>\<open>mem_alloc_ppages\<close>: the pools in list order until one can serve the request.\<close>

fun alloc_in_pools ::
  "color_cfg \<Rightarrow> u64 \<Rightarrow> nat \<Rightarrow> bool \<Rightarrow> ppages \<Rightarrow> page_pool list \<Rightarrow> (ppages \<times> page_pool list) option" where
  "alloc_in_pools cc colors n aligned pages [] = Some (pages, [])"
| "alloc_in_pools cc colors n aligned pages (pool # pools) =
     do { (ok, pages', pool') \<leftarrow>
            (if \<not> all_clrs cc colors \<and> \<not> aligned then pp_alloc_clr cc pool n colors pages
             else Some (pp_alloc pool n aligned pages));
          if ok then Some (pages', pool' # pools)
          else do { (pages'', pools') \<leftarrow> alloc_in_pools cc colors n aligned pages' pools;
                    Some (pages'', pool' # pools') } }"

definition mem_alloc_ppages ::
  "color_cfg \<Rightarrow> u64 \<Rightarrow> nat \<Rightarrow> bool \<Rightarrow> page_pool list \<Rightarrow> (ppages \<times> page_pool list) option" where
  "mem_alloc_ppages cc colors n aligned pools =
     alloc_in_pools cc colors n aligned \<lparr>pg_base = 0, pg_size = 0, pg_colors = 0\<rparr> pools"

subsection \<open>Reservation\<close>

definition ppages_in_pool :: "ppages \<Rightarrow> page_pool \<Rightarrow> bool" where
  "ppages_in_pool ppages pool =
     range_in_range (pg_base ppages) (pg_size ppages * PAGE_SIZE)
       (pp_base pool) (pp_size pool * PAGE_SIZE)"

definition mem_are_ppages_reserved_in_pool :: "page_pool \<Rightarrow> ppages \<Rightarrow> bool" where
  "mem_are_ppages_reserved_in_pool ppool ppages =
     (if ppages_in_pool ppages ppool then
        let numpages = pg_size ppages;
            pageoff = NUM_PAGES (pg_base ppages - pp_base ppool);
            is_alloced = bitmap_get (pp_bitmap ppool) pageoff;
            avlbl_contig_pp =
              bitmap_count_consecutive (pp_bitmap ppool) (pp_size ppool) pageoff numpages
        in is_alloced \<noteq> 0 \<or> avlbl_contig_pp < numpages
      else False)"

fun mem_are_ppages_reserved :: "ppages \<Rightarrow> page_pool list \<Rightarrow> bool" where
  "mem_are_ppages_reserved ppages [] = False"
| "mem_are_ppages_reserved ppages (pool # pools) =
     (if ppages_in_pool ppages pool then mem_are_ppages_reserved_in_pool pool ppages
      else mem_are_ppages_reserved ppages pools)"

definition mem_reserve_ppool_ppages :: "page_pool \<Rightarrow> ppages \<Rightarrow> bool \<times> page_pool" where
  "mem_reserve_ppool_ppages pool ppages =
     (if \<not> ppages_in_pool ppages pool then (True, pool)
      else
        let numpages = pg_size ppages;
            pageoff = NUM_PAGES (pg_base ppages - pp_base pool);
            was_free = \<not> mem_are_ppages_reserved_in_pool pool ppages
        in (was_free,
            pool\<lparr>pp_bitmap := bitmap_set_consecutive (pp_bitmap pool) pageoff numpages,
                 pp_free := sub64 (pp_free pool) numpages\<rparr>))"

fun mem_reserve_ppages_in_pool_list :: "page_pool list \<Rightarrow> ppages \<Rightarrow> bool \<times> page_pool list" where
  "mem_reserve_ppages_in_pool_list [] ppages = (False, [])"
| "mem_reserve_ppages_in_pool_list (pool # pools) ppages =
     (if ppages_in_pool ppages pool then
        let (reserved, pool') = mem_reserve_ppool_ppages pool ppages in (reserved, pool' # pools)
      else let (reserved, pools') = mem_reserve_ppages_in_pool_list pools ppages
           in (reserved, pool # pools'))"

definition mem_reserve_ppages :: "page_pool list \<Rightarrow> ppages \<Rightarrow> bool \<times> page_pool list" where
  "mem_reserve_ppages pools ppages = mem_reserve_ppages_in_pool_list pools ppages"


subsection \<open>What a search finds\<close>

lemma pp_search_Some:
  assumes "pp_search pool n aligned start cur = Some b" "0 < n" "pp_size pool \<le> SIZE_MAX"
  shows "cur \<le> b \<and> b + n \<le> pp_size pool \<and> bit_run (pp_bitmap pool) 0 b n \<and>
         (aligned \<longrightarrow> (b + start) mod n = 0)"
  using assms
proof (induction pool n aligned start cur rule: pp_search.induct)
  case (1 pool n aligned start cur)
  let ?b = "pp_search_next pool n cur"
  note step = pp_search.simps [of pool n aligned start cur]
  from "1.prems"(1) step have pos: "\<not> ?b < 0" by (auto simp: Let_def split: if_splits)
  then have nb: "?b = int (nat ?b)" by simp
  then have fits: "cur \<le> nat ?b" "nat ?b + n \<le> pp_size pool" "bit_run (pp_bitmap pool) 0 (nat ?b) n"
    using bitmap_find_consec_int [OF "1.prems"(2,3), of "pp_bitmap pool" cur False "nat ?b"]
    by (auto simp: pp_search_next_def)
  show ?case
  proof (cases "aligned \<and> (nat ?b + start) mod n \<noteq> 0")
    case True
    with step pos "1.prems"(1)
    have "pp_search pool n aligned start (nat ?b + (nat ?b + start) mod n) = Some b"
      by (simp add: Let_def)
    with "1.IH" [OF refl pos True] "1.prems" fits show ?thesis by auto
  next
    case False
    with step pos "1.prems"(1) have "b = nat ?b" by (simp add: Let_def split: if_splits)
    with False fits show ?thesis by auto
  qed
qed

lemma pp_search_None:
  assumes "pp_search pool n False start cur = None" "0 < n" "pp_size pool \<le> SIZE_MAX" "cur \<le> r"
  shows "\<not> run_at (pp_bitmap pool) 0 (pp_size pool) n r"
proof -
  have "pp_search_next pool n cur < 0"
    using assms(1) pp_search.simps [of pool n False start cur] by (auto simp: Let_def split: if_splits)
  then show ?thesis
    using bitmap_find_consec_spec [OF assms(2,3), of "pp_bitmap pool" cur False] assms(4)
    by (auto simp: pp_search_next_def)
qed

subsection \<open>What an allocation does to its pool\<close>

lemma pp_alloc_cases:
  assumes "pp_alloc pool n aligned pages = (ok, pages', pool')" "pp_size pool \<le> SIZE_MAX"
  obtains (fail) "\<not> ok" "pool' = pool" "pages' = pages\<lparr>pg_colors := 0, pg_size := 0\<rparr>"
  | (ok) b where "ok" "0 < n" "pp_free pool \<noteq> 0" "b + n \<le> pp_size pool"
      "bit_run (pp_bitmap pool) 0 b n"
      "aligned \<Longrightarrow> (b + (n - (pp_base pool div PAGE_SIZE) mod n)) mod n = 0"
      "pages' = \<lparr>pg_base = pp_base pool + b * PAGE_SIZE, pg_size = n, pg_colors = 0\<rparr>"
      "pool' = pool\<lparr>pp_bitmap := bitmap_set_consecutive (pp_bitmap pool) b n,
                     pp_free := sub64 (pp_free pool) n, pp_last := b + n\<rparr>"
proof -
  let ?start = "if aligned then n - (pp_base pool div PAGE_SIZE) mod n else 0"
  consider (no) "(ok, pages', pool') = (False, pages\<lparr>pg_colors := 0, pg_size := 0\<rparr>, pool)"
    | (yes) b c where "0 < n" "pp_free pool \<noteq> 0" "pp_search pool n aligned ?start c = Some b"
        "(ok, pages', pool') = pp_commit pool n (pages\<lparr>pg_colors := 0, pg_size := 0\<rparr>) b"
    using assms(1) unfolding pp_alloc_def
    by (auto simp: Let_def split: if_splits option.splits)
  then show thesis
  proof cases
    case no
    then show ?thesis using fail by simp
  next
    case yes
    from pp_search_Some [OF yes(3,1) assms(2)] yes show ?thesis
      by (intro ok [of b]) (auto simp: pp_commit_def)
  qed
qed

lemma pp_alloc_succeeds:
  assumes "0 < n" "pp_free pool \<noteq> 0" "pp_size pool \<le> SIZE_MAX"
    "run_at (pp_bitmap pool) 0 (pp_size pool) n r"
  shows "fst (pp_alloc pool n False pages)"
proof -
  have "pp_search pool n False 0 0 \<noteq> None"
    using pp_search_None [of pool n 0 0 r] assms by auto
  then show ?thesis using assms
    by (auto simp: pp_alloc_def Let_def pp_commit_def split: option.splits)
qed

end
