(* ===== verification/Frame_Alloc.thy ===== *)
theory Frame_Alloc
  imports Page_Pool
begin

text \<open>
  The allocator seen as a set of used page frames. \<open>frame_allocator\<close> is the contract (fresh frames
  on allocation, exactly the released frames on release), proved once to exclude double allocation
  in every history of operations, and interpreted on the page pools of \<^verbatim>\<open>core/mem.c\<close>.
\<close>

subsection \<open>Frames\<close>

definition page_frames :: "ppages \<Rightarrow> nat set" where
  "page_frames pg = {pg_base pg div PAGE_SIZE ..< pg_base pg div PAGE_SIZE + pg_size pg}"

definition pool_frames :: "page_pool \<Rightarrow> nat set" where
  "pool_frames p = {pp_base p div PAGE_SIZE ..< pp_base p div PAGE_SIZE + pp_size p}"

definition pool_used :: "page_pool \<Rightarrow> nat set" where
  "pool_used p = {f \<in> pool_frames p. bitmap_get (pp_bitmap p) (f - pp_base p div PAGE_SIZE) = 1}"

definition used_frames :: "page_pool list \<Rightarrow> nat set" where
  "used_frames pools = (\<Union>p \<in> set pools. pool_used p)"

definition pool_wf :: "page_pool \<Rightarrow> bool" where
  "pool_wf p \<longleftrightarrow> PAGE_SIZE dvd pp_base p \<and> pp_size p \<le> SIZE_MAX"

definition pools_wf :: "page_pool list \<Rightarrow> bool" where
  "pools_wf pools \<longleftrightarrow> (\<forall>p \<in> set pools. pool_wf p) \<and>
     sorted_wrt (\<lambda>p q. pool_frames p \<inter> pool_frames q = {}) pools"

lemma pool_frames_cong: "pp_base p = pp_base q \<Longrightarrow> pp_size p = pp_size q \<Longrightarrow> pool_frames p = pool_frames q"
  by (simp add: pool_frames_def)

lemma pool_used_subset: "pool_used p \<subseteq> pool_frames p"
  by (auto simp: pool_used_def)

lemma used_frames_Cons [simp]: "used_frames (p # ps) = pool_used p \<union> used_frames ps"
  by (simp add: used_frames_def)

lemma used_frames_Nil [simp]: "used_frames [] = {}"
  by (simp add: used_frames_def)

lemma pools_wf_Cons:
  "pools_wf (p # ps) \<longleftrightarrow> pool_wf p \<and> (\<forall>q \<in> set ps. pool_frames p \<inter> pool_frames q = {}) \<and> pools_wf ps"
  by (auto simp: pools_wf_def)

text \<open>Marking or clearing a run of a pool's bitmap, as a change of its used frames.\<close>

lemma pool_used_set_consecutive:
  assumes "b + n \<le> pp_size p" "pp_base q = pp_base p" "pp_size q = pp_size p"
    "pp_bitmap q = bitmap_set_consecutive (pp_bitmap p) b n"
  shows "pool_used q = pool_used p \<union> {pp_base p div PAGE_SIZE + b ..< pp_base p div PAGE_SIZE + b + n}"
  using assms by (auto simp: pool_used_def pool_frames_def bm_simps split: if_splits)

lemma pool_used_clear_consecutive:
  assumes "pp_base q = pp_base p" "pp_size q = pp_size p"
    "pp_bitmap q = bitmap_clear_consecutive (pp_bitmap p) b n"
  shows "pool_used q = pool_used p - {pp_base p div PAGE_SIZE + b ..< pp_base p div PAGE_SIZE + b + n}"
  using assms by (auto simp: pool_used_def pool_frames_def bm_simps split: if_splits)

lemma base_frame: "pool_wf p \<Longrightarrow> (pp_base p + b * PAGE_SIZE) div PAGE_SIZE = pp_base p div PAGE_SIZE + b"
  by (simp add: pool_wf_def)

subsection \<open>Allocation\<close>

lemma pp_alloc_frames:
  assumes "pp_alloc p n aligned pg = (True, pg', p')" "pool_wf p"
  shows "page_frames pg' \<subseteq> pool_frames p" "page_frames pg' \<inter> pool_used p = {}"
    "pool_used p' = pool_used p \<union> page_frames pg'"
    "pool_wf p'" "pool_frames p' = pool_frames p" "pg_size pg' = n" "pg_colors pg' = 0"
    "PAGE_SIZE dvd pg_base pg'" "0 < n"
proof -
  have sz: "pp_size p \<le> SIZE_MAX" using assms(2) by (simp add: pool_wf_def)
  from pp_alloc_cases [OF assms(1) sz] obtain b where b: "0 < n" "b + n \<le> pp_size p"
    "bit_run (pp_bitmap p) 0 b n"
    "pg' = \<lparr>pg_base = pp_base p + b * PAGE_SIZE, pg_size = n, pg_colors = 0\<rparr>"
    "p' = p\<lparr>pp_bitmap := bitmap_set_consecutive (pp_bitmap p) b n,
            pp_free := sub64 (pp_free p) n, pp_last := b + n\<rparr>"
    by (metis (full_types))
  have pf: "page_frames pg' = {pp_base p div PAGE_SIZE + b ..< pp_base p div PAGE_SIZE + b + n}"
    using b(4) base_frame [OF assms(2)] by (simp add: page_frames_def add.commute)
  show "page_frames pg' \<subseteq> pool_frames p" using pf b(2) by (auto simp: pool_frames_def)
  show "page_frames pg' \<inter> pool_used p = {}"
    using pf bit_runD [OF b(3)] by (fastforce simp: pool_used_def)
  show "pool_used p' = pool_used p \<union> page_frames pg'"
    using pool_used_set_consecutive [OF b(2), of p'] b(5) pf by simp
  show "pool_wf p'" "pool_frames p' = pool_frames p" "pg_size pg' = n" "pg_colors pg' = 0" "0 < n"
    using assms(2) b by (simp_all add: pool_wf_def pool_frames_def)
  show "PAGE_SIZE dvd pg_base pg'" using b(4) assms(2) by (simp add: pool_wf_def)
qed

text \<open>
  A request that takes the path of \<^verbatim>\<open>pp_alloc\<close> in \<^verbatim>\<open>mem_alloc_ppages\<close>: aligned, or with no colour
  restriction.
\<close>

definition contiguous_request :: "color_cfg \<Rightarrow> u64 \<Rightarrow> bool \<Rightarrow> bool" where
  "contiguous_request cc colors aligned \<longleftrightarrow> all_clrs cc colors \<or> aligned"

lemma alloc_in_pools_contiguous:
  assumes "contiguous_request cc colors aligned" "pools_wf pools" "pg_size pg = 0"
    "alloc_in_pools cc colors n aligned pg pools = Some (pg', pools')"
  shows "pools_wf pools' \<and> map pool_frames pools' = map pool_frames pools \<and>
    (pg_size pg' = 0 \<and> pools' = pools \<or>
     pg_size pg' = n \<and> 0 < n \<and> pg_colors pg' = 0 \<and> PAGE_SIZE dvd pg_base pg' \<and>
     (\<exists>p \<in> set pools. page_frames pg' \<subseteq> pool_frames p) \<and>
     page_frames pg' \<inter> used_frames pools = {} \<and>
     used_frames pools' = used_frames pools \<union> page_frames pg')"
  using assms(2-4)
proof (induction pools arbitrary: pg pools')
  case Nil
  then show ?case by (simp add: pools_wf_def)
next
  case (Cons p ps)
  obtain ok pg1 p1 where a: "pp_alloc p n aligned pg = (ok, pg1, p1)" by (cases "pp_alloc p n aligned pg") auto
  have wf: "pool_wf p" "pools_wf ps" "\<forall>q \<in> set ps. pool_frames p \<inter> pool_frames q = {}"
    using Cons.prems(1) by (auto simp: pools_wf_Cons)
  have path: "\<not> (\<not> all_clrs cc colors \<and> \<not> aligned)"
    using assms(1) by (auto simp: contiguous_request_def)
  show ?case
  proof (cases ok)
    case True
    have a1: "pp_alloc p n aligned pg = (True, pg1, p1)" using a True by simp
    note fr = pp_alloc_frames [OF a1 wf(1)]
    have eq: "pg' = pg1" "pools' = p1 # ps" using Cons.prems(3) a path True by auto
    have "used_frames ps \<inter> pool_frames p = {}"
      using wf(3) pool_used_subset by (fastforce simp: used_frames_def)
    with fr(1,2) have "page_frames pg1 \<inter> used_frames (p # ps) = {}" by auto
    with fr eq wf show ?thesis by (auto simp: pools_wf_Cons)
  next
    case False
    have sz: "pp_size p \<le> SIZE_MAX" using wf(1) by (simp add: pool_wf_def)
    have "p1 = p \<and> pg_size pg1 = 0"
      by (rule pp_alloc_cases [OF a sz]) (use False in simp_all)
    then have p1: "p1 = p" "pg_size pg1 = 0" by simp_all
    obtain ps' where rec: "alloc_in_pools cc colors n aligned pg1 ps = Some (pg', ps')" "pools' = p # ps'"
      using Cons.prems(3) a path False p1 by (auto split: bind_splits)
    from Cons.IH [OF wf(2) p1(2) rec(1)]
    have ih: "pools_wf ps'" "map pool_frames ps' = map pool_frames ps"
      "pg_size pg' = 0 \<and> ps' = ps \<or>
       pg_size pg' = n \<and> 0 < n \<and> pg_colors pg' = 0 \<and> PAGE_SIZE dvd pg_base pg' \<and>
       (\<exists>p \<in> set ps. page_frames pg' \<subseteq> pool_frames p) \<and>
       page_frames pg' \<inter> used_frames ps = {} \<and> used_frames ps' = used_frames ps \<union> page_frames pg'"
      by auto
    have fs: "pool_frames ` set ps' = pool_frames ` set ps"
      using ih(2) by (metis list.set_map)
    then have "\<forall>q \<in> set ps'. pool_frames p \<inter> pool_frames q = {}" using wf(3) by (metis imageE imageI)
    moreover have "page_frames pg' \<inter> pool_used p = {}"
      if "\<exists>q \<in> set ps. page_frames pg' \<subseteq> pool_frames q"
      using that wf(3) pool_used_subset [of p] by blast
    ultimately show ?thesis using ih rec(2) wf(1) by (auto simp: pools_wf_Cons)
  qed
qed


lemma alloc_in_pools_total:
  "contiguous_request cc colors aligned \<Longrightarrow>
     \<exists>r. alloc_in_pools cc colors n aligned pg pools = Some r"
proof (induction pools arbitrary: pg)
  case (Cons p ps)
  obtain ok pg1 p1 where a: "pp_alloc p n aligned pg = (ok, pg1, p1)"
    by (cases "pp_alloc p n aligned pg") auto
  with Cons.IH [OF Cons.prems, of pg1] Cons.prems show ?case
    by (auto simp: contiguous_request_def)
qed simp

subsection \<open>Release\<close>

lemma pool_free_frames:
  assumes "all_clrs cc (pg_colors pg)" "PAGE_SIZE dvd pg_base pg" "0 < pg_size pg" "pool_wf p"
    "page_frames pg \<subseteq> pool_frames p \<or> page_frames pg \<inter> pool_frames p = {}"
  obtains p' where "pool_free_ppages cc pg p = Some p'" "pool_used p' = pool_used p - page_frames pg"
    "pool_wf p'" "pool_frames p' = pool_frames p" "pp_free p' = pp_free p"
proof (cases "in_range (pg_base pg) (pp_base p) (pp_size p * PAGE_SIZE)")
  case True
  let ?i = "(pg_base pg - pp_base p) div PAGE_SIZE"
  define p' where "p' = p\<lparr>pp_bitmap := bitmap_clear_consecutive (pp_bitmap p) ?i (pg_size pg)\<rparr>"
  have ge: "pp_base p \<le> pg_base pg" using True by (simp add: in_range_def range_in_range_def)
  have al: "PAGE_SIZE dvd pp_base p" using assms(4) by (simp add: pool_wf_def)
  from ge al assms(2) have "pp_base p div PAGE_SIZE + ?i = pg_base pg div PAGE_SIZE"
    by (metis div_add dvd_diff_nat le_add_diff_inverse)
  then have "page_frames pg = {pp_base p div PAGE_SIZE + ?i ..< pp_base p div PAGE_SIZE + ?i + pg_size pg}"
    by (simp add: page_frames_def)
  with pool_used_clear_consecutive [of p' p ?i "pg_size pg"]
  have "pool_used p' = pool_used p - page_frames pg" by (simp add: p'_def)
  moreover have "pool_free_ppages cc pg p = Some p'"
    using True assms(1) by (simp add: pool_free_ppages_def p'_def Let_def)
  ultimately show thesis using that assms(4) by (simp add: p'_def pool_wf_def pool_frames_def)
next
  case False
  have "page_frames pg \<inter> pool_frames p = {}"
  proof (rule ccontr)
    assume "page_frames pg \<inter> pool_frames p \<noteq> {}"
    with assms(5) have "page_frames pg \<subseteq> pool_frames p" by blast
    then have "pg_base pg div PAGE_SIZE \<in> pool_frames p"
      using assms(3) by (auto simp: page_frames_def)
    then have "pp_base p div PAGE_SIZE \<le> pg_base pg div PAGE_SIZE"
      "pg_base pg div PAGE_SIZE \<le> pp_base p div PAGE_SIZE + pp_size p"
      by (auto simp: pool_frames_def)
    then have "pp_base p div PAGE_SIZE * PAGE_SIZE \<le> pg_base pg div PAGE_SIZE * PAGE_SIZE"
      "pg_base pg div PAGE_SIZE * PAGE_SIZE \<le> (pp_base p div PAGE_SIZE + pp_size p) * PAGE_SIZE"
      by (simp_all only: mult_le_mono1)
    with False assms(2,4) show False
      by (simp add: in_range_def range_in_range_def pool_wf_def distrib_right)
  qed
  with False pool_used_subset [of p] show thesis
    by (intro that [of p]) (auto simp: pool_free_ppages_def assms(4))
qed

lemma mem_free_frames:
  assumes "all_clrs cc (pg_colors pg)" "PAGE_SIZE dvd pg_base pg" "0 < pg_size pg"
    "pools_wf pools" "\<forall>p \<in> set pools. page_frames pg \<subseteq> pool_frames p \<or> page_frames pg \<inter> pool_frames p = {}"
  shows "\<exists>pools'. mem_free_ppages cc pg pools = Some pools' \<and> pools_wf pools' \<and>
    used_frames pools' = used_frames pools - page_frames pg \<and>
    map pool_frames pools' = map pool_frames pools \<and> map pp_free pools' = map pp_free pools"
  using assms(4,5)
proof (induction pools)
  case Nil
  then show ?case by simp
next
  case (Cons p ps)
  have wf: "pool_wf p" "pools_wf ps" "\<forall>q \<in> set ps. pool_frames p \<inter> pool_frames q = {}"
    using Cons.prems(1) by (auto simp: pools_wf_Cons)
  obtain p' where p': "pool_free_ppages cc pg p = Some p'" "pool_used p' = pool_used p - page_frames pg"
    "pool_wf p'" "pool_frames p' = pool_frames p" "pp_free p' = pp_free p"
    using pool_free_frames [OF assms(1-3) wf(1)] Cons.prems(2) by auto
  obtain ps' where ps': "mem_free_ppages cc pg ps = Some ps'" "pools_wf ps'"
    "used_frames ps' = used_frames ps - page_frames pg" "map pool_frames ps' = map pool_frames ps"
    "map pp_free ps' = map pp_free ps"
    using Cons.IH wf(2) Cons.prems(2) by auto
  have "pool_frames ` set ps' = pool_frames ` set ps" using ps'(4) by (metis list.set_map)
  then have "\<forall>q \<in> set ps'. pool_frames p' \<inter> pool_frames q = {}"
    using wf(3) p'(4) by (metis imageE imageI)
  with p' ps' show ?case by (auto simp: pools_wf_Cons)
qed

subsection \<open>Reservation\<close>

lemma reserved_in_pool_iff:
  assumes "ppages_in_pool pg p" "pool_wf p" "PAGE_SIZE dvd pg_base pg" "0 < pg_size pg"
  defines "b \<equiv> NUM_PAGES (pg_base pg - pp_base p)"
  shows "pp_base p div PAGE_SIZE + b = pg_base pg div PAGE_SIZE" "b + pg_size pg \<le> pp_size p"
    "mem_are_ppages_reserved_in_pool p pg \<longleftrightarrow> page_frames pg \<inter> pool_used p \<noteq> {}"
proof -
  let ?n = "pg_size pg" and ?B = "pp_base p div PAGE_SIZE" and ?F = "pg_base pg div PAGE_SIZE"
  from assms(2,3) have eqs: "pp_base p = ?B * PAGE_SIZE" "pg_base pg = ?F * PAGE_SIZE"
    by (simp_all add: pool_wf_def)
  have ge: "?B * PAGE_SIZE \<le> ?F * PAGE_SIZE"
    and le: "(?F + ?n) * PAGE_SIZE \<le> (?B + pp_size p) * PAGE_SIZE"
    using assms(1) eqs by (auto simp: ppages_in_pool_def range_in_range_def distrib_right)
  then have ge': "?B \<le> ?F" and le': "?F + ?n \<le> ?B + pp_size p" by simp_all
  have "b = NUM_PAGES ((?F - ?B) * PAGE_SIZE)"
    unfolding b_def using eqs by (metis diff_mult_distrib)
  then have b: "b = ?F - ?B" by simp
  show 1: "?B + b = ?F" and 2: "b + ?n \<le> pp_size p" using b ge' le' by auto
  have lt: "b < pp_size p" using 2 assms(4) by linarith
  note c = bitmap_count_consecutive_spec [OF lt assms(4), of "pp_bitmap p"]
  have res: "mem_are_ppages_reserved_in_pool p pg \<longleftrightarrow>
      bitmap_get (pp_bitmap p) b = 1 \<or> bitmap_count_consecutive (pp_bitmap p) (pp_size p) b ?n < ?n"
    using assms(1) by (simp add: mem_are_ppages_reserved_in_pool_def b_def Let_def)
  have "\<not> mem_are_ppages_reserved_in_pool p pg \<longleftrightarrow> bit_run (pp_bitmap p) 0 b ?n"
  proof
    assume "\<not> mem_are_ppages_reserved_in_pool p pg"
    then have "bitmap_get (pp_bitmap p) b = 0" "bitmap_count_consecutive (pp_bitmap p) (pp_size p) b ?n = ?n"
      using res c(2) bitmap_get_cases [of "pp_bitmap p" b] by auto
    then show "bit_run (pp_bitmap p) 0 b ?n" using c(4) by simp
  next
    assume run: "bit_run (pp_bitmap p) 0 b ?n"
    then have z: "bitmap_get (pp_bitmap p) b = 0" using bit_runD assms(4) by simp
    have "\<not> bitmap_count_consecutive (pp_bitmap p) (pp_size p) b ?n < ?n"
      using c(5) z bit_runD [OF run] 2 by fastforce
    with z res show "\<not> mem_are_ppages_reserved_in_pool p pg" by simp
  qed
  also have "bit_run (pp_bitmap p) 0 b ?n \<longleftrightarrow> page_frames pg \<inter> pool_used p = {}"
  proof
    assume run: "bit_run (pp_bitmap p) 0 b ?n"
    have "f \<notin> pool_used p" if f: "f \<in> page_frames pg" for f
    proof -
      have "b \<le> f - ?B" "f - ?B < b + ?n" using f 1 by (auto simp: page_frames_def)
      with bit_runD [OF run] have "bitmap_get (pp_bitmap p) (f - ?B) = 0" by blast
      then show ?thesis by (simp add: pool_used_def)
    qed
    then show "page_frames pg \<inter> pool_used p = {}" by blast
  next
    assume dis: "page_frames pg \<inter> pool_used p = {}"
    have "bitmap_get (pp_bitmap p) x = 0" if x: "x \<in> {b..<b + ?n}" for x
    proof -
      have "?B + x \<in> page_frames pg" "?B + x \<in> pool_frames p"
        using x 1 2 by (auto simp: page_frames_def pool_frames_def)
      with dis have "bitmap_get (pp_bitmap p) x \<noteq> 1" by (fastforce simp: pool_used_def)
      then show ?thesis using bitmap_get_cases by blast
    qed
    then show "bit_run (pp_bitmap p) 0 b ?n" by (simp add: bit_run_def)
  qed
  finally show "mem_are_ppages_reserved_in_pool p pg \<longleftrightarrow> page_frames pg \<inter> pool_used p \<noteq> {}" by blast
qed

lemma mem_reserve_ppool_frames:
  assumes "ppages_in_pool pg p" "pool_wf p" "PAGE_SIZE dvd pg_base pg" "0 < pg_size pg"
    "mem_reserve_ppool_ppages p pg = (r, p')"
  shows "r \<longleftrightarrow> page_frames pg \<inter> pool_used p = {}" "pool_used p' = pool_used p \<union> page_frames pg"
    "pool_wf p'" "pool_frames p' = pool_frames p" "page_frames pg \<subseteq> pool_frames p"
proof -
  let ?b = "NUM_PAGES (pg_base pg - pp_base p)"
  note ri = reserved_in_pool_iff [OF assms(1-4)]
  from assms(1,5) have r: "r = (\<not> mem_are_ppages_reserved_in_pool p pg)"
    and p': "p' = p\<lparr>pp_bitmap := bitmap_set_consecutive (pp_bitmap p) ?b (pg_size pg),
                     pp_free := sub64 (pp_free p) (pg_size pg)\<rparr>"
    by (auto simp: mem_reserve_ppool_ppages_def Let_def)
  show "r \<longleftrightarrow> page_frames pg \<inter> pool_used p = {}" using r ri(3) by simp
  have pf: "page_frames pg = {pp_base p div PAGE_SIZE + ?b ..< pp_base p div PAGE_SIZE + ?b + pg_size pg}"
    using ri(1) by (simp add: page_frames_def)
  show "pool_used p' = pool_used p \<union> page_frames pg"
    using pool_used_set_consecutive [OF ri(2), of p'] pf p' by simp
  show "pool_wf p'" "pool_frames p' = pool_frames p" using assms(2) p' by (simp_all add: pool_wf_def pool_frames_def)
  show "page_frames pg \<subseteq> pool_frames p" using pf ri(2) by (auto simp: pool_frames_def)
qed


lemma mem_reserve_ppages_spec:
  assumes "pools_wf pools" "PAGE_SIZE dvd pg_base pg" "0 < pg_size pg" "\<exists>p \<in> set pools. ppages_in_pool pg p"
    "mem_reserve_ppages_in_pool_list pools pg = (r, pools')"
  shows "pools_wf pools' \<and> map pool_frames pools' = map pool_frames pools \<and>
    (\<exists>p \<in> set pools. page_frames pg \<subseteq> pool_frames p) \<and>
    (r \<longleftrightarrow> page_frames pg \<inter> used_frames pools = {}) \<and> (r \<longleftrightarrow> \<not> mem_are_ppages_reserved pg pools) \<and>
    used_frames pools' = used_frames pools \<union> page_frames pg"
  using assms(1,4,5)
proof (induction pools arbitrary: pools')
  case (Cons p ps)
  have wf: "pool_wf p" "pools_wf ps" "\<forall>q \<in> set ps. pool_frames p \<inter> pool_frames q = {}"
    using Cons.prems(1) by (auto simp: pools_wf_Cons)
  show ?case
  proof (cases "ppages_in_pool pg p")
    case True
    then obtain p' where p': "mem_reserve_ppool_ppages p pg = (r, p')" "pools' = p' # ps"
      using Cons.prems(3) by (auto split: prod.splits)
    note fr = mem_reserve_ppool_frames [OF True wf(1) assms(2,3) p'(1)]
    have "used_frames ps \<inter> pool_frames p = {}"
      using wf(3) pool_used_subset by (fastforce simp: used_frames_def)
    moreover have "mem_are_ppages_reserved pg (p # ps) \<longleftrightarrow> page_frames pg \<inter> pool_used p \<noteq> {}"
      using True reserved_in_pool_iff(3) [OF True wf(1) assms(2,3)] by simp
    ultimately show ?thesis using fr p'(2) wf by (auto simp: pools_wf_Cons)
  next
    case False
    then obtain ps' where ps': "mem_reserve_ppages_in_pool_list ps pg = (r, ps')" "pools' = p # ps'"
      using Cons.prems(3) by (auto split: prod.splits)
    have "\<exists>q \<in> set ps. ppages_in_pool pg q" using Cons.prems(2) False by auto
    note ih = Cons.IH [OF wf(2) this ps'(1)]
    then have "pool_frames ` set ps' = pool_frames ` set ps" by (metis list.set_map)
    then have "\<forall>q \<in> set ps'. pool_frames p \<inter> pool_frames q = {}" using wf(3) by (metis imageE imageI)
    moreover have "page_frames pg \<inter> pool_used p = {}"
      using ih wf(3) pool_used_subset [of p] by blast
    ultimately show ?thesis using ih ps'(2) wf(1) False by (auto simp: pools_wf_Cons)
  qed
qed simp

lemma mem_reserve_True_in_pool:
  "mem_reserve_ppages_in_pool_list pools pg = (True, pools') \<Longrightarrow> \<exists>p \<in> set pools. ppages_in_pool pg p"
  by (induction pools arbitrary: pools') (auto split: if_splits prod.splits)

lemma mem_reserve_ppages_frames:
  assumes "pools_wf pools" "PAGE_SIZE dvd pg_base pg" "0 < pg_size pg"
    "mem_reserve_ppages_in_pool_list pools pg = (True, pools')"
  shows "pools_wf pools' \<and> map pool_frames pools' = map pool_frames pools \<and>
     (\<exists>p \<in> set pools. page_frames pg \<subseteq> pool_frames p) \<and>
     page_frames pg \<inter> used_frames pools = {} \<and>
     used_frames pools' = used_frames pools \<union> page_frames pg"
  using mem_reserve_ppages_spec [OF assms(1-3) mem_reserve_True_in_pool assms(4)] assms(4) by blast

subsection \<open>The contract of a frame allocator\<close>

text \<open>
  A history takes pages with \<open>take\<close> and gives held pages back with \<open>give\<close>; its last argument is
  the list of the pages held.
\<close>

inductive alloc_history ::
  "('s \<Rightarrow> 'p \<Rightarrow> 's \<Rightarrow> bool) \<Rightarrow> ('s \<Rightarrow> 'p \<Rightarrow> 's \<Rightarrow> bool) \<Rightarrow> 's \<Rightarrow> 's \<Rightarrow> 'p list \<Rightarrow> bool"
  for take_step give_step s0 where
  start: "alloc_history take_step give_step s0 s0 []"
| take: "alloc_history take_step give_step s0 s held \<Longrightarrow> take_step s p t \<Longrightarrow>
     alloc_history take_step give_step s0 t (p # held)"
| give: "alloc_history take_step give_step s0 s (xs @ p # ys) \<Longrightarrow> give_step s p t \<Longrightarrow>
     alloc_history take_step give_step s0 t (xs @ ys)"

locale frame_allocator =
  fixes inv :: "'s \<Rightarrow> bool"
    and used :: "'s \<Rightarrow> nat set"
    and frames :: "'p \<Rightarrow> nat set"
    and managed :: "'s \<Rightarrow> 'p \<Rightarrow> bool"
    and take_step :: "'s \<Rightarrow> 'p \<Rightarrow> 's \<Rightarrow> bool"
    and give_step :: "'s \<Rightarrow> 'p \<Rightarrow> 's \<Rightarrow> bool"
  assumes take_inv: "inv s \<Longrightarrow> take_step s p t \<Longrightarrow> inv t"
    and take_fresh: "inv s \<Longrightarrow> take_step s p t \<Longrightarrow> frames p \<inter> used s = {}"
    and take_used: "inv s \<Longrightarrow> take_step s p t \<Longrightarrow> used t = used s \<union> frames p"
    and take_managed: "inv s \<Longrightarrow> take_step s p t \<Longrightarrow> managed t p"
    and take_keeps: "inv s \<Longrightarrow> take_step s p t \<Longrightarrow> managed s q \<Longrightarrow> managed t q"
    and give_inv: "inv s \<Longrightarrow> managed s p \<Longrightarrow> give_step s p t \<Longrightarrow> inv t"
    and give_used: "inv s \<Longrightarrow> managed s p \<Longrightarrow> give_step s p t \<Longrightarrow> used t = used s - frames p"
    and give_keeps: "inv s \<Longrightarrow> managed s p \<Longrightarrow> give_step s p t \<Longrightarrow> managed s q \<Longrightarrow> managed t q"
begin

lemma history_invariant:
  assumes "alloc_history take_step give_step s0 s held" "inv s0"
  shows "inv s \<and> (\<forall>p \<in> set held. managed s p \<and> frames p \<subseteq> used s) \<and>
         sorted_wrt (\<lambda>p q. frames p \<inter> frames q = {}) held"
  using assms
proof (induction rule: alloc_history.induct)
  case start
  then show ?case by simp
next
  case (take s held p t)
  then have "inv s" by blast
  with take show ?case
    using take_inv take_fresh take_used take_managed take_keeps by (simp, blast)
next
  case (give s xs p ys t)
  then have s: "inv s" "managed s p" by auto
  from give have dis: "sorted_wrt (\<lambda>p q. frames p \<inter> frames q = {}) (xs @ p # ys)" by blast
  have apart: "frames q \<inter> frames p = {}" if "q \<in> set (xs @ ys)" for q
    using dis that by (auto simp: sorted_wrt_append)
  have "sorted_wrt (\<lambda>p q. frames p \<inter> frames q = {}) (xs @ ys)"
    using dis by (auto simp: sorted_wrt_append)
  moreover have "managed t q \<and> frames q \<subseteq> used t" if "q \<in> set (xs @ ys)" for q
    using that give s apart give_used [OF s give.hyps(2)] give_keeps [OF s give.hyps(2)]
    by (auto dest!: bspec [of _ _ q])
  ultimately show ?case using give_inv [OF s give.hyps(2)] by blast
qed

lemma no_double_allocation:
  assumes "alloc_history take_step give_step s0 s held" "inv s0" "i < j" "j < length held"
  shows "frames (held ! i) \<inter> frames (held ! j) = {}"
  using history_invariant [OF assms(1,2)] assms(3,4) by (simp add: sorted_wrt_iff_nth_less)

end

subsection \<open>The page pools meet the contract\<close>

definition pools_managed :: "color_cfg \<Rightarrow> page_pool list \<Rightarrow> ppages \<Rightarrow> bool" where
  "pools_managed cc pools pg \<longleftrightarrow>
     all_clrs cc (pg_colors pg) \<and> PAGE_SIZE dvd pg_base pg \<and> 0 < pg_size pg \<and>
     (\<exists>p \<in> set pools. page_frames pg \<subseteq> pool_frames p)"

text \<open>
  The ways to obtain pages: \<^verbatim>\<open>mem_alloc_ppages\<close> on its contiguous path, and \<^verbatim>\<open>mem_reserve_ppages\<close>
  of a page aligned segment that reports success.
\<close>

definition pools_take :: "color_cfg \<Rightarrow> page_pool list \<Rightarrow> ppages \<Rightarrow> page_pool list \<Rightarrow> bool" where
  "pools_take cc pools pg pools' \<longleftrightarrow>
     (\<exists>colors n aligned. contiguous_request cc colors aligned \<and>
        mem_alloc_ppages cc colors n aligned pools = Some (pg, pools') \<and> pg_size pg \<noteq> 0) \<or>
     (mem_reserve_ppages pools pg = (True, pools') \<and> PAGE_SIZE dvd pg_base pg \<and>
        0 < pg_size pg \<and> pg_colors pg = 0)"

definition pools_give :: "color_cfg \<Rightarrow> page_pool list \<Rightarrow> ppages \<Rightarrow> page_pool list \<Rightarrow> bool" where
  "pools_give cc pools pg pools' \<longleftrightarrow> mem_free_ppages cc pg pools = Some pools'"

lemma managed_frames_cong:
  "map pool_frames pools' = map pool_frames pools \<Longrightarrow> pools_managed cc pools' pg = pools_managed cc pools pg"
proof -
  have in_map: "(\<exists>p \<in> set qs. page_frames pg \<subseteq> pool_frames p) \<longleftrightarrow>
      (\<exists>F \<in> set (map pool_frames qs). page_frames pg \<subseteq> F)" for qs by simp
  assume "map pool_frames pools' = map pool_frames pools"
  then show ?thesis by (simp only: pools_managed_def in_map)
qed

lemma pools_take_frames:
  assumes "pools_wf pools" "pools_take cc pools pg pools'"
  shows "pools_wf pools' \<and> map pool_frames pools' = map pool_frames pools \<and>
     pools_managed cc pools pg \<and> page_frames pg \<inter> used_frames pools = {} \<and>
     used_frames pools' = used_frames pools \<union> page_frames pg"
  using assms(2) unfolding pools_take_def
proof (elim disjE exE conjE)
  fix colors n aligned
  assume a: "contiguous_request cc colors aligned"
    "mem_alloc_ppages cc colors n aligned pools = Some (pg, pools')" "pg_size pg \<noteq> 0"
  from alloc_in_pools_contiguous [OF a(1) assms(1) _ a(2) [unfolded mem_alloc_ppages_def]] a(3)
  show ?thesis by (auto simp: pools_managed_def all_clrs_def)
next
  assume r: "mem_reserve_ppages pools pg = (True, pools')" "PAGE_SIZE dvd pg_base pg"
    "0 < pg_size pg" "pg_colors pg = 0"
  from mem_reserve_ppages_frames [OF assms(1) r(2,3) r(1) [unfolded mem_reserve_ppages_def]] r
  show ?thesis by (auto simp: pools_managed_def all_clrs_def)
qed

lemma pools_wf_disjoint:
  "pools_wf pools \<Longrightarrow> p \<in> set pools \<Longrightarrow> q \<in> set pools \<Longrightarrow> p = q \<or> pool_frames p \<inter> pool_frames q = {}"
  by (induction pools) (auto simp: pools_wf_Cons)

lemma pools_give_frames:
  assumes "pools_wf pools" "pools_managed cc pools pg" "pools_give cc pools pg pools'"
  shows "pools_wf pools' \<and> map pool_frames pools' = map pool_frames pools \<and>
     used_frames pools' = used_frames pools - page_frames pg"
proof -
  from assms(2) obtain q where q: "q \<in> set pools" "page_frames pg \<subseteq> pool_frames q"
    and m: "all_clrs cc (pg_colors pg)" "PAGE_SIZE dvd pg_base pg" "0 < pg_size pg"
    by (auto simp: pools_managed_def)
  have "page_frames pg \<subseteq> pool_frames p \<or> page_frames pg \<inter> pool_frames p = {}" if "p \<in> set pools" for p
    using pools_wf_disjoint [OF assms(1) q(1) that] q(2) by blast
  with mem_free_frames [OF m assms(1)] assms(3) show ?thesis by (auto simp: pools_give_def)
qed

interpretation pools: frame_allocator pools_wf used_frames page_frames "pools_managed cc"
    "pools_take cc" "pools_give cc" for cc
proof (unfold_locales, goal_cases)
  case (1 s p t) then show ?case using pools_take_frames by blast
next
  case (2 s p t) then show ?case using pools_take_frames by blast
next
  case (3 s p t) then show ?case using pools_take_frames by blast
next
  case (4 s p t) then show ?case using pools_take_frames managed_frames_cong by blast
next
  case (5 s p t q) then show ?case using pools_take_frames managed_frames_cong by blast
next
  case (6 s p t) then show ?case using pools_give_frames by blast
next
  case (7 s p t) then show ?case using pools_give_frames by blast
next
  case (8 s p t q) then show ?case using pools_give_frames managed_frames_cong by blast
qed

end
