(* ===== verification/Bits.thy ===== *)
theory Bits
  imports Prelude
begin

text \<open>
  \<^verbatim>\<open>lib/inc/bit.h\<close> and \<^verbatim>\<open>lib/bit.c\<close>: bit fields of 64-bit words. Shift amounts of \<open>64\<close> and more, and a
  mask of length \<open>0\<close>, are undefined in the source; the lemmas exclude them.
\<close>

definition BIT_MASK :: "nat \<Rightarrow> nat \<Rightarrow> u64" where
  "BIT_MASK off len = push_bit off (push_bit 1 (push_bit (len - 1) 1) - 1)"

definition bit_get :: "u64 \<Rightarrow> nat \<Rightarrow> u64" where
  "bit_get w off = w AND push_bit off 1"

definition bit_set :: "u64 \<Rightarrow> nat \<Rightarrow> u64" where
  "bit_set w off = w OR push_bit off 1"

definition bit_clear :: "u64 \<Rightarrow> nat \<Rightarrow> u64" where
  "bit_clear w off = w AND NOT (push_bit off 1)"

definition bit_extract :: "u64 \<Rightarrow> nat \<Rightarrow> nat \<Rightarrow> u64" where
  "bit_extract w off len = drop_bit off w AND BIT_MASK 0 len"

definition bit_insert :: "u64 \<Rightarrow> u64 \<Rightarrow> nat \<Rightarrow> nat \<Rightarrow> u64" where
  "bit_insert w val off len = (NOT (BIT_MASK off len) AND w) OR push_bit off (BIT_MASK 0 len AND val)"

function ctz_loop :: "u64 \<Rightarrow> nat \<Rightarrow> nat" where
  "ctz_loop n i = (if i < 64 then if drop_bit i n AND 1 \<noteq> 0 then i else ctz_loop n (i + 1) else i)"
  by pat_completeness auto
termination by (relation "measure (\<lambda>(n, i). 64 - i)") auto

declare ctz_loop.simps [simp del]

definition bit_ctz :: "u64 \<Rightarrow> nat" where
  "bit_ctz n = ctz_loop n 0"

text \<open>The loop of \<^verbatim>\<open>bit_clz\<close> counts \<^verbatim>\<open>i\<close> down from 63 to \<open>-1\<close>; the argument here is \<^verbatim>\<open>i + 1\<close>.\<close>

primrec clz_loop :: "u64 \<Rightarrow> nat \<Rightarrow> nat \<Rightarrow> nat" where
  "clz_loop n 0 j = j"
| "clz_loop n (Suc i) j = (if drop_bit i n AND 1 \<noteq> 0 then j else clz_loop n i (j + 1))"

definition bit_clz :: "u64 \<Rightarrow> nat" where
  "bit_clz n = clz_loop n 64 0"

subsection \<open>Fields\<close>

lemma BIT_MASK_eq: "0 < len \<Longrightarrow> BIT_MASK off len = push_bit off (mask len)"
  by (cases len) (simp_all add: BIT_MASK_def mask_eq_exp_minus_1 push_bit_eq_mult mult.commute)

lemma bit_BIT_MASK [bm_simps]:
  "0 < len \<Longrightarrow> bit (BIT_MASK off len) i \<longleftrightarrow> i < 64 \<and> off \<le> i \<and> i < off + len"
  by (auto simp: BIT_MASK_eq bit_simps)

lemma drop_and_1: "drop_bit i (n::u64) AND 1 \<noteq> 0 \<longleftrightarrow> bit n i"
  by (simp add: one_and_eq and.commute bit_iff_odd_drop_bit odd_iff_mod_2_eq_one flip: mod_2_eq_odd)

lemma bit_get_iff: "bit_get w i \<noteq> 0 \<longleftrightarrow> bit w i"
  by (simp add: bit_get_def push_bit_eq_mult and_exp_eq_0_iff_not_bit)

lemma bit_extract_insert:
  assumes "0 < len" "off + len \<le> 64"
  shows "bit_extract (bit_insert w v off len) off len = take_bit len v"
proof (rule bit_word_eqI)
  fix i assume i: "i < LENGTH(64)"
  show "bit (bit_extract (bit_insert w v off len) off len) i \<longleftrightarrow> bit (take_bit len v) i"
    using assms i by (auto simp: bit_extract_def bit_insert_def bm_simps bit_simps)
qed

lemma bit_insert_frame:
  assumes "0 < len"
  shows "bit (bit_insert w v off len) i \<longleftrightarrow>
    (if off \<le> i \<and> i < off + len \<and> i < 64 then bit v (i - off) else bit w i)"
  using assms bit_imp_le_length [of w i] by (auto simp: bit_insert_def bm_simps bit_simps)

subsection \<open>Counting zeros\<close>

lemma ctz_loop_spec:
  "i \<le> 64 \<Longrightarrow> i \<le> ctz_loop n i \<and> ctz_loop n i \<le> 64 \<and> (\<forall>j \<in> {i..<ctz_loop n i}. \<not> bit n j) \<and>
     (ctz_loop n i < 64 \<longrightarrow> bit n (ctz_loop n i))"
proof (induction n i rule: ctz_loop.induct)
  case (1 n i)
  note step = ctz_loop.simps [of n i]
  show ?case
  proof (cases "i < 64 \<and> \<not> bit n i")
    case True
    then have e: "ctz_loop n i = ctz_loop n (i + 1)" using step by (simp add: drop_and_1)
    have ih: "i + 1 \<le> ctz_loop n i \<and> ctz_loop n i \<le> 64 \<and> (\<forall>j \<in> {i + 1..<ctz_loop n i}. \<not> bit n j) \<and>
      (ctz_loop n i < 64 \<longrightarrow> bit n (ctz_loop n i))"
      unfolding e using 1 True by (simp add: drop_and_1)
    moreover have "\<not> bit n j" if "j \<in> {i..<ctz_loop n i}" for j
      using ih True that by (cases "j = i") auto
    ultimately show ?thesis by simp
  next
    case False
    then show ?thesis using step 1(2) by (auto simp: drop_and_1)
  qed
qed

lemma clz_loop_spec:
  "(\<exists>k \<le> i. clz_loop n i j = j + k \<and> (\<forall>b \<in> {i - k..<i}. \<not> bit n b) \<and> (k < i \<longrightarrow> bit n (i - k - 1)))"
proof (induction i arbitrary: j)
  case (Suc i)
  show ?case
  proof (cases "bit n i")
    case True
    then show ?thesis by (intro exI [of _ 0]) (simp add: drop_and_1)
  next
    case False
    obtain k where k: "k \<le> i" "clz_loop n i (j + 1) = j + 1 + k" "\<forall>b \<in> {i - k..<i}. \<not> bit n b"
      "k < i \<longrightarrow> bit n (i - k - 1)" using Suc by blast
    have "\<not> bit n b" if "b \<in> {Suc i - (k + 1)..<Suc i}" for b
      using that False k(3) by (cases "b = i") auto
    with k False show ?thesis by (intro exI [of _ "k + 1"]) (auto simp: drop_and_1)
  qed
qed simp

lemma word_bit_exists: "(n::u64) \<noteq> 0 \<Longrightarrow> \<exists>i < 64. bit n i"
proof (rule ccontr)
  assume n: "n \<noteq> 0" and "\<not> (\<exists>i < 64. bit n i)"
  then have "n = 0" by (intro bit_word_eqI) simp
  with n show False by simp
qed

lemma bit_ctz_spec:
  assumes "n \<noteq> 0"
  shows "bit n (bit_ctz n)" "bit n i \<Longrightarrow> bit_ctz n \<le> i"
proof -
  have c: "bit_ctz n \<le> 64" "\<forall>j < bit_ctz n. \<not> bit n j" "bit_ctz n < 64 \<Longrightarrow> bit n (bit_ctz n)"
    using ctz_loop_spec [of 0 n] by (simp_all add: bit_ctz_def)
  show "bit n i \<Longrightarrow> bit_ctz n \<le> i" using c(2) not_less by blast
  show "bit n (bit_ctz n)" using word_bit_exists [OF assms] c by (metis le_neq_implies_less)
qed

lemma bit_clz_spec:
  assumes "n \<noteq> 0"
  shows "bit n (63 - bit_clz n)" "bit_clz n \<le> 63" "bit n i \<Longrightarrow> i \<le> 63 - bit_clz n"
proof -
  obtain k where k: "k \<le> 64" "bit_clz n = k" "\<forall>b \<in> {64 - k..<64}. \<not> bit n b"
      "k < 64 \<longrightarrow> bit n (64 - k - 1)"
    using clz_loop_spec [of 64 n 0] by (auto simp: bit_clz_def)
  have "k \<noteq> 64" using word_bit_exists [OF assms] k(3) by auto
  with k show "bit n (63 - bit_clz n)" "bit_clz n \<le> 63" by auto
  show "bit n i \<Longrightarrow> i \<le> 63 - bit_clz n"
    using k bit_imp_le_length [of n i] by (cases "i < 64 - k") auto
qed

subsection \<open>Properties\<close>

text \<open>
  Writing a field of a word and reading it back gives the low bits of the value written, and no
  bit outside the field changes.
\<close>

theorem bit_insert_field:
  assumes "0 < len" "off + len \<le> 64"
  shows "bit_extract (bit_insert w v off len) off len = take_bit len v \<and>
    (\<forall>i. \<not> (off \<le> i \<and> i < off + len) \<longrightarrow> bit (bit_insert w v off len) i = bit w i)"
  using bit_extract_insert [OF assms] bit_insert_frame [OF assms(1)] by simp

theorem bit_insert_field_witness:
  "bit_extract (bit_insert 0xffff 0x1a5 4 8) 4 8 = 0xa5 \<and> bit_insert 0xffff 0x1a5 4 8 = 0xfa5f"
proof -
  have "bit_insert 0xffff 0x1a5 4 8 = 0xfa5f" by code_simp
  then show ?thesis using bit_insert_field [of 8 4 "0xffff" "0x1a5"] by (simp add: take_bit_eq_mod)
qed

text \<open>
  \<^verbatim>\<open>bit_ctz\<close> and \<^verbatim>\<open>bit_clz\<close> find the lowest and the highest bit set of a word, and return 64 for
  the word 0.
\<close>

theorem bit_ctz_clz_exact:
  "(n \<noteq> 0 \<longrightarrow> bit n (bit_ctz n) \<and> bit n (63 - bit_clz n) \<and> bit_clz n \<le> 63 \<and>
      (\<forall>i. bit n i \<longrightarrow> bit_ctz n \<le> i \<and> i \<le> 63 - bit_clz n)) \<and>
   bit_ctz 0 = 64 \<and> bit_clz 0 = 64"
proof -
  have "bit n (bit_ctz n) \<and> bit n (63 - bit_clz n) \<and> bit_clz n \<le> 63 \<and>
      (\<forall>i. bit n i \<longrightarrow> bit_ctz n \<le> i \<and> i \<le> 63 - bit_clz n)" if "n \<noteq> 0"
    using bit_ctz_spec [OF that] bit_clz_spec [OF that] by simp
  moreover have "bit_ctz 0 = 64" using ctz_loop_spec [of 0 0] by (auto simp: bit_ctz_def)
  moreover have "bit_clz 0 = 64" using clz_loop_spec [of 64 0 0] by (auto simp: bit_clz_def)
  ultimately show ?thesis by blast
qed

theorem bit_ctz_clz_exact_witness: 
  "bit_ctz 0x8000000000000050 = 4 \<and> bit_clz 0x8000000000000050 = 0 \<and> bit (0x8000000000000050 :: u64) 4"
proof -
  have "bit_ctz 0x8000000000000050 = 4" "bit_clz 0x8000000000000050 = 0" by code_simp+
  then show ?thesis using bit_ctz_clz_exact [of "0x8000000000000050"] by simp
qed

end
