(* ===== verification/Page_Table.thy ===== *)
theory Page_Table
  imports Bits
begin

text \<open>
  Page tables: \<^verbatim>\<open>core/inc/page_table.h\<close> (geometry), \<^verbatim>\<open>arch/riscv/inc/arch/page_table.h\<close> (entries),
  \<^verbatim>\<open>arch/riscv/page_table.c\<close> (the walk) and \<^verbatim>\<open>arch/riscv/mem.c\<close> (translation, identity map). Physical
  memory is identity mapped in the hypervisor's address spaces, so that a pointer to an entry is its
  physical address: memory is the function from the address of an entry to its value, and \<open>0\<close> is
  \<^verbatim>\<open>NULL\<close>. Masks of the form \<open>2 ^ k - 1\<close> on addresses are written with \<open>div\<close> and \<open>mod\<close>.
\<close>

type_synonym ptmem = "nat \<Rightarrow> u64"

subsection \<open>Geometry\<close>

record page_table_dscr =
  pt_lvls :: nat
  lvl_off :: "nat list"
  lvl_wdt :: "nat list"
  lvl_term :: "bool list"

definition sv39_pt_dscr :: page_table_dscr where
  "sv39_pt_dscr = \<lparr>pt_lvls = 3, lvl_off = [30, 21, 12], lvl_wdt = [39, 30, 21], lvl_term = [True, True, True]\<rparr>"

definition sv39x4_pt_dscr :: page_table_dscr where
  "sv39x4_pt_dscr = \<lparr>pt_lvls = 3, lvl_off = [30, 21, 12], lvl_wdt = [41, 30, 21], lvl_term = [True, True, True]\<rparr>"

record page_table =
  pt_root :: nat
  pt_dscr :: page_table_dscr

definition pt_nentries :: "page_table \<Rightarrow> nat \<Rightarrow> nat" where
  "pt_nentries pt lvl = 2 ^ (lvl_wdt (pt_dscr pt) ! lvl) div 2 ^ (lvl_off (pt_dscr pt) ! lvl)"

definition pt_lvlsize :: "page_table \<Rightarrow> nat \<Rightarrow> nat" where
  "pt_lvlsize pt lvl = 2 ^ (lvl_off (pt_dscr pt) ! lvl)"

definition pt_size :: "page_table \<Rightarrow> nat \<Rightarrow> nat" where
  "pt_size pt lvl = pt_nentries pt lvl * 8"

definition pt_getpteindex :: "page_table \<Rightarrow> nat \<Rightarrow> nat \<Rightarrow> nat" where
  "pt_getpteindex pt pte lvl = (pte mod pt_size pt lvl) div 8"

definition pt_getpteindex_by_va :: "page_table \<Rightarrow> nat \<Rightarrow> nat \<Rightarrow> nat" where
  "pt_getpteindex_by_va pt va lvl = (va div 2 ^ (lvl_off (pt_dscr pt) ! lvl)) mod pt_nentries pt lvl"

definition pt_lvl_terminal :: "page_table \<Rightarrow> nat \<Rightarrow> bool" where
  "pt_lvl_terminal pt lvl = lvl_term (pt_dscr pt) ! lvl"

subsection \<open>Entries\<close>

definition PTE_ADDR_MSK :: u64 where "PTE_ADDR_MSK = BIT_MASK 12 44"
definition PTE_FLAGS_MSK :: u64 where "PTE_FLAGS_MSK = BIT_MASK 0 8"
definition PTE_RSW_MSK :: u64 where "PTE_RSW_MSK = BIT_MASK 8 2"
definition PTE_VALID :: u64 where "PTE_VALID = 1"
definition PTE_RWX :: u64 where "PTE_RWX = 0xe"
definition PTE_TABLE :: u64 where "PTE_TABLE = 0"
definition PTE_PAGE :: u64 where "PTE_PAGE = PTE_RWX"
definition PTE_SUPERPAGE :: u64 where "PTE_SUPERPAGE = PTE_PAGE"
definition PTE_RSW_RSRV :: u64 where "PTE_RSW_RSRV = 0x300"
definition PTE_INVALID :: u64 where "PTE_INVALID = 0"
definition PTE_HYP_FLAGS :: u64 where "PTE_HYP_FLAGS = 0xe1"
definition PTE_VM_FLAGS :: u64 where "PTE_VM_FLAGS = 0xd1"

definition pte_set :: "nat \<Rightarrow> u64 \<Rightarrow> u64 \<Rightarrow> u64" where
  "pte_set addr type flags =
     drop_bit 2 (of_nat addr AND PTE_ADDR_MSK) OR (flags AND PTE_FLAGS_MSK) OR type"

definition pte_addr :: "u64 \<Rightarrow> nat" where
  "pte_addr pte = unat (push_bit 2 pte AND PTE_ADDR_MSK)"

definition pte_valid :: "u64 \<Rightarrow> bool" where
  "pte_valid pte \<longleftrightarrow> pte AND PTE_VALID \<noteq> 0"

definition pte_set_rsw :: "u64 \<Rightarrow> u64 \<Rightarrow> u64" where
  "pte_set_rsw pte flag = (pte AND NOT PTE_RSW_MSK) OR (flag AND PTE_RSW_MSK)"

definition pte_check_rsw :: "u64 \<Rightarrow> u64 \<Rightarrow> bool" where
  "pte_check_rsw pte flag \<longleftrightarrow> pte AND PTE_RSW_MSK = flag AND PTE_RSW_MSK"

definition pte_table :: "u64 \<Rightarrow> bool" where
  "pte_table pte \<longleftrightarrow> pte AND 0xf = PTE_VALID"

definition pt_pte_type :: "page_table \<Rightarrow> nat \<Rightarrow> u64" where
  "pt_pte_type pt lvl = PTE_PAGE"

subsection \<open>The walk\<close>

text \<open>The loop of \<^verbatim>\<open>pt_get_pte\<close>, with \<open>i\<close> the loop variable and \<open>k\<close> the number of levels left.\<close>

primrec pt_walk :: "page_table \<Rightarrow> ptmem \<Rightarrow> nat \<Rightarrow> nat \<Rightarrow> nat \<Rightarrow> nat \<Rightarrow> nat" where
  "pt_walk pt m va 0 i pte = pte"
| "pt_walk pt m va (Suc k) i pte =
     (if \<not> pte_valid (m pte) then 0
      else pt_walk pt m va k (i + 1) (pte_addr (m pte) + 8 * pt_getpteindex_by_va pt va (i + 1)))"

definition pt_get_pte :: "page_table \<Rightarrow> ptmem \<Rightarrow> nat \<Rightarrow> nat \<Rightarrow> nat" where
  "pt_get_pte pt m lvl va = pt_walk pt m va lvl 0 (pt_root pt + 8 * pt_getpteindex_by_va pt va 0)"

definition pt_get :: "page_table \<Rightarrow> ptmem \<Rightarrow> nat \<Rightarrow> nat \<Rightarrow> nat" where
  "pt_get pt m lvl va =
     (let pte = pt_get_pte pt m lvl va in pte div pt_size pt lvl * pt_size pt lvl)"

subsection \<open>Translation\<close>

text \<open>The loop of \<^verbatim>\<open>mem_translate\<close>: the entry it stops at and its level (\<open>0\<close> when it runs out of levels).\<close>

primrec translate_walk :: "page_table \<Rightarrow> ptmem \<Rightarrow> nat \<Rightarrow> nat \<Rightarrow> nat \<Rightarrow> nat \<Rightarrow> nat \<times> nat" where
  "translate_walk pt m va 0 i pte = (pte, 0)"
| "translate_walk pt m va (Suc k) i pte =
     (if \<not> pte_valid (m pte) \<or> \<not> pte_table (m pte) then (pte, i)
      else translate_walk pt m va k (i + 1) (pte_addr (m pte) + 8 * pt_getpteindex_by_va pt va (i + 1)))"

definition mem_translate :: "page_table \<Rightarrow> ptmem \<Rightarrow> nat \<Rightarrow> nat option" where
  "mem_translate pt m va =
     (let (pte, lvl) = translate_walk pt m va (pt_lvls (pt_dscr pt)) 0
                         (pt_root pt + 8 * pt_getpteindex_by_va pt va 0)
      in if pte \<noteq> 0 \<and> pte_valid (m pte) then
           let sz = 2 ^ (lvl_off (pt_dscr pt) ! lvl)
           in Some (pte_addr (m pte) div sz * sz + va mod sz)
         else None)"

text \<open>
  \<^verbatim>\<open>as_map_physical_identity\<close>: one largest-page entry of the root table per step of a region.
  \<^verbatim>\<open>num_entries\<close> is computed in 64 bits and stored in an \<^verbatim>\<open>int\<close>; as a loop bound a negative \<^verbatim>\<open>int\<close> is \<open>0\<close>.
\<close>

definition to_int32 :: "nat \<Rightarrow> int" where
  "to_int32 x = sint (of_nat x :: u32)"

definition identity_entries :: "nat \<Rightarrow> nat \<Rightarrow> nat \<Rightarrow> nat" where
  "identity_entries lvl_size b tp = nat (to_int32 (sub64 (sub64 tp b) 1 div lvl_size + 1))"

primrec identity_loop :: "page_table \<Rightarrow> nat \<Rightarrow> nat \<Rightarrow> nat \<Rightarrow> ptmem \<Rightarrow> ptmem" where
  "identity_loop pt lvl_size 0 addr m = m"
| "identity_loop pt lvl_size (Suc k) addr m =
     identity_loop pt lvl_size k (addr + lvl_size)
       (m(pt_root pt + 8 * pt_getpteindex_by_va pt addr 0 := pte_set addr PTE_SUPERPAGE PTE_HYP_FLAGS))"

definition identity_region :: "page_table \<Rightarrow> nat \<times> nat \<Rightarrow> ptmem \<Rightarrow> ptmem" where
  "identity_region pt reg m =
     (let lvl_size = pt_lvlsize pt 0;
          b = fst reg div lvl_size * lvl_size;
          tp = (fst reg + snd reg) div lvl_size * lvl_size
      in identity_loop pt lvl_size (identity_entries lvl_size b tp) b m)"

definition as_map_physical_identity :: "page_table \<Rightarrow> (nat \<times> nat) list \<Rightarrow> ptmem \<Rightarrow> ptmem" where
  "as_map_physical_identity pt regions m = fold (identity_region pt) regions m"

subsection \<open>Laws of the entries\<close>

lemmas pte_masks [pt_simps] = PTE_ADDR_MSK_def PTE_FLAGS_MSK_def PTE_RSW_MSK_def

lemma pte_valid_bit: "pte_valid w \<longleftrightarrow> bit w 0"
  by (simp add: pte_valid_def PTE_VALID_def one_and_eq and.commute bit_0 odd_iff_mod_2_eq_one flip: mod_2_eq_odd)

lemma small_type_bits: "(ty :: u64) < 16 \<Longrightarrow> bit ty i \<Longrightarrow> i < 4"
proof (rule ccontr)
  assume "ty < 16" "bit ty i" "\<not> i < 4"
  then have "ty = take_bit 4 ty" by (simp add: take_bit_eq_mod word_less_nat_alt unat_mod word_unat_eq_iff)
  then have "bit (take_bit 4 ty) i" using \<open>bit ty i\<close> by simp
  with \<open>\<not> i < 4\<close> show False by (simp add: bit_take_bit_iff)
qed

lemma page_addr_bits:
  assumes "PAGE_SIZE dvd a" "a < 2 ^ 56"
  shows "bit (of_nat a :: u64) i \<Longrightarrow> 12 \<le> i \<and> i < 56"
proof -
  assume "bit (of_nat a :: u64) i"
  then have i: "bit a i" by (simp add: bit_of_nat_iff_bit bit_simps)
  have "take_bit 12 a = 0" using assms(1) by (simp add: take_bit_eq_mod PAGE_SIZE_def)
  then have "\<not> bit a i" if "i < 12" using that by (metis bit_0_eq bit_take_bit_iff bot_apply bot_bool_def)
  moreover have "take_bit 56 a = a" using assms(2) by (simp add: take_bit_eq_mod)
  then have "\<not> bit a i" if "\<not> i < 56" using that by (metis bit_take_bit_iff)
  ultimately show ?thesis using i by force
qed

lemma pte_set_bit:
  assumes "ty < 16"
  shows "bit (pte_set a ty fl) i \<longleftrightarrow>
    10 \<le> i \<and> i < 54 \<and> bit (of_nat a :: u64) (i + 2) \<or> i < 8 \<and> bit fl i \<or> bit ty i"
  by (auto simp: pte_set_def pt_simps bm_simps bit_simps add.commute dest: bit_imp_le_length)

lemma pte_addr_set:
  assumes "PAGE_SIZE dvd a" "a < 2 ^ 56" "ty < 16"
  shows "pte_addr (pte_set a ty fl) = a"
proof -
  have "push_bit 2 (pte_set a ty fl) AND PTE_ADDR_MSK = of_nat a"
  proof (rule bit_word_eqI)
    fix i assume i: "i < LENGTH(64)"
    have "\<not> bit ty (i - 2)" if "12 \<le> i" using that small_type_bits [OF assms(3)] by force
    moreover have "bit (pte_set a ty fl) (i - 2) \<longleftrightarrow> i < 56 \<and> bit (of_nat a :: u64) i \<or> bit ty (i - 2)"
      if "12 \<le> i"
    proof -
      define j where "j = i - 2"
      then have "i = j + 2" "10 \<le> j" using \<open>12 \<le> i\<close> by linarith+
      then show ?thesis using pte_set_bit [OF assms(3), of a fl j] by auto
    qed
    ultimately show "bit (push_bit 2 (pte_set a ty fl) AND PTE_ADDR_MSK) i \<longleftrightarrow> bit (of_nat a :: u64) i"
      using i page_addr_bits [OF assms(1,2), of i]
      unfolding pt_simps bit_and_iff bit_push_bit_iff bit_BIT_MASK [of 44, simplified] by auto
  qed
  moreover have "unat (of_nat a :: u64) = a" using assms(2) by (simp add: unat_of_nat)
  ultimately show ?thesis by (simp add: pte_addr_def)
qed

lemma pte_valid_set: "ty < 16 \<Longrightarrow> pte_valid (pte_set a ty fl) \<longleftrightarrow> bit fl 0 \<or> bit ty 0"
  by (simp add: pte_valid_bit pte_set_bit)

lemma pte_table_take: "pte_table w \<longleftrightarrow> take_bit 4 w = 1"
proof -
  have "(0xf :: u64) = mask 4" by (simp add: mask_eq_exp_minus_1)
  then show ?thesis by (simp only: pte_table_def PTE_VALID_def flip: take_bit_eq_mask)
qed

lemma pte_table_bits: "pte_table w \<longleftrightarrow> bit w 0 \<and> \<not> bit w 1 \<and> \<not> bit w 2 \<and> \<not> bit w 3"
proof -
  have "pte_table w \<longleftrightarrow> (\<forall>i. bit (take_bit 4 w) i = bit (1 :: u64) i)"
    by (metis pte_table_take bit_eqI)
  also have "\<dots> \<longleftrightarrow> (\<forall>i < 4. bit w i \<longleftrightarrow> i = 0)" by (auto simp: bit_take_bit_iff bit_1_iff)
  also have "\<dots> \<longleftrightarrow> bit w 0 \<and> \<not> bit w 1 \<and> \<not> bit w 2 \<and> \<not> bit w 3"
    by (simp add: All_less_Suc numeral_eq_Suc One_nat_def) auto
  finally show ?thesis .
qed

lemma pte_table_set:
  "pte_table (pte_set a PTE_TABLE PTE_HYP_FLAGS)" "\<not> pte_table (pte_set a PTE_PAGE fl)"
proof -
  have "bit PTE_PAGE 1" by (simp add: PTE_PAGE_def PTE_RWX_def bit_numeral_rec One_nat_def)
  then show "\<not> pte_table (pte_set a PTE_PAGE fl)"
    by (simp add: pte_table_bits pte_set_bit PTE_PAGE_def PTE_RWX_def)
  show "pte_table (pte_set a PTE_TABLE PTE_HYP_FLAGS)"
    by (simp add: pte_table_bits pte_set_bit PTE_TABLE_def PTE_HYP_FLAGS_def bit_numeral_rec One_nat_def)
qed

lemma pte_set_rsw_bit:
  "bit (pte_set_rsw w fl) i \<longleftrightarrow> (if i = 8 \<or> i = 9 then bit fl i else bit w i)"
  by (auto simp: pte_set_rsw_def pt_simps bm_simps bit_simps dest: bit_imp_le_length)

subsection \<open>Walk and translation\<close>

text \<open>The entries a walk passes: the entry of level \<open>i + k\<close>, when all before it are tables.\<close>

fun entry_at :: "page_table \<Rightarrow> ptmem \<Rightarrow> nat \<Rightarrow> nat \<Rightarrow> nat" where
  "entry_at pt m va 0 = pt_root pt + 8 * pt_getpteindex_by_va pt va 0"
| "entry_at pt m va (Suc l) = pte_addr (m (entry_at pt m va l)) + 8 * pt_getpteindex_by_va pt va (Suc l)"

definition tables_above :: "page_table \<Rightarrow> ptmem \<Rightarrow> nat \<Rightarrow> nat \<Rightarrow> bool" where
  "tables_above pt m va l \<longleftrightarrow> (\<forall>i < l. pte_table (m (entry_at pt m va i)))"

lemma pte_table_valid: "pte_table w \<Longrightarrow> pte_valid w"
  by (simp add: pte_table_bits pte_valid_bit)

lemma pt_walk_entry:
  "\<forall>j < k. pte_valid (m (entry_at pt m va (i + j))) \<Longrightarrow>
    pt_walk pt m va k i (entry_at pt m va i) = entry_at pt m va (i + k)"
proof (induction k arbitrary: i)
  case (Suc k)
  have "pte_valid (m (entry_at pt m va i))" using Suc.prems by (metis add_0_right zero_less_Suc)
  moreover have "\<forall>j < k. pte_valid (m (entry_at pt m va (Suc i + j)))"
    using Suc.prems by (metis Suc_less_eq add_Suc_shift)
  ultimately show ?case using Suc.IH [of "Suc i"] by (simp flip: Suc_eq_plus1)
qed simp

lemma pt_get_pte_entry: "tables_above pt m va l \<Longrightarrow> pt_get_pte pt m l va = entry_at pt m va l"
  using pt_walk_entry [of l m pt va 0] pte_table_valid
  by (simp add: tables_above_def pt_get_pte_def)

lemma translate_walk_leaf:
  assumes "\<forall>j < k. pte_table (m (entry_at pt m va (i + j)))" "\<not> pte_table (m (entry_at pt m va (i + k)))" "k < n"
  shows "translate_walk pt m va n i (entry_at pt m va i) = (entry_at pt m va (i + k), i + k)"
  using assms
proof (induction k arbitrary: i n)
  case 0
  then show ?case by (cases n) auto
next
  case (Suc k)
  then obtain n' where n: "n = Suc n'" "k < n'" by (cases n) auto
  have t: "pte_table (m (entry_at pt m va i))" using Suc.prems(1) by (metis add_0_right zero_less_Suc)
  have "\<forall>j < k. pte_table (m (entry_at pt m va (Suc i + j)))"
    using Suc.prems(1) by (metis Suc_less_eq add_Suc_shift)
  then have "translate_walk pt m va n' (Suc i) (entry_at pt m va (Suc i)) = (entry_at pt m va (Suc i + k), Suc i + k)"
    using Suc.IH [of "Suc i" n'] Suc.prems(2) n(2) by simp
  then show ?case using t pte_table_valid [OF t] n(1) by (simp flip: Suc_eq_plus1)
qed

lemma mem_translate_leaf:
  assumes "l < pt_lvls (pt_dscr pt)" "tables_above pt m va l" "\<not> pte_table (m (entry_at pt m va l))"
  shows "mem_translate pt m va =
    (let pte = entry_at pt m va l; sz = pt_lvlsize pt l in
     if pte \<noteq> 0 \<and> pte_valid (m pte) then Some (pte_addr (m pte) div sz * sz + va mod sz) else None)"
  using translate_walk_leaf [of l m pt va 0 "pt_lvls (pt_dscr pt)"] assms
  by (simp add: mem_translate_def tables_above_def pt_lvlsize_def Let_def)

text \<open>Writing an entry leaves the walk to it unchanged when the entry is not one of those passed.\<close>

lemma entry_at_upd:
  assumes "\<forall>i < l. entry_at pt m va i \<noteq> e" "i \<le> l"
  shows "entry_at pt (m(e := w)) va i = entry_at pt m va i"
  using assms(2)
proof (induction i)
  case (Suc i)
  then show ?case using assms(1) by (simp add: Suc_le_eq)
qed simp

subsection \<open>Properties\<close>

text \<open>
  Installing a mapping: when the walk for \<^verbatim>\<open>va\<close> passes tables down to level \<open>l\<close>, \<^verbatim>\<open>pt_get_pte\<close> returns
  the entry of that level, and after \<^verbatim>\<open>pte_set\<close> of a suitably aligned physical address there, with a
  page type and a valid flag, \<^verbatim>\<open>mem_translate\<close> maps \<^verbatim>\<open>va\<close> to that address plus its offset in the page.
\<close>

theorem pte_set_translates:
  assumes "l < pt_lvls (pt_dscr pt)" "tables_above pt m va l" "pt_get_pte pt m l va \<noteq> 0"
    "\<forall>i < l. pt_get_pte pt m i va \<noteq> pt_get_pte pt m l va"
    "PAGE_SIZE dvd pa" "pt_lvlsize pt l dvd pa" "pa < 2 ^ 56" "bit fl 0"
  shows "mem_translate pt (m(pt_get_pte pt m l va := pte_set pa PTE_PAGE fl)) va =
    Some (pa + va mod pt_lvlsize pt l)"
proof -
  let ?e = "pt_get_pte pt m l va" and ?w = "pte_set pa PTE_PAGE fl"
  let ?m = "m(?e := ?w)"
  have ty: "PTE_PAGE < 16" by (simp add: PTE_PAGE_def PTE_RWX_def)
  have e: "?e = entry_at pt m va l" using pt_get_pte_entry [OF assms(2)] .
  have path: "\<forall>i < l. entry_at pt m va i \<noteq> ?e"
  proof (intro allI impI)
    fix i assume "i < l"
    then have "tables_above pt m va i" using assms(2) by (auto simp: tables_above_def)
    then show "entry_at pt m va i \<noteq> ?e" using pt_get_pte_entry assms(4) \<open>i < l\<close> by metis
  qed
  have same: "entry_at pt ?m va i = entry_at pt m va i" if "i \<le> l" for i
    using entry_at_upd [OF path that] .
  have "tables_above pt ?m va l"
    using assms(2) path same by (auto simp: tables_above_def)
  moreover have "?m (entry_at pt ?m va l) = ?w" using same [of l] e by simp
  ultimately show ?thesis
    using mem_translate_leaf [OF assms(1), of ?m va] pte_table_set(2) pte_valid_set [OF ty] assms(3,6,8) e same [of l]
      pte_addr_set [OF assms(5,7) ty]
    by (simp add: Let_def)
qed

text \<open>Two table levels below a root at \<^verbatim>\<open>0x1000\<close>, with next level tables at \<^verbatim>\<open>0x2000\<close> and \<^verbatim>\<open>0x3000\<close>.\<close>

definition pt3 :: page_table where
  "pt3 = \<lparr>pt_root = 0x1000, pt_dscr = sv39_pt_dscr\<rparr>"

definition mem3 :: ptmem where
  "mem3 = (\<lambda>_. 0)(0x1000 := pte_set 0x2000 PTE_TABLE PTE_HYP_FLAGS, 0x2000 := pte_set 0x3000 PTE_TABLE PTE_HYP_FLAGS)"

theorem pte_set_translates_witness:
  "pt_get_pte pt3 mem3 2 0x5123 = 0x3028 \<and>
   mem_translate pt3 (mem3(0x3028 := pte_set 0x80004000 PTE_PAGE PTE_HYP_FLAGS)) 0x5123 = Some 0x80004123"
proof -
  note ev = mem3_def pt3_def sv39_pt_dscr_def pt_getpteindex_by_va_def pt_nentries_def PAGE_SIZE_def
    pte_addr_set pte_valid_set pte_table_set(1)
  have v: "pte_valid (pte_set a PTE_TABLE PTE_HYP_FLAGS)" for a by (rule pte_table_valid [OF pte_table_set(1)])
  have e0: "entry_at pt3 mem3 0x5123 0 = 0x1000" by (simp add: ev)
  have "entry_at pt3 mem3 0x5123 (Suc 0) = 0x2000"
    unfolding entry_at.simps(2) e0 by (simp add: ev PTE_TABLE_def One_nat_def)
  then have e1: "entry_at pt3 mem3 0x5123 1 = 0x2000" by (simp only: One_nat_def)
  have "entry_at pt3 mem3 0x5123 (Suc 1) = 0x3028"
    unfolding entry_at.simps(2) e1 by (simp add: ev PTE_TABLE_def Suc_1)
  then have e2: "entry_at pt3 mem3 0x5123 2 = 0x3028" by (simp only: Suc_1)
  note e = e0 e1 e2
  have "pte_table (mem3 (entry_at pt3 mem3 0x5123 0))" "pte_table (mem3 (entry_at pt3 mem3 0x5123 1))"
    unfolding e by (simp_all add: ev)
  then have "tables_above pt3 mem3 0x5123 2" by (auto simp: tables_above_def less_2_cases_iff One_nat_def simp del: entry_at.simps)
  moreover from this have p: "pt_get_pte pt3 mem3 0 0x5123 = 0x1000" "pt_get_pte pt3 mem3 1 0x5123 = 0x2000"
    "pt_get_pte pt3 mem3 2 0x5123 = 0x3028"
  proof -
    have "tables_above pt3 mem3 0x5123 l" if "l \<le> 2" for l
      using \<open>tables_above pt3 mem3 0x5123 2\<close> that by (auto simp: tables_above_def)
    then show "pt_get_pte pt3 mem3 0 0x5123 = 0x1000" "pt_get_pte pt3 mem3 1 0x5123 = 0x2000"
      "pt_get_pte pt3 mem3 2 0x5123 = 0x3028"
      using e pt_get_pte_entry [of pt3 mem3 "0x5123"] by (simp_all del: entry_at.simps)
  qed
  moreover have "\<forall>i < 2. pt_get_pte pt3 mem3 i 0x5123 \<noteq> pt_get_pte pt3 mem3 2 0x5123"
    using p by (auto simp: less_2_cases_iff One_nat_def)
  ultimately show ?thesis
    using pte_set_translates [of 2 pt3 mem3 "0x5123" "0x80004000" PTE_HYP_FLAGS] p(3)
    by (simp add: pt3_def sv39_pt_dscr_def PAGE_SIZE_def pt_lvlsize_def PTE_HYP_FLAGS_def)
qed

subsection \<open>The identity map\<close>

abbreviation "GiB \<equiv> (0x40000000 :: nat)"

lemma identity_loop_entry:
  assumes "pt_dscr pt = sv39_pt_dscr" "c + k \<le> 512" "j < 512"
  shows "identity_loop pt GiB k (c * GiB) m (pt_root pt + 8 * j) =
    (if c \<le> j \<and> j < c + k then pte_set (j * GiB) PTE_SUPERPAGE PTE_HYP_FLAGS else m (pt_root pt + 8 * j))"
  using assms(2)
proof (induction k arbitrary: c m)
  case (Suc k)
  have idx: "pt_getpteindex_by_va pt (c * GiB) 0 = c"
    using Suc.prems assms(1) by (simp add: pt_getpteindex_by_va_def pt_nentries_def sv39_pt_dscr_def)
  have "c * GiB + GiB = (c + 1) * GiB" by simp
  then have "identity_loop pt GiB (Suc k) (c * GiB) m (pt_root pt + 8 * j) =
      identity_loop pt GiB k ((c + 1) * GiB)
        (m(pt_root pt + 8 * c := pte_set (c * GiB) PTE_SUPERPAGE PTE_HYP_FLAGS)) (pt_root pt + 8 * j)"
    by (simp add: idx)
  then show ?case using Suc.IH [of "c + 1"] Suc.prems by simp
qed auto

text \<open>The number of entries, in 64-bit arithmetic and after the conversion to \<^verbatim>\<open>int\<close>.\<close>

lemma identity_entries_eq:
  assumes "b \<le> t" "t \<le> 512"
  shows "identity_entries GiB (b * GiB) (t * GiB) = t - b"
proof (cases "b = t")
  case True
  have "sub64 (sub64 (t * GiB) (t * GiB)) 1 = 2 ^ 64 - 1"
    using assms(2) by (subst sub64_le) (simp_all add: sub64_def)
  moreover have "to_int32 ((2 ^ 64 - 1) div GiB + 1) = 0" by code_simp
  ultimately show ?thesis using True by (simp add: identity_entries_def)
next
  case False
  then have "b < t" using assms(1) by simp
  then obtain d where d: "t = b + d" "0 < d" using less_imp_add_positive by auto
  have "sub64 (sub64 (t * GiB) (b * GiB)) 1 = d * GiB - 1"
    using d assms(2) by (subst sub64_le, simp, simp, subst sub64_le) simp_all
  moreover have "(d * GiB - 1) div GiB + 1 = d"
    using d(2) by (cases d) auto
  ultimately have "identity_entries GiB (b * GiB) (t * GiB) = nat (to_int32 d)"
    by (simp add: identity_entries_def)
  moreover have "to_int32 d = int d"
    using d assms(2) by (simp add: to_int32_def signed_of_nat signed_take_bit_int_eq_self)
  ultimately show ?thesis using d by simp
qed

definition covered :: "nat \<times> nat \<Rightarrow> nat \<Rightarrow> bool" where
  "covered reg j \<longleftrightarrow> fst reg div GiB \<le> j \<and> j < (fst reg + snd reg) div GiB"

definition identity_entry :: "nat \<Rightarrow> u64" where
  "identity_entry j = pte_set (j * GiB) PTE_SUPERPAGE PTE_HYP_FLAGS"

lemma identity_region_entry:
  assumes "pt_dscr pt = sv39_pt_dscr" "fst reg + snd reg \<le> 2 ^ 39" "j < 512"
  shows "identity_region pt reg m (pt_root pt + 8 * j) =
    (if covered reg j then identity_entry j else m (pt_root pt + 8 * j))"
proof -
  let ?b = "fst reg div GiB" and ?t = "(fst reg + snd reg) div GiB"
  have bt: "?b \<le> ?t" "?t \<le> 512" using assms(2) div_le_mono [of _ "2 ^ 39" GiB] by (auto simp: div_le_mono)
  have "pt_lvlsize pt 0 = GiB" using assms(1) by (simp add: pt_lvlsize_def sv39_pt_dscr_def)
  then have "identity_region pt reg m = identity_loop pt GiB (?t - ?b) (?b * GiB) m"
    using identity_entries_eq [OF bt] by (simp add: identity_region_def Let_def)
  then show ?thesis
    using identity_loop_entry [OF assms(1) _ assms(3), of ?b "?t - ?b" m] bt
    by (simp add: covered_def identity_entry_def)
qed

lemma identity_map_entry:
  assumes "pt_dscr pt = sv39_pt_dscr" "\<forall>reg \<in> set regions. fst reg + snd reg \<le> 2 ^ 39" "j < 512"
  shows "as_map_physical_identity pt regions m (pt_root pt + 8 * j) =
    (if \<exists>reg \<in> set regions. covered reg j then identity_entry j else m (pt_root pt + 8 * j))"
  using assms(2)
proof (induction regions arbitrary: m)
  case (Cons reg regions)
  then show ?case
    using identity_region_entry [OF assms(1) _ assms(3), of reg m]
    by (auto simp: as_map_physical_identity_def)
qed (simp add: as_map_physical_identity_def)

text \<open>
  The identity map of physical memory: every address whose gigabyte lies in the part of some
  platform region that \<^verbatim>\<open>as_map_physical_identity\<close> covers (from the gigabyte of its base up to its end
  rounded down to a gigabyte) translates to itself in a three level hypervisor page table.
\<close>

theorem identity_map_translates:
  assumes "pt_dscr pt = sv39_pt_dscr" "pt_root pt \<noteq> 0" "\<forall>reg \<in> set regions. fst reg + snd reg \<le> 2 ^ 39"
    "reg \<in> set regions" "covered reg (va div GiB)"
  shows "mem_translate pt (as_map_physical_identity pt regions m) va = Some va"
proof -
  let ?m = "as_map_physical_identity pt regions m" and ?j = "va div GiB"
  have ty: "PTE_PAGE < 16" by (simp add: PTE_PAGE_def PTE_RWX_def)
  have "(fst reg + snd reg) div GiB \<le> 512" using assms(3,4) div_le_mono [of _ "2 ^ 39" GiB] by fastforce
  then have j: "?j < 512" using assms(5) by (simp add: covered_def)
  then have e: "entry_at pt ?m va 0 = pt_root pt + 8 * ?j"
    using assms(1) by (simp add: pt_getpteindex_by_va_def pt_nentries_def sv39_pt_dscr_def)
  have w: "?m (pt_root pt + 8 * ?j) = pte_set (?j * GiB) PTE_PAGE PTE_HYP_FLAGS"
    using identity_map_entry [OF assms(1,3) j] assms(4,5)
    by (auto simp: identity_entry_def PTE_SUPERPAGE_def)
  have a: "pte_addr (pte_set (?j * GiB) PTE_PAGE PTE_HYP_FLAGS) = ?j * GiB"
  proof (rule pte_addr_set [OF _ _ ty])
    have "GiB = PAGE_SIZE * 0x40000" by (simp add: PAGE_SIZE_def)
    then show "PAGE_SIZE dvd ?j * GiB" by (metis dvd_triv_left dvd_mult)
    show "?j * GiB < 2 ^ 56" using j by simp
  qed
  have "pt_lvlsize pt 0 = GiB" "0 < pt_lvls (pt_dscr pt)"
    using assms(1) by (simp_all add: pt_lvlsize_def sv39_pt_dscr_def)
  then show ?thesis
    using mem_translate_leaf [of 0 pt ?m va] w a pte_table_set(2) pte_valid_set [OF ty] assms(2)
    by (simp add: tables_above_def e Let_def PTE_HYP_FLAGS_def del: entry_at.simps)
qed

theorem identity_map_translates_witness:
  "mem_translate pt3 (as_map_physical_identity pt3 [(0x80200000, 0x3fe00000)] (\<lambda>_. 0)) 0x80201234 = Some 0x80201234"
  using identity_map_translates [of pt3 "[(0x80200000, 0x3fe00000)]" "(0x80200000, 0x3fe00000)" "0x80201234" "\<lambda>_. 0"]
  by (simp add: pt3_def covered_def)

text \<open>
  The last, partial gigabyte of a region is never covered: in a table that is empty before, an
  address of the region's last gigabyte does not translate when the region does not end at a
  gigabyte boundary and no other region covers it. In particular a region inside a single gigabyte
  that ends before its boundary is not mapped at all.
\<close>

theorem identity_map_misses_tail:
  assumes "pt_dscr pt = sv39_pt_dscr" "\<forall>reg \<in> set regions. fst reg + snd reg \<le> 2 ^ 39"
    "va div GiB < 512" "\<forall>reg \<in> set regions. \<not> covered reg (va div GiB)"
  shows "mem_translate pt (as_map_physical_identity pt regions (\<lambda>_. 0)) va = None"
proof -
  let ?m = "as_map_physical_identity pt regions (\<lambda>_. 0)"
  have e: "entry_at pt ?m va 0 = pt_root pt + 8 * (va div GiB)"
    using assms(1,3) by (simp add: pt_getpteindex_by_va_def pt_nentries_def sv39_pt_dscr_def)
  have "?m (entry_at pt ?m va 0) = 0" unfolding e
    using identity_map_entry [OF assms(1,2,3), of "\<lambda>_. 0"] assms(4) by simp
  then show ?thesis
    using mem_translate_leaf [of 0 pt ?m va] assms(1)
    by (simp add: tables_above_def pte_table_bits pte_valid_bit sv39_pt_dscr_def Let_def del: entry_at.simps)
qed

theorem identity_map_misses_tail_witness:
  "mem_translate pt3 (as_map_physical_identity pt3 [(0x80000000, 0x10000000)] (\<lambda>_. 0)) 0x80201234 = None"
  using identity_map_misses_tail [of pt3 "[(0x80000000, 0x10000000)]" "0x80201234"]
  by (simp add: pt3_def covered_def)

end
