(* ===== verification/Mem_Map.thy ===== *)
theory Mem_Map
  imports Frame_Alloc Page_Table
begin

text \<open>
  Virtual memory management of \<^verbatim>\<open>core/mem.c\<close>: sections, allocation and release of virtual pages, and
  mapping. The state is the memory that holds the page tables, the page pools, and the log of TLB
  invalidations. A read or write through a null pointer and the macro \<^verbatim>\<open>ERROR\<close> are \<open>None\<close>. The locks of
  the address space and of its section are held throughout each operation, so that an operation
  is one state transformation.
\<close>

datatype AS_TYPE = AS_HYP | AS_VM | AS_HYP_CPY

record addr_space =
  as_pt :: page_table
  as_type :: AS_TYPE
  as_colors :: u64
  as_id :: nat

record section_t =
  sec_beg :: nat
  sec_end :: nat
  sec_shared :: bool

text \<open>The bounds of the hypervisor's sections are symbols of the linker script.\<close>

record mem_env =
  env_cc :: color_cfg
  hyp_secs :: "section_t list"

definition vm_secs :: "section_t list" where
  "vm_secs = [\<lparr>sec_beg = 0, sec_end = 2 ^ 64 - 1, sec_shared = False\<rparr>]"

definition sections :: "mem_env \<Rightarrow> AS_TYPE \<Rightarrow> section_t list" where
  "sections e ty = (case ty of AS_HYP \<Rightarrow> hyp_secs e | AS_HYP_CPY \<Rightarrow> hyp_secs e | AS_VM \<Rightarrow> vm_secs)"

definition SEC_HYP_GLOBAL :: nat where "SEC_HYP_GLOBAL = 0"
definition SEC_HYP_IMAGE :: nat where "SEC_HYP_IMAGE = 1"
definition SEC_HYP_DEVICE :: nat where "SEC_HYP_DEVICE = 2"
definition SEC_HYP_PRIVATE :: nat where "SEC_HYP_PRIVATE = 3"
definition SEC_HYP_VM :: nat where "SEC_HYP_VM = 4"
definition SEC_VM_ANY :: nat where "SEC_VM_ANY = 0"

datatype tlb_op = Tlb_hyp_inv_va nat | Tlb_hyp_inv_all | Tlb_vm_inv_va nat nat | Tlb_vm_inv_all nat

record mm =
  mm_mem :: ptmem
  mm_pools :: "page_pool list"
  mm_tlb :: "tlb_op list"

definition write_pte :: "nat \<Rightarrow> u64 \<Rightarrow> mm \<Rightarrow> mm" where
  "write_pte p w s = s\<lparr>mm_mem := (mm_mem s)(p := w)\<rparr>"

definition deref :: "mm \<Rightarrow> nat \<Rightarrow> u64 option" where
  "deref s p = (if p = 0 then None else Some (mm_mem s p))"

definition zero_page :: "nat \<Rightarrow> mm \<Rightarrow> mm" where
  "zero_page p s = s\<lparr>mm_mem := (\<lambda>a. if p \<le> a \<and> a < p + PAGE_SIZE then 0 else mm_mem s a)\<rparr>"

definition tlb_inv :: "nat \<Rightarrow> mm \<Rightarrow> mm" where
  "tlb_inv va s = s\<lparr>mm_tlb := mm_tlb s @ [Tlb_hyp_inv_va va]\<rparr>"

subsection \<open>Sections and tables\<close>

definition mem_find_sec :: "mem_env \<Rightarrow> addr_space \<Rightarrow> nat \<Rightarrow> nat option" where
  "mem_find_sec e as va =
     (let ss = sections e (as_type as)
      in find (\<lambda>i. sec_beg (ss ! i) \<le> va \<and> va \<le> sec_end (ss ! i)) [0..<length ss])"

definition pte_allocable :: "addr_space \<Rightarrow> u64 \<Rightarrow> nat \<Rightarrow> nat \<Rightarrow> nat \<Rightarrow> bool" where
  "pte_allocable as pte lvl rest addr \<longleftrightarrow>
     lvl = pt_lvls (pt_dscr (as_pt as)) - 1 \<or>
     (pt_lvl_terminal (as_pt as) lvl \<and> \<not> pte_valid pte \<and>
      pt_lvlsize (as_pt as) lvl \<le> rest * PAGE_SIZE \<and> addr mod pt_lvlsize (as_pt as) lvl = 0)"

definition mem_alloc_pt :: "mem_env \<Rightarrow> addr_space \<Rightarrow> nat \<Rightarrow> nat \<Rightarrow> nat \<Rightarrow> mm \<Rightarrow> (nat \<times> mm) option" where
  "mem_alloc_pt e as parent lvl addr s =
     (let ptsize = pt_size (as_pt as) lvl div PAGE_SIZE in
      do { (ppage, pools) \<leftarrow> mem_alloc_ppages (env_cc e) (as_colors as) ptsize (ptsize > 1) (mm_pools s);
           let s = s\<lparr>mm_pools := pools\<rparr>;
           if pg_size ppage = 0 then Some (0, s)
           else if parent = 0 then None
           else
             let s = write_pte parent (pte_set (pg_base ppage) PTE_TABLE PTE_HYP_FLAGS) s;
                 temp_pt = pt_get (as_pt as) (mm_mem s) (lvl + 1) addr
             in Some (temp_pt, zero_page temp_pt s) })"

definition pt_pte_mappable :: "addr_space \<Rightarrow> u64 \<Rightarrow> nat \<Rightarrow> nat \<Rightarrow> nat \<Rightarrow> nat \<Rightarrow> bool" where
  "pt_pte_mappable as pte lvl rest vaddr paddr \<longleftrightarrow>
     \<not> pte_valid pte \<and> pt_lvlsize (as_pt as) lvl \<le> rest * PAGE_SIZE \<and>
     vaddr mod pt_lvlsize (as_pt as) lvl = 0 \<and> paddr mod pt_lvlsize (as_pt as) lvl = 0"

primrec expand_fill :: "bool \<Rightarrow> u64 \<Rightarrow> u64 \<Rightarrow> nat \<Rightarrow> nat \<Rightarrow> nat \<Rightarrow> nat \<Rightarrow> mm \<Rightarrow> mm" where
  "expand_fill vld type flags lvlsz 0 pte paddr s = s"
| "expand_fill vld type flags lvlsz (Suc k) pte paddr s =
     expand_fill vld type flags lvlsz k (pte + 8) (paddr + lvlsz)
       (write_pte pte (if vld then pte_set paddr type flags else pte_set_rsw (mm_mem s pte) PTE_RSW_RSRV) s)"

definition mem_expand_pte :: "mem_env \<Rightarrow> addr_space \<Rightarrow> nat \<Rightarrow> nat \<Rightarrow> mm \<Rightarrow> mm option" where
  "mem_expand_pte e as va lvl s =
     (let pt = as_pt as in
      if pt_lvls (pt_dscr pt) - 1 \<le> lvl then Some s
      else
        let pte = pt_get_pte pt (mm_mem s) lvl va in
        if pte \<noteq> 0 \<and> \<not> pte_table (mm_mem s pte) then
          let pte_val = mm_mem s pte;
              rsv = pte_check_rsw pte_val PTE_RSW_RSRV;
              vld = pte_valid pte_val
          in do { (pte, s) \<leftarrow> mem_alloc_pt e as pte lvl va s;
                  if vld \<or> rsv then
                    if pte = 0 then None
                    else
                      let s = tlb_inv va s;
                          lvl = lvl + 1;
                          entry = pt_getpteindex pt pte lvl;
                          flags = (if as_type as = AS_HYP then PTE_HYP_FLAGS else PTE_VM_FLAGS)
                      in Some (expand_fill vld (pt_pte_type pt lvl) flags (pt_lvlsize pt lvl)
                                (pt_nentries pt lvl - entry) pte (pte_addr pte_val) s)
                  else Some s }
        else Some s)"

function inflate_lvl :: "mem_env \<Rightarrow> addr_space \<Rightarrow> nat \<Rightarrow> nat \<Rightarrow> nat \<Rightarrow> mm \<Rightarrow> mm option" where
  "inflate_lvl e as lvl tp vaddr s =
     (if vaddr < tp then
        Option.bind (mem_expand_pte e as vaddr lvl s)
          (inflate_lvl e as lvl tp (vaddr + pt_lvlsize (as_pt as) lvl))
      else Some s)"
  by pat_completeness auto
termination
  by (relation "measure (\<lambda>(e, as, lvl, tp, vaddr, s). tp - vaddr)") (auto simp: pt_lvlsize_def diff_less_mono2)

declare inflate_lvl.simps [simp del]

definition mem_inflate_pt :: "mem_env \<Rightarrow> addr_space \<Rightarrow> nat \<Rightarrow> nat \<Rightarrow> mm \<Rightarrow> mm option" where
  "mem_inflate_pt e as va len s =
     foldl (\<lambda>r lvl. Option.bind r (inflate_lvl e as lvl (va + len) va)) (Some s)
       [0..<pt_lvls (pt_dscr (as_pt as)) - 1]"

subsection \<open>Allocation of virtual pages\<close>

text \<open>
  The search of \<^verbatim>\<open>mem_alloc_vpage\<close>. \<open>vp_entries\<close> is the inner loop over the entries of one table: it
  returns the level to go on with, \<^verbatim>\<open>count\<close>, \<^verbatim>\<open>addr\<close>, \<^verbatim>\<open>vpage\<close> and \<^verbatim>\<open>failed\<close>.
\<close>

function vp_entries ::
  "mem_env \<Rightarrow> addr_space \<Rightarrow> nat \<Rightarrow> bool \<Rightarrow> nat \<Rightarrow> nat \<Rightarrow> nat \<Rightarrow> nat \<Rightarrow> nat \<Rightarrow> nat \<Rightarrow> mm \<Rightarrow>
     (nat \<times> nat \<times> nat \<times> nat \<times> bool \<times> mm) option" where
  "vp_entries e as n fixd lvl entry pte count addr vpage s =
     (if entry < pt_nentries (as_pt as) lvl \<and> count < n then
        if pte = 0 then None
        else
          let w = mm_mem s pte;
              busy = (pte_check_rsw w PTE_RSW_RSRV \<or> (pte_valid w \<and> \<not> pte_table w));
              lvlsze = pt_lvlsize (as_pt as) lvl
          in if busy \<and> fixd then Some (lvl, 0, addr, 0, True, s)
             else
               Option.bind
                 (if busy then Some (0, 0, s)
                  else if \<not> pte_valid w then
                    if pte_allocable as w lvl (n - count) addr
                    then Some (count + lvlsze div PAGE_SIZE, if count = 0 then addr else vpage, s)
                    else Option.bind (mem_alloc_pt e as pte lvl addr s)
                           (\<lambda>(p, s). if p = 0 then None else Some (count, vpage, s))
                  else Some (count, vpage, s))
                 (\<lambda>(count, vpage, s).
                    if pte_table (mm_mem s pte) then Some (lvl + 1, count, addr, vpage, False, s)
                    else if entry + 1 \<ge> pt_nentries (as_pt as) lvl
                    then Some (0, count, addr + lvlsze, vpage, False, s)
                    else vp_entries e as n fixd lvl (entry + 1) (pte + 8) count (addr + lvlsze) vpage s)
      else Some (lvl, count, addr, vpage, False, s))"
  by pat_completeness auto
termination
  by (relation "measure (\<lambda>(e, as, n, fixd, lvl, entry, r). pt_nentries (as_pt as) lvl - entry)") auto

declare vp_entries.simps [simp del]

partial_function (option) vp_search ::
  "mem_env \<Rightarrow> addr_space \<Rightarrow> nat \<Rightarrow> bool \<Rightarrow> nat \<Rightarrow> nat \<Rightarrow> nat \<Rightarrow> nat \<Rightarrow> nat \<Rightarrow> mm \<Rightarrow> (nat \<times> bool \<times> mm) option" where
  "vp_search e as n fixd tp lvl count addr vpage s =
     (if count < n then
        if sub64 ((tp + 1) mod 2 ^ 64) addr div PAGE_SIZE < n then Some (0, True, s)
        else
          let pte = pt_get_pte (as_pt as) (mm_mem s) lvl addr;
              entry = pt_getpteindex (as_pt as) pte lvl
          in Option.bind (vp_entries e as n fixd lvl entry pte count addr vpage s)
               (\<lambda>(lvl, count, addr, vpage, failed, s).
                  if failed then Some (vpage, True, s)
                  else vp_search e as n fixd tp lvl count addr vpage s)
      else Some (vpage, False, s))"

declare vp_search.simps [code]

text \<open>The first level whose entry for \<open>va\<close> is not valid: \<open>None\<close> when there is none.\<close>

definition first_invalid :: "page_table \<Rightarrow> ptmem \<Rightarrow> nat \<Rightarrow> nat option" where
  "first_invalid pt m va = find (\<lambda>l. \<not> pte_valid (m (pt_get_pte pt m l va))) [0..<pt_lvls (pt_dscr pt)]"

partial_function (option) vp_reserve :: "addr_space \<Rightarrow> nat \<Rightarrow> nat \<Rightarrow> nat \<Rightarrow> mm \<Rightarrow> mm option" where
  "vp_reserve as n count addr s =
     (if count < n then
        Option.bind (first_invalid (as_pt as) (mm_mem s) addr)
          (\<lambda>lvl. let pte = pt_get_pte (as_pt as) (mm_mem s) lvl addr
                  in if pte = 0 then None
                     else vp_reserve as n (count + pt_lvlsize (as_pt as) lvl div PAGE_SIZE)
                            (addr + pt_lvlsize (as_pt as) lvl)
                            (write_pte pte (pte_set_rsw (mm_mem s pte) PTE_RSW_RSRV) s))
      else Some s)"

declare vp_reserve.simps [code]

text \<open>The argument \<open>at\<close> is \<open>0\<close> (\<^verbatim>\<open>NULL\<close>) when the caller does not ask for a given address.\<close>

definition mem_alloc_vpage :: "mem_env \<Rightarrow> addr_space \<Rightarrow> nat \<Rightarrow> nat \<Rightarrow> nat \<Rightarrow> mm \<Rightarrow> (nat \<times> mm) option" where
  "mem_alloc_vpage e as sec at n s =
     (let sc = sections e (as_type as) ! sec in
      if at \<noteq> 0 \<and> mem_find_sec e as at \<noteq> Some sec then Some (0, s)
      else
        let addr = (if at \<noteq> 0 then at else sec_beg sc) div PAGE_SIZE * PAGE_SIZE
        in do { (vpage, failed, s) \<leftarrow> vp_search e as n (at \<noteq> 0) (sec_end sc) 0 0 addr 0 s;
                if vpage \<noteq> 0 \<and> \<not> failed
                then do { s \<leftarrow> vp_reserve as n 0 vpage s; Some (vpage, s) }
                else Some (vpage, s) })"

subsection \<open>Release of virtual pages\<close>

text \<open>
  The inner loop of \<^verbatim>\<open>mem_free_vpage\<close> over the entries of one table; it returns the entry and level
  reached and the address.
\<close>

partial_function (option) fv_entries ::
  "mem_env \<Rightarrow> addr_space \<Rightarrow> bool \<Rightarrow> nat \<Rightarrow> nat \<Rightarrow> nat \<Rightarrow> nat \<Rightarrow> nat \<Rightarrow> mm \<Rightarrow> (nat \<times> nat \<times> nat \<times> mm) option" where
  "fv_entries e as free_ppages tp lvl entry pte vaddr s =
     (let lvlsz = pt_lvlsize (as_pt as) lvl in
      if entry < pt_nentries (as_pt as) lvl \<and> vaddr < tp then
        if pte_table (mm_mem s pte) then Some (entry, lvl, vaddr, s)
        else
          let vpage_base = vaddr div lvlsz * lvlsz in
          if vaddr > vpage_base \<or> tp < vpage_base + lvlsz then
            Option.bind (mem_expand_pte e as vaddr lvl s) (\<lambda>s. Some (entry, lvl + 1, vaddr, s))
          else
            Option.bind
              (if free_ppages then
                 mem_free_ppages (env_cc e) (mem_ppages_get (pte_addr (mm_mem s pte)) (lvlsz div PAGE_SIZE)) (mm_pools s)
               else Some (mm_pools s))
              (\<lambda>pools. fv_entries e as free_ppages tp lvl (entry + 1) (pte + 8) (vaddr + lvlsz)
                         (tlb_inv vaddr (write_pte pte 0 (s\<lparr>mm_pools := pools\<rparr>))))
      else Some (entry, lvl, vaddr, s))"

declare fv_entries.simps [code]

text \<open>
  The outer loop. \<^verbatim>\<open>lvl\<close> is an \<^verbatim>\<open>int\<close> that the code may decrement below \<open>0\<close>; the walk with such a level
  has no defined meaning and is \<open>None\<close>.
\<close>

partial_function (option) fv_loop :: "mem_env \<Rightarrow> addr_space \<Rightarrow> bool \<Rightarrow> nat \<Rightarrow> int \<Rightarrow> nat \<Rightarrow> mm \<Rightarrow> mm option" where
  "fv_loop e as free_ppages tp ilvl vaddr s =
     (if vaddr < tp then
        if ilvl < 0 then None
        else
          let lvl = nat ilvl; pte = pt_get_pte (as_pt as) (mm_mem s) lvl vaddr in
          if pte = 0 then None
          else if \<not> pte_valid (mm_mem s pte) then
            fv_loop e as free_ppages tp ilvl (vaddr + pt_lvlsize (as_pt as) lvl) s
          else if pte_table (mm_mem s pte) then fv_loop e as free_ppages tp (ilvl + 1) vaddr s
          else
            Option.bind (fv_entries e as free_ppages tp lvl (pt_getpteindex (as_pt as) pte lvl) pte vaddr s)
              (\<lambda>(entry, lvl', vaddr, s).
                 fv_loop e as free_ppages tp
                   (if entry = pt_nentries (as_pt as) lvl then int lvl' - 1 else int lvl') vaddr s)
      else Some s)"

declare fv_loop.simps [code]

definition mem_free_vpage :: "mem_env \<Rightarrow> addr_space \<Rightarrow> nat \<Rightarrow> nat \<Rightarrow> bool \<Rightarrow> mm \<Rightarrow> mm option" where
  "mem_free_vpage e as at n free_ppages s =
     (if mem_find_sec e as at = None then None
      else fv_loop e as free_ppages (at + n * PAGE_SIZE) 0 at s)"

subsection \<open>Mapping\<close>

text \<open>
  The level loop of \<^verbatim>\<open>mem_map\<close>: the first level at which the rest of the request can be mapped,
  creating tables on the way; \<open>k\<close> is the number of levels left.
\<close>

primrec map_level ::
  "mem_env \<Rightarrow> addr_space \<Rightarrow> nat \<Rightarrow> nat \<Rightarrow> nat \<Rightarrow> nat \<Rightarrow> nat \<Rightarrow> nat \<Rightarrow> mm \<Rightarrow> (nat \<times> nat \<times> mm) option" where
  "map_level e as rest vaddr paddr 0 lvl pte s = Some (lvl, pte, s)"
| "map_level e as rest vaddr paddr (Suc k) lvl pte0 s =
     (let pte = pt_get_pte (as_pt as) (mm_mem s) lvl vaddr in
      if pt_lvl_terminal (as_pt as) lvl then
        if pte = 0 then None
        else if pt_pte_mappable as (mm_mem s pte) lvl rest vaddr paddr then Some (lvl, pte, s)
        else if \<not> pte_valid (mm_mem s pte) then
          Option.bind (mem_alloc_pt e as pte lvl vaddr s)
            (\<lambda>(p, s). map_level e as rest vaddr paddr k (lvl + 1) pte s)
        else if \<not> pte_table (mm_mem s pte) then None
        else map_level e as rest vaddr paddr k (lvl + 1) pte s
      else map_level e as rest vaddr paddr k (lvl + 1) pte s)"

text \<open>The entry loop: it returns \<^verbatim>\<open>count\<close>, \<^verbatim>\<open>vaddr\<close> and \<^verbatim>\<open>paddr\<close>; \<open>given\<close> says that \<^verbatim>\<open>ppages\<close> is not null.\<close>

function map_entries ::
  "mem_env \<Rightarrow> addr_space \<Rightarrow> u64 \<Rightarrow> bool \<Rightarrow> nat \<Rightarrow> nat \<Rightarrow> nat \<Rightarrow> nat \<Rightarrow> nat \<Rightarrow> nat \<Rightarrow> nat \<Rightarrow> mm \<Rightarrow>
     (nat \<times> nat \<times> nat \<times> mm) option" where
  "map_entries e as flags given n lvl entry pte count vaddr paddr s =
     (let lvlsz = pt_lvlsize (as_pt as) lvl in
      if entry < pt_nentries (as_pt as) lvl \<and> count < n \<and> n - count \<ge> lvlsz div PAGE_SIZE then
        Option.bind
          (if given then Some (mem_ppages_get paddr (lvlsz div PAGE_SIZE), mm_pools s)
           else mem_alloc_ppages (env_cc e) (as_colors as) (lvlsz div PAGE_SIZE) True (mm_pools s))
          (\<lambda>(temp, pools).
             let s = s\<lparr>mm_pools := pools\<rparr> in
             if pg_size temp < lvlsz div PAGE_SIZE then
               if lvl = pt_lvls (pt_dscr (as_pt as)) - 1 then None
               else
                 let pte = pt_get_pte (as_pt as) (mm_mem s) lvl vaddr in
                 Option.bind (deref s pte)
                   (\<lambda>w. if \<not> pte_valid w
                         then Option.bind (mem_alloc_pt e as pte lvl vaddr s) (\<lambda>(p, s). Some (count, vaddr, paddr, s))
                         else Some (count, vaddr, paddr, s))
             else
               map_entries e as flags given n lvl (entry + 1) (pte + 8) (count + lvlsz div PAGE_SIZE)
                 (vaddr + lvlsz) (pg_base temp + lvlsz)
                 (write_pte pte (pte_set (pg_base temp) (pt_pte_type (as_pt as) lvl) flags) s))
      else Some (count, vaddr, paddr, s))"
  by pat_completeness auto
termination
  by (relation "measure (\<lambda>(e, as, flags, given, n, lvl, entry, r). pt_nentries (as_pt as) lvl - entry)")
    (auto simp: Let_def)

declare map_entries.simps [simp del]

partial_function (option) map_loop ::
  "mem_env \<Rightarrow> addr_space \<Rightarrow> u64 \<Rightarrow> bool \<Rightarrow> nat \<Rightarrow> nat \<Rightarrow> nat \<Rightarrow> nat \<Rightarrow> mm \<Rightarrow> mm option" where
  "map_loop e as flags given n count vaddr paddr s =
     (if count < n then
        Option.bind
          (map_level e as (n - count) vaddr (if given then paddr else 0) (pt_lvls (pt_dscr (as_pt as))) 0 0 s)
          (\<lambda>(lvl, pte, s).
             if lvl \<ge> pt_lvls (pt_dscr (as_pt as)) then None
             else
               Option.bind
                 (map_entries e as flags given n lvl (pt_getpteindex (as_pt as) pte lvl) pte count vaddr paddr s)
                 (\<lambda>(count, vaddr, paddr, s). map_loop e as flags given n count vaddr paddr s))
      else Some s)"

declare map_loop.simps [code]

text \<open>The loop of the coloured branch.\<close>

primrec map_coloured ::
  "mem_env \<Rightarrow> addr_space \<Rightarrow> u64 \<Rightarrow> ppages \<Rightarrow> nat \<Rightarrow> nat \<Rightarrow> nat \<Rightarrow> mm \<Rightarrow> mm option" where
  "map_coloured e as flags pp 0 index vaddr s = Some s"
| "map_coloured e as flags pp (Suc k) index vaddr s =
     (let pte = pt_get_pte (as_pt as) (mm_mem s) (pt_lvls (pt_dscr (as_pt as)) - 1) vaddr in
      do { index \<leftarrow> pp_next_clr (env_cc e) (pg_base pp) index (pg_colors pp);
           if pte = 0 then None
           else map_coloured e as flags pp k (index + 1) (vaddr + PAGE_SIZE)
                  (write_pte pte (pte_set (pg_base pp + index * PAGE_SIZE) PTE_PAGE flags) s) })"

definition map_pages ::
  "mem_env \<Rightarrow> addr_space \<Rightarrow> nat \<Rightarrow> ppages option \<Rightarrow> nat \<Rightarrow> u64 \<Rightarrow> mm \<Rightarrow> mm option" where
  "map_pages e as vaddr ppages n flags s =
     (case ppages of
        Some pp \<Rightarrow>
          if \<not> all_clrs (env_cc e) (pg_colors pp) then
            do { s \<leftarrow> mem_inflate_pt e as vaddr (n * PAGE_SIZE) s;
                 map_coloured e as flags pp (pg_size pp) 0 vaddr s }
          else map_loop e as flags True n 0 vaddr (pg_base pp) s
      | None \<Rightarrow> map_loop e as flags False n 0 vaddr 0 s)"

definition mem_map ::
  "mem_env \<Rightarrow> addr_space \<Rightarrow> nat \<Rightarrow> ppages option \<Rightarrow> nat \<Rightarrow> u64 \<Rightarrow> mm \<Rightarrow> (int \<times> mm) option" where
  "mem_map e as va ppages n flags s =
     (let vaddr = va div PAGE_SIZE * PAGE_SIZE;
          sec = mem_find_sec e as vaddr
      in if sec = None \<or> sec \<noteq> mem_find_sec e as (sub64 (vaddr + n * PAGE_SIZE) 1) then Some (-1, s)
         else
           do { (ppages, s) \<leftarrow>
                  (if ppages = None \<and> \<not> all_clrs (env_cc e) (as_colors as) then
                     do { (temp, pools) \<leftarrow> mem_alloc_ppages (env_cc e) (as_colors as) n False (mm_pools s);
                          if pg_size temp < n then None else Some (Some temp, s\<lparr>mm_pools := pools\<rparr>) }
                   else Some (ppages, s));
                s \<leftarrow> map_pages e as vaddr ppages n flags s;
                Some (0, s) })"

definition mem_map_dev :: "mem_env \<Rightarrow> addr_space \<Rightarrow> nat \<Rightarrow> nat \<Rightarrow> nat \<Rightarrow> mm \<Rightarrow> (int \<times> mm) option" where
  "mem_map_dev e as va base n s =
     mem_map e as va (Some (mem_ppages_get base n)) n
       (if as_type as = AS_HYP then PTE_HYP_FLAGS else PTE_VM_FLAGS) s"

text \<open>\<^verbatim>\<open>mem_alloc_page\<close>, with the running CPU's address space \<open>cas\<close>; \<open>0\<close> is the null pointer.\<close>

definition mem_alloc_page :: "mem_env \<Rightarrow> addr_space \<Rightarrow> nat \<Rightarrow> nat \<Rightarrow> bool \<Rightarrow> mm \<Rightarrow> (nat \<times> mm) option" where
  "mem_alloc_page e cas n sec phys_aligned s =
     do { (ppages, pools) \<leftarrow> mem_alloc_ppages (env_cc e) (as_colors cas) n phys_aligned (mm_pools s);
          let s = s\<lparr>mm_pools := pools\<rparr>;
          if pg_size ppages = n then
            do { (vpage, s) \<leftarrow> mem_alloc_vpage e cas sec 0 n s;
                 if vpage = 0 then None
                 else do { (r, s) \<leftarrow> mem_map e cas vpage (Some ppages) n PTE_HYP_FLAGS s;
                           Some (vpage, s) } }
          else Some (0, s) }"

subsection \<open>Recolouring\<close>

definition reclr_count :: "color_cfg \<Rightarrow> u64 \<Rightarrow> nat \<Rightarrow> nat \<Rightarrow> nat" where
  "reclr_count cc colors base n =
     (let w = COLOR_NUM cc * COLOR_SIZE cc
      in n div w * COLOR_SIZE cc * bitmap_count (word_bitmap colors) 0 (COLOR_NUM cc) False +
         length (filter (\<lambda>i. bitmap_get (word_bitmap colors) (page_clr cc base i) = 0) [0..<n mod w]))"

definition copy_page :: "page_table \<Rightarrow> nat \<Rightarrow> nat \<Rightarrow> mm \<Rightarrow> mm option" where
  "copy_page pt dst_va src_va s =
     do { dst \<leftarrow> mem_translate pt (mm_mem s) dst_va;
          src \<leftarrow> mem_translate pt (mm_mem s) src_va;
          Some (s\<lparr>mm_mem := (\<lambda>a. if dst \<le> a \<and> a < dst + PAGE_SIZE then mm_mem s (src + (a - dst)) else mm_mem s a)\<rparr>) }"

primrec reclr_loop ::
  "mem_env \<Rightarrow> addr_space \<Rightarrow> addr_space \<Rightarrow> u64 \<Rightarrow> ppages \<Rightarrow> nat \<Rightarrow>
     nat \<Rightarrow> nat \<Rightarrow> nat \<Rightarrow> nat \<Rightarrow> nat \<Rightarrow> nat \<Rightarrow> mm \<Rightarrow> mm option" where
  "reclr_loop e cas as flags reclrd pbase 0 i vaddr clrd_vaddr phys_va index s = Some s"
| "reclr_loop e cas as flags reclrd pbase (Suc k) i vaddr clrd_vaddr phys_va index s =
     (let pte = pt_get_pte (as_pt as) (mm_mem s) (pt_lvls (pt_dscr (as_pt as)) - 1) vaddr in
      if pte = 0 then None
      else if bitmap_get (word_bitmap (as_colors as)) (page_clr (env_cc e) pbase i) \<noteq> 0 then
        reclr_loop e cas as flags reclrd pbase k (i + 1) (vaddr + PAGE_SIZE) clrd_vaddr (phys_va + PAGE_SIZE) index
          (write_pte pte (pte_set (pbase + i * PAGE_SIZE) PTE_PAGE flags) s)
      else
        do { s \<leftarrow> copy_page (as_pt cas) clrd_vaddr phys_va s;
             index \<leftarrow> pp_next_clr (env_cc e) (pg_base reclrd) index (as_colors as);
             reclr_loop e cas as flags reclrd pbase k (i + 1) (vaddr + PAGE_SIZE) (clrd_vaddr + PAGE_SIZE)
               (phys_va + PAGE_SIZE) (index + 1)
               (write_pte pte (pte_set (pg_base reclrd + index * PAGE_SIZE) PTE_PAGE flags) s) })"

definition mem_map_reclr ::
  "mem_env \<Rightarrow> addr_space \<Rightarrow> addr_space \<Rightarrow> nat \<Rightarrow> ppages \<Rightarrow> nat \<Rightarrow> u64 \<Rightarrow> mm \<Rightarrow> (int \<times> mm) option" where
  "mem_map_reclr e cas as va ppages n flags s =
     (let reclrd_num = reclr_count (env_cc e) (as_colors as) (pg_base ppages) n in
      if all_clrs (env_cc e) (as_colors as) \<or> reclrd_num = 0 then mem_map e as va (Some ppages) n flags s
      else
        let vaddr = va div PAGE_SIZE * PAGE_SIZE in
        do { (reclrd_va, s) \<leftarrow> mem_alloc_vpage e cas SEC_HYP_VM 0 reclrd_num s;
             (reclrd, pools) \<leftarrow> mem_alloc_ppages (env_cc e) (as_colors as) reclrd_num False (mm_pools s);
             (r, s) \<leftarrow> mem_map e cas reclrd_va (Some reclrd) reclrd_num PTE_HYP_FLAGS (s\<lparr>mm_pools := pools\<rparr>);
             (phys_va, s) \<leftarrow> mem_alloc_vpage e cas SEC_HYP_VM 0 n s;
             (r, s) \<leftarrow> mem_map e cas phys_va (Some ppages) n PTE_HYP_FLAGS s;
             s \<leftarrow> mem_inflate_pt e as vaddr (n * PAGE_SIZE) s;
             s \<leftarrow> reclr_loop e cas as flags reclrd (pg_base ppages) n 0 vaddr reclrd_va phys_va 0 s;
             pools \<leftarrow> mem_free_ppages (env_cc e)
               \<lparr>pg_base = pg_base ppages, pg_size = reclrd_num, pg_colors = NOT (as_colors as)\<rparr> (mm_pools s);
             s \<leftarrow> mem_free_vpage e cas reclrd_va reclrd_num False (s\<lparr>mm_pools := pools\<rparr>);
             s \<leftarrow> mem_free_vpage e cas phys_va n False s;
             Some (0, s) })"

end
