(* ===== verification/Recolor.thy ===== *)
theory Recolor
  imports Mem_Map
begin

text \<open>
  Counting the pages to recolour: the closed form at the start of \<^verbatim>\<open>mem_map_reclr\<close> is the number of
  pages of the image whose colour is not among those of the address space.
\<close>

definition cnt :: "(nat \<Rightarrow> bool) \<Rightarrow> nat \<Rightarrow> nat \<Rightarrow> nat" where
  "cnt P a n = length (filter P [a..<a + n])"

lemma cnt_0 [simp]: "cnt P a 0 = 0"
  by (simp add: cnt_def)

lemma cnt_add: "cnt P a (n + m) = cnt P a n + cnt P (a + n) m"
  using upt_add_eq_append [of a "a + n" m] by (simp add: cnt_def add.assoc)

lemma cnt_1: "cnt P a 1 = of_bool (P a)"
  by (simp add: cnt_def One_nat_def)

lemma cnt_cong: "(\<And>i. i < n \<Longrightarrow> P (a + i) = Q (b + i)) \<Longrightarrow> cnt P a n = cnt Q b n"
proof (induction n)
  case (Suc n)
  then show ?case using cnt_add [of P a n 1] cnt_add [of Q b n 1] by (simp add: cnt_1 Suc_eq_plus1)
qed simp

text \<open>A window of one period holds the same number of hits wherever it starts.\<close>

lemma cnt_window:
  assumes "\<And>i. P (i + w) = P i"
  shows "cnt P a w = cnt P 0 w"
proof (induction a)
  case (Suc a)
  have "cnt P a 1 + cnt P (a + 1) w = cnt P a w + cnt P (a + w) 1"
    using cnt_add [of P a 1 w] cnt_add [of P a w 1] by (simp add: add.commute)
  with Suc show ?case by (simp add: cnt_1 assms Suc_eq_plus1)
qed simp

lemma cnt_periodic:
  assumes "\<And>i. P (i + w) = P i"
  shows "cnt P 0 n = n div w * cnt P 0 w + cnt P 0 (n mod w)"
proof -
  have win: "cnt P 0 (k * w) = k * cnt P 0 w" for k
  proof (induction k)
    case (Suc k)
    then show ?case using cnt_add [of P 0 "k * w" w] cnt_window [of P w "k * w"] assms by (simp add: add.commute)
  qed simp
  have per: "P (i + k * w) = P i" for i k
    using assms by (induction k) (simp_all add: add.assoc [symmetric] add.commute [of w])
  have "cnt P 0 n = cnt P 0 (n div w * w) + cnt P (n div w * w) (n mod w)"
    using cnt_add [of P 0 "n div w * w" "n mod w"] by simp
  also have "cnt P (n div w * w) (n mod w) = cnt P 0 (n mod w)"
    by (rule cnt_cong) (simp add: per add.commute)
  finally show ?thesis by (simp add: win)
qed

lemma cnt_blocks:
  assumes "0 < s"
  shows "cnt (\<lambda>i. Q (i div s)) 0 (n * s) = s * cnt Q 0 n"
proof (induction n)
  case (Suc n)
  have "cnt (\<lambda>i. Q (i div s)) (n * s) s = s * of_bool (Q n)"
  proof -
    have "cnt (\<lambda>i. Q (i div s)) (n * s) s = cnt (\<lambda>i. Q n) (n * s) s"
      by (rule cnt_cong) (use assms in simp)
    then show ?thesis by (simp add: cnt_def)
  qed
  then show ?case
    using Suc cnt_add [of "\<lambda>i. Q (i div s)" 0 "n * s" s] cnt_add [of Q 0 n 1]
    by (simp add: cnt_1 add.commute distrib_left Suc_eq_plus1 algebra_simps)
qed simp

lemma page_clr_period:
  "0 < COLOR_SIZE cc \<Longrightarrow> page_clr cc b (i + COLOR_NUM cc * COLOR_SIZE cc) = page_clr cc b i"
proof -
  let ?s = "COLOR_SIZE cc" and ?n = "COLOR_NUM cc"
  assume s: "0 < ?s"
  have "(i + ?n * ?s + clr_offset cc b) div ?s = (i + clr_offset cc b) div ?s + ?n"
    using s by (metis add.assoc add.commute div_mult_self1 neq0_conv)
  then show ?thesis by (simp add: page_clr_def)
qed

subsection \<open>Properties\<close>

text \<open>
  The number of pages that \<^verbatim>\<open>mem_map_reclr\<close> allocates, computed from whole colour periods and a
  remainder, is exactly the number of pages of the image whose colour is not in the mask of the
  address space, wherever in a colour period the image starts.
\<close>

theorem reclr_count_exact:
  assumes "0 < COLOR_SIZE cc" "0 < COLOR_NUM cc" "COLOR_NUM cc \<le> 64"
  shows "reclr_count cc colors b n = card {i. i < n \<and> \<not> has_clr cc b colors i}"
proof -
  let ?s = "COLOR_SIZE cc" and ?n = "COLOR_NUM cc" and ?o = "clr_offset cc b"
  define P where "P i \<longleftrightarrow> \<not> has_clr cc b colors i" for i
  define Q where "Q c \<longleftrightarrow> \<not> bit colors c" for c
  have lt: "page_clr cc b i < 64" for i using page_clr_lt [OF assms(2), of b i] assms(3) by linarith
  have PQ: "P i \<longleftrightarrow> Q ((i + ?o) div ?s mod ?n)" for i by (simp add: P_def Q_def has_clr_bit page_clr_def)
  have per: "P (i + ?n * ?s) = P i" for i
    using page_clr_period [OF assms(1), of b i] by (simp add: P_def has_clr_bit)
  define R where "R i \<longleftrightarrow> Q (i div ?s mod ?n)" for i
  have R: "R (i + ?n * ?s) = R i" for i using assms(1) by (simp add: R_def)
  have "cnt P 0 (?n * ?s) = cnt R ?o (?n * ?s)" by (rule cnt_cong) (simp add: PQ R_def add.commute)
  also have "\<dots> = cnt R 0 (?n * ?s)" by (rule cnt_window) (rule R)
  also have "\<dots> = ?s * cnt (\<lambda>c. Q (c mod ?n)) 0 ?n" unfolding R_def by (rule cnt_blocks [OF assms(1)])
  also have "cnt (\<lambda>c. Q (c mod ?n)) 0 ?n = cnt Q 0 ?n" by (rule cnt_cong) simp
  finally have win: "cnt P 0 (?n * ?s) = ?s * cnt Q 0 ?n" .
  have "bitmap_count (word_bitmap colors) 0 ?n False = cnt Q 0 ?n"
    unfolding bitmap_count_eq bits_in_def cnt_def using assms(3)
    by (auto simp: word_bitmap_get Q_def intro!: arg_cong [where f = length] filter_cong)
  moreover have "filter (\<lambda>i. bitmap_get (word_bitmap colors) (page_clr cc b i) = 0) [0..<n mod (?n * ?s)] =
      filter P [0..<0 + n mod (?n * ?s)]"
    by (auto simp: word_bitmap_get lt P_def has_clr_bit intro!: filter_cong)
  ultimately have "reclr_count cc colors b n = cnt P 0 n"
    using cnt_periodic [of P "?n * ?s" n] per win
    by (simp add: reclr_count_def Let_def cnt_def mult.assoc)
  moreover have "cnt P 0 n = card {i. i < n \<and> P i}"
    using distinct_card [of "filter P [0..<n]"] by (simp add: cnt_def conj_commute)
  ultimately show ?thesis by (simp add: P_def)
qed

theorem reclr_count_exact_witness:
  "reclr_count \<lparr>COLOR_NUM = 4, COLOR_SIZE = 2\<rparr> 0b0101 0x3000 11 = 5 \<and>
   card {i. i < 11 \<and> \<not> has_clr \<lparr>COLOR_NUM = 4, COLOR_SIZE = 2\<rparr> 0x3000 0b0101 i} = 5"
proof -
  have "reclr_count \<lparr>COLOR_NUM = 4, COLOR_SIZE = 2\<rparr> 0b0101 0x3000 11 = 5" by code_simp
  then show ?thesis using reclr_count_exact [of "\<lparr>COLOR_NUM = 4, COLOR_SIZE = 2\<rparr>" "0b0101" "0x3000" 11] by simp
qed

end
