(* ===== verification/Lists.thy ===== *)
theory Lists
  imports Prelude
begin

text \<open>
  The intrusive singly linked lists of \<^verbatim>\<open>lib/inc/list.h\<close>. A node is an address (\<open>0\<close> is \<^verbatim>\<open>NULL\<close>) whose
  first word is the pointer to the next node, so the heap is the function from a node to its
  successor. The operations below are the critical sections under the list's lock.
\<close>

type_synonym addr = nat
type_synonym heap = "addr \<Rightarrow> addr"

record list_t =
  head :: addr
  tail :: addr

definition list_init :: "list_t" where
  "list_init = \<lparr>head = 0, tail = 0\<rparr>"

definition list_push :: "heap \<Rightarrow> list_t \<Rightarrow> addr \<Rightarrow> heap \<times> list_t" where
  "list_push h l node =
     (if node \<noteq> 0 then
        let h = h(node := 0);
            h = (if tail l \<noteq> 0 then h(tail l := node) else h);
            l = l\<lparr>tail := node\<rparr>;
            l = (if head l = 0 then l\<lparr>head := node\<rparr> else l)
        in (h, l)
      else (h, l))"

definition list_pop :: "heap \<Rightarrow> list_t \<Rightarrow> addr \<times> heap \<times> list_t" where
  "list_pop h l =
     (if head l \<noteq> 0 then
        let temp = head l;
            l = l\<lparr>head := h (head l)\<rparr>;
            l = (if head l = 0 then l\<lparr>tail := 0\<rparr> else l)
        in (temp, h(temp := 0), l)
      else (0, h, l))"

definition list_peek :: "list_t \<Rightarrow> addr" where
  "list_peek l = head l"

definition list_empty :: "list_t \<Rightarrow> bool" where
  "list_empty l \<longleftrightarrow> head l = 0"

text \<open>The loop of \<^verbatim>\<open>list_rm\<close> returns \<^verbatim>\<open>temp_prev\<close> and \<^verbatim>\<open>temp\<close>; it has no exit on a cyclic list.\<close>

partial_function (option) rm_loop :: "heap \<Rightarrow> addr \<Rightarrow> addr \<Rightarrow> addr \<Rightarrow> (addr \<times> addr) option" where
  "rm_loop h node temp_prev temp =
     (if temp \<noteq> 0 \<and> temp \<noteq> node then rm_loop h node temp (h temp) else Some (temp_prev, temp))"

declare rm_loop.simps [code]

text \<open>The write \<^verbatim>\<open>*temp_prev = *temp\<close> goes through a null pointer when the node is the head: \<open>None\<close>.\<close>

definition list_rm :: "heap \<Rightarrow> list_t \<Rightarrow> addr \<Rightarrow> (bool \<times> heap) option" where
  "list_rm h l node =
     (if node \<noteq> 0 then
        do { (temp_prev, temp) \<leftarrow> rm_loop h node 0 (head l);
             if temp \<noteq> 0 \<and> temp = node then
               if temp_prev = 0 then None else Some (True, h(temp_prev := h temp))
             else Some (True, h) }
      else Some (True, h))"

subsection \<open>The sequence a list represents\<close>

fun chain :: "heap \<Rightarrow> addr \<Rightarrow> addr list \<Rightarrow> addr \<Rightarrow> bool" where
  "chain h p [] q \<longleftrightarrow> p = q"
| "chain h p (x # xs) q \<longleftrightarrow> p = x \<and> x \<noteq> 0 \<and> chain h (h x) xs q"

lemma chain_append: "chain h p (xs @ ys) q \<longleftrightarrow> (\<exists>r. chain h p xs r \<and> chain h r ys q)"
  by (induction xs arbitrary: p) auto

lemma chain_upd [simp]: "a \<notin> set xs \<Longrightarrow> chain (h(a := b)) p xs q = chain h p xs q"
  by (induction xs arbitrary: p) auto

lemma chain_not_null: "chain h p xs q \<Longrightarrow> 0 \<notin> set xs"
  by (induction xs arbitrary: p) auto

definition list_repr :: "heap \<Rightarrow> list_t \<Rightarrow> addr list \<Rightarrow> bool" where
  "list_repr h l xs \<longleftrightarrow>
     chain h (head l) xs 0 \<and> distinct xs \<and> tail l = (if xs = [] then 0 else last xs)"

lemma list_repr_init [simp]: "list_repr h list_init []"
  by (simp add: list_repr_def list_init_def)

lemma list_repr_push:
  assumes "list_repr h l xs" "node \<noteq> 0" "node \<notin> set xs" "list_push h l node = (h', l')"
  shows "list_repr h' l' (xs @ [node])"
proof (cases xs rule: rev_cases)
  case Nil
  then show ?thesis using assms by (auto simp: list_repr_def list_push_def Let_def)
next
  case (snoc ys y)
  with assms(1) have c: "chain h (head l) ys y" "y \<noteq> 0" "y \<notin> set ys" "distinct ys" "tail l = y"
    by (auto simp: list_repr_def chain_append)
  then have "head l \<noteq> 0" by (cases ys) auto
  with c assms snoc show ?thesis
    by (auto simp: list_repr_def list_push_def Let_def chain_append)
qed

lemma list_repr_pop:
  assumes "list_repr h l xs" "list_pop h l = (x, h', l')"
  shows "case xs of [] \<Rightarrow> x = 0 \<and> h' = h \<and> l' = l | y # ys \<Rightarrow> x = y \<and> list_repr h' l' ys"
proof (cases xs)
  case Nil
  then show ?thesis using assms by (auto simp: list_repr_def list_pop_def)
next
  case (Cons y ys)
  then have "chain h (h y) ys 0" "y \<noteq> 0" "y \<notin> set ys" "head l = y"
    using assms(1) by (auto simp: list_repr_def)
  moreover from this have "h y = 0 \<longleftrightarrow> ys = []" by (cases ys) auto
  ultimately show ?thesis using assms Cons by (auto simp: list_repr_def list_pop_def Let_def)
qed

text \<open>A push or pop changes only the link of the node itself and of nodes of the list.\<close>

lemma list_push_frame:
  "list_push h l node = (h', l') \<Longrightarrow> a \<noteq> node \<Longrightarrow> a \<noteq> tail l \<Longrightarrow> h' a = h a"
  by (auto simp: list_push_def Let_def split: if_splits)

lemma list_pop_frame: "list_pop h l = (x, h', l') \<Longrightarrow> a \<noteq> head l \<Longrightarrow> h' a = h a"
  by (auto simp: list_pop_def Let_def split: if_splits)

lemma list_repr_empty: "list_repr h l xs \<Longrightarrow> list_empty l \<longleftrightarrow> xs = []"
  by (cases xs) (auto simp: list_repr_def list_empty_def)

lemma list_repr_peek: "list_repr h l xs \<Longrightarrow> list_peek l = (case xs of [] \<Rightarrow> 0 | x # _ \<Rightarrow> x)"
  by (cases xs) (auto simp: list_repr_def list_peek_def)

subsection \<open>The contract of a first-in first-out queue\<close>

locale fifo =
  fixes repr :: "'s \<Rightarrow> 'a list \<Rightarrow> bool"
    and ok :: "'a list \<Rightarrow> 'a \<Rightarrow> bool"
    and push :: "'s \<Rightarrow> 'a \<Rightarrow> 's"
    and pop :: "'s \<Rightarrow> 'a option \<times> 's"
  assumes repr_push: "repr s xs \<Longrightarrow> ok xs x \<Longrightarrow> repr (push s x) (xs @ [x])"
    and pop_nil: "repr s [] \<Longrightarrow> pop s = (None, s)"
    and pop_cons: "repr s (x # xs) \<Longrightarrow> \<exists>s'. pop s = (Some x, s') \<and> repr s' xs"
begin

primrec pops :: "nat \<Rightarrow> 's \<Rightarrow> 'a list \<times> 's" where
  "pops 0 s = ([], s)"
| "pops (Suc n) s =
     (case pop s of (None, s') \<Rightarrow> ([], s') | (Some x, s') \<Rightarrow> (let (ys, s'') = pops n s' in (x # ys, s'')))"

fun oks :: "'a list \<Rightarrow> 'a list \<Rightarrow> bool" where
  "oks xs [] \<longleftrightarrow> True"
| "oks xs (y # ys) \<longleftrightarrow> ok xs y \<and> oks (xs @ [y]) ys"

lemma repr_pushes: "repr s xs \<Longrightarrow> oks xs ys \<Longrightarrow> repr (foldl push s ys) (xs @ ys)"
proof (induction ys arbitrary: s xs)
  case (Cons y ys)
  then show ?case using Cons.IH [of "push s y" "xs @ [y]"] repr_push by auto
qed simp

lemma pops_repr: "repr s xs \<Longrightarrow> \<exists>s'. pops n s = (take n xs, s') \<and> repr s' (drop n xs)"
proof (induction n arbitrary: s xs)
  case (Suc n)
  show ?case
  proof (cases xs)
    case Nil
    then show ?thesis using Suc.prems pop_nil by auto
  next
    case (Cons y ys)
    then obtain s1 where s1: "pop s = (Some y, s1)" "repr s1 ys" using pop_cons Suc.prems by blast
    with Suc.IH [of s1 ys] Cons show ?thesis by auto
  qed
qed simp

lemma pops_all: "repr s [] \<Longrightarrow> oks [] ys \<Longrightarrow> fst (pops (length ys) (foldl push s ys)) = ys"
  using repr_pushes [of s "[]" ys] pops_repr [of "foldl push s ys" ys "length ys"] by fastforce

end

definition lrepr :: "heap \<times> list_t \<Rightarrow> addr list \<Rightarrow> bool" where
  "lrepr s xs \<longleftrightarrow> list_repr (fst s) (snd s) xs"

definition lok :: "addr list \<Rightarrow> addr \<Rightarrow> bool" where
  "lok xs x \<longleftrightarrow> x \<noteq> 0 \<and> x \<notin> set xs"

definition lpush :: "heap \<times> list_t \<Rightarrow> addr \<Rightarrow> heap \<times> list_t" where
  "lpush s x = list_push (fst s) (snd s) x"

definition lpop :: "heap \<times> list_t \<Rightarrow> addr option \<times> heap \<times> list_t" where
  "lpop s = (let (x, s') = list_pop (fst s) (snd s) in (if x = 0 then None else Some x, s'))"

interpretation lq: fifo lrepr lok lpush lpop
proof (unfold_locales, goal_cases)
  case (1 s xs x)
  then show ?case by (auto simp: lrepr_def lok_def lpush_def intro!: list_repr_push prod.collapse)
next
  case (2 s)
  then show ?case using list_repr_pop [of "fst s" "snd s" "[]"]
    by (cases "list_pop (fst s) (snd s)") (auto simp: lrepr_def lpop_def)
next
  case (3 s x xs)
  then have "x \<noteq> 0" by (auto simp: lrepr_def list_repr_def)
  with 3 show ?case using list_repr_pop [of "fst s" "snd s" "x # xs"]
    by (cases "list_pop (fst s) (snd s)") (auto simp: lrepr_def lpop_def)
qed

subsection \<open>Removing a node\<close>

lemma rm_loop_chain:
  assumes "chain h p (xs @ node # ys) 0" "node \<notin> set xs"
  shows "rm_loop h node prev p = Some (if xs = [] then prev else last xs, node)"
  using assms
proof (induction xs arbitrary: p prev)
  case Nil
  then show ?case by (subst rm_loop.simps) simp
next
  case (Cons x xs)
  then have "rm_loop h node prev p = rm_loop h node x (h x)" by (subst rm_loop.simps) simp
  also have "\<dots> = Some (if xs = [] then x else last xs, node)" using Cons by simp
  finally show ?case by simp
qed

lemma rm_loop_absent:
  "chain h p xs 0 \<Longrightarrow> node \<notin> set xs \<Longrightarrow> node \<noteq> 0 \<Longrightarrow> \<exists>q. rm_loop h node prev p = Some (q, 0)"
proof (induction xs arbitrary: p prev)
  case Nil
  then show ?case by (subst rm_loop.simps) simp
next
  case (Cons x xs)
  then have "rm_loop h node prev p = rm_loop h node x (h x)" by (subst rm_loop.simps) simp
  with Cons show ?case by simp
qed

lemma chain_bypass:
  assumes "chain h p (xs @ [x] @ node # ys) 0" "distinct (xs @ [x] @ node # ys)"
  shows "chain (h(x := h node)) p (xs @ [x] @ ys) 0"
  using assms by (auto simp: chain_append)

subsection \<open>Properties\<close>

text \<open>
  A list is a first-in first-out queue: pushing distinct nodes onto an empty list and popping
  as many returns them in the order of the pushes.
\<close>

theorem list_fifo_order:
  assumes "distinct xs" "0 \<notin> set xs"
  shows "fst (lq.pops (length xs) (foldl lpush (h, list_init) xs)) = xs"
proof -
  have "lq.oks ys zs" if "distinct (ys @ zs)" "0 \<notin> set zs" for ys zs
    using that by (induction zs arbitrary: ys) (auto simp: lok_def)
  then show ?thesis using assms lq.pops_all [of "(h, list_init)" xs] by (simp add: lrepr_def)
qed

theorem list_fifo_order_witness:
  "fst (lq.pops 3 (foldl lpush (\<lambda>_. 0, list_init) [0x40, 0x10, 0x20])) = [0x40, 0x10, 0x20]"
  using list_fifo_order [of "[0x40, 0x10, 0x20]" "\<lambda>_. 0"] by (simp add: numeral_3_eq_3)

text \<open>
  Removing a node that is neither the head nor the last node of a list takes exactly this node
  out of the sequence.
\<close>

theorem list_rm_inner:
  assumes "list_repr h l (xs @ node # ys)" "xs \<noteq> []" "ys \<noteq> []"
  shows "\<exists>h'. list_rm h l node = Some (True, h') \<and> list_repr h' l (xs @ ys)"
proof -
  from assms obtain zs z where xs: "xs = zs @ [z]" by (cases xs rule: rev_cases) auto
  have r: "chain h (head l) (zs @ [z] @ node # ys) 0" "distinct (zs @ [z] @ node # ys)" "node \<notin> set xs"
    "tail l = last ys" using assms xs by (auto simp: list_repr_def)
  moreover have "node \<noteq> 0" "z \<noteq> 0" using chain_not_null [OF r(1)] by auto
  moreover have "rm_loop h node 0 (head l) = Some (z, node)"
    using rm_loop_chain [of h "head l" xs node ys 0] r(1,3) xs by simp
  ultimately show ?thesis
    using chain_bypass [OF r(1,2)] assms(3) xs by (simp add: list_rm_def list_repr_def)
qed

theorem list_rm_inner_witness:
  "\<exists>h'. list_rm ((\<lambda>_. 0)(1 := 2, 2 := 3)) \<lparr>head = 1, tail = 3\<rparr> 2 = Some (True, h') \<and>
     list_repr h' \<lparr>head = 1, tail = 3\<rparr> [1, 3]"
  using list_rm_inner [of "(\<lambda>_. 0)(1 := 2, 2 := 3)" "\<lparr>head = 1, tail = 3\<rparr>" "[1]" 2 "[3]"]
  by (simp add: list_repr_def)

text \<open>
  Removing the head of a list writes through a null pointer.
\<close>

theorem list_rm_head_faults:
  assumes "list_repr h l (node # ys)"
  shows "list_rm h l node = None"
  using assms rm_loop_chain [of h "head l" "[]" node ys 0] by (auto simp: list_rm_def list_repr_def)

theorem list_rm_head_faults_witness:
  "list_rm (\<lambda>_. 0) \<lparr>head = 1, tail = 1\<rparr> 1 = None"
  using list_rm_head_faults [of "\<lambda>_. 0" "\<lparr>head = 1, tail = 1\<rparr>" 1 "[]"] by (simp add: list_repr_def)

text \<open>
  After the last node of a list has been removed the tail pointer still names it, so a node
  pushed next is linked behind the removed node and never reached from the head.
\<close>

theorem list_rm_last_loses_push:
  "let h = (\<lambda>_. 0)(1 := 2); l = \<lparr>head = 1, tail = 2\<rparr>; r = list_rm h l 2;
       (h', l') = list_push (snd (the r)) l 3
   in list_repr h l [1, 2] \<and> r \<noteq> None \<and> list_repr h' \<lparr>head = head l', tail = 1\<rparr> [1]"
  by (auto simp: list_rm_def rm_loop.simps list_repr_def list_push_def)

end
