(* ===== verification/Objcache.thy ===== *)
theory Objcache
  imports Lists Mem_Map
begin

text \<open>
  The object cache of \<^verbatim>\<open>core/objcache.c\<close>: slabs of one page that hold a header and a free list of equal
  sized objects. The state is the memory manager's, the link words of all nodes, and the slab
  headers by the address of their page. The header is 64 bytes long (a link, a \<^verbatim>\<open>list_t\<close> of 24 bytes
  and four words); an object is preceded by its link word.
\<close>

record slab =
  sl_free :: list_t
  sl_objsize :: nat
  sl_objnum :: nat
  sl_objcount :: nat
  sl_cache :: nat

record objcache =
  oc_osize :: nat
  oc_slabs :: list_t
  oc_last_free :: nat
  oc_section :: nat

record oc_state =
  oc_mm :: mm
  oc_heap :: heap
  oc_hdr :: "nat \<Rightarrow> slab"

definition SLAB_HEADER_SIZE :: nat where
  "SLAB_HEADER_SIZE = 64"

definition zero_words :: "heap \<Rightarrow> nat \<Rightarrow> nat \<Rightarrow> heap" where
  "zero_words h p n = (\<lambda>a. if p \<le> a \<and> a < p + n then 0 else h a)"

text \<open>The loop of \<^verbatim>\<open>slab_create\<close> that puts every object on the free list.\<close>

definition slab_objects :: "nat \<Rightarrow> nat \<Rightarrow> nat \<Rightarrow> nat list" where
  "slab_objects p objsize objnum = map (\<lambda>i. p + SLAB_HEADER_SIZE + i * objsize) [0..<objnum]"

definition slab_fill :: "heap \<Rightarrow> nat list \<Rightarrow> heap \<times> list_t" where
  "slab_fill h objs = foldl lpush (h, list_init) objs"

definition slab_create :: "mem_env \<Rightarrow> addr_space \<Rightarrow> nat \<Rightarrow> objcache \<Rightarrow> nat \<Rightarrow> oc_state \<Rightarrow> (nat \<times> oc_state) option" where
  "slab_create e cas oc_addr oc sec s =
     do { (slab, m) \<leftarrow> mem_alloc_page e cas 1 sec False (oc_mm s);
          let s = s\<lparr>oc_mm := m\<rparr>;
          if slab = 0 then Some (0, s)
          else
            let objsize = ALIGN (8 + oc_osize oc) 8;
                objnum = (PAGE_SIZE - SLAB_HEADER_SIZE) div objsize;
                (h, l) = slab_fill (zero_words (oc_heap s) slab PAGE_SIZE) (slab_objects slab objsize objnum)
            in Some (slab, s\<lparr>oc_heap := h,
                 oc_hdr := (oc_hdr s)(slab := \<lparr>sl_free = l, sl_objsize = objsize, sl_objnum = objnum,
                                                  sl_objcount = objnum, sl_cache = oc_addr\<rparr>)\<rparr>) }"

definition slab_alloc :: "nat \<Rightarrow> oc_state \<Rightarrow> nat \<times> oc_state" where
  "slab_alloc slab s =
     (if slab = 0 then (0, s)
      else
        let sl = oc_hdr s slab;
            (obj, h, l) = list_pop (oc_heap s) (sl_free sl)
        in if obj \<noteq> 0
           then (obj + 8, s\<lparr>oc_heap := h(obj := 0),
                   oc_hdr := (oc_hdr s)(slab := sl\<lparr>sl_free := l, sl_objcount := sub64 (sl_objcount sl) 1\<rparr>)\<rparr>)
           else (0, s\<lparr>oc_heap := h, oc_hdr := (oc_hdr s)(slab := sl\<lparr>sl_free := l\<rparr>)\<rparr>))"

definition slab_free :: "nat \<Rightarrow> nat \<Rightarrow> oc_state \<Rightarrow> bool \<times> oc_state" where
  "slab_free slab obj s =
     (let obj_addr = obj - 8; sl = oc_hdr s slab in
      if slab \<noteq> 0 \<and> slab div PAGE_SIZE = obj_addr div PAGE_SIZE \<and>
         sub64 (obj_addr mod PAGE_SIZE) SLAB_HEADER_SIZE mod sl_objsize sl = 0 \<and> oc_heap s obj_addr = 0
      then
        let (h, l) = list_push (zero_words (oc_heap s) obj_addr (sl_objsize sl)) (sl_free sl) obj_addr
        in (True, s\<lparr>oc_heap := h,
              oc_hdr := (oc_hdr s)(slab := sl\<lparr>sl_free := l, sl_objcount := sl_objcount sl + 1\<rparr>)\<rparr>)
      else (False, s))"

definition slab_get :: "nat \<Rightarrow> nat" where
  "slab_get obj = obj div PAGE_SIZE * PAGE_SIZE"

definition slab_full :: "oc_state \<Rightarrow> nat \<Rightarrow> bool" where
  "slab_full s slab \<longleftrightarrow> sl_objcount (oc_hdr s slab) = 0"

definition slab_empty :: "oc_state \<Rightarrow> nat \<Rightarrow> bool" where
  "slab_empty s slab \<longleftrightarrow> sl_objnum (oc_hdr s slab) = sl_objcount (oc_hdr s slab)"

text \<open>\<^verbatim>\<open>list_push\<close> of a slab on the cache's list; the list's links are among the link words.\<close>

definition push_slab :: "nat \<Rightarrow> objcache \<Rightarrow> oc_state \<Rightarrow> objcache \<times> oc_state" where
  "push_slab slab oc s =
     (let (h, l) = list_push (oc_heap s) (oc_slabs oc) slab
      in (oc\<lparr>oc_slabs := l\<rparr>, s\<lparr>oc_heap := h\<rparr>))"

definition objcache_init ::
  "mem_env \<Rightarrow> addr_space \<Rightarrow> nat \<Rightarrow> nat \<Rightarrow> nat \<Rightarrow> bool \<Rightarrow> oc_state \<Rightarrow> (objcache \<times> oc_state) option" where
  "objcache_init e cas oc_addr osize sec prime s =
     (let oc = \<lparr>oc_osize = osize, oc_slabs = list_init, oc_last_free = 0, oc_section = sec\<rparr> in
      if prime then
        do { (slab, s) \<leftarrow> slab_create e cas oc_addr oc sec s;
             let (oc, s) = push_slab slab oc s;
             Some (oc\<lparr>oc_last_free := slab\<rparr>, s) }
      else Some (oc, s))"

text \<open>
  \<^verbatim>\<open>objcache_alloc\<close>. When \<^verbatim>\<open>last_free\<close> is null the code first looks for a slab that is not full, but
  overwrites what it found with a new slab, since \<^verbatim>\<open>last_free\<close> is still null after the search.
\<close>

definition objcache_alloc ::
  "mem_env \<Rightarrow> addr_space \<Rightarrow> nat \<Rightarrow> objcache \<Rightarrow> oc_state \<Rightarrow> (nat \<times> objcache \<times> oc_state) option" where
  "objcache_alloc e cas oc_addr oc s =
     do { (slab, oc, s) \<leftarrow>
            (if oc_last_free oc = 0 then
               do { (slab, s) \<leftarrow> slab_create e cas oc_addr oc (oc_section oc) s;
                    let (oc, s) = push_slab slab oc s;
                    Some (slab, oc\<lparr>oc_last_free := slab\<rparr>, s) }
             else Some (oc_last_free oc, oc, s));
          let (obj, s) = slab_alloc slab s;
          Some (obj, oc, s) }"

definition objcache_free :: "nat \<Rightarrow> nat \<Rightarrow> oc_state \<Rightarrow> bool \<times> oc_state" where
  "objcache_free oc_addr obj s =
     (let slab = slab_get obj in
      if slab \<noteq> 0 \<and> sl_cache (oc_hdr s slab) = oc_addr
      then (True, snd (slab_free slab obj s))
      else (False, s))"

subsection \<open>The objects of a slab\<close>

definition slots :: "oc_state \<Rightarrow> nat \<Rightarrow> nat set" where
  "slots s slab = set (slab_objects slab (sl_objsize (oc_hdr s slab)) (sl_objnum (oc_hdr s slab)))"

text \<open>The free list holds distinct slots of the slab, as many as the header counts.\<close>

definition slab_inv :: "oc_state \<Rightarrow> nat \<Rightarrow> bool" where
  "slab_inv s slab \<longleftrightarrow>
     slab \<noteq> 0 \<and> PAGE_SIZE dvd slab \<and> 0 < sl_objsize (oc_hdr s slab) \<and>
     SLAB_HEADER_SIZE + sl_objnum (oc_hdr s slab) * sl_objsize (oc_hdr s slab) \<le> PAGE_SIZE \<and>
     (\<exists>xs. list_repr (oc_heap s) (sl_free (oc_hdr s slab)) xs \<and> set xs \<subseteq> slots s slab \<and>
           length xs = sl_objcount (oc_hdr s slab))"

definition free_slots :: "oc_state \<Rightarrow> nat \<Rightarrow> nat set" where
  "free_slots s slab = (THE X. \<exists>xs. list_repr (oc_heap s) (sl_free (oc_hdr s slab)) xs \<and> X = set xs)"

lemma chain_unique: "chain h p xs 0 \<Longrightarrow> chain h p ys 0 \<Longrightarrow> xs = ys"
proof (induction xs arbitrary: p ys)
  case Nil
  then show ?case by (cases ys) auto
next
  case (Cons x xs)
  then show ?case by (cases ys) auto
qed

lemma list_repr_unique: "list_repr h l xs \<Longrightarrow> list_repr h l ys \<Longrightarrow> xs = ys"
  using chain_unique by (auto simp: list_repr_def)

lemma free_slots_eq: "list_repr (oc_heap s) (sl_free (oc_hdr s slab)) xs \<Longrightarrow> free_slots s slab = set xs"
  unfolding free_slots_def using list_repr_unique by (intro the_equality) blast+

lemma distinct_slab_objects: "0 < sz \<Longrightarrow> distinct (slab_objects p sz n)"
  by (auto simp: slab_objects_def distinct_map inj_on_def)

lemma slab_fill_repr:
  assumes "0 < sz" "p \<noteq> 0"
  shows "list_repr (fst (slab_fill h (slab_objects p sz n))) (snd (slab_fill h (slab_objects p sz n)))
    (slab_objects p sz n)"
proof -
  have "lq.oks ys zs" if "distinct (ys @ zs)" "0 \<notin> set zs" for ys zs
    using that by (induction zs arbitrary: ys) (auto simp: lok_def)
  moreover have "distinct (slab_objects p sz n)" "0 \<notin> set (slab_objects p sz n)"
    using distinct_slab_objects [OF assms(1)] assms(2) by (auto simp: slab_objects_def)
  ultimately have "lq.oks [] (slab_objects p sz n)" by simp
  then have "lrepr (slab_fill h (slab_objects p sz n)) ([] @ slab_objects p sz n)"
    unfolding slab_fill_def by (intro lq.repr_pushes) (simp_all add: lrepr_def)
  then show ?thesis by (simp add: lrepr_def)
qed

lemma slab_create_inv:
  assumes "slab_create e cas oc_addr oc sec s = Some (slab, s')" "slab \<noteq> 0" "PAGE_SIZE dvd slab"
  shows "slab_inv s' slab" "free_slots s' slab = slots s' slab"
    "sl_objsize (oc_hdr s' slab) = ALIGN (8 + oc_osize oc) 8" "8 + oc_osize oc \<le> sl_objsize (oc_hdr s' slab)"
proof -
  let ?sz = "ALIGN (8 + oc_osize oc) 8"
  let ?n = "(PAGE_SIZE - SLAB_HEADER_SIZE) div ?sz"
  have sz: "0 < ?sz" "8 + oc_osize oc \<le> ?sz" using ALIGN_ge [of 8 "8 + oc_osize oc"] by simp_all
  obtain h l m where s': "oc_hdr s' slab = \<lparr>sl_free = l, sl_objsize = ?sz, sl_objnum = ?n,
       sl_objcount = ?n, sl_cache = oc_addr\<rparr>" "oc_heap s' = h"
    "slab_fill (zero_words (oc_heap s) slab PAGE_SIZE) (slab_objects slab ?sz ?n) = (h, l)"
    using assms(1,2) by (auto simp: slab_create_def Let_def split: bind_splits if_splits prod.splits)
  have r: "list_repr h l (slab_objects slab ?sz ?n)"
    using slab_fill_repr [OF sz(1) assms(2), of "zero_words (oc_heap s) slab PAGE_SIZE" ?n] s'(3) by simp
  have "?n * ?sz \<le> PAGE_SIZE - SLAB_HEADER_SIZE" by simp
  then have "SLAB_HEADER_SIZE + ?n * ?sz \<le> PAGE_SIZE" by (simp add: PAGE_SIZE_def SLAB_HEADER_SIZE_def)
  then show "slab_inv s' slab"
    using assms(2,3) s' r sz(1) by (auto simp: slab_inv_def slots_def slab_objects_def intro!: exI [of _ "slab_objects slab ?sz ?n"])
  show "free_slots s' slab = slots s' slab" using free_slots_eq [of s' slab] r s' by (simp add: slots_def)
  show "sl_objsize (oc_hdr s' slab) = ?sz" "8 + oc_osize oc \<le> sl_objsize (oc_hdr s' slab)" using s'(1) sz by simp_all
qed

lemma slab_alloc_spec:
  assumes "slab_inv s slab" "slab_alloc slab s = (obj, s')"
  shows "if sl_objcount (oc_hdr s slab) = 0 then obj = 0 \<and> s' = s
    else \<exists>x. obj = x + 8 \<and> x \<in> free_slots s slab \<and> free_slots s' slab = free_slots s slab - {x} \<and>
      slab_inv s' slab \<and> slots s' slab = slots s slab \<and> oc_heap s' x = 0 \<and> sl_cache (oc_hdr s' slab) = sl_cache (oc_hdr s slab)"
proof -
  let ?sl = "oc_hdr s slab"
  obtain xs where xs: "list_repr (oc_heap s) (sl_free ?sl) xs" "set xs \<subseteq> slots s slab" "length xs = sl_objcount ?sl"
    using assms(1) by (auto simp: slab_inv_def)
  obtain x h l where p: "list_pop (oc_heap s) (sl_free ?sl) = (x, h, l)" by (metis prod_cases3)
  have nz: "slab \<noteq> 0" using assms(1) by (simp add: slab_inv_def)
  note pop = list_repr_pop [OF xs(1) p]
  show ?thesis
  proof (cases xs)
    case Nil
    then have "x = 0" "h = oc_heap s" "l = sl_free ?sl" using pop by auto
    then show ?thesis using assms(2) p nz Nil xs(3) by (simp add: slab_alloc_def Let_def fun_upd_idem)
  next
    case (Cons y ys)
    then have x: "x = y" "list_repr h l ys" "x \<noteq> 0" "distinct xs"
      using pop xs(1) by (auto simp: list_repr_def)
    let ?sl' = "?sl\<lparr>sl_free := l, sl_objcount := sub64 (sl_objcount ?sl) 1\<rparr>"
    have s': "obj = x + 8" "s' = s\<lparr>oc_heap := h(x := 0), oc_hdr := (oc_hdr s)(slab := ?sl')\<rparr>"
      using assms(2) p nz x(3) by (simp_all add: slab_alloc_def Let_def)
    have "x \<notin> set ys" using Cons x(1,4) by simp
    then have r: "list_repr (h(x := 0)) l ys" using x(2) by (simp add: list_repr_def)
    have "card (slots s slab) \<le> sl_objnum ?sl"
      using card_length [of "slab_objects slab (sl_objsize ?sl) (sl_objnum ?sl)"] by (simp add: slots_def slab_objects_def)
    moreover have "sl_objnum ?sl \<le> sl_objnum ?sl * sl_objsize ?sl" "sl_objnum ?sl * sl_objsize ?sl \<le> PAGE_SIZE"
      using assms(1) by (auto simp: slab_inv_def)
    moreover have "length xs \<le> card (slots s slab)"
      using xs(2) x(4) card_mono [of "slots s slab" "set xs"] by (simp add: distinct_card slots_def)
    ultimately have "sl_objcount ?sl \<le> PAGE_SIZE" using xs(3) by linarith
    then have "sl_objcount ?sl < 2 ^ 64" by (simp add: PAGE_SIZE_def)
    then have c: "sub64 (sl_objcount ?sl) 1 = length ys" using sub64_le [of 1 "sl_objcount ?sl"] xs(3) Cons by simp
    have f: "free_slots s slab = set xs" "free_slots s' slab = set ys"
      using free_slots_eq xs(1) free_slots_eq [of s' slab ys] r s'(2) by simp_all
    have sl: "slots s' slab = slots s slab" by (simp add: slots_def s'(2))
    have "slab_inv s' slab"
      using assms(1) r c xs(2) Cons sl unfolding slab_inv_def by (auto simp: s'(2))
    then show ?thesis
      using s' f Cons x(1,4) xs(3) sl by (auto simp: s'(2))
  qed
qed

lemma page_of:
  assumes "PAGE_SIZE dvd p" "p \<le> x" "x < p + PAGE_SIZE"
  shows "x div PAGE_SIZE * PAGE_SIZE = p" "x mod PAGE_SIZE = x - p"
proof -
  obtain k where k: "p = k * PAGE_SIZE" using assms(1) by (metis dvd_def mult.commute)
  then have "x = (x - p) + k * PAGE_SIZE" "x - p < PAGE_SIZE" using assms(2,3) by linarith+
  then have "x div PAGE_SIZE = k" "x mod PAGE_SIZE = x - p"
    by (metis add.right_neutral add.commute div_less div_mult_self3 PAGE_SIZE_pos(2), metis mod_less mod_mult_self3 add.commute)
  then show "x div PAGE_SIZE * PAGE_SIZE = p" "x mod PAGE_SIZE = x - p" using k by simp_all
qed

lemma slot_geometry:
  assumes "slab_inv s slab" "x \<in> slots s slab"
  shows "slab + SLAB_HEADER_SIZE \<le> x" "x + sl_objsize (oc_hdr s slab) \<le> slab + PAGE_SIZE"
    "sub64 (x mod PAGE_SIZE) SLAB_HEADER_SIZE mod sl_objsize (oc_hdr s slab) = 0"
proof -
  let ?sz = "sl_objsize (oc_hdr s slab)" and ?n = "sl_objnum (oc_hdr s slab)"
  obtain i where i: "i < ?n" "x = slab + SLAB_HEADER_SIZE + i * ?sz"
    using assms(2) by (auto simp: slots_def slab_objects_def)
  have g: "0 < ?sz" "SLAB_HEADER_SIZE + ?n * ?sz \<le> PAGE_SIZE" "PAGE_SIZE dvd slab"
    using assms(1) by (auto simp: slab_inv_def)
  have "i * ?sz + ?sz = (i + 1) * ?sz" by (simp add: add_mult_distrib)
  also have "\<dots> \<le> ?n * ?sz" using i(1) by (intro mult_le_mono1) simp
  finally have le: "i * ?sz + ?sz \<le> ?n * ?sz" .
  show "slab + SLAB_HEADER_SIZE \<le> x" using i(2) by simp
  show top: "x + ?sz \<le> slab + PAGE_SIZE" using i(2) le g(2) by linarith
  have "x mod PAGE_SIZE = SLAB_HEADER_SIZE + i * ?sz"
    using page_of(2) [OF g(3), of x] i(2) top g(1) by simp
  moreover have "SLAB_HEADER_SIZE + i * ?sz < 2 ^ 64" using le g by (simp add: PAGE_SIZE_def)
  ultimately show "sub64 (x mod PAGE_SIZE) SLAB_HEADER_SIZE mod ?sz = 0"
    using sub64_le [of SLAB_HEADER_SIZE "SLAB_HEADER_SIZE + i * ?sz"] by simp
qed

lemma slots_apart:
  assumes "slab_inv s slab" "x \<in> slots s slab" "y \<in> slots s slab" "x \<noteq> y"
  shows "x + sl_objsize (oc_hdr s slab) \<le> y \<or> y + sl_objsize (oc_hdr s slab) \<le> x"
proof -
  let ?sz = "sl_objsize (oc_hdr s slab)"
  obtain i j where x: "x = slab + SLAB_HEADER_SIZE + i * ?sz" and y: "y = slab + SLAB_HEADER_SIZE + j * ?sz"
    using assms(2,3) by (auto simp: slots_def slab_objects_def)
  have "a * ?sz + ?sz \<le> b * ?sz" if "a < b" for a b
    using mult_le_mono1 [of "a + 1" b ?sz] that by (simp add: add_mult_distrib)
  moreover have "i < j \<or> j < i" using x y assms(4) by force
  ultimately show ?thesis using x y by force
qed

text \<open>Clearing one slot does not touch the links of others.\<close>

lemma chain_cong: "\<forall>a \<in> set xs. h' a = h a \<Longrightarrow> chain h' p xs q = chain h p xs q"
  by (induction xs arbitrary: p) auto

lemma slab_free_spec:
  assumes "slab_inv s slab" "x \<in> slots s slab - free_slots s slab" "oc_heap s x = 0"
  obtains s' where "slab_free slab (x + 8) s = (True, s')" "slab_inv s' slab"
    "free_slots s' slab = insert x (free_slots s slab)" "slots s' slab = slots s slab"
proof -
  let ?sl = "oc_hdr s slab"
  obtain xs where xs: "list_repr (oc_heap s) (sl_free ?sl) xs" "set xs \<subseteq> slots s slab" "length xs = sl_objcount ?sl"
    using assms(1) by (auto simp: slab_inv_def)
  note g = slot_geometry [OF assms(1), of x]
  have x: "x \<in> slots s slab" "x \<notin> set xs" using assms(2) free_slots_eq [OF xs(1)] by auto
  have inv: "slab \<noteq> 0" "PAGE_SIZE dvd slab" "0 < sl_objsize ?sl" using assms(1) by (auto simp: slab_inv_def)
  have page: "x div PAGE_SIZE = slab div PAGE_SIZE"
    using page_of(1) [OF inv(2), of x] g(1,2) x(1) inv(2,3) by (metis PAGE_SIZE_pos(2) add_leD1 dvd_div_mult_self
        less_add_same_cancel1 less_le_trans mult_cancel2)
  let ?h = "zero_words (oc_heap s) x (sl_objsize ?sl)"
  have "?h a = oc_heap s a" if "a \<in> set xs" for a
  proof -
    have "a \<in> slots s slab" "a \<noteq> x" using that xs(2) x by auto
    then show ?thesis using slots_apart [OF assms(1) x(1), of a] inv(3) by (auto simp: zero_words_def)
  qed
  then have r: "list_repr ?h (sl_free ?sl) xs" using xs(1) chain_cong [of xs ?h "oc_heap s"] by (simp add: list_repr_def)
  obtain h l where p: "list_push ?h (sl_free ?sl) x = (h, l)" by fastforce
  have "x \<noteq> 0" using g(1) x(1) inv(1) by simp
  then have r': "list_repr h l (xs @ [x])" using list_repr_push [OF r _ x(2) p] by simp
  define s' where "s' = s\<lparr>oc_heap := h,
    oc_hdr := (oc_hdr s)(slab := ?sl\<lparr>sl_free := l, sl_objcount := sl_objcount ?sl + 1\<rparr>)\<rparr>"
  have "slab_free slab (x + 8) s = (True, s')"
    using inv page g(3) x(1) assms(3) p by (simp add: slab_free_def s'_def Let_def)
  moreover have sl: "slots s' slab = slots s slab" by (simp add: slots_def s'_def)
  moreover have "free_slots s' slab = insert x (free_slots s slab)"
    using free_slots_eq [of s' slab "xs @ [x]"] free_slots_eq [OF xs(1)] r' by (simp add: s'_def)
  moreover have "slab_inv s' slab"
    using assms(1) r' xs x sl unfolding slab_inv_def by (auto simp: s'_def intro!: exI [of _ "xs @ [x]"])
  ultimately show thesis using that by blast
qed

subsection \<open>Properties\<close>

text \<open>
  C34: While the current slab of a cache has free objects, \<^verbatim>\<open>objcache_alloc\<close> returns one of them: the
  object was on the free list and is not any more, the whole object with its link word lies in
  its own slot of the slab's page, distinct slots do not overlap, and \<^verbatim>\<open>objcache_free\<close> of that object
  puts exactly this slot back.
\<close>

theorem objcache_alloc_free:
  assumes "slab_inv s slab" "oc_last_free oc = slab" "0 < sl_objcount (oc_hdr s slab)"
    "8 + oc_osize oc \<le> sl_objsize (oc_hdr s slab)" "0 < oc_osize oc" "sl_cache (oc_hdr s slab) = oc_addr"
  shows "\<exists>obj s' s''. objcache_alloc e cas oc_addr oc s = Some (obj, oc, s') \<and>
    obj - 8 \<in> free_slots s slab \<and> free_slots s' slab = free_slots s slab - {obj - 8} \<and> slab_inv s' slab \<and>
    slab + SLAB_HEADER_SIZE \<le> obj - 8 \<and> obj + oc_osize oc \<le> slab + PAGE_SIZE \<and>
    (\<forall>y \<in> slots s slab. y \<noteq> obj - 8 \<longrightarrow> obj + oc_osize oc \<le> y \<or> y + sl_objsize (oc_hdr s slab) \<le> obj - 8) \<and>
    objcache_free oc_addr obj s' = (True, s'') \<and> free_slots s'' slab = free_slots s slab \<and> slab_inv s'' slab"
proof -
  obtain obj s' where a: "slab_alloc slab s = (obj, s')" by fastforce
  from slab_alloc_spec [OF assms(1) a] assms(3) obtain x where
    x: "obj = x + 8" "x \<in> free_slots s slab" "free_slots s' slab = free_slots s slab - {x}"
    and s': "slab_inv s' slab" "slots s' slab = slots s slab" "oc_heap s' x = 0" "sl_cache (oc_hdr s' slab) = oc_addr"
    using assms(6) by auto
  have nz: "slab \<noteq> 0" "PAGE_SIZE dvd slab" using assms(1) by (simp_all add: slab_inv_def)
  have al: "objcache_alloc e cas oc_addr oc s = Some (obj, oc, s')"
    using a nz assms(2) by (simp add: objcache_alloc_def)
  have xs: "x \<in> slots s slab"
    using assms(1) x(2) free_slots_eq unfolding slab_inv_def by blast
  note g = slot_geometry [OF assms(1) xs] and ap = slots_apart [OF assms(1) xs]
  have sg: "slab_get obj = slab"
    using page_of(1) [OF nz(2), of obj] g(1,2) x(1) assms(4,5) by (simp add: slab_get_def)
  have xf: "x \<in> slots s' slab - free_slots s' slab" using xs x(3) s'(2) by simp
  obtain s'' where f: "slab_free slab (x + 8) s' = (True, s'')" "slab_inv s'' slab"
    "free_slots s'' slab = insert x (free_slots s' slab)" "slots s'' slab = slots s' slab"
    by (rule slab_free_spec [OF s'(1) xf s'(3)])
  have "objcache_free oc_addr obj s' = (True, s'')"
    using f(1) sg nz s'(4) x(1) by (simp add: objcache_free_def)
  moreover have "free_slots s'' slab = free_slots s slab" using f(3) x(2,3) by auto
  moreover have "\<forall>y \<in> slots s slab. y \<noteq> x \<longrightarrow> obj + oc_osize oc \<le> y \<or> y + sl_objsize (oc_hdr s slab) \<le> x"
    using ap x(1) assms(4) by fastforce
  moreover have "obj + oc_osize oc \<le> slab + PAGE_SIZE" using g(2) x(1) assms(4) by linarith
  ultimately show ?thesis using al x s'(1) f(2) g(1) by (intro exI [of _ obj] exI [of _ s'] exI [of _ s'']) simp
qed

definition oc_example :: oc_state where
  "oc_example = (let (h, l) = slab_fill (\<lambda>_. 0) (slab_objects 0x5000 0x20 126) in
     \<lparr>oc_mm = \<lparr>mm_mem = (\<lambda>_. 0), mm_pools = [], mm_tlb = []\<rparr>, oc_heap = h,
      oc_hdr = (\<lambda>_. \<lparr>sl_free = l, sl_objsize = 0x20, sl_objnum = 126, sl_objcount = 126, sl_cache = 0x100\<rparr>)\<rparr>)"

lemma oc_example_inv: "slab_inv oc_example 0x5000"
  using slab_fill_repr [of "0x20" "0x5000" "\<lambda>_. 0" 126]
  by (auto simp: oc_example_def slab_inv_def slots_def PAGE_SIZE_def SLAB_HEADER_SIZE_def slab_objects_def
      split: prod.splits intro!: exI [of _ "slab_objects 0x5000 0x20 126"])

theorem objcache_alloc_free_witness:
  "\<exists>e cas obj s'. objcache_alloc e cas 0x100
      \<lparr>oc_osize = 24, oc_slabs = list_init, oc_last_free = 0x5000, oc_section = 0\<rparr> oc_example =
      Some (obj, \<lparr>oc_osize = 24, oc_slabs = list_init, oc_last_free = 0x5000, oc_section = 0\<rparr>, s') \<and>
    obj - 8 \<in> free_slots oc_example 0x5000"
  using objcache_alloc_free [OF oc_example_inv,
      of "\<lparr>oc_osize = 24, oc_slabs = list_init, oc_last_free = 0x5000, oc_section = 0\<rparr>" "0x100"]
  by (fastforce simp: oc_example_def split: prod.splits)

text \<open>
  Once the slab named by \<^verbatim>\<open>last_free\<close> is exhausted the cache is stuck: \<^verbatim>\<open>objcache_alloc\<close> returns null
  and changes nothing, so that every further call does the same until an object of this very slab
  is freed; no second slab is ever created.
\<close>

theorem objcache_alloc_stuck:
  assumes "slab_inv s slab" "oc_last_free oc = slab" "sl_objcount (oc_hdr s slab) = 0"
  shows "objcache_alloc e cas oc_addr oc s = Some (0, oc, s)"
proof -
  obtain obj s' where a: "slab_alloc slab s = (obj, s')" by fastforce
  have "obj = 0 \<and> s' = s" using slab_alloc_spec [OF assms(1) a] assms(3) by simp
  then show ?thesis using a assms by (simp add: objcache_alloc_def slab_inv_def)
qed

definition oc_exhausted :: oc_state where
  "oc_exhausted = oc_example\<lparr>oc_hdr := (\<lambda>_. \<lparr>sl_free = list_init, sl_objsize = 0x20, sl_objnum = 126,
     sl_objcount = 0, sl_cache = 0x100\<rparr>)\<rparr>"

theorem objcache_alloc_stuck_witness:
  "\<exists>e cas. objcache_alloc e cas 0x100
      \<lparr>oc_osize = 24, oc_slabs = list_init, oc_last_free = 0x5000, oc_section = 0\<rparr> oc_exhausted =
    Some (0, \<lparr>oc_osize = 24, oc_slabs = list_init, oc_last_free = 0x5000, oc_section = 0\<rparr>, oc_exhausted)"
proof -
  have "slab_inv oc_exhausted 0x5000"
    by (simp add: slab_inv_def oc_exhausted_def PAGE_SIZE_def SLAB_HEADER_SIZE_def)
  then show ?thesis by (intro exI objcache_alloc_stuck) (simp_all add: oc_exhausted_def)
qed

end
