(* ===== verification/Config.thy ===== *)
theory Config
  imports Colors
begin

text \<open>
  The configuration of the system: \<^verbatim>\<open>core/inc/config.h\<close>, \<^verbatim>\<open>core/inc/platform.h\<close>, the region structures of
  \<^verbatim>\<open>core/inc/mem.h\<close> and \<^verbatim>\<open>core/inc/ipc.h\<close>, and \<^verbatim>\<open>core/config.c\<close>. The arrays the structures point to are lists;
  \<^verbatim>\<open>config_adjust_to_va\<close>, which relocates the pointers of a configuration blob, works on their
  addresses (\<open>0\<close> is a null pointer).
\<close>

record mem_region =
  mr_base :: nat
  mr_size :: nat
  mr_colors :: u64
  mr_place_phys :: bool
  mr_phys :: nat

record dev_region =
  dev_pa :: nat
  dev_va :: nat
  dev_size :: nat
  dev_interrupts :: "nat list"
  dev_id :: u32

record shmem =
  shm_size :: nat
  shm_colors :: u64
  shm_place_phys :: bool
  shm_phys :: nat
  shm_cpu_masters :: u64

record ipc =
  ipc_base :: nat
  ipc_size :: nat
  ipc_shmem_id :: nat
  ipc_interrupts :: "nat list"

record platform_desc =
  plat_cpu_num :: nat
  plat_regions :: "mem_region list"
  plat_ipcs :: "ipc list"
  plat_devs :: "dev_region list"
  plat_plic_base :: nat

record vm_config =
  img_base_addr :: nat
  img_load_addr :: nat
  img_size :: nat
  vc_entry :: u64
  vc_cpu_affinity :: u64
  vc_colors :: u64
  vc_platform :: platform_desc

record config =
  config_header_size :: nat
  config_size :: nat
  hyp_colors :: u64
  shmemlist :: "shmem list"
  vmlist :: "vm_config list"

subsection \<open>Relocation\<close>

record vm_ptrs =
  p_load_addr :: nat
  p_regions :: nat
  p_devs :: nat
  p_dev_interrupts :: "nat list"
  p_ipcs :: nat
  p_ipc_interrupts :: "nat list"

record config_ptrs =
  p_shmemlist :: nat
  p_vms :: "vm_ptrs list"

definition adjust_ptr :: "nat \<Rightarrow> nat \<Rightarrow> nat" where
  "adjust_ptr p off = (if p \<noteq> 0 then p + off else p)"

definition vm_adjust :: "nat \<Rightarrow> nat \<Rightarrow> vm_ptrs \<Rightarrow> vm_ptrs" where
  "vm_adjust va phys v =
     (let v = v\<lparr>p_load_addr := adjust_ptr (p_load_addr v) phys\<rparr>;
          v = v\<lparr>p_regions := adjust_ptr (p_regions v) va\<rparr>;
          v = v\<lparr>p_devs := adjust_ptr (p_devs v) va\<rparr>;
          v = (if p_devs v \<noteq> 0 then v\<lparr>p_dev_interrupts := map (\<lambda>p. adjust_ptr p va) (p_dev_interrupts v)\<rparr> else v);
          v = v\<lparr>p_ipcs := adjust_ptr (p_ipcs v) va\<rparr>
      in if p_ipcs v \<noteq> 0 then v\<lparr>p_ipc_interrupts := map (\<lambda>p. adjust_ptr p va) (p_ipc_interrupts v)\<rparr> else v)"

definition config_arch_adjust_to_va :: "config_ptrs \<Rightarrow> nat \<Rightarrow> config_ptrs" where
  "config_arch_adjust_to_va c phys = c"

definition config_adjust_to_va :: "nat \<Rightarrow> nat \<Rightarrow> config_ptrs \<Rightarrow> config_ptrs" where
  "config_adjust_to_va va phys c =
     (let c = c\<lparr>p_shmemlist := adjust_ptr (p_shmemlist c) va\<rparr>;
          c = c\<lparr>p_vms := map (vm_adjust va phys) (p_vms c)\<rparr>
      in config_arch_adjust_to_va c phys)"

definition config_is_builtin :: "nat \<Rightarrow> nat \<Rightarrow> bool" where
  "config_is_builtin config_start config_end \<longleftrightarrow> config_start \<noteq> config_end"

end
