(* ===== verification/Machine.thy ===== *)
theory Machine
  imports Bitmap Bits Config
begin

text \<open>
  What one CPU sees while it runs the hypervisor: the virtual CPUs of its VM with their saved
  registers (\<^verbatim>\<open>arch/riscv/inc/arch/vm.h\<close>, \<^verbatim>\<open>core/inc/vm.h\<close>), its control and status registers, the physical
  interrupt controller, the virtual interrupt controller of its VM and the messages it has sent.
  The environment \<open>hv_env\<close> holds what does not change while a handler runs: the number of the CPU, the
  VM and virtual CPU it runs, constants of the platform and the behaviour of the firmware.
\<close>

record cpu_msg =
  msg_handler :: nat
  msg_event :: nat
  msg_data :: u64

datatype hsm_state = STARTED | STOPPED | START_PENDING | STOP_PENDING

record sbi_hsm =
  hsm_state :: hsm_state
  hsm_start_addr :: u64
  hsm_priv :: u64

text \<open>The general registers are \<^verbatim>\<open>x[0]\<close> to \<^verbatim>\<open>x[30]\<close>, for the registers \<^verbatim>\<open>x1\<close> to \<^verbatim>\<open>x31\<close>.\<close>

record arch_regs =
  r_x :: "nat \<Rightarrow> u64"
  r_hstatus :: u64
  r_sstatus :: u64
  r_sepc :: u64

record vcpu =
  vc_regs :: arch_regs
  vc_hart_id :: nat
  vc_sbi_ctx :: sbi_hsm
  vc_id :: nat
  vc_phys_id :: nat
  vc_active :: bool

record csrs =
  c_sie :: u64
  c_sip :: u64
  c_hvip :: u64
  c_hie :: u64
  c_hcounteren :: u64
  c_htimedelta :: u64
  c_vsstatus :: u64
  c_vstvec :: u64
  c_vsscratch :: u64
  c_vsepc :: u64
  c_vscause :: u64
  c_vstval :: u64
  c_vsatp :: u64
  c_hgatp :: u64
  c_hideleg :: u64
  c_hedeleg :: u64

record plic =
  plic_impl :: int
  plic_prio :: "nat \<Rightarrow> u32"
  plic_pend :: "nat \<Rightarrow> u32"
  plic_enbl :: "nat \<Rightarrow> nat \<Rightarrow> u32"
  plic_threshold :: "nat \<Rightarrow> u32"
  plic_claim :: "nat \<Rightarrow> u32"
  plic_completed :: "(nat \<times> u32) list"

record vplic =
  vp_cntxt_num :: nat
  vp_mem :: "nat \<Rightarrow> u32"

record sbiret =
  sbi_error :: u64
  sbi_value :: u64

text \<open>A call to the firmware: extension, function and the six arguments.\<close>

record sbi_call =
  call_eid :: u64
  call_fid :: u64
  call_args :: "u64 list"

record hv =
  hv_vcpus :: "vcpu list"
  hv_csr :: csrs
  hv_plic :: plic
  hv_vplic :: vplic
  hv_msgs :: "(int \<times> cpu_msg) list"
  hv_ecalls :: "sbi_call list"

text \<open>
  \<open>e_cur\<close> is the index of the running virtual CPU in the VM's list. \<open>e_ecall\<close> is the firmware's answer to
  the last of a sequence of calls, \<open>e_warl\<close> the value a priority register of the interrupt controller
  holds after a write, \<open>e_junk\<close> the content of an uninitialised word on the stack. The three
  handler numbers are assigned by the linker's order of the handler section.
\<close>

record hv_env =
  e_cpu_id :: nat
  e_cur :: nat
  e_vm_id :: nat
  e_cpus :: u64
  e_cpu_num :: nat
  e_ipcs :: "ipc list"
  e_shmem :: "shmem list"
  e_plat_cpu_num :: nat
  e_cntxt_num :: nat
  e_plic_base :: nat
  e_plic_cntxt :: nat
  e_ecall :: "sbi_call list \<Rightarrow> sbiret"
  e_warl :: "nat \<Rightarrow> u32 \<Rightarrow> u32"
  e_junk :: u64
  e_sbi_msg_id :: nat
  e_vplic_ipi_id :: nat
  e_ipc_cpumsg_id :: nat

record emul_access =
  acc_addr :: nat
  acc_write :: bool
  acc_sign_ext :: bool
  acc_width :: nat
  acc_reg :: nat
  acc_reg_width :: nat

subsection \<open>Registers of the virtual CPU\<close>

definition REG_A0 :: nat where "REG_A0 = 10"
definition REG_A1 :: nat where "REG_A1 = 11"
definition REG_A2 :: nat where "REG_A2 = 12"
definition REG_A3 :: nat where "REG_A3 = 13"
definition REG_A4 :: nat where "REG_A4 = 14"
definition REG_A6 :: nat where "REG_A6 = 16"
definition REG_A7 :: nat where "REG_A7 = 17"

lemmas REG_defs = REG_A0_def REG_A1_def REG_A2_def REG_A3_def REG_A4_def REG_A6_def REG_A7_def

definition vcpu_readreg :: "vcpu \<Rightarrow> nat \<Rightarrow> u64" where
  "vcpu_readreg v reg = (if reg = 0 \<or> 31 < reg then 0 else r_x (vc_regs v) (reg - 1))"

definition vcpu_writereg :: "vcpu \<Rightarrow> nat \<Rightarrow> u64 \<Rightarrow> vcpu" where
  "vcpu_writereg v reg val =
     (if reg = 0 \<or> 31 < reg then v
      else v\<lparr>vc_regs := (vc_regs v)\<lparr>r_x := (r_x (vc_regs v))(reg - 1 := val)\<rparr>\<rparr>)"

definition vcpu_readpc :: "vcpu \<Rightarrow> u64" where
  "vcpu_readpc v = r_sepc (vc_regs v)"

definition vcpu_writepc :: "vcpu \<Rightarrow> u64 \<Rightarrow> vcpu" where
  "vcpu_writepc v pc = v\<lparr>vc_regs := (vc_regs v)\<lparr>r_sepc := pc\<rparr>\<rparr>"

text \<open>The running virtual CPU, \<^verbatim>\<open>cpu.vcpu\<close>.\<close>

definition cur_vcpu :: "hv_env \<Rightarrow> hv \<Rightarrow> vcpu" where
  "cur_vcpu e s = hv_vcpus s ! e_cur e"

definition upd_cur :: "hv_env \<Rightarrow> (vcpu \<Rightarrow> vcpu) \<Rightarrow> hv \<Rightarrow> hv" where
  "upd_cur e f s = s\<lparr>hv_vcpus := (hv_vcpus s)[e_cur e := f (cur_vcpu e s)]\<rparr>"

definition readreg :: "hv_env \<Rightarrow> hv \<Rightarrow> nat \<Rightarrow> u64" where
  "readreg e s reg = vcpu_readreg (cur_vcpu e s) reg"

definition writereg :: "hv_env \<Rightarrow> nat \<Rightarrow> u64 \<Rightarrow> hv \<Rightarrow> hv" where
  "writereg e reg val s = upd_cur e (\<lambda>v. vcpu_writereg v reg val) s"

definition send_msg :: "int \<Rightarrow> cpu_msg \<Rightarrow> hv \<Rightarrow> hv" where
  "send_msg target m s = s\<lparr>hv_msgs := hv_msgs s @ [(target, m)]\<rparr>"

definition upd_csr :: "(csrs \<Rightarrow> csrs) \<Rightarrow> hv \<Rightarrow> hv" where
  "upd_csr f s = s\<lparr>hv_csr := f (hv_csr s)\<rparr>"

subsection \<open>Bits of the control and status registers\<close>

definition SIE_SSIE :: u64 where "SIE_SSIE = push_bit 1 1"
definition SIE_STIE :: u64 where "SIE_STIE = push_bit 5 1"
definition SIE_SEIE :: u64 where "SIE_SEIE = push_bit 9 1"
definition HIP_VSSIP :: u64 where "HIP_VSSIP = push_bit 2 1"
definition HIP_VSTIP :: u64 where "HIP_VSTIP = push_bit 6 1"
definition HIP_VSEIP :: u64 where "HIP_VSEIP = push_bit 10 1"
definition HSTATUS_SPV :: u64 where "HSTATUS_SPV = push_bit 7 1"
definition HSTATUS_VSXL_64 :: u64 where "HSTATUS_VSXL_64 = push_bit 32 2"
definition SSTATUS_SPP_BIT :: u64 where "SSTATUS_SPP_BIT = push_bit 8 1"
definition SSTATUS_FS_DIRTY :: u64 where "SSTATUS_FS_DIRTY = push_bit 13 3"
definition SSTATUS_XS_DIRTY :: u64 where "SSTATUS_XS_DIRTY = push_bit 15 3"
definition SSTATUS_SD :: u64 where "SSTATUS_SD = push_bit 63 1"
definition HEDELEG_bits :: u64 where
  "HEDELEG_bits = push_bit 8 1 OR push_bit 12 1 OR push_bit 13 1 OR push_bit 15 1"
definition SATP_MODE_39 :: u64 where "SATP_MODE_39 = push_bit 60 8"
definition HGATP_VMID_OFF :: nat where "HGATP_VMID_OFF = 44"
definition HGATP_VMID_MSK :: u64 where "HGATP_VMID_MSK = BIT_MASK 44 14"

text \<open>\<^verbatim>\<open>CSRS\<close> and \<^verbatim>\<open>CSRC\<close> on \<^verbatim>\<open>hvip\<close>, \<^verbatim>\<open>sie\<close> and \<^verbatim>\<open>sip\<close>.\<close>

definition hvip_set :: "u64 \<Rightarrow> hv \<Rightarrow> hv" where
  "hvip_set m s = upd_csr (\<lambda>c. c\<lparr>c_hvip := c_hvip c OR m\<rparr>) s"

definition hvip_clear :: "u64 \<Rightarrow> hv \<Rightarrow> hv" where
  "hvip_clear m s = upd_csr (\<lambda>c. c\<lparr>c_hvip := c_hvip c AND NOT m\<rparr>) s"

definition sie_set :: "u64 \<Rightarrow> hv \<Rightarrow> hv" where
  "sie_set m s = upd_csr (\<lambda>c. c\<lparr>c_sie := c_sie c OR m\<rparr>) s"

definition sie_clear :: "u64 \<Rightarrow> hv \<Rightarrow> hv" where
  "sie_clear m s = upd_csr (\<lambda>c. c\<lparr>c_sie := c_sie c AND NOT m\<rparr>) s"

definition sip_clear :: "u64 \<Rightarrow> hv \<Rightarrow> hv" where
  "sip_clear m s = upd_csr (\<lambda>c. c\<lparr>c_sip := c_sip c AND NOT m\<rparr>) s"

subsection \<open>Creation and reset of a virtual CPU\<close>

definition vcpu_arch_init :: "vcpu \<Rightarrow> vcpu" where
  "vcpu_arch_init v = v\<lparr>vc_sbi_ctx := (vc_sbi_ctx v)\<lparr>hsm_state := (if vc_id v = 0 then STARTED else STOPPED)\<rparr>\<rparr>"

definition vcpu_arch_reset :: "vcpu \<Rightarrow> u64 \<Rightarrow> csrs \<Rightarrow> vcpu \<times> csrs" where
  "vcpu_arch_reset v entry c =
     (let regs = \<lparr>r_x = (\<lambda>_. 0), r_hstatus = 0, r_sstatus = 0, r_sepc = 0\<rparr>;
          regs = regs\<lparr>r_hstatus := HSTATUS_SPV OR HSTATUS_VSXL_64\<rparr>;
          regs = regs\<lparr>r_sstatus := SSTATUS_SPP_BIT OR SSTATUS_FS_DIRTY OR SSTATUS_XS_DIRTY\<rparr>;
          regs = regs\<lparr>r_sepc := entry\<rparr>;
          v = v\<lparr>vc_hart_id := vc_id v\<rparr>;
          regs = regs\<lparr>r_x := (r_x regs)(REG_A0 - 1 := of_nat (vc_id v))\<rparr>;
          regs = regs\<lparr>r_x := (r_x regs)(REG_A1 - 1 := 0)\<rparr>;
          c = c\<lparr>c_hcounteren := 0x7, c_htimedelta := 0,
                c_vsstatus := SSTATUS_SD OR SSTATUS_FS_DIRTY OR SSTATUS_XS_DIRTY,
                c_hie := 0, c_vstvec := 0, c_vsscratch := 0, c_vsepc := 0, c_vscause := 0, c_vstval := 0,
                c_hvip := 0, c_vsatp := 0\<rparr>
      in (v\<lparr>vc_regs := regs\<rparr>, c))"

text \<open>\<^verbatim>\<open>vcpu_run\<close> with \<^verbatim>\<open>vcpu_arch_run\<close>: enter the guest, or wait for a message.\<close>

datatype run_result = ENTER_GUEST | CPU_IDLE

definition vcpu_arch_run :: "vcpu \<Rightarrow> run_result" where
  "vcpu_arch_run v = (if hsm_state (vc_sbi_ctx v) = STARTED then ENTER_GUEST else CPU_IDLE)"

definition vcpu_run :: "hv_env \<Rightarrow> hv \<Rightarrow> run_result \<times> hv" where
  "vcpu_run e s =
     (let s = upd_cur e (\<lambda>v. v\<lparr>vc_active := True\<rparr>) s in (vcpu_arch_run (cur_vcpu e s), s))"

definition vmm_arch_init :: "csrs \<Rightarrow> csrs" where
  "vmm_arch_init c = c\<lparr>c_hideleg := HIP_VSSIP OR HIP_VSTIP OR HIP_VSEIP, c_hedeleg := HEDELEG_bits\<rparr>"

text \<open>\<^verbatim>\<open>vm_get_vcpu\<close> returns the first virtual CPU of the list with the given number.\<close>

fun get_vcpu_loop :: "vcpu list \<Rightarrow> nat \<Rightarrow> nat \<Rightarrow> nat option" where
  "get_vcpu_loop [] vcpuid i = None"
| "get_vcpu_loop (v # vs) vcpuid i = (if vc_id v = vcpuid then Some i else get_vcpu_loop vs vcpuid (i + 1))"

definition vm_get_vcpu :: "hv \<Rightarrow> nat \<Rightarrow> nat option" where
  "vm_get_vcpu s vcpuid = get_vcpu_loop (hv_vcpus s) vcpuid 0"

lemma get_vcpu_loop_iff:
  "get_vcpu_loop vs k i = Some j \<longleftrightarrow>
     i \<le> j \<and> j - i < length vs \<and> vc_id (vs ! (j - i)) = k \<and> (\<forall>m < j - i. vc_id (vs ! m) \<noteq> k)"
proof (induction vs arbitrary: i)
  case (Cons v vs)
  have "i \<le> j \<Longrightarrow> j \<noteq> i \<Longrightarrow> j - i = Suc (j - (i + 1))" by simp
  then show ?case using Cons
    by (auto simp: nth_Cons' less_Suc_eq_0_disj split: if_splits)
qed simp

lemma get_vcpu_loop_None: "get_vcpu_loop vs k i = None \<longleftrightarrow> (\<forall>v \<in> set vs. vc_id v \<noteq> k)"
  by (induction vs arbitrary: i) auto

lemma vm_get_vcpu_distinct:
  assumes "distinct (map vc_id (hv_vcpus s))" "j < length (hv_vcpus s)"
  shows "vm_get_vcpu s (vc_id (hv_vcpus s ! j)) = Some j"
proof -
  have "vc_id (hv_vcpus s ! m) \<noteq> vc_id (hv_vcpus s ! j)" if "m < j" for m
    using nth_eq_iff_index_eq [OF assms(1), of m j] that assms(2) by simp
  then show ?thesis using assms(2) by (simp add: vm_get_vcpu_def get_vcpu_loop_iff)
qed

lemma vm_get_vcpu_bound: "vm_get_vcpu s k = Some j \<Longrightarrow> j < length (hv_vcpus s) \<and> vc_id (hv_vcpus s ! j) = k"
  by (simp add: vm_get_vcpu_def get_vcpu_loop_iff)

lemma readreg_writereg:
  "e_cur e < length (hv_vcpus s) \<Longrightarrow> 0 < r \<Longrightarrow> r \<le> 31 \<Longrightarrow> 0 < q \<Longrightarrow> q \<le> 31 \<Longrightarrow>
   readreg e (writereg e r val s) q = (if q = r then val else readreg e s q)"
  by (auto simp: readreg_def writereg_def upd_cur_def cur_vcpu_def vcpu_readreg_def vcpu_writereg_def)

end
