(* ===== verification/Cpu_Msg.thy ===== *)
theory Cpu_Msg
  imports Objcache Machine
begin

text \<open>
  Messages between CPUs, \<^verbatim>\<open>core/cpu.c\<close>: a message is copied into a node from an object cache, the node is
  put on the target's event list and the target gets an inter-processor interrupt; the target takes
  the nodes off its list and frees them. The abstract view is one queue of messages per CPU.
\<close>

record msg_state =
  ms_oc :: oc_state
  ms_cache :: objcache
  ms_events :: "nat \<Rightarrow> list_t"
  ms_node :: "addr \<Rightarrow> cpu_msg"
  ms_ipis :: "nat list"

text \<open>The address of the cache \<^verbatim>\<open>msg_cache\<close> is a constant of the image.\<close>

definition cpu_send_msg ::
  "mem_env \<Rightarrow> addr_space \<Rightarrow> nat \<Rightarrow> nat \<Rightarrow> cpu_msg \<Rightarrow> msg_state \<Rightarrow> msg_state option" where
  "cpu_send_msg e cas msg_cache trgtcpu msg s =
     do { (node, oc, st) \<leftarrow> objcache_alloc e cas msg_cache (ms_cache s) (ms_oc s);
          if node = 0 then None
          else
            let (h, l) = list_push (oc_heap st) (ms_events s trgtcpu) node
            in Some (s\<lparr>ms_oc := st\<lparr>oc_heap := h\<rparr>, ms_cache := oc,
                       ms_events := (ms_events s)(trgtcpu := l),
                       ms_node := (ms_node s)(node := msg), ms_ipis := ms_ipis s @ [trgtcpu]\<rparr>) }"

definition cpu_get_msg :: "nat \<Rightarrow> nat \<Rightarrow> msg_state \<Rightarrow> cpu_msg option \<times> msg_state" where
  "cpu_get_msg msg_cache cpu_id s =
     (let (node, h, l) = list_pop (oc_heap (ms_oc s)) (ms_events s cpu_id) in
      if node \<noteq> 0 then
        let st = snd (objcache_free msg_cache node ((ms_oc s)\<lparr>oc_heap := h\<rparr>))
        in (Some (ms_node s node), s\<lparr>ms_oc := st, ms_events := (ms_events s)(cpu_id := l)\<rparr>)
      else (None, s\<lparr>ms_oc := (ms_oc s)\<lparr>oc_heap := h\<rparr>, ms_events := (ms_events s)(cpu_id := l)\<rparr>))"

text \<open>
  The loop of \<^verbatim>\<open>cpu_msg_handler\<close>. A handler is a function of the event number and the data that changes
  the message state (it may send messages) and the rest of the system; it may not return.
\<close>

type_synonym 's cpu_handler = "nat \<Rightarrow> u64 \<Rightarrow> msg_state \<times> 's \<Rightarrow> (msg_state \<times> 's) option"

partial_function (option) cpu_msg_handler ::
  "nat \<Rightarrow> nat \<Rightarrow> 's cpu_handler option list \<Rightarrow> msg_state \<times> 's \<Rightarrow> (msg_state \<times> 's) option" where
  "cpu_msg_handler msg_cache cpu_id handlers sx =
     (case cpu_get_msg msg_cache cpu_id (fst sx) of
        (None, s) \<Rightarrow> Some (s, snd sx)
      | (Some m, s) \<Rightarrow>
          (case (if msg_handler m < length handlers then handlers ! msg_handler m else None) of
             None \<Rightarrow> cpu_msg_handler msg_cache cpu_id handlers (s, snd sx)
           | Some f \<Rightarrow> Option.bind (f (msg_event m) (msg_data m) (s, snd sx))
                        (cpu_msg_handler msg_cache cpu_id handlers)))"

subsection \<open>What the object cache leaves alone\<close>

lemma slab_alloc_heap:
  "slab_alloc slab s = (obj, s') \<Longrightarrow> obj \<noteq> 0 \<Longrightarrow> a \<noteq> obj - 8 \<Longrightarrow> oc_heap s' a = oc_heap s a"
proof -
  assume a: "slab_alloc slab s = (obj, s')" "obj \<noteq> 0" "a \<noteq> obj - 8"
  obtain x h l where p: "list_pop (oc_heap s) (sl_free (oc_hdr s slab)) = (x, h, l)" by (metis prod_cases3)
  have "obj = x + 8" "oc_heap s' = h(x := 0)" "x = head (sl_free (oc_hdr s slab))"
    using a p by (auto simp: slab_alloc_def Let_def list_pop_def split: if_splits)
  then show ?thesis using list_pop_frame [OF p] a(3) by simp
qed

lemma slab_free_heap:
  assumes "slab_free slab (x + 8) s = (True, s')" "a < x \<or> x + sl_objsize (oc_hdr s slab) \<le> a"
    "a \<noteq> x" "a \<noteq> tail (sl_free (oc_hdr s slab))"
  shows "oc_heap s' a = oc_heap s a"
proof -
  let ?h = "zero_words (oc_heap s) x (sl_objsize (oc_hdr s slab))"
  obtain h l where p: "list_push ?h (sl_free (oc_hdr s slab)) x = (h, l)" by fastforce
  have "oc_heap s' = h" using assms(1) p by (auto simp: slab_free_def Let_def split: if_splits)
  then show ?thesis using list_push_frame [OF p assms(3,4)] assms(2) by (auto simp: zero_words_def)
qed

subsection \<open>The invariant\<close>

text \<open>
  The event lists hold disjoint sequences of nodes; each node is the payload of a slot of the current
  slab that is not free.
\<close>

definition node_ok :: "oc_state \<Rightarrow> nat \<Rightarrow> addr \<Rightarrow> bool" where
  "node_ok st slab x \<longleftrightarrow> 8 < x \<and> x - 8 \<in> slots st slab - free_slots st slab \<and> oc_heap st (x - 8) = 0"

definition msg_inv :: "nat \<Rightarrow> nat \<Rightarrow> (nat \<Rightarrow> addr list) \<Rightarrow> msg_state \<Rightarrow> bool" where
  "msg_inv msg_cache n nodes s \<longleftrightarrow>
     (let st = ms_oc s; slab = oc_last_free (ms_cache s) in
      slab_inv st slab \<and> sl_cache (oc_hdr st slab) = msg_cache \<and> 8 < sl_objsize (oc_hdr st slab) \<and>
      8 dvd sl_objsize (oc_hdr st slab) \<and>
      (\<forall>c < n. list_repr (oc_heap st) (ms_events s c) (nodes c)) \<and>
      (\<forall>c < n. \<forall>x \<in> set (nodes c). node_ok st slab x) \<and>
      (\<forall>c < n. \<forall>d < n. c \<noteq> d \<longrightarrow> set (nodes c) \<inter> set (nodes d) = {}))"

text \<open>The queue of messages of a CPU.\<close>

definition queue :: "(nat \<Rightarrow> addr list) \<Rightarrow> msg_state \<Rightarrow> nat \<Rightarrow> cpu_msg list" where
  "queue nodes s c = map (ms_node s) (nodes c)"

lemma payload_not_slot:
  assumes "slab_inv st slab" "8 < sl_objsize (oc_hdr st slab)" "x \<in> slots st slab" "y \<in> slots st slab"
  shows "x + 8 \<noteq> y"
  using slots_apart [OF assms(1,3,4)] assms(2) by (cases "x = y") auto

lemma list_repr_heap_cong:
  "list_repr h l xs \<Longrightarrow> \<forall>a \<in> set xs. h' a = h a \<Longrightarrow> list_repr h' l xs"
  using chain_cong [of xs h' h] by (simp add: list_repr_def)

lemma free_slots_sub: "slab_inv st slab \<Longrightarrow> free_slots st slab \<subseteq> slots st slab"
  unfolding slab_inv_def using free_slots_eq by blast

lemma free_tail:
  assumes "slab_inv st slab"
  shows "tail (sl_free (oc_hdr st slab)) = 0 \<or> tail (sl_free (oc_hdr st slab)) \<in> free_slots st slab"
proof -
  obtain xs where xs: "list_repr (oc_heap st) (sl_free (oc_hdr st slab)) xs"
    using assms by (auto simp: slab_inv_def)
  then have "tail (sl_free (oc_hdr st slab)) = (if xs = [] then 0 else last xs)" by (simp add: list_repr_def)
  then show ?thesis using free_slots_eq [OF xs] last_in_set by auto
qed

lemma slab_heap_cong:
  assumes "slab_inv st slab" "\<forall>a \<in> slots st slab. h a = oc_heap st a"
  shows "slab_inv (st\<lparr>oc_heap := h\<rparr>) slab" "free_slots (st\<lparr>oc_heap := h\<rparr>) slab = free_slots st slab"
    "slots (st\<lparr>oc_heap := h\<rparr>) slab = slots st slab"
proof -
  obtain xs where xs: "list_repr (oc_heap st) (sl_free (oc_hdr st slab)) xs" "set xs \<subseteq> slots st slab"
    "length xs = sl_objcount (oc_hdr st slab)" using assms(1) by (auto simp: slab_inv_def)
  have r: "list_repr h (sl_free (oc_hdr st slab)) xs" using list_repr_heap_cong [OF xs(1)] xs(2) assms(2) by blast
  show sl: "slots (st\<lparr>oc_heap := h\<rparr>) slab = slots st slab" by (simp add: slots_def)
  show "slab_inv (st\<lparr>oc_heap := h\<rparr>) slab" using assms(1) r xs(2,3) sl unfolding slab_inv_def by auto
  show "free_slots (st\<lparr>oc_heap := h\<rparr>) slab = free_slots st slab"
    using free_slots_eq [OF xs(1)] free_slots_eq [of "st\<lparr>oc_heap := h\<rparr>" slab xs] r by simp
qed

lemma slab_alloc_hdr:
  "slab_alloc slab s = (obj, s') \<Longrightarrow> sl_objsize (oc_hdr s' slab) = sl_objsize (oc_hdr s slab)"
  by (auto simp: slab_alloc_def Let_def split: if_splits prod.splits)

lemma slab_free_hdr:
  "slab_free slab obj s = (r, s') \<Longrightarrow> sl_objsize (oc_hdr s' slab) = sl_objsize (oc_hdr s slab) \<and>
     sl_cache (oc_hdr s' slab) = sl_cache (oc_hdr s slab)"
  by (auto simp: slab_free_def Let_def split: if_splits prod.splits)

lemma repr_tail: "list_repr h l xs \<Longrightarrow> tail l = 0 \<or> tail l \<in> set xs"
  by (cases "xs = []") (auto simp: list_repr_def)

lemma send_msg_inv:
  assumes "msg_inv mc n nodes s" "c < n" "0 < sl_objcount (oc_hdr (ms_oc s) (oc_last_free (ms_cache s)))"
  obtains x s' where "cpu_send_msg e cas mc c msg s = Some s'" "msg_inv mc n (nodes(c := nodes c @ [x])) s'"
    "ms_node s' = (ms_node s)(x := msg)" "\<forall>d < n. x \<notin> set (nodes d)" "ms_ipis s' = ms_ipis s @ [c]"
proof -
  define st where "st = ms_oc s"
  define slab where "slab = oc_last_free (ms_cache s)"
  have inv: "slab_inv st slab" "sl_cache (oc_hdr st slab) = mc" "8 < sl_objsize (oc_hdr st slab)"
      "8 dvd sl_objsize (oc_hdr st slab)" "\<forall>c < n. list_repr (oc_heap st) (ms_events s c) (nodes c)"
      "\<forall>c < n. \<forall>x \<in> set (nodes c). node_ok st slab x"
      "\<forall>c < n. \<forall>d < n. c \<noteq> d \<longrightarrow> set (nodes c) \<inter> set (nodes d) = {}"
    using assms(1) by (simp_all add: msg_inv_def st_def slab_def Let_def)
  obtain obj st1 where al: "slab_alloc slab st = (obj, st1)" by fastforce
  obtain y where y: "obj = y + 8" "y \<in> free_slots st slab" "free_slots st1 slab = free_slots st slab - {y}"
    and st1: "slab_inv st1 slab" "slots st1 slab = slots st slab" "oc_heap st1 y = 0" "sl_cache (oc_hdr st1 slab) = mc"
    using slab_alloc_spec [OF inv(1) al] assms(3) inv(2) by (auto simp: st_def slab_def)
  have ys: "y \<in> slots st slab" using y(2) free_slots_sub [OF inv(1)] by blast
  have sz: "sl_objsize (oc_hdr st1 slab) = sl_objsize (oc_hdr st slab)" using slab_alloc_hdr [OF al] .
  have h1: "oc_heap st1 a = oc_heap st a" if "a \<noteq> y" for a using slab_alloc_heap [OF al] y(1) that by simp
  have ns: "z \<noteq> w" if "z = v + 8" "v \<in> slots st slab" "w \<in> slots st slab" for z v w
    using payload_not_slot [OF inv(1,3)] that by metis
  have node_slot: "x - 8 \<in> slots st slab" "x = (x - 8) + 8" "x - 8 \<notin> free_slots st slab" "x - 8 \<noteq> y" "x \<noteq> y" "x \<noteq> obj"
    if "d < n" "x \<in> set (nodes d)" for d x
  proof -
    have ok: "node_ok st slab x" using inv(6) that by blast
    then show *: "x - 8 \<in> slots st slab" "x = (x - 8) + 8" "x - 8 \<notin> free_slots st slab" by (auto simp: node_ok_def)
    show xy: "x - 8 \<noteq> y" using *(3) y(2) by blast
    show "x \<noteq> y" using ns [OF *(2,1) ys] .
    show "x \<noteq> obj" using xy y(1) by auto
  qed
  have r1: "list_repr (oc_heap st1) (ms_events s d) (nodes d)" if "d < n" for d
    using list_repr_heap_cong [of "oc_heap st" "ms_events s d" "nodes d" "oc_heap st1"] inv(5) node_slot(5) h1 that by blast
  obtain h l where p: "list_push (oc_heap st1) (ms_events s c) obj = (h, l)" by fastforce
  have fresh: "obj \<notin> set (nodes d)" if "d < n" for d using node_slot(6) that by blast
  have obj: "obj \<noteq> 0" using y(1) by simp
  have rc: "list_repr h l (nodes c @ [obj])" using list_repr_push [OF r1 obj fresh p] assms(2) by simp
  have h2: "h a = oc_heap st1 a" if "a \<noteq> obj" "a \<notin> set (nodes c)" "a \<noteq> 0" for a
    using list_push_frame [OF p that(1)] repr_tail [OF r1 [OF assms(2)]] that by metis
  have slot_nz: "w \<noteq> 0" if "w \<in> slots st slab" for w
    using slot_geometry(1) [OF inv(1) that] inv(1) by (simp add: slab_inv_def)
  have slot_node: "w \<noteq> obj \<and> w \<notin> set (nodes c)" if "w \<in> slots st slab" for w
    using ns [OF y(1) ys that] ns [OF node_slot(2) node_slot(1) that] assms(2) by metis
  have hs: "\<forall>w \<in> slots st1 slab. h w = oc_heap st1 w"
    using h2 slot_node slot_nz st1(2) by simp
  let ?st2 = "st1\<lparr>oc_heap := h\<rparr>"
  note sc = slab_heap_cong [OF st1(1) hs]
  define s' where "s' = s\<lparr>ms_oc := ?st2, ms_events := (ms_events s)(c := l),
      ms_node := (ms_node s)(obj := msg), ms_ipis := ms_ipis s @ [c]\<rparr>"
  have "slab \<noteq> 0" using inv(1) by (simp add: slab_inv_def)
  then have send: "cpu_send_msg e cas mc c msg s = Some s'"
    using al p obj by (simp add: cpu_send_msg_def objcache_alloc_def st_def slab_def s'_def)
  have rd: "list_repr h (ms_events s d) (nodes d)" if "d < n" "d \<noteq> c" for d
  proof (rule list_repr_heap_cong [OF r1 [OF that(1)]], intro ballI)
    fix x assume x: "x \<in> set (nodes d)"
    then have "x \<notin> set (nodes c)" using inv(7) that assms(2) by blast
    then show "h x = oc_heap st1 x" using h2 [of x] node_slot(6) [OF that(1) x] node_slot(2) [OF that(1) x] by auto
  qed
  have ok_old: "node_ok ?st2 slab x" if "d < n" "x \<in> set (nodes d)" for d x
  proof -
    note nd = node_slot [OF that]
    have "oc_heap st (x - 8) = 0" "8 < x" using inv(6) that by (auto simp: node_ok_def)
    moreover have "h (x - 8) = oc_heap st1 (x - 8)" using hs nd(1) st1(2) by blast
    ultimately show ?thesis using nd h1 y(3) st1(2) sc(2,3) by (simp add: node_ok_def)
  qed
  have ok_new: "node_ok ?st2 slab obj"
    using y ys st1(2,3) sc(2,3) hs slot_nz [OF ys] by (simp add: node_ok_def)
  have "msg_inv mc n (nodes(c := nodes c @ [obj])) s'"
    using sc(1) st1(4) sz inv(3,4) rc rd ok_old ok_new fresh inv(7) assms(2)
    unfolding msg_inv_def Let_def by (auto simp: s'_def slab_def [symmetric])
  then show thesis using that send fresh by (auto simp: s'_def)
qed

lemma get_msg_empty:
  assumes "msg_inv mc n nodes s" "c < n" "nodes c = []"
  shows "cpu_get_msg mc c s = (None, s)"
proof -
  have "head (ms_events s c) = 0" using assms by (auto simp: msg_inv_def Let_def list_repr_def)
  then show ?thesis by (simp add: cpu_get_msg_def list_pop_def)
qed

lemma slab_get_slot:
  assumes "slab_inv st slab" "8 < sl_objsize (oc_hdr st slab)" "y \<in> slots st slab"
  shows "slab_get (y + 8) = slab"
proof -
  obtain k where k: "slab = PAGE_SIZE * k" using assms(1) by (auto simp: slab_inv_def)
  have "slab \<le> y + 8" "y + 8 < slab + PAGE_SIZE" using slot_geometry(1,2) [OF assms(1,3)] assms(2) by linarith+
  then have "(y + 8) div PAGE_SIZE = k" using k by (intro div_nat_eqI) (simp_all add: mult.commute)
  then show ?thesis using k by (simp add: slab_get_def mult.commute)
qed

lemma get_msg_inv:
  assumes "msg_inv mc n nodes s" "c < n" "nodes c = x # xs"
  obtains s' where "cpu_get_msg mc c s = (Some (ms_node s x), s')" "msg_inv mc n (nodes(c := xs)) s'"
    "ms_node s' = ms_node s" "ms_ipis s' = ms_ipis s" "ms_cache s' = ms_cache s"
proof -
  define st where "st = ms_oc s"
  define slab where "slab = oc_last_free (ms_cache s)"
  have inv: "slab_inv st slab" "sl_cache (oc_hdr st slab) = mc" "8 < sl_objsize (oc_hdr st slab)"
      "8 dvd sl_objsize (oc_hdr st slab)" "\<forall>c < n. list_repr (oc_heap st) (ms_events s c) (nodes c)"
      "\<forall>c < n. \<forall>x \<in> set (nodes c). node_ok st slab x"
      "\<forall>c < n. \<forall>d < n. c \<noteq> d \<longrightarrow> set (nodes c) \<inter> set (nodes d) = {}"
    using assms(1) by (simp_all add: msg_inv_def st_def slab_def Let_def)
  have rc: "list_repr (oc_heap st) (ms_events s c) (x # xs)" using inv(5) assms(2,3) by metis
  obtain x' h l where p': "list_pop (oc_heap st) (ms_events s c) = (x', h, l)" by (metis prod_cases3)
  then have p: "list_pop (oc_heap st) (ms_events s c) = (x, h, l)" and rh: "list_repr h l xs"
    using list_repr_pop [OF rc p'] by simp_all
  have hx: "head (ms_events s c) = x" "x \<noteq> 0" "x \<notin> set xs" using rc by (auto simp: list_repr_def)
  have hh: "h a = oc_heap st a" if "a \<noteq> x" for a using list_pop_frame [OF p] hx(1) that by simp
  define y where "y = x - 8"
  have y: "x = y + 8" "y \<in> slots st slab" "y \<notin> free_slots st slab" "oc_heap st y = 0"
    using inv(6) assms(2,3) by (auto simp: node_ok_def y_def)
  note apart = slots_apart [OF inv(1)]
  have hs: "\<forall>w \<in> slots st slab. h w = oc_heap st w"
    using hh payload_not_slot [OF inv(1,3) y(2)] y(1) by metis
  let ?st = "st\<lparr>oc_heap := h\<rparr>"
  note sc = slab_heap_cong [OF inv(1) hs]
  have "y \<in> slots ?st slab - free_slots ?st slab" "oc_heap ?st y = 0" using y sc hs by auto
  then obtain st2 where f: "slab_free slab (y + 8) ?st = (True, st2)" "slab_inv st2 slab"
    "free_slots st2 slab = insert y (free_slots st slab)" "slots st2 slab = slots st slab"
    using slab_free_spec [OF sc(1), of y] sc(2,3) by metis
  have hdr: "sl_objsize (oc_hdr st2 slab) = sl_objsize (oc_hdr st slab)" "sl_cache (oc_hdr st2 slab) = mc"
    using slab_free_hdr [OF f(1)] inv(2) by simp_all
  have "slab \<noteq> 0" using inv(1) by (simp add: slab_inv_def)
  moreover have "slab_get x = slab" using slab_get_slot [OF inv(1,3) y(2)] y(1) by simp
  ultimately have "objcache_free mc x ?st = (True, st2)"
    using f(1) inv(2) y(1) by (simp add: objcache_free_def)
  then have get: "cpu_get_msg mc c s = (Some (ms_node s x), s\<lparr>ms_oc := st2, ms_events := (ms_events s)(c := l)\<rparr>)"
    using p hx(2) by (simp add: cpu_get_msg_def st_def)
  have tl: "tail (sl_free (oc_hdr st slab)) = 0 \<or> tail (sl_free (oc_hdr st slab)) \<in> free_slots st slab"
    by (rule free_tail [OF inv(1)])
  have free_heap: "oc_heap st2 a = oc_heap st a"
    if "a < y \<or> y + sl_objsize (oc_hdr st slab) \<le> a" "a \<noteq> tail (sl_free (oc_hdr st slab))" for a
  proof -
    have "a \<noteq> x" "a \<noteq> y" using that(1) y(1) inv(3) by auto
    then show ?thesis using slab_free_heap [OF f(1), of a] that hh by simp
  qed
  have node: "oc_heap st2 z = oc_heap st z" "node_ok st2 slab z" if "d < n" "z \<in> set (nodes d)" "z \<noteq> x" for d z
  proof -
    have ok: "node_ok st slab z" using inv(6) that by blast
    define w where "w = z - 8"
    have w: "z = w + 8" "w \<in> slots st slab" "w \<notin> free_slots st slab" "oc_heap st w = 0" "w \<noteq> y" "8 < z"
      using ok y(1) that(3) by (auto simp: node_ok_def w_def)
    have ap: "w + sl_objsize (oc_hdr st slab) \<le> y \<or> y + sl_objsize (oc_hdr st slab) \<le> w"
      using apart [OF w(2) y(2) w(5)] .
    have tz: "z \<noteq> tail (sl_free (oc_hdr st slab))"
      using tl payload_not_slot [OF inv(1,3) w(2)] free_slots_sub [OF inv(1)] w(1,6) by (metis not_less0 subsetD)
    have wt: "w \<noteq> tail (sl_free (oc_hdr st slab))" using tl w(3,6) w(1) by auto
    show "oc_heap st2 z = oc_heap st z" using free_heap [of z] tz ap w(1) inv(3) by linarith
    have "oc_heap st2 w = 0" using free_heap [of w] wt ap w(4) inv(3) by linarith
    then show "node_ok st2 slab z" using w f(3,4) by (simp add: node_ok_def)
  qed
  have other: "z \<noteq> x" if "d < n" "d \<noteq> c" "z \<in> set (nodes d)" for d z
    using inv(7) assms(2,3) that by fastforce
  have rd: "list_repr (oc_heap st2) (ms_events s d) (nodes d)" if "d < n" "d \<noteq> c" for d
    using list_repr_heap_cong [of "oc_heap st" "ms_events s d" "nodes d" "oc_heap st2"] inv(5) node(1) other that by blast
  have same: "\<forall>a \<in> set xs. oc_heap st2 a = h a"
    using node(1) [OF assms(2)] hh hx(3) assms(3) by (metis list.set_intros(2))
  have rc2: "list_repr (oc_heap st2) l xs" by (rule list_repr_heap_cong [OF rh same])
  have okc: "node_ok st2 slab z" if "z \<in> set xs" for z
    using node(2) [OF assms(2)] hx(3) that assms(3) by (metis list.set_intros(2))
  let ?s = "s\<lparr>ms_oc := st2, ms_events := (ms_events s)(c := l)\<rparr>"
  have dj: "\<forall>d < n. \<forall>e < n. d \<noteq> e \<longrightarrow> set ((nodes(c := xs)) d) \<inter> set ((nodes(c := xs)) e) = {}"
  proof (intro allI impI)
    fix d e assume de: "d < n" "e < n" "d \<noteq> e"
    have sub: "set ((nodes(c := xs)) d) \<subseteq> set (nodes d)" for d using assms(3) by auto
    show "set ((nodes(c := xs)) d) \<inter> set ((nodes(c := xs)) e) = {}"
      using inv(7) de sub [of d] sub [of e] by blast
  qed
  have ok: "\<forall>d < n. \<forall>z \<in> set ((nodes(c := xs)) d). node_ok st2 slab z"
    using okc node(2) other by (metis fun_upd_apply)
  have "\<forall>d < n. list_repr (oc_heap st2) (((ms_events s)(c := l)) d) ((nodes(c := xs)) d)" using rc2 rd by simp
  then have "msg_inv mc n (nodes(c := xs)) ?s"
    using f(2) hdr inv(3,4) ok dj unfolding msg_inv_def Let_def by (simp add: slab_def [symmetric])
  then show thesis using that get by simp
qed

subsection \<open>Properties\<close>

text \<open>
  C14: Sending refines the abstract queues: while the current slab has a free object, \<^verbatim>\<open>cpu_send_msg\<close>
  appends the message to the queue of the target, leaves the queue of every other CPU as it was,
  raises one inter-processor interrupt for the target and keeps the invariant.
\<close>

theorem cpu_send_msg_enqueues:
  assumes "msg_inv mc n nodes s" "c < n" "0 < sl_objcount (oc_hdr (ms_oc s) (oc_last_free (ms_cache s)))"
  shows "\<exists>nodes' s'. cpu_send_msg e cas mc c msg s = Some s' \<and> msg_inv mc n nodes' s' \<and>
    (\<forall>d < n. queue nodes' s' d = queue nodes s d @ (if d = c then [msg] else [])) \<and>
    ms_ipis s' = ms_ipis s @ [c]"
proof -
  obtain x s' where s': "cpu_send_msg e cas mc c msg s = Some s'" "msg_inv mc n (nodes(c := nodes c @ [x])) s'"
    "ms_node s' = (ms_node s)(x := msg)" "\<forall>d < n. x \<notin> set (nodes d)" "ms_ipis s' = ms_ipis s @ [c]"
    by (rule send_msg_inv [OF assms])
  have "map (ms_node s') (nodes d) = map (ms_node s) (nodes d)" if "d < n" for d
    using s'(3,4) that by (intro map_cong) auto
  then have "\<forall>d < n. queue (nodes(c := nodes c @ [x])) s' d = queue nodes s d @ (if d = c then [msg] else [])"
    using s'(3) by (simp add: queue_def)
  with s' show ?thesis by blast
qed

definition ms_example :: msg_state where
  "ms_example = \<lparr>ms_oc = oc_example, ms_cache = \<lparr>oc_osize = 24, oc_slabs = list_init,
     oc_last_free = 0x5000, oc_section = 0\<rparr>, ms_events = (\<lambda>_. list_init),
     ms_node = (\<lambda>_. \<lparr>msg_handler = 0, msg_event = 0, msg_data = 0\<rparr>), ms_ipis = []\<rparr>"

lemma ms_example_inv: "msg_inv 0x100 4 (\<lambda>_. []) ms_example"
  using oc_example_inv by (simp add: msg_inv_def ms_example_def oc_example_def split: prod.splits)

theorem cpu_send_msg_enqueues_witness:
  "\<forall>e cas. \<exists>nodes' s'. cpu_send_msg e cas 0x100 2 \<lparr>msg_handler = 1, msg_event = 3, msg_data = 9\<rparr> ms_example = Some s' \<and>
     queue nodes' s' 2 = [\<lparr>msg_handler = 1, msg_event = 3, msg_data = 9\<rparr>] \<and> queue nodes' s' 1 = [] \<and> ms_ipis s' = [2]"
proof (intro allI)
  fix e cas
  let ?m = "\<lparr>msg_handler = 1, msg_event = 3, msg_data = 9\<rparr>"
  have "0 < sl_objcount (oc_hdr (ms_oc ms_example) (oc_last_free (ms_cache ms_example)))"
    by (simp add: ms_example_def oc_example_def split: prod.splits)
  then obtain nodes' s' where "cpu_send_msg e cas 0x100 2 ?m ms_example = Some s'"
    "\<forall>d < 4. queue nodes' s' d = queue (\<lambda>_. []) ms_example d @ (if d = 2 then [?m] else [])"
    "ms_ipis s' = ms_ipis ms_example @ [2]"
    using cpu_send_msg_enqueues [OF ms_example_inv, of 2 e cas ?m] by auto
  then show "\<exists>nodes' s'. cpu_send_msg e cas 0x100 2 ?m ms_example = Some s' \<and>
     queue nodes' s' 2 = [?m] \<and> queue nodes' s' 1 = [] \<and> ms_ipis s' = [2]"
    by (intro exI [of _ nodes'] exI [of _ s']) (simp add: queue_def ms_example_def)
qed

text \<open>What the handlers do to the rest of the system, for handlers that leave the messages alone.\<close>

definition quiet :: "'s cpu_handler \<Rightarrow> (nat \<Rightarrow> u64 \<Rightarrow> 's \<Rightarrow> 's) \<Rightarrow> bool" where
  "quiet f g \<longleftrightarrow> (\<forall>ev d s x. f ev d (s, x) = Some (s, g ev d x))"

fun deliver :: "(nat \<Rightarrow> u64 \<Rightarrow> 's \<Rightarrow> 's) list \<Rightarrow> cpu_msg list \<Rightarrow> 's \<Rightarrow> 's" where
  "deliver gs [] x = x"
| "deliver gs (m # ms) x =
     deliver gs ms (if msg_handler m < length gs then (gs ! msg_handler m) (msg_event m) (msg_data m) x else x)"

lemma handler_drains:
  assumes "msg_inv mc n nodes s" "c < n" "length fs = length gs"
    "\<forall>i < length gs. \<exists>f. fs ! i = Some f \<and> quiet f (gs ! i)"
  shows "\<exists>s'. cpu_msg_handler mc c fs (s, x) = Some (s', deliver gs (queue nodes s c) x) \<and>
    msg_inv mc n (nodes(c := [])) s' \<and> ms_node s' = ms_node s \<and> ms_ipis s' = ms_ipis s"
  using assms(1)
proof (induction "nodes c" arbitrary: nodes s x)
  case Nil
  then have "cpu_get_msg mc c s = (None, s)" "nodes(c := []) = nodes"
    using get_msg_empty [OF Nil.prems assms(2)] by auto
  then show ?case using Nil by (subst cpu_msg_handler.simps) (simp add: queue_def flip: Nil.hyps)
next
  case (Cons y ys)
  obtain s1 where s1: "cpu_get_msg mc c s = (Some (ms_node s y), s1)" "msg_inv mc n (nodes(c := ys)) s1"
    "ms_node s1 = ms_node s" "ms_ipis s1 = ms_ipis s"
    using get_msg_inv [OF Cons.prems assms(2) Cons.hyps(2) [symmetric]] by metis
  let ?m = "ms_node s y"
  let ?x = "if msg_handler ?m < length gs then (gs ! msg_handler ?m) (msg_event ?m) (msg_data ?m) x else x"
  have step: "cpu_msg_handler mc c fs (s, x) = cpu_msg_handler mc c fs (s1, ?x)"
  proof (cases "msg_handler ?m < length gs")
    case True
    then obtain f where "fs ! msg_handler ?m = Some f" "quiet f (gs ! msg_handler ?m)" using assms(4) by blast
    then show ?thesis using True s1(1) assms(3) by (subst cpu_msg_handler.simps) (simp add: quiet_def)
  next
    case False
    then show ?thesis using s1(1) assms(3) by (subst cpu_msg_handler.simps) simp
  qed
  obtain s' where "cpu_msg_handler mc c fs (s1, ?x) = Some (s', deliver gs (queue (nodes(c := ys)) s1 c) ?x)"
      "msg_inv mc n (nodes(c := [])) s'" "ms_node s' = ms_node s1" "ms_ipis s' = ms_ipis s1"
    using Cons.hyps(1) [of "nodes(c := ys)" s1 ?x] s1(2) by auto
  moreover have "queue nodes s c = ?m # queue (nodes(c := ys)) s1 c" using Cons.hyps(2) [symmetric] s1(3) by (simp add: queue_def)
  ultimately show ?case using step s1(3,4) by simp
qed

text \<open>
  C15: \<^verbatim>\<open>cpu_msg_handler\<close> terminates, gives every message queued for its CPU to the handler the message
  names, in the order of sending and dropping handler numbers outside the table, and leaves its own
  queue empty and the queues of the other CPUs as they were (for handlers that send no message).
\<close>

theorem cpu_msg_handler_drains:
  assumes "msg_inv mc n nodes s" "c < n" "length fs = length gs"
    "\<forall>i < length gs. \<exists>f. fs ! i = Some f \<and> quiet f (gs ! i)"
  shows "\<exists>s' nodes'. cpu_msg_handler mc c fs (s, x) = Some (s', deliver gs (queue nodes s c) x) \<and>
    msg_inv mc n nodes' s' \<and> (\<forall>d < n. queue nodes' s' d = (if d = c then [] else queue nodes s d))"
proof -
  obtain s' where "cpu_msg_handler mc c fs (s, x) = Some (s', deliver gs (queue nodes s c) x)"
    "msg_inv mc n (nodes(c := [])) s'" "ms_node s' = ms_node s"
    using handler_drains [OF assms] by blast
  then show ?thesis by (intro exI [of _ s'] exI [of _ "nodes(c := [])"]) (simp add: queue_def)
qed

theorem cpu_msg_handler_drains_witness:
  "\<exists>s'. cpu_msg_handler 0x100 2 [Some (\<lambda>ev d (s, x). Some (s, ev # x))] (ms_example, [5]) = Some (s', [5])"
proof -
  have "quiet (\<lambda>ev d (s, x). Some (s, ev # x)) (\<lambda>ev d x. ev # x)" by (simp add: quiet_def)
  then show ?thesis
    using cpu_msg_handler_drains [OF ms_example_inv, of 2 "[Some (\<lambda>ev d (s, x). Some (s, ev # x))]"
        "[\<lambda>ev d x. ev # x]" "[5]"] by (fastforce simp: queue_def)
qed

end
