(* ===== verification/Plic.thy ===== *)
theory Plic
  imports Machine "HOL-Library.Signed_Division"
begin

text \<open>
  The physical interrupt controller, \<^verbatim>\<open>arch/riscv/plic.c\<close>. An argument of type \<^verbatim>\<open>unsigned\<close> is a 32-bit
  word, one of type \<^verbatim>\<open>int\<close> an integer. The number of contexts \<^verbatim>\<open>PLIC_PLAT_CNTXT_NUM\<close> depends on the
  platform and is the parameter \<open>cn\<close>; a write to a priority register leaves the value \<open>warl i v\<close> there.
\<close>

definition PLIC_MAX_INTERRUPTS :: nat where "PLIC_MAX_INTERRUPTS = 1024"
definition PLIC_NUM_ENBL_REGS :: nat where "PLIC_NUM_ENBL_REGS = PLIC_MAX_INTERRUPTS div 32"
definition PLIC_CLAIMCMPLT_OFF :: nat where "PLIC_CLAIMCMPLT_OFF = 0x200000"

definition PRIV_M :: nat where "PRIV_M = 3"
definition PRIV_S :: nat where "PRIV_S = 2"

record plic_cntxt =
  cx_hart_id :: int
  cx_mode :: nat

definition plic_plat_cntxt_to_id :: "plic_cntxt \<Rightarrow> int" where
  "plic_plat_cntxt_to_id c =
     (if cx_mode c \<noteq> PRIV_M \<and> cx_mode c \<noteq> PRIV_S then -1
      else cx_hart_id c * 2 + (if cx_mode c = PRIV_M then 0 else 1))"

definition plic_plat_id_to_cntxt :: "nat \<Rightarrow> int \<Rightarrow> plic_cntxt" where
  "plic_plat_id_to_cntxt cn i =
     (if i < int cn
      then \<lparr>cx_hart_id = i sdiv 2, cx_mode = (if i smod 2 = 0 then PRIV_M else PRIV_S)\<rparr>
      else \<lparr>cx_hart_id = -1, cx_mode = 0\<rparr>)"

definition plic_write_prio :: "(nat \<Rightarrow> u32 \<Rightarrow> u32) \<Rightarrow> nat \<Rightarrow> u32 \<Rightarrow> plic \<Rightarrow> plic" where
  "plic_write_prio warl i v p = p\<lparr>plic_prio := (plic_prio p)(i := warl i v)\<rparr>"

text \<open>The loop of \<^verbatim>\<open>plic_scan_max_int\<close>.\<close>

function scan_loop :: "(nat \<Rightarrow> u32 \<Rightarrow> u32) \<Rightarrow> nat \<Rightarrow> plic \<Rightarrow> int \<times> plic" where
  "scan_loop warl i p =
     (if i < PLIC_MAX_INTERRUPTS then
        let p = plic_write_prio warl i (-1) p in
        if plic_prio p i = 0 then (int i - 1, p)
        else scan_loop warl (i + 1) (plic_write_prio warl i 0 p)
      else (0, p))"
  by pat_completeness auto
termination by (relation "measure (\<lambda>(warl, i, p). PLIC_MAX_INTERRUPTS - i)") auto

declare scan_loop.simps [simp del]

definition plic_scan_max_int :: "(nat \<Rightarrow> u32 \<Rightarrow> u32) \<Rightarrow> plic \<Rightarrow> int \<times> plic" where
  "plic_scan_max_int warl p = scan_loop warl 1 p"

definition plic_init :: "nat \<Rightarrow> (nat \<Rightarrow> u32 \<Rightarrow> u32) \<Rightarrow> plic \<Rightarrow> plic" where
  "plic_init cn warl p =
     (let (n, p) = plic_scan_max_int warl p;
          p = p\<lparr>plic_impl := n\<rparr>;
          p = fold (\<lambda>i. plic_write_prio warl i 0) [0..<nat (n + 1)] p
      in fold (\<lambda>i p. fold (\<lambda>j p. p\<lparr>plic_enbl := (plic_enbl p)(i := (plic_enbl p i)(j := 0))\<rparr>)
                       [0..<PLIC_NUM_ENBL_REGS] p) [0..<cn] p)"

definition plic_cpu_init :: "nat \<Rightarrow> plic \<Rightarrow> int \<times> plic" where
  "plic_cpu_init cpu_id p =
     (let cx = plic_plat_cntxt_to_id \<lparr>cx_hart_id = int cpu_id, cx_mode = PRIV_S\<rparr>
      in (cx, p\<lparr>plic_threshold := (plic_threshold p)(nat cx := 0)\<rparr>))"

definition plic_cntxt_valid :: "nat \<Rightarrow> u32 \<Rightarrow> bool" where
  "plic_cntxt_valid cn cntxt_id =
     (let cntxt = plic_plat_id_to_cntxt cn (sint cntxt_id)
      in unat cntxt_id < cn \<and> cx_mode cntxt \<le> PRIV_S)"

definition plic_implemented :: "plic \<Rightarrow> u32 \<Rightarrow> bool" where
  "plic_implemented p int_id \<longleftrightarrow> int_id \<le> of_int (plic_impl p)"

definition plic_set_enbl :: "nat \<Rightarrow> u32 \<Rightarrow> u32 \<Rightarrow> bool \<Rightarrow> plic \<Rightarrow> plic" where
  "plic_set_enbl cn cntxt int_id en p =
     (let reg_ind = unat int_id div 32;
          msk = push_bit (unat int_id mod 32) 1;
          c = unat cntxt
      in if plic_implemented p int_id \<and> plic_cntxt_valid cn cntxt then
           if en then p\<lparr>plic_enbl := (plic_enbl p)(c := (plic_enbl p c)(reg_ind := plic_enbl p c reg_ind OR msk))\<rparr>
           else p\<lparr>plic_enbl := (plic_enbl p)(c := (plic_enbl p c)(reg_ind := plic_enbl p c reg_ind AND NOT msk))\<rparr>
         else p)"

definition plic_get_enbl :: "nat \<Rightarrow> u32 \<Rightarrow> u32 \<Rightarrow> plic \<Rightarrow> bool" where
  "plic_get_enbl cn cntxt int_id p =
     (let reg_ind = unat int_id div 32;
          msk = push_bit (unat int_id mod 32) 1
      in if plic_implemented p int_id \<and> plic_cntxt_valid cn cntxt
         then plic_enbl p (unat cntxt) reg_ind AND msk \<noteq> 0 else False)"

definition plic_set_prio :: "(nat \<Rightarrow> u32 \<Rightarrow> u32) \<Rightarrow> u32 \<Rightarrow> u32 \<Rightarrow> plic \<Rightarrow> plic" where
  "plic_set_prio warl int_id prio p =
     (if plic_implemented p int_id then plic_write_prio warl (unat int_id) prio p else p)"

definition plic_get_prio :: "u32 \<Rightarrow> plic \<Rightarrow> u32" where
  "plic_get_prio int_id p = (if plic_implemented p int_id then plic_prio p (unat int_id) else 0)"

definition plic_get_pend :: "u32 \<Rightarrow> plic \<Rightarrow> bool" where
  "plic_get_pend int_id p =
     (let reg_ind = unat int_id div 32;
          msk = push_bit (unat int_id mod 32) 1
      in if plic_implemented p int_id then plic_pend p reg_ind AND msk \<noteq> 0 else False)"

definition plic_set_threshold :: "nat \<Rightarrow> u32 \<Rightarrow> u32 \<Rightarrow> plic \<Rightarrow> plic" where
  "plic_set_threshold cn cntxt threshold p =
     (if plic_cntxt_valid cn cntxt
      then p\<lparr>plic_threshold := (plic_threshold p)(unat cntxt := threshold)\<rparr> else p)"

definition plic_get_thrshold :: "nat \<Rightarrow> u32 \<Rightarrow> plic \<Rightarrow> u32" where
  "plic_get_thrshold cn cntxt p = (if plic_cntxt_valid cn cntxt then plic_threshold p (unat cntxt) else 0)"

definition plic_complete :: "nat \<Rightarrow> u32 \<Rightarrow> plic \<Rightarrow> plic" where
  "plic_complete cntxt int_id p = p\<lparr>plic_completed := plic_completed p @ [(cntxt, int_id)]\<rparr>"

subsection \<open>Contexts\<close>

lemma smod_2_zero: "0 \<le> i \<Longrightarrow> i smod 2 = i mod (2::int)" "0 \<le> i \<Longrightarrow> i sdiv 2 = i div (2::int)"
  by (cases "i = 0"; simp add: signed_divide_int_def signed_modulo_int_def)+

lemma id_to_cntxt:
  assumes "i < cn"
  shows "plic_plat_id_to_cntxt cn (int i) =
     \<lparr>cx_hart_id = int (i div 2), cx_mode = (if even i then PRIV_M else PRIV_S)\<rparr>"
proof -
  have "int i sdiv 2 = int (i div 2)" "int i smod 2 = int (i mod 2)"
    by (simp_all add: smod_2_zero zdiv_int zmod_int)
  then show ?thesis using assms by (simp add: plic_plat_id_to_cntxt_def even_iff_mod_2_eq_zero)
qed

lemma sint_small: "unat (c :: u32) < 2 ^ 31 \<Longrightarrow> sint c = int (unat c)"
proof -
  assume "unat c < 2 ^ 31"
  then have u: "uint c < 2 ^ 31" by (simp flip: nat_uint_eq)
  have "sint c = signed_take_bit 31 (uint c)" by (simp add: sint_uint)
  also have "\<dots> = uint c" using u order_trans [of "- (2 ^ 31)" 0 "uint c"] by (intro signed_take_bit_int_eq_self) simp_all
  finally show ?thesis by simp
qed

lemma cntxt_valid_iff:
  assumes "cn \<le> 2 ^ 31"
  shows "plic_cntxt_valid cn c \<longleftrightarrow> unat c < cn \<and> odd (unat c)"
proof (cases "unat c < cn")
  case True
  then have "unat c < 2 ^ 31" using assms by linarith
  then have "sint c = int (unat c)" by (rule sint_small)
  then show ?thesis using True id_to_cntxt [OF True]
    by (simp add: plic_cntxt_valid_def PRIV_M_def PRIV_S_def)
qed (simp add: plic_cntxt_valid_def)

subsection \<open>Initialisation\<close>

lemma scan_loop_finds:
  assumes "i \<le> N + 1" "N + 1 < PLIC_MAX_INTERRUPTS" "\<forall>j. i \<le> j \<and> j \<le> N \<longrightarrow> warl j (-1) \<noteq> 0" "warl (N + 1) (-1) = 0"
  shows "fst (scan_loop warl i p) = int N"
  using assms
proof (induction "N + 1 - i" arbitrary: i p)
  case 0
  then have "i = N + 1" by simp
  then show ?case using 0 by (subst scan_loop.simps) (simp add: plic_write_prio_def)
next
  case (Suc d)
  then have "i \<le> N" by simp
  then have "fst (scan_loop warl i p) =
      fst (scan_loop warl (i + 1) (plic_write_prio warl i 0 (plic_write_prio warl i (-1) p)))"
    using Suc.prems by (subst scan_loop.simps) (simp add: plic_write_prio_def)
  also have "\<dots> = int N" using Suc.hyps(2) Suc.prems \<open>i \<le> N\<close> by (intro Suc.hyps(1)) auto
  finally show ?case .
qed

lemma scan_loop_all:
  assumes "\<forall>j. i \<le> j \<and> j < PLIC_MAX_INTERRUPTS \<longrightarrow> warl j (-1) \<noteq> 0"
  shows "fst (scan_loop warl i p) = 0"
  using assms
proof (induction "PLIC_MAX_INTERRUPTS - i" arbitrary: i p)
  case 0
  then show ?case by (subst scan_loop.simps) simp
next
  case (Suc d)
  then show ?case by (subst scan_loop.simps) (simp add: plic_write_prio_def)
qed

lemma write_prio_fold:
  "plic_prio (fold (\<lambda>i. plic_write_prio warl i v) is p) k = (if k \<in> set is then warl k v else plic_prio p k)"
  "plic_impl (fold (\<lambda>i. plic_write_prio warl i v) is p) = plic_impl p"
  by (induction "is" arbitrary: p) (auto simp: plic_write_prio_def)

definition clear_enbl :: "nat \<Rightarrow> nat list \<Rightarrow> plic \<Rightarrow> plic" where
  "clear_enbl i js p = fold (\<lambda>j p. p\<lparr>plic_enbl := (plic_enbl p)(i := (plic_enbl p i)(j := 0))\<rparr>) js p"

lemma clear_enbl_simps:
  "plic_enbl (clear_enbl i js p) c k = (if c = i \<and> k \<in> set js then 0 else plic_enbl p c k)"
  "plic_impl (clear_enbl i js p) = plic_impl p" "plic_prio (clear_enbl i js p) = plic_prio p"
  unfolding clear_enbl_def by (induction js arbitrary: p) auto

lemma clear_enbls_simps:
  "plic_enbl (fold (\<lambda>i. clear_enbl i js) is p) c k = (if c \<in> set is \<and> k \<in> set js then 0 else plic_enbl p c k)"
  "plic_impl (fold (\<lambda>i. clear_enbl i js) is p) = plic_impl p"
  "plic_prio (fold (\<lambda>i. clear_enbl i js) is p) = plic_prio p"
  by (induction "is" arbitrary: p) (auto simp: clear_enbl_simps)

lemma plic_init_eq:
  "plic_init cn warl p =
    (let (n, q) = plic_scan_max_int warl p
     in fold (\<lambda>i. clear_enbl i [0..<PLIC_NUM_ENBL_REGS]) [0..<cn]
          (fold (\<lambda>i. plic_write_prio warl i 0) [0..<nat (n + 1)] (q\<lparr>plic_impl := n\<rparr>)))"
  unfolding plic_init_def clear_enbl_def Let_def by (simp split: prod.splits)

text \<open>
  On a controller that implements the sources \<open>1\<close> to \<open>N\<close> and not \<open>N + 1\<close> (their priority registers keep
  a non-zero value, its register reads as zero), \<^verbatim>\<open>plic_init\<close> finds \<open>N\<close>, writes priority zero to all of
  them, and disables every interrupt in every context of the platform.
\<close>

theorem plic_init_exact:
  assumes "N + 1 < PLIC_MAX_INTERRUPTS" "\<forall>j. 1 \<le> j \<and> j \<le> N \<longrightarrow> warl j (-1) \<noteq> 0" "warl (N + 1) (-1) = 0"
  shows "plic_impl (plic_init cn warl p) = int N \<and> (\<forall>i \<le> N. plic_prio (plic_init cn warl p) i = warl i 0) \<and>
    (\<forall>c < cn. \<forall>k < PLIC_NUM_ENBL_REGS. plic_enbl (plic_init cn warl p) c k = 0)"
proof -
  have n: "fst (plic_scan_max_int warl p) = int N"
    unfolding plic_scan_max_int_def using assms by (intro scan_loop_finds) auto
  obtain q where "plic_scan_max_int warl p = (int N, q)" using n by (cases "plic_scan_max_int warl p") simp
  moreover have "nat (int N + 1) = N + 1" by simp
  ultimately show ?thesis by (auto simp: plic_init_eq clear_enbls_simps write_prio_fold simp del: upt_Suc)
qed

theorem plic_init_exact_witness:
  "\<forall>p. plic_impl (plic_init 2 (\<lambda>i v. if i \<le> 30 then v AND 7 else 0) p) = 30"
  using plic_init_exact [of 30 "\<lambda>i v. if i \<le> 30 then v AND 7 else 0" 2] by (simp add: PLIC_MAX_INTERRUPTS_def)

text \<open>
  On a controller that implements all the sources \<open>1\<close> to \<open>1023\<close> the scan ends with the initial value \<open>0\<close>
  of its result, and from then on no interrupt but \<open>0\<close> can be enabled.
\<close>

theorem plic_scan_full_controller:
  assumes "\<forall>j. 1 \<le> j \<and> j < PLIC_MAX_INTERRUPTS \<longrightarrow> warl j (-1) \<noteq> 0" "int_id \<noteq> 0"
  shows "plic_impl (plic_init cn warl p) = 0 \<and>
    plic_set_enbl cn cntxt int_id en (plic_init cn warl p) = plic_init cn warl p"
proof -
  have "fst (plic_scan_max_int warl p) = 0"
    unfolding plic_scan_max_int_def using assms(1) by (intro scan_loop_all) simp
  then obtain q where "plic_scan_max_int warl p = (0, q)" by (cases "plic_scan_max_int warl p") simp
  then have "plic_impl (plic_init cn warl p) = 0" by (simp add: plic_init_eq clear_enbls_simps plic_write_prio_def)
  then show ?thesis using assms(2) by (simp add: plic_set_enbl_def plic_implemented_def)
qed

theorem plic_scan_full_controller_witness:
  "\<forall>p. plic_impl (plic_init 2 (\<lambda>i v. v AND 7) p) = 0"
  using plic_scan_full_controller [of "\<lambda>i v. v AND 7" 1 2] by simp

end
