(* ===== verification/Vm_Cpus.thy ===== *)
theory Vm_Cpus
  imports Bitmap Bits
begin

text \<open>
  Virtual and physical CPU numbers: the translations of \<^verbatim>\<open>core/inc/vm.h\<close> and \<^verbatim>\<open>core/vm.c\<close>, and the loop of
  \<^verbatim>\<open>vm_vcpu_init\<close> that numbers the virtual CPUs. A VM's physical CPUs are the bits of its mask \<^verbatim>\<open>cpus\<close>; the
  virtual CPU with number \<open>k\<close> runs on the physical CPU of the \<open>k\<close>-th bit.
\<close>

definition vm_translate_to_pcpuid :: "u64 \<Rightarrow> nat \<Rightarrow> int" where
  "vm_translate_to_pcpuid cpus vcpuid = bitmap_find_nth (word_bitmap cpus) 64 (vcpuid + 1) 0 True"

definition vm_translate_to_vcpuid :: "u64 \<Rightarrow> nat \<Rightarrow> nat" where
  "vm_translate_to_vcpuid cpus pcpuid = bitmap_count (word_bitmap cpus) 0 pcpuid True"

definition vm_translate_to_pcpu_mask :: "u64 \<Rightarrow> u64 \<Rightarrow> nat \<Rightarrow> u64" where
  "vm_translate_to_pcpu_mask cpus m len =
     fold (\<lambda>i pmask. if bit_get m i \<noteq> 0 \<and> vm_translate_to_pcpuid cpus i \<ge> 0
                      then pmask OR push_bit (nat (vm_translate_to_pcpuid cpus i)) 1 else pmask) [0..<len] 0"

text \<open>The test \<^verbatim>\<open>shift >= 0\<close> of the source is always true here, the translation has no failure value.\<close>

definition vm_translate_to_vcpu_mask :: "u64 \<Rightarrow> u64 \<Rightarrow> nat \<Rightarrow> u64" where
  "vm_translate_to_vcpu_mask cpus m len =
     fold (\<lambda>i pmask. if bit_get m i \<noteq> 0
                      then pmask OR push_bit (vm_translate_to_vcpuid cpus i) 1 else pmask) [0..<len] 0"

text \<open>\<^verbatim>\<open>vm_cpu_init\<close> and the numbering loop; \<open>0\<close> (from the cleared structure) when the loop ends early.\<close>

definition vm_cpu_init :: "u64 \<Rightarrow> nat \<Rightarrow> u64" where
  "vm_cpu_init cpus cpu_id = cpus OR push_bit cpu_id 1"

function vcpu_id_loop :: "u64 \<Rightarrow> nat \<Rightarrow> nat \<Rightarrow> nat \<Rightarrow> nat \<Rightarrow> nat" where
  "vcpu_id_loop cpus cpu_num cpu_id count offset =
     (if count < cpu_num \<and> offset \<le> cpu_id then
        if offset = cpu_id then count
        else vcpu_id_loop cpus cpu_num cpu_id (if push_bit offset 1 AND cpus \<noteq> 0 then count + 1 else count) (offset + 1)
      else 0)"
  by pat_completeness auto
termination by (relation "measure (\<lambda>(cpus, cpu_num, cpu_id, count, offset). cpu_id + 1 - offset)") auto

declare vcpu_id_loop.simps [simp del]

definition vm_vcpu_id :: "u64 \<Rightarrow> nat \<Rightarrow> nat \<Rightarrow> nat" where
  "vm_vcpu_id cpus cpu_num cpu_id = vcpu_id_loop cpus cpu_num cpu_id 0 0"

subsection \<open>Ranks\<close>

definition rank :: "u64 \<Rightarrow> nat \<Rightarrow> nat" where
  "rank w i = card {x. x < i \<and> bit w x}"

lemma bits_in_word: "j \<le> 64 \<Longrightarrow> bits_in (word_bitmap w) 1 0 j = rank w j"
proof -
  assume j: "j \<le> 64"
  have "{x. 0 \<le> x \<and> x < j \<and> bitmap_get (word_bitmap w) x = 1} = {x. x < j \<and> bit w x}"
    using j by (auto simp: word_bitmap_get)
  then show ?thesis by (simp add: bits_in_eq_card rank_def)
qed

lemma rank_Suc: "rank w (Suc i) = rank w i + of_bool (bit w i)"
proof -
  have "{x. x < Suc i \<and> bit w x} = {x. x < i \<and> bit w x} \<union> (if bit w i then {i} else {})" by (auto simp: less_Suc_eq)
  then show ?thesis by (simp add: rank_def)
qed

lemma rank_mono: "i \<le> j \<Longrightarrow> rank w i \<le> rank w j"
  unfolding rank_def by (intro card_mono) auto

lemma rank_inj: "bit w i \<Longrightarrow> bit w j \<Longrightarrow> rank w i = rank w j \<Longrightarrow> i = j"
proof (rule ccontr)
  assume "bit w i" "bit w j" "rank w i = rank w j" "i \<noteq> j"
  then obtain a b where "a < b" "bit w a" "rank w a = rank w b" by (metis nat_neq_iff)
  then show False using rank_mono [of "Suc a" b w] by (simp add: rank_Suc)
qed

lemma to_vcpuid_rank: "p \<le> 64 \<Longrightarrow> vm_translate_to_vcpuid cpus p = rank cpus p"
  by (simp add: vm_translate_to_vcpuid_def bitmap_count_eq bits_in_word)

lemma to_pcpuid_spec:
  "(vm_translate_to_pcpuid cpus v = -1 \<and> rank cpus 64 \<le> v) \<or>
   (\<exists>p. vm_translate_to_pcpuid cpus v = int p \<and> p < 64 \<and> bit cpus p \<and> rank cpus p = v)"
  using bitmap_find_nth_spec [of "v + 1" "word_bitmap cpus" 64 0 True]
  by (auto simp: vm_translate_to_pcpuid_def bits_in_word word_bitmap_get)

lemma rank_lt_64: "bit cpus p \<Longrightarrow> rank cpus p < rank cpus 64"
proof -
  assume b: "bit cpus p"
  then have "p < 64" using bit_imp_le_length by fastforce
  then have "rank cpus (Suc p) \<le> rank cpus 64" by (intro rank_mono) simp
  then show ?thesis using b by (simp add: rank_Suc)
qed

lemma to_pcpuid_rank: "bit cpus p \<Longrightarrow> vm_translate_to_pcpuid cpus (rank cpus p) = int p"
proof -
  assume b: "bit cpus p"
  then have "rank cpus p < rank cpus 64" by (rule rank_lt_64)
  then show ?thesis using to_pcpuid_spec [of cpus "rank cpus p"] rank_inj [OF b] by (metis not_less)
qed

lemma vcpu_id_loop_rank:
  assumes "count = rank cpus offset" "offset \<le> cpu_id" "rank cpus cpu_id < cpu_num"
  shows "vcpu_id_loop cpus cpu_num cpu_id count offset = rank cpus cpu_id"
  using assms
proof (induction cpus cpu_num cpu_id count offset rule: vcpu_id_loop.induct)
  case (1 cpus cpu_num cpu_id count offset)
  have c: "count < cpu_num" using rank_mono [OF "1.prems"(2), of cpus] "1.prems"(1,3) by simp
  have t: "push_bit offset 1 AND cpus \<noteq> 0 \<longleftrightarrow> bit cpus offset"
    using bit_get_iff [of cpus offset] by (simp add: bit_get_def and.commute)
  show ?case
  proof (cases "offset = cpu_id")
    case True
    then show ?thesis using 1 c by (subst vcpu_id_loop.simps) simp
  next
    case False
    let ?c = "if push_bit offset 1 AND cpus \<noteq> 0 then count + 1 else count"
    have "?c = rank cpus (offset + 1)" using "1.prems"(1) t by (simp add: rank_Suc flip: Suc_eq_plus1)
    then have "vcpu_id_loop cpus cpu_num cpu_id ?c (offset + 1) = rank cpus cpu_id"
      using "1.IH" [OF _ False] "1.prems" c False by simp
    then show ?thesis using False c "1.prems"(2) by (subst vcpu_id_loop.simps) simp
  qed
qed

lemma pcpu_mask_fold:
  "len \<le> 64 \<Longrightarrow> bit (fold (\<lambda>i pmask. if bit_get m i \<noteq> 0 \<and> vm_translate_to_pcpuid cpus i \<ge> 0
      then pmask OR push_bit (nat (vm_translate_to_pcpuid cpus i)) 1 else pmask) [0..<len] (0::u64)) p \<longleftrightarrow>
    (\<exists>v < len. bit m v \<and> vm_translate_to_pcpuid cpus v = int p)"
proof (induction len)
  case (Suc len)
  have lt: "nat (vm_translate_to_pcpuid cpus len) < 64"
    using to_pcpuid_spec [of cpus len] by auto
  show ?case
    using Suc lt to_pcpuid_spec [of cpus len]
    by (auto simp: bit_get_iff bit_simps less_Suc_eq bit_1_iff dest: bit_imp_le_length)
qed simp

subsection \<open>Properties\<close>

text \<open>
  C35: The two CPU number translations are inverse to each other: for every physical CPU of the VM,
  translating it to a virtual number and back gives the CPU itself; for every virtual number that
  exists the converse holds, a number that does not exist gives \<open>-1\<close>; and \<^verbatim>\<open>vm_vcpu_init\<close> gives the
  virtual CPU that runs on a physical CPU the number the translation expects.
\<close>

theorem vcpu_pcpu_roundtrip:
  "(\<forall>p. bit cpus p \<longrightarrow> vm_translate_to_pcpuid cpus (vm_translate_to_vcpuid cpus p) = int p \<and>
      (\<forall>n. rank cpus p < n \<longrightarrow> vm_vcpu_id cpus n p = vm_translate_to_vcpuid cpus p)) \<and>
   (\<forall>v. if v < rank cpus 64
        then \<exists>p < 64. vm_translate_to_pcpuid cpus v = int p \<and> bit cpus p \<and> vm_translate_to_vcpuid cpus p = v
        else vm_translate_to_pcpuid cpus v = -1)"
proof -
  have "vm_translate_to_pcpuid cpus (vm_translate_to_vcpuid cpus p) = int p \<and>
      (\<forall>n. rank cpus p < n \<longrightarrow> vm_vcpu_id cpus n p = vm_translate_to_vcpuid cpus p)" if "bit cpus p" for p
  proof -
    have "p < 64" using bit_imp_le_length [OF that] by simp
    then have v: "vm_translate_to_vcpuid cpus p = rank cpus p" by (simp add: to_vcpuid_rank)
    have "vm_vcpu_id cpus n p = rank cpus p" if "rank cpus p < n" for n
      using vcpu_id_loop_rank [of 0 cpus 0 p n] that by (simp add: vm_vcpu_id_def rank_def)
    then show ?thesis using v to_pcpuid_rank [OF that] by simp
  qed
  moreover have "if v < rank cpus 64
        then \<exists>p < 64. vm_translate_to_pcpuid cpus v = int p \<and> bit cpus p \<and> vm_translate_to_vcpuid cpus p = v
        else vm_translate_to_pcpuid cpus v = -1" for v
    using to_pcpuid_spec [of cpus v] rank_lt_64 [of cpus] by (auto simp: to_vcpuid_rank)
  ultimately show ?thesis by blast
qed

theorem vcpu_pcpu_roundtrip_witness:
  "bit (0b1010 :: u64) 3 \<and> vm_translate_to_vcpuid 0b1010 3 = 1 \<and> vm_translate_to_pcpuid 0b1010 1 = 3"
proof -
  have v: "vm_translate_to_vcpuid 0b1010 3 = 1" by code_simp
  have b: "bit (0b1010 :: u64) 3" by (simp add: bit_numeral_rec One_nat_def)
  from vcpu_pcpu_roundtrip [of "0b1010"] b
  have "vm_translate_to_pcpuid 0b1010 (vm_translate_to_vcpuid 0b1010 3) = int 3" by blast
  then show ?thesis using v b by simp
qed

lemma pcpu_mask_bits:
  assumes "len \<le> 64"
  shows "bit (vm_translate_to_pcpu_mask cpus m len) p \<longleftrightarrow>
    bit cpus p \<and> vm_translate_to_vcpuid cpus p < len \<and> bit m (vm_translate_to_vcpuid cpus p)"
proof -
  have "(\<exists>v < len. bit m v \<and> vm_translate_to_pcpuid cpus v = int p) \<longleftrightarrow>
      bit cpus p \<and> rank cpus p < len \<and> bit m (rank cpus p)"
    using to_pcpuid_spec [of cpus] to_pcpuid_rank [of cpus p]
    by (metis nat_int of_nat_0_le_iff neg_0_le_iff_le not_one_le_zero of_nat_1)
  moreover have "bit cpus p \<Longrightarrow> vm_translate_to_vcpuid cpus p = rank cpus p"
    using to_vcpuid_rank bit_imp_le_length [of cpus p] by simp
  ultimately show ?thesis using pcpu_mask_fold [OF assms, of m cpus p] by (auto simp: vm_translate_to_pcpu_mask_def)
qed

text \<open>
  The mask translation sends a mask of virtual CPUs to exactly the physical CPUs these run on,
  and never names a physical CPU outside the VM.
\<close>

theorem pcpu_mask_exact:
  assumes "len \<le> 64"
  shows "bit (vm_translate_to_pcpu_mask cpus m len) p \<longleftrightarrow>
    bit cpus p \<and> vm_translate_to_vcpuid cpus p < len \<and> bit m (vm_translate_to_vcpuid cpus p)"
  by (rule pcpu_mask_bits [OF assms])

theorem pcpu_mask_exact_witness:
  "bit (vm_translate_to_pcpu_mask 0b1010 0b11 2) 3 \<and> \<not> bit (vm_translate_to_pcpu_mask 0b1010 0b11 2) 2"
proof -
  have "vm_translate_to_vcpuid 0b1010 3 = 1" by code_simp
  then show ?thesis using pcpu_mask_exact [of 2 "0b1010" "0b11" 3] pcpu_mask_exact [of 2 "0b1010" "0b11" 2]
    by (simp add: bit_numeral_rec One_nat_def)
qed

end
