(* ===== verification/Vplic.thy ===== *)
theory Vplic
  imports Plic Vm_Cpus
begin

text \<open>
  The virtual interrupt controller, \<^verbatim>\<open>arch/riscv/vplic.c\<close>. The structure \<^verbatim>\<open>vplic_t\<close> is modelled by the memory
  it occupies from its field \<^verbatim>\<open>hw\<close> on, in 32-bit words, since the guards of the code let some accesses
  pass the end of a field: \<^verbatim>\<open>hw\<close>, \<^verbatim>\<open>pend\<close> and \<^verbatim>\<open>act\<close> are bitmaps of 32 words, \<^verbatim>\<open>prio\<close> has 1024 words, \<^verbatim>\<open>enbl\<close> has 32
  words for each of the \<open>cn\<close> contexts of the platform, and \<^verbatim>\<open>threshold\<close> has \<open>cn\<close> words; what follows is
  the rest of the structure \<^verbatim>\<open>vm_t\<close>. A bit \<open>i\<close> of a bitmap that starts at word \<open>b\<close> is bit \<open>32 * b + i\<close> of this memory.
\<close>

definition VP_HW :: nat where "VP_HW = 0"
definition VP_PEND :: nat where "VP_PEND = 32"
definition VP_ACT :: nat where "VP_ACT = 64"
definition VP_PRIO :: nat where "VP_PRIO = 96"
definition VP_ENBL :: "int \<Rightarrow> nat" where "VP_ENBL vcntxt = 1120 + 32 * nat vcntxt"
definition VP_THRESHOLD :: "nat \<Rightarrow> int \<Rightarrow> nat" where "VP_THRESHOLD cn vcntxt = 1120 + 32 * cn + nat vcntxt"

lemmas VP_defs = VP_HW_def VP_PEND_def VP_ACT_def VP_PRIO_def VP_ENBL_def VP_THRESHOLD_def

text \<open>The conversion of an \<^verbatim>\<open>int\<close> to \<^verbatim>\<open>size_t\<close>.\<close>

definition to_size :: "int \<Rightarrow> nat" where
  "to_size i = nat (i mod 2 ^ 64)"

definition vp_get :: "nat \<Rightarrow> int \<Rightarrow> vplic \<Rightarrow> bool" where
  "vp_get base i v \<longleftrightarrow> bitmap_get (vp_mem v) (32 * base + to_size i) \<noteq> 0"

definition vp_set :: "nat \<Rightarrow> int \<Rightarrow> vplic \<Rightarrow> vplic" where
  "vp_set base i v = v\<lparr>vp_mem := bitmap_set (vp_mem v) (32 * base + to_size i)\<rparr>"

definition vp_clear :: "nat \<Rightarrow> int \<Rightarrow> vplic \<Rightarrow> vplic" where
  "vp_clear base i v = v\<lparr>vp_mem := bitmap_clear (vp_mem v) (32 * base + to_size i)\<rparr>"

definition upd_vplic :: "(vplic \<Rightarrow> vplic) \<Rightarrow> hv \<Rightarrow> hv" where
  "upd_vplic f s = s\<lparr>hv_vplic := f (hv_vplic s)\<rparr>"

definition upd_plic :: "(plic \<Rightarrow> plic) \<Rightarrow> hv \<Rightarrow> hv" where
  "upd_plic f s = s\<lparr>hv_plic := f (hv_plic s)\<rparr>"

subsection \<open>Operations\<close>

definition vplic_vcntxt_to_pcntxt :: "hv_env \<Rightarrow> int \<Rightarrow> int" where
  "vplic_vcntxt_to_pcntxt e vcntxt_id =
     (let vcntxt = plic_plat_id_to_cntxt (e_cntxt_num e) vcntxt_id;
          phart = vm_translate_to_pcpuid (e_cpus e) (to_size (cx_hart_id vcntxt))
      in if phart \<ge> 0 then plic_plat_cntxt_to_id \<lparr>cx_hart_id = phart, cx_mode = cx_mode vcntxt\<rparr> else -1)"

definition vplic_vcntxt_valid :: "hv_env \<Rightarrow> int \<Rightarrow> hv \<Rightarrow> bool" where
  "vplic_vcntxt_valid e vcntxt_id s =
     (let vcntxt = plic_plat_id_to_cntxt (e_cntxt_num e) vcntxt_id
      in to_size vcntxt_id < vp_cntxt_num (hv_vplic s) \<and> cx_mode vcntxt \<le> PRIV_S)"

definition vplic_get_pend :: "int \<Rightarrow> vplic \<Rightarrow> bool" where
  "vplic_get_pend i v = (if i \<le> int PLIC_MAX_INTERRUPTS then vp_get VP_PEND i v else False)"

definition vplic_get_act :: "int \<Rightarrow> vplic \<Rightarrow> bool" where
  "vplic_get_act i v = (if i \<le> int PLIC_MAX_INTERRUPTS then vp_get VP_ACT i v else False)"

definition vplic_get_enbl :: "int \<Rightarrow> int \<Rightarrow> vplic \<Rightarrow> bool" where
  "vplic_get_enbl vcntxt i v = (if i \<le> int PLIC_MAX_INTERRUPTS then vp_get (VP_ENBL vcntxt) i v else False)"

definition vplic_get_prio :: "int \<Rightarrow> vplic \<Rightarrow> u32" where
  "vplic_get_prio i v = (if i \<le> int PLIC_MAX_INTERRUPTS then vp_mem v (VP_PRIO + to_size i) else 0)"

definition vplic_set_hw :: "int \<Rightarrow> vplic \<Rightarrow> vplic" where
  "vplic_set_hw i v = (if i \<le> int PLIC_MAX_INTERRUPTS then vp_set VP_HW i v else v)"

definition vplic_get_hw :: "int \<Rightarrow> vplic \<Rightarrow> bool" where
  "vplic_get_hw i v = (if i \<le> int PLIC_MAX_INTERRUPTS then vp_get VP_HW i v else False)"

definition vplic_get_theshold :: "nat \<Rightarrow> int \<Rightarrow> vplic \<Rightarrow> u32" where
  "vplic_get_theshold cn vcntxt v = vp_mem v (VP_THRESHOLD cn vcntxt)"

text \<open>The loop of \<^verbatim>\<open>vplic_next_pending\<close>, on the pair of \<^verbatim>\<open>max_prio\<close> and \<^verbatim>\<open>int_id\<close>.\<close>

definition next_pending_step :: "vplic \<Rightarrow> int \<Rightarrow> nat \<Rightarrow> u32 \<times> nat \<Rightarrow> u32 \<times> nat" where
  "next_pending_step v vcntxt i acc =
     (let (max_prio, int_id) = acc in
      if vplic_get_pend (int i) v \<and> \<not> vplic_get_act (int i) v \<and> vplic_get_enbl vcntxt (int i) v then
        if max_prio < vplic_get_prio (int i) v then (vplic_get_prio (int i) v, i) else acc
      else acc)"

definition vplic_next_pending :: "nat \<Rightarrow> int \<Rightarrow> vplic \<Rightarrow> nat" where
  "vplic_next_pending cn vcntxt v =
     (let (max_prio, int_id) = fold (next_pending_step v vcntxt) [0..<PLIC_MAX_INTERRUPTS + 1] (0, 0)
      in if vplic_get_theshold cn vcntxt v < max_prio then int_id else 0)"

definition UPDATE_HART_LINE :: nat where "UPDATE_HART_LINE = 0"

definition vplic_update_hart_line :: "hv_env \<Rightarrow> int \<Rightarrow> hv \<Rightarrow> hv" where
  "vplic_update_hart_line e vcntxt s =
     (let pcntxt_id = vplic_vcntxt_to_pcntxt e vcntxt;
          pcntxt = plic_plat_id_to_cntxt (e_cntxt_num e) pcntxt_id
      in if cx_hart_id pcntxt = int (e_cpu_id e) then
           if vplic_next_pending (e_cntxt_num e) vcntxt (hv_vplic s) \<noteq> 0
           then hvip_set HIP_VSEIP s else hvip_clear HIP_VSEIP s
         else send_msg (cx_hart_id pcntxt)
                \<lparr>msg_handler = e_vplic_ipi_id e, msg_event = UPDATE_HART_LINE, msg_data = of_int vcntxt\<rparr> s)"

definition vplic_ipi_handler :: "hv_env \<Rightarrow> nat \<Rightarrow> u64 \<Rightarrow> hv \<Rightarrow> hv" where
  "vplic_ipi_handler e event data s =
     (if event = UPDATE_HART_LINE then vplic_update_hart_line e (sint (ucast data :: u32)) s else s)"

definition vplic_set_threshold :: "hv_env \<Rightarrow> int \<Rightarrow> u32 \<Rightarrow> hv \<Rightarrow> hv" where
  "vplic_set_threshold e vcntxt threshold s =
     (let s = upd_vplic (\<lambda>v. v\<lparr>vp_mem := (vp_mem v)(VP_THRESHOLD (e_cntxt_num e) vcntxt := threshold)\<rparr>) s;
          pcntxt = vplic_vcntxt_to_pcntxt e vcntxt;
          s = upd_plic (plic_set_threshold (e_cntxt_num e) (of_int pcntxt) threshold) s
      in vplic_update_hart_line e vcntxt s)"

definition vplic_set_enbl :: "hv_env \<Rightarrow> int \<Rightarrow> int \<Rightarrow> bool \<Rightarrow> hv \<Rightarrow> hv" where
  "vplic_set_enbl e vcntxt i st s =
     (if i \<le> int PLIC_MAX_INTERRUPTS \<and> vplic_get_enbl vcntxt i (hv_vplic s) \<noteq> st then
        let s = upd_vplic (if st then vp_set (VP_ENBL vcntxt) i else vp_clear (VP_ENBL vcntxt) i) s
        in if vplic_get_hw i (hv_vplic s)
           then upd_plic (plic_set_enbl (e_cntxt_num e) (of_int (vplic_vcntxt_to_pcntxt e vcntxt)) (of_int i) st) s
           else vplic_update_hart_line e vcntxt s
      else s)"

text \<open>\<^verbatim>\<open>continue\<close> when the context's mode is not supervisor, in the loops of \<^verbatim>\<open>vplic_set_prio\<close> and \<^verbatim>\<open>vplic_inject\<close>.\<close>

definition s_cntxt :: "hv_env \<Rightarrow> nat \<Rightarrow> bool" where
  "s_cntxt e i \<longleftrightarrow> cx_mode (plic_plat_id_to_cntxt (e_cntxt_num e) (int i)) = PRIV_S"

definition vplic_set_prio :: "hv_env \<Rightarrow> int \<Rightarrow> u32 \<Rightarrow> hv \<Rightarrow> hv" where
  "vplic_set_prio e i prio s =
     (if i \<le> int PLIC_MAX_INTERRUPTS \<and> vplic_get_prio i (hv_vplic s) \<noteq> prio then
        let s = upd_vplic (\<lambda>v. v\<lparr>vp_mem := (vp_mem v)(VP_PRIO + to_size i := prio)\<rparr>) s
        in if vplic_get_hw i (hv_vplic s) then upd_plic (plic_set_prio (e_warl e) (of_int i) prio) s
           else fold (\<lambda>c s. if s_cntxt e c \<and> vplic_get_enbl (int c) i (hv_vplic s)
                            then vplic_update_hart_line e (int c) s else s)
                  [0..<vp_cntxt_num (hv_vplic s)] s
      else s)"

definition vplic_claim :: "hv_env \<Rightarrow> int \<Rightarrow> hv \<Rightarrow> nat \<times> hv" where
  "vplic_claim e vcntxt s =
     (let int_id = vplic_next_pending (e_cntxt_num e) vcntxt (hv_vplic s);
          s = upd_vplic (vp_clear VP_PEND (int int_id)) s;
          s = upd_vplic (vp_set VP_ACT (int int_id)) s
      in (int_id, vplic_update_hart_line e vcntxt s))"

definition vplic_complete :: "hv_env \<Rightarrow> int \<Rightarrow> int \<Rightarrow> hv \<Rightarrow> hv" where
  "vplic_complete e vcntxt int_id s =
     (let s = (if vplic_get_hw int_id (hv_vplic s)
               then upd_plic (plic_complete (e_plic_cntxt e) (of_int int_id)) s else s);
          s = upd_vplic (vp_clear VP_ACT int_id) s
      in vplic_update_hart_line e vcntxt s)"

definition vplic_inject :: "hv_env \<Rightarrow> int \<Rightarrow> hv \<Rightarrow> hv" where
  "vplic_inject e i s =
     (if 0 < i \<and> i \<le> int PLIC_MAX_INTERRUPTS \<and> \<not> vplic_get_pend i (hv_vplic s) then
        let s = upd_vplic (vp_set VP_PEND i) s
        in if vplic_get_hw i (hv_vplic s) then
             vplic_update_hart_line e
               (plic_plat_cntxt_to_id \<lparr>cx_hart_id = int (vc_id (cur_vcpu e s)), cx_mode = PRIV_S\<rparr>) s
           else fold (\<lambda>c s. if s_cntxt e c \<and> vplic_get_enbl (int c) i (hv_vplic s) \<and>
                               vplic_get_theshold (e_cntxt_num e) (int c) (hv_vplic s) < vplic_get_prio i (hv_vplic s)
                            then vplic_update_hart_line e (int c) s else s)
                  [0..<vp_cntxt_num (hv_vplic s)] s
      else s)"

subsection \<open>Emulation of the guest's accesses\<close>

definition plic_off :: "hv_env \<Rightarrow> emul_access \<Rightarrow> nat" where
  "plic_off e acc = sub64 (acc_addr acc) (e_plic_base e)"

definition vplic_emul_prio_access :: "hv_env \<Rightarrow> emul_access \<Rightarrow> hv \<Rightarrow> hv" where
  "vplic_emul_prio_access e acc s =
     (let int_id = int (plic_off e acc mod 0x1000 div 4) in
      if acc_write acc then vplic_set_prio e int_id (ucast (readreg e s (acc_reg acc))) s
      else writereg e (acc_reg acc) (ucast (vplic_get_prio int_id (hv_vplic s))) s)"

definition vplic_emul_pend_access :: "hv_env \<Rightarrow> emul_access \<Rightarrow> hv \<Rightarrow> hv" where
  "vplic_emul_pend_access e acc s =
     (if acc_write acc then s
      else
        let first_int = int (plic_off e acc mod 0x1000 div 4 * 32);
            val = fold (\<lambda>i (val :: u32). if vplic_get_pend (first_int + int i) (hv_vplic s)
                                 then val OR push_bit i 1 else val) [0..<32] 0
        in writereg e (acc_reg acc) (ucast val) s)"

definition vplic_emul_enbl_access :: "hv_env \<Rightarrow> emul_access \<Rightarrow> hv \<Rightarrow> hv" where
  "vplic_emul_enbl_access e acc s =
     (let vcntxt_id = int (sub64 (plic_off e acc) 0x2000 mod 0x200000 div 4 div PLIC_NUM_ENBL_REGS);
          first_int = int (plic_off e acc mod 0x80 div 4 * 32);
          val = (if acc_write acc then readreg e s (acc_reg acc) else 0)
      in if acc_write acc then
           if vplic_vcntxt_valid e vcntxt_id s
           then fold (\<lambda>i. vplic_set_enbl e vcntxt_id (first_int + int i) (val AND push_bit i 1 \<noteq> 0)) [0..<32] s
           else s
         else
           let val = (if vplic_vcntxt_valid e vcntxt_id s
                      then fold (\<lambda>i val. val OR (if vplic_get_enbl vcntxt_id (first_int + int i) (hv_vplic s)
                                                 then push_bit i 1 else 0)) [0..<32] val
                      else val)
           in writereg e (acc_reg acc) val s)"

definition vplic_global_emul_handler :: "hv_env \<Rightarrow> emul_access \<Rightarrow> hv \<Rightarrow> bool \<times> hv" where
  "vplic_global_emul_handler e acc s =
     (if acc_width acc \<noteq> 4 \<or> acc_addr acc mod 4 \<noteq> 0 then (False, s)
      else
        let k = acc_addr acc div 0x1000 mod 4 in
        (True, if k = 0 then vplic_emul_prio_access e acc s
               else if k = 1 then vplic_emul_pend_access e acc s
               else vplic_emul_enbl_access e acc s))"

definition vplic_hart_emul_handler :: "hv_env \<Rightarrow> emul_access \<Rightarrow> hv \<Rightarrow> bool \<times> hv" where
  "vplic_hart_emul_handler e acc s =
     (if 4 < acc_width acc \<or> acc_addr acc mod 4 \<noteq> 0 then (False, s)
      else
        let vcntxt = int (sub64 (plic_off e acc) PLIC_CLAIMCMPLT_OFF div 0x1000 mod 0x400) in
        if \<not> vplic_vcntxt_valid e vcntxt s then
          (True, if acc_write acc then s else writereg e (acc_reg acc) 0 s)
        else
          let off = acc_addr acc mod 0x10 in
          if off = 0 then
            (True, if acc_write acc then vplic_set_threshold e vcntxt (ucast (readreg e s (acc_reg acc))) s
                   else writereg e (acc_reg acc) (ucast (vplic_get_theshold (e_cntxt_num e) vcntxt (hv_vplic s))) s)
          else if off = 4 then
            (True, if acc_write acc
                   then vplic_complete e vcntxt (sint (ucast (readreg e s (acc_reg acc)) :: u32)) s
                   else let (int_id, s) = vplic_claim e vcntxt s in writereg e (acc_reg acc) (of_nat int_id) s)
          else (True, s))"

end
