(* ===== verification/Vplic_Props.thy ===== *)
theory Vplic_Props
  imports Vplic
begin

text \<open>
  Correctness of the virtual interrupt controller: which interrupt is next, what a claim and a
  completion do, when the guest's interrupt line is raised, and that the registers a guest accesses
  behave as registers.
\<close>

subsection \<open>The next interrupt\<close>

text \<open>An interrupt a context may take: pending, not active and enabled there.\<close>

definition candidate :: "vplic \<Rightarrow> int \<Rightarrow> nat \<Rightarrow> bool" where
  "candidate v vcntxt i \<longleftrightarrow>
     vplic_get_pend (int i) v \<and> \<not> vplic_get_act (int i) v \<and> vplic_get_enbl vcntxt (int i) v"

lemma next_pending_fold:
  "fold (next_pending_step v c) [0..<n] (0, 0) = (mp, k) \<Longrightarrow>
   (mp = 0 \<and> k = 0 \<and> (\<forall>i < n. candidate v c i \<longrightarrow> vplic_get_prio (int i) v = 0)) \<or>
   (0 < mp \<and> k < n \<and> candidate v c k \<and> vplic_get_prio (int k) v = mp \<and>
    (\<forall>i < n. candidate v c i \<longrightarrow> vplic_get_prio (int i) v \<le> mp) \<and>
    (\<forall>i < k. candidate v c i \<longrightarrow> vplic_get_prio (int i) v < mp))"
proof (induction n arbitrary: mp k)
  case 0
  then show ?case by simp
next
  case (Suc n)
  obtain mp' k' where f: "fold (next_pending_step v c) [0..<n] (0, 0) = (mp', k')" by fastforce
  then have step: "next_pending_step v c n (mp', k') = (mp, k)" using Suc.prems by simp
  let ?p = "vplic_get_prio (int n) v"
  show ?case
  proof (cases "candidate v c n \<and> mp' < ?p")
    case True
    then have "mp = ?p" "k = n" using step by (auto simp: next_pending_step_def candidate_def)
    moreover have "0 < ?p" using True word_gt_0 word_not_simps(1) by fastforce
    moreover have "\<forall>i < n. candidate v c i \<longrightarrow> vplic_get_prio (int i) v < ?p"
      using Suc.IH [OF f] True by (metis order_le_less_trans word_coorder.extremum)
    ultimately show ?thesis using True by (auto simp: less_Suc_eq order_less_imp_le)
  next
    case False
    then have "mp = mp'" "k = k'" using step by (auto simp: next_pending_step_def candidate_def split: if_splits)
    moreover have "candidate v c n \<longrightarrow> ?p \<le> mp'" using False by auto
    ultimately show ?thesis using Suc.IH [OF f] by (auto simp: less_Suc_eq)
  qed
qed

lemma next_pending_spec:
  assumes "\<not> candidate v c 0"
  shows "(vplic_next_pending cn c v = 0 \<and>
            (\<forall>i \<le> PLIC_MAX_INTERRUPTS. candidate v c i \<longrightarrow> vplic_get_prio (int i) v \<le> vplic_get_theshold cn c v)) \<or>
         (0 < vplic_next_pending cn c v \<and> vplic_next_pending cn c v \<le> PLIC_MAX_INTERRUPTS \<and>
          candidate v c (vplic_next_pending cn c v) \<and>
          vplic_get_theshold cn c v < vplic_get_prio (int (vplic_next_pending cn c v)) v \<and>
          (\<forall>i \<le> PLIC_MAX_INTERRUPTS. candidate v c i \<longrightarrow>
             vplic_get_prio (int i) v \<le> vplic_get_prio (int (vplic_next_pending cn c v)) v) \<and>
          (\<forall>i < vplic_next_pending cn c v. candidate v c i \<longrightarrow>
             vplic_get_prio (int i) v < vplic_get_prio (int (vplic_next_pending cn c v)) v))"
proof -
  obtain mp k where f: "fold (next_pending_step v c) [0..<PLIC_MAX_INTERRUPTS + 1] (0, 0) = (mp, k)" by fastforce
  then have r: "vplic_next_pending cn c v = (if vplic_get_theshold cn c v < mp then k else 0)"
    by (simp add: vplic_next_pending_def)
  from next_pending_fold [OF f] show ?thesis
  proof (elim disjE conjE)
    assume "mp = 0" "k = 0" "\<forall>i < PLIC_MAX_INTERRUPTS + 1. candidate v c i \<longrightarrow> vplic_get_prio (int i) v = 0"
    then show ?thesis using r by (simp add: less_Suc_eq_le)
  next
    assume a: "0 < mp" "k < PLIC_MAX_INTERRUPTS + 1" "candidate v c k" "vplic_get_prio (int k) v = mp"
      "\<forall>i < PLIC_MAX_INTERRUPTS + 1. candidate v c i \<longrightarrow> vplic_get_prio (int i) v \<le> mp"
      "\<forall>i < k. candidate v c i \<longrightarrow> vplic_get_prio (int i) v < mp"
    then have k: "0 < k" using assms by (cases k) auto
    show ?thesis
    proof (cases "vplic_get_theshold cn c v < mp")
      case True
      then show ?thesis using r a k by (simp add: less_Suc_eq_le)
    next
      case False
      then have "vplic_get_prio (int i) v \<le> vplic_get_theshold cn c v" if "i \<le> PLIC_MAX_INTERRUPTS" "candidate v c i" for i
        using a(5) that by (metis less_add_one linorder_not_less order_le_less_trans order_trans)
      then show ?thesis using r False by simp
    qed
  qed
qed

text \<open>
  C13: \<^verbatim>\<open>vplic_next_pending\<close> returns \<open>0\<close> exactly when no pending, inactive and enabled interrupt has a
  priority above the context's threshold; otherwise it returns the one of highest priority, the
  lowest number among equals. (Interrupt \<open>0\<close> does not exist; its pending bit is never set.)
\<close>

theorem vplic_next_pending_highest:
  assumes "\<not> candidate v c 0"
  shows "case vplic_next_pending cn c v of
      0 \<Rightarrow> \<forall>i \<le> PLIC_MAX_INTERRUPTS. candidate v c i \<longrightarrow> vplic_get_prio (int i) v \<le> vplic_get_theshold cn c v
    | Suc m \<Rightarrow> Suc m \<le> PLIC_MAX_INTERRUPTS \<and> candidate v c (Suc m) \<and>
        vplic_get_theshold cn c v < vplic_get_prio (int (Suc m)) v \<and>
        (\<forall>i \<le> PLIC_MAX_INTERRUPTS. candidate v c i \<longrightarrow>
           vplic_get_prio (int i) v < vplic_get_prio (int (Suc m)) v \<or>
           (vplic_get_prio (int i) v = vplic_get_prio (int (Suc m)) v \<and> Suc m \<le> i))"
  using next_pending_spec [OF assms, of cn]
  by (cases "vplic_next_pending cn c v") (auto simp: not_less order_le_less)

subsection \<open>Reading and writing the structure\<close>

lemma to_size_nat [simp]: "i < 2 ^ 64 \<Longrightarrow> to_size (int i) = i"
  unfolding to_size_def by (metis mod_less nat_int of_nat_numeral of_nat_power zmod_int)

lemma vp_get_set [simp]: "vp_get b i (vp_set b' j v) \<longleftrightarrow> 32 * b + to_size i = 32 * b' + to_size j \<or> vp_get b i v"
  by (simp add: vp_get_def vp_set_def bm_simps)

lemma vp_get_clear [simp]: "vp_get b i (vp_clear b' j v) \<longleftrightarrow> 32 * b + to_size i \<noteq> 32 * b' + to_size j \<and> vp_get b i v"
  by (simp add: vp_get_def vp_clear_def bm_simps)

lemma vp_get_word:
  "w \<noteq> b + to_size i div 32 \<Longrightarrow> vp_get b i (v\<lparr>vp_mem := (vp_mem v)(w := x)\<rparr>) \<longleftrightarrow> vp_get b i v"
  by (simp add: vp_get_def bitmap_get_def BITMAP_GRANULE_LEN_def)

lemma vp_mem_set: "w \<noteq> b + to_size j div 32 \<Longrightarrow> vp_mem (vp_set b j v) w = vp_mem v w"
  by (simp add: vp_set_def bitmap_set_def BITMAP_GRANULE_LEN_def)

lemma vp_mem_clear: "w \<noteq> b + to_size j div 32 \<Longrightarrow> vp_mem (vp_clear b j v) w = vp_mem v w"
  by (simp add: vp_clear_def bitmap_clear_def BITMAP_GRANULE_LEN_def)

lemma vp_cntxt_num_simps [simp]:
  "vp_cntxt_num (vp_set b i v) = vp_cntxt_num v" "vp_cntxt_num (vp_clear b i v) = vp_cntxt_num v"
  by (simp_all add: vp_set_def vp_clear_def)

lemma bitmap_ext: "(\<And>i. bitmap_get a i = bitmap_get b i) \<Longrightarrow> a = b"
proof (rule ext, rule bit_word_eqI)
  fix g n assume eq: "\<And>i. bitmap_get a i = bitmap_get b i" and n: "n < LENGTH(32)"
  then have "(32 * g + n) div 32 = g" "(32 * g + n) mod 32 = n" by simp_all
  then show "bit (a g) n = bit (b g) n" using eq [of "32 * g + n"] by (auto simp: bitmap_get_bit BITMAP_GRANULE_LEN_def of_bool_def split: if_splits)
qed

lemma vp_clear_set: "\<not> vp_get b i v \<Longrightarrow> vp_clear b i (vp_set b i v) = v"
proof -
  assume "\<not> vp_get b i v"
  then have "bitmap_clear (bitmap_set (vp_mem v) (32 * b + to_size i)) (32 * b + to_size i) = vp_mem v"
    using bitmap_get_cases [of "vp_mem v" "32 * b + to_size i"] by (intro bitmap_ext) (auto simp: bm_simps vp_get_def)
  then show ?thesis by (simp add: vp_clear_def vp_set_def)
qed

lemma hvip_vplic [simp]:
  "hv_vplic (hvip_set m s) = hv_vplic s" "hv_vplic (hvip_clear m s) = hv_vplic s"
  "hv_vplic (send_msg t m' s) = hv_vplic s" "hv_vplic (upd_plic f s) = hv_vplic s"
  "hv_vplic (writereg e r x s) = hv_vplic s" "hv_vplic (upd_vplic g s) = g (hv_vplic s)"
  by (simp_all add: hvip_set_def hvip_clear_def upd_csr_def send_msg_def upd_plic_def writereg_def upd_cur_def
      upd_vplic_def)

lemma update_hart_line_vplic [simp]: "hv_vplic (vplic_update_hart_line e c s) = hv_vplic s"
  by (simp add: vplic_update_hart_line_def Let_def)

lemma fold_vplic: "(\<And>c s. hv_vplic (F c s) = hv_vplic s) \<Longrightarrow> hv_vplic (fold F cs s) = hv_vplic s"
  by (induction cs arbitrary: s) auto

text \<open>
  The structure is well formed: interrupt \<open>0\<close> is not pending, and the bit after the enable bits of a
  supervisor context, which the guard \<^verbatim>\<open>id <= PLIC_MAX_INTERRUPTS\<close> lets the code read as the enable bit of an
  interrupt 1024, is clear. It is in the enable bits or the threshold of a machine context.
\<close>

definition vplic_wf :: "nat \<Rightarrow> vplic \<Rightarrow> bool" where
  "vplic_wf cn v \<longleftrightarrow> \<not> vp_get VP_PEND 0 v \<and> (\<forall>c < cn. odd c \<longrightarrow> \<not> vp_get (VP_ENBL (int c)) 1024 v) \<and> vp_cntxt_num v \<le> cn"

lemma to_size_numeral [simp]: "to_size 0 = 0" "to_size 5 = 5" "to_size 1024 = 1024"
  by (simp_all add: to_size_def)

lemma wf_not_candidate:
  assumes "vplic_wf cn v" "c < cn" "odd c"
  shows "\<not> candidate v (int c) 0" "\<not> candidate v (int c) 1024"
  using assms by (simp_all add: vplic_wf_def candidate_def vplic_get_pend_def vplic_get_enbl_def PLIC_MAX_INTERRUPTS_def)

lemma wf_next_pending:
  assumes "vplic_wf cn v" "c < cn" "odd c" "vplic_next_pending cn (int c) v \<noteq> 0"
  shows "vplic_next_pending cn (int c) v < 1024" "candidate v (int c) (vplic_next_pending cn (int c) v)"
proof -
  note spec = next_pending_spec [OF wf_not_candidate(1) [OF assms(1-3)], of cn]
  then show cand: "candidate v (int c) (vplic_next_pending cn (int c) v)" using assms(4) by auto
  have "vplic_next_pending cn (int c) v \<le> 1024" using spec by (auto simp: PLIC_MAX_INTERRUPTS_def)
  moreover have "vplic_next_pending cn (int c) v \<noteq> 1024" using cand wf_not_candidate(2) [OF assms(1-3)] by metis
  ultimately show "vplic_next_pending cn (int c) v < 1024" by simp
qed

subsection \<open>Claim and completion\<close>

lemma claim_vplic:
  "vplic_claim e c s = (r, s') \<Longrightarrow>
   r = vplic_next_pending (e_cntxt_num e) c (hv_vplic s) \<and>
   hv_vplic s' = vp_set VP_ACT (int r) (vp_clear VP_PEND (int r) (hv_vplic s))"
  by (auto simp: vplic_claim_def Let_def)

lemma complete_vplic: "hv_vplic (vplic_complete e c i s) = vp_clear VP_ACT i (hv_vplic s)"
  by (simp add: vplic_complete_def Let_def)

text \<open>
  C16: A claim on a supervisor context returns the next interrupt, which is then active and no longer
  pending; no other interrupt changes its state, and no context can claim this interrupt again until
  it is completed. Completing it makes it inactive and changes nothing else.
\<close>

theorem vplic_claim_complete:
  assumes "vplic_wf (e_cntxt_num e) (hv_vplic s)" "c < e_cntxt_num e" "odd c"
    "vplic_claim e (int c) s = (r, s')" "r \<noteq> 0"
  shows "candidate (hv_vplic s) (int c) r \<and> vplic_get_act (int r) (hv_vplic s') \<and> \<not> vplic_get_pend (int r) (hv_vplic s') \<and>
    (\<forall>d. \<not> candidate (hv_vplic s') d r) \<and>
    (\<forall>i < 1024. i \<noteq> r \<longrightarrow> vplic_get_pend (int i) (hv_vplic s') = vplic_get_pend (int i) (hv_vplic s) \<and>
                           vplic_get_act (int i) (hv_vplic s') = vplic_get_act (int i) (hv_vplic s)) \<and>
    (\<forall>d. hv_vplic (vplic_complete e d (int r) s') = vp_clear VP_PEND (int r) (hv_vplic s))"
proof -
  let ?v = "hv_vplic s"
  have r: "r = vplic_next_pending (e_cntxt_num e) (int c) ?v"
    and v': "hv_vplic s' = vp_set VP_ACT (int r) (vp_clear VP_PEND (int r) ?v)"
    using claim_vplic [OF assms(4)] by simp_all
  have lt: "r < 1024" and cand: "candidate ?v (int c) r" using wf_next_pending [OF assms(1-3)] r assms(5) by metis+
  have act: "vplic_get_act (int r) (hv_vplic s')" and pend: "\<not> vplic_get_pend (int r) (hv_vplic s')"
    using lt v' by (simp_all add: vplic_get_act_def vplic_get_pend_def VP_defs PLIC_MAX_INTERRUPTS_def)
  have others: "vplic_get_pend (int i) (hv_vplic s') = vplic_get_pend (int i) ?v"
      "vplic_get_act (int i) (hv_vplic s') = vplic_get_act (int i) ?v" if "i < 1024" "i \<noteq> r" for i
    using that lt v' by (simp_all add: vplic_get_act_def vplic_get_pend_def VP_defs PLIC_MAX_INTERRUPTS_def)
  have "\<not> vp_get VP_ACT (int r) ?v" using cand lt by (simp add: candidate_def vplic_get_act_def PLIC_MAX_INTERRUPTS_def)
  then have "vp_clear VP_ACT (int r) (vp_set VP_ACT (int r) (vp_clear VP_PEND (int r) ?v)) = vp_clear VP_PEND (int r) ?v"
    by (intro vp_clear_set) (simp add: VP_defs)
  then show ?thesis using cand act pend others complete_vplic v' by (simp add: candidate_def)
qed

subsection \<open>The interrupt line\<close>

text \<open>The contexts of the platform cover the VM's CPUs, and \<open>c\<close> is the supervisor context of virtual CPU \<open>k\<close>.\<close>

definition cntxts_ok :: "hv_env \<Rightarrow> bool" where
  "cntxts_ok e \<longleftrightarrow> (\<forall>p. bit (e_cpus e) p \<longrightarrow> 2 * p + 1 < e_cntxt_num e)"

lemma rank_lt_cntxt:
  assumes "cntxts_ok e" "k < rank (e_cpus e) 64"
  obtains p where "vm_translate_to_pcpuid (e_cpus e) k = int p" "bit (e_cpus e) p" "2 * p + 1 < e_cntxt_num e"
    "2 * k + 1 < e_cntxt_num e"
proof -
  obtain p where p: "vm_translate_to_pcpuid (e_cpus e) k = int p" "bit (e_cpus e) p" "rank (e_cpus e) p = k"
    using to_pcpuid_spec [of "e_cpus e" k] assms(2) by auto
  have "rank (e_cpus e) p \<le> card {x. x < p}" unfolding rank_def by (intro card_mono) auto
  then show thesis using that p assms(1) by (auto simp: cntxts_ok_def)
qed

lemma vcntxt_to_pcntxt:
  assumes "cntxts_ok e" "k < rank (e_cpus e) 64"
  shows "\<exists>p. bit (e_cpus e) p \<and> vm_translate_to_pcpuid (e_cpus e) k = int p \<and>
    vplic_vcntxt_to_pcntxt e (int (2 * k + 1)) = 2 * int p + 1 \<and>
    cx_hart_id (plic_plat_id_to_cntxt (e_cntxt_num e) (2 * int p + 1)) = int p"
proof -
  obtain p where p: "vm_translate_to_pcpuid (e_cpus e) k = int p" "bit (e_cpus e) p" "2 * p + 1 < e_cntxt_num e"
    "2 * k + 1 < e_cntxt_num e" by (rule rank_lt_cntxt [OF assms])
  have "rank (e_cpus e) 64 \<le> card {x. x < (64::nat)}" unfolding rank_def by (intro card_mono) auto
  then have "k < 2 ^ 64" using assms(2) by simp
  then have "vplic_vcntxt_to_pcntxt e (int (2 * k + 1)) = 2 * int p + 1"
    using p by (simp only: vplic_vcntxt_to_pcntxt_def id_to_cntxt Let_def)
      (simp add: plic_plat_cntxt_to_id_def PRIV_S_def PRIV_M_def)
  moreover have "plic_plat_id_to_cntxt (e_cntxt_num e) (int (2 * p + 1)) = \<lparr>cx_hart_id = int p, cx_mode = PRIV_S\<rparr>"
    using p(3) by (simp only: id_to_cntxt) simp
  moreover have "int (2 * p + 1) = 2 * int p + 1" by simp
  ultimately show ?thesis using p(1,2) by (intro exI [of _ p]) (metis plic_cntxt.select_convs(1))
qed

lemma bit_VSEIP: "bit HIP_VSEIP b \<longleftrightarrow> b = 10"
  by (auto simp: HIP_VSEIP_def bit_push_bit_iff bit_1_iff simp del: push_bit_of_1)

text \<open>
  Updating the interrupt line of virtual CPU \<open>k\<close>: on the physical CPU that runs it, the external
  interrupt of the guest is raised exactly if an interrupt is to be taken; on any other CPU one
  message goes to that physical CPU, which belongs to the VM, and nothing else changes.
\<close>

theorem vplic_update_hart_line_exact:
  assumes "cntxts_ok e" "k < rank (e_cpus e) 64"
  shows "\<exists>p. bit (e_cpus e) p \<and> vm_translate_to_pcpuid (e_cpus e) k = int p \<and>
    (if p = e_cpu_id e
     then \<exists>h. vplic_update_hart_line e (int (2 * k + 1)) s = s\<lparr>hv_csr := (hv_csr s)\<lparr>c_hvip := h\<rparr>\<rparr> \<and>
            (bit h 10 \<longleftrightarrow> vplic_next_pending (e_cntxt_num e) (int (2 * k + 1)) (hv_vplic s) \<noteq> 0) \<and>
            (\<forall>b. b \<noteq> 10 \<longrightarrow> bit h b = bit (c_hvip (hv_csr s)) b)
     else vplic_update_hart_line e (int (2 * k + 1)) s = s\<lparr>hv_msgs := hv_msgs s @
            [(int p, \<lparr>msg_handler = e_vplic_ipi_id e, msg_event = UPDATE_HART_LINE, msg_data = of_int (int (2 * k + 1))\<rparr>)]\<rparr>)"
proof -
  obtain p where p: "bit (e_cpus e) p" "vm_translate_to_pcpuid (e_cpus e) k = int p"
    "vplic_vcntxt_to_pcntxt e (int (2 * k + 1)) = 2 * int p + 1"
    "cx_hart_id (plic_plat_id_to_cntxt (e_cntxt_num e) (2 * int p + 1)) = int p"
    using vcntxt_to_pcntxt [OF assms] by blast
  let ?n = "vplic_next_pending (e_cntxt_num e) (int (2 * k + 1)) (hv_vplic s)"
  have u: "vplic_update_hart_line e (int (2 * k + 1)) s =
      (if p = e_cpu_id e then if ?n \<noteq> 0 then hvip_set HIP_VSEIP s else hvip_clear HIP_VSEIP s
       else send_msg (int p) \<lparr>msg_handler = e_vplic_ipi_id e, msg_event = UPDATE_HART_LINE,
              msg_data = of_int (int (2 * k + 1))\<rparr> s)"
    unfolding vplic_update_hart_line_def Let_def p(3,4) by (simp only: of_nat_eq_iff)
  let ?h = "if ?n \<noteq> 0 then c_hvip (hv_csr s) OR HIP_VSEIP else c_hvip (hv_csr s) AND NOT HIP_VSEIP"
  have "(if ?n \<noteq> 0 then hvip_set HIP_VSEIP s else hvip_clear HIP_VSEIP s) = s\<lparr>hv_csr := (hv_csr s)\<lparr>c_hvip := ?h\<rparr>\<rparr>"
    by (simp add: hvip_set_def hvip_clear_def upd_csr_def)
  moreover have "bit ?h 10 \<longleftrightarrow> ?n \<noteq> 0" "\<forall>b. b \<noteq> 10 \<longrightarrow> bit ?h b = bit (c_hvip (hv_csr s)) b"
    by (auto simp: bit_or_iff bit_and_iff bit_not_iff_eq bit_VSEIP dest: bit_imp_le_length)
  ultimately show ?thesis using u p(1,2) by (intro exI [of _ p]) (auto simp: send_msg_def)
qed

subsection \<open>An example\<close>

text \<open>A VM with one CPU, where interrupt 5 is pending, enabled in the supervisor context, with priority 3.\<close>

definition vp_example :: vplic where
  "vp_example = vp_set VP_PEND 5 (vp_set (VP_ENBL 1) 5 \<lparr>vp_cntxt_num = 2, vp_mem = (\<lambda>_. 0)(101 := 3)\<rparr>)"

definition env_example :: hv_env where
  "env_example = \<lparr>e_cpu_id = 0, e_cur = 0, e_vm_id = 0, e_cpus = 1, e_cpu_num = 1, e_ipcs = [], e_shmem = [],
     e_plat_cpu_num = 1, e_cntxt_num = 2, e_plic_base = 0xc000000, e_plic_cntxt = 1,
     e_ecall = (\<lambda>_. \<lparr>sbi_error = 0, sbi_value = 2\<rparr>), e_warl = (\<lambda>_ v. v), e_junk = 0,
     e_sbi_msg_id = 0, e_vplic_ipi_id = 1, e_ipc_cpumsg_id = 2\<rparr>"

definition vcpu_example :: vcpu where
  "vcpu_example = \<lparr>vc_regs = \<lparr>r_x = (\<lambda>_. 0), r_hstatus = 0, r_sstatus = 0, r_sepc = 0x80000000\<rparr>, vc_hart_id = 0,
     vc_sbi_ctx = \<lparr>hsm_state = STARTED, hsm_start_addr = 0, hsm_priv = 0\<rparr>, vc_id = 0, vc_phys_id = 0, vc_active = True\<rparr>"

definition csrs_zero :: csrs where
  "csrs_zero = \<lparr>c_sie = 0, c_sip = 0, c_hvip = 0, c_hie = 0, c_hcounteren = 0, c_htimedelta = 0, c_vsstatus = 0,
     c_vstvec = 0, c_vsscratch = 0, c_vsepc = 0, c_vscause = 0, c_vstval = 0, c_vsatp = 0, c_hgatp = 0,
     c_hideleg = 0, c_hedeleg = 0\<rparr>"

definition plic_zero :: plic where
  "plic_zero = \<lparr>plic_impl = 30, plic_prio = (\<lambda>_. 0), plic_pend = (\<lambda>_. 0), plic_enbl = (\<lambda>_ _. 0),
     plic_threshold = (\<lambda>_. 0), plic_claim = (\<lambda>_. 0), plic_completed = []\<rparr>"

definition hv_example :: hv where
  "hv_example = \<lparr>hv_vcpus = [vcpu_example], hv_csr = csrs_zero, hv_plic = plic_zero, hv_vplic = vp_example,
     hv_msgs = [], hv_ecalls = []\<rparr>"

lemma vp_zero_get:
  "b + to_size i div 32 \<noteq> 101 \<Longrightarrow> \<not> vp_get b i \<lparr>vp_cntxt_num = n, vp_mem = (\<lambda>_. 0)(101 := x)\<rparr>"
  by (simp add: vp_get_def bitmap_get_def BITMAP_GRANULE_LEN_def)

lemma vp_example_pend: "i < 1024 \<Longrightarrow> vp_get VP_PEND (int i) vp_example \<longleftrightarrow> i = 5"
  by (simp add: vp_example_def VP_defs to_size_def vp_zero_get)

lemma vp_example_enbl: "i \<le> 1024 \<Longrightarrow> vp_get (VP_ENBL 1) (int i) vp_example \<longleftrightarrow> i = 5"
  by (simp add: vp_example_def VP_defs vp_zero_get)

lemma vp_example_act: "i < 1024 \<Longrightarrow> \<not> vp_get VP_ACT (int i) vp_example"
  by (simp add: vp_example_def VP_defs vp_zero_get)

lemma vp_example_candidate: "i \<le> 1024 \<Longrightarrow> candidate vp_example 1 i \<longleftrightarrow> i = 5"
  using vp_example_pend [of i] vp_example_enbl [of i] vp_example_act [of i]
  by (cases "i = 1024") (auto simp: candidate_def vplic_get_pend_def vplic_get_act_def vplic_get_enbl_def PLIC_MAX_INTERRUPTS_def)

lemma vp_example_prio: "vplic_get_prio 5 vp_example = 3" "vplic_get_theshold 2 1 vp_example = 0"
  by (simp_all add: vplic_get_prio_def vplic_get_theshold_def vp_example_def VP_defs vp_mem_set PLIC_MAX_INTERRUPTS_def)

lemma vp_example_wf: "vplic_wf 2 vp_example"
proof -
  have "\<not> vp_get (VP_ENBL (int c)) 1024 vp_example" if "c < 2" "odd c" for c
  proof -
    have "int c = 1" using that by (cases c) auto
    then show ?thesis using vp_example_enbl [of 1024] by simp
  qed
  moreover have "vp_cntxt_num vp_example = 2" by (simp add: vp_example_def)
  ultimately show ?thesis using vp_example_pend [of 0] by (simp add: vplic_wf_def)
qed

lemma vp_example_next: "vplic_next_pending 2 1 vp_example = 5"
proof -
  have n0: "\<not> candidate vp_example 1 0" by (simp add: vp_example_candidate)
  have "candidate vp_example 1 5" by (simp add: vp_example_candidate)
  then have "vplic_get_prio (int 5) vp_example \<le> vplic_get_theshold 2 1 vp_example"
    if "\<forall>i \<le> PLIC_MAX_INTERRUPTS. candidate vp_example 1 i \<longrightarrow> vplic_get_prio (int i) vp_example \<le> vplic_get_theshold 2 1 vp_example"
    using that [rule_format, of 5] by (simp add: PLIC_MAX_INTERRUPTS_def)
  then have "candidate vp_example 1 (vplic_next_pending 2 1 vp_example)" "vplic_next_pending 2 1 vp_example \<le> 1024"
    using next_pending_spec [OF n0, of 2] vp_example_prio by (auto simp: PLIC_MAX_INTERRUPTS_def)
  then show ?thesis using vp_example_candidate by simp
qed

theorem vplic_next_pending_highest_witness:
  "\<exists>m. vplic_next_pending 2 1 vp_example = Suc m \<and> candidate vp_example 1 (Suc m) \<and>
     vplic_get_theshold 2 1 vp_example < vplic_get_prio (int (Suc m)) vp_example"
proof -
  have "\<not> candidate vp_example 1 0" by (simp add: vp_example_candidate)
  then show ?thesis using vplic_next_pending_highest [of vp_example 1 2] vp_example_next
    by (cases "vplic_next_pending 2 1 vp_example") auto
qed

theorem vplic_claim_complete_witness:
  "\<exists>s'. vplic_claim env_example 1 hv_example = (5, s') \<and>
     vplic_get_act (int 5) (hv_vplic s') \<and> (\<forall>d. \<not> candidate (hv_vplic s') d 5)"
proof -
  obtain r s' where c: "vplic_claim env_example 1 hv_example = (r, s')" by fastforce
  then have "r = 5" using claim_vplic [OF c] vp_example_next by (simp add: env_example_def hv_example_def)
  then show ?thesis
    using c vplic_claim_complete [of env_example hv_example 1 r s'] vp_example_wf
    by (simp add: env_example_def hv_example_def)
qed

theorem vplic_update_hart_line_exact_witness:
  "\<exists>h. vplic_update_hart_line env_example 1 hv_example = hv_example\<lparr>hv_csr := csrs_zero\<lparr>c_hvip := h\<rparr>\<rparr>"
proof -
  have b: "bit (1 :: u64) p \<longleftrightarrow> p = 0" for p by (simp add: bit_1_iff)
  have "cntxts_ok env_example" by (simp add: cntxts_ok_def env_example_def b)
  moreover have "rank 1 64 = 1"
  proof -
    have "{x. x < (64::nat) \<and> bit (1 :: u64) x} = {0}" by (auto simp: bit_1_iff)
    then show ?thesis by (simp add: rank_def)
  qed
  moreover have "p = 0" if "bit (e_cpus env_example) p" for p using that b by (simp add: env_example_def)
  moreover have "rank (e_cpus env_example) 64 = rank 1 64" "e_cpu_id env_example = 0" "hv_csr hv_example = csrs_zero"
    by (simp_all add: env_example_def hv_example_def)
  ultimately have "\<exists>p. p = e_cpu_id env_example \<and> (if p = e_cpu_id env_example
      then \<exists>h. vplic_update_hart_line env_example (int (2 * 0 + 1)) hv_example =
             hv_example\<lparr>hv_csr := (hv_csr hv_example)\<lparr>c_hvip := h\<rparr>\<rparr> else True)"
    using vplic_update_hart_line_exact [of env_example 0 hv_example] by (metis zero_less_one)
  then show ?thesis using \<open>hv_csr hv_example = csrs_zero\<close> by simp
qed

subsection \<open>The guest's accesses\<close>

lemma set_enbl_get:
  assumes "i \<le> 1024"
  shows "vp_get b j (hv_vplic (vplic_set_enbl e c (int i) st s)) \<longleftrightarrow>
    (if 32 * b + to_size j = 32 * VP_ENBL c + i then st else vp_get b j (hv_vplic s))"
proof -
  have "to_size (int i) = i" using assms by simp
  moreover have "vp_get (VP_ENBL c) (int i) v = vp_get b j v" if "32 * b + to_size j = 32 * VP_ENBL c + i" for v
    using that assms by (simp add: vp_get_def)
  ultimately show ?thesis using assms
    by (auto simp: vplic_set_enbl_def Let_def vplic_get_enbl_def PLIC_MAX_INTERRUPTS_def)
qed

lemma set_enbls_get:
  assumes "f + n \<le> 1024"
  shows "vp_get b j (hv_vplic (fold (\<lambda>i. vplic_set_enbl e c (int f + int i) (P i)) [0..<n] s)) \<longleftrightarrow>
    (if \<exists>i < n. 32 * b + to_size j = 32 * VP_ENBL c + f + i
     then P (32 * b + to_size j - (32 * VP_ENBL c + f)) else vp_get b j (hv_vplic s))"
  using assms
proof (induction n)
  case (Suc n)
  have "int f + int n = int (f + n)" by simp
  then show ?case using Suc set_enbl_get [of "f + n" b j e c "P n"] by (auto simp: less_Suc_eq)
qed simp

lemma vcntxt_valid_odd:
  assumes "vplic_vcntxt_valid e (int c) s" "vplic_wf (e_cntxt_num e) (hv_vplic s)" "c < 2 ^ 64"
  shows "odd c" "c < e_cntxt_num e"
proof -
  show lt: "c < e_cntxt_num e" using assms by (simp add: vplic_vcntxt_valid_def vplic_wf_def)
  show "odd c" using assms(1) id_to_cntxt [OF lt]
    by (auto simp: vplic_vcntxt_valid_def PRIV_M_def PRIV_S_def split: if_splits)
qed

lemma wf_clear: "vplic_wf cn v \<Longrightarrow> vplic_wf cn (vp_clear b i v)"
  by (simp add: vplic_wf_def)

lemma wf_set_act: "vplic_wf cn v \<Longrightarrow> i < 1024 \<Longrightarrow> vplic_wf cn (vp_set VP_ACT (int i) v)"
  by (simp add: vplic_wf_def VP_defs)

lemma wf_set_pend: "vplic_wf cn v \<Longrightarrow> 0 < i \<Longrightarrow> i \<le> 1024 \<Longrightarrow> vplic_wf cn (vp_set VP_PEND (int i) v)"
  by (simp add: vplic_wf_def VP_defs)

lemma wf_word:
  assumes "vplic_wf cn v" "w \<noteq> 32" "\<forall>c < cn. odd c \<longrightarrow> w \<noteq> 1152 + 32 * c"
  shows "vplic_wf cn (v\<lparr>vp_mem := (vp_mem v)(w := x)\<rparr>)"
  using assms unfolding vplic_wf_def by (auto simp: vp_get_word VP_defs)

lemma wf_set_enbl:
  assumes "vplic_wf cn (hv_vplic s)" "odd c" "i < 1024"
  shows "vplic_wf cn (hv_vplic (vplic_set_enbl e (int c) (int i) st s))"
proof -
  have "32 * VP_ENBL (int d) + 1024 \<noteq> 32 * VP_ENBL (int c) + i" if "odd d" for d
  proof
    assume "32 * VP_ENBL (int d) + 1024 = 32 * VP_ENBL (int c) + i"
    then have "1024 * d + 1024 = 1024 * c + i" by (simp add: VP_ENBL_def)
    then have "c = d + 1" using assms(3) by linarith
    then show False using that assms(2) by simp
  qed
  moreover have "vp_cntxt_num (hv_vplic (vplic_set_enbl e (int c) (int i) st s)) = vp_cntxt_num (hv_vplic s)"
    by (simp add: vplic_set_enbl_def Let_def)
  ultimately show ?thesis using assms by (simp add: vplic_wf_def set_enbl_get) (simp add: VP_defs)
qed

lemma wf_set_enbls:
  assumes "vplic_wf cn (hv_vplic s)" "odd c" "f + n \<le> 1024"
  shows "vplic_wf cn (hv_vplic (fold (\<lambda>i. vplic_set_enbl e (int c) (int f + int i) (P i)) [0..<n] s))"
  using assms
proof (induction n)
  case (Suc n)
  then show ?case using wf_set_enbl [of cn _ c "f + n"] by simp
qed simp

lemma wf_set_prio:
  assumes "vplic_wf cn (hv_vplic s)" "i < 1024"
  shows "vplic_wf cn (hv_vplic (vplic_set_prio e (int i) x s))"
  using assms wf_word [OF assms(1), of "96 + i" x] by (auto simp: vplic_set_prio_def Let_def VP_PRIO_def fold_vplic)

lemma wf_set_threshold:
  assumes "vplic_wf (e_cntxt_num e) (hv_vplic s)" "odd c"
  shows "vplic_wf (e_cntxt_num e) (hv_vplic (vplic_set_threshold e (int c) x s))"
proof -
  have "1120 + 32 * e_cntxt_num e + c \<noteq> 1152 + 32 * d" if "d < e_cntxt_num e" for d
  proof
    assume "1120 + 32 * e_cntxt_num e + c = 1152 + 32 * d"
    then show False using that assms(2) by (cases "c = 0") auto
  qed
  moreover have "1120 + 32 * e_cntxt_num e + c \<noteq> 32" by simp
  ultimately show ?thesis using wf_word [OF assms(1), of "1120 + 32 * e_cntxt_num e + c" x]
    by (simp add: vplic_set_threshold_def Let_def VP_THRESHOLD_def)
qed

lemma wf_claim:
  assumes "vplic_wf (e_cntxt_num e) (hv_vplic s)" "odd c" "c < e_cntxt_num e" "vplic_claim e (int c) s = (r, s')"
  shows "vplic_wf (e_cntxt_num e) (hv_vplic s')"
proof -
  have "r < 1024" using claim_vplic [OF assms(4)] wf_next_pending(1) [OF assms(1,3,2)]
    by (cases "r = 0") auto
  then show ?thesis using claim_vplic [OF assms(4)] assms(1) by (simp add: wf_clear wf_set_act)
qed

lemma wf_inject:
  assumes "vplic_wf cn (hv_vplic s)" shows "vplic_wf cn (hv_vplic (vplic_inject e i s))"
proof (cases "0 < i \<and> i \<le> 1024")
  case True
  then obtain k where "i = int k" "0 < k" "k \<le> 1024" by (metis nat_0_le nat_less_iff nat_le_iff of_nat_numeral order_less_imp_le zero_less_nat_eq)
  then show ?thesis using assms wf_set_pend [OF assms, of k] by (auto simp: vplic_inject_def Let_def fold_vplic)
next
  case False
  then show ?thesis using assms by (auto simp: vplic_inject_def PLIC_MAX_INTERRUPTS_def)
qed

text \<open>
  C17: Every access of a guest to the registers of its virtual interrupt controller, and every injection
  of an interrupt, keeps the structure well formed: interrupt \<open>0\<close> never becomes pending, and no context
  can be made to see an interrupt with the number 1024.
\<close>

theorem vplic_emul_keeps_wf:
  assumes "vplic_wf (e_cntxt_num e) (hv_vplic s)"
  shows "vplic_wf (e_cntxt_num e) (hv_vplic (snd (vplic_global_emul_handler e acc s))) \<and>
    vplic_wf (e_cntxt_num e) (hv_vplic (snd (vplic_hart_emul_handler e acc s))) \<and>
    vplic_wf (e_cntxt_num e) (hv_vplic (vplic_inject e i s))"
proof (intro conjI)
  let ?wf = "\<lambda>s. vplic_wf (e_cntxt_num e) (hv_vplic s)"
  let ?p = "plic_off e acc mod 0x1000 div 4"
  have "?p < 1024" by (simp add: less_mult_imp_div_less)
  then have prio: "?wf (vplic_emul_prio_access e acc s)"
    using wf_set_prio [OF assms, of ?p] assms by (simp add: vplic_emul_prio_access_def Let_def)
  have pend: "?wf (vplic_emul_pend_access e acc s)" using assms by (simp add: vplic_emul_pend_access_def Let_def)
  let ?c = "sub64 (plic_off e acc) 0x2000 mod 0x200000 div 4 div PLIC_NUM_ENBL_REGS"
  let ?f = "plic_off e acc mod 0x80 div 4 * 32"
  have "plic_off e acc mod 0x80 div 4 < 32" by (simp add: less_mult_imp_div_less)
  then have "?f + 32 \<le> 1024" by linarith
  moreover have "sub64 (plic_off e acc) 0x2000 mod 0x200000 < 0x200000" by simp
  then have "?c < 2 ^ 64" by (simp add: PLIC_NUM_ENBL_REGS_def PLIC_MAX_INTERRUPTS_def less_mult_imp_div_less)
  ultimately have "?wf (fold (\<lambda>i. vplic_set_enbl e (int ?c) (int ?f + int i) (P i)) [0..<32] s)"
    if "vplic_vcntxt_valid e (int ?c) s" for P
    using that by (intro wf_set_enbls [OF assms vcntxt_valid_odd(1) [OF _ assms]])
  then have enbl: "?wf (vplic_emul_enbl_access e acc s)"
    using assms unfolding vplic_emul_enbl_access_def Let_def by (auto simp only: hvip_vplic split: if_splits)
  show "?wf (snd (vplic_global_emul_handler e acc s))"
    using prio pend enbl assms by (simp add: vplic_global_emul_handler_def Let_def)
  let ?h = "sub64 (plic_off e acc) PLIC_CLAIMCMPLT_OFF div 0x1000 mod 0x400"
  have "?h < 0x400" by simp
  then have h: "?h < 2 ^ 64" by (rule less_trans) simp
  show "?wf (snd (vplic_hart_emul_handler e acc s))"
  proof (cases "vplic_vcntxt_valid e (int ?h) s")
    case True
    note o = vcntxt_valid_odd [OF True assms h]
    have "?wf (snd (vplic_claim e (int ?h) s))"
      using wf_claim [OF assms o] by (cases "vplic_claim e (int ?h) s") simp
    moreover have "?wf (vplic_set_threshold e (int ?h) x s)" for x by (rule wf_set_threshold [OF assms o(1)])
    moreover have "?wf (vplic_complete e (int ?h) x s)" for x by (simp add: complete_vplic wf_clear assms)
    ultimately show ?thesis using assms True
      by (simp add: vplic_hart_emul_handler_def Let_def case_prod_unfold)
  next
    case False
    then show ?thesis using assms by (simp add: vplic_hart_emul_handler_def Let_def)
  qed
  show "?wf (vplic_inject e i s)" by (rule wf_inject [OF assms])
qed

theorem vplic_emul_keeps_wf_witness:
  "vplic_wf 2 (hv_vplic (vplic_inject env_example 7 hv_example))"
proof -
  have "e_cntxt_num env_example = 2" "hv_vplic hv_example = vp_example" by (simp_all add: env_example_def hv_example_def)
  then show ?thesis using vplic_emul_keeps_wf [of env_example hv_example] vp_example_wf by metis
qed

text \<open>
  A guest that writes a 32-bit enable register of a supervisor context of one of its harts sets the
  enable bits of exactly these 32 interrupts in this context to the bits it wrote; a read of the
  register returns the enable bits.
\<close>

theorem vplic_enable_register:
  assumes "vplic_wf (e_cntxt_num e) (hv_vplic s)" "c < 64" "w < 32"
    "acc_addr acc = e_plic_base e + 0x2000 + 0x80 * c + 4 * w" "0x4000 dvd e_plic_base e" "e_plic_base e < 2 ^ 63"
    "vplic_vcntxt_valid e (int c) s" "acc_width acc = 4" "acc_write acc"
    "vplic_global_emul_handler e acc s = (ok, s')" "d < e_cntxt_num e" "i < 1024"
  shows "ok \<and> vplic_get_enbl (int d) (int i) (hv_vplic s') =
    (if d = c \<and> i div 32 = w then bit (readreg e s (acc_reg acc)) (i mod 32)
     else vplic_get_enbl (int d) (int i) (hv_vplic s))"
proof -
  let ?val = "readreg e s (acc_reg acc)"
  have lt: "acc_addr acc < 2 ^ 64" using assms(2-4,6) by simp
  have off: "plic_off e acc = 0x2000 + 0x80 * c + 4 * w"
    using sub64_le [of "e_plic_base e" "acc_addr acc"] assms(4) lt by (simp add: plic_off_def)
  have off2: "sub64 (plic_off e acc) 0x2000 = 0x80 * c + 4 * w"
    using sub64_le [of "0x2000" "plic_off e acc"] off assms(2,3) by simp
  have c: "sub64 (plic_off e acc) 0x2000 mod 0x200000 div 4 div PLIC_NUM_ENBL_REGS = c"
    using assms(2,3) unfolding off2 by (simp add: PLIC_NUM_ENBL_REGS_def PLIC_MAX_INTERRUPTS_def)
  have f: "plic_off e acc mod 0x80 div 4 * 32 = 32 * w"
  proof -
    have "plic_off e acc = 4 * w + 0x80 * (64 + c)" using off by simp
    then have "plic_off e acc mod 0x80 = 4 * w" using assms(3) by (simp only: mod_mult_self2) simp
    then show ?thesis by simp
  qed
  obtain k where k: "e_plic_base e = 0x4000 * k" using assms(5) by blast
  have "acc_addr acc div 0x1000 = 4 * k + (0x2000 + 0x80 * c + 4 * w) div 0x1000"
  proof -
    have "acc_addr acc = 0x2000 + 0x80 * c + 4 * w + 0x1000 * (4 * k)" using assms(4) k by simp
    then show ?thesis by (simp only: div_mult_self2)
  qed
  moreover have "(0x2000 + 0x80 * c + 4 * w) div 0x1000 = 2 \<or> (0x2000 + 0x80 * c + 4 * w) div 0x1000 = 3"
    using assms(2,3) by linarith
  ultimately have pg: "acc_addr acc div 0x1000 mod 4 = 2 \<or> acc_addr acc div 0x1000 mod 4 = 3" by auto
  have al: "acc_addr acc mod 4 = 0"
  proof -
    have "acc_addr acc = 4 * (0x1000 * k + 0x800 + 0x20 * c + w)" using assms(4) k by simp
    then show ?thesis by (simp only: mod_mult_self1_is_0)
  qed
  have s': "ok" "s' = fold (\<lambda>i. vplic_set_enbl e (int c) (int (32 * w) + int i) (?val AND push_bit i 1 \<noteq> 0)) [0..<32] s"
    using assms(7-10) pg al unfolding vplic_global_emul_handler_def vplic_emul_enbl_access_def c f Let_def
    by (auto split: if_splits)
  have b: "?val AND push_bit j 1 \<noteq> 0 \<longleftrightarrow> bit ?val j" for j
    using bit_get_iff [of ?val j] by (simp add: bit_get_def)
  have "32 * w + 32 \<le> 1024" using assms(3) by linarith
  note get = set_enbls_get [OF this, of "VP_ENBL (int d)" "int i" e "int c" "\<lambda>i. ?val AND push_bit i 1 \<noteq> 0" s]
  have pos: "32 * VP_ENBL (int d) + i = 32 * VP_ENBL (int c) + 32 * w + j \<longleftrightarrow> d = c \<and> i = 32 * w + j" if "j < 32" for j
  proof -
    have "32 * VP_ENBL (int d) + i = 32 * VP_ENBL (int c) + 32 * w + j \<longleftrightarrow> 1024 * d + i = 1024 * c + (32 * w + j)"
      by (simp add: VP_ENBL_def)
    also have "\<dots> \<longleftrightarrow> d = c \<and> i = 32 * w + j"
      using assms(3,12) that by (cases d c rule: linorder_cases) linarith+
    finally show ?thesis .
  qed
  have ex: "(\<exists>j < 32. d = c \<and> i = 32 * w + j) \<longleftrightarrow> d = c \<and> i div 32 = w"
  proof
    assume "d = c \<and> i div 32 = w"
    then have "d = c" "i = 32 * w + i mod 32" by auto
    moreover have "i mod 32 < 32" by simp
    ultimately show "\<exists>j < 32. d = c \<and> i = 32 * w + j" by metis
  qed auto
  have ts: "to_size (int i) = i" using assms(12) by simp
  note get' = get [unfolded ts, folded s'(2)]
  have "vp_get (VP_ENBL (int d)) (int i) (hv_vplic s') \<longleftrightarrow>
      (if d = c \<and> i div 32 = w then bit ?val (i mod 32) else vp_get (VP_ENBL (int d)) (int i) (hv_vplic s))"
  proof (cases "d = c \<and> i div 32 = w")
    case True
    then have dc: "d = c" and i: "i = 32 * w + i mod 32" and lt: "i mod 32 < 32" by auto
    have "32 * VP_ENBL (int d) + i - (32 * VP_ENBL (int c) + 32 * w) = i - 32 * w" using dc by simp
    then have "32 * VP_ENBL (int d) + i - (32 * VP_ENBL (int c) + 32 * w) = i mod 32" using i by linarith
    moreover have "\<exists>j < 32. 32 * VP_ENBL (int d) + i = 32 * VP_ENBL (int c) + 32 * w + j"
      using ex pos True by blast
    ultimately show ?thesis using True b unfolding get' by metis
  next
    case False
    then have "\<not> (\<exists>j < 32. 32 * VP_ENBL (int d) + i = 32 * VP_ENBL (int c) + 32 * w + j)" using pos ex by blast
    then show ?thesis using False unfolding get' by metis
  qed
  then show ?thesis using s'(1) assms(12) by (simp add: vplic_get_enbl_def PLIC_MAX_INTERRUPTS_def)
qed

definition acc_example :: emul_access where
  "acc_example = \<lparr>acc_addr = 0xc002080, acc_write = True, acc_sign_ext = False, acc_width = 4, acc_reg = 10, acc_reg_width = 8\<rparr>"

theorem vplic_enable_register_witness:
  "\<exists>s'. vplic_global_emul_handler env_example acc_example hv_example = (True, s') \<and> \<not> vplic_get_enbl 1 5 (hv_vplic s')"
proof -
  obtain ok s' where h: "vplic_global_emul_handler env_example acc_example hv_example = (ok, s')" by fastforce
  have env: "e_cntxt_num env_example = 2" "hv_vplic hv_example = vp_example" "e_plic_base env_example = 0xc000000"
    by (simp_all add: env_example_def hv_example_def)
  have v: "vplic_vcntxt_valid env_example (int 1) hv_example"
    using id_to_cntxt [of 1 2]
    by (simp add: vplic_vcntxt_valid_def env PRIV_S_def) (simp add: vp_example_def to_size_def)
  have r: "readreg env_example hv_example 10 = 0"
    by (simp add: readreg_def cur_vcpu_def vcpu_readreg_def env_example_def hv_example_def vcpu_example_def)
  have "ok \<and> \<not> vplic_get_enbl (int 1) (int 5) (hv_vplic s')"
    using vplic_enable_register [of env_example hv_example 1 0 acc_example ok s' 1 5] h v r vp_example_wf
    by (simp add: env acc_example_def dvd_def)
  then show ?thesis using h by simp
qed

lemma claim_register:
  assumes "c < 0x400" "acc_addr acc = e_plic_base e + PLIC_CLAIMCMPLT_OFF + 0x1000 * c + 4"
    "0x1000 dvd e_plic_base e" "e_plic_base e < 2 ^ 63"
  shows "sub64 (plic_off e acc) PLIC_CLAIMCMPLT_OFF div 0x1000 mod 0x400 = c" "acc_addr acc mod 0x10 = 4" "acc_addr acc mod 4 = 0"
proof -
  have lt: "acc_addr acc < 2 ^ 64" using assms(1,2,4) by (simp add: PLIC_CLAIMCMPLT_OFF_def)
  have off: "sub64 (plic_off e acc) PLIC_CLAIMCMPLT_OFF = 0x1000 * c + 4"
    using sub64_le [of "e_plic_base e" "acc_addr acc"] sub64_le [of PLIC_CLAIMCMPLT_OFF "PLIC_CLAIMCMPLT_OFF + 0x1000 * c + 4"]
      assms(1,2) lt by (simp add: plic_off_def PLIC_CLAIMCMPLT_OFF_def)
  show "sub64 (plic_off e acc) PLIC_CLAIMCMPLT_OFF div 0x1000 mod 0x400 = c" using assms(1) unfolding off by simp
  obtain k where "e_plic_base e = 0x1000 * k" using assms(3) by blast
  then have "acc_addr acc = 4 + 0x10 * (0x100 * k + 0x20000 + 0x100 * c)" using assms(2) by (simp add: PLIC_CLAIMCMPLT_OFF_def)
  then show a16: "acc_addr acc mod 0x10 = 4" by (simp only: mod_mult_self2) simp
  show "acc_addr acc mod 4 = 0" using mod_mod_cancel [of 4 16 "acc_addr acc"] a16 by simp
qed

text \<open>
  C40: The interrupt number a guest writes to its completion register is not checked. Writing a number \<open>n\<close>
  from 1024 up to \<open>2 ^ 31\<close> clears a bit of the word \<open>n div 32\<close> words behind the start of the active bits, outside
  that field: in the priorities, the enable bits, the thresholds or whatever lies behind the structure.
\<close>

theorem vplic_complete_escapes:
  assumes "vplic_vcntxt_valid e (int c) s" "c < 0x400" "acc_addr acc = e_plic_base e + PLIC_CLAIMCMPLT_OFF + 0x1000 * c + 4"
    "0x1000 dvd e_plic_base e" "e_plic_base e < 2 ^ 63" "acc_width acc = 4" "acc_write acc"
    "readreg e s (acc_reg acc) = of_nat n" "1024 \<le> n" "n < 2 ^ 31"
  shows "VP_PRIO \<le> VP_ACT + n div 32 \<and>
    vp_mem (hv_vplic (snd (vplic_hart_emul_handler e acc s))) (VP_ACT + n div 32) =
      vp_mem (hv_vplic s) (VP_ACT + n div 32) AND NOT (push_bit (n mod 32) 1)"
proof
  show "VP_PRIO \<le> VP_ACT + n div 32" using assms(9) by (simp add: VP_defs less_eq_div_iff_mult_less_eq)
  note c = claim_register [OF assms(2-5)]
  have "unat (ucast (of_nat n :: u64) :: u32) = n"
    using assms(10) by (simp add: unsigned_ucast_eq unsigned_of_nat take_bit_nat_eq_self)
  then have sn: "sint (ucast (of_nat n :: u64) :: u32) = int n" using sint_small [of "ucast (of_nat n :: u64)"] assms(10) by simp
  have "snd (vplic_hart_emul_handler e acc s) = vplic_complete e (int c) (int n) s"
    using assms(1,6,7) c(2,3) unfolding vplic_hart_emul_handler_def c(1) Let_def assms(8) sn by simp
  moreover have "to_size (int n) = n" using assms(10) by simp
  ultimately show "vp_mem (hv_vplic (snd (vplic_hart_emul_handler e acc s))) (VP_ACT + n div 32) =
      vp_mem (hv_vplic s) (VP_ACT + n div 32) AND NOT (push_bit (n mod 32) 1)"
    by (simp add: complete_vplic vp_clear_def bitmap_clear_def BITMAP_GRANULE_LEN_def)
qed

definition hv_rogue :: hv where
  "hv_rogue = writereg env_example 10 1029 hv_example"

theorem vplic_complete_escapes_witness:
  "vp_mem (hv_vplic (snd (vplic_hart_emul_handler env_example (acc_example\<lparr>acc_addr := 0xc201004\<rparr>) hv_rogue))) 96 =
     vp_mem vp_example 96 AND NOT (push_bit 5 1)"
proof -
  have env: "e_cntxt_num env_example = 2" "hv_vplic hv_rogue = vp_example" "e_plic_base env_example = 0xc000000"
    by (simp_all add: env_example_def hv_example_def hv_rogue_def)
  have v: "vplic_vcntxt_valid env_example (int 1) hv_rogue"
    using id_to_cntxt [of 1 2]
    by (simp add: vplic_vcntxt_valid_def env PRIV_S_def) (simp add: vp_example_def to_size_def)
  have r: "readreg env_example hv_rogue 10 = of_nat 1029"
    unfolding hv_rogue_def by (subst readreg_writereg) (simp_all add: env_example_def hv_example_def)
  show ?thesis
    using vplic_complete_escapes [of env_example 1 hv_rogue "acc_example\<lparr>acc_addr := 0xc201004\<rparr>" 1029] v r
    by (simp add: env acc_example_def PLIC_CLAIMCMPLT_OFF_def dvd_def VP_ACT_def)
qed

end
