(* ===== verification/Interrupts.thy ===== *)
theory Interrupts
  imports Vplic_Props Mem_Map
begin

text \<open>
  Interrupts: \<^verbatim>\<open>core/interrupts.c\<close>, \<^verbatim>\<open>arch/riscv/interrupts.c\<close> and \<^verbatim>\<open>plic_handle\<close>. The tables of interrupts held by the
  hypervisor and by the VMs are bitmaps; the hypervisor registers two handlers, the dispatcher of
  CPU messages and the timer handler of \<^verbatim>\<open>sbi.c\<close>, whose effect is the parameter \<open>run\<close> of \<open>interrupts_handle\<close>.
\<close>

definition SOFT_INT_ID :: nat where "SOFT_INT_ID = PLIC_MAX_INTERRUPTS + 1"
definition TIMR_INT_ID :: nat where "TIMR_INT_ID = PLIC_MAX_INTERRUPTS + 2"
definition MAX_INTERRUPTS :: nat where "MAX_INTERRUPTS = TIMR_INT_ID + 1"
definition IPI_CPU_MSG :: nat where "IPI_CPU_MSG = SOFT_INT_ID"

lemmas INT_ID_defs = SOFT_INT_ID_def TIMR_INT_ID_def MAX_INTERRUPTS_def IPI_CPU_MSG_def PLIC_MAX_INTERRUPTS_def

datatype irq_handler = CPU_MSG_HANDLER | SBI_TIMER_IRQ_HANDLER

datatype irq_res = HANDLED_BY_HYP | FORWARD_TO_VM

record irq_state =
  hyp_interrupt_bitmap :: bitmap
  global_interrupt_bitmap :: bitmap
  interrupt_handlers :: "nat \<Rightarrow> irq_handler option"
  vm_interrupt_bitmap :: "nat \<Rightarrow> bitmap"

subsection \<open>Tables\<close>

text \<open>The two tests take an \<^verbatim>\<open>int\<close>, to which the callers' \<^verbatim>\<open>uint64_t\<close> is converted.\<close>

definition interrupt_is_reserved :: "irq_state \<Rightarrow> nat \<Rightarrow> bool" where
  "interrupt_is_reserved st int_id \<longleftrightarrow> bitmap_get (hyp_interrupt_bitmap st) (to_size (to_int32 int_id)) \<noteq> 0"

definition vm_has_interrupt :: "irq_state \<Rightarrow> nat \<Rightarrow> nat \<Rightarrow> bool" where
  "vm_has_interrupt st vm int_id \<longleftrightarrow> bitmap_get (vm_interrupt_bitmap st vm) (to_size (to_int32 int_id)) \<noteq> 0"

definition interrupts_arch_conflict :: "bitmap \<Rightarrow> nat \<Rightarrow> bool" where
  "interrupts_arch_conflict bm int_id \<longleftrightarrow> bitmap_get bm int_id \<noteq> 0"

definition interrupts_arch_vm_assign :: "nat \<Rightarrow> vplic \<Rightarrow> vplic" where
  "interrupts_arch_vm_assign int_id v = vplic_set_hw (to_int32 int_id) v"

text \<open>\<open>None\<close> is the conflict error; \<open>v\<close> is the virtual controller of the VM.\<close>

definition interrupts_vm_assign :: "nat \<Rightarrow> nat \<Rightarrow> irq_state \<times> vplic \<Rightarrow> (irq_state \<times> vplic) option" where
  "interrupts_vm_assign vm int_id sv =
     (let (st, v) = sv in
      if interrupts_arch_conflict (global_interrupt_bitmap st) int_id then None
      else
        let v = interrupts_arch_vm_assign int_id v;
            st = st\<lparr>vm_interrupt_bitmap := (vm_interrupt_bitmap st)(vm := bitmap_set (vm_interrupt_bitmap st vm) int_id)\<rparr>;
            st = st\<lparr>global_interrupt_bitmap := bitmap_set (global_interrupt_bitmap st) int_id\<rparr>
        in Some (st, v))"

definition interrupts_reserve :: "nat \<Rightarrow> irq_handler \<Rightarrow> irq_state \<Rightarrow> irq_state" where
  "interrupts_reserve int_id h st =
     (if int_id < MAX_INTERRUPTS then
        st\<lparr>interrupt_handlers := (interrupt_handlers st)(int_id := Some h),
           hyp_interrupt_bitmap := bitmap_set (hyp_interrupt_bitmap st) int_id,
           global_interrupt_bitmap := bitmap_set (global_interrupt_bitmap st) int_id\<rparr>
      else st)"

subsection \<open>The CPU's interrupts\<close>

definition interrupts_arch_enable :: "hv_env \<Rightarrow> nat \<Rightarrow> bool \<Rightarrow> hv \<Rightarrow> hv" where
  "interrupts_arch_enable e int_id en s =
     (if int_id = SOFT_INT_ID then if en then sie_set SIE_SSIE s else sie_clear SIE_SSIE s
      else if int_id = TIMR_INT_ID then if en then sie_set SIE_STIE s else sie_clear SIE_STIE s
      else
        let s = upd_plic (plic_set_enbl (e_cntxt_num e) (of_nat (e_plic_cntxt e)) (of_nat int_id) en) s
        in upd_plic (plic_set_prio (e_warl e) (of_nat int_id) 0xFE) s)"

definition interrupts_cpu_enable :: "hv_env \<Rightarrow> nat \<Rightarrow> bool \<Rightarrow> hv \<Rightarrow> hv" where
  "interrupts_cpu_enable e int_id en s = interrupts_arch_enable e int_id en s"

definition interrupts_arch_check :: "nat \<Rightarrow> hv \<Rightarrow> bool" where
  "interrupts_arch_check int_id s =
     (if int_id = SOFT_INT_ID then c_sip (hv_csr s) AND SIE_SSIE \<noteq> 0
      else if int_id = TIMR_INT_ID then c_sip (hv_csr s) AND SIE_STIE \<noteq> 0
      else plic_get_pend (of_nat int_id) (hv_plic s))"

definition interrupts_check :: "nat \<Rightarrow> hv \<Rightarrow> bool" where
  "interrupts_check int_id s = interrupts_arch_check int_id s"

definition interrupts_arch_clear :: "nat \<Rightarrow> hv \<Rightarrow> hv" where
  "interrupts_arch_clear int_id s = (if int_id = SOFT_INT_ID then sip_clear SIE_SSIE s else s)"

definition interrupts_clear :: "nat \<Rightarrow> hv \<Rightarrow> hv" where
  "interrupts_clear int_id s = interrupts_arch_clear int_id s"

definition interrupts_arch_vm_inject :: "hv_env \<Rightarrow> nat \<Rightarrow> hv \<Rightarrow> hv" where
  "interrupts_arch_vm_inject e int_id s = vplic_inject e (to_int32 int_id) s"

definition interrupts_vm_inject :: "hv_env \<Rightarrow> nat \<Rightarrow> hv \<Rightarrow> hv" where
  "interrupts_vm_inject e int_id s = interrupts_arch_vm_inject e int_id s"

subsection \<open>Dispatch\<close>

text \<open>\<open>None\<close>: an unknown interrupt, or a call of the null handler.\<close>

definition interrupts_handle ::
  "(irq_handler \<Rightarrow> hv \<Rightarrow> hv option) \<Rightarrow> hv_env \<Rightarrow> irq_state \<Rightarrow> nat \<Rightarrow> hv \<Rightarrow> (irq_res \<times> hv) option" where
  "interrupts_handle run e st int_id s =
     (if vm_has_interrupt st (e_vm_id e) int_id then Some (FORWARD_TO_VM, interrupts_vm_inject e int_id s)
      else if interrupt_is_reserved st int_id then
        do { h \<leftarrow> interrupt_handlers st int_id;
             s \<leftarrow> run h s;
             Some (HANDLED_BY_HYP, s) }
      else None)"

definition plic_handle ::
  "(irq_handler \<Rightarrow> hv \<Rightarrow> hv option) \<Rightarrow> hv_env \<Rightarrow> irq_state \<Rightarrow> hv \<Rightarrow> hv option" where
  "plic_handle run e st s =
     (let int_id = plic_claim (hv_plic s) (e_plic_cntxt e) in
      if int_id \<noteq> 0 then
        do { (res, s) \<leftarrow> interrupts_handle run e st (unat int_id) s;
             Some (if res = HANDLED_BY_HYP then upd_plic (plic_complete (e_plic_cntxt e) int_id) s else s) }
      else Some s)"

definition SCAUSE_INT_BIT :: u64 where "SCAUSE_INT_BIT = push_bit 63 1"
definition SCAUSE_CODE_SSI :: u64 where "SCAUSE_CODE_SSI = 1 OR SCAUSE_INT_BIT"
definition SCAUSE_CODE_STI :: u64 where "SCAUSE_CODE_STI = 5 OR SCAUSE_INT_BIT"
definition SCAUSE_CODE_SEI :: u64 where "SCAUSE_CODE_SEI = 9 OR SCAUSE_INT_BIT"

definition interrupts_arch_handle ::
  "(irq_handler \<Rightarrow> hv \<Rightarrow> hv option) \<Rightarrow> hv_env \<Rightarrow> irq_state \<Rightarrow> u64 \<Rightarrow> hv \<Rightarrow> hv option" where
  "interrupts_arch_handle run e st scause s =
     (if scause = SCAUSE_CODE_SSI then
        do { (res, s) \<leftarrow> interrupts_handle run e st SOFT_INT_ID s;
             Some (sip_clear SIE_SSIE s) }
      else if scause = SCAUSE_CODE_STI then
        do { (res, s) \<leftarrow> interrupts_handle run e st TIMR_INT_ID s; Some s }
      else if scause = SCAUSE_CODE_SEI then plic_handle run e st s
      else Some s)"

subsection \<open>Initialisation\<close>

text \<open>
  The master maps the controller's registers at the addresses \<open>plic_global\<close> and \<open>plic_hart\<close> of the image and
  initialises the controller; every CPU then prepares its own context. The barrier between the two
  is that of the theory of CPU barriers.
\<close>

definition plic_global_size :: "nat \<Rightarrow> nat" where
  "plic_global_size cn = ALIGN (0x2000 + cn * PLIC_NUM_ENBL_REGS * 4) PAGE_SIZE"

definition plic_hart_size :: "nat \<Rightarrow> nat" where
  "plic_hart_size cn = cn * 0x1000"

definition arch_init_master ::
  "mem_env \<Rightarrow> addr_space \<Rightarrow> nat \<Rightarrow> nat \<Rightarrow> hv_env \<Rightarrow> mm \<times> hv \<Rightarrow> (mm \<times> hv) option" where
  "arch_init_master me cas plic_global plic_hart e ms =
     do { (r, m) \<leftarrow> mem_map_dev me cas plic_global (e_plic_base e)
                      (ALIGN (plic_global_size (e_cntxt_num e)) PAGE_SIZE div PAGE_SIZE) (fst ms);
          (r, m) \<leftarrow> mem_map_dev me cas plic_hart (e_plic_base e + PLIC_CLAIMCMPLT_OFF)
                      (ALIGN (plic_hart_size (e_cntxt_num e)) PAGE_SIZE div PAGE_SIZE) m;
          Some (m, upd_plic (plic_init (e_cntxt_num e) (e_warl e)) (snd ms)) }"

definition arch_init_cpu :: "hv_env \<Rightarrow> hv \<Rightarrow> int \<times> hv" where
  "arch_init_cpu e s =
     (let (cx, p) = plic_cpu_init (e_cpu_id e) (hv_plic s)
      in (cx, sie_set SIE_SEIE (s\<lparr>hv_plic := p\<rparr>)))"

definition interrupts_arch_init ::
  "mem_env \<Rightarrow> addr_space \<Rightarrow> nat \<Rightarrow> nat \<Rightarrow> bool \<Rightarrow> hv_env \<Rightarrow> mm \<times> hv \<Rightarrow> (int \<times> mm \<times> hv) option" where
  "interrupts_arch_init me cas plic_global plic_hart master e ms =
     do { (m, s) \<leftarrow> (if master then arch_init_master me cas plic_global plic_hart e ms else Some ms);
          let (cx, s) = arch_init_cpu e s;
          Some (cx, m, s) }"

definition interrupts_init ::
  "mem_env \<Rightarrow> addr_space \<Rightarrow> nat \<Rightarrow> nat \<Rightarrow> bool \<Rightarrow> hv_env \<Rightarrow> irq_state \<Rightarrow> mm \<times> hv \<Rightarrow> (int \<times> irq_state \<times> mm \<times> hv) option" where
  "interrupts_init me cas plic_global plic_hart master e st ms =
     do { (cx, m, s) \<leftarrow> interrupts_arch_init me cas plic_global plic_hart master e ms;
          let st = (if master then interrupts_reserve IPI_CPU_MSG CPU_MSG_HANDLER st else st);
          Some (cx, st, m, interrupts_cpu_enable e IPI_CPU_MSG True s) }"

subsection \<open>Owners of interrupts\<close>

lemma to_int32_small [simp]: "n < 2 ^ 31 \<Longrightarrow> to_int32 n = int n"
  using sint_small [of "of_nat n"] by (simp add: to_int32_def unsigned_of_nat take_bit_nat_eq_self)

lemma has_interrupt_small: "i < 2 ^ 31 \<Longrightarrow> vm_has_interrupt st vm i \<longleftrightarrow> bitmap_get (vm_interrupt_bitmap st vm) i = 1"
  using bitmap_get_cases [of "vm_interrupt_bitmap st vm" i] by (auto simp: vm_has_interrupt_def)

lemma reserved_small: "i < 2 ^ 31 \<Longrightarrow> interrupt_is_reserved st i \<longleftrightarrow> bitmap_get (hyp_interrupt_bitmap st) i = 1"
  using bitmap_get_cases [of "hyp_interrupt_bitmap st" i] by (auto simp: interrupt_is_reserved_def)

definition irq_empty :: irq_state where
  "irq_empty = \<lparr>hyp_interrupt_bitmap = (\<lambda>_. 0), global_interrupt_bitmap = (\<lambda>_. 0),
     interrupt_handlers = (\<lambda>_. None), vm_interrupt_bitmap = (\<lambda>_ _. 0)\<rparr>"

definition reserve_all_irqs :: "(nat \<times> irq_handler) list \<Rightarrow> irq_state \<Rightarrow> irq_state" where
  "reserve_all_irqs rs st = fold (\<lambda>(i, h). interrupts_reserve i h) rs st"

text \<open>The assignments of all VMs, each with its virtual controller.\<close>

fun assign_all :: "(nat \<times> nat) list \<Rightarrow> irq_state \<times> (nat \<Rightarrow> vplic) \<Rightarrow> (irq_state \<times> (nat \<Rightarrow> vplic)) option" where
  "assign_all [] sv = Some sv"
| "assign_all ((vm, i) # xs) sv =
     do { (st, v) \<leftarrow> interrupts_vm_assign vm i (fst sv, snd sv vm); assign_all xs (st, (snd sv)(vm := v)) }"

text \<open>The three tables after the reservations \<open>R\<close> and the assignments \<open>A\<close>.\<close>

definition irq_tables :: "nat set \<Rightarrow> (nat \<times> nat) set \<Rightarrow> irq_state \<Rightarrow> bool" where
  "irq_tables R A st \<longleftrightarrow>
     (\<forall>i. bitmap_get (hyp_interrupt_bitmap st) i = of_bool (i \<in> R)) \<and>
     (\<forall>vm i. bitmap_get (vm_interrupt_bitmap st vm) i = of_bool ((vm, i) \<in> A)) \<and>
     (\<forall>i. bitmap_get (global_interrupt_bitmap st) i = of_bool (i \<in> R \<or> i \<in> snd ` A))"

lemma irq_tables_empty: "irq_tables {} {} irq_empty"
  by (simp add: irq_tables_def irq_empty_def bitmap_get_def)

lemma irq_tables_reserve:
  "irq_tables R A st \<Longrightarrow> i < MAX_INTERRUPTS \<Longrightarrow> irq_tables (insert i R) A (interrupts_reserve i h st)"
  by (auto simp: irq_tables_def interrupts_reserve_def bm_simps)

lemma irq_tables_reserves:
  assumes "irq_tables R A st" "\<forall>(i, h) \<in> set rs. i < MAX_INTERRUPTS"
  shows "irq_tables (R \<union> fst ` set rs) A (reserve_all_irqs rs st)"
  using assms
proof (induction rs arbitrary: R st)
  case (Cons r rs)
  obtain i h where r: "r = (i, h)" by fastforce
  then have "irq_tables (insert i R) A (interrupts_reserve i h st)" using Cons.prems by (auto intro: irq_tables_reserve)
  then show ?case using Cons.IH [of "insert i R" "interrupts_reserve i h st"] Cons.prems r
    by (simp add: reserve_all_irqs_def)
qed (simp add: reserve_all_irqs_def)

lemma irq_tables_assign:
  assumes "irq_tables R A st"
  shows "if i \<in> R \<or> i \<in> snd ` A then interrupts_vm_assign vm i (st, v) = None
    else \<exists>st'. interrupts_vm_assign vm i (st, v) = Some (st', vplic_set_hw (to_int32 i) v) \<and>
           irq_tables R (insert (vm, i) A) st'"
  using assms
  by (auto simp: irq_tables_def interrupts_vm_assign_def interrupts_arch_conflict_def interrupts_arch_vm_assign_def
      bm_simps image_iff)

lemma assign_all_tables:
  assumes "irq_tables R A st"
  shows "if distinct (map snd xs) \<and> snd ` set xs \<inter> (R \<union> snd ` A) = {}
    then \<exists>st' vs'. assign_all xs (st, vs) = Some (st', vs') \<and> irq_tables R (A \<union> set xs) st'
    else assign_all xs (st, vs) = None"
  using assms
proof (induction xs arbitrary: A st vs)
  case (Cons x xs)
  obtain vm i where x: "x = (vm, i)" by fastforce
  show ?case
  proof (cases "i \<in> R \<or> i \<in> snd ` A")
    case True
    then show ?thesis using irq_tables_assign [OF Cons.prems, of i vm "vs vm"] x by auto
  next
    case False
    then obtain st1 where s1: "interrupts_vm_assign vm i (st, vs vm) = Some (st1, vplic_set_hw (to_int32 i) (vs vm))"
      "irq_tables R (insert (vm, i) A) st1" using irq_tables_assign [OF Cons.prems, of i vm "vs vm"] by auto
    define vs1 where "vs1 = vs(vm := vplic_set_hw (to_int32 i) (vs vm))"
    have a: "assign_all (x # xs) (st, vs) = assign_all xs (st1, vs1)" using s1(1) x by (simp add: vs1_def)
    have "distinct (map snd (x # xs)) \<and> snd ` set (x # xs) \<inter> (R \<union> snd ` A) = {} \<longleftrightarrow>
        distinct (map snd xs) \<and> snd ` set xs \<inter> (R \<union> snd ` insert (vm, i) A) = {}" using x False by auto
    moreover have "A \<union> set (x # xs) = insert (vm, i) A \<union> set xs" using x by auto
    ultimately show ?thesis using Cons.IH [OF s1(2), of vs1] unfolding a by (simp only:)
  qed
qed simp



subsection \<open>The life of a physical interrupt\<close>

lemma update_hart_line_plic [simp]: "hv_plic (vplic_update_hart_line e c s) = hv_plic s"
  by (simp add: vplic_update_hart_line_def Let_def hvip_set_def hvip_clear_def upd_csr_def send_msg_def)

lemma fold_plic: "(\<And>c s. hv_plic (F c s) = hv_plic s) \<Longrightarrow> hv_plic (fold F cs s) = hv_plic s"
  by (induction cs arbitrary: s) auto

lemma upd_vplic_plic [simp]: "hv_plic (upd_vplic f s) = hv_plic s" "hv_plic (upd_plic g s) = g (hv_plic s)"
  by (simp_all add: upd_vplic_def upd_plic_def)

lemma inject_plic [simp]: "hv_plic (vplic_inject e i s) = hv_plic s"
  by (simp add: vplic_inject_def Let_def fold_plic)

lemma inject_pend:
  assumes "0 < i" "i < 1024"
  shows "vplic_get_pend (int i) (hv_vplic (vplic_inject e (int i) s))"
    "vplic_get_hw (int i) (hv_vplic (vplic_inject e (int i) s)) = vplic_get_hw (int i) (hv_vplic s)"
proof -
  have v: "hv_vplic (vplic_inject e (int i) s) =
      (if vplic_get_pend (int i) (hv_vplic s) then hv_vplic s else vp_set VP_PEND (int i) (hv_vplic s))"
    using assms by (simp add: vplic_inject_def Let_def fold_vplic PLIC_MAX_INTERRUPTS_def)
  show "vplic_get_pend (int i) (hv_vplic (vplic_inject e (int i) s))"
    using v assms by (simp add: vplic_get_pend_def PLIC_MAX_INTERRUPTS_def)
  show "vplic_get_hw (int i) (hv_vplic (vplic_inject e (int i) s)) = vplic_get_hw (int i) (hv_vplic s)"
    using v assms by (simp add: vplic_get_hw_def VP_defs PLIC_MAX_INTERRUPTS_def)
qed

text \<open>
  C24: The life of a physical interrupt. When the controller presents an interrupt of the running VM it
  becomes pending in the VM's virtual controller and is not completed at the physical one, so that
  it stays masked there; it is completed at the physical controller, once and in the CPU's own
  context, when the guest completes it. An interrupt of the hypervisor is completed as soon as its
  handler has returned, and one that belongs to nobody is an error.
\<close>

theorem hw_interrupt_lifecycle:
  assumes "plic_claim (hv_plic s) (e_plic_cntxt e) = of_nat i" "0 < i" "i < 1024"
  shows "if vm_has_interrupt st (e_vm_id e) i
    then \<exists>s'. plic_handle run e st s = Some s' \<and> vplic_get_pend (int i) (hv_vplic s') \<and> hv_plic s' = hv_plic s \<and>
      (vplic_get_hw (int i) (hv_vplic s) \<longrightarrow>
       (\<forall>c. hv_plic (vplic_complete e c (int i) s') = plic_complete (e_plic_cntxt e) (of_nat i) (hv_plic s)))
    else if interrupt_is_reserved st i
    then plic_handle run e st s =
      Option.bind (interrupt_handlers st i)
        (\<lambda>h. map_option (upd_plic (plic_complete (e_plic_cntxt e) (of_nat i))) (run h s))
    else plic_handle run e st s = None"
proof -
  have u: "unat (of_nat i :: u32) = i" using assms(3) by (simp add: unsigned_of_nat take_bit_nat_eq_self)
  then have nz: "(of_nat i :: u32) \<noteq> 0" using assms(2) by (metis less_numeral_extra(3) unsigned_0)
  have h: "plic_handle run e st s =
      Option.bind (interrupts_handle run e st i s)
        (\<lambda>(res, s). Some (if res = HANDLED_BY_HYP then upd_plic (plic_complete (e_plic_cntxt e) (of_nat i)) s else s))"
    using assms(1) nz by (simp add: plic_handle_def u)
  show ?thesis
  proof (cases "vm_has_interrupt st (e_vm_id e) i")
    case True
    let ?s = "vplic_inject e (int i) s"
    have "plic_handle run e st s = Some ?s"
      using True assms(3) h by (simp add: interrupts_handle_def interrupts_vm_inject_def interrupts_arch_vm_inject_def)
    moreover have "hv_plic (vplic_complete e c (int i) ?s) = plic_complete (e_plic_cntxt e) (of_nat i) (hv_plic s)"
      if "vplic_get_hw (int i) (hv_vplic s)" for c
      using that inject_pend(2) [OF assms(2,3), of e s] by (simp add: vplic_complete_def Let_def)
    ultimately show ?thesis using True inject_pend(1) [OF assms(2,3)] by auto
  next
    case False
    then show ?thesis using h by (auto simp: interrupts_handle_def split: Option.bind_splits)
  qed
qed

definition irq_example :: irq_state where
  "irq_example = irq_empty\<lparr>vm_interrupt_bitmap := (\<lambda>_. bitmap_set (\<lambda>_. 0) 7)\<rparr>"

theorem hw_interrupt_lifecycle_witness:
  "\<exists>s'. plic_handle (\<lambda>h s. Some s) env_example irq_example (hv_example\<lparr>hv_plic := plic_zero\<lparr>plic_claim := (\<lambda>_. 7)\<rparr>\<rparr>) = Some s' \<and>
     vplic_get_pend 7 (hv_vplic s')"
proof -
  have "vm_has_interrupt irq_example (e_vm_id env_example) 7"
    by (simp add: has_interrupt_small irq_example_def bm_simps)
  then show ?thesis
    using hw_interrupt_lifecycle [of "hv_example\<lparr>hv_plic := plic_zero\<lparr>plic_claim := (\<lambda>_. 7)\<rparr>\<rparr>" env_example 7 irq_example
        "\<lambda>h s. Some s"] by auto
qed

end
