(* ===== verification/Ipc.thy ===== *)
theory Ipc
  imports Interrupts Page_Pool
begin

text \<open>
  Communication between VMs, \<^verbatim>\<open>core/ipc.c\<close>: shared memory objects, and notifications sent as CPU messages
  to the masters of the VMs that share an object. The table of shared memory objects is a list.
\<close>

definition IPC_NOTIFY :: nat where "IPC_NOTIFY = 0"

definition HC_IPC :: nat where "HC_IPC = 1"
definition HC_E_SUCCESS :: int where "HC_E_SUCCESS = 0"
definition HC_E_INVAL_ID :: int where "HC_E_INVAL_ID = 2"
definition HC_E_INVAL_ARGS :: int where "HC_E_INVAL_ARGS = 3"

text \<open>
  The union \<^verbatim>\<open>ipc_msg_data_t\<close>: two bytes at the bottom of a 64-bit word. The bytes above them are not
  written by the initialiser; they are zero here and never read.
\<close>

definition ipc_msg_raw :: "u8 \<Rightarrow> u8 \<Rightarrow> u64" where
  "ipc_msg_raw shmem_id event_id = ucast shmem_id OR push_bit 8 (ucast event_id)"

definition ipc_msg_shmem_id :: "u64 \<Rightarrow> u8" where
  "ipc_msg_shmem_id raw = ucast raw"

definition ipc_msg_event_id :: "u64 \<Rightarrow> u8" where
  "ipc_msg_event_id raw = ucast (drop_bit 8 raw)"

definition ipc_get_shmem :: "shmem list \<Rightarrow> nat \<Rightarrow> nat option" where
  "ipc_get_shmem table shmem_id = (if shmem_id < length table then Some shmem_id else None)"

fun ipc_find_by_shmemid :: "ipc list \<Rightarrow> nat \<Rightarrow> ipc option" where
  "ipc_find_by_shmemid [] shmem_id = None"
| "ipc_find_by_shmemid (x # xs) shmem_id =
     (if ipc_shmem_id x = shmem_id then Some x else ipc_find_by_shmemid xs shmem_id)"

definition ipc_notify :: "hv_env \<Rightarrow> nat \<Rightarrow> nat \<Rightarrow> hv \<Rightarrow> hv" where
  "ipc_notify e shmem_id event_id s =
     (case ipc_find_by_shmemid (e_ipcs e) shmem_id of
        None \<Rightarrow> s
      | Some obj \<Rightarrow>
          if event_id < length (ipc_interrupts obj)
          then interrupts_vm_inject e (ipc_interrupts obj ! event_id) s else s)"

definition ipc_handler :: "hv_env \<Rightarrow> nat \<Rightarrow> u64 \<Rightarrow> hv \<Rightarrow> hv" where
  "ipc_handler e event data s =
     (if event = IPC_NOTIFY then ipc_notify e (unat (ipc_msg_shmem_id data)) (unat (ipc_msg_event_id data)) s else s)"

definition ipc_hypercall :: "hv_env \<Rightarrow> u64 \<Rightarrow> u64 \<Rightarrow> u64 \<Rightarrow> hv \<Rightarrow> int \<times> hv" where
  "ipc_hypercall e arg0 arg1 arg2 s =
     (let ipc_id = unat arg0;
          shmem = (if ipc_id < length (e_ipcs e)
                   then ipc_get_shmem (e_shmem e) (ipc_shmem_id (e_ipcs e ! ipc_id)) else None)
      in case shmem of
           None \<Rightarrow> (- HC_E_INVAL_ARGS, s)
         | Some k \<Rightarrow>
             let ipc_cpu_masters = shm_cpu_masters (e_shmem e ! k) AND NOT (e_cpus e);
                 data = ipc_msg_raw (of_nat (ipc_shmem_id (e_ipcs e ! ipc_id))) (ucast arg1);
                 msg = \<lparr>msg_handler = e_ipc_cpumsg_id e, msg_event = IPC_NOTIFY, msg_data = data\<rparr>
             in (- HC_E_SUCCESS,
                 fold (\<lambda>i s. if ipc_cpu_masters AND push_bit i 1 \<noteq> 0 then send_msg (int i) msg s else s)
                   [0..<e_plat_cpu_num e] s))"

subsection \<open>Initialisation\<close>

text \<open>\<open>None\<close>: not enough memory for a shared memory object.\<close>

fun ipc_alloc_shmem :: "color_cfg \<Rightarrow> shmem list \<Rightarrow> page_pool list \<Rightarrow> (shmem list \<times> page_pool list) option" where
  "ipc_alloc_shmem cc [] pools = Some ([], pools)"
| "ipc_alloc_shmem cc (sh # shs) pools =
     do { (sh, pools) \<leftarrow>
            (if \<not> shm_place_phys sh then
               do { (pp, pools) \<leftarrow> mem_alloc_ppages cc (shm_colors sh) (NUM_PAGES (shm_size sh)) False pools;
                    if pg_size pp < NUM_PAGES (shm_size sh) then None
                    else Some (sh\<lparr>shm_phys := pg_base pp\<rparr>, pools) }
             else Some (sh, pools));
          (shs, pools) \<leftarrow> ipc_alloc_shmem cc shs pools;
          Some (sh # shs, pools) }"

text \<open>\<^verbatim>\<open>ipc_setup_masters\<close> before and after its barrier.\<close>

definition masters_clear :: "shmem list \<Rightarrow> shmem list" where
  "masters_clear table = map (\<lambda>sh. sh\<lparr>shm_cpu_masters := 0\<rparr>) table"

definition masters_enter :: "nat \<Rightarrow> ipc \<Rightarrow> shmem list \<Rightarrow> shmem list" where
  "masters_enter cpu_id x table =
     (case ipc_get_shmem table (ipc_shmem_id x) of
        None \<Rightarrow> table
      | Some k \<Rightarrow> table[k := (table ! k)\<lparr>shm_cpu_masters := shm_cpu_masters (table ! k) OR push_bit cpu_id 1\<rparr>])"

definition masters_set :: "vm_config \<Rightarrow> nat \<Rightarrow> bool \<Rightarrow> shmem list \<Rightarrow> shmem list" where
  "masters_set cfg cpu_id vm_master table =
     (if vm_master then fold (masters_enter cpu_id) (plat_ipcs (vc_platform cfg)) table else table)"

text \<open>\<^verbatim>\<open>ipc_init\<close> on all CPUs: the masters of the VMs, in the order \<open>ms\<close> in which they pass the lock.\<close>

definition ipc_init :: "color_cfg \<Rightarrow> (vm_config \<times> nat) list \<Rightarrow> shmem list \<Rightarrow> page_pool list \<Rightarrow> (shmem list \<times> page_pool list) option" where
  "ipc_init cc ms table pools =
     do { (table, pools) \<leftarrow> ipc_alloc_shmem cc table pools;
          Some (fold (\<lambda>(cfg, c). masters_set cfg c True) ms (masters_clear table), pools) }"

subsection \<open>Messages\<close>

lemma ipc_msg_roundtrip: "ipc_msg_shmem_id (ipc_msg_raw a b) = a" "ipc_msg_event_id (ipc_msg_raw a b) = b"
  by (rule bit_word_eqI, auto simp: ipc_msg_shmem_id_def ipc_msg_event_id_def ipc_msg_raw_def bit_simps dest: bit_imp_le_length)+

lemma fold_send:
  "fold (\<lambda>i s. if P i then send_msg (int i) m s else s) is s =
   s\<lparr>hv_msgs := hv_msgs s @ map (\<lambda>i. (int i, m)) (filter P is)\<rparr>"
  by (induction "is" arbitrary: s) (auto simp: send_msg_def)

text \<open>The objects of VM \<open>e\<close> and the CPUs outside it that are masters of a VM sharing object \<open>k\<close>.\<close>

definition peers :: "hv_env \<Rightarrow> nat \<Rightarrow> nat list" where
  "peers e k = filter (\<lambda>i. bit (shm_cpu_masters (e_shmem e ! k)) i \<and> \<not> bit (e_cpus e) i) [0..<e_plat_cpu_num e]"

lemma hypercall_eq:
  assumes "unat arg0 < length (e_ipcs e)" "ipc_shmem_id (e_ipcs e ! unat arg0) < length (e_shmem e)" "e_plat_cpu_num e \<le> 64"
  shows "ipc_hypercall e arg0 arg1 arg2 s =
    (0, s\<lparr>hv_msgs := hv_msgs s @ map (\<lambda>i. (int i, \<lparr>msg_handler = e_ipc_cpumsg_id e, msg_event = IPC_NOTIFY,
           msg_data = ipc_msg_raw (of_nat (ipc_shmem_id (e_ipcs e ! unat arg0))) (ucast arg1)\<rparr>))
         (peers e (ipc_shmem_id (e_ipcs e ! unat arg0)))\<rparr>)"
proof -
  let ?k = "ipc_shmem_id (e_ipcs e ! unat arg0)"
  let ?m = "shm_cpu_masters (e_shmem e ! ?k) AND NOT (e_cpus e)"
  have "?m AND push_bit i 1 \<noteq> 0 \<longleftrightarrow> bit ?m i" for i
    using bit_get_iff [of ?m i] by (simp add: bit_get_def)
  then have "filter (\<lambda>i. ?m AND push_bit i 1 \<noteq> 0) [0..<e_plat_cpu_num e] = peers e ?k"
    unfolding peers_def using assms(3) by (intro filter_cong) (auto simp: bit_and_iff bit_not_iff)
  then show ?thesis using assms
    by (simp add: ipc_hypercall_def ipc_get_shmem_def Let_def fold_send HC_E_SUCCESS_def)
qed

text \<open>
  C36: A notification goes from the caller to the peers and nowhere else. A hypercall with a valid
  object sends one message to the master CPU of each other VM that shares the object, and when such
  a CPU handles it, the interrupt its own VM has configured for the event is injected there (for
  object and event numbers below 256). A hypercall with an invalid object changes nothing.
\<close>

theorem ipc_notification:
  assumes "e_plat_cpu_num e \<le> 64" "length (e_shmem e) \<le> 256" "unat arg1 < 256"
  shows "if unat arg0 < length (e_ipcs e) \<and> ipc_shmem_id (e_ipcs e ! unat arg0) < length (e_shmem e)
    then \<exists>msg. ipc_hypercall e arg0 arg1 arg2 s =
          (0, s\<lparr>hv_msgs := hv_msgs s @ map (\<lambda>i. (int i, msg)) (peers e (ipc_shmem_id (e_ipcs e ! unat arg0)))\<rparr>) \<and>
        msg_handler msg = e_ipc_cpumsg_id e \<and>
        (\<forall>e' s' obj. ipc_find_by_shmemid (e_ipcs e') (ipc_shmem_id (e_ipcs e ! unat arg0)) = Some obj \<and>
            unat arg1 < length (ipc_interrupts obj) \<longrightarrow>
            ipc_handler e' (msg_event msg) (msg_data msg) s' = interrupts_vm_inject e' (ipc_interrupts obj ! unat arg1) s')
    else ipc_hypercall e arg0 arg1 arg2 s = (-3, s)"
proof (cases "unat arg0 < length (e_ipcs e) \<and> ipc_shmem_id (e_ipcs e ! unat arg0) < length (e_shmem e)")
  case True
  let ?k = "ipc_shmem_id (e_ipcs e ! unat arg0)"
  let ?msg = "\<lparr>msg_handler = e_ipc_cpumsg_id e, msg_event = IPC_NOTIFY, msg_data = ipc_msg_raw (of_nat ?k) (ucast arg1)\<rparr>"
  have "unat (of_nat ?k :: u8) = ?k" using True assms(2) by (simp add: unsigned_of_nat take_bit_nat_eq_self)
  moreover have "unat (ucast arg1 :: u8) = unat arg1"
    using assms(3) by (simp add: unsigned_ucast_eq take_bit_nat_eq_self)
  ultimately have "ipc_handler e' (msg_event ?msg) (msg_data ?msg) s' = ipc_notify e' ?k (unat arg1) s'" for e' s'
    by (simp add: ipc_handler_def ipc_msg_roundtrip)
  then have "ipc_handler e' (msg_event ?msg) (msg_data ?msg) s' = interrupts_vm_inject e' (ipc_interrupts obj ! unat arg1) s'"
    if "ipc_find_by_shmemid (e_ipcs e') ?k = Some obj" "unat arg1 < length (ipc_interrupts obj)" for e' s' obj
    using that by (simp add: ipc_notify_def)
  then show ?thesis using True hypercall_eq [OF conjunct1 [OF True] conjunct2 [OF True] assms(1), of arg1 arg2 s]
    by (intro if_P [THEN iffD2] exI [of _ ?msg]) auto
next
  case False
  then show ?thesis by (auto simp: ipc_hypercall_def ipc_get_shmem_def Let_def HC_E_INVAL_ARGS_def)
qed

definition ipc_env :: hv_env where
  "ipc_env = env_example\<lparr>e_ipcs := [\<lparr>ipc_base = 0x70000000, ipc_size = 0x1000, ipc_shmem_id = 0, ipc_interrupts = [52]\<rparr>],
     e_shmem := [\<lparr>shm_size = 0x1000, shm_colors = 0, shm_place_phys = False, shm_phys = 0x90000000, shm_cpu_masters = 0b101\<rparr>],
     e_plat_cpu_num := 4\<rparr>"

theorem ipc_notification_witness:
  "\<exists>msg. ipc_hypercall ipc_env 0 0 0 hv_example = (0, hv_example\<lparr>hv_msgs := [(2, msg)]\<rparr>)"
proof -
  have "peers ipc_env 0 = [2]"
    by (simp add: peers_def ipc_env_def env_example_def upt_rec bit_numeral_rec bit_1_iff One_nat_def numeral_2_eq_2 numeral_3_eq_3)
  moreover have "e_ipcs ipc_env ! 0 = \<lparr>ipc_base = 0x70000000, ipc_size = 0x1000, ipc_shmem_id = 0, ipc_interrupts = [52]\<rparr>"
    "length (e_ipcs ipc_env) = 1" "length (e_shmem ipc_env) = 1" "e_plat_cpu_num ipc_env = 4" "hv_msgs hv_example = []"
    by (simp_all add: ipc_env_def hv_example_def)
  ultimately show ?thesis using ipc_notification [of ipc_env 0 0 0 hv_example] by auto
qed

text \<open>
  Event numbers are cut to eight bits: a notification of the event \<open>256 + n\<close> is delivered as event \<open>n\<close>.
\<close>

theorem ipc_event_truncated:
  "ipc_hypercall e arg0 (256 + n) arg2 s = ipc_hypercall e arg0 n arg2 s"
proof -
  have "unat (256 + n) mod 2 ^ 8 = unat n mod 2 ^ 8"
    using mod_mod_cancel [of "2 ^ 8" "2 ^ 64" "256 + unat n"] by (simp add: unat_word_ariths(1))
  then have "unat (ucast (256 + n) :: u8) = unat (ucast n :: u8)" by (simp add: unsigned_ucast_eq take_bit_eq_mod)
  then have "(ucast (256 + n) :: u8) = ucast n" by (simp only: unsigned_word_eqI word_unat_eq_iff)
  then show ?thesis unfolding ipc_hypercall_def by (simp only:)
qed

subsection \<open>Masters\<close>

lemma masters_enter_simps:
  "length (masters_enter c x table) = length table"
  "k < length table \<Longrightarrow> c < 64 \<Longrightarrow> bit (shm_cpu_masters (masters_enter c x table ! k)) p \<longleftrightarrow>
     bit (shm_cpu_masters (table ! k)) p \<or> (p = c \<and> ipc_shmem_id x = k)"
  by (auto simp: masters_enter_def ipc_get_shmem_def nth_list_update bit_or_iff bit_push_bit_iff bit_1_iff
      simp del: push_bit_of_1)

lemma masters_enter_fold:
  "length (fold (masters_enter c) xs table) = length table"
  "k < length table \<Longrightarrow> c < 64 \<Longrightarrow> bit (shm_cpu_masters (fold (masters_enter c) xs table ! k)) p \<longleftrightarrow>
     bit (shm_cpu_masters (table ! k)) p \<or> (p = c \<and> (\<exists>x \<in> set xs. ipc_shmem_id x = k))"
proof (induction xs arbitrary: table)
  case (Cons x xs)
  { case 1 show ?case using Cons.IH(1) by (simp add: masters_enter_simps) }
  { case 2 then show ?case using Cons.IH(2) [of "masters_enter c x table"] by (simp add: masters_enter_simps) blast }
qed simp_all

lemma masters_set_simps:
  "length (masters_set cfg c b table) = length table"
  "k < length table \<Longrightarrow> c < 64 \<Longrightarrow> bit (shm_cpu_masters (masters_set cfg c True table ! k)) p \<longleftrightarrow>
    bit (shm_cpu_masters (table ! k)) p \<or> (p = c \<and> (\<exists>x \<in> set (plat_ipcs (vc_platform cfg)). ipc_shmem_id x = k))"
  by (simp_all add: masters_set_def masters_enter_fold)

lemma masters_all:
  "length (fold (\<lambda>(cfg, c). masters_set cfg c True) ms t) = length t"
  "k < length t \<Longrightarrow> \<forall>(cfg, c) \<in> set ms. c < 64 \<Longrightarrow>
   bit (shm_cpu_masters (fold (\<lambda>(cfg, c). masters_set cfg c True) ms t ! k)) p \<longleftrightarrow>
     bit (shm_cpu_masters (t ! k)) p \<or>
     (\<exists>(cfg, c) \<in> set ms. c = p \<and> (\<exists>x \<in> set (plat_ipcs (vc_platform cfg)). ipc_shmem_id x = k))"
proof (induction ms arbitrary: t)
  case (Cons m ms)
  obtain cfg c where m: "m = (cfg, c)" by fastforce
  { case 1 show ?case using Cons.IH(1) m by (simp add: masters_set_simps) }
  { case 2 then show ?case using Cons.IH(2) [of "masters_set cfg c True t"] m by (simp add: masters_set_simps) blast }
qed simp_all

text \<open>
  After \<^verbatim>\<open>ipc_init\<close> the masters recorded for a shared memory object are exactly the master CPUs of the
  VMs whose configuration names the object, in whatever order the masters entered themselves.
\<close>

theorem ipc_init_masters:
  assumes "ipc_init cc ms table pools = Some (table', pools')" "\<forall>(cfg, c) \<in> set ms. c < 64" "k < length table'"
  shows "bit (shm_cpu_masters (table' ! k)) p \<longleftrightarrow>
    (\<exists>(cfg, c) \<in> set ms. c = p \<and> (\<exists>x \<in> set (plat_ipcs (vc_platform cfg)). ipc_shmem_id x = k))"
proof -
  obtain t1 where t1: "table' = fold (\<lambda>(cfg, c). masters_set cfg c True) ms (masters_clear t1)"
    using assms(1) by (auto simp: ipc_init_def split: Option.bind_splits)
  moreover have "k < length (masters_clear t1)" "shm_cpu_masters (masters_clear t1 ! k) = 0"
    using assms(3) t1 by (simp_all add: masters_all(1) masters_clear_def)
  ultimately show ?thesis using masters_all(2) assms(2) by simp
qed

theorem ipc_init_masters_witness:
  "\<forall>cc pools. bit (shm_cpu_masters (fst (the (ipc_init cc
      [(\<lparr>img_base_addr = 0, img_load_addr = 0, img_size = 0, vc_entry = 0, vc_cpu_affinity = 0, vc_colors = 0,
         vc_platform = \<lparr>plat_cpu_num = 1, plat_regions = [], plat_ipcs = e_ipcs ipc_env, plat_devs = [], plat_plic_base = 0\<rparr>\<rparr>, 3)]
      [\<lparr>shm_size = 0x1000, shm_colors = 0, shm_place_phys = True, shm_phys = 0x90000000, shm_cpu_masters = 9\<rparr>] pools)) ! 0)) 3"
proof (intro allI)
  fix cc pools
  let ?cfg = "\<lparr>img_base_addr = 0, img_load_addr = 0, img_size = 0, vc_entry = 0, vc_cpu_affinity = 0, vc_colors = 0,
         vc_platform = \<lparr>plat_cpu_num = 1, plat_regions = [], plat_ipcs = e_ipcs ipc_env, plat_devs = [], plat_plic_base = 0\<rparr>\<rparr>"
  let ?sh = "[\<lparr>shm_size = 0x1000, shm_colors = 0, shm_place_phys = True, shm_phys = 0x90000000, shm_cpu_masters = 9\<rparr>]"
  obtain t p where i: "ipc_init cc [(?cfg, 3)] ?sh pools = Some (t, p)" "t = masters_set ?cfg 3 True (masters_clear ?sh)"
    by (simp add: ipc_init_def)
  then have "length t = 1" by (simp add: masters_set_simps masters_clear_def)
  then show "bit (shm_cpu_masters (fst (the (ipc_init cc [(?cfg, 3)] ?sh pools)) ! 0)) 3"
    using i(1) ipc_init_masters [OF i(1), of 0 3] by (simp add: ipc_env_def)
qed

end
