(* ===== verification/Sbi.thy ===== *)
theory Sbi
  imports Ipc
begin

text \<open>
  The supervisor binary interface, \<^verbatim>\<open>arch/riscv/sbi.c\<close>: the calls the hypervisor makes to the firmware, and
  the calls it answers for its guests. The firmware is the function \<open>e_ecall\<close> of the environment; every
  call is recorded. A member of \<^verbatim>\<open>struct sbiret\<close> that the code leaves uninitialised has the value \<open>e_junk\<close>.
\<close>

definition SBI_SUCCESS :: u64 where "SBI_SUCCESS = 0"
definition SBI_ERR_FAILURE :: u64 where "SBI_ERR_FAILURE = -1"
definition SBI_ERR_NOT_SUPPORTED :: u64 where "SBI_ERR_NOT_SUPPORTED = -2"
definition SBI_ERR_INVALID_PARAM :: u64 where "SBI_ERR_INVALID_PARAM = -3"
definition SBI_ERR_ALREADY_AVAILABLE :: u64 where "SBI_ERR_ALREADY_AVAILABLE = -6"

definition SBI_LGCY_EXTID_SETTIMER :: u64 where "SBI_LGCY_EXTID_SETTIMER = 0"
definition SBI_LGCY_EXTID_PUTCHAR :: u64 where "SBI_LGCY_EXTID_PUTCHAR = 1"
definition SBI_LGCY_EXTID_GETCHAR :: u64 where "SBI_LGCY_EXTID_GETCHAR = 2"
definition SBI_LGCY_EXTID_SENDIPI :: u64 where "SBI_LGCY_EXTID_SENDIPI = 4"
definition SBI_LGCY_EXTID_REMFENCEI :: u64 where "SBI_LGCY_EXTID_REMFENCEI = 5"
definition SBI_LGCY_EXTID_REMSFENCEVMA :: u64 where "SBI_LGCY_EXTID_REMSFENCEVMA = 6"
definition SBI_LGCY_EXTID_REMSFENCEASID :: u64 where "SBI_LGCY_EXTID_REMSFENCEASID = 7"
definition SBI_EXTID_BASE :: u64 where "SBI_EXTID_BASE = 0x10"
definition SBI_EXTID_TIME :: u64 where "SBI_EXTID_TIME = 0x54494D45"
definition SBI_EXTID_IPI :: u64 where "SBI_EXTID_IPI = 0x735049"
definition SBI_EXTID_HSM :: u64 where "SBI_EXTID_HSM = 0x48534D"
definition SBI_EXTID_RFNC :: u64 where "SBI_EXTID_RFNC = 0x52464E43"
definition SBI_EXTID_BAO :: u64 where "SBI_EXTID_BAO = 0x08000ba0"

lemmas SBI_EXTID_defs = SBI_EXTID_BASE_def SBI_EXTID_TIME_def SBI_EXTID_IPI_def SBI_EXTID_HSM_def
  SBI_EXTID_RFNC_def SBI_EXTID_BAO_def

lemmas SBI_LGCY_defs = SBI_LGCY_EXTID_SETTIMER_def SBI_LGCY_EXTID_PUTCHAR_def SBI_LGCY_EXTID_GETCHAR_def
  SBI_LGCY_EXTID_SENDIPI_def SBI_LGCY_EXTID_REMFENCEI_def SBI_LGCY_EXTID_REMSFENCEVMA_def
  SBI_LGCY_EXTID_REMSFENCEASID_def

subsection \<open>Calls to the firmware\<close>

definition sbi_ecall :: "hv_env \<Rightarrow> u64 \<Rightarrow> u64 \<Rightarrow> u64 list \<Rightarrow> hv \<Rightarrow> sbiret \<times> hv" where
  "sbi_ecall e eid fid args s =
     (let calls = hv_ecalls s @ [\<lparr>call_eid = eid, call_fid = fid, call_args = args\<rparr>]
      in (e_ecall e calls, s\<lparr>hv_ecalls := calls\<rparr>))"

definition sbi_console_putchar :: "hv_env \<Rightarrow> u64 \<Rightarrow> hv \<Rightarrow> hv" where
  "sbi_console_putchar e ch s = snd (sbi_ecall e 0x1 0 [ch, 0, 0, 0, 0, 0] s)"

definition sbi_console_getchar :: "hv_env \<Rightarrow> hv \<Rightarrow> sbiret \<times> hv" where
  "sbi_console_getchar e s = sbi_ecall e 0x2 0 [0, 0, 0, 0, 0, 0] s"

definition sbi_get_spec_version :: "hv_env \<Rightarrow> hv \<Rightarrow> sbiret \<times> hv" where
  "sbi_get_spec_version e s = sbi_ecall e SBI_EXTID_BASE 0 [0, 0, 0, 0, 0, 0] s"

definition sbi_get_impl_id :: "hv_env \<Rightarrow> hv \<Rightarrow> sbiret \<times> hv" where
  "sbi_get_impl_id e s = sbi_ecall e SBI_EXTID_BASE 1 [0, 0, 0, 0, 0, 0] s"

definition sbi_get_impl_version :: "hv_env \<Rightarrow> hv \<Rightarrow> sbiret \<times> hv" where
  "sbi_get_impl_version e s = sbi_ecall e SBI_EXTID_BASE 2 [0, 0, 0, 0, 0, 0] s"

definition sbi_probe_extension :: "hv_env \<Rightarrow> u64 \<Rightarrow> hv \<Rightarrow> sbiret \<times> hv" where
  "sbi_probe_extension e extension_id s = sbi_ecall e SBI_EXTID_BASE 3 [extension_id, 0, 0, 0, 0, 0] s"

definition sbi_get_mvendorid :: "hv_env \<Rightarrow> hv \<Rightarrow> sbiret \<times> hv" where
  "sbi_get_mvendorid e s = sbi_ecall e SBI_EXTID_BASE 4 [0, 0, 0, 0, 0, 0] s"

definition sbi_get_marchid :: "hv_env \<Rightarrow> hv \<Rightarrow> sbiret \<times> hv" where
  "sbi_get_marchid e s = sbi_ecall e SBI_EXTID_BASE 5 [0, 0, 0, 0, 0, 0] s"

definition sbi_get_mimpid :: "hv_env \<Rightarrow> hv \<Rightarrow> sbiret \<times> hv" where
  "sbi_get_mimpid e s = sbi_ecall e SBI_EXTID_BASE 6 [0, 0, 0, 0, 0, 0] s"

definition sbi_send_ipi :: "hv_env \<Rightarrow> u64 \<Rightarrow> u64 \<Rightarrow> hv \<Rightarrow> sbiret \<times> hv" where
  "sbi_send_ipi e hart_mask hart_mask_base s =
     sbi_ecall e SBI_EXTID_IPI 0 [hart_mask, hart_mask_base, 0, 0, 0, 0] s"

definition sbi_set_timer :: "hv_env \<Rightarrow> u64 \<Rightarrow> hv \<Rightarrow> sbiret \<times> hv" where
  "sbi_set_timer e stime_value s = sbi_ecall e SBI_EXTID_TIME 0 [stime_value, 0, 0, 0, 0, 0] s"

definition sbi_remote_fence_i :: "hv_env \<Rightarrow> u64 \<Rightarrow> u64 \<Rightarrow> hv \<Rightarrow> sbiret \<times> hv" where
  "sbi_remote_fence_i e hart_mask hart_mask_base s =
     sbi_ecall e SBI_EXTID_RFNC 0 [hart_mask, hart_mask_base, 0, 0, 0, 0] s"

definition sbi_remote_sfence_vma :: "hv_env \<Rightarrow> u64 \<Rightarrow> u64 \<Rightarrow> u64 \<Rightarrow> u64 \<Rightarrow> hv \<Rightarrow> sbiret \<times> hv" where
  "sbi_remote_sfence_vma e hart_mask hart_mask_base start_addr sz s =
     sbi_ecall e SBI_EXTID_RFNC 1 [hart_mask, hart_mask_base, start_addr, sz, 0, 0] s"

definition sbi_remote_hfence_gvma :: "hv_env \<Rightarrow> u64 \<Rightarrow> u64 \<Rightarrow> u64 \<Rightarrow> u64 \<Rightarrow> hv \<Rightarrow> sbiret \<times> hv" where
  "sbi_remote_hfence_gvma e hart_mask hart_mask_base start_addr sz s =
     sbi_ecall e SBI_EXTID_RFNC 3 [hart_mask, hart_mask_base, start_addr, sz, 0, 0] s"

definition sbi_remote_hfence_gvma_vmid :: "hv_env \<Rightarrow> u64 \<Rightarrow> u64 \<Rightarrow> u64 \<Rightarrow> u64 \<Rightarrow> u64 \<Rightarrow> hv \<Rightarrow> sbiret \<times> hv" where
  "sbi_remote_hfence_gvma_vmid e hart_mask hart_mask_base start_addr sz vmid s =
     sbi_ecall e SBI_EXTID_RFNC 4 [hart_mask, hart_mask_base, start_addr, sz, vmid, 0] s"

definition sbi_remote_hfence_vvma_asid :: "hv_env \<Rightarrow> u64 \<Rightarrow> u64 \<Rightarrow> u64 \<Rightarrow> u64 \<Rightarrow> u64 \<Rightarrow> hv \<Rightarrow> sbiret \<times> hv" where
  "sbi_remote_hfence_vvma_asid e hart_mask hart_mask_base start_addr sz asid s =
     sbi_ecall e SBI_EXTID_RFNC 6 [hart_mask, hart_mask_base, start_addr, sz, asid, 0] s"

definition sbi_remote_hfence_vvma :: "hv_env \<Rightarrow> u64 \<Rightarrow> u64 \<Rightarrow> u64 \<Rightarrow> u64 \<Rightarrow> hv \<Rightarrow> sbiret \<times> hv" where
  "sbi_remote_hfence_vvma e hart_mask hart_mask_base start_addr sz s =
     sbi_ecall e SBI_EXTID_RFNC 5 [hart_mask, hart_mask_base, start_addr, sz, 0, 0] s"

definition sbi_hart_start :: "hv_env \<Rightarrow> u64 \<Rightarrow> u64 \<Rightarrow> u64 \<Rightarrow> hv \<Rightarrow> sbiret \<times> hv" where
  "sbi_hart_start e hartid start_addr priv s = sbi_ecall e SBI_EXTID_HSM 0 [hartid, start_addr, priv, 0, 0, 0] s"

definition sbi_hart_stop :: "hv_env \<Rightarrow> hv \<Rightarrow> sbiret \<times> hv" where
  "sbi_hart_stop e s = sbi_ecall e SBI_EXTID_HSM 1 [0, 0, 0, 0, 0, 0] s"

definition sbi_hart_status :: "hv_env \<Rightarrow> u64 \<Rightarrow> hv \<Rightarrow> sbiret \<times> hv" where
  "sbi_hart_status e hartid s = sbi_ecall e SBI_EXTID_HSM 2 [hartid, 0, 0, 0, 0, 0] s"

definition interrupts_arch_ipi_send :: "hv_env \<Rightarrow> nat \<Rightarrow> hv \<Rightarrow> hv" where
  "interrupts_arch_ipi_send e target_cpu s = snd (sbi_send_ipi e (push_bit target_cpu 1) 0 s)"

definition ext_table :: "u64 list" where
  "ext_table = [SBI_LGCY_EXTID_SETTIMER, SBI_LGCY_EXTID_SENDIPI, SBI_LGCY_EXTID_REMFENCEI, SBI_LGCY_EXTID_REMSFENCEVMA,
     SBI_LGCY_EXTID_REMSFENCEASID, SBI_EXTID_BASE, SBI_EXTID_TIME, SBI_EXTID_IPI, SBI_EXTID_RFNC, SBI_EXTID_HSM]"

text \<open>\<^verbatim>\<open>sbi_init\<close>: the firmware must have version 2 and every extension of the table; \<^verbatim>\<open>long\<close> values are compared signed.\<close>

fun probe_all :: "hv_env \<Rightarrow> u64 list \<Rightarrow> hv \<Rightarrow> hv option" where
  "probe_all e [] s = Some s"
| "probe_all e (x # xs) s =
     (let (ret, s) = sbi_probe_extension e x s
      in if sbi_error ret \<noteq> SBI_SUCCESS \<or> sbi_value ret = 0 then None else probe_all e xs s)"

definition sbi_init :: "hv_env \<Rightarrow> irq_state \<times> hv \<Rightarrow> (irq_state \<times> hv) option" where
  "sbi_init e sh =
     (let (st, s) = sh; (ret, s) = sbi_get_spec_version e s in
      if sbi_error ret \<noteq> SBI_SUCCESS \<or> sint (sbi_value ret) < 2 then None
      else do { s \<leftarrow> probe_all e ext_table s;
                Some (interrupts_reserve TIMR_INT_ID SBI_TIMER_IRQ_HANDLER st, s) })"

text \<open>\<^verbatim>\<open>cpu_arch_init\<close> of \<^verbatim>\<open>arch/riscv/cpu.c\<close>: the master wakes the other CPUs up; a failure is only a warning.\<close>

definition cpu_arch_init :: "hv_env \<Rightarrow> nat \<Rightarrow> nat \<Rightarrow> u64 \<Rightarrow> irq_state \<times> hv \<Rightarrow> (irq_state \<times> hv) option" where
  "cpu_arch_init e cpuid cpu_master load_addr sh =
     (if cpuid = cpu_master then
        do { (st, s) \<leftarrow> sbi_init e sh;
             Some (st, fold (\<lambda>hartid s. if hartid = cpuid then s else snd (sbi_hart_start e (of_nat hartid) load_addr 0 s))
                         [0..<e_plat_cpu_num e] s) }
      else Some sh)"

subsection \<open>Calls of the guests\<close>

definition SEND_IPI :: nat where "SEND_IPI = 0"
definition HART_START :: nat where "HART_START = 1"

definition sbi_msg_handler :: "hv_env \<Rightarrow> nat \<Rightarrow> u64 \<Rightarrow> hv \<Rightarrow> hv" where
  "sbi_msg_handler e event data s =
     (if event = SEND_IPI then hvip_set HIP_VSSIP s
      else if event = HART_START then
        let v = cur_vcpu e s in
        if hsm_state (vc_sbi_ctx v) = START_PENDING then
          let (v, c) = vcpu_arch_reset v (hsm_start_addr (vc_sbi_ctx v)) (hv_csr s);
              v = vcpu_writereg v REG_A1 (hsm_priv (vc_sbi_ctx v));
              v = v\<lparr>vc_sbi_ctx := (vc_sbi_ctx v)\<lparr>hsm_state := STARTED\<rparr>\<rparr>
          in upd_cur e (\<lambda>_. v) (s\<lparr>hv_csr := c\<rparr>)
        else s
      else s)"

definition sbi_time_handler :: "hv_env \<Rightarrow> u64 \<Rightarrow> hv \<Rightarrow> sbiret \<times> hv" where
  "sbi_time_handler e fid s =
     (if fid \<noteq> 0 then (\<lparr>sbi_error = SBI_ERR_NOT_SUPPORTED, sbi_value = 0\<rparr>, s)
      else
        let stime_value = readreg e s REG_A0;
            (ret, s) = sbi_set_timer e stime_value s;
            s = hvip_clear HIP_VSTIP s;
            s = sie_set SIE_STIE s
        in (\<lparr>sbi_error = SBI_SUCCESS, sbi_value = 0\<rparr>, s))"

definition sbi_timer_irq_handler :: "hv \<Rightarrow> hv" where
  "sbi_timer_irq_handler s = sie_clear SIE_STIE (hvip_set HIP_VSTIP s)"

text \<open>A guest's hart number \<open>hart_mask_base + i\<close> is a 64-bit sum.\<close>

definition sbi_ipi_handler :: "hv_env \<Rightarrow> u64 \<Rightarrow> hv \<Rightarrow> sbiret \<times> hv" where
  "sbi_ipi_handler e fid s =
     (if fid \<noteq> 0 then (\<lparr>sbi_error = SBI_ERR_NOT_SUPPORTED, sbi_value = 0\<rparr>, s)
      else
        let hart_mask = readreg e s REG_A0;
            hart_mask_base = readreg e s REG_A1;
            msg = \<lparr>msg_handler = e_sbi_msg_id e, msg_event = SEND_IPI, msg_data = 0\<rparr>;
            s = fold (\<lambda>i s. if bitmap_get (word_bitmap hart_mask) i \<noteq> 0 then
                     let phart_id = vm_translate_to_pcpuid (e_cpus e) (unat (hart_mask_base + of_nat i))
                     in if phart_id \<ge> 0 then send_msg phart_id msg s else s
                   else s) [0..<64] s
        in (\<lparr>sbi_error = SBI_SUCCESS, sbi_value = 0\<rparr>, s))"

definition sbi_base_handler :: "hv_env \<Rightarrow> u64 \<Rightarrow> hv \<Rightarrow> sbiret \<times> hv" where
  "sbi_base_handler e fid s =
     (let extid = readreg e s REG_A0 in
      (if fid = 0 then \<lparr>sbi_error = SBI_SUCCESS, sbi_value = 2\<rparr>
       else if fid = 3 then
         \<lparr>sbi_error = SBI_SUCCESS, sbi_value = fold (\<lambda>x v. if x = extid then extid else v) ext_table 0\<rparr>
       else \<lparr>sbi_error = SBI_SUCCESS, sbi_value = 0\<rparr>, s))"

definition sbi_rfence_handler :: "hv_env \<Rightarrow> u64 \<Rightarrow> hv \<Rightarrow> sbiret \<times> hv" where
  "sbi_rfence_handler e fid s =
     (let hart_mask = readreg e s REG_A0;
          hart_mask_base = readreg e s REG_A1;
          start_addr = readreg e s REG_A2;
          sz = readreg e s REG_A3;
          asid = readreg e s REG_A4
      in if hart_mask_base \<noteq> 0 \<and>
            (64 \<le> hart_mask_base \<or>
             bitmap_find_nth (word_bitmap hart_mask) 64 1 (64 - unat hart_mask_base) True > 0)
         then (\<lparr>sbi_error = SBI_ERR_INVALID_PARAM, sbi_value = 0\<rparr>, s)
         else
           let hart_mask = drop_bit (unat hart_mask_base) hart_mask;
               phart_mask = vm_translate_to_pcpu_mask (e_cpus e) hart_mask 64
           in if fid = 0 then sbi_remote_fence_i e phart_mask 0 s
              else if fid = 1 then sbi_remote_hfence_vvma e phart_mask 0 start_addr sz s
              else if fid = 2 then sbi_remote_hfence_vvma_asid e phart_mask 0 start_addr sz asid s
              else (\<lparr>sbi_error = SBI_ERR_NOT_SUPPORTED, sbi_value = e_junk e\<rparr>, s))"

text \<open>The number of a hart state is its position in the enumeration.\<close>

fun hsm_num :: "hsm_state \<Rightarrow> u64" where
  "hsm_num STARTED = 0" | "hsm_num STOPPED = 1" | "hsm_num START_PENDING = 2" | "hsm_num STOP_PENDING = 3"

definition sbi_hsm_start_handler :: "hv_env \<Rightarrow> hv \<Rightarrow> sbiret \<times> hv" where
  "sbi_hsm_start_handler e s =
     (let vhart_id = unat (readreg e s REG_A0);
          ret = (\<lambda>err. \<lparr>sbi_error = err, sbi_value = e_junk e\<rparr>)
      in if vhart_id = vc_id (cur_vcpu e s) then (ret SBI_ERR_ALREADY_AVAILABLE, s)
         else
           case vm_get_vcpu s vhart_id of
             None \<Rightarrow> (ret SBI_ERR_INVALID_PARAM, s)
           | Some j \<Rightarrow>
               let v = hv_vcpus s ! j in
               if hsm_state (vc_sbi_ctx v) = STARTED then (ret SBI_ERR_ALREADY_AVAILABLE, s)
               else if hsm_state (vc_sbi_ctx v) \<noteq> STOPPED then (ret SBI_ERR_FAILURE, s)
               else
                 let start_addr = readreg e s REG_A1;
                     priv = readreg e s REG_A2;
                     v = v\<lparr>vc_sbi_ctx := \<lparr>hsm_state = START_PENDING, hsm_start_addr = start_addr, hsm_priv = priv\<rparr>\<rparr>;
                     s = s\<lparr>hv_vcpus := (hv_vcpus s)[j := v]\<rparr>;
                     msg = \<lparr>msg_handler = e_sbi_msg_id e, msg_event = HART_START, msg_data = 0xdeadbeef\<rparr>
                 in (ret SBI_SUCCESS, send_msg (int (vc_phys_id v)) msg s))"

definition sbi_hsm_status_handler :: "hv_env \<Rightarrow> hv \<Rightarrow> sbiret \<times> hv" where
  "sbi_hsm_status_handler e s =
     (case vm_get_vcpu s (unat (readreg e s REG_A0)) of
        Some j \<Rightarrow> (\<lparr>sbi_error = SBI_SUCCESS, sbi_value = hsm_num (hsm_state (vc_sbi_ctx (hv_vcpus s ! j)))\<rparr>, s)
      | None \<Rightarrow> (\<lparr>sbi_error = SBI_ERR_INVALID_PARAM, sbi_value = e_junk e\<rparr>, s))"

definition sbi_hsm_handler :: "hv_env \<Rightarrow> u64 \<Rightarrow> hv \<Rightarrow> sbiret \<times> hv" where
  "sbi_hsm_handler e fid s =
     (if fid = 0 then sbi_hsm_start_handler e s
      else if fid = 2 then sbi_hsm_status_handler e s
      else (\<lparr>sbi_error = SBI_ERR_NOT_SUPPORTED, sbi_value = e_junk e\<rparr>, s))"

definition sbi_bao_handler :: "hv_env \<Rightarrow> u64 \<Rightarrow> hv \<Rightarrow> sbiret \<times> hv" where
  "sbi_bao_handler e fid s =
     (let arg0 = readreg e s REG_A0; arg1 = readreg e s REG_A1; arg2 = readreg e s REG_A2 in
      if fid = of_nat HC_IPC then
        let (r, s) = ipc_hypercall e arg0 arg1 arg2 s in (\<lparr>sbi_error = of_int r, sbi_value = e_junk e\<rparr>, s)
      else (\<lparr>sbi_error = of_int (- HC_E_INVAL_ID), sbi_value = e_junk e\<rparr>, s))"

definition sbi_lgcy_sendipi_handler :: "hv \<Rightarrow> hv" where
  "sbi_lgcy_sendipi_handler s = s"

definition sbi_lgcy_rfence_handler :: "u64 \<Rightarrow> hv \<Rightarrow> hv" where
  "sbi_lgcy_rfence_handler extid s = s"

text \<open>A \<^verbatim>\<open>char\<close> is an unsigned byte on this architecture.\<close>

definition sbi_lgcy_putchar_handler :: "hv_env \<Rightarrow> hv \<Rightarrow> hv" where
  "sbi_lgcy_putchar_handler e s = sbi_console_putchar e (ucast (ucast (readreg e s REG_A0) :: u8)) s"

definition sbi_lgcy_getchar_handler :: "hv_env \<Rightarrow> hv \<Rightarrow> hv" where
  "sbi_lgcy_getchar_handler e s =
     (let (ret, s) = sbi_console_getchar e s;
          s = writereg e REG_A0 (sbi_error ret) s
      in writereg e REG_A1 (sbi_value ret) s)"

definition sbi_lgcy_handler :: "hv_env \<Rightarrow> u64 \<Rightarrow> hv \<Rightarrow> hv" where
  "sbi_lgcy_handler e extid s =
     (if extid = SBI_LGCY_EXTID_SETTIMER then snd (sbi_time_handler e 0 s)
      else if extid = SBI_LGCY_EXTID_SENDIPI then sbi_lgcy_sendipi_handler s
      else if extid = SBI_LGCY_EXTID_REMFENCEI \<or> extid = SBI_LGCY_EXTID_REMSFENCEVMA \<or>
              extid = SBI_LGCY_EXTID_REMSFENCEASID then sbi_lgcy_rfence_handler extid s
      else if extid = SBI_LGCY_EXTID_PUTCHAR then sbi_lgcy_putchar_handler e s
      else if extid = SBI_LGCY_EXTID_GETCHAR then sbi_lgcy_getchar_handler e s
      else s)"

definition sbi_ext_handler :: "hv_env \<Rightarrow> u64 \<Rightarrow> u64 \<Rightarrow> hv \<Rightarrow> sbiret \<times> hv" where
  "sbi_ext_handler e extid fid s =
     (if extid = SBI_EXTID_BASE then sbi_base_handler e fid s
      else if extid = SBI_EXTID_TIME then sbi_time_handler e fid s
      else if extid = SBI_EXTID_IPI then sbi_ipi_handler e fid s
      else if extid = SBI_EXTID_RFNC then sbi_rfence_handler e fid s
      else if extid = SBI_EXTID_HSM then sbi_hsm_handler e fid s
      else if extid = SBI_EXTID_BAO then sbi_bao_handler e fid s
      else (\<lparr>sbi_error = e_junk e, sbi_value = SBI_ERR_NOT_SUPPORTED\<rparr>, s))"

text \<open>The size of the instruction and the state.\<close>

definition sbi_vs_handler :: "hv_env \<Rightarrow> hv \<Rightarrow> nat \<times> hv" where
  "sbi_vs_handler e s =
     (let extid = readreg e s REG_A7;
          s = (if extid < 16 then sbi_lgcy_handler e extid s
               else
                 let fid = readreg e s REG_A6;
                     (ret, s) = sbi_ext_handler e extid fid s;
                     s = writereg e REG_A0 (sbi_error ret) s
                 in writereg e REG_A1 (sbi_value ret) s)
      in (4, s))"

subsection \<open>Dispatch of CPU messages\<close>

definition dispatch_msg :: "hv_env \<Rightarrow> cpu_msg \<Rightarrow> hv \<Rightarrow> hv" where
  "dispatch_msg e m s =
     (if msg_handler m = e_sbi_msg_id e then sbi_msg_handler e (msg_event m) (msg_data m) s
      else if msg_handler m = e_vplic_ipi_id e then vplic_ipi_handler e (msg_event m) (msg_data m) s
      else if msg_handler m = e_ipc_cpumsg_id e then ipc_handler e (msg_event m) (msg_data m) s
      else s)"

end
