(* ===== verification/Sbi_Props.thy ===== *)
theory Sbi_Props
  imports Sbi
begin

text \<open>
  What a guest can reach through its calls: inter-processor interrupts and fences stay within its own
  CPUs, a call changes no register of another virtual CPU, and starting a hart takes the hart from
  stopped to running at the address the caller named.
\<close>

subsection \<open>Sending to many CPUs\<close>

lemma fold_send_to:
  "fold (\<lambda>i s. if P i then send_msg (t i) m s else s) is s =
   s\<lparr>hv_msgs := hv_msgs s @ map (\<lambda>i. (t i, m)) (filter P is)\<rparr>"
  by (induction "is" arbitrary: s) (auto simp: send_msg_def)

text \<open>The virtual hart numbers a mask names.\<close>

definition mask_names :: "u64 \<Rightarrow> u64 \<Rightarrow> nat \<Rightarrow> bool" where
  "mask_names msk base v \<longleftrightarrow> (\<exists>i < 64. bit msk i \<and> v = unat (base + of_nat i))"

lemma ipi_handler_eq:
  "sbi_ipi_handler e 0 s =
     (\<lparr>sbi_error = SBI_SUCCESS, sbi_value = 0\<rparr>,
      s\<lparr>hv_msgs := hv_msgs s @ map (\<lambda>i. (vm_translate_to_pcpuid (e_cpus e) (unat (readreg e s REG_A1 + of_nat i)),
             \<lparr>msg_handler = e_sbi_msg_id e, msg_event = SEND_IPI, msg_data = 0\<rparr>))
         (filter (\<lambda>i. bitmap_get (word_bitmap (readreg e s REG_A0)) i \<noteq> 0 \<and>
                      vm_translate_to_pcpuid (e_cpus e) (unat (readreg e s REG_A1 + of_nat i)) \<ge> 0) [0..<64])\<rparr>)"
proof -
  have nest: "(if a then if b then x else s else s) = (if a \<and> b then x else s)" for a b x and s :: hv by simp
  show ?thesis unfolding sbi_ipi_handler_def Let_def nest fold_send_to by simp
qed

lemma translate_iff: "vm_translate_to_pcpuid cpus v = int p \<longleftrightarrow> bit cpus p \<and> vm_translate_to_vcpuid cpus p = v"
proof
  assume "vm_translate_to_pcpuid cpus v = int p"
  then show "bit cpus p \<and> vm_translate_to_vcpuid cpus p = v"
    using to_pcpuid_spec [of cpus v] by (auto simp: to_vcpuid_rank)
next
  assume a: "bit cpus p \<and> vm_translate_to_vcpuid cpus p = v"
  then have "p < 64" using bit_imp_le_length [of cpus p] by simp
  then show "vm_translate_to_pcpuid cpus v = int p" using a to_pcpuid_rank to_vcpuid_rank by auto
qed

text \<open>
  A guest's inter-processor interrupt reaches exactly the harts it names: a message goes to a physical
  CPU if and only if this CPU belongs to the VM and its virtual number is named by the mask and the
  base; nothing else changes.
\<close>

theorem sbi_ipi_exact:
  "\<exists>ms. snd (sbi_ipi_handler e 0 s) = s\<lparr>hv_msgs := hv_msgs s @ ms\<rparr> \<and>
    set ms = {(int p, \<lparr>msg_handler = e_sbi_msg_id e, msg_event = SEND_IPI, msg_data = 0\<rparr>) | p.
                bit (e_cpus e) p \<and> mask_names (readreg e s REG_A0) (readreg e s REG_A1) (vm_translate_to_vcpuid (e_cpus e) p)}"
proof -
  let ?m = "\<lparr>msg_handler = e_sbi_msg_id e, msg_event = SEND_IPI, msg_data = 0\<rparr>"
  let ?A = "readreg e s REG_A0"
  define t where "t = (\<lambda>i. vm_translate_to_pcpuid (e_cpus e) (unat (readreg e s REG_A1 + of_nat i)))"
  define ms where "ms = map (\<lambda>i. (t i, ?m)) (filter (\<lambda>i. bitmap_get (word_bitmap ?A) i \<noteq> 0 \<and> t i \<ge> 0) [0..<64])"
  have eq: "snd (sbi_ipi_handler e 0 s) = s\<lparr>hv_msgs := hv_msgs s @ ms\<rparr>" unfolding ipi_handler_eq ms_def t_def by simp
  have "set ms = (\<lambda>i. (t i, ?m)) ` {i. i < 64 \<and> bit ?A i \<and> t i \<ge> 0}"
  proof -
    have "filter (\<lambda>i. bitmap_get (word_bitmap ?A) i \<noteq> 0 \<and> t i \<ge> 0) [0..<64] = filter (\<lambda>i. bit ?A i \<and> t i \<ge> 0) [0..<64]"
      by (intro filter_cong refl) (use word_bitmap_get [of _ ?A] in \<open>simp add: of_bool_def\<close>)
    then show ?thesis unfolding ms_def by auto
  qed
  also have "\<dots> = {(int p, ?m) | p. \<exists>i < 64. bit ?A i \<and> t i = int p}"
  proof (intro set_eqI iffI)
    fix x assume "x \<in> (\<lambda>i. (t i, ?m)) ` {i. i < 64 \<and> bit ?A i \<and> t i \<ge> 0}"
    then obtain i where "i < 64" "bit ?A i" "t i \<ge> 0" "x = (t i, ?m)" by blast
    then show "x \<in> {(int p, ?m) | p. \<exists>i < 64. bit ?A i \<and> t i = int p}" using nonneg_int_cases [of "t i"] by blast
  next
    fix x assume "x \<in> {(int p, ?m) | p. \<exists>i < 64. bit ?A i \<and> t i = int p}"
    then obtain p i where "i < 64" "bit ?A i" "t i = int p" "x = (int p, ?m)" by blast
    then show "x \<in> (\<lambda>i. (t i, ?m)) ` {i. i < 64 \<and> bit ?A i \<and> t i \<ge> 0}"
      by (intro image_eqI [of _ _ i]) simp_all
  qed
  also have "\<dots> = {(int p, ?m) | p. bit (e_cpus e) p \<and> mask_names ?A (readreg e s REG_A1) (vm_translate_to_vcpuid (e_cpus e) p)}"
    unfolding t_def translate_iff mask_names_def by blast
  finally show ?thesis using eq by blast
qed

text \<open>
  A remote fence stays within the VM: whatever a guest asks for, the hart mask handed to the firmware
  names only physical CPUs of its own VM.
\<close>

theorem sbi_rfence_confined:
  "hv_ecalls (snd (sbi_rfence_handler e fid s)) = hv_ecalls s \<or>
   (\<exists>m args. hv_ecalls (snd (sbi_rfence_handler e fid s)) =
       hv_ecalls s @ [\<lparr>call_eid = SBI_EXTID_RFNC, call_fid = (if fid = 0 then 0 else if fid = 1 then 5 else 6), call_args = m # 0 # args\<rparr>] \<and>
     m AND NOT (e_cpus e) = 0)"
proof -
  have "bit (vm_translate_to_pcpu_mask (e_cpus e) h 64) p \<Longrightarrow> bit (e_cpus e) p" for h p
    using pcpu_mask_bits [of 64 "e_cpus e" h p] by simp
  then have "vm_translate_to_pcpu_mask (e_cpus e) h 64 AND NOT (e_cpus e) = 0" for h
    by (intro bit_word_eqI) (auto simp: bit_simps)
  then show ?thesis
    by (auto simp: sbi_rfence_handler_def Let_def sbi_remote_fence_i_def sbi_remote_hfence_vvma_def
        sbi_remote_hfence_vvma_asid_def sbi_ecall_def)
qed

subsection \<open>Starting a hart\<close>

lemma cur_upd: "e_cur e < length (hv_vcpus s) \<Longrightarrow> cur_vcpu e (upd_cur e f s) = f (cur_vcpu e s)"
  by (simp add: cur_vcpu_def upd_cur_def)

text \<open>
  C25: Starting a hart. A call for a stopped virtual CPU of the VM other than the caller marks it as about
  to start and sends one message to the physical CPU it runs on; when that CPU handles the message
  the virtual CPU is started, its program counter is the address given, its argument registers hold
  its own number and the private value, all other registers are zero, and the CPU enters the guest.
\<close>

theorem sbi_hart_start_runs:
  assumes "vm_get_vcpu s (unat (readreg e s REG_A0)) = Some j" "unat (readreg e s REG_A0) \<noteq> vc_id (cur_vcpu e s)"
    "hsm_state (vc_sbi_ctx (hv_vcpus s ! j)) = STOPPED" "e_cur e' = j"
  shows "\<exists>s' v'. snd (sbi_hsm_start_handler e s) = s' \<and> sbi_error (fst (sbi_hsm_start_handler e s)) = SBI_SUCCESS \<and>
    hv_msgs s' = hv_msgs s @ [(int (vc_phys_id (hv_vcpus s ! j)),
       \<lparr>msg_handler = e_sbi_msg_id e, msg_event = HART_START, msg_data = 0xdeadbeef\<rparr>)] \<and>
    hsm_state (vc_sbi_ctx (hv_vcpus s' ! j)) = START_PENDING \<and>
    cur_vcpu e' (sbi_msg_handler e' HART_START 0xdeadbeef s') = v' \<and> hsm_state (vc_sbi_ctx v') = STARTED \<and>
    vcpu_readpc v' = readreg e s REG_A1 \<and>
    (\<forall>r. 0 < r \<and> r \<le> 31 \<longrightarrow> vcpu_readreg v' r =
       (if r = REG_A0 then of_nat (vc_id (hv_vcpus s ! j)) else if r = REG_A1 then readreg e s REG_A2 else 0)) \<and>
    vcpu_arch_run v' = ENTER_GUEST"
proof -
  let ?v = "hv_vcpus s ! j"
  let ?m = "\<lparr>msg_handler = e_sbi_msg_id e, msg_event = HART_START, msg_data = 0xdeadbeef\<rparr>"
  define w where "w = ?v\<lparr>vc_sbi_ctx := \<lparr>hsm_state = START_PENDING, hsm_start_addr = readreg e s REG_A1, hsm_priv = readreg e s REG_A2\<rparr>\<rparr>"
  define s' where "s' = send_msg (int (vc_phys_id ?v)) ?m (s\<lparr>hv_vcpus := (hv_vcpus s)[j := w]\<rparr>)"
  have j: "j < length (hv_vcpus s)" using vm_get_vcpu_bound [OF assms(1)] by simp
  have h: "sbi_hsm_start_handler e s = (\<lparr>sbi_error = SBI_SUCCESS, sbi_value = e_junk e\<rparr>, s')"
    using assms(1-3) unfolding sbi_hsm_start_handler_def s'_def w_def by (simp add: Let_def)
  have w': "hv_vcpus s' ! j = w" "length (hv_vcpus s') = length (hv_vcpus s)" using j by (simp_all add: s'_def send_msg_def)
  have cur: "cur_vcpu e' s' = w" using w' assms(4) by (simp add: cur_vcpu_def)
  define r where "r = vcpu_arch_reset w (readreg e s REG_A1) (hv_csr s')"
  define v' where "v' = (vcpu_writereg (fst r) REG_A1 (readreg e s REG_A2))
      \<lparr>vc_sbi_ctx := (vc_sbi_ctx (vcpu_writereg (fst r) REG_A1 (readreg e s REG_A2)))\<lparr>hsm_state := STARTED\<rparr>\<rparr>"
  have ctx: "vc_sbi_ctx (fst r) = vc_sbi_ctx w" by (simp add: r_def vcpu_arch_reset_def Let_def)
  have "sbi_msg_handler e' HART_START 0xdeadbeef s' = upd_cur e' (\<lambda>_. v') (s'\<lparr>hv_csr := snd r\<rparr>)"
    using cur ctx by (simp add: sbi_msg_handler_def HART_START_def SEND_IPI_def v'_def w_def r_def Let_def case_prod_unfold)
  then have c: "cur_vcpu e' (sbi_msg_handler e' HART_START 0xdeadbeef s') = v'"
    using cur_upd [of e' "s'\<lparr>hv_csr := snd r\<rparr>" "\<lambda>_. v'"] j w'(2) assms(4) by simp
  have regs: "vcpu_readreg v' q = (if q = REG_A0 then of_nat (vc_id ?v) else if q = REG_A1 then readreg e s REG_A2 else 0)"
    if "0 < q" "q \<le> 31" for q
    using that by (auto simp: v'_def r_def w_def vcpu_arch_reset_def vcpu_writereg_def vcpu_readreg_def Let_def REG_defs)
  have "vcpu_readpc v' = readreg e s REG_A1" "hsm_state (vc_sbi_ctx v') = STARTED"
    by (simp_all add: v'_def r_def vcpu_arch_reset_def vcpu_writereg_def vcpu_readpc_def Let_def)
  then show ?thesis using h c w'(1) regs
    by (intro exI [of _ s'] exI [of _ v']) (simp add: w_def s'_def send_msg_def vcpu_arch_run_def)
qed

definition hv_two :: hv where
  "hv_two = hv_example\<lparr>hv_vcpus := [vcpu_example\<lparr>vc_regs := (vc_regs vcpu_example)\<lparr>r_x := (\<lambda>i. if i = 9 then 1 else if i = 10 then 0x80200000 else 7)\<rparr>\<rparr>,
     vcpu_example\<lparr>vc_id := 1, vc_phys_id := 1, vc_sbi_ctx := \<lparr>hsm_state = STOPPED, hsm_start_addr = 0, hsm_priv = 0\<rparr>\<rparr>]\<rparr>"

theorem sbi_hart_start_runs_witness:
  "vcpu_readpc (cur_vcpu (env_example\<lparr>e_cur := 1\<rparr>)
     (sbi_msg_handler (env_example\<lparr>e_cur := 1\<rparr>) HART_START 0xdeadbeef (snd (sbi_hsm_start_handler env_example hv_two)))) = 0x80200000"
proof -
  have "e_cur env_example = 0" by (simp add: env_example_def)
  then have r: "readreg env_example hv_two REG_A0 = 1" "readreg env_example hv_two REG_A1 = 0x80200000" "vc_id (cur_vcpu env_example hv_two) = 0"
    by (simp_all add: readreg_def cur_vcpu_def vcpu_readreg_def hv_two_def REG_defs vcpu_example_def)
  have g: "vm_get_vcpu hv_two 1 = Some 1"
    by (simp add: vm_get_vcpu_def hv_two_def vcpu_example_def)
  have st: "hsm_state (vc_sbi_ctx (hv_vcpus hv_two ! 1)) = STOPPED" by (simp add: hv_two_def)
  show ?thesis
    using sbi_hart_start_runs [of hv_two env_example 1 "env_example\<lparr>e_cur := 1\<rparr>"] g st r by auto
qed

subsection \<open>Isolation\<close>

text \<open>What a call may change of the caller's virtual CPU, and of another one.\<close>

definition caller_ok :: "vcpu \<Rightarrow> vcpu \<Rightarrow> bool" where
  "caller_ok v v' \<longleftrightarrow>
     v' = v\<lparr>vc_regs := vc_regs v'\<rparr> \<and> vcpu_readpc v' = vcpu_readpc v \<and>
     (\<forall>r. r \<noteq> REG_A0 \<and> r \<noteq> REG_A1 \<longrightarrow> vcpu_readreg v' r = vcpu_readreg v r)"

definition other_ok :: "vcpu \<Rightarrow> vcpu \<Rightarrow> bool" where
  "other_ok v v' \<longleftrightarrow>
     v' = v \<or> (hsm_state (vc_sbi_ctx v) = STOPPED \<and>
               (\<exists>a x. v' = v\<lparr>vc_sbi_ctx := \<lparr>hsm_state = START_PENDING, hsm_start_addr = a, hsm_priv = x\<rparr>\<rparr>))"

text \<open>A message to a CPU of the VM, or a notification to a peer that shares an object of the VM.\<close>

definition msg_ok :: "hv_env \<Rightarrow> int \<times> cpu_msg \<Rightarrow> bool" where
  "msg_ok e tm \<longleftrightarrow>
     (\<exists>p. fst tm = int p \<and> (bit (e_cpus e) p \<or>
        (msg_handler (snd tm) = e_ipc_cpumsg_id e \<and> (\<exists>x \<in> set (e_ipcs e). ipc_shmem_id x < length (e_shmem e) \<and> p \<in> set (peers e (ipc_shmem_id x))))))"

definition call_ok :: "hv_env \<Rightarrow> hv \<Rightarrow> hv \<Rightarrow> bool" where
  "call_ok e s s' \<longleftrightarrow>
     (\<exists>ms. hv_msgs s' = hv_msgs s @ ms \<and> (\<forall>tm \<in> set ms. msg_ok e tm)) \<and>
     length (hv_vcpus s') = length (hv_vcpus s) \<and> caller_ok (cur_vcpu e s) (cur_vcpu e s') \<and>
     (\<forall>i < length (hv_vcpus s). i \<noteq> e_cur e \<longrightarrow> other_ok (hv_vcpus s ! i) (hv_vcpus s' ! i)) \<and>
     hv_plic s' = hv_plic s \<and> hv_vplic s' = hv_vplic s"

lemma caller_refl [simp]: "caller_ok v v" by (simp add: caller_ok_def)

lemma call_same:
  "hv_msgs s' = hv_msgs s \<Longrightarrow> hv_vcpus s' = hv_vcpus s \<Longrightarrow> hv_plic s' = hv_plic s \<Longrightarrow> hv_vplic s' = hv_vplic s \<Longrightarrow> call_ok e s s'"
  by (auto simp: call_ok_def other_ok_def cur_vcpu_def)

lemma call_send:
  assumes "\<forall>tm \<in> set ms. msg_ok e tm" shows "call_ok e s (s\<lparr>hv_msgs := hv_msgs s @ ms\<rparr>)"
  using assms by (auto simp: call_ok_def other_ok_def cur_vcpu_def)

lemma call_writereg:
  assumes "call_ok e s s'" "r = REG_A0 \<or> r = REG_A1" "e_cur e < length (hv_vcpus s)"
  shows "call_ok e s (writereg e r x s')"
proof -
  have c: "caller_ok (cur_vcpu e s) (cur_vcpu e s')" "length (hv_vcpus s') = length (hv_vcpus s)"
    using assms(1) by (simp_all add: call_ok_def)
  have new: "cur_vcpu e (writereg e r x s') = vcpu_writereg (cur_vcpu e s') r x"
    using assms(3) c(2) by (simp add: writereg_def cur_upd)
  have "caller_ok (cur_vcpu e s) (vcpu_writereg (cur_vcpu e s') r x)"
  proof -
    have "cur_vcpu e s' = (cur_vcpu e s)\<lparr>vc_regs := vc_regs (cur_vcpu e s')\<rparr>" using c(1) by (simp add: caller_ok_def)
    then obtain q where q: "cur_vcpu e s' = (cur_vcpu e s)\<lparr>vc_regs := q\<rparr>" by blast
    then show ?thesis using c(1) assms(2)
      by (auto simp: caller_ok_def vcpu_writereg_def vcpu_readreg_def vcpu_readpc_def REG_defs)
  qed
  then show ?thesis using assms(1,3) new by (auto simp: call_ok_def writereg_def upd_cur_def)
qed

lemma ecall_ok: "call_ok e s (snd (sbi_ecall e eid fid args s))"
  by (intro call_same) (simp_all add: sbi_ecall_def Let_def)

lemma ipi_ok: "call_ok e s (snd (sbi_ipi_handler e fid s))"
proof (cases "fid = 0")
  case True
  have t: "\<exists>p. x = int p \<and> bit (e_cpus e) p" if "x = vm_translate_to_pcpuid (e_cpus e) v" "x \<ge> 0" for x v
    using that to_pcpuid_spec [of "e_cpus e" v] by auto
  have "call_ok e s (snd (sbi_ipi_handler e 0 s))"
    unfolding ipi_handler_eq snd_conv by (rule call_send) (auto simp: msg_ok_def dest!: t [OF refl])
  then show ?thesis using True by simp
qed (simp add: sbi_ipi_handler_def call_same)

lemma hsm_ok:
  assumes "\<forall>v \<in> set (hv_vcpus s). bit (e_cpus e) (vc_phys_id v)" "e_cur e < length (hv_vcpus s)"
  shows "call_ok e s (snd (sbi_hsm_handler e fid s))"
proof -
  have "call_ok e s (snd (sbi_hsm_start_handler e s))"
  proof (cases "\<exists>j. unat (readreg e s REG_A0) \<noteq> vc_id (cur_vcpu e s) \<and> vm_get_vcpu s (unat (readreg e s REG_A0)) = Some j \<and>
      hsm_state (vc_sbi_ctx (hv_vcpus s ! j)) = STOPPED")
    case True
    then obtain j where j: "unat (readreg e s REG_A0) \<noteq> vc_id (cur_vcpu e s)" "vm_get_vcpu s (unat (readreg e s REG_A0)) = Some j"
      "hsm_state (vc_sbi_ctx (hv_vcpus s ! j)) = STOPPED" by blast
    have jl: "j < length (hv_vcpus s)" "j \<noteq> e_cur e" using vm_get_vcpu_bound [OF j(2)] j(1) by (auto simp: cur_vcpu_def)
    have p: "bit (e_cpus e) (vc_phys_id (hv_vcpus s ! j))" using assms(1) jl(1) by simp
    then have m: "msg_ok e (int (vc_phys_id (hv_vcpus s ! j)), m)" for m by (auto simp: msg_ok_def)
    show ?thesis using j jl m
      by (auto simp: sbi_hsm_start_handler_def Let_def call_ok_def send_msg_def cur_vcpu_def other_ok_def nth_list_update)
  next
    case False
    then have "snd (sbi_hsm_start_handler e s) = s"
      by (auto simp: sbi_hsm_start_handler_def Let_def split: option.splits)
    then show ?thesis by (simp add: call_same)
  qed
  moreover have "snd (sbi_hsm_status_handler e s) = s" by (simp add: sbi_hsm_status_handler_def split: option.splits)
  ultimately show ?thesis by (simp add: sbi_hsm_handler_def call_same)
qed

lemma bao_ok:
  assumes "e_plat_cpu_num e \<le> 64"
  shows "call_ok e s (snd (sbi_bao_handler e fid s))"
proof -
  have "call_ok e s (snd (ipc_hypercall e a b c s))" for a b c
  proof (cases "unat a < length (e_ipcs e) \<and> ipc_shmem_id (e_ipcs e ! unat a) < length (e_shmem e)")
    case True
    then have "e_ipcs e ! unat a \<in> set (e_ipcs e)" by simp
    then show ?thesis using True hypercall_eq [of a e b c s] assms
      by (auto simp: msg_ok_def intro!: call_send)
  next
    case False
    then have "snd (ipc_hypercall e a b c s) = s" by (auto simp: ipc_hypercall_def ipc_get_shmem_def Let_def)
    then show ?thesis by (simp add: call_same)
  qed
  then show ?thesis by (simp add: sbi_bao_handler_def Let_def case_prod_unfold call_same)
qed

lemma time_ok: "call_ok e s (snd (sbi_time_handler e fid s))"
  by (intro call_same) (auto simp: sbi_time_handler_def sbi_set_timer_def sbi_ecall_def Let_def hvip_clear_def sie_set_def upd_csr_def)

lemma ext_ok:
  assumes "\<forall>v \<in> set (hv_vcpus s). bit (e_cpus e) (vc_phys_id v)" "e_cur e < length (hv_vcpus s)" "e_plat_cpu_num e \<le> 64"
  shows "call_ok e s (snd (sbi_ext_handler e extid fid s))"
proof -
  have "call_ok e s (snd (sbi_rfence_handler e fid s))"
    by (auto simp: sbi_rfence_handler_def Let_def sbi_remote_fence_i_def sbi_remote_hfence_vvma_def
        sbi_remote_hfence_vvma_asid_def ecall_ok call_same)
  moreover have "snd (sbi_base_handler e fid s) = s" by (simp add: sbi_base_handler_def Let_def)
  ultimately show ?thesis using ipi_ok time_ok hsm_ok [OF assms(1,2)] bao_ok [OF assms(3)]
    by (simp add: sbi_ext_handler_def call_same)
qed

lemma lgcy_ok:
  assumes "e_cur e < length (hv_vcpus s)"
  shows "call_ok e s (sbi_lgcy_handler e extid s)"
proof -
  have "call_ok e s (sbi_lgcy_getchar_handler e s)"
    unfolding sbi_lgcy_getchar_handler_def sbi_console_getchar_def Let_def case_prod_unfold
    using ecall_ok assms by (auto intro!: call_writereg)
  moreover have "call_ok e s (sbi_lgcy_putchar_handler e s)"
    by (simp add: sbi_lgcy_putchar_handler_def sbi_console_putchar_def ecall_ok)
  ultimately show ?thesis using time_ok
    by (simp add: sbi_lgcy_handler_def sbi_lgcy_sendipi_handler_def sbi_lgcy_rfence_handler_def call_same)
qed

text \<open>
  C11: Calls are isolated. Whatever a guest puts in its registers, a call to the hypervisor sends messages
  only to CPUs of its own VM, or notifications to peers of a shared memory object of its VM; it
  changes no register of any other virtual CPU, whose start state can only go from stopped to start
  pending; of the caller it changes only the registers \<^verbatim>\<open>a0\<close> and \<^verbatim>\<open>a1\<close>; and it leaves both interrupt
  controllers alone.
\<close>

theorem sbi_call_isolated:
  assumes "\<forall>v \<in> set (hv_vcpus s). bit (e_cpus e) (vc_phys_id v)" "e_cur e < length (hv_vcpus s)" "e_plat_cpu_num e \<le> 64"
  shows "call_ok e s (snd (sbi_vs_handler e s))"
  using lgcy_ok [OF assms(2)] ext_ok [OF assms] assms(2)
  by (auto simp: sbi_vs_handler_def Let_def case_prod_unfold intro!: call_writereg)

theorem sbi_call_isolated_witness:
  "call_ok (env_example\<lparr>e_cpus := 3\<rparr>) hv_two (snd (sbi_vs_handler (env_example\<lparr>e_cpus := 3\<rparr>) hv_two))"
proof -
  have "bit (3 :: u64) 0" "bit (3 :: u64) 1" by (simp_all add: bit_numeral_rec One_nat_def)
  then show ?thesis by (intro sbi_call_isolated) (simp_all add: hv_two_def env_example_def vcpu_example_def One_nat_def)
qed

text \<open>
  The reply to a call of an unknown extension: the code sets the value and not the error, so the guest
  reads an uninitialised word of the hypervisor's stack in \<^verbatim>\<open>a0\<close>, where it expects the error code.
\<close>

theorem sbi_unknown_extension_leaks:
  assumes "readreg e s REG_A7 = extid" "extid \<ge> 16" "e_cur e < length (hv_vcpus s)"
    "extid \<notin> {SBI_EXTID_BASE, SBI_EXTID_TIME, SBI_EXTID_IPI, SBI_EXTID_RFNC, SBI_EXTID_HSM, SBI_EXTID_BAO}"
  shows "readreg e (snd (sbi_vs_handler e s)) REG_A0 = e_junk e"
proof -
  have "sbi_ext_handler e extid fid s = (\<lparr>sbi_error = e_junk e, sbi_value = SBI_ERR_NOT_SUPPORTED\<rparr>, s)" for fid
    using assms(4) by (simp add: sbi_ext_handler_def)
  then have "snd (sbi_vs_handler e s) = writereg e REG_A1 SBI_ERR_NOT_SUPPORTED (writereg e REG_A0 (e_junk e) s)"
    using assms(1,2) by (simp add: sbi_vs_handler_def Let_def)
  moreover have "e_cur e < length (hv_vcpus (writereg e r x s))" for r x using assms(3) by (simp add: writereg_def upd_cur_def)
  ultimately show ?thesis using assms(3) by (simp add: readreg_writereg REG_defs)
qed

end
