(* ===== verification/Emul.thy ===== *)
theory Emul
  imports Vplic_Props Objcache Page_Table
begin

text \<open>
  Emulated devices: the list of emulated regions and registers of a VM (\<^verbatim>\<open>core/vm.c\<close>, \<^verbatim>\<open>core/inc/emul.h\<close>). The
  RISC-V port has two emulation handlers, those of the virtual interrupt controller. The list is
  an intrusive list whose nodes come from the VM's object cache.
\<close>

datatype emul_handler = VPLIC_GLOBAL_EMUL_HANDLER | VPLIC_HART_EMUL_HANDLER

record emul_mem =
  em_va_base :: nat
  em_pa_base :: nat
  em_size :: nat
  em_flags :: nat
  em_handler :: emul_handler

record emul_reg =
  er_addr :: nat
  er_handler :: emul_handler

datatype emul_node = EMUL_MEM emul_mem | EMUL_REG emul_reg

record emul_state =
  es_oc :: oc_state
  es_cache :: objcache
  es_list :: list_t
  es_node :: "addr \<Rightarrow> emul_node"

definition emul_add ::
  "mem_env \<Rightarrow> addr_space \<Rightarrow> nat \<Rightarrow> emul_node \<Rightarrow> emul_state \<Rightarrow> emul_state option" where
  "emul_add me cas oc_addr emu s =
     do { (ptr, oc, st) \<leftarrow> objcache_alloc me cas oc_addr (es_cache s) (es_oc s);
          let s = s\<lparr>es_cache := oc, es_oc := st\<rparr>;
          if ptr \<noteq> 0 then
            let (h, l) = list_push (oc_heap st) (es_list s) ptr
            in Some (s\<lparr>es_oc := st\<lparr>oc_heap := h\<rparr>, es_list := l, es_node := (es_node s)(ptr := emu)\<rparr>)
          else Some s }"

definition vm_emul_add_mem ::
  "mem_env \<Rightarrow> addr_space \<Rightarrow> nat \<Rightarrow> emul_mem \<Rightarrow> emul_state \<Rightarrow> emul_state option" where
  "vm_emul_add_mem me cas oc_addr emu s = emul_add me cas oc_addr (EMUL_MEM emu) s"

definition vm_emul_add_reg ::
  "mem_env \<Rightarrow> addr_space \<Rightarrow> nat \<Rightarrow> emul_reg \<Rightarrow> emul_state \<Rightarrow> emul_state option" where
  "vm_emul_add_reg me cas oc_addr emu s = emul_add me cas oc_addr (EMUL_REG emu) s"

text \<open>The test of one node, and the loop over the list; the argument \<^verbatim>\<open>type\<close> of \<^verbatim>\<open>vm_emul_get\<close> is not used.\<close>

definition emul_match :: "emul_node \<Rightarrow> nat \<Rightarrow> emul_handler option" where
  "emul_match node a =
     (case node of
        EMUL_MEM emu \<Rightarrow> if em_va_base emu \<le> a \<and> a < (em_va_base emu + em_size emu) mod 2 ^ 64 then Some (em_handler emu) else None
      | EMUL_REG emu \<Rightarrow> if er_addr emu = a then Some (er_handler emu) else None)"

partial_function (option) emul_get_loop :: "heap \<Rightarrow> (addr \<Rightarrow> emul_node) \<Rightarrow> nat \<Rightarrow> addr \<Rightarrow> emul_handler option option" where
  "emul_get_loop h nodes a p =
     (if p = 0 then Some None
      else case emul_match (nodes p) a of
             Some f \<Rightarrow> Some (Some f)
           | None \<Rightarrow> emul_get_loop h nodes a (h p))"

definition vm_emul_get :: "emul_state \<Rightarrow> nat \<Rightarrow> emul_handler option option" where
  "vm_emul_get s a = emul_get_loop (oc_heap (es_oc s)) (es_node s) a (head (es_list s))"

definition vm_emul_get_mem :: "emul_state \<Rightarrow> nat \<Rightarrow> emul_handler option option" where
  "vm_emul_get_mem s a = vm_emul_get s a"

definition vm_emul_get_reg :: "emul_state \<Rightarrow> nat \<Rightarrow> emul_handler option option" where
  "vm_emul_get_reg s a = vm_emul_get s a"

text \<open>A call of the handler found.\<close>

definition run_emul :: "emul_handler \<Rightarrow> hv_env \<Rightarrow> emul_access \<Rightarrow> hv \<Rightarrow> bool \<times> hv" where
  "run_emul f e acc s =
     (case f of VPLIC_GLOBAL_EMUL_HANDLER \<Rightarrow> vplic_global_emul_handler e acc s
              | VPLIC_HART_EMUL_HANDLER \<Rightarrow> vplic_hart_emul_handler e acc s)"

subsection \<open>Lookup\<close>

fun first_match :: "emul_node list \<Rightarrow> nat \<Rightarrow> emul_handler option" where
  "first_match [] a = None"
| "first_match (x # xs) a = (case emul_match x a of Some f \<Rightarrow> Some f | None \<Rightarrow> first_match xs a)"

lemma first_match_append:
  "first_match (xs @ ys) a = (case first_match xs a of Some f \<Rightarrow> Some f | None \<Rightarrow> first_match ys a)"
  by (induction xs) (auto split: option.splits)

lemma emul_get_loop_chain:
  "chain h p ps 0 \<Longrightarrow> emul_get_loop h nodes a p = Some (first_match (map nodes ps) a)"
proof (induction ps arbitrary: p)
  case Nil
  then show ?case by (subst emul_get_loop.simps) simp
next
  case (Cons x ps)
  then show ?case by (subst emul_get_loop.simps) (auto split: option.splits)
qed

text \<open>The emulated devices of a VM, in the order of their registration.\<close>

definition emul_repr :: "emul_state \<Rightarrow> addr list \<Rightarrow> emul_node list \<Rightarrow> bool" where
  "emul_repr s ps xs \<longleftrightarrow> list_repr (oc_heap (es_oc s)) (es_list s) ps \<and> xs = map (es_node s) ps"

lemma emul_get_first: "emul_repr s ps xs \<Longrightarrow> vm_emul_get s a = Some (first_match xs a)"
  by (simp add: emul_repr_def vm_emul_get_def list_repr_def emul_get_loop_chain)

lemma emul_add_repr:
  assumes "emul_repr s ps xs" "objcache_alloc me cas oc_addr (es_cache s) (es_oc s) = Some (ptr, oc, st)"
    "ptr \<noteq> 0" "ptr \<notin> set ps" "\<forall>p \<in> set ps. oc_heap st p = oc_heap (es_oc s) p"
  shows "\<exists>s'. emul_add me cas oc_addr emu s = Some s' \<and> emul_repr s' (ps @ [ptr]) (xs @ [emu])"
proof -
  obtain h l where p: "list_push (oc_heap st) (es_list s) ptr = (h, l)" by fastforce
  have "list_repr (oc_heap st) (es_list s) ps"
    using assms(1,5) chain_cong [of ps "oc_heap st" "oc_heap (es_oc s)"] by (simp add: emul_repr_def list_repr_def)
  then have "list_repr h l (ps @ [ptr])" using list_repr_push assms(3,4) p by blast
  moreover have "map ((es_node s)(ptr := emu)) (ps @ [ptr]) = xs @ [emu]"
    using assms(1,4) by (auto simp: emul_repr_def)
  ultimately show ?thesis using assms(2,3) p by (auto simp: emul_add_def emul_repr_def)
qed

text \<open>
  The lookup of an emulated device terminates and finds the first device registered for the address:
  after a registration for which the object cache had room, the devices found before are still
  found, and an address none of them covered is now answered by the new device if it covers it.
\<close>

theorem vm_emul_lookup:
  assumes "emul_repr s ps xs" "objcache_alloc me cas oc_addr (es_cache s) (es_oc s) = Some (ptr, oc, st)"
    "ptr \<noteq> 0" "ptr \<notin> set ps" "\<forall>p \<in> set ps. oc_heap st p = oc_heap (es_oc s) p"
  shows "\<exists>s' old. vm_emul_add_mem me cas oc_addr emu s = Some s' \<and> vm_emul_get_mem s a = Some old \<and>
    vm_emul_get_mem s' a = Some (case old of Some f \<Rightarrow> Some f | None \<Rightarrow> emul_match (EMUL_MEM emu) a)"
proof -
  obtain s' where s': "emul_add me cas oc_addr (EMUL_MEM emu) s = Some s'" "emul_repr s' (ps @ [ptr]) (xs @ [EMUL_MEM emu])"
    using emul_add_repr [OF assms] by blast
  have "vm_emul_get s a = Some (first_match xs a)" by (rule emul_get_first [OF assms(1)])
  moreover have "vm_emul_get s' a = Some (first_match (xs @ [EMUL_MEM emu]) a)" by (rule emul_get_first [OF s'(2)])
  ultimately show ?thesis using s'(1)
    by (intro exI [of _ s'] exI [of _ "first_match xs a"])
      (auto simp: vm_emul_add_mem_def vm_emul_get_mem_def first_match_append split: option.splits)
qed

definition emul_example :: emul_state where
  "emul_example = \<lparr>es_oc = oc_example,
     es_cache = \<lparr>oc_osize = 24, oc_slabs = list_init, oc_last_free = 0x5000, oc_section = 0\<rparr>,
     es_list = list_init, es_node = (\<lambda>_. EMUL_REG \<lparr>er_addr = 0, er_handler = VPLIC_HART_EMUL_HANDLER\<rparr>)\<rparr>"

definition plic_global_dev :: emul_mem where
  "plic_global_dev = \<lparr>em_va_base = 0xc000000, em_pa_base = 0xc000000, em_size = 0x3000, em_flags = 0,
     em_handler = VPLIC_GLOBAL_EMUL_HANDLER\<rparr>"

lemma oc_example_alloc: "\<exists>ptr st. ptr \<noteq> 0 \<and> objcache_alloc me cas 0x100 (es_cache emul_example) oc_example =
  Some (ptr, es_cache emul_example, st)"
proof -
  obtain obj st where a: "slab_alloc 0x5000 oc_example = (obj, st)" by fastforce
  have "sl_objcount (oc_hdr oc_example 0x5000) = 126" by (simp add: oc_example_def split: prod.splits)
  then have "obj \<noteq> 0" using slab_alloc_spec [OF oc_example_inv a] by fastforce
  then show ?thesis using a by (simp add: objcache_alloc_def emul_example_def)
qed

theorem vm_emul_lookup_witness:
  "\<exists>me cas s'. vm_emul_add_mem me cas 0x100 plic_global_dev emul_example = Some s' \<and>
     vm_emul_get_mem s' 0xc002000 = Some (Some VPLIC_GLOBAL_EMUL_HANDLER) \<and>
     vm_emul_get_mem emul_example 0xc002000 = Some None"
proof -
  fix me cas
  obtain ptr st where a: "ptr \<noteq> 0" "objcache_alloc me cas 0x100 (es_cache emul_example) (es_oc emul_example) =
      Some (ptr, es_cache emul_example, st)"
    using oc_example_alloc [of me cas] by (auto simp: emul_example_def)
  have r: "emul_repr emul_example [] []" by (simp add: emul_repr_def list_repr_def emul_example_def list_init_def)
  have "vm_emul_get_mem emul_example 0xc002000 = Some None"
    using emul_get_first [OF r] by (simp add: vm_emul_get_mem_def)
  then show ?thesis
    using vm_emul_lookup [OF r a(2) a(1), of plic_global_dev "0xc002000"]
    by (fastforce simp: emul_match_def plic_global_dev_def)
qed

end
