(* ===== verification/Sync_Exceptions.thy ===== *)
theory Sync_Exceptions
  imports Sbi_Props Emul
begin

text \<open>
  Synchronous exceptions of a guest (\<^verbatim>\<open>arch/riscv/sync_exceptions.c\<close>, \<^verbatim>\<open>arch/riscv/inc/arch/encoding.h\<close>): system
  calls of the guest go to the SBI handler, faults on guest physical addresses to the emulated
  devices, after the faulting instruction has been decoded. A handler that cannot continue stops the
  CPU, which is an error value here; \<open>None\<close> is the search of an emulated device that does not end.
\<close>

text \<open>The registers that describe the trap. \<open>t_hlvxhu\<close> reads 16 bits of the guest's code.\<close>

record trap =
  t_scause :: u64
  t_hstatus :: u64
  t_htval :: u64
  t_htinst :: u64
  t_sepc :: u64
  t_hlvxhu :: "u64 \<Rightarrow> u64"

datatype trap_error =
    INTERNAL_ABORT | UNALIGNED_INS | PTW_FAULT | CANT_DECODE | EMUL_FAILED | NO_EMUL_HANDLER | UNKNOWN_SYNC

subsection \<open>Instruction encoding\<close>

definition INS_COMPRESSED :: "u64 \<Rightarrow> bool" where "INS_COMPRESSED ins \<longleftrightarrow> ins AND 3 \<noteq> 3"
definition INS_SIZE :: "u64 \<Rightarrow> nat" where "INS_SIZE ins = (if ins AND 3 = 3 then 4 else 2)"
definition INS_OPCODE :: "u64 \<Rightarrow> u64" where "INS_OPCODE ins = ins AND 0x7f"
definition INS_FUNCT3 :: "u64 \<Rightarrow> u64" where "INS_FUNCT3 ins = drop_bit 12 ins AND 0x7"
definition INS_RD :: "u64 \<Rightarrow> u64" where "INS_RD ins = drop_bit 7 ins AND 0x1f"
definition INS_RS2 :: "u64 \<Rightarrow> u64" where "INS_RS2 ins = drop_bit 20 ins AND 0x1f"
definition MATCH_LOAD :: u64 where "MATCH_LOAD = 0x03"
definition MATCH_STORE :: u64 where "MATCH_STORE = 0x23"
definition INS_C_OPCODE :: "u64 \<Rightarrow> u64" where "INS_C_OPCODE ins = ins AND 0xe003"
definition INS_C_RD_RS2 :: "u64 \<Rightarrow> u64" where "INS_C_RD_RS2 ins = drop_bit 2 ins AND 0x7"
definition MATCH_C_LOAD :: u64 where "MATCH_C_LOAD = 0x4000"
definition MATCH_C_STORE :: u64 where "MATCH_C_STORE = 0xc000"

definition TINST_PSEUDO_STORE :: u32 where "TINST_PSEUDO_STORE = 0x3020"
definition TINST_PSEUDO_LOAD :: u32 where "TINST_PSEUDO_LOAD = 0x3000"
definition TINST_INS_COMPRESSED :: "u64 \<Rightarrow> bool" where "TINST_INS_COMPRESSED tinst \<longleftrightarrow> tinst AND 2 = 0"
definition TINST_INS_SIZE :: "u64 \<Rightarrow> nat" where "TINST_INS_SIZE tinst = (if TINST_INS_COMPRESSED tinst then 2 else 4)"

definition REGLEN :: nat where "REGLEN = 8"
definition SCAUSE_CODE_ECV :: nat where "SCAUSE_CODE_ECV = 10"
definition SCAUSE_CODE_LGPF :: nat where "SCAUSE_CODE_LGPF = 21"
definition SCAUSE_CODE_SGPF :: nat where "SCAUSE_CODE_SGPF = 23"

subsection \<open>The handlers\<close>

text \<open>The instruction is a \<^verbatim>\<open>uint32_t\<close>; the first half is truncated to it, and so is the second one.\<close>

definition read_ins :: "trap \<Rightarrow> u64 \<Rightarrow> trap_error + u32" where
  "read_ins t ins_addr =
     (if ins_addr AND 1 \<noteq> 0 then Inl UNALIGNED_INS
      else
        let ins = ucast (t_hlvxhu t ins_addr) :: u32
        in Inr (if ins AND 3 = 3 then ins OR push_bit 16 (ucast (t_hlvxhu t (ins_addr + 2))) else ins))"

text \<open>The access described by an instruction; its address is filled in by the caller.\<close>

definition ins_ldst_decode :: "u64 \<Rightarrow> nat \<Rightarrow> emul_access option" where
  "ins_ldst_decode ins a =
     (if INS_COMPRESSED ins then
        if INS_C_OPCODE ins \<noteq> MATCH_C_LOAD \<and> INS_C_OPCODE ins \<noteq> MATCH_C_STORE then None
        else Some \<lparr>acc_addr = a, acc_write = (INS_C_OPCODE ins = MATCH_C_STORE), acc_sign_ext = True, acc_width = 4,
               acc_reg = unat (INS_C_RD_RS2 ins + 8), acc_reg_width = REGLEN\<rparr>
      else
        if INS_OPCODE ins \<noteq> MATCH_LOAD \<and> INS_OPCODE ins \<noteq> MATCH_STORE then None
        else
          let funct3 = INS_FUNCT3 ins;
              width = (if funct3 AND 3 = 0 then 1 else if funct3 AND 3 = 1 then 2 else if funct3 AND 3 = 2 then 4 else 8);
              write = (INS_OPCODE ins = MATCH_STORE)
          in Some \<lparr>acc_addr = a, acc_write = write, acc_sign_ext = (funct3 AND 0x4 = 0), acc_width = width,
                acc_reg = unat (if write then INS_RS2 ins else INS_RD ins), acc_reg_width = REGLEN\<rparr>)"

definition is_pseudo_ins :: "u32 \<Rightarrow> bool" where
  "is_pseudo_ins ins \<longleftrightarrow> ins = TINST_PSEUDO_STORE \<or> ins = TINST_PSEUDO_LOAD"

text \<open>The instruction and its size, as the handler of guest page faults finds them.\<close>

definition fault_ins :: "trap \<Rightarrow> trap_error + u64 \<times> nat" where
  "fault_ins t =
     (let ins = t_htinst t in
      if ins = 0 then
        (case read_ins t (t_sepc t) of
           Inl err \<Rightarrow> Inl err
         | Inr i \<Rightarrow> let ins = ucast i in Inr (ins, INS_SIZE ins))
      else if is_pseudo_ins (ucast ins) then Inl PTW_FAULT
      else Inr (ins OR 2, TINST_INS_SIZE ins))"

definition guest_page_fault_handler ::
  "hv_env \<Rightarrow> emul_state \<Rightarrow> trap \<Rightarrow> hv \<Rightarrow> (trap_error + nat \<times> hv) option" where
  "guest_page_fault_handler e es t s =
     (let a = unat (push_bit 2 (t_htval t)) in
      do { handler \<leftarrow> vm_emul_get_mem es a;
           case handler of
             None \<Rightarrow> Some (Inl NO_EMUL_HANDLER)
           | Some f \<Rightarrow>
               (case fault_ins t of
                  Inl err \<Rightarrow> Some (Inl err)
                | Inr (ins, ins_size) \<Rightarrow>
                    (case ins_ldst_decode ins a of
                       None \<Rightarrow> Some (Inl CANT_DECODE)
                     | Some emul \<Rightarrow>
                         (case run_emul f e emul s of
                            (ok, s) \<Rightarrow> if ok then Some (Inr (ins_size, s)) else Some (Inl EMUL_FAILED)))) })"

type_synonym sync_handler = "hv_env \<Rightarrow> emul_state \<Rightarrow> trap \<Rightarrow> hv \<Rightarrow> (trap_error + nat \<times> hv) option"

definition sync_handler_table :: "sync_handler option list" where
  "sync_handler_table =
     (replicate (SCAUSE_CODE_SGPF + 1) None)
       [SCAUSE_CODE_ECV := Some (\<lambda>e es t s. Some (Inr (sbi_vs_handler e s))),
        SCAUSE_CODE_LGPF := Some guest_page_fault_handler,
        SCAUSE_CODE_SGPF := Some guest_page_fault_handler]"

definition sync_exception_handler :: "hv_env \<Rightarrow> emul_state \<Rightarrow> trap \<Rightarrow> hv \<Rightarrow> (trap_error + hv) option" where
  "sync_exception_handler e es t s =
     (if t_hstatus t AND HSTATUS_SPV = 0 then Some (Inl INTERNAL_ABORT)
      else if unat (t_scause t) < length sync_handler_table then
        (case sync_handler_table ! unat (t_scause t) of
           None \<Rightarrow> Some (Inl UNKNOWN_SYNC)
         | Some h \<Rightarrow>
             do { r \<leftarrow> h e es t s;
                  case r of
                    Inl err \<Rightarrow> Some (Inl err)
                  | Inr (pc_step, s) \<Rightarrow>
                      Some (Inr (upd_cur e (\<lambda>v. vcpu_writepc v (vcpu_readpc v + of_nat pc_step)) s)) })
      else Some (Inl UNKNOWN_SYNC))"

subsection \<open>Decoding of the instructions of the architecture\<close>

text \<open>The encodings of loads, stores and their compressed forms.\<close>

definition rv_load :: "12 word \<Rightarrow> 5 word \<Rightarrow> 3 word \<Rightarrow> 5 word \<Rightarrow> u64" where
  "rv_load imm rs1 funct3 rd =
     push_bit 20 (ucast imm) OR push_bit 15 (ucast rs1) OR push_bit 12 (ucast funct3) OR push_bit 7 (ucast rd) OR 0x03"

definition rv_store :: "7 word \<Rightarrow> 5 word \<Rightarrow> 5 word \<Rightarrow> 3 word \<Rightarrow> 5 word \<Rightarrow> u64" where
  "rv_store imm_hi rs2 rs1 funct3 imm_lo =
     push_bit 25 (ucast imm_hi) OR push_bit 20 (ucast rs2) OR push_bit 15 (ucast rs1) OR push_bit 12 (ucast funct3) OR
     push_bit 7 (ucast imm_lo) OR 0x23"

definition rv_c_mem :: "3 word \<Rightarrow> 3 word \<Rightarrow> 3 word \<Rightarrow> 2 word \<Rightarrow> 3 word \<Rightarrow> u64" where
  "rv_c_mem funct3 imm_hi rs1 imm_lo rd =
     push_bit 13 (ucast funct3) OR push_bit 10 (ucast imm_hi) OR push_bit 7 (ucast rs1) OR push_bit 5 (ucast imm_lo) OR
     push_bit 2 (ucast rd)"

lemma ins_masks:
  "(0x7f::u64) = mask 7" "(0x1f::u64) = mask 5" "(7::u64) = mask 3" "(3::u64) = mask 2"
  "(0x23::u64) = mask 2 OR push_bit 5 1" "(0xe003::u64) = mask 2 OR push_bit 13 (mask 3)"
  "(0x4000::u64) = push_bit 14 1" "(0xc000::u64) = push_bit 14 (mask 2)"
  by (simp_all add: mask_eq_exp_minus_1)

lemmas field_defs = INS_OPCODE_def INS_RD_def INS_RS2_def INS_FUNCT3_def INS_C_OPCODE_def INS_C_RD_RS2_def

lemma load_fields:
  "rv_load imm rs1 f rd AND 3 = 3" "INS_OPCODE (rv_load imm rs1 f rd) = MATCH_LOAD"
  "INS_RD (rv_load imm rs1 f rd) = ucast rd" "INS_FUNCT3 (rv_load imm rs1 f rd) = ucast f"
  unfolding rv_load_def field_defs MATCH_LOAD_def ins_masks
  by (rule bit_word_eqI; auto simp: bit_simps simp del: push_bit_of_1 dest: bit_imp_le_length)+

lemma store_fields:
  "rv_store hi rs2 rs1 f lo AND 3 = 3" "INS_OPCODE (rv_store hi rs2 rs1 f lo) = MATCH_STORE"
  "INS_RS2 (rv_store hi rs2 rs1 f lo) = ucast rs2" "INS_FUNCT3 (rv_store hi rs2 rs1 f lo) = ucast f"
  unfolding rv_store_def field_defs MATCH_STORE_def ins_masks
  by (rule bit_word_eqI; auto simp: bit_simps simp del: push_bit_of_1 dest: bit_imp_le_length)+

lemma c_fields:
  "rv_c_mem f hi rs1 lo rd AND 3 = 0" "INS_C_OPCODE (rv_c_mem f hi rs1 lo rd) = push_bit 13 (ucast f)"
  "INS_C_RD_RS2 (rv_c_mem f hi rs1 lo rd) = ucast rd"
  unfolding rv_c_mem_def field_defs ins_masks
  by (rule bit_word_eqI; auto simp: bit_simps simp del: push_bit_of_1 dest: bit_imp_le_length)+

lemma word3_cases:
  fixes f :: "3 word"
  shows "f = 0 \<or> f = 1 \<or> f = 2 \<or> f = 3 \<or> f = 4 \<or> f = 5 \<or> f = 6 \<or> f = 7"
proof -
  have "unat f < 8" using unsigned_less [of f, where ?'a = nat] by simp
  then have "unat f \<in> {0, 1, 2, 3, 4, 5, 6, 7}" by auto
  then have "(word_of_nat (unat f) :: 3 word) \<in> word_of_nat ` {0, 1, 2, 3, 4, 5, 6, 7}" by blast
  then show ?thesis by simp
qed

lemma funct3_fields:
  fixes f :: "3 word"
  shows "(ucast f AND (4::u64) = 0) = (f < 4)"
    "(if ucast f AND 3 = (0::u64) then 1 else if ucast f AND 3 = (1::u64) then 2
      else if ucast f AND 3 = (2::u64) then 4 else 8) = (2::nat) ^ (unat f mod 4)"
  using word3_cases [of f] by auto

lemma unat_ucast_reg: "unat (ucast (r :: 5 word) :: u64) = unat r"
  using unsigned_less [of r, where ?'a = nat] by (simp add: unsigned_ucast_eq take_bit_nat_eq_self)

lemma decode_load:
  "ins_ldst_decode (rv_load imm rs1 f rd) a =
     Some \<lparr>acc_addr = a, acc_write = False, acc_sign_ext = (f < 4), acc_width = 2 ^ (unat f mod 4), acc_reg = unat rd,
           acc_reg_width = 8\<rparr>"
  by (simp add: ins_ldst_decode_def INS_COMPRESSED_def load_fields funct3_fields Let_def REGLEN_def unat_ucast_reg)
    (simp add: MATCH_LOAD_def MATCH_STORE_def)

lemma decode_store:
  "ins_ldst_decode (rv_store hi rs2 rs1 f lo) a =
     Some \<lparr>acc_addr = a, acc_write = True, acc_sign_ext = (f < 4), acc_width = 2 ^ (unat f mod 4), acc_reg = unat rs2,
           acc_reg_width = 8\<rparr>"
  by (simp add: ins_ldst_decode_def INS_COMPRESSED_def store_fields funct3_fields Let_def REGLEN_def unat_ucast_reg)

lemma decode_compressed:
  "ins_ldst_decode (rv_c_mem g hi rs1 lo rd) a =
     (if g = 2 \<or> g = 6
      then Some \<lparr>acc_addr = a, acc_write = (g = 6), acc_sign_ext = True, acc_width = 4, acc_reg = 8 + unat rd,
                 acc_reg_width = 8\<rparr>
      else None)"
proof -
  have g: "(push_bit 13 (ucast g) = MATCH_C_LOAD) = (g = 2)" "(push_bit 13 (ucast g) = MATCH_C_STORE) = (g = 6)"
    using word3_cases [of g] by (auto simp: MATCH_C_LOAD_def MATCH_C_STORE_def)
  have "unat rd < 8" using unsigned_less [of rd, where ?'a = nat] by simp
  then have "unat (ucast rd + 8 :: u64) = 8 + unat rd" by (simp add: unat_word_ariths unsigned_ucast_eq take_bit_nat_eq_self)
  then show ?thesis by (simp add: ins_ldst_decode_def INS_COMPRESSED_def c_fields g Let_def REGLEN_def) (simp add: MATCH_C_STORE_def)
qed

text \<open>
  C37: The decoder reads a load or a store exactly as the architecture encodes it: direction, width, sign
  extension and the register that receives or provides the value. Of the compressed instructions of
  quadrant 0 it knows the word accesses \<^verbatim>\<open>c.lw\<close> and \<^verbatim>\<open>c.sw\<close> only, on the registers \<^verbatim>\<open>x8\<close> to \<^verbatim>\<open>x15\<close>.
\<close>

theorem ins_ldst_decode_exact:
  "ins_ldst_decode (rv_load imm rs1 f rd) a =
     Some \<lparr>acc_addr = a, acc_write = False, acc_sign_ext = (f < 4), acc_width = 2 ^ (unat f mod 4), acc_reg = unat rd,
           acc_reg_width = 8\<rparr> \<and>
   ins_ldst_decode (rv_store hi rs2 rs1 f lo) a =
     Some \<lparr>acc_addr = a, acc_write = True, acc_sign_ext = (f < 4), acc_width = 2 ^ (unat f mod 4), acc_reg = unat rs2,
           acc_reg_width = 8\<rparr> \<and>
   ins_ldst_decode (rv_c_mem g chi crs1 clo crd) a =
     (if g = 2 \<or> g = 6
      then Some \<lparr>acc_addr = a, acc_write = (g = 6), acc_sign_ext = True, acc_width = 4, acc_reg = 8 + unat crd,
                 acc_reg_width = 8\<rparr>
      else None)"
  by (simp add: decode_load decode_store decode_compressed)

subsection \<open>Accesses of a guest to an emulated device\<close>

text \<open>The guest's memory holds the 32-bit instruction \<open>ins\<close> at \<open>a\<close>.\<close>

definition guest_code :: "trap \<Rightarrow> u64 \<Rightarrow> u64 \<Rightarrow> bool" where
  "guest_code t a ins \<longleftrightarrow>
     a AND 1 = 0 \<and> t_hlvxhu t a = take_bit 16 ins \<and> t_hlvxhu t (a + 2) = take_bit 16 (drop_bit 16 ins)"

lemma fault_ins_memory:
  assumes "t_htinst t = 0" "guest_code t (t_sepc t) ins" "ins AND 3 = 3" "take_bit 32 ins = ins"
  shows "fault_ins t = Inr (ins, 4)"
proof -
  let ?lo = "ucast (take_bit 16 ins) :: u32"
  let ?hi = "ucast (take_bit 16 (drop_bit 16 ins)) :: u32"
  have b: "bit ins n \<Longrightarrow> n < 32" for n using arg_cong [OF assms(4), of "\<lambda>x. bit x n"] by (simp add: bit_simps)
  have m: "(3::u32) = mask 2" by (simp add: mask_eq_exp_minus_1)
  have "?lo AND 3 = ucast (ins AND 3)"
    unfolding ins_masks m by (rule bit_word_eqI) (auto simp: bit_simps)
  then have lo: "?lo AND 3 = 3" using assms(3) by simp
  have w: "ucast (?lo OR push_bit 16 ?hi) = ins"
    by (rule bit_word_eqI) (auto simp: bit_simps dest: b)
  show ?thesis using assms w lo by (simp add: fault_ins_def read_ins_def guest_code_def INS_SIZE_def Let_def)
qed

lemma load_32: "take_bit 32 (rv_load imm rs1 f rd) = rv_load imm rs1 f rd"
  unfolding rv_load_def ins_masks by (rule bit_word_eqI) (auto simp: bit_simps dest: bit_imp_le_length)

definition advance :: "hv_env \<Rightarrow> nat \<Rightarrow> hv \<Rightarrow> hv" where
  "advance e n s = upd_cur e (\<lambda>v. vcpu_writepc v (vcpu_readpc v + of_nat n)) s"

lemma table_entry:
  "length sync_handler_table = 24"
  "k < 24 \<Longrightarrow> sync_handler_table ! k =
     (if k = 10 then Some (\<lambda>e es t s. Some (Inr (sbi_vs_handler e s)))
      else if k = 21 \<or> k = 23 then Some guest_page_fault_handler else None)"
  by (auto simp: sync_handler_table_def SCAUSE_CODE_ECV_def SCAUSE_CODE_LGPF_def SCAUSE_CODE_SGPF_def nth_list_update)

lemma sync_exception_cases:
  assumes "t_hstatus t AND HSTATUS_SPV \<noteq> 0"
  shows "sync_exception_handler e es t s =
    (if t_scause t = 10 then Some (Inr (advance e (fst (sbi_vs_handler e s)) (snd (sbi_vs_handler e s))))
     else if t_scause t = 21 \<or> t_scause t = 23 then
       do { r \<leftarrow> guest_page_fault_handler e es t s; Some (case r of Inl err \<Rightarrow> Inl err | Inr (n, s) \<Rightarrow> Inr (advance e n s)) }
     else Some (Inl UNKNOWN_SYNC))"
proof -
  have "unat (t_scause t) = 10 \<longleftrightarrow> t_scause t = 10" "unat (t_scause t) = 21 \<longleftrightarrow> t_scause t = 21"
    "unat (t_scause t) = 23 \<longleftrightarrow> t_scause t = 23" by (simp_all add: word_unat_eq_iff)
  then show ?thesis
    using assms by (auto simp: sync_exception_handler_def table_entry advance_def split: prod.splits sum.splits option.splits bind_splits)
qed

lemma fault_runs:
  assumes "vm_emul_get_mem es (unat (push_bit 2 (t_htval t))) = Some (Some f)" "fault_ins t = Inr (ins, n)"
    "ins_ldst_decode ins (unat (push_bit 2 (t_htval t))) = Some acc" "run_emul f e acc s = (True, s')"
  shows "guest_page_fault_handler e es t s = Some (Inr (n, s'))"
  using assms by (simp add: guest_page_fault_handler_def)

lemma update_hart_line_vcpus [simp]: "hv_vcpus (vplic_update_hart_line e c s) = hv_vcpus s"
  by (simp add: vplic_update_hart_line_def Let_def hvip_set_def hvip_clear_def upd_csr_def send_msg_def)

lemma claim_vcpus: "vplic_claim e c s = (r, s') \<Longrightarrow> hv_vcpus s' = hv_vcpus s"
  by (auto simp: vplic_claim_def Let_def upd_vplic_def)

lemma advance_facts:
  assumes "e_cur e < length (hv_vcpus s)"
  shows "vcpu_readpc (cur_vcpu e (advance e n s)) = vcpu_readpc (cur_vcpu e s) + of_nat n"
    "readreg e (advance e n s) q = readreg e s q" "hv_vplic (advance e n s) = hv_vplic s"
  using assms by (simp_all add: advance_def cur_upd readreg_def vcpu_readreg_def vcpu_writepc_def vcpu_readpc_def)
    (simp add: upd_cur_def)

lemma writereg_facts:
  "vcpu_readpc (cur_vcpu e (writereg e r x s)) = vcpu_readpc (cur_vcpu e s)"
  "hv_vplic (writereg e r x s) = hv_vplic s" "length (hv_vcpus (writereg e r x s)) = length (hv_vcpus s)"
proof -
  show "vcpu_readpc (cur_vcpu e (writereg e r x s)) = vcpu_readpc (cur_vcpu e s)"
    by (cases "e_cur e < length (hv_vcpus s)") (simp_all add: writereg_def upd_cur_def cur_vcpu_def vcpu_readpc_def vcpu_writereg_def list_update_beyond)
qed (simp_all add: writereg_def upd_cur_def)

text \<open>
  C12: A guest reads its claim register with a load of a word: the exception is handled, the destination
  register receives the number of the most urgent interrupt of the context, this interrupt becomes
  active and is no longer pending, no other register changes, and the guest continues behind the load.
\<close>

theorem guest_claims_interrupt:
  assumes trap: "t_hstatus t AND HSTATUS_SPV \<noteq> 0" "t_scause t = 21" "t_htval t = of_nat (a div 4)" "t_htinst t = 0"
    and code: "guest_code t (t_sepc t) (rv_load imm rs1 2 rd)" "rd \<noteq> 0"
    and dev: "vm_emul_get_mem es a = Some (Some VPLIC_HART_EMUL_HANDLER)" "c < 0x400"
      "a = e_plic_base e + PLIC_CLAIMCMPLT_OFF + 0x1000 * c + 4" "0x1000 dvd e_plic_base e" "e_plic_base e < 2 ^ 63"
    and ctx: "vplic_vcntxt_valid e (int c) s" "e_cur e < length (hv_vcpus s)"
    and r: "r = vplic_next_pending (e_cntxt_num e) (int c) (hv_vplic s)"
  shows "\<exists>s'. sync_exception_handler e es t s = Some (Inr s') \<and>
    (\<forall>q \<in> {1..31}. readreg e s' q = (if q = unat rd then of_nat r else readreg e s q)) \<and>
    vcpu_readpc (cur_vcpu e s') = vcpu_readpc (cur_vcpu e s) + 4 \<and>
    hv_vplic s' = vp_set VP_ACT (int r) (vp_clear VP_PEND (int r) (hv_vplic s))"
proof -
  let ?acc = "\<lparr>acc_addr = a, acc_write = False, acc_sign_ext = True, acc_width = 4, acc_reg = unat rd, acc_reg_width = 8\<rparr>"
  have aa: "acc_addr ?acc = e_plic_base e + PLIC_CLAIMCMPLT_OFF + 0x1000 * c + 4" using dev(3) by simp
  note g = claim_register [OF dev(2) aa dev(4,5)]
  have "a < 2 ^ 64" using dev(2,3,5) by (simp add: PLIC_CLAIMCMPLT_OFF_def)
  moreover have "a div 4 * 4 = a" using g(3) by auto
  ultimately have a: "unat (push_bit 2 (t_htval t)) = a" using trap(3)
    by (simp add: push_bit_eq_mult unat_word_ariths unsigned_of_nat take_bit_nat_eq_self)
  obtain i s1 where cl: "vplic_claim e (int c) s = (i, s1)" by fastforce
  have i: "i = r" "hv_vplic s1 = vp_set VP_ACT (int r) (vp_clear VP_PEND (int r) (hv_vplic s))" "hv_vcpus s1 = hv_vcpus s"
    using claim_vplic [OF cl] claim_vcpus [OF cl] r by simp_all
  have d: "ins_ldst_decode (rv_load imm rs1 2 rd) a = Some ?acc" by (simp add: decode_load)
  have "run_emul VPLIC_HART_EMUL_HANDLER e ?acc s = (True, writereg e (unat rd) (of_nat r) s1)"
    using g ctx(1) cl i(1) by (simp add: run_emul_def vplic_hart_emul_handler_def)
  then have "guest_page_fault_handler e es t s = Some (Inr (4, writereg e (unat rd) (of_nat r) s1))"
    using fault_runs dev(1) a fault_ins_memory [OF trap(4) code(1) load_fields(1) load_32] d by simp
  then have "sync_exception_handler e es t s = Some (Inr (advance e 4 (writereg e (unat rd) (of_nat r) s1)))"
    using sync_exception_cases [OF trap(1)] trap(2) by simp
  moreover have rd: "0 < unat rd" "unat rd \<le> 31" using code(2) unsigned_less [of rd, where ?'a = nat] by (simp_all add: unat_gt_0)
  have "readreg e s1 q = readreg e s q" "cur_vcpu e s1 = cur_vcpu e s" for q using i(3) by (simp_all add: readreg_def cur_vcpu_def)
  ultimately show ?thesis
    using ctx(2) i rd by (simp add: advance_facts writereg_facts readreg_writereg)
qed

definition emul_plic :: emul_state where
  "emul_plic = emul_example\<lparr>es_oc := oc_example\<lparr>oc_heap := (\<lambda>_. 0)\<rparr>, es_list := \<lparr>head = 8, tail = 8\<rparr>,
     es_node := (\<lambda>_. EMUL_MEM (plic_global_dev\<lparr>em_va_base := 0xc200000, em_handler := VPLIC_HART_EMUL_HANDLER\<rparr>))\<rparr>"

definition trap_claim :: trap where
  "trap_claim = \<lparr>t_scause = 21, t_hstatus = HSTATUS_SPV, t_htval = 0x3080401, t_htinst = 0, t_sepc = 0x80000000,
     t_hlvxhu = (\<lambda>a. take_bit 16 (drop_bit (if a = 0x80000000 then 0 else 16) (rv_load 4 11 2 10)))\<rparr>"

lemma emul_plic_repr: "emul_repr emul_plic [8] [EMUL_MEM (plic_global_dev\<lparr>em_va_base := 0xc200000, em_handler := VPLIC_HART_EMUL_HANDLER\<rparr>)]"
  by (simp add: emul_repr_def list_repr_def emul_plic_def)

theorem guest_claims_interrupt_witness:
  "\<exists>s'. sync_exception_handler env_example emul_plic trap_claim hv_example = Some (Inr s') \<and>
     readreg env_example s' 10 = 5 \<and> vcpu_readpc (cur_vcpu env_example s') = 0x80000004"
proof -
  have env: "e_cntxt_num env_example = 2" "hv_vplic hv_example = vp_example" "e_plic_base env_example = 0xc000000"
    "e_cur env_example = 0" "hv_vcpus hv_example = [vcpu_example]"
    by (simp_all add: env_example_def hv_example_def)
  have v: "vplic_vcntxt_valid env_example (int 1) hv_example"
    using id_to_cntxt [of 1 2]
    by (simp add: vplic_vcntxt_valid_def env PRIV_S_def) (simp add: vp_example_def to_size_def)
  have g: "vm_emul_get_mem emul_plic 0xc201004 = Some (Some VPLIC_HART_EMUL_HANDLER)"
    using emul_get_first [OF emul_plic_repr] by (simp add: vm_emul_get_mem_def emul_match_def plic_global_dev_def)
  have "guest_code trap_claim (t_sepc trap_claim) (rv_load 4 11 2 10)" by (simp add: guest_code_def trap_claim_def)
  then have "\<exists>s'. sync_exception_handler env_example emul_plic trap_claim hv_example = Some (Inr s') \<and>
      (\<forall>q \<in> {1..31}. readreg env_example s' q = (if q = unat (10 :: 5 word) then of_nat 5 else readreg env_example hv_example q)) \<and>
      vcpu_readpc (cur_vcpu env_example s') = vcpu_readpc (cur_vcpu env_example hv_example) + 4 \<and>
      hv_vplic s' = vp_set VP_ACT (int 5) (vp_clear VP_PEND (int 5) (hv_vplic hv_example))"
    using g v by (intro guest_claims_interrupt [where a = "0xc201004" and c = 1])
      (simp_all add: env vp_example_next PLIC_CLAIMCMPLT_OFF_def dvd_def, simp_all add: trap_claim_def HSTATUS_SPV_def)
  moreover have "vcpu_readpc (cur_vcpu env_example hv_example) = 0x80000000"
    by (simp add: cur_vcpu_def env vcpu_readpc_def vcpu_example_def)
  ultimately show ?thesis by auto
qed

text \<open>
  C38: The outcome of every exception taken from a guest whose devices are registered: the handler
  returns; a system call is never an error, continues behind the call and has the effect of the SBI
  handler; an access where no device is registered and an unknown cause are reported as such, and
  nothing else is.
\<close>

theorem sync_exception_outcome:
  assumes "emul_repr es ps xs" "t_hstatus t AND HSTATUS_SPV \<noteq> 0"
  shows "\<exists>r. sync_exception_handler e es t s = Some r \<and>
    (t_scause t = 10 \<longrightarrow> r = Inr (advance e 4 (snd (sbi_vs_handler e s)))) \<and>
    (r = Inl UNKNOWN_SYNC \<longleftrightarrow> t_scause t \<notin> {10, 21, 23}) \<and>
    (r = Inl NO_EMUL_HANDLER \<longleftrightarrow>
       t_scause t \<in> {21, 23} \<and> (\<forall>x \<in> set xs. emul_match x (unat (push_bit 2 (t_htval t))) = None)) \<and>
    r \<noteq> Inl INTERNAL_ABORT"
proof -
  let ?a = "unat (push_bit 2 (t_htval t))"
  have nm: "first_match xs a = None \<longleftrightarrow> (\<forall>x \<in> set xs. emul_match x a = None)" for a
    by (induction xs) (auto split: option.splits)
  have g: "vm_emul_get_mem es ?a = Some (first_match xs ?a)"
    using emul_get_first [OF assms(1)] by (simp add: vm_emul_get_mem_def)
  have fi: "fault_ins t \<noteq> Inl UNKNOWN_SYNC" "fault_ins t \<noteq> Inl NO_EMUL_HANDLER" "fault_ins t \<noteq> Inl INTERNAL_ABORT"
    by (auto simp: fault_ins_def read_ins_def Let_def split: sum.splits)
  have "fst (sbi_vs_handler e s) = 4" by (simp add: sbi_vs_handler_def Let_def)
  then show ?thesis
    unfolding nm [symmetric] using fi sync_exception_cases [OF assms(2), of e es s] g
    by (cases "first_match xs ?a"; cases "fault_ins t")
      (auto simp: guest_page_fault_handler_def Let_def split: option.splits sum.splits prod.splits if_splits)
qed

theorem sync_exception_outcome_witness:
  "sync_exception_handler env_example emul_plic (trap_claim\<lparr>t_htval := 0\<rparr>) hv_example = Some (Inl NO_EMUL_HANDLER)"
  using sync_exception_outcome [OF emul_plic_repr, of "trap_claim\<lparr>t_htval := 0\<rparr>" env_example hv_example]
  by (auto simp: trap_claim_def HSTATUS_SPV_def emul_match_def plic_global_dev_def)

end
