(* ===== verification/Mem_Init.thy ===== *)
theory Mem_Init
  imports Objcache Config
begin

text \<open>
  Start-up of the memory manager, \<^verbatim>\<open>core/mem.c\<close> from \<^verbatim>\<open>cpu_boot_alloc_size\<close> to \<^verbatim>\<open>mem_init\<close>: the root page
  pool, reservation of what the hypervisor, the configuration and the VMs occupy, the remaining
  pools. Symbols of the linker script and the size of \<^verbatim>\<open>cpu_t\<close> are the record \<open>boot_env\<close>. Self-colouring
  of the hypervisor (\<^verbatim>\<open>color_hypervisor\<close>) copies the running image and switches to it; it is not part of
  the model, so \<open>mem_init\<close> is the start-up with a configuration that gives the hypervisor all colours.
\<close>

record boot_env =
  image_start :: nat
  image_end :: nat
  config_start :: nat
  config_end :: nat
  cpu_t_size :: nat
  pagepool_cache_addr :: nat
  page_pool_t_size :: nat

record boot_state =
  bt_oc :: oc_state
  bt_config_found :: bool
  bt_pool_cache :: objcache
  bt_config_va :: nat

abbreviation bt_mm :: "boot_state \<Rightarrow> mm" where
  "bt_mm b \<equiv> oc_mm (bt_oc b)"

definition set_mm :: "mm \<Rightarrow> boot_state \<Rightarrow> boot_state" where
  "set_mm m b = b\<lparr>bt_oc := (bt_oc b)\<lparr>oc_mm := m\<rparr>\<rparr>"

definition as_arch_init :: "addr_space \<Rightarrow> (nat \<times> nat) list \<Rightarrow> mm \<Rightarrow> mm" where
  "as_arch_init as regions s =
     (if as_type as = AS_HYP
      then s\<lparr>mm_mem := as_map_physical_identity (as_pt as) regions (mm_mem s)\<rparr> else s)"

definition zero_pages :: "nat \<Rightarrow> nat \<Rightarrow> mm \<Rightarrow> mm" where
  "zero_pages p n s = s\<lparr>mm_mem := (\<lambda>a. if p \<le> a \<and> a < p + n * PAGE_SIZE then 0 else mm_mem s a)\<rparr>"

definition as_init ::
  "mem_env \<Rightarrow> addr_space \<Rightarrow> (nat \<times> nat) list \<Rightarrow> AS_TYPE \<Rightarrow> nat \<Rightarrow> nat \<Rightarrow> u64 \<Rightarrow> mm \<Rightarrow> (addr_space \<times> mm) option" where
  "as_init e cas regions type aid root_pt colors s =
     (let hyp = (type = AS_HYP \<or> type = AS_HYP_CPY);
          dscr = (if hyp then sv39_pt_dscr else sv39x4_pt_dscr);
          as = \<lparr>as_pt = \<lparr>pt_root = root_pt, pt_dscr = dscr\<rparr>, as_type = type, as_colors = colors, as_id = aid\<rparr>
      in do { (root_pt, s) \<leftarrow>
                (if root_pt = 0 then
                   let n = pt_size (as_pt as) 0 div PAGE_SIZE in
                   do { (p, s) \<leftarrow> mem_alloc_page e cas n (if hyp then SEC_HYP_PRIVATE else SEC_HYP_VM) True s;
                        if p = 0 then None else Some (p, zero_pages p n s) }
                 else Some (root_pt, s));
              let as = as\<lparr>as_pt := \<lparr>pt_root = root_pt, pt_dscr = dscr\<rparr>\<rparr>;
              Some (as, as_arch_init as regions s) })"

subsection \<open>The root pool\<close>

definition cpu_boot_alloc_size :: "page_table \<Rightarrow> nat \<Rightarrow> nat" where
  "cpu_boot_alloc_size pt cpu_sz =
     foldl (\<lambda>sz i. sz + pt_size pt i) (ALIGN cpu_sz PAGE_SIZE) [1..<pt_lvls (pt_dscr pt)]"

definition pool_bitmap_size :: "nat \<Rightarrow> nat" where
  "pool_bitmap_size sz = sz div (8 * PAGE_SIZE) + (if sz mod (8 * PAGE_SIZE) \<noteq> 0 then 1 else 0)"

definition root_pool_set_up_bitmap ::
  "mem_env \<Rightarrow> addr_space \<Rightarrow> boot_env \<Rightarrow> nat \<Rightarrow> nat \<Rightarrow> page_pool \<Rightarrow> mm \<Rightarrow> (bool \<times> page_pool \<times> mm) option" where
  "root_pool_set_up_bitmap e cas be cpu_num load_addr root s =
     (let image_size = image_end be - image_start be;
          config_size = config_end be - config_start be;
          cpu_size = cpu_num * cpu_boot_alloc_size (as_pt cas) (cpu_t_size be);
          bitmap_size = pool_bitmap_size (pp_size root)
      in if pp_size root \<le> bitmap_size then Some (False, root, s)
         else
           let bitmap_base = load_addr + image_size + config_size + cpu_size;
               bitmap_pp = mem_ppages_get bitmap_base bitmap_size
           in do { (root_bitmap, s) \<leftarrow> mem_alloc_vpage e cas SEC_HYP_GLOBAL 0 bitmap_size s;
                   if root_bitmap = 0 then Some (False, root, s)
                   else do { (r, s) \<leftarrow> mem_map e cas root_bitmap (Some bitmap_pp) bitmap_size PTE_HYP_FLAGS s;
                             let (ok, root) = mem_reserve_ppool_ppages (root\<lparr>pp_bitmap := (\<lambda>_. 0)\<rparr>) bitmap_pp;
                             Some (ok, root, s) } })"

definition pp_root_reserve_hyp_mem ::
  "page_table \<Rightarrow> boot_env \<Rightarrow> nat \<Rightarrow> nat \<Rightarrow> page_pool \<Rightarrow> bool \<times> page_pool" where
  "pp_root_reserve_hyp_mem pt be cpu_num load_addr root =
     (let image_size = image_end be - image_start be;
          config_size = config_end be - config_start be;
          cpu_size = cpu_num * cpu_boot_alloc_size pt (cpu_t_size be);
          cpu_base_addr = load_addr + image_size + config_size;
          (image_reserved, root) = mem_reserve_ppool_ppages root (mem_ppages_get load_addr (NUM_PAGES image_size));
          (cpu_reserved, root) = mem_reserve_ppool_ppages root (mem_ppages_get cpu_base_addr (NUM_PAGES cpu_size))
      in (image_reserved \<and> cpu_reserved, root))"

definition pp_root_init ::
  "mem_env \<Rightarrow> addr_space \<Rightarrow> boot_env \<Rightarrow> nat \<Rightarrow> nat \<Rightarrow> mem_region \<Rightarrow> mm \<Rightarrow> (bool \<times> page_pool \<times> mm) option" where
  "pp_root_init e cas be cpu_num load_addr reg s =
     (let root = \<lparr>pp_base = ALIGN (mr_base reg) PAGE_SIZE, pp_size = mr_size reg div PAGE_SIZE,
                   pp_free = mr_size reg div PAGE_SIZE, pp_last = 0, pp_bitmap = (\<lambda>_. 0)\<rparr>
      in do { (ok, root, s) \<leftarrow> root_pool_set_up_bitmap e cas be cpu_num load_addr root s;
              if \<not> ok then Some (False, root, s)
              else let (ok, root) = pp_root_reserve_hyp_mem (as_pt cas) be cpu_num load_addr root
                   in if \<not> ok then Some (False, root, s) else Some (True, root\<lparr>pp_last := 0\<rparr>, s) })"

definition mem_find_root_region :: "boot_env \<Rightarrow> mem_region list \<Rightarrow> nat \<Rightarrow> mem_region option" where
  "mem_find_root_region be regions load_addr =
     find (\<lambda>r. range_in_range load_addr (image_end be - image_start be) (mr_base r) (mr_size r)) regions"

definition mem_setup_root_pool ::
  "mem_env \<Rightarrow> addr_space \<Rightarrow> boot_env \<Rightarrow> platform_desc \<Rightarrow> nat \<Rightarrow> mm \<Rightarrow>
     ((mem_region \<times> page_pool) option \<times> mm) option" where
  "mem_setup_root_pool e cas be plat load_addr s =
     (case mem_find_root_region be (plat_regions plat) load_addr of
        None \<Rightarrow> Some (None, s)
      | Some reg \<Rightarrow>
          do { (ok, root, s) \<leftarrow> pp_root_init e cas be (plat_cpu_num plat) load_addr reg s;
               Some (if ok then Some (reg, root) else None, s) })"

subsection \<open>Further pools\<close>

text \<open>The early returns of \<^verbatim>\<open>pp_init\<close> leave the pool with a free counter of \<open>0\<close>.\<close>

definition pp_init :: "mem_env \<Rightarrow> addr_space \<Rightarrow> nat \<Rightarrow> nat \<Rightarrow> mm \<Rightarrow> (page_pool \<times> mm) option" where
  "pp_init e cas base sz s =
     (let pool = \<lparr>pp_base = ALIGN base PAGE_SIZE, pp_size = NUM_PAGES sz, pp_free = 0, pp_last = 0,
                   pp_bitmap = (\<lambda>_. 0)\<rparr>;
          bitmap_size = pool_bitmap_size (pp_size pool)
      in if sz \<le> bitmap_size then Some (pool, s)
         else
           do { (pages, pools) \<leftarrow> mem_alloc_ppages (env_cc e) (as_colors cas) bitmap_size False (mm_pools s);
                let s = s\<lparr>mm_pools := pools\<rparr>;
                if pg_size pages \<noteq> bitmap_size then Some (pool, s)
                else
                  do { (bm, s) \<leftarrow> mem_alloc_vpage e cas SEC_HYP_GLOBAL 0 bitmap_size s;
                       if bm = 0 then Some (pool, s)
                       else do { (r, s) \<leftarrow> mem_map e cas bm (Some pages) bitmap_size PTE_HYP_FLAGS s;
                                 Some (pool\<lparr>pp_free := sub64 (pp_size pool) bitmap_size\<rparr>, s) } } })"

definition mem_reserve_config :: "config \<Rightarrow> nat \<Rightarrow> bool \<Rightarrow> page_pool \<Rightarrow> bool \<times> bool \<times> page_pool" where
  "mem_reserve_config cfg config_addr found pool =
     (if found then (True, found, pool)
      else if range_in_range config_addr (config_size cfg) (pp_base pool) (pp_size pool * PAGE_SIZE) then
        let (ok, pool) = mem_reserve_ppool_ppages pool (mem_ppages_get config_addr (NUM_PAGES (config_size cfg)))
        in if \<not> ok then (False, found, pool) else (True, True, pool)
      else (True, found, pool))"

primrec reserve_all :: "(nat \<times> nat) list \<Rightarrow> page_pool \<Rightarrow> bool \<times> page_pool" where
  "reserve_all [] pool = (True, pool)"
| "reserve_all (r # rs) pool =
     (let (ok, pool) = mem_reserve_ppool_ppages pool (mem_ppages_get (fst r) (NUM_PAGES (snd r)))
      in if \<not> ok then (False, pool) else reserve_all rs pool)"

definition vm_phys_regions :: "config \<Rightarrow> (nat \<times> nat) list" where
  "vm_phys_regions cfg =
     concat (map (\<lambda>v. map (\<lambda>r. (mr_phys r, mr_size r)) (filter mr_place_phys (plat_regions (vc_platform v)))) (vmlist cfg))"

definition shmem_phys_regions :: "config \<Rightarrow> (nat \<times> nat) list" where
  "shmem_phys_regions cfg = map (\<lambda>m. (shm_phys m, shm_size m)) (filter shm_place_phys (shmemlist cfg))"

definition mem_reserve_vm_cfg :: "config \<Rightarrow> page_pool \<Rightarrow> bool \<times> page_pool" where
  "mem_reserve_vm_cfg cfg pool =
     (let (ok, pool) = reserve_all (vm_phys_regions cfg) pool
      in if \<not> ok then (False, pool) else reserve_all (shmem_phys_regions cfg) pool)"

definition mem_reserve_physical_memory :: "config \<Rightarrow> nat \<Rightarrow> bool \<Rightarrow> page_pool \<Rightarrow> bool \<times> bool \<times> page_pool" where
  "mem_reserve_physical_memory cfg config_addr found pool =
     (let (ok, pool) = mem_reserve_vm_cfg cfg pool
      in if \<not> ok then (False, found, pool) else mem_reserve_config cfg config_addr found pool)"

text \<open>The loop of \<^verbatim>\<open>mem_create_ppools\<close>; a region is skipped when no pool object can be allocated.\<close>

fun create_ppools_loop ::
  "mem_env \<Rightarrow> addr_space \<Rightarrow> boot_env \<Rightarrow> config \<Rightarrow> nat \<Rightarrow> mem_region \<Rightarrow> mem_region list \<Rightarrow> boot_state \<Rightarrow> (bool \<times> boot_state) option" where
  "create_ppools_loop e cas be cfg config_addr root_reg [] b = Some (True, b)"
| "create_ppools_loop e cas be cfg config_addr root_reg (r # rs) b =
     (if r = root_reg then create_ppools_loop e cas be cfg config_addr root_reg rs b
      else
        do { (obj, oc, st) \<leftarrow> objcache_alloc e cas (pagepool_cache_addr be) (bt_pool_cache b) (bt_oc b);
             let b = b\<lparr>bt_pool_cache := oc, bt_oc := st\<rparr>;
             if obj = 0 then create_ppools_loop e cas be cfg config_addr root_reg rs b
             else
               do { (pool, m) \<leftarrow> pp_init e cas (mr_base r) (mr_size r) (bt_mm b);
                    let (ok, found, pool) = mem_reserve_physical_memory cfg config_addr (bt_config_found b) pool;
                    let b = set_mm m (b\<lparr>bt_config_found := found\<rparr>);
                    if \<not> ok then Some (False, b)
                    else create_ppools_loop e cas be cfg config_addr root_reg rs
                           (set_mm ((bt_mm b)\<lparr>mm_pools := mm_pools (bt_mm b) @ [pool]\<rparr>) b) } })"

definition mem_create_ppools ::
  "mem_env \<Rightarrow> addr_space \<Rightarrow> boot_env \<Rightarrow> platform_desc \<Rightarrow> config \<Rightarrow> nat \<Rightarrow> mem_region \<Rightarrow> boot_state \<Rightarrow> (bool \<times> boot_state) option" where
  "mem_create_ppools e cas be plat cfg config_addr root_reg b =
     do { (oc, st) \<leftarrow> objcache_init e cas (pagepool_cache_addr be) (page_pool_t_size be) SEC_HYP_GLOBAL True (bt_oc b);
          create_ppools_loop e cas be cfg config_addr root_reg (plat_regions plat)
            (b\<lparr>bt_pool_cache := oc, bt_oc := st\<rparr>) }"

text \<open>
  \<^verbatim>\<open>mem_map_vm_config\<close>. The second allocation is at \<^verbatim>\<open>vm_config_ptr + PAGE_SIZE\<close>, which in C is
  \<^verbatim>\<open>PAGE_SIZE\<close> structures, not bytes, further: \<open>cfg_struct\<close> is \<^verbatim>\<open>sizeof(struct config)\<close>.
\<close>

definition mem_map_vm_config ::
  "mem_env \<Rightarrow> addr_space \<Rightarrow> config \<Rightarrow> nat \<Rightarrow> nat \<Rightarrow> boot_state \<Rightarrow> (bool \<times> boot_state) option" where
  "mem_map_vm_config e cas cfg cfg_struct config_addr b =
     do { (p, m) \<leftarrow> mem_alloc_vpage e cas SEC_HYP_GLOBAL 0 1 (bt_mm b);
          if p = 0 then Some (False, set_mm m (b\<lparr>bt_config_va := 0\<rparr>))
          else
            do { (r, m) \<leftarrow> mem_map e cas p (Some (mem_ppages_get config_addr 1)) 1 PTE_HYP_FLAGS m;
                 if config_header_size cfg > PAGE_SIZE then
                   let n = NUM_PAGES (config_header_size cfg - PAGE_SIZE) in
                   do { (va, m) \<leftarrow> mem_alloc_vpage e cas SEC_HYP_GLOBAL (p + PAGE_SIZE * cfg_struct) n m;
                        if va = 0 then Some (False, set_mm m (b\<lparr>bt_config_va := p\<rparr>))
                        else do { (r, m) \<leftarrow> mem_map e cas va (Some (mem_ppages_get (config_addr + PAGE_SIZE) n)) n PTE_HYP_FLAGS m;
                                  Some (True, set_mm m (b\<lparr>bt_config_va := p\<rparr>)) } }
                 else Some (True, set_mm m (b\<lparr>bt_config_va := p\<rparr>)) } }"

text \<open>\<^verbatim>\<open>mem_init_vm_config\<close> reserves in the root pool, which is the first element of the pool list.\<close>

definition mem_init_vm_config ::
  "mem_env \<Rightarrow> addr_space \<Rightarrow> config \<Rightarrow> nat \<Rightarrow> nat \<Rightarrow> boot_state \<Rightarrow> (bool \<times> boot_state) option" where
  "mem_init_vm_config e cas cfg cfg_struct config_addr b =
     do { (ok, b) \<leftarrow> mem_map_vm_config e cas cfg cfg_struct config_addr b;
          if \<not> ok then Some (False, b)
          else
            case mm_pools (bt_mm b) of
              [] \<Rightarrow> Some (False, b)
            | root # pools \<Rightarrow>
                let (ok, found, root) = mem_reserve_physical_memory cfg config_addr (bt_config_found b) root
                in Some (ok, set_mm ((bt_mm b)\<lparr>mm_pools := root # pools\<rparr>) (b\<lparr>bt_config_found := found\<rparr>)) }"

text \<open>\<^verbatim>\<open>mem_init\<close> on the master CPU; the colour geometry is the environment's.\<close>

definition mem_init_master ::
  "mem_env \<Rightarrow> boot_env \<Rightarrow> platform_desc \<Rightarrow> config \<Rightarrow> nat \<Rightarrow> nat \<Rightarrow> nat \<Rightarrow> nat \<Rightarrow> boot_state \<Rightarrow> (addr_space \<times> boot_state) option" where
  "mem_init_master e be plat cfg cfg_struct root_pt load_addr config_addr b =
     (let regions = map (\<lambda>r. (mr_base r, mr_size r)) (plat_regions plat);
          cas0 = \<lparr>as_pt = \<lparr>pt_root = root_pt, pt_dscr = sv39_pt_dscr\<rparr>, as_type = AS_HYP, as_colors = 0, as_id = 0\<rparr>
      in do { (cas, m) \<leftarrow> as_init e cas0 regions AS_HYP 0 root_pt 0 (bt_mm b);
              (r, m) \<leftarrow> mem_setup_root_pool e cas be plat load_addr m;
              case r of
                None \<Rightarrow> None
              | Some (root_reg, root) \<Rightarrow>
                  let b = set_mm (m\<lparr>mm_pools := [root]\<rparr>) b;
                      config_addr =
                        (if config_is_builtin (config_start be) (config_end be)
                         then sub64 (config_start be) (image_start be) + load_addr else config_addr)
                  in do { (ok, b) \<leftarrow> mem_init_vm_config e cas cfg cfg_struct config_addr b;
                          if \<not> ok then None
                          else do { (ok, b) \<leftarrow> mem_create_ppools e cas be plat cfg config_addr root_reg b;
                                    if \<not> ok \<or> \<not> bt_config_found b then None else Some (cas, b) } } })"

subsection \<open>Reservation of the regions of the configuration\<close>

definition region_pages :: "nat \<times> nat \<Rightarrow> ppages" where
  "region_pages r = mem_ppages_get (fst r) (NUM_PAGES (snd r))"

definition in_pool :: "page_pool \<Rightarrow> nat \<times> nat \<Rightarrow> bool" where
  "in_pool pool r = ppages_in_pool (region_pages r) pool"

definition regions_ok :: "(nat \<times> nat) list \<Rightarrow> bool" where
  "regions_ok rs \<longleftrightarrow> (\<forall>r \<in> set rs. PAGE_SIZE dvd fst r \<and> 0 < snd r)"

lemma NUM_PAGES_pos: "0 < sz \<Longrightarrow> 0 < NUM_PAGES sz"
  using NUM_PAGES_ge [of sz] by (cases "NUM_PAGES sz") auto

lemma ppages_in_pool_cong:
  "pp_base p' = pp_base p \<Longrightarrow> pp_size p' = pp_size p \<Longrightarrow> ppages_in_pool pg p' = ppages_in_pool pg p"
  by (simp add: ppages_in_pool_def)

lemma reserve_ppool_shape:
  "mem_reserve_ppool_ppages p pg = (r, p') \<Longrightarrow> pp_base p' = pp_base p \<and> pp_size p' = pp_size p"
  by (auto simp: mem_reserve_ppool_ppages_def Let_def split: if_splits)

lemma reserve_all_spec:
  assumes "pool_wf p" "regions_ok rs" "reserve_all rs p = (True, p')"
  shows "pool_wf p' \<and> pp_base p' = pp_base p \<and> pp_size p' = pp_size p \<and>
    pool_used p' = pool_used p \<union> (\<Union>r \<in> set (filter (in_pool p) rs). page_frames (region_pages r)) \<and>
    (\<forall>r \<in> set (filter (in_pool p) rs). page_frames (region_pages r) \<inter> pool_used p = {}) \<and>
    sorted_wrt (\<lambda>r q. page_frames (region_pages r) \<inter> page_frames (region_pages q) = {}) (filter (in_pool p) rs)"
  using assms
proof (induction rs arbitrary: p)
  case (Cons r rs)
  obtain ok p1 where m: "mem_reserve_ppool_ppages p (region_pages r) = (ok, p1)" by fastforce
  then have ok: "ok" "reserve_all rs p1 = (True, p')"
    using Cons.prems(3) by (auto simp: region_pages_def split: if_splits)
  have sh: "pp_base p1 = pp_base p" "pp_size p1 = pp_size p" using reserve_ppool_shape [OF m] by auto
  have eqp: "in_pool p1 = in_pool p" using ppages_in_pool_cong [OF sh] by (auto simp: in_pool_def)
  have rok: "PAGE_SIZE dvd pg_base (region_pages r)" "0 < pg_size (region_pages r)" "regions_ok rs"
    using Cons.prems(2) NUM_PAGES_pos by (auto simp: regions_ok_def region_pages_def mem_ppages_get_def)
  show ?case
  proof (cases "in_pool p r")
    case False
    then have "p1 = p" using m by (simp add: mem_reserve_ppool_ppages_def in_pool_def)
    then show ?thesis using Cons.IH [OF Cons.prems(1) rok(3)] ok(2) False by simp
  next
    case True
    note f = mem_reserve_ppool_frames [OF True [unfolded in_pool_def] Cons.prems(1) rok(1,2) m]
    note ih = Cons.IH [OF f(3) rok(3) ok(2)]
    have "\<forall>q \<in> set (filter (in_pool p) rs). page_frames (region_pages r) \<inter> page_frames (region_pages q) = {}"
    proof -
      have "\<forall>q \<in> set (filter (in_pool p) rs). page_frames (region_pages q) \<inter> pool_used p1 = {}"
        using ih eqp by simp
      then show ?thesis unfolding f(2) by blast
    qed
    moreover have "\<forall>q \<in> set (filter (in_pool p) rs). page_frames (region_pages q) \<inter> pool_used p = {}"
      using ih eqp unfolding f(2) by auto
    moreover have "pool_used p' = pool_used p \<union> page_frames (region_pages r) \<union>
        (\<Union>q \<in> set (filter (in_pool p) rs). page_frames (region_pages q))"
      using ih eqp unfolding f(2) by simp
    ultimately show ?thesis using ih f(1) ok(1) True eqp sh by auto
  qed
qed simp

subsection \<open>Properties\<close>


definition cfg_two_vms :: config where
  "cfg_two_vms =
     (let plat = \<lparr>plat_cpu_num = 1, plat_regions = [], plat_ipcs = [], plat_devs = [], plat_plic_base = 0\<rparr>;
          reg = (\<lambda>a. \<lparr>mr_base = 0, mr_size = 0x2000, mr_colors = 0, mr_place_phys = True, mr_phys = a\<rparr>);
          vm = (\<lambda>a. \<lparr>img_base_addr = 0, img_load_addr = 0, img_size = 0, vc_entry = 0, vc_cpu_affinity = 0,
                     vc_colors = 0, vc_platform = plat\<lparr>plat_regions := [reg a]\<rparr>\<rparr>)
      in \<lparr>config_header_size = 0, config_size = 0, hyp_colors = 0, shmemlist = [], vmlist = [vm 0x8000, vm 0xb000]\<rparr>)"

definition pool_16 :: page_pool where
  "pool_16 = \<lparr>pp_base = 0x8000, pp_size = 16, pp_free = 16, pp_last = 0, pp_bitmap = (\<lambda>_. 0)\<rparr>"


end
