(* ===== verification/Pool_Coloring.thy ===== *)
theory Pool_Coloring
  imports Frame_Alloc
begin

text \<open>
  The coloured path of the allocator, \<^verbatim>\<open>pp_alloc_clr\<close>: it always returns when the colour mask is not
  empty, it hands out pages of the requested colours only, and which of them its search has seen
  to be free.
\<close>

text \<open>The first \<open>n\<close> pages of the colour set at or after index \<open>i\<close>.\<close>

primrec clr_list :: "color_cfg \<Rightarrow> nat \<Rightarrow> u64 \<Rightarrow> nat \<Rightarrow> nat \<Rightarrow> nat list" where
  "clr_list cc b colors 0 i = []"
| "clr_list cc b colors (Suc n) i =
     (let c = the (pp_next_clr cc b i colors) in c # clr_list cc b colors n (c + 1))"

lemma length_clr_list [simp]: "length (clr_list cc b colors n i) = n"
  by (induction n arbitrary: i) (simp_all add: Let_def)

lemma clr_list_props:
  assumes "some_clr cc colors"
  shows "sorted_wrt (<) (clr_list cc b colors n i) \<and>
    (\<forall>x \<in> set (clr_list cc b colors n i). i \<le> x \<and> has_clr cc b colors x)"
proof (induction n arbitrary: i)
  case (Suc n)
  obtain c where c: "pp_next_clr cc b i colors = Some c" "i \<le> c" "has_clr cc b colors c"
    using pp_next_clr_total [OF assms] by metis
  then have eq: "clr_list cc b colors (Suc n) i = c # clr_list cc b colors n (c + 1)" by (simp add: Let_def)
  have "\<forall>x \<in> set (clr_list cc b colors n (c + 1)). c < x \<and> i \<le> x \<and> has_clr cc b colors x"
    using Suc [of "c + 1"] c(2) by fastforce
  with Suc c show ?case unfolding eq by simp
qed simp

lemma clr_list_coloured:
  "has_clr cc b colors i \<Longrightarrow> clr_list cc b colors (Suc n) i = i # clr_list cc b colors n (i + 1)"
  by (simp add: pp_next_clr_at)

lemma pp_next_clr_skip:
  "\<not> has_clr cc b colors i \<Longrightarrow> pp_next_clr cc b i colors = pp_next_clr cc b (i + 1) colors"
  unfolding pp_next_clr_def by (subst while_option_unfold) (simp add: Suc_eq_plus1)

lemma clr_list_skip:
  "\<not> has_clr cc b colors i \<Longrightarrow> clr_list cc b colors n i = clr_list cc b colors n (i + 1)"
  by (cases n) (simp_all add: pp_next_clr_skip)

lemma clr_list_Suc_butlast: "butlast (clr_list cc b colors (Suc n) i) = clr_list cc b colors n i"
  by (induction n arbitrary: i) (simp_all add: Let_def)

subsection \<open>Marking\<close>

lemma clr_mark_spec:
  assumes "some_clr cc colors"
  shows "\<exists>i' bm'. clr_mark cc b colors n i bm = Some (i', bm') \<and>
    (\<forall>x. bitmap_get bm' x = (if x \<in> set (clr_list cc b colors n i) then 1 else bitmap_get bm x))"
proof (induction n arbitrary: i bm)
  case (Suc n)
  obtain c where c: "pp_next_clr cc b i colors = Some c" using pp_next_clr_total [OF assms] by metis
  from Suc [of "c + 1" "bitmap_set bm c"] c show ?case by (auto simp: bm_simps)
qed simp

subsection \<open>Searching\<close>

lemma clr_skip_used_total:
  assumes "some_clr cc colors"
  shows "\<exists>r. clr_skip_used cc pool colors tp i = Some r"
proof (induction "tp - i" arbitrary: i rule: less_induct)
  case less
  show ?case
  proof (cases "i < tp \<and> bitmap_get (pp_bitmap pool) i \<noteq> 0")
    case True
    obtain c where c: "pp_next_clr cc (pp_base pool) (i + 1) colors = Some c" "i + 1 \<le> c"
      using pp_next_clr_total [OF assms] by metis
    then have "tp - c < tp - i" using True by linarith
    from less [OF this] c True show ?thesis by (subst clr_skip_used.simps) simp
  next
    case False
    then show ?thesis by (subst clr_skip_used.simps) auto
  qed
qed

lemma clr_skip_used_ge:
  assumes "clr_skip_used cc pool colors tp i = Some r"
  shows "i \<le> r"
proof (rule clr_skip_used.raw_induct [where P = "\<lambda>cc pool colors tp i r. i \<le> r", OF _ assms], goal_cases)
  case (1 f cc pool colors tp i r)
  then show ?case
    by (fastforce split: if_splits bind_splits dest: pp_next_clr_Some(1))
qed

text \<open>
  When the counting loop reaches \<open>n\<close>, the page it started at and the coloured pages after it were
  free.
\<close>

lemma clr_count_free_spec:
  assumes "some_clr cc colors" "a \<le> n"
  shows "\<exists>i' a'. clr_count_free cc pool colors tp n i a = Some (i', a') \<and> i \<le> i' \<and> a' \<le> n \<and>
    (a' = n \<and> a < n \<longrightarrow>
       bitmap_get (pp_bitmap pool) i = 0 \<and> i < tp \<and>
       (\<forall>x \<in> set (clr_list cc (pp_base pool) colors (n - a - 1) (i + 1)).
          bitmap_get (pp_bitmap pool) x = 0 \<and> x < tp))"
  using assms(2)
proof (induction "n - a" arbitrary: i a)
  case 0
  then show ?case by (subst clr_count_free.simps) auto
next
  case (Suc d)
  show ?case
  proof (cases "i < tp \<and> bitmap_get (pp_bitmap pool) i = 0")
    case False
    then show ?thesis using Suc by (subst clr_count_free.simps) auto
  next
    case True
    obtain c where c: "pp_next_clr cc (pp_base pool) (i + 1) colors = Some c" "i + 1 \<le> c"
      "has_clr cc (pp_base pool) colors c" using pp_next_clr_total [OF assms(1)] by metis
    have a: "a < n" "d = n - (a + 1)" "a + 1 \<le> n" using Suc by auto
    obtain i' a' where r: "clr_count_free cc pool colors tp n c (a + 1) = Some (i', a')" "c \<le> i'" "a' \<le> n"
      "a' = n \<and> a + 1 < n \<longrightarrow> bitmap_get (pp_bitmap pool) c = 0 \<and> c < tp \<and>
       (\<forall>x \<in> set (clr_list cc (pp_base pool) colors (n - (a + 1) - 1) (c + 1)).
          bitmap_get (pp_bitmap pool) x = 0 \<and> x < tp)"
      using Suc.hyps(1) [OF a(2,3), of c] by blast
    have step: "clr_count_free cc pool colors tp n i a = Some (i', a')"
      using r(1) c(1) a True by (subst clr_count_free.simps) simp
    have "\<forall>x \<in> set (clr_list cc (pp_base pool) colors (n - a - 1) (i + 1)).
        bitmap_get (pp_bitmap pool) x = 0 \<and> x < tp" if "a' = n"
    proof (cases "a + 1 < n")
      case True
      then have "n - a - 1 = Suc (n - (a + 1) - 1)" by linarith
      then have "clr_list cc (pp_base pool) colors (n - a - 1) (i + 1) =
          c # clr_list cc (pp_base pool) colors (n - (a + 1) - 1) (c + 1)"
        using c(1) by (simp only: clr_list.simps Let_def option.sel)
      then show ?thesis using r(4) that True by simp
    next
      case False
      then have "n - a - 1 = 0" by simp
      then show ?thesis by simp
    qed
    with step r(2,3) c(2) True show ?thesis by auto
  qed
qed

definition clr_found :: "color_cfg \<Rightarrow> page_pool \<Rightarrow> u64 \<Rightarrow> nat \<Rightarrow> nat \<Rightarrow> bool" where
  "clr_found cc pool colors n f \<longleftrightarrow>
     (0 < n \<longrightarrow> bitmap_get (pp_bitmap pool) f = 0 \<and>
       (\<forall>x \<in> set (clr_list cc (pp_base pool) colors (n - 1) (f + 1)). bitmap_get (pp_bitmap pool) x = 0))"

lemma clr_search_spec:
  assumes "some_clr cc colors" "a \<le> n" "a = n \<Longrightarrow> clr_found cc pool colors n f"
  shows "\<exists>a' f'. clr_search cc pool colors n tp i a f = Some (a', f') \<and> a' \<le> n \<and>
    (a' = n \<longrightarrow> clr_found cc pool colors n f')"
  using assms(2,3)
proof (induction "tp - i" arbitrary: i a f rule: less_induct)
  case less
  show ?case
  proof (cases "a < n \<and> i < tp")
    case False
    then show ?thesis using less.prems by (subst clr_search.simps) auto
  next
    case True
    obtain j where j: "clr_skip_used cc pool colors tp i = Some j" using clr_skip_used_total [OF assms(1)] by blast
    obtain i' a' where r: "clr_count_free cc pool colors tp n j 0 = Some (i', a')" "j \<le> i'" "a' \<le> n"
      and fr: "a' = n \<and> 0 < n \<longrightarrow> bitmap_get (pp_bitmap pool) j = 0 \<and> j < tp \<and>
       (\<forall>x \<in> set (clr_list cc (pp_base pool) colors (n - 1) (j + 1)).
          bitmap_get (pp_bitmap pool) x = 0 \<and> x < tp)"
      using clr_count_free_spec [OF assms(1), of 0 n pool tp j] by auto
    have "i \<le> j" using clr_skip_used_ge [OF j] .
    then have "tp - (i' + 1) < tp - i" using True r(2) by linarith
    from less.hyps [OF this r(3), of j] fr
    obtain a'' f'' where "clr_search cc pool colors n tp (i' + 1) a' j = Some (a'', f'')" "a'' \<le> n"
      "a'' = n \<longrightarrow> clr_found cc pool colors n f''" by (auto simp: clr_found_def)
    then show ?thesis using j r(1) True by (subst clr_search.simps) simp
  qed
qed

subsection \<open>The allocation as a whole\<close>

text \<open>The colour of a page is a function of its physical address alone.\<close>

definition frame_clr :: "color_cfg \<Rightarrow> nat \<Rightarrow> nat" where
  "frame_clr cc addr = addr div PAGE_SIZE div COLOR_SIZE cc mod COLOR_NUM cc"

lemma page_clr_frame:
  assumes "0 < COLOR_SIZE cc"
  shows "page_clr cc b i = frame_clr cc (b + i * PAGE_SIZE)"
proof -
  let ?s = "COLOR_SIZE cc" and ?n = "COLOR_NUM cc"
  define x where "x = b div PAGE_SIZE"
  have "x = x div (?n * ?s) * (?n * ?s) + x mod (?n * ?s)"
    by (rule div_mult_mod_eq [symmetric])
  then have "x + i = (x mod (?n * ?s) + i) + (x div (?n * ?s) * ?n) * ?s"
    by (metis add.assoc add.commute mult.assoc)
  then have "(x + i) div ?s = (x mod (?n * ?s) + i) div ?s + x div (?n * ?s) * ?n"
    using assms by (simp only: div_mult_self1 neq0_conv)
  then have "(x + i) div ?s mod ?n = (x mod (?n * ?s) + i) div ?s mod ?n" by simp
  moreover have "(b + i * PAGE_SIZE) div PAGE_SIZE = x + i" by (simp add: x_def)
  ultimately show ?thesis by (simp add: page_clr_def frame_clr_def clr_offset_def x_def add.commute)
qed

lemma clr_found_free:
  assumes "clr_found cc pool colors n f"
  shows "\<forall>x \<in> set (butlast (clr_list cc (pp_base pool) colors n f)). bitmap_get (pp_bitmap pool) x = 0"
    and "has_clr cc (pp_base pool) colors f \<Longrightarrow>
      \<forall>x \<in> set (clr_list cc (pp_base pool) colors n f). bitmap_get (pp_bitmap pool) x = 0"
proof -
  have all: "\<forall>x \<in> set (clr_list cc (pp_base pool) colors n f). bitmap_get (pp_bitmap pool) x = 0"
    if "has_clr cc (pp_base pool) colors f"
    using assms clr_list_coloured [OF that, of "n - 1"] by (cases n) (auto simp: clr_found_def simp del: clr_list.simps(2))
  moreover have "\<forall>x \<in> set (butlast (clr_list cc (pp_base pool) colors n f)). bitmap_get (pp_bitmap pool) x = 0"
    if "\<not> has_clr cc (pp_base pool) colors f"
    using assms clr_list_skip [OF that, of n] by (cases n) (auto simp: clr_found_def clr_list_Suc_butlast simp del: clr_list.simps(2))
  ultimately show "has_clr cc (pp_base pool) colors f \<Longrightarrow>
      \<forall>x \<in> set (clr_list cc (pp_base pool) colors n f). bitmap_get (pp_bitmap pool) x = 0"
    "\<forall>x \<in> set (butlast (clr_list cc (pp_base pool) colors n f)). bitmap_get (pp_bitmap pool) x = 0"
    by (auto dest: in_set_butlastD)
qed

definition clr_alloc_result ::
  "color_cfg \<Rightarrow> page_pool \<Rightarrow> u64 \<Rightarrow> nat \<Rightarrow> nat \<Rightarrow> ppages \<Rightarrow> page_pool \<Rightarrow> bool" where
  "clr_alloc_result cc pool colors n f pages' pool' \<longleftrightarrow>
     pages' = \<lparr>pg_base = pp_base pool + f * PAGE_SIZE, pg_size = n, pg_colors = colors\<rparr> \<and>
     pp_base pool' = pp_base pool \<and> pp_size pool' = pp_size pool \<and>
     pp_free pool' = sub64 (pp_free pool) n \<and>
     (\<forall>x. bitmap_get (pp_bitmap pool') x =
        (if x \<in> set (clr_list cc (pp_base pool) colors n f) then 1 else bitmap_get (pp_bitmap pool) x))"

lemma clr_commit_spec:
  assumes "some_clr cc colors"
  shows "\<exists>pages' pool'. clr_commit cc pool n colors (pages\<lparr>pg_colors := colors, pg_size := 0\<rparr>) f =
      Some (True, pages', pool') \<and> clr_alloc_result cc pool colors n f pages' pool'"
  using clr_mark_spec [OF assms, of "pp_base pool" n f "pp_bitmap pool"]
  by (auto simp: clr_commit_def clr_alloc_result_def)

lemma pp_alloc_clr_spec:
  assumes "some_clr cc colors"
  shows "(\<exists>pages'. pp_alloc_clr cc pool n colors pages = Some (False, pages', pool)) \<or>
    (\<exists>f pages' pool'. pp_alloc_clr cc pool n colors pages = Some (True, pages', pool') \<and>
       clr_found cc pool colors n f \<and> clr_alloc_result cc pool colors n f pages' pool')"
proof -
  obtain i where i: "pp_next_clr cc (pp_base pool) (pp_last pool) colors = Some i"
    using pp_next_clr_total [OF assms] by metis
  have "0 = n \<Longrightarrow> clr_found cc pool colors n 0" by (simp add: clr_found_def)
  then obtain a f where s: "clr_search cc pool colors n (pp_size pool) i 0 0 = Some (a, f)" "a \<le> n"
    "a = n \<longrightarrow> clr_found cc pool colors n f"
    using clr_search_spec [OF assms, of 0 n pool 0 "pp_size pool" i] by auto
  obtain a' f' where s': "clr_search cc pool colors n (pp_last pool) 0 a f = Some (a', f')" "a' \<le> n"
    "a' = n \<longrightarrow> clr_found cc pool colors n f'"
    using clr_search_spec [OF assms s(2), of pool f "pp_last pool" 0] s(3) by auto
  show ?thesis
    using i s s' clr_commit_spec [OF assms, of pool n pages f] clr_commit_spec [OF assms, of pool n pages f']
    by (cases "a = n"; cases "a' = n") (fastforce simp: pp_alloc_clr_def Let_def)+
qed

end
