(* ===== verification/Pool_Props.thy ===== *)
theory Pool_Props
  imports Pool_Coloring
begin

text \<open>
  The properties of the physical page allocator: no page is handed out twice, requests are served
  exactly when a free run exists, what alignment means, what reservation and release do, and where
  the coloured path falls short.
\<close>

subsection \<open>Searching a bitmap\<close>

text \<open>A reference for \<^verbatim>\<open>bitmap_find_consec\<close>: try every start position in order.\<close>

definition first_run :: "bitmap \<Rightarrow> nat \<Rightarrow> nat \<Rightarrow> nat \<Rightarrow> bool \<Rightarrow> int" where
  "first_run bm sz start n st =
     (case find (\<lambda>r. r + n \<le> sz \<and> list_all (\<lambda>x. bitmap_get bm x = of_bool st) [r..<r + n]) [start..<sz] of
        Some r \<Rightarrow> int r | None \<Rightarrow> -1)"

lemma run_at_list: "run_at bm v sz n r \<longleftrightarrow> r + n \<le> sz \<and> list_all (\<lambda>x. bitmap_get bm x = v) [r..<r + n]"
  by (auto simp: run_at_def bit_run_def list_all_iff)

lemma find_upt_Some:
  assumes "start \<le> r" "r < sz" "P r" "\<forall>r' \<in> {start..<r}. \<not> P r'"
  shows "find P [start..<sz] = Some r"
  using assms by (auto simp: find_Some_iff intro!: exI [of _ "r - start"])

text \<open>
  The optimised search of \<^verbatim>\<open>bitmap_find_consec\<close>, which skips over whole runs of the wrong value,
  returns the same position as trying every start position in turn, and \<open>-1\<close> exactly when no run
  of the requested length exists.
\<close>

theorem bitmap_find_consec_first_run:
  assumes "0 < n" "sz \<le> SIZE_MAX"
  shows "bitmap_find_consec bm sz start n st = first_run bm sz start n st"
proof -
  let ?P = "\<lambda>r. run_at bm (of_bool st) sz n r"
  have fr: "first_run bm sz start n st = (case find ?P [start..<sz] of Some r \<Rightarrow> int r | None \<Rightarrow> -1)"
    unfolding first_run_def run_at_list ..
  from bitmap_find_consec_spec [OF assms, of bm start st] show ?thesis
  proof (elim disjE exE conjE)
    assume *: "bitmap_find_consec bm sz start n st = -1" "\<forall>r \<ge> start. \<not> ?P r"
    then have "find ?P [start..<sz] = None" by (auto simp: find_None_iff)
    with * show ?thesis by (simp add: fr)
  next
    fix r assume *: "bitmap_find_consec bm sz start n st = int r" "start \<le> r" "?P r"
      "\<forall>r' \<in> {start..<r}. \<not> ?P r'"
    moreover have "r < sz" using *(3) assms(1) by (simp add: run_at_def)
    ultimately have "find ?P [start..<sz] = Some r" by (intro find_upt_Some)
    with * show ?thesis by (simp add: fr)
  qed
qed

theorem bitmap_find_consec_first_run_witness:
  "bitmap_find_consec (\<lambda>_. 0b1100100101) 10 0 2 False = 3"
proof -
  have "first_run (\<lambda>_. 0b1100100101) 10 0 2 False = 3" by code_simp
  then show ?thesis
    using bitmap_find_consec_first_run [of 2 10 "\<lambda>_. 0b1100100101" 0 False] by (simp add: SIZE_MAX_def)
qed

subsection \<open>No page is handed out twice\<close>

text \<open>A pool of eight pages at \<^verbatim>\<open>0x8000\<close>, for the witnesses.\<close>

definition pool8 :: page_pool where
  "pool8 = \<lparr>pp_base = 0x8000, pp_size = 8, pp_free = 8, pp_last = 0, pp_bitmap = (\<lambda>_. 0)\<rparr>"

lemma pool8_wf: "pools_wf [pool8]"
  by (simp add: pools_wf_def pool_wf_def pool8_def PAGE_SIZE_def SIZE_MAX_def)

text \<open>
  C1: Start from well-formed, pairwise disjoint pools and run any sequence of successful
  contiguous allocations, reservations and releases of segments that are held at that time: the
  segments held at the end never share a page frame, all of them are marked as used, and the pools
  are still well formed.
\<close>

theorem held_segments_disjoint:
  assumes "alloc_history (pools_take cc) (pools_give cc) pools pools' held" "pools_wf pools"
  shows "pools_wf pools' \<and>
    (\<forall>i j. i < j \<and> j < length held \<longrightarrow> page_frames (held ! i) \<inter> page_frames (held ! j) = {}) \<and>
    (\<forall>pg \<in> set held. page_frames pg \<subseteq> used_frames pools')"
  using pools.history_invariant [OF assms] pools.no_double_allocation [OF assms] by blast

lemma mem_alloc_take:
  assumes "contiguous_request cc colors aligned" "mem_alloc_ppages cc colors n aligned s \<noteq> None"
    "pg_size (fst (the (mem_alloc_ppages cc colors n aligned s))) \<noteq> 0"
  shows "pools_take cc s (fst (the (mem_alloc_ppages cc colors n aligned s)))
           (snd (the (mem_alloc_ppages cc colors n aligned s)))"
  using assms unfolding pools_take_def by fastforce

theorem held_segments_disjoint_witness:
  "\<exists>s p q. alloc_history (pools_take color_cfg_init) (pools_give color_cfg_init) [pool8] s [p, q] \<and>
     page_frames p \<inter> page_frames q = {}"
proof -
  let ?c = color_cfg_init
  let ?q = "fst (the (mem_alloc_ppages ?c 0 2 False [pool8]))"
  let ?s = "snd (the (mem_alloc_ppages ?c 0 2 False [pool8]))"
  let ?p = "fst (the (mem_alloc_ppages ?c 0 3 False ?s))" and ?t = "snd (the (mem_alloc_ppages ?c 0 3 False ?s))"
  have r: "contiguous_request ?c 0 False" by (simp add: contiguous_request_def all_clrs_def)
  have "pools_take ?c [pool8] ?q ?s" by (rule mem_alloc_take [OF r]) code_simp+
  moreover have "pools_take ?c ?s ?p ?t" by (rule mem_alloc_take [OF r]) code_simp+
  ultimately have h: "alloc_history (pools_take ?c) (pools_give ?c) [pool8] ?t [?p, ?q]"
    by (blast intro: alloc_history.intros)
  from held_segments_disjoint [OF h pool8_wf] have "page_frames ?p \<inter> page_frames ?q = {}" by fastforce
  with h show ?thesis by blast
qed

subsection \<open>Serving a request\<close>

text \<open>
  C32: \<^verbatim>\<open>pp_alloc\<close> without alignment succeeds exactly when the request is not empty, the pool's free
  counter is not zero and the pool has a run of that many free pages; on success it returns
  exactly that many contiguous pages of the pool, all free before, and marks these and no others.
\<close>

theorem pp_alloc_serves_iff:
  assumes "pool_wf p" "pp_alloc p n False pg = (ok, pg', p')"
  shows "(ok \<longleftrightarrow> 0 < n \<and> pp_free p \<noteq> 0 \<and> (\<exists>r. run_at (pp_bitmap p) 0 (pp_size p) n r)) \<and>
    (if ok then pg_size pg' = n \<and> page_frames pg' \<subseteq> pool_frames p - pool_used p \<and>
           pool_used p' = pool_used p \<union> page_frames pg'
     else p' = p \<and> pg_size pg' = 0)"
proof -
  have sz: "pp_size p \<le> SIZE_MAX" using assms(1) by (simp add: pool_wf_def)
  have "0 < n \<and> pp_free p \<noteq> 0 \<and> (\<exists>r. run_at (pp_bitmap p) 0 (pp_size p) n r)" if ok
    by (rule pp_alloc_cases [OF assms(2) sz]) (use that in \<open>auto simp: run_at_def\<close>)
  moreover have ok if "0 < n" "pp_free p \<noteq> 0" "run_at (pp_bitmap p) 0 (pp_size p) n r" for r
    using that pp_alloc_succeeds [of n p r pg] sz assms(2) by simp
  moreover have "p' = p \<and> pg_size pg' = 0" if "\<not> ok"
    by (rule pp_alloc_cases [OF assms(2) sz]) (use that in auto)
  moreover have "pg_size pg' = n \<and> page_frames pg' \<subseteq> pool_frames p - pool_used p \<and>
           pool_used p' = pool_used p \<union> page_frames pg'" if ok
    using pp_alloc_frames [of p n False pg pg' p'] assms that by auto
  ultimately show ?thesis by auto
qed

theorem pp_alloc_serves_iff_witness:
  "pool_wf pool8 \<and> fst (pp_alloc pool8 8 False (mem_ppages_get 0 0)) \<and>
   \<not> fst (pp_alloc pool8 9 False (mem_ppages_get 0 0))"
proof -
  have wf: "pool_wf pool8" using pool8_wf by (simp add: pools_wf_def)
  have 8: "run_at (pp_bitmap pool8) 0 (pp_size pool8) 8 0" unfolding run_at_list by code_simp
  have 9: "\<not> run_at (pp_bitmap pool8) 0 (pp_size pool8) 9 r" for r by (simp add: run_at_def pool8_def)
  have f: "pp_free pool8 \<noteq> 0" by (simp add: pool8_def)
  show ?thesis
    using wf f 8 9 pp_alloc_serves_iff [OF wf, of 8 "mem_ppages_get 0 0"]
      pp_alloc_serves_iff [OF wf, of 9 "mem_ppages_get 0 0"]
    by (metis prod.collapse zero_less_numeral)
qed

subsection \<open>Alignment\<close>

lemma mod_sub_mod: "0 < n \<Longrightarrow> (b + (n - B mod n)) mod n = 0 \<Longrightarrow> b mod n = B mod (n::nat)"
proof -
  assume n: "0 < n" and z: "(b + (n - B mod n)) mod n = 0"
  have "B mod n < n" using n by simp
  then have "(b + (n - B mod n)) + B mod n = b + n" by linarith
  then have "b mod n = ((b + (n - B mod n)) + B mod n) mod n" by simp
  also have "\<dots> = ((b + (n - B mod n)) mod n + B mod n) mod n" by (simp add: mod_simps)
  also have "\<dots> = B mod n" using z by simp
  finally show ?thesis .
qed

text \<open>
  An aligned request of \<open>n\<close> pages gets a frame number congruent to twice the pool's own base
  frame number modulo \<open>n\<close>. So the segment is aligned to its size whenever the pool's base is, which
  is the case the callers need (page tables and large mappings in pools with an aligned base).
\<close>

theorem pp_alloc_aligned_frame:
  assumes "pool_wf p" "pp_alloc p n True pg = (True, pg', p')"
  shows "(pg_base pg' div PAGE_SIZE) mod n = (2 * (pp_base p div PAGE_SIZE)) mod n \<and>
    (n dvd pp_base p div PAGE_SIZE \<longrightarrow> n * PAGE_SIZE dvd pg_base pg')"
proof -
  have sz: "pp_size p \<le> SIZE_MAX" using assms(1) by (simp add: pool_wf_def)
  let ?B = "pp_base p div PAGE_SIZE"
  obtain b where b: "0 < n" "(b + (n - ?B mod n)) mod n = 0" "pg_base pg' = pp_base p + b * PAGE_SIZE"
    by (rule pp_alloc_cases [OF assms(2) sz]) auto
  have fr: "pg_base pg' div PAGE_SIZE = ?B + b" using base_frame [OF assms(1)] b(3) by simp
  have "(?B + b) mod n = (?B mod n + b mod n) mod n" by (simp add: mod_simps)
  also have "\<dots> = (2 * ?B) mod n" using mod_sub_mod [OF b(1,2)] by (simp add: mult_2 mod_simps)
  finally have eq: "(?B + b) mod n = (2 * ?B) mod n" .
  have "pg_base pg' = (?B + b) * PAGE_SIZE" using b(3) assms(1) by (simp add: pool_wf_def algebra_simps)
  moreover have "n dvd ?B + b" if "n dvd ?B" using eq that by (simp add: dvd_eq_mod_eq_0 mod_simps) (simp add: mod_mult_right_eq [symmetric])
  ultimately show ?thesis using fr eq by (simp add: mult_dvd_mono)
qed

theorem pp_alloc_aligned_frame_witness:
  "(let r = pp_alloc pool8 4 True (mem_ppages_get 0 0) in
    fst r \<and> 4 * PAGE_SIZE dvd pg_base (fst (snd r)))"
proof -
  have wf: "pool_wf pool8" using pool8_wf by (simp add: pools_wf_def)
  have t: "fst (pp_alloc pool8 4 True (mem_ppages_get 0 0))" by code_simp
  have "4 dvd pp_base pool8 div PAGE_SIZE" by (simp add: pool8_def PAGE_SIZE_def)
  then show ?thesis using pp_alloc_aligned_frame [OF wf, of 4 "mem_ppages_get 0 0"] t
    by (metis prod.collapse)
qed

text \<open>
  In a pool whose base is not aligned, an aligned request can return an unaligned segment: a
  pool at \<^verbatim>\<open>0x1000\<close> serves an aligned request of four pages at \<^verbatim>\<open>0x6000\<close>.
\<close>

theorem pp_alloc_aligned_misaligned:
  "(let r = pp_alloc \<lparr>pp_base = 0x1000, pp_size = 16, pp_free = 16, pp_last = 0, pp_bitmap = (\<lambda>_. 0)\<rparr>
              4 True (mem_ppages_get 0 0)
    in fst r \<and> pg_base (fst (snd r)) = 0x6000)"
  by code_simp

subsection \<open>Reservation\<close>

text \<open>
  Reserving a segment that lies inside one of the pools reports success exactly when all its
  frames were free (which is also what \<^verbatim>\<open>mem_are_ppages_reserved\<close> answers before the call), marks
  exactly these frames as used, and leaves the pools well formed.
\<close>

theorem reserve_ppages_exact:
  assumes "pools_wf pools" "PAGE_SIZE dvd pg_base pg" "0 < pg_size pg" "\<exists>p \<in> set pools. ppages_in_pool pg p"
    "mem_reserve_ppages pools pg = (r, pools')"
  shows "(r \<longleftrightarrow> page_frames pg \<inter> used_frames pools = {}) \<and> (r \<longleftrightarrow> \<not> mem_are_ppages_reserved pg pools) \<and>
    used_frames pools' = used_frames pools \<union> page_frames pg \<and> pools_wf pools'"
  using mem_reserve_ppages_spec [OF assms(1-4) assms(5) [unfolded mem_reserve_ppages_def]] by blast

theorem reserve_ppages_exact_witness:
  "fst (mem_reserve_ppages [pool8] (mem_ppages_get 0x9000 3)) \<and>
   used_frames (snd (mem_reserve_ppages [pool8] (mem_ppages_get 0x9000 3))) = used_frames [pool8] \<union> {9..<12}"
proof -
  have "fst (mem_reserve_ppages [pool8] (mem_ppages_get 0x9000 3))" by code_simp
  moreover have "page_frames (mem_ppages_get 0x9000 3) = {9..<12}"
    by (simp add: page_frames_def mem_ppages_get_def PAGE_SIZE_def)
  moreover have "ppages_in_pool (mem_ppages_get 0x9000 3) pool8" by code_simp
  ultimately show ?thesis
    using reserve_ppages_exact [OF pool8_wf, of "mem_ppages_get 0x9000 3" _ _, OF _ _ _ prod.collapse [symmetric]]
    by (simp add: mem_ppages_get_def PAGE_SIZE_def)
qed

subsection \<open>Coloured segments\<close>

text \<open>
  A coloured allocation whose mask names an existing colour always returns. On success the
  pages it marks are the first \<open>n\<close> pages of the requested colours from the returned base on: their
  physical addresses have these colours, no other page changes state, all of them but the last
  were free, and all of them were free when the returned base itself has one of the colours. On
  failure the pool is unchanged.
\<close>

theorem pp_alloc_clr_coloured:
  assumes "some_clr cc colors"
  shows "\<exists>ok pg' p'. pp_alloc_clr cc p n colors pg = Some (ok, pg', p') \<and>
    (if ok then \<exists>f. let xs = clr_list cc (pp_base p) colors n f in
         pg' = \<lparr>pg_base = pp_base p + f * PAGE_SIZE, pg_size = n, pg_colors = colors\<rparr> \<and>
         (\<forall>x \<in> set xs. f \<le> x \<and> bit colors (frame_clr cc (pp_base p + x * PAGE_SIZE))) \<and>
         (\<forall>x. bitmap_get (pp_bitmap p') x = (if x \<in> set xs then 1 else bitmap_get (pp_bitmap p) x)) \<and>
         (\<forall>x \<in> set (butlast xs). bitmap_get (pp_bitmap p) x = 0) \<and>
         (bit colors (frame_clr cc (pp_base p + f * PAGE_SIZE)) \<longrightarrow>
            (\<forall>x \<in> set xs. bitmap_get (pp_bitmap p) x = 0))
     else p' = p)"
proof -
  have clr: "has_clr cc (pp_base p) colors x \<longleftrightarrow> bit colors (frame_clr cc (pp_base p + x * PAGE_SIZE))" for x
    using assms by (simp add: has_clr_bit page_clr_frame some_clr_def)
  from pp_alloc_clr_spec [OF assms, of p n pg] show ?thesis
  proof (elim disjE exE conjE)
    fix f pg' p' assume "pp_alloc_clr cc p n colors pg = Some (True, pg', p')"
      "clr_found cc p colors n f" "clr_alloc_result cc p colors n f pg' p'"
    then show ?thesis
      using clr_list_props [OF assms, of "pp_base p" n f] clr_found_free [of cc p colors n f]
      by (intro exI [of _ True] exI [of _ pg'] exI [of _ p'] conjI, simp)
        (simp, intro exI [of _ f], simp add: Let_def clr_alloc_result_def clr)
  qed auto
qed

definition cc2 :: color_cfg where
  "cc2 = \<lparr>COLOR_NUM = 2, COLOR_SIZE = 1\<rparr>"

theorem pp_alloc_clr_coloured_witness:
  "some_clr cc2 0b10 \<and>
   (\<exists>ok pg' p'. pp_alloc_clr cc2 pool8 2 0b10 (mem_ppages_get 0 0) = Some (ok, pg', p') \<and>
      ok \<and> bitmap_get (pp_bitmap p') 1 = 1 \<and> bitmap_get (pp_bitmap p') 2 = 0)"
proof -
  have c: "some_clr cc2 0b10" unfolding some_clr_def cc2_def
    by (intro conjI exI [of _ 1]) (simp_all add: bit_numeral_rec One_nat_def)
  have "map_option (\<lambda>(ok, pg, p). (ok, bitmap_get (pp_bitmap p) 1, bitmap_get (pp_bitmap p) 2))
      (pp_alloc_clr cc2 pool8 2 0b10 (mem_ppages_get 0 0)) = Some (True, 1, 0)" by code_simp
  with c pp_alloc_clr_coloured [OF c, of pool8 2 "mem_ppages_get 0 0"] show ?thesis by auto
qed

text \<open>
  The coloured search can hand out a page that is in use. With two colours, pages 3 and 7 of
  an eight page pool taken and a request for two pages of the odd colour, the allocation succeeds
  and consists of the pages 5 and 7. The cause is that after a failed run the search goes on at the
  next index whatever its colour, counts that page as the first of the segment, and hands out one
  coloured page more than it has looked at.
\<close>

theorem pp_alloc_clr_double_allocation:
  "let p = \<lparr>pp_base = 0, pp_size = 8, pp_free = 6, pp_last = 0, pp_bitmap = (\<lambda>_. 0b10001000)\<rparr>;
       r = pp_alloc_clr cc2 p 2 0b10 (mem_ppages_get 0 0)
   in map_option (\<lambda>(ok, pg, p'). (ok, pg_base pg, pg_size pg)) r = Some (True, 0x4000, 2) \<and>
      clr_list cc2 0 0b10 2 4 = [5, 7] \<and> bitmap_get (pp_bitmap p) 7 = 1"
  by code_simp

text \<open>
  Releasing a coloured segment clears the first pages of that colour of the pool, not the
  pages of the segment: with pages 1 and 5 in use, releasing page 5 frees page 1 and leaves page 5
  marked.
\<close>

theorem mem_free_coloured_wrong_pages:
  "let p = pool8\<lparr>pp_bitmap := (\<lambda>_. 0b100010)\<rparr>;
       r = mem_free_ppages cc2 \<lparr>pg_base = 0xd000, pg_size = 1, pg_colors = 0b10\<rparr> [p]
   in map_option (\<lambda>ps. (bitmap_get (pp_bitmap (hd ps)) 1, bitmap_get (pp_bitmap (hd ps)) 5)) r = Some (0, 1)"
  by code_simp

lemma pp_alloc_zero_free: "pp_free p = 0 \<Longrightarrow> \<not> fst (pp_alloc p n aligned pg)"
  by (simp add: pp_alloc_def Let_def)

lemma pool_free_keeps_counter: "pool_free_ppages cc pg p = Some p' \<Longrightarrow> pp_free p' = pp_free p"
  by (auto simp: pool_free_ppages_def Let_def split: if_splits bind_splits)

text \<open>
  The free counter of a pool never recovers. After allocating a whole pool and releasing it
  again every page is free, and yet no later request is served.
\<close>

theorem free_counter_leak:
  assumes "pool_wf p" "pp_free p = n" "n < 2 ^ 64" "pp_alloc p n False pg = (True, pg', p')"
    "pool_free_ppages cc pg' p' = Some p''"
  shows "pool_used p'' = pool_used p \<and> (\<forall>m aligned pg0. \<not> fst (pp_alloc p'' m aligned pg0))"
proof -
  note f = pp_alloc_frames [OF assms(4,1)]
  have c: "all_clrs cc (pg_colors pg')" using f(7) by (simp add: all_clrs_def)
  have sub: "page_frames pg' \<subseteq> pool_frames p' \<or> page_frames pg' \<inter> pool_frames p' = {}" using f by simp
  have "0 < pg_size pg'" using f by simp
  from pool_free_frames [OF c f(8) this f(4) sub] assms(5)
  have u: "pool_used p'' = pool_used p' - page_frames pg'" by auto
  have "pp_size p \<le> SIZE_MAX" using assms(1) by (simp add: pool_wf_def)
  then have "pp_free p' = sub64 n n" by (rule pp_alloc_cases [OF assms(4)]) (auto simp: assms(2))
  then have "pp_free p'' = 0"
    using pool_free_keeps_counter [OF assms(5)] sub64_le [of n n] assms(3) by simp
  then show ?thesis using u f(2,3) pp_alloc_zero_free by blast
qed

theorem free_counter_leak_witness:
  "\<exists>pg' p' p''. pp_alloc pool8 8 False (mem_ppages_get 0 0) = (True, pg', p') \<and>
     pool_free_ppages color_cfg_init pg' p' = Some p'' \<and> \<not> fst (pp_alloc p'' 1 False (mem_ppages_get 0 0))"
proof -
  let ?r = "pp_alloc pool8 8 False (mem_ppages_get 0 0)"
  let ?f = "pool_free_ppages color_cfg_init (fst (snd ?r)) (snd (snd ?r))"
  have wf: "pool_wf pool8" using pool8_wf by (simp add: pools_wf_def)
  have "fst ?r" "?f \<noteq> None" by code_simp+
  then obtain p'' where e: "?r = (True, fst (snd ?r), snd (snd ?r))" "?f = Some p''"
    by (metis not_None_eq prod.collapse)
  have "pp_free pool8 = 8" by (simp add: pool8_def)
  moreover have "(8::nat) < 2 ^ 64" by simp
  ultimately show ?thesis using free_counter_leak [OF wf _ _ e] e by blast
qed

end
