(* ===== verification/Map_Props.thy ===== *)
theory Map_Props
  imports Mem_Map Pool_Props
begin

text \<open>
  What \<^verbatim>\<open>mem_alloc_vpage\<close>, \<^verbatim>\<open>mem_map\<close> and \<^verbatim>\<open>mem_alloc_page\<close> achieve on a range of pages whose entries lie in one
  last-level table, the path the hypervisor takes for its own allocations once the tables exist.
\<close>

subsection \<open>Ranges of pages in one last-level table\<close>

definition leaf_table :: "page_table \<Rightarrow> ptmem \<Rightarrow> nat \<Rightarrow> nat" where
  "leaf_table pt m va = pte_addr (m (entry_at pt m va 1))"

definition leaf_entry :: "page_table \<Rightarrow> ptmem \<Rightarrow> nat \<Rightarrow> nat" where
  "leaf_entry pt m va = leaf_table pt m va + 8 * (va div PAGE_SIZE mod 512)"

definition sv39 :: "page_table \<Rightarrow> bool" where
  "sv39 pt \<longleftrightarrow> pt_dscr pt = sv39_pt_dscr \<or> pt_dscr pt = sv39x4_pt_dscr"

text \<open>
  The pages \<open>va\<close> to \<open>va + n * PAGE_SIZE\<close> share the tables above the last level, none of which is the last-level
  table itself.
\<close>

definition leaf_window :: "page_table \<Rightarrow> ptmem \<Rightarrow> nat \<Rightarrow> nat \<Rightarrow> bool" where
  "leaf_window pt m va n \<longleftrightarrow>
     sv39 pt \<and> PAGE_SIZE dvd va \<and> va div PAGE_SIZE mod 512 + n \<le> 512 \<and> tables_above pt m va 2 \<and>
     leaf_table pt m va \<noteq> 0 \<and> PAGE_SIZE dvd leaf_table pt m va \<and>
     (\<forall>i < 2. entry_at pt m va i \<noteq> 0 \<and>
        (entry_at pt m va i < leaf_table pt m va \<or> leaf_table pt m va + PAGE_SIZE \<le> entry_at pt m va i))"

lemma sv39_lvls: "sv39 pt \<Longrightarrow> pt_lvls (pt_dscr pt) = 3"
  by (auto simp: sv39_def sv39_pt_dscr_def sv39x4_pt_dscr_def)

lemma sv39_leaf:
  "sv39 pt \<Longrightarrow> pt_lvlsize pt 2 = PAGE_SIZE" "sv39 pt \<Longrightarrow> pt_nentries pt 2 = 512" "sv39 pt \<Longrightarrow> pt_size pt 2 = PAGE_SIZE"
  by (auto simp: sv39_def sv39_pt_dscr_def sv39x4_pt_dscr_def pt_lvlsize_def pt_nentries_def pt_size_def PAGE_SIZE_def)

lemma sv39_terminal: "sv39 pt \<Longrightarrow> l < 3 \<Longrightarrow> pt_lvl_terminal pt l"
  by (auto simp: sv39_def sv39_pt_dscr_def sv39x4_pt_dscr_def pt_lvl_terminal_def less_Suc_eq numeral_3_eq_3)

lemma sv39_index:
  assumes "sv39 pt" "va div PAGE_SIZE = q"
  shows "pt_getpteindex_by_va pt va 2 = q mod 512" "pt_getpteindex_by_va pt va 1 = q div 512 mod 512"
    "pt_getpteindex_by_va pt va 0 = q div 512 div 512 mod pt_nentries pt 0"
proof -
  have o: "lvl_off (pt_dscr pt) ! 2 = 12" "lvl_off (pt_dscr pt) ! 1 = 21" "lvl_off (pt_dscr pt) ! 0 = 30"
    "pt_nentries pt 2 = 512" "pt_nentries pt 1 = 512"
    using assms(1) by (auto simp: sv39_def sv39_pt_dscr_def sv39x4_pt_dscr_def pt_nentries_def)
  have "(2::nat) ^ 21 = 2 ^ 12 * 512" "(2::nat) ^ 30 = 2 ^ 12 * (512 * 512)" by simp_all
  moreover have va: "va div 2 ^ 12 = q" using assms(2) by (simp add: PAGE_SIZE_def)
  ultimately have d: "va div 2 ^ 21 = q div 512" "va div 2 ^ 30 = q div 512 div 512"
    by (simp_all only: div_mult2_eq)
  show "pt_getpteindex_by_va pt va 2 = q mod 512" "pt_getpteindex_by_va pt va 1 = q div 512 mod 512"
    "pt_getpteindex_by_va pt va 0 = q div 512 div 512 mod pt_nentries pt 0"
    by (simp_all only: pt_getpteindex_by_va_def o d va)
qed

lemma window_address:
  assumes "leaf_window pt m va n" "k < n" "a div PAGE_SIZE = va div PAGE_SIZE + k"
  shows "entry_at pt m a 0 = entry_at pt m va 0" "entry_at pt m a 1 = entry_at pt m va 1"
    "entry_at pt m a 2 = leaf_entry pt m va + 8 * k"
proof -
  define q where q: "q = va div PAGE_SIZE"
  have w: "sv39 pt" "va div PAGE_SIZE mod 512 + n \<le> 512" using assms(1) by (simp_all add: leaf_window_def)
  have b: "q mod 512 + k < 512" using w(2) assms(2) q by simp
  have "q + k = 512 * (q div 512) + (q mod 512 + k)" by simp
  then have d: "(q + k) div 512 = q div 512" and r: "(q + k) mod 512 = q mod 512 + k"
    using b by (metis div_mult_self4 div_less add_0_right zero_neq_numeral, metis mod_mult_self4 mod_less)
  note ix = sv39_index [OF w(1) q [symmetric]] sv39_index [OF w(1) assms(3) [folded q]]
  show e0: "entry_at pt m a 0 = entry_at pt m va 0" using ix d by simp
  show e1: "entry_at pt m a 1 = entry_at pt m va 1"
    using e0 ix d by (simp only: One_nat_def entry_at.simps(2))
  have "entry_at pt m a (Suc 1) = leaf_table pt m va + 8 * ((q + k) mod 512)"
    using e1 ix by (simp only: entry_at.simps(2) leaf_table_def) (simp only: Suc_1)
  then show "entry_at pt m a 2 = leaf_entry pt m va + 8 * k"
    using r q by (simp add: leaf_entry_def Suc_1)
qed

lemma window_page:
  assumes "leaf_window pt m va n" "k < n"
  shows "entry_at pt m (va + k * PAGE_SIZE) 0 = entry_at pt m va 0" "entry_at pt m (va + k * PAGE_SIZE) 1 = entry_at pt m va 1"
    "entry_at pt m (va + k * PAGE_SIZE) 2 = leaf_entry pt m va + 8 * k"
  using window_address [OF assms, of "va + k * PAGE_SIZE"] PAGE_SIZE_pos by simp_all

text \<open>Entries of the last-level table: \<open>put m p n f\<close> writes \<open>f k\<close> to the \<open>k\<close>-th entry from \<open>p\<close> on.\<close>

definition put :: "ptmem \<Rightarrow> nat \<Rightarrow> nat \<Rightarrow> (nat \<Rightarrow> u64) \<Rightarrow> ptmem" where
  "put m p n f = (\<lambda>a. if \<exists>k < n. a = p + 8 * k then f ((a - p) div 8) else m a)"

lemma put_0 [simp]: "put m p 0 f = m"
  by (simp add: put_def)

lemma put_at [simp]: "k < n \<Longrightarrow> put m p n f (p + 8 * k) = f k"
  by (auto simp: put_def)

lemma put_else: "\<forall>k < n. a \<noteq> p + 8 * k \<Longrightarrow> put m p n f a = m a"
  by (auto simp: put_def)

lemma put_Suc: "put (m(p := f 0)) (p + 8) n (\<lambda>k. f (Suc k)) = put m p (Suc n) f"
proof
  fix a
  consider "a = p" | k where "k < n" "a = p + 8 * Suc k" | "a \<noteq> p" "\<forall>k < n. a \<noteq> p + 8 * Suc k" by blast
  then show "put (m(p := f 0)) (p + 8) n (\<lambda>k. f (Suc k)) a = put m p (Suc n) f a"
  proof cases
    case 1
    then show ?thesis by (auto simp: put_def)
  next
    case 2
    then have "put (m(p := f 0)) (p + 8) n (\<lambda>k. f (Suc k)) a = f (Suc k)"
      using put_at [of k n "m(p := f 0)" "p + 8" "\<lambda>k. f (Suc k)"] by (simp add: add.assoc)
    moreover have "put m p (Suc n) f a = f (Suc k)" using put_at [of "Suc k" "Suc n" m p f] 2 by simp
    ultimately show ?thesis by simp
  next
    case 3
    then have "put (m(p := f 0)) (p + 8) n (\<lambda>k. f (Suc k)) a = m a" by (subst put_else) (auto simp: add.assoc)
    moreover have "put m p (Suc n) f a = m a" using 3 by (intro put_else) (auto simp: less_Suc_eq_0_disj)
    ultimately show ?thesis by simp
  qed
qed

lemma put_put: "put (put m p n f) p n g = put m p n g"
  by (rule ext) (auto simp: put_def)

text \<open>Writes into the last-level table leave the walk alone.\<close>

lemma window_upd:
  assumes "leaf_window pt m va n" "\<forall>a. a < leaf_table pt m va \<or> leaf_table pt m va + PAGE_SIZE \<le> a \<longrightarrow> m' a = m a"
  shows "entry_at pt m' va 0 = entry_at pt m va 0" "entry_at pt m' va 1 = entry_at pt m va 1"
    "leaf_table pt m' va = leaf_table pt m va" "leaf_window pt m' va n" "leaf_entry pt m' va = leaf_entry pt m va"
proof -
  have far: "entry_at pt m va i < leaf_table pt m va \<or> leaf_table pt m va + PAGE_SIZE \<le> entry_at pt m va i" if "i < 2" for i
    using assms(1) that by (auto simp: leaf_window_def)
  show e0: "entry_at pt m' va 0 = entry_at pt m va 0" by simp
  show e1: "entry_at pt m' va 1 = entry_at pt m va 1"
    using assms(2) far [of 0] by (metis One_nat_def e0 entry_at.simps(2) zero_less_numeral)
  have "m' (entry_at pt m va 1) = m (entry_at pt m va 1)" using assms(2) far [of 1] by (simp only: one_less_numeral_iff semiring_norm)
  then show t: "leaf_table pt m' va = leaf_table pt m va" using e1 by (simp only: leaf_table_def)
  show "leaf_entry pt m' va = leaf_entry pt m va" using t by (simp add: leaf_entry_def)
  have i: "i < 2 \<longleftrightarrow> i = 0 \<or> i = 1" for i :: nat by auto
  show "leaf_window pt m' va n"
    using assms far [of 0] far [of 1] e0 e1 t unfolding leaf_window_def tables_above_def i by metis
qed

lemma window_entries:
  assumes "leaf_window pt m va n" "k < n"
  shows "leaf_table pt m va \<le> leaf_entry pt m va + 8 * k" "leaf_entry pt m va + 8 * k < leaf_table pt m va + PAGE_SIZE"
    "leaf_entry pt m va + 8 * k \<noteq> 0" "pt_getpteindex pt (leaf_entry pt m va + 8 * k) 2 = va div PAGE_SIZE mod 512 + k"
proof -
  let ?i = "va div PAGE_SIZE mod 512"
  have w: "sv39 pt" "?i + n \<le> 512" "leaf_table pt m va \<noteq> 0" "PAGE_SIZE dvd leaf_table pt m va"
    using assms(1) by (simp_all add: leaf_window_def)
  have b: "?i + k < 512" using w(2) assms(2) by simp
  show "leaf_table pt m va \<le> leaf_entry pt m va + 8 * k" "leaf_entry pt m va + 8 * k \<noteq> 0"
    using w(3) by (simp_all add: leaf_entry_def)
  show "leaf_entry pt m va + 8 * k < leaf_table pt m va + PAGE_SIZE" using b by (simp add: leaf_entry_def PAGE_SIZE_def)
  have "(leaf_entry pt m va + 8 * k) mod PAGE_SIZE = 8 * (?i + k)"
    using w(4) b by (simp add: leaf_entry_def mod_add_eq [symmetric, of "leaf_table pt m va"] add.assoc PAGE_SIZE_def)
  then show "pt_getpteindex pt (leaf_entry pt m va + 8 * k) 2 = ?i + k"
    by (simp add: pt_getpteindex_def sv39_leaf(3) [OF w(1)])
qed

lemma window_put:
  assumes "leaf_window pt m va n"
  shows "leaf_window pt (put m (leaf_entry pt m va) n f) va n"
    "leaf_entry pt (put m (leaf_entry pt m va) n f) va = leaf_entry pt m va"
proof -
  have "\<forall>a. a < leaf_table pt m va \<or> leaf_table pt m va + PAGE_SIZE \<le> a \<longrightarrow> put m (leaf_entry pt m va) n f a = m a"
  proof (intro allI impI put_else)
    fix a k assume "a < leaf_table pt m va \<or> leaf_table pt m va + PAGE_SIZE \<le> a" "k < n"
    then show "a \<noteq> leaf_entry pt m va + 8 * k" using window_entries(1,2) [OF assms, of k] by auto
  qed
  from window_upd(4,5) [OF assms this] show "leaf_window pt (put m (leaf_entry pt m va) n f) va n"
    "leaf_entry pt (put m (leaf_entry pt m va) n f) va = leaf_entry pt m va" .
qed

subsection \<open>Mapping\<close>

lemma window_get:
  assumes "leaf_window pt m va n" "k < n"
  shows "pt_get_pte pt m 0 (va + k * PAGE_SIZE) = entry_at pt m va 0" "pt_get_pte pt m 1 (va + k * PAGE_SIZE) = entry_at pt m va 1"
    "pt_get_pte pt m 2 (va + k * PAGE_SIZE) = leaf_entry pt m va + 8 * k"
    "pte_table (m (entry_at pt m va 0))" "pte_table (m (entry_at pt m va 1))"
proof -
  have t: "tables_above pt m va 2" using assms(1) by (simp add: leaf_window_def)
  have i: "i < 2 \<longleftrightarrow> i = 0 \<or> i = 1" for i :: nat by auto
  have "tables_above pt m (va + k * PAGE_SIZE) 2"
    using t window_page(1,2) [OF assms] unfolding tables_above_def i by metis
  then have "tables_above pt m (va + k * PAGE_SIZE) l" if "l \<le> 2" for l using that by (auto simp: tables_above_def)
  then show "pt_get_pte pt m 0 (va + k * PAGE_SIZE) = entry_at pt m va 0" "pt_get_pte pt m 1 (va + k * PAGE_SIZE) = entry_at pt m va 1"
    "pt_get_pte pt m 2 (va + k * PAGE_SIZE) = leaf_entry pt m va + 8 * k"
    using window_page [OF assms] by (metis pt_get_pte_entry le_refl zero_le one_le_numeral)+
  show "pte_table (m (entry_at pt m va 0))" "pte_table (m (entry_at pt m va 1))"
    using t unfolding tables_above_def i by blast+
qed

lemma window_entry_nz: "leaf_window pt m va n \<Longrightarrow> entry_at pt m va 0 \<noteq> 0" "leaf_window pt m va n \<Longrightarrow> entry_at pt m va 1 \<noteq> 0"
  unfolding leaf_window_def by (metis zero_less_numeral, metis one_less_numeral_iff semiring_norm(76))

lemma map_level_leaf:
  assumes "leaf_window (as_pt as) (mm_mem s) va n" "k < n" "\<not> pte_valid (mm_mem s (leaf_entry (as_pt as) (mm_mem s) va + 8 * k))"
    "0 < rest" "PAGE_SIZE dvd paddr"
  shows "map_level e as rest (va + k * PAGE_SIZE) paddr 3 0 0 s =
    Some (2, leaf_entry (as_pt as) (mm_mem s) va + 8 * k, s)"
proof -
  have w: "sv39 (as_pt as)" "PAGE_SIZE dvd va" using assms(1) by (simp_all add: leaf_window_def)
  have al: "(va + k * PAGE_SIZE) mod PAGE_SIZE = 0" "paddr mod PAGE_SIZE = 0" using w(2) assms(5) by (simp_all add: mod_add_eq [symmetric])
  note g = window_get [OF assms(1,2)] and nz = window_entry_nz [OF assms(1)] window_entries(3) [OF assms(1,2)]
  note v = g(4,5) [THEN pte_table_valid]
  have 3: "(3::nat) = Suc (Suc (Suc 0))" "(0 + 1 :: nat) = 1" "(1 + 1 :: nat) = 2" by simp_all
  show ?thesis
    unfolding 3 map_level.simps Let_def
    using g nz v assms(3,4) al sv39_terminal [OF w(1)] sv39_leaf [OF w(1)]
    by (simp add: pt_pte_mappable_def 3)
qed

lemma map_entries_leaf:
  assumes "sv39 (as_pt as)" "entry + d \<le> 512" "n = count + d"
  shows "map_entries e as flags True n 2 entry pte count vaddr paddr s =
    Some (n, vaddr + d * PAGE_SIZE, paddr + d * PAGE_SIZE,
      s\<lparr>mm_mem := put (mm_mem s) pte d (\<lambda>k. pte_set (paddr + k * PAGE_SIZE) PTE_PAGE flags)\<rparr>)"
  using assms(2,3)
proof (induction d arbitrary: entry count pte vaddr paddr s)
  case 0
  then show ?case by (subst map_entries.simps) simp
next
  case (Suc d)
  have p: "PAGE_SIZE div PAGE_SIZE = 1" using PAGE_SIZE_pos by simp
  have "map_entries e as flags True n 2 entry pte count vaddr paddr s =
      map_entries e as flags True n 2 (entry + 1) (pte + 8) (count + 1) (vaddr + PAGE_SIZE) (paddr + PAGE_SIZE)
        (write_pte pte (pte_set paddr PTE_PAGE flags) s)"
    by (subst map_entries.simps)
      (use Suc.prems in \<open>simp add: sv39_leaf [OF assms(1)] p mem_ppages_get_def pt_pte_type_def\<close>)
  then show ?case
    using Suc.IH [of "entry + 1" "count + 1"] Suc.prems
      put_Suc [of "mm_mem s" pte "\<lambda>k. pte_set (paddr + k * PAGE_SIZE) PTE_PAGE flags" d]
    by (simp add: write_pte_def add.assoc)
qed

definition page_entries :: "nat \<Rightarrow> u64 \<Rightarrow> nat \<Rightarrow> u64" where
  "page_entries pa flags = (\<lambda>k. pte_set (pa + k * PAGE_SIZE) PTE_PAGE flags)"

lemma mem_map_leaf:
  assumes "leaf_window (as_pt as) (mm_mem s) va n" "0 < n"
    "\<forall>k < n. \<not> pte_valid (mm_mem s (leaf_entry (as_pt as) (mm_mem s) va + 8 * k))"
    "PAGE_SIZE dvd pg_base pp" "all_clrs (env_cc e) (pg_colors pp)"
    "mem_find_sec e as va = Some sec" "mem_find_sec e as (va + n * PAGE_SIZE - 1) = Some sec" "va + n * PAGE_SIZE < 2 ^ 64"
  shows "mem_map e as va (Some pp) n flags s =
    Some (0, s\<lparr>mm_mem := put (mm_mem s) (leaf_entry (as_pt as) (mm_mem s) va) n (page_entries (pg_base pp) flags)\<rparr>)"
proof -
  let ?le = "leaf_entry (as_pt as) (mm_mem s) va"
  have w: "sv39 (as_pt as)" "PAGE_SIZE dvd va" "va div PAGE_SIZE mod 512 + n \<le> 512" using assms(1) by (simp_all add: leaf_window_def)
  have va: "va div PAGE_SIZE * PAGE_SIZE = va" using w(2) by simp
  have "1 \<le> va + n * PAGE_SIZE" using assms(2) by (simp add: PAGE_SIZE_def)
  then have sub: "sub64 (va + n * PAGE_SIZE) 1 = va + n * PAGE_SIZE - 1" using sub64_le assms(8) by blast
  have l: "map_level e as n va (pg_base pp) 3 0 0 s = Some (2, ?le, s)"
    using map_level_leaf [OF assms(1,2), of n "pg_base pp" e] assms(2,4) assms(3) [rule_format, OF assms(2)] by simp
  have ix: "pt_getpteindex (as_pt as) ?le 2 = va div PAGE_SIZE mod 512" using window_entries(4) [OF assms(1,2)] by simp
  have "map_loop e as flags True n 0 va (pg_base pp) s =
      map_loop e as flags True n n (va + n * PAGE_SIZE) (pg_base pp + n * PAGE_SIZE)
        (s\<lparr>mm_mem := put (mm_mem s) ?le n (page_entries (pg_base pp) flags)\<rparr>)"
    using l ix map_entries_leaf [OF w(1,3), of n 0 e flags ?le va "pg_base pp" s] assms(2)
    by (subst map_loop.simps) (simp add: sv39_lvls [OF w(1)] page_entries_def)
  then have "map_loop e as flags True n 0 va (pg_base pp) s =
      Some (s\<lparr>mm_mem := put (mm_mem s) ?le n (page_entries (pg_base pp) flags)\<rparr>)"
    by (subst (asm) (2) map_loop.simps) simp
  then show ?thesis using assms(5,6,7) sub va by (auto simp: mem_map_def map_pages_def Let_def)
qed

lemma page_offset:
  assumes "PAGE_SIZE dvd va" "va \<le> a"
  shows "a div PAGE_SIZE = va div PAGE_SIZE + (a - va) div PAGE_SIZE" "a mod PAGE_SIZE = (a - va) mod PAGE_SIZE"
proof -
  have "(va + (a - va)) div PAGE_SIZE = va div PAGE_SIZE + (a - va) div PAGE_SIZE" "(va + (a - va)) mod PAGE_SIZE = (a - va) mod PAGE_SIZE"
    using div_plus_div_distrib_dvd_left [OF assms(1)] assms(1) by (blast, metis dvd_imp_mod_0 mod_add_left_eq add_0)
  then show "a div PAGE_SIZE = va div PAGE_SIZE + (a - va) div PAGE_SIZE" "a mod PAGE_SIZE = (a - va) mod PAGE_SIZE"
    using assms(2) by simp_all
qed

lemma put_translates_page:
  assumes "leaf_window pt m va n" "k < n" "a div PAGE_SIZE = va div PAGE_SIZE + k" "f k = pte_set pa PTE_PAGE fl"
    "PAGE_SIZE dvd pa" "pa < 2 ^ 56" "bit fl 0"
  shows "mem_translate pt (put m (leaf_entry pt m va) n f) a = Some (pa + a mod PAGE_SIZE)"
proof -
  let ?m = "put m (leaf_entry pt m va) n f"
  have w: "sv39 pt" using assms(1) by (simp add: leaf_window_def)
  have win: "leaf_window pt ?m va n" "leaf_entry pt ?m va = leaf_entry pt m va" using window_put [OF assms(1)] by simp_all
  note e = window_address [OF win(1) assms(2,3)]
  have i: "i < 2 \<longleftrightarrow> i = 0 \<or> i = 1" for i :: nat by auto
  have t: "tables_above pt ?m a 2" using window_get(4,5) [OF win(1) assms(2)] e(1,2) unfolding tables_above_def i by metis
  have leaf: "entry_at pt ?m a 2 = leaf_entry pt m va + 8 * k" using e(3) win(2) by simp
  have val: "?m (entry_at pt ?m a 2) = pte_set pa PTE_PAGE fl" using leaf assms(2,4) by simp
  have nz: "leaf_entry pt m va + 8 * k \<noteq> 0" using window_entries(3) [OF assms(1,2)] .
  have ty: "PTE_PAGE < 16" by (simp add: PTE_PAGE_def PTE_RWX_def)
  have "mem_translate pt ?m a = Some (pa div PAGE_SIZE * PAGE_SIZE + a mod PAGE_SIZE)"
    using mem_translate_leaf [of 2 pt ?m a] sv39_lvls [OF w] t val nz leaf pte_table_set(2) pte_valid_set [OF ty] assms(7)
      pte_addr_set [OF assms(5,6) ty] sv39_leaf(1) [OF w]
    by (simp add: Let_def)
  then show ?thesis using assms(5) by simp
qed

lemma put_translates:
  assumes "leaf_window pt m va n" "va \<le> a" "a < va + n * PAGE_SIZE" "PAGE_SIZE dvd pa" "pa + n * PAGE_SIZE \<le> 2 ^ 56" "bit fl 0"
  shows "mem_translate pt (put m (leaf_entry pt m va) n (page_entries pa fl)) a = Some (pa + (a - va))"
proof -
  define k where "k = (a - va) div PAGE_SIZE"
  have w: "PAGE_SIZE dvd va" using assms(1) by (simp add: leaf_window_def)
  have k: "k < n" using assms(2,3) PAGE_SIZE_pos by (simp add: k_def less_mult_imp_div_less)
  note ad = page_offset [OF w assms(2), folded k_def]
  have "k * PAGE_SIZE < n * PAGE_SIZE" using k PAGE_SIZE_pos by simp
  then have "pa + k * PAGE_SIZE < 2 ^ 56" using assms(5) by linarith
  then have "mem_translate pt (put m (leaf_entry pt m va) n (page_entries pa fl)) a = Some (pa + k * PAGE_SIZE + a mod PAGE_SIZE)"
    using put_translates_page [OF assms(1) k ad(1), of "page_entries pa fl" "pa + k * PAGE_SIZE" fl] assms(4,6)
    by (simp add: page_entries_def)
  also have "pa + k * PAGE_SIZE + a mod PAGE_SIZE = pa + (a - va)" using ad(2) by (simp add: k_def)
  finally show ?thesis .
qed

text \<open>
  C18: Mapping a range of free pages that lie in one last-level table: \<^verbatim>\<open>mem_map\<close> succeeds, every address of the range then
  translates to the corresponding address of the physical range, and no other word of the tables
  changes.
\<close>

theorem mem_map_translates:
  assumes "leaf_window (as_pt as) (mm_mem s) va n" "0 < n"
    "\<forall>k < n. \<not> pte_valid (mm_mem s (leaf_entry (as_pt as) (mm_mem s) va + 8 * k))"
    "PAGE_SIZE dvd pg_base pp" "pg_base pp + n * PAGE_SIZE \<le> 2 ^ 56" "all_clrs (env_cc e) (pg_colors pp)" "bit flags 0"
    "mem_find_sec e as va = Some sec" "mem_find_sec e as (va + n * PAGE_SIZE - 1) = Some sec" "va + n * PAGE_SIZE < 2 ^ 64"
  shows "\<exists>s'. mem_map e as va (Some pp) n flags s = Some (0, s') \<and>
    (\<forall>a. va \<le> a \<longrightarrow> a < va + n * PAGE_SIZE \<longrightarrow> mem_translate (as_pt as) (mm_mem s') a = Some (pg_base pp + (a - va))) \<and>
    (\<forall>p. (\<forall>k < n. p \<noteq> pt_get_pte (as_pt as) (mm_mem s) 2 (va + k * PAGE_SIZE)) \<longrightarrow> mm_mem s' p = mm_mem s p) \<and>
    mm_pools s' = mm_pools s"
proof -
  let ?p = "leaf_entry (as_pt as) (mm_mem s) va"
  let ?s = "s\<lparr>mm_mem := put (mm_mem s) ?p n (page_entries (pg_base pp) flags)\<rparr>"
  have m: "mem_map e as va (Some pp) n flags s = Some (0, ?s)"
    using mem_map_leaf [OF assms(1-4,6,8-10)] .
  have "mm_mem ?s p = mm_mem s p" if "\<forall>k < n. p \<noteq> pt_get_pte (as_pt as) (mm_mem s) 2 (va + k * PAGE_SIZE)" for p
    using that window_get(3) [OF assms(1)] by (simp add: put_else)
  then show ?thesis using m put_translates [OF assms(1) _ _ assms(4,5,7)] by auto
qed

subsection \<open>Coloured mappings\<close>

lemma inflate_leaf:
  assumes "leaf_window (as_pt as) (mm_mem s) va n" "0 < n"
  shows "mem_inflate_pt e as va (n * PAGE_SIZE) s = Some s"
proof -
  let ?pt = "as_pt as"
  have w: "sv39 ?pt" "va div PAGE_SIZE mod 512 + n \<le> 512" using assms(1) by (simp_all add: leaf_window_def)
  note g = window_get [OF assms, unfolded mult_0 add_0_right] and nz = window_entry_nz [OF assms(1)]
  have x: "mem_expand_pte e as va 0 s = Some s" "mem_expand_pte e as va 1 s = Some s"
    using g by (simp_all del: entry_at.simps add: mem_expand_pte_def Let_def)
  have "512 * PAGE_SIZE \<le> pt_lvlsize ?pt 0" "512 * PAGE_SIZE \<le> pt_lvlsize ?pt 1"
    using w(1) by (auto simp: sv39_def sv39_pt_dscr_def sv39x4_pt_dscr_def pt_lvlsize_def PAGE_SIZE_def)
  moreover have "n * PAGE_SIZE \<le> 512 * PAGE_SIZE" using w(2) by (intro mult_le_mono1) linarith
  ultimately have "\<not> va + pt_lvlsize ?pt 0 < va + n * PAGE_SIZE" "\<not> va + pt_lvlsize ?pt 1 < va + n * PAGE_SIZE" by linarith+
  then have "inflate_lvl e as 0 (va + n * PAGE_SIZE) va s = Some s" "inflate_lvl e as 1 (va + n * PAGE_SIZE) va s = Some s"
    using x assms(2) by (subst inflate_lvl.simps, simp, subst inflate_lvl.simps, simp)+
  moreover have "[0..<3 - 1] = [0, 1 :: nat]" by (simp add: upt_rec)
  ultimately show ?thesis by (simp add: mem_inflate_pt_def sv39_lvls [OF w(1)])
qed

definition clr_entries :: "color_cfg \<Rightarrow> ppages \<Rightarrow> u64 \<Rightarrow> nat \<Rightarrow> nat \<Rightarrow> nat \<Rightarrow> u64" where
  "clr_entries cc pp flags n index =
     (\<lambda>k. pte_set (pg_base pp + clr_list cc (pg_base pp) (pg_colors pp) n index ! k * PAGE_SIZE) PTE_PAGE flags)"

lemma map_coloured_leaf:
  assumes "leaf_window (as_pt as) (mm_mem s) va n" "n = c + d" "some_clr (env_cc e) (pg_colors pp)"
  shows "map_coloured e as flags pp d index (va + c * PAGE_SIZE) s =
    Some (s\<lparr>mm_mem := put (mm_mem s) (leaf_entry (as_pt as) (mm_mem s) va + 8 * c) d (clr_entries (env_cc e) pp flags d index)\<rparr>)"
  using assms(1,2)
proof (induction d arbitrary: c s index)
  case 0
  then show ?case by simp
next
  case (Suc d)
  let ?pt = "as_pt as" and ?le = "leaf_entry (as_pt as) (mm_mem s) va" and ?f = "clr_entries (env_cc e) pp flags (Suc d) index"
  obtain i where i: "pp_next_clr (env_cc e) (pg_base pp) index (pg_colors pp) = Some i"
    using pp_next_clr_total [OF assms(3)] by metis
  let ?s = "write_pte (?le + 8 * c) (?f 0) s"
  have w: "sv39 ?pt" using Suc.prems(1) by (simp add: leaf_window_def)
  have c: "c < n" using Suc.prems(2) by simp
  note we = window_entries [OF Suc.prems(1) c]
  have f: "?f 0 = pte_set (pg_base pp + i * PAGE_SIZE) PTE_PAGE flags"
    "(\<lambda>k. ?f (Suc k)) = clr_entries (env_cc e) pp flags d (i + 1)"
    using i by (simp_all add: clr_entries_def Let_def)
  have u: "leaf_window ?pt (mm_mem ?s) va n" "leaf_entry ?pt (mm_mem ?s) va = ?le"
    using window_upd(4,5) [OF Suc.prems(1), of "mm_mem ?s"] we(1,2) by (auto simp: write_pte_def)
  have eq: "va + c * PAGE_SIZE + PAGE_SIZE = va + (c + 1) * PAGE_SIZE" by (simp add: distrib_right)
  have "map_coloured e as flags pp (Suc d) index (va + c * PAGE_SIZE) s =
      map_coloured e as flags pp d (i + 1) (va + (c + 1) * PAGE_SIZE) ?s"
    using i we(3) window_get(3) [OF Suc.prems(1) c] sv39_lvls [OF w] f(1) unfolding eq [symmetric] by (auto simp: Let_def)
  also have "\<dots> = Some (?s\<lparr>mm_mem := put (mm_mem ?s) (?le + 8 * c + 8) d (clr_entries (env_cc e) pp flags d (i + 1))\<rparr>)"
    using Suc.IH [OF u(1), of "c + 1" "i + 1"] Suc.prems(2) unfolding u(2) by (simp add: add.assoc)
  finally show ?case using f put_Suc [of "mm_mem s" "?le + 8 * c" ?f d] by (simp add: write_pte_def)
qed

text \<open>
  C19: Mapping coloured pages into a range whose entries lie in one last-level table: \<^verbatim>\<open>mem_map\<close> succeeds, and every address of
  the range then translates to the same offset in a page whose colour is among those of the segment:
  the pages are the first \<open>n\<close> pages of these colours from the segment's base on, each used once.
\<close>

theorem mem_map_coloured:
  assumes "leaf_window (as_pt as) (mm_mem s) va n" "0 < n" "pg_size pp = n" "some_clr (env_cc e) (pg_colors pp)"
    "\<not> all_clrs (env_cc e) (pg_colors pp)" "0 < COLOR_SIZE (env_cc e)" "PAGE_SIZE dvd pg_base pp" "bit flags 0"
    "\<forall>x \<in> set (clr_list (env_cc e) (pg_base pp) (pg_colors pp) n 0). pg_base pp + x * PAGE_SIZE < 2 ^ 56"
    "mem_find_sec e as va = Some sec" "mem_find_sec e as (va + n * PAGE_SIZE - 1) = Some sec" "va + n * PAGE_SIZE < 2 ^ 64"
  shows "\<exists>s'. mem_map e as va (Some pp) n flags s = Some (0, s') \<and>
    (let xs = clr_list (env_cc e) (pg_base pp) (pg_colors pp) n 0 in
     distinct xs \<and> length xs = n \<and>
     (\<forall>a. va \<le> a \<longrightarrow> a < va + n * PAGE_SIZE \<longrightarrow>
        (let f = pg_base pp + xs ! ((a - va) div PAGE_SIZE) * PAGE_SIZE in
         mem_translate (as_pt as) (mm_mem s') a = Some (f + (a - va) mod PAGE_SIZE) \<and> bit (pg_colors pp) (frame_clr (env_cc e) f))))"
proof -
  let ?cc = "env_cc e" and ?pt = "as_pt as" and ?le = "leaf_entry (as_pt as) (mm_mem s) va"
  let ?xs = "clr_list ?cc (pg_base pp) (pg_colors pp) n 0"
  let ?s = "s\<lparr>mm_mem := put (mm_mem s) ?le n (clr_entries ?cc pp flags n 0)\<rparr>"
  have va: "va div PAGE_SIZE * PAGE_SIZE = va" "PAGE_SIZE dvd va" using assms(1) by (simp_all add: leaf_window_def)
  have "1 \<le> va + n * PAGE_SIZE" using assms(2) by (simp add: PAGE_SIZE_def)
  then have "sub64 (va + n * PAGE_SIZE) 1 = va + n * PAGE_SIZE - 1" using sub64_le assms(12) by blast
  then have m: "mem_map e as va (Some pp) n flags s = Some (0, ?s)"
    using inflate_leaf [OF assms(1,2)] map_coloured_leaf [OF assms(1) _ assms(4), of 0 n flags 0] assms(3,5,10,11) va(1)
    by (simp add: mem_map_def map_pages_def Let_def)
  have xs: "sorted_wrt (<) ?xs" "\<forall>x \<in> set ?xs. has_clr ?cc (pg_base pp) (pg_colors pp) x"
    using clr_list_props [OF assms(4)] by blast+
  have "mem_translate ?pt (mm_mem ?s) a = Some (pg_base pp + ?xs ! k * PAGE_SIZE + (a - va) mod PAGE_SIZE) \<and>
      bit (pg_colors pp) (frame_clr ?cc (pg_base pp + ?xs ! k * PAGE_SIZE))"
    if a: "va \<le> a" "a < va + n * PAGE_SIZE" "k = (a - va) div PAGE_SIZE" for a k
  proof -
    have k: "k < n" using a PAGE_SIZE_pos by (simp add: less_mult_imp_div_less)
    note ad = page_offset [OF va(2) a(1), folded a(3)]
    have x: "?xs ! k \<in> set ?xs" using k by simp
    have "mem_translate ?pt (mm_mem ?s) a = Some (pg_base pp + ?xs ! k * PAGE_SIZE + a mod PAGE_SIZE)"
      using put_translates_page [OF assms(1) k ad(1), of "clr_entries ?cc pp flags n 0" "pg_base pp + ?xs ! k * PAGE_SIZE" flags]
        assms(7,8,9) x by (simp add: clr_entries_def)
    then show ?thesis using ad(2) xs(2) x page_clr_frame [OF assms(6)] by (simp add: has_clr_bit)
  qed
  then show ?thesis using m xs(1) by (auto simp: Let_def strict_sorted_iff)
qed

subsection \<open>Allocation of virtual pages\<close>

definition reserved :: "u64 \<Rightarrow> bool" where
  "reserved w \<longleftrightarrow> pte_check_rsw w PTE_RSW_RSRV"

lemma reserved_bit: "reserved w \<Longrightarrow> bit w 8"
proof -
  assume "reserved w"
  then have "bit (w AND PTE_RSW_MSK) 8 = bit (PTE_RSW_RSRV AND PTE_RSW_MSK) 8" by (simp add: reserved_def pte_check_rsw_def)
  moreover have eq: "PTE_RSW_RSRV = push_bit 8 (mask 2)" unfolding PTE_RSW_RSRV_def mask_eq_exp_minus_1 push_bit_eq_mult by simp
  have "bit PTE_RSW_RSRV 8" unfolding eq bit_push_bit_iff bit_mask_iff by simp
  ultimately show "bit w 8" by (simp add: pt_simps bm_simps bit_simps)
qed

text \<open>A range none of whose entries is valid or reserved, below tables that are not marked as reserved.\<close>

definition free_window :: "page_table \<Rightarrow> ptmem \<Rightarrow> nat \<Rightarrow> nat \<Rightarrow> bool" where
  "free_window pt m va n \<longleftrightarrow>
     leaf_window pt m va n \<and> \<not> reserved (m (entry_at pt m va 0)) \<and> \<not> reserved (m (entry_at pt m va 1)) \<and>
     (\<forall>k < n. \<not> pte_valid (m (leaf_entry pt m va + 8 * k)) \<and> \<not> reserved (m (leaf_entry pt m va + 8 * k)))"

lemma free_windowD:
  assumes "free_window pt m va n"
  shows "leaf_window pt m va n" "\<not> reserved (m (entry_at pt m va 0))" "\<not> reserved (m (entry_at pt m va 1))"
    "k < n \<Longrightarrow> \<not> pte_valid (m (leaf_entry pt m va + 8 * k))" "k < n \<Longrightarrow> \<not> reserved (m (leaf_entry pt m va + 8 * k))"
  using assms unfolding free_window_def by blast+

lemma vp_entries_leaf:
  assumes "sv39 (as_pt as)" "entry + d \<le> 512" "n = count + d" "pte \<noteq> 0"
    "\<forall>k < d. \<not> pte_valid (mm_mem s (pte + 8 * k)) \<and> \<not> reserved (mm_mem s (pte + 8 * k))"
  shows "\<exists>l a. vp_entries e as n fixd 2 entry pte count addr vpage s =
    Some (l, n, a, if count = 0 \<and> 0 < d then addr else vpage, False, s)"
  using assms(2-5)
proof (induction d arbitrary: entry count pte addr vpage)
  case 0
  then show ?case by (subst vp_entries.simps) simp
next
  case (Suc d)
  let ?v = "if count = 0 then addr else vpage"
  have p: "PAGE_SIZE div PAGE_SIZE = 1" using PAGE_SIZE_pos by simp
  have free: "\<not> pte_valid (mm_mem s pte)" "\<not> pte_check_rsw (mm_mem s pte) PTE_RSW_RSRV"
    using Suc.prems(4) [rule_format, of 0] by (simp_all add: reserved_def)
  then have nt: "\<not> pte_table (mm_mem s pte)" using pte_table_valid by blast
  have step: "vp_entries e as n fixd 2 entry pte count addr vpage s =
      (if 512 \<le> entry + 1 then Some (0, count + 1, addr + PAGE_SIZE, ?v, False, s)
       else vp_entries e as n fixd 2 (entry + 1) (pte + 8) (count + 1) (addr + PAGE_SIZE) ?v s)"
    by (subst vp_entries.simps)
      (use Suc.prems(1-3) free nt in \<open>simp add: sv39_leaf [OF assms(1)] sv39_lvls [OF assms(1)] p pte_allocable_def\<close>)
  show ?case
  proof (cases "512 \<le> entry + 1")
    case True
    then show ?thesis using step Suc.prems(1,2) by simp
  next
    case False
    have "\<forall>k < d. \<not> pte_valid (mm_mem s (pte + 8 + 8 * k)) \<and> \<not> reserved (mm_mem s (pte + 8 + 8 * k))"
      using Suc.prems(4) by (metis Suc_less_eq add.assoc mult_Suc_right)
    then show ?thesis
      using Suc.IH [of "entry + 1" "count + 1" "pte + 8" "addr + PAGE_SIZE" ?v] Suc.prems(1,2) False step by auto
  qed
qed

lemma vp_entries_table:
  assumes "pte_table (mm_mem s pte)" "\<not> reserved (mm_mem s pte)" "pte \<noteq> 0" "entry < pt_nentries (as_pt as) l" "count < n"
  shows "vp_entries e as n fixd l entry pte count addr vpage s = Some (l + 1, count, addr, vpage, False, s)"
  using assms pte_table_valid [OF assms(1)] by (subst vp_entries.simps) (simp add: reserved_def Let_def)

lemma index_lt: "sv39 pt \<Longrightarrow> l < 3 \<Longrightarrow> pt_getpteindex pt p l < pt_nentries pt l"
proof -
  assume "sv39 pt" "l < 3"
  then have "0 < pt_nentries pt l"
    by (auto simp: sv39_def sv39_pt_dscr_def sv39x4_pt_dscr_def pt_nentries_def less_Suc_eq numeral_3_eq_3)
  then show "pt_getpteindex pt p l < pt_nentries pt l"
    using mod_less_divisor [of "pt_size pt l" p] by (simp add: pt_getpteindex_def pt_size_def less_mult_imp_div_less)
qed

definition taken :: "u64 \<Rightarrow> bool" where
  "taken w \<longleftrightarrow> \<not> pte_table w \<and> (reserved w \<or> pte_valid w)"

text \<open>
  The state of a section whose first page is \<open>va\<close>: its first \<open>j\<close> pages are taken, the next \<open>n\<close> are free, all of them in one
  last-level table.
\<close>

definition alloc_window :: "page_table \<Rightarrow> ptmem \<Rightarrow> nat \<Rightarrow> nat \<Rightarrow> nat \<Rightarrow> bool" where
  "alloc_window pt m va j n \<longleftrightarrow>
     leaf_window pt m va (j + n) \<and> free_window pt m (va + j * PAGE_SIZE) n \<and>
     (\<forall>k < j. taken (m (leaf_entry pt m va + 8 * k)))"

lemma window_sub:
  assumes "leaf_window pt m va (j + n)" "0 < n"
  shows "leaf_entry pt m (va + j * PAGE_SIZE) = leaf_entry pt m va + 8 * j"
proof -
  have w: "va div PAGE_SIZE mod 512 + j < 512" using assms by (simp add: leaf_window_def)
  have "(va + j * PAGE_SIZE) div PAGE_SIZE = va div PAGE_SIZE + j" using PAGE_SIZE_pos by simp
  moreover have "va div PAGE_SIZE + j = 512 * (va div PAGE_SIZE div 512) + (va div PAGE_SIZE mod 512 + j)" by simp
  ultimately have "(va + j * PAGE_SIZE) div PAGE_SIZE mod 512 = va div PAGE_SIZE mod 512 + j" using w by (metis mod_mult_self4 mod_less)
  moreover have "leaf_table pt m (va + j * PAGE_SIZE) = leaf_table pt m va"
    using window_page(2) [OF assms(1), of j] assms(2) by (simp add: leaf_table_def)
  ultimately show ?thesis by (simp add: leaf_entry_def)
qed

lemma window_shift:
  assumes "leaf_window pt m va (j + n)" "0 < n"
  shows "leaf_window pt m (va + j * PAGE_SIZE) n"
proof -
  have w: "sv39 pt" "PAGE_SIZE dvd va" "va div PAGE_SIZE mod 512 + (j + n) \<le> 512" using assms(1) by (simp_all add: leaf_window_def)
  have j: "j < j + n" using assms(2) by simp
  note p = window_page [OF assms(1) j]
  have t: "leaf_table pt m (va + j * PAGE_SIZE) = leaf_table pt m va" using p(2) by (simp add: leaf_table_def)
  then have "(va + j * PAGE_SIZE) div PAGE_SIZE mod 512 = va div PAGE_SIZE mod 512 + j"
    using window_sub [OF assms] by (simp add: leaf_entry_def)
  moreover have i: "i < 2 \<longleftrightarrow> i = 0 \<or> i = 1" for i :: nat by auto
  ultimately show ?thesis
    using assms(1) w unfolding leaf_window_def tables_above_def i t
    by (simp del: entry_at.simps add: p(1,2) all_conj_distrib disj_imp [symmetric] conj_disj_distribR)
qed

lemma alloc_windowI:
  assumes "leaf_window pt m va (j + n)" "0 < n" "\<not> reserved (m (entry_at pt m va 0))" "\<not> reserved (m (entry_at pt m va 1))"
    "\<forall>k < j. taken (m (leaf_entry pt m va + 8 * k))"
    "\<forall>k < n. \<not> pte_valid (m (leaf_entry pt m va + 8 * (j + k))) \<and> \<not> reserved (m (leaf_entry pt m va + 8 * (j + k)))"
  shows "alloc_window pt m va j n"
proof -
  have j: "j < j + n" using assms(2) by simp
  show ?thesis
    using assms window_shift [OF assms(1,2)] window_sub [OF assms(1,2)] window_page(1,2) [OF assms(1) j]
    unfolding alloc_window_def free_window_def by (simp del: entry_at.simps add: add.assoc distrib_left)
qed

lemma vp_entries_busy:
  assumes "sv39 (as_pt as)" "entry + j < 512" "0 < n" "pte \<noteq> 0"
    "\<forall>k < j. taken (mm_mem s (pte + 8 * k))"
  shows "vp_entries e as n False 2 entry pte 0 addr 0 s = vp_entries e as n False 2 (entry + j) (pte + 8 * j) 0 (addr + j * PAGE_SIZE) 0 s"
  using assms(2,4,5)
proof (induction j arbitrary: entry pte addr)
  case 0
  then show ?case by simp
next
  case (Suc j)
  have "taken (mm_mem s pte)" using Suc.prems(3) [rule_format, of 0] by simp
  then have "vp_entries e as n False 2 entry pte 0 addr 0 s = vp_entries e as n False 2 (entry + 1) (pte + 8) 0 (addr + PAGE_SIZE) 0 s"
    using Suc.prems(1,2) assms(3) by (subst vp_entries.simps) (auto simp: sv39_leaf [OF assms(1)] reserved_def taken_def Let_def)
  moreover have "\<forall>k < j. taken (mm_mem s (pte + 8 + 8 * k))"
    using Suc.prems(3) by (metis Suc_less_eq add.assoc mult_Suc_right)
  ultimately show ?case using Suc.IH [of "entry + 1" "pte + 8" "addr + PAGE_SIZE"] Suc.prems(1,2) by (simp add: add.assoc Suc_eq_plus1_left distrib_right)
qed

lemma vp_search_leaf:
  assumes "alloc_window (as_pt as) (mm_mem s) va j n" "0 < n" "n \<le> sub64 ((tp + 1) mod 2 ^ 64) va div PAGE_SIZE"
    "fixd \<longrightarrow> j = 0"
  shows "vp_search e as n fixd tp 0 0 va 0 s = Some (va + j * PAGE_SIZE, False, s)"
proof -
  let ?m = "mm_mem s" and ?pt = "as_pt as" and ?i = "va div PAGE_SIZE mod 512"
  have aw: "leaf_window ?pt ?m va (j + n)" "free_window ?pt ?m (va + j * PAGE_SIZE) n" "\<forall>k < j. taken (?m (leaf_entry ?pt ?m va + 8 * k))"
    using assms(1) by (simp_all add: alloc_window_def)
  note f = free_windowD [OF aw(2)]
  have w: "sv39 ?pt" "?i + j + n \<le> 512" using aw(1) by (simp_all add: leaf_window_def add.assoc)
  have jn: "0 < j + n" "j < j + n" using assms(2) by simp_all
  note g = window_get [OF aw(1) jn(1), unfolded mult_0 mult_0_right add_0_right]
  note nz = window_entry_nz [OF aw(1)] window_entries(3) [OF aw(1) jn(1), unfolded mult_0_right add_0_right]
  have up: "\<not> reserved (?m (entry_at ?pt ?m va 0))" "\<not> reserved (?m (entry_at ?pt ?m va 1))"
    using f(2,3) window_page(1,2) [OF aw(1) jn(2)] by simp_all
  have one: "vp_search e as n fixd tp l 0 va 0 s =
      Option.bind (vp_entries e as n fixd l (pt_getpteindex ?pt (pt_get_pte ?pt ?m l va) l) (pt_get_pte ?pt ?m l va) 0 va 0 s)
        (\<lambda>(lvl, count, addr, vpage, failed, s). if failed then Some (vpage, True, s) else vp_search e as n fixd tp lvl count addr vpage s)"
    for l
    by (subst vp_search.simps) (use assms(2,3) in \<open>simp add: Let_def\<close>)
  have s0: "vp_search e as n fixd tp 0 0 va 0 s = vp_search e as n fixd tp 1 0 va 0 s"
    using g(4) up(1) nz(1) vp_entries_table [OF _ _ _ index_lt [OF w(1)] assms(2)] by (subst one) (simp del: entry_at.simps add: g(1))
  have s1: "vp_search e as n fixd tp 1 0 va 0 s = vp_search e as n fixd tp 2 0 va 0 s"
    using g(5) up(2) nz(2) vp_entries_table [OF _ _ _ index_lt [OF w(1)] assms(2)] by (subst one) (simp del: entry_at.simps add: g(2))
  have "vp_entries e as n fixd 2 ?i (leaf_entry ?pt ?m va) 0 va 0 s =
      vp_entries e as n fixd 2 (?i + j) (leaf_entry ?pt ?m va + 8 * j) 0 (va + j * PAGE_SIZE) 0 s"
    using vp_entries_busy [OF w(1), of ?i j n "leaf_entry ?pt ?m va" s] w(2) assms(2,4) nz(3) aw(3) by (cases fixd) simp_all
  moreover have "\<exists>l a. vp_entries e as n fixd 2 (?i + j) (leaf_entry ?pt ?m va + 8 * j) 0 (va + j * PAGE_SIZE) 0 s =
      Some (l, n, a, va + j * PAGE_SIZE, False, s)"
    using vp_entries_leaf [OF w, of n 0 "leaf_entry ?pt ?m va + 8 * j" s e fixd "va + j * PAGE_SIZE" 0] nz(3) f(4,5) assms(2)
      window_sub [OF aw(1) assms(2)] by auto
  ultimately obtain l a where "vp_search e as n fixd tp 2 0 va 0 s = vp_search e as n fixd tp l n a (va + j * PAGE_SIZE) s"
    using one [of 2] g(3) window_entries(4) [OF aw(1) jn(1)] by auto
  also have "\<dots> = Some (va + j * PAGE_SIZE, False, s)" by (subst vp_search.simps) simp
  finally show ?thesis using s0 s1 by simp
qed

lemma first_invalid_leaf:
  assumes "leaf_window pt m va n" "k < n" "\<not> pte_valid (m (leaf_entry pt m va + 8 * k))"
  shows "first_invalid pt m (va + k * PAGE_SIZE) = Some 2"
proof -
  have w: "sv39 pt" using assms(1) by (simp add: leaf_window_def)
  note g = window_get [OF assms(1,2)]
  have l: "[0..<3] = [0, 1, 2 :: nat]" by (simp add: upt_rec)
  show ?thesis
    using g(1-3) g(4,5) [THEN pte_table_valid] assms(3)
    by (simp del: entry_at.simps add: first_invalid_def sv39_lvls [OF w] l)
qed

lemma vp_reserve_leaf:
  assumes "leaf_window (as_pt as) (mm_mem s) va n" "n = c + d"
    "\<forall>k < d. \<not> pte_valid (mm_mem s (leaf_entry (as_pt as) (mm_mem s) va + 8 * (c + k)))"
  shows "vp_reserve as n c (va + c * PAGE_SIZE) s =
    Some (s\<lparr>mm_mem := put (mm_mem s) (leaf_entry (as_pt as) (mm_mem s) va + 8 * c) d
      (\<lambda>k. pte_set_rsw (mm_mem s (leaf_entry (as_pt as) (mm_mem s) va + 8 * (c + k))) PTE_RSW_RSRV)\<rparr>)"
  using assms
proof (induction d arbitrary: c s)
  case 0
  then show ?case by (subst vp_reserve.simps) simp
next
  case (Suc d)
  let ?m = "mm_mem s" and ?pt = "as_pt as"
  let ?le = "leaf_entry ?pt ?m va"
  let ?f = "\<lambda>k. pte_set_rsw (?m (?le + 8 * (c + k))) PTE_RSW_RSRV"
  let ?s = "write_pte (?le + 8 * c) (?f 0) s"
  have w: "sv39 ?pt" using Suc.prems(1) by (simp add: leaf_window_def)
  have c: "c < n" using Suc.prems(2) by simp
  have inv: "\<not> pte_valid (?m (?le + 8 * c))" using Suc.prems(3) [rule_format, of 0] by simp
  have p: "PAGE_SIZE div PAGE_SIZE = 1" using PAGE_SIZE_pos by simp
  note we = window_entries [OF Suc.prems(1) c]
  have "vp_reserve as n c (va + c * PAGE_SIZE) s = vp_reserve as n (c + 1) (va + c * PAGE_SIZE + PAGE_SIZE) ?s"
    using first_invalid_leaf [OF Suc.prems(1) c inv] window_get(3) [OF Suc.prems(1) c] we(3) c
    by (subst vp_reserve.simps) (auto simp: sv39_leaf [OF w] p Let_def)
  moreover have "va + c * PAGE_SIZE + PAGE_SIZE = va + (c + 1) * PAGE_SIZE" by (simp add: distrib_right)
  moreover have u: "leaf_window ?pt (mm_mem ?s) va n" "leaf_entry ?pt (mm_mem ?s) va = ?le"
    using window_upd(4,5) [OF Suc.prems(1), of "mm_mem ?s"] we(1,2) by (auto simp: write_pte_def)
  have old: "mm_mem ?s (?le + 8 * (c + 1 + k)) = ?m (?le + 8 * (c + Suc k))" for k by (simp add: write_pte_def add_ac)
  have "\<forall>k < d. \<not> pte_valid (mm_mem ?s (leaf_entry ?pt (mm_mem ?s) va + 8 * (c + 1 + k)))"
    using Suc.prems(3) unfolding u(2) old by (metis Suc_less_eq)
  with Suc.IH [OF u(1), of "c + 1"] Suc.prems(2) have
    "vp_reserve as n (c + 1) (va + (c + 1) * PAGE_SIZE) ?s =
       Some (?s\<lparr>mm_mem := put (mm_mem ?s) (?le + 8 * c + 8) d (\<lambda>k. ?f (Suc k))\<rparr>)"
    unfolding u(2) old by (simp add: add.assoc)
  ultimately show ?case using put_Suc [of ?m "?le + 8 * c" ?f d] by (simp add: write_pte_def)
qed

lemma mem_alloc_vpage_leaf:
  assumes "alloc_window (as_pt as) (mm_mem s) va j n" "0 < n" "sections e (as_type as) ! sec = sc" "sec_beg sc = va" "va \<noteq> 0"
    "n \<le> sub64 ((sec_end sc + 1) mod 2 ^ 64) va div PAGE_SIZE" "b = va + j * PAGE_SIZE"
  shows "mem_alloc_vpage e as sec 0 n s =
    Some (b, s\<lparr>mm_mem := put (mm_mem s) (leaf_entry (as_pt as) (mm_mem s) b) n
      (\<lambda>k. pte_set_rsw (mm_mem s (leaf_entry (as_pt as) (mm_mem s) b + 8 * k)) PTE_RSW_RSRV)\<rparr>)"
proof -
  have "free_window (as_pt as) (mm_mem s) b n" "leaf_window (as_pt as) (mm_mem s) va (j + n)"
    using assms(1,7) by (simp_all add: alloc_window_def)
  note f = free_windowD [OF this(1)] and l = this(2)
  have "va div PAGE_SIZE * PAGE_SIZE = va" using l by (simp add: leaf_window_def)
  then show ?thesis
    using vp_search_leaf [OF assms(1,2,6), of False] vp_reserve_leaf [OF f(1), of 0 n] f(4) assms(3-5,7)
    by (simp add: mem_alloc_vpage_def Let_def)
qed

lemma mem_alloc_vpage_at:
  assumes "free_window (as_pt as) (mm_mem s) va n" "0 < n" "mem_find_sec e as va = Some sec" "sections e (as_type as) ! sec = sc" "va \<noteq> 0"
    "n \<le> sub64 ((sec_end sc + 1) mod 2 ^ 64) va div PAGE_SIZE"
  shows "mem_alloc_vpage e as sec va n s =
    Some (va, s\<lparr>mm_mem := put (mm_mem s) (leaf_entry (as_pt as) (mm_mem s) va) n
      (\<lambda>k. pte_set_rsw (mm_mem s (leaf_entry (as_pt as) (mm_mem s) va + 8 * k)) PTE_RSW_RSRV)\<rparr>)"
proof -
  note f = free_windowD [OF assms(1)]
  have "alloc_window (as_pt as) (mm_mem s) va 0 n" using assms(1) f(1) by (simp add: alloc_window_def)
  moreover have "va div PAGE_SIZE * PAGE_SIZE = va" using f(1) by (simp add: leaf_window_def)
  ultimately show ?thesis
    using vp_search_leaf [of as s va 0 n "sec_end sc" True e] vp_reserve_leaf [OF f(1), of 0 n] f(4) assms(2-6)
    by (simp add: mem_alloc_vpage_def Let_def)
qed

lemma mem_map_reserved:
  assumes "free_window (as_pt as) (mm_mem s) va n" "0 < n" "PAGE_SIZE dvd pg_base pp" "all_clrs (env_cc e) (pg_colors pp)"
    "mem_find_sec e as va = Some sec" "mem_find_sec e as (va + n * PAGE_SIZE - 1) = Some sec" "va + n * PAGE_SIZE < 2 ^ 64"
    "le = leaf_entry (as_pt as) (mm_mem s) va"
  shows "mem_map e as va (Some pp) n flags (s\<lparr>mm_mem := put (mm_mem s) le n (\<lambda>k. pte_set_rsw (mm_mem s (le + 8 * k)) PTE_RSW_RSRV)\<rparr>) =
    Some (0, s\<lparr>mm_mem := put (mm_mem s) le n (page_entries (pg_base pp) flags)\<rparr>)"
proof -
  let ?m1 = "put (mm_mem s) le n (\<lambda>k. pte_set_rsw (mm_mem s (le + 8 * k)) PTE_RSW_RSRV)"
  note f = free_windowD [OF assms(1)]
  have win: "leaf_window (as_pt as) ?m1 va n" "leaf_entry (as_pt as) ?m1 va = le" using window_put [OF f(1)] assms(8) by simp_all
  have "\<not> pte_valid (?m1 (le + 8 * k))" if "k < n" for k
    using that f(4) assms(8) by (simp add: pte_valid_bit pte_set_rsw_bit)
  then show ?thesis
    using mem_map_leaf [of as "s\<lparr>mm_mem := ?m1\<rparr>" va n pp e sec flags] win assms(2-7) by (simp add: put_put)
qed

lemma mem_alloc_page_leaf:
  assumes "mem_alloc_ppages (env_cc e) (as_colors cas) n al (mm_pools s) = Some (pp, pools)" "pg_size pp = n" "0 < n"
    "all_clrs (env_cc e) (pg_colors pp)" "PAGE_SIZE dvd pg_base pp"
    "sections e (as_type cas) ! sec = sc" "sec_beg sc = va" "va \<noteq> 0" "n \<le> sub64 ((sec_end sc + 1) mod 2 ^ 64) va div PAGE_SIZE"
    "b = va + j * PAGE_SIZE"
    "mem_find_sec e cas b = Some sec" "mem_find_sec e cas (b + n * PAGE_SIZE - 1) = Some sec" "b + n * PAGE_SIZE < 2 ^ 64"
    "alloc_window (as_pt cas) (mm_mem s) va j n"
  shows "mem_alloc_page e cas n sec al s =
    Some (b, s\<lparr>mm_pools := pools, mm_mem := put (mm_mem s) (leaf_entry (as_pt cas) (mm_mem s) b) n (page_entries (pg_base pp) PTE_HYP_FLAGS)\<rparr>)"
proof -
  let ?le = "leaf_entry (as_pt cas) (mm_mem s) b"
  let ?m1 = "put (mm_mem s) ?le n (\<lambda>k. pte_set_rsw (mm_mem s (?le + 8 * k)) PTE_RSW_RSRV)"
  let ?s1 = "s\<lparr>mm_pools := pools, mm_mem := ?m1\<rparr>"
  have fw: "free_window (as_pt cas) (mm_mem s) b n" using assms(10,14) by (simp add: alloc_window_def)
  have "mem_alloc_vpage e cas sec 0 n (s\<lparr>mm_pools := pools\<rparr>) = Some (b, ?s1)"
    using mem_alloc_vpage_leaf [of cas "s\<lparr>mm_pools := pools\<rparr>" va j n e sec sc b] assms(3,6-10,14) by simp
  moreover have "mem_map e cas b (Some pp) n PTE_HYP_FLAGS ?s1 =
      Some (0, s\<lparr>mm_pools := pools, mm_mem := put (mm_mem s) ?le n (page_entries (pg_base pp) PTE_HYP_FLAGS)\<rparr>)"
    using mem_map_reserved [of cas "s\<lparr>mm_pools := pools\<rparr>" b n pp e sec ?le PTE_HYP_FLAGS] fw assms(3-5,11-13) by simp
  ultimately show ?thesis using assms(1,2,7,8,10) by (simp add: mem_alloc_page_def)
qed

text \<open>
  \<^verbatim>\<open>mem_alloc_page\<close>: when the allocator has \<open>n\<close> contiguous pages, the first \<open>j\<close> pages of the section are taken, the next \<open>n\<close> are
  free and all of these lie in one last-level table, the call returns the address \<open>b\<close> of the first free page, every
  address of the \<open>n\<close> pages there translates to the corresponding address of the pages taken, and these were
  free before and are in use now.
\<close>

theorem mem_alloc_page_maps:
  assumes "mem_alloc_ppages (env_cc e) (as_colors cas) n al (mm_pools s) = Some (pp, pools)" "pg_size pp = n" "0 < n"
    "contiguous_request (env_cc e) (as_colors cas) al" "pools_wf (mm_pools s)" "pg_base pp + n * PAGE_SIZE \<le> 2 ^ 56"
    "sections e (as_type cas) ! sec = sc" "sec_beg sc = va" "va \<noteq> 0" "n \<le> sub64 ((sec_end sc + 1) mod 2 ^ 64) va div PAGE_SIZE"
    "b = va + j * PAGE_SIZE"
    "mem_find_sec e cas b = Some sec" "mem_find_sec e cas (b + n * PAGE_SIZE - 1) = Some sec" "b + n * PAGE_SIZE < 2 ^ 64"
    "alloc_window (as_pt cas) (mm_mem s) va j n"
  shows "\<exists>s'. mem_alloc_page e cas n sec al s = Some (b, s') \<and>
    (\<forall>a. b \<le> a \<longrightarrow> a < b + n * PAGE_SIZE \<longrightarrow> mem_translate (as_pt cas) (mm_mem s') a = Some (pg_base pp + (a - b))) \<and>
    page_frames pp \<inter> used_frames (mm_pools s) = {} \<and> used_frames (mm_pools s') = used_frames (mm_pools s) \<union> page_frames pp"
proof -
  have "free_window (as_pt cas) (mm_mem s) b n" using assms(11,15) by (simp add: alloc_window_def)
  note f = free_windowD [OF this]
  have pp: "pg_colors pp = 0" "PAGE_SIZE dvd pg_base pp" "page_frames pp \<inter> used_frames (mm_pools s) = {}"
    "used_frames pools = used_frames (mm_pools s) \<union> page_frames pp"
    using alloc_in_pools_contiguous [OF assms(4,5) _ assms(1) [unfolded mem_alloc_ppages_def]] assms(2,3) by auto
  then have "all_clrs (env_cc e) (pg_colors pp)" by (simp add: all_clrs_def)
  from mem_alloc_page_leaf [OF assms(1-3) this pp(2) assms(7-15)] show ?thesis
    using put_translates [OF f(1) _ _ pp(2) assms(6), of _ PTE_HYP_FLAGS] pp(3,4) by (auto simp: PTE_HYP_FLAGS_def)
qed

subsection \<open>An example\<close>

text \<open>The tables of \<open>mem3\<close>, a section that starts at \<^verbatim>\<open>0x5000\<close> and a pool of eight pages at \<^verbatim>\<open>0x8000\<close>.\<close>

definition env3 :: mem_env where
  "env3 = \<lparr>env_cc = color_cfg_init, hyp_secs = [\<lparr>sec_beg = 0x5000, sec_end = 0xffff, sec_shared = False\<rparr>]\<rparr>"

definition as3 :: addr_space where
  "as3 = \<lparr>as_pt = pt3, as_type = AS_HYP, as_colors = 0, as_id = 0\<rparr>"

definition mm3 :: mm where
  "mm3 = \<lparr>mm_mem = mem3, mm_pools = [pool8], mm_tlb = []\<rparr>"

lemma mem3_entries:
  assumes "sv39 pt" "pt_root pt = 0x1000"
  shows "entry_at pt mem3 0x5000 0 = 0x1000" "entry_at pt mem3 0x5000 1 = 0x2000" "leaf_table pt mem3 0x5000 = 0x3000"
    "leaf_entry pt mem3 0x5000 = 0x3028"
proof -
  note ix = sv39_index [OF assms(1), of "0x5000" 5] and ev = mem3_def PAGE_SIZE_def pte_addr_set PTE_TABLE_def
  show e0: "entry_at pt mem3 0x5000 0 = 0x1000" using ix assms(2) by (simp add: PAGE_SIZE_def)
  have "entry_at pt mem3 0x5000 (Suc 0) = 0x2000"
    unfolding entry_at.simps(2) e0 using ix by (simp add: ev One_nat_def)
  then show e1: "entry_at pt mem3 0x5000 1 = 0x2000" by (simp only: One_nat_def)
  show t: "leaf_table pt mem3 0x5000 = 0x3000" unfolding leaf_table_def e1 by (simp add: ev)
  show "leaf_entry pt mem3 0x5000 = 0x3028" unfolding leaf_entry_def t by (simp add: PAGE_SIZE_def)
qed

lemma table_not_reserved: "\<not> reserved (pte_set a PTE_TABLE PTE_HYP_FLAGS)"
  using reserved_bit [of "pte_set a PTE_TABLE PTE_HYP_FLAGS"] pte_set_bit [of PTE_TABLE a PTE_HYP_FLAGS 8]
  by (auto simp: PTE_TABLE_def)

lemma zero_free: "\<not> pte_valid 0" "\<not> reserved 0"
  using reserved_bit [of 0] by (auto simp: pte_valid_bit)

lemma mem3_free:
  assumes "sv39 pt" "pt_root pt = 0x1000" "n \<le> 8"
  shows "free_window pt mem3 0x5000 n"
proof -
  have i: "i < 2 \<longleftrightarrow> i = 0 \<or> i = 1" for i :: nat by auto
  have m: "mem3 0x1000 = pte_set 0x2000 PTE_TABLE PTE_HYP_FLAGS" "mem3 0x2000 = pte_set 0x3000 PTE_TABLE PTE_HYP_FLAGS"
    "mem3 (0x3028 + 8 * k) = 0" for k by (simp_all add: mem3_def)
  note e = mem3_entries [OF assms(1,2)]
  have "\<forall>i < 2. pte_table (mem3 (entry_at pt mem3 0x5000 i))" unfolding i using e m pte_table_set(1) by auto
  then have "leaf_window pt mem3 0x5000 n"
    unfolding leaf_window_def tables_above_def i using e assms by (simp add: PAGE_SIZE_def del: entry_at.simps)
  then show ?thesis
    unfolding free_window_def e m using table_not_reserved zero_free by simp
qed

lemma pt3_sv39: "sv39 pt3" "pt_root pt3 = 0x1000"
  by (simp_all add: sv39_def pt3_def)

lemma mem3_alloc: "alloc_window pt3 mem3 0x5000 0 2"
  using mem3_free [OF pt3_sv39, of 2] free_windowD(1) [of pt3 mem3 "0x5000" 2] by (simp add: alloc_window_def numeral_2_eq_2)

lemma mem3_sections: "5 * PAGE_SIZE \<le> a \<Longrightarrow> a < 0x10000 \<Longrightarrow> mem_find_sec env3 as3 a = Some 0"
  by (simp add: mem_find_sec_def env3_def as3_def sections_def PAGE_SIZE_def)

theorem mem_map_translates_witness:
  "\<exists>s'. mem_map env3 as3 0x5000 (Some (mem_ppages_get 0x80004000 2)) 2 PTE_HYP_FLAGS mm3 = Some (0, s') \<and>
     mem_translate pt3 (mm_mem s') 0x6123 = Some 0x80005123"
proof -
  note f = free_windowD [OF mem3_free [OF pt3_sv39, of 2, simplified]]
  have "\<exists>s'. mem_map env3 as3 0x5000 (Some (mem_ppages_get 0x80004000 2)) 2 PTE_HYP_FLAGS mm3 = Some (0, s') \<and>
    (\<forall>a. 0x5000 \<le> a \<longrightarrow> a < 0x5000 + 2 * PAGE_SIZE \<longrightarrow>
       mem_translate (as_pt as3) (mm_mem s') a = Some (pg_base (mem_ppages_get 0x80004000 2) + (a - 0x5000))) \<and>
    (\<forall>p. (\<forall>k < 2. p \<noteq> pt_get_pte (as_pt as3) (mm_mem mm3) 2 (0x5000 + k * PAGE_SIZE)) \<longrightarrow> mm_mem s' p = mm_mem mm3 p) \<and>
    mm_pools s' = mm_pools mm3"
    by (rule mem_map_translates [where sec = 0])
      (use f(1,4) in \<open>simp_all add: as3_def mm3_def\<close>, simp_all add: mem_ppages_get_def PAGE_SIZE_def all_clrs_def PTE_HYP_FLAGS_def
        mem3_sections [unfolded as3_def PAGE_SIZE_def])
  then show ?thesis by (force simp: as3_def mem_ppages_get_def PAGE_SIZE_def)
qed

theorem mem_alloc_page_maps_witness:
  "\<exists>s'. mem_alloc_page env3 as3 2 0 False mm3 = Some (0x5000, s') \<and> mem_translate pt3 (mm_mem s') 0x6123 = Some 0x9123"
proof -
  let ?r = "mem_alloc_ppages color_cfg_init 0 2 False [pool8]"
  have r: "?r \<noteq> None" "fst (the ?r) = mem_ppages_get 0x8000 2" by code_simp+
  then obtain pools where a: "?r = Some (mem_ppages_get 0x8000 2, pools)" by (cases ?r) (auto simp: prod_eq_iff)
  have "\<exists>s'. mem_alloc_page env3 as3 2 0 False mm3 = Some (0x5000, s') \<and>
    (\<forall>a. 0x5000 \<le> a \<longrightarrow> a < 0x5000 + 2 * PAGE_SIZE \<longrightarrow>
       mem_translate (as_pt as3) (mm_mem s') a = Some (pg_base (mem_ppages_get 0x8000 2) + (a - 0x5000))) \<and>
    page_frames (mem_ppages_get 0x8000 2) \<inter> used_frames (mm_pools mm3) = {} \<and>
    used_frames (mm_pools s') = used_frames (mm_pools mm3) \<union> page_frames (mem_ppages_get 0x8000 2)"
    by (rule mem_alloc_page_maps [where j = 0 and sc = "\<lparr>sec_beg = 0x5000, sec_end = 0xffff, sec_shared = False\<rparr>"])
      (use a mem3_alloc pool8_wf in \<open>simp_all add: as3_def mm3_def env3_def\<close>,
       simp_all add: mem_ppages_get_def PAGE_SIZE_def all_clrs_def contiguous_request_def sections_def
        mem3_sections [unfolded as3_def env3_def PAGE_SIZE_def] sub64_def)
  then show ?thesis by (force simp: as3_def mem_ppages_get_def PAGE_SIZE_def)
qed

definition seg2 :: ppages where
  "seg2 = \<lparr>pg_base = 0x8000, pg_size = 2, pg_colors = 0b10\<rparr>"

theorem mem_map_coloured_witness:
  "\<exists>s'. mem_map (env3\<lparr>env_cc := cc2\<rparr>) as3 0x5000 (Some seg2) 2 PTE_HYP_FLAGS mm3 = Some (0, s') \<and>
     mem_translate pt3 (mm_mem s') 0x6123 = Some 0xb123"
proof -
  let ?e = "env3\<lparr>env_cc := cc2\<rparr>"
  have c: "some_clr cc2 0b10" unfolding some_clr_def cc2_def
    by (intro conjI exI [of _ 1]) (simp_all add: bit_numeral_rec One_nat_def)
  have xs: "clr_list cc2 0x8000 0b10 2 0 = [1, 3]" by code_simp
  have al: "\<not> all_clrs cc2 0b10" by code_simp
  have sec: "mem_find_sec ?e as3 a = Some 0" if "0x5000 \<le> a" "a < 0x10000" for a
    using mem3_sections [of a] that by (simp add: mem_find_sec_def sections_def as3_def PAGE_SIZE_def)
  have "\<exists>s'. mem_map ?e as3 0x5000 (Some seg2) 2 PTE_HYP_FLAGS mm3 = Some (0, s') \<and>
    (let xs = clr_list (env_cc ?e) (pg_base seg2) (pg_colors seg2) 2 0 in
     distinct xs \<and> length xs = 2 \<and>
     (\<forall>a. 0x5000 \<le> a \<longrightarrow> a < 0x5000 + 2 * PAGE_SIZE \<longrightarrow>
        (let f = pg_base seg2 + xs ! ((a - 0x5000) div PAGE_SIZE) * PAGE_SIZE in
         mem_translate (as_pt as3) (mm_mem s') a = Some (f + (a - 0x5000) mod PAGE_SIZE) \<and> bit (pg_colors seg2) (frame_clr (env_cc ?e) f))))"
    using free_windowD(1) [OF mem3_free [OF pt3_sv39, of 2, simplified]] c al xs sec
    by (intro mem_map_coloured [where sec = 0])
      (simp_all add: seg2_def as3_def mm3_def PTE_HYP_FLAGS_def cc2_def PAGE_SIZE_def)
  then obtain s' where s': "mem_map ?e as3 0x5000 (Some seg2) 2 PTE_HYP_FLAGS mm3 = Some (0, s')"
    "\<forall>a. 0x5000 \<le> a \<longrightarrow> a < 0x5000 + 2 * PAGE_SIZE \<longrightarrow>
       mem_translate pt3 (mm_mem s') a = Some (0x8000 + [1, 3] ! ((a - 0x5000) div PAGE_SIZE) * PAGE_SIZE + (a - 0x5000) mod PAGE_SIZE)"
    using xs by (auto simp: Let_def seg2_def as3_def)
  then show ?thesis using s'(2) [rule_format, of "0x6123"] by (auto simp: PAGE_SIZE_def)
qed

end
