(* ===== verification/Cpu_Sync.thy ===== *)
theory Cpu_Sync
  imports Prelude
begin

text \<open>
  The barrier of \<^verbatim>\<open>core/inc/cpu.h\<close>: \<^verbatim>\<open>cpu_sync_init\<close> and \<^verbatim>\<open>cpu_sync_barrier\<close> on a \<^verbatim>\<open>cpu_synctoken_t\<close>. The
  increment of the counter and the computation of the value to wait for are one critical section;
  the two busy-waiting loops are transitions that are possible when their condition is false. The
  counter is a natural number: it would take \<open>2 ^ 64\<close> arrivals to wrap around.
\<close>

record cpu_synctoken =
  tk_n :: nat
  tk_ready :: bool
  tk_count :: nat

definition cpu_sync_init :: "nat \<Rightarrow> cpu_synctoken" where
  "cpu_sync_init n = \<lparr>tk_n = n, tk_ready = True, tk_count = 0\<rparr>"

text \<open>The critical section of \<^verbatim>\<open>cpu_sync_barrier\<close>: the new token and \<^verbatim>\<open>next_count\<close>.\<close>

definition sync_arrive :: "cpu_synctoken \<Rightarrow> cpu_synctoken \<times> nat" where
  "sync_arrive tk =
     (let tk = tk\<lparr>tk_count := tk_count tk + 1\<rparr>
      in (tk, ALIGN (tk_count tk) (tk_n tk)))"

definition sync_released :: "cpu_synctoken \<Rightarrow> nat \<Rightarrow> bool" where
  "sync_released tk next_count \<longleftrightarrow> \<not> tk_count tk < next_count"

text \<open>
  A CPU is outside the barrier or waits for the counter; \<open>entered\<close> and \<open>left\<close> count how often it has
  come and gone.
\<close>

record sync_state =
  token :: cpu_synctoken
  waits :: "nat \<Rightarrow> nat option"
  entered :: "nat \<Rightarrow> nat"
  left :: "nat \<Rightarrow> nat"

definition sync_start :: sync_state where
  "sync_start = \<lparr>token = \<lparr>tk_n = 0, tk_ready = False, tk_count = 0\<rparr>,
     waits = (\<lambda>_. None), entered = (\<lambda>_. 0), left = (\<lambda>_. 0)\<rparr>"

inductive sync_step :: "nat \<Rightarrow> sync_state \<Rightarrow> sync_state \<Rightarrow> bool" for n where
  init: "\<not> tk_ready (token s) \<Longrightarrow> sync_step n s (s\<lparr>token := cpu_sync_init n\<rparr>)"
| enter: "i < n \<Longrightarrow> waits s i = None \<Longrightarrow> tk_ready (token s) \<Longrightarrow> sync_arrive (token s) = (tk, w) \<Longrightarrow>
    sync_step n s (s\<lparr>token := tk, waits := (waits s)(i := Some w), entered := (entered s)(i := entered s i + 1)\<rparr>)"
| leave: "i < n \<Longrightarrow> waits s i = Some w \<Longrightarrow> sync_released (token s) w \<Longrightarrow>
    sync_step n s (s\<lparr>waits := (waits s)(i := None), left := (left s)(i := left s i + 1)\<rparr>)"

inductive sync_reach :: "nat \<Rightarrow> sync_state \<Rightarrow> bool" for n where
  start: "sync_reach n sync_start"
| step: "sync_reach n s \<Longrightarrow> sync_step n s t \<Longrightarrow> sync_reach n t"

text \<open>
  In round \<open>q\<close> every CPU has entered \<open>q\<close> or \<open>q + 1\<close> times and not all of them \<open>q + 1\<close> times; the
  counter is the number of arrivals, and a waiting CPU waits for the end of the round it entered.
\<close>

definition early :: "nat \<Rightarrow> nat \<Rightarrow> sync_state \<Rightarrow> nat set" where
  "early n q s = {i. i < n \<and> entered s i = q + 1}"

definition cpu_ok :: "nat \<Rightarrow> sync_state \<Rightarrow> nat \<Rightarrow> bool" where
  "cpu_ok n s i \<longleftrightarrow> left s i * n \<le> tk_count (token s) \<and>
     (case waits s i of None \<Rightarrow> entered s i = left s i
      | Some w \<Rightarrow> entered s i = left s i + 1 \<and> w = entered s i * n)"

definition sync_inv :: "nat \<Rightarrow> nat \<Rightarrow> sync_state \<Rightarrow> bool" where
  "sync_inv n q s \<longleftrightarrow>
     (\<forall>i < n. entered s i = q \<or> entered s i = q + 1) \<and>
     tk_count (token s) = q * n + card (early n q s) \<and> card (early n q s) < n \<and>
     (tk_ready (token s) \<longrightarrow> tk_n (token s) = n) \<and> (\<not> tk_ready (token s) \<longrightarrow> tk_count (token s) = 0) \<and>
     (\<forall>i < n. cpu_ok n s i)"

lemma finite_early [simp]: "finite (early n q s)"
  by (simp add: early_def)

lemma ALIGN_round:
  assumes "0 < c" "c \<le> n"
  shows "ALIGN (q * n + c) n = (q + 1) * n"
proof -
  have n: "0 < n" using assms by linarith
  have "q * n + c + n - 1 = (c - 1) + (q + 1) * n" using assms(1) by (simp add: algebra_simps)
  then have "(q * n + c + n - 1) div n = (c - 1) div n + (q + 1)"
    using n by (metis add.commute div_mult_self1 neq0_conv)
  also have "(c - 1) div n = 0" using assms by simp
  finally show ?thesis by (simp add: ALIGN_def)
qed

lemma sync_inv_start: "0 < n \<Longrightarrow> sync_inv n 0 sync_start"
  by (simp add: sync_inv_def sync_start_def early_def cpu_ok_def)

lemma sync_inv_enter:
  assumes "sync_inv n q s" "i < n" "waits s i = None" "tk_ready (token s)" "sync_arrive (token s) = (tk, w)"
  defines "t \<equiv> s\<lparr>token := tk, waits := (waits s)(i := Some w), entered := (entered s)(i := entered s i + 1)\<rparr>"
  shows "sync_inv n q t \<or> sync_inv n (q + 1) t"
proof -
  let ?c = "card (early n q s)"
  have e: "entered s i = left s i" "left s i * n \<le> q * n + ?c" and c: "?c < n"
    using assms(1-3) by (auto simp: sync_inv_def cpu_ok_def)
  have q: "entered s i = q"
  proof (rule ccontr)
    assume "entered s i \<noteq> q"
    then have "left s i = q + 1" using assms(1,2) e(1) by (auto simp: sync_inv_def)
    then show False using e(2) c by (simp add: add_mult_distrib)
  qed
  have i: "i \<notin> early n q s" using q by (simp add: early_def)
  have E: "early n q t = insert i (early n q s)" using q assms(2) by (auto simp: early_def t_def)
  then have cE: "card (early n q t) = ?c + 1" using i by simp
  have tk: "tk = (token s)\<lparr>tk_count := q * n + (?c + 1)\<rparr>" "w = (q + 1) * n"
    using assms(1,4,5) ALIGN_round [of "?c + 1" n q] c by (auto simp: sync_inv_def sync_arrive_def Let_def add.assoc)
  have ok: "\<forall>j < n. cpu_ok n t j"
    using assms(1,2,3) tk q e c by (auto simp: sync_inv_def cpu_ok_def t_def fun_upd_def split: option.splits)
  show ?thesis
  proof (cases "?c + 1 = n")
    case False
    then have "sync_inv n q t"
      using assms(1,4) cE c tk ok q by (auto simp: sync_inv_def t_def)
    then show ?thesis ..
  next
    case True
    have "early n q t = {..<n}"
      using cE True card_subset_eq [of "{..<n}" "early n q t"] by (auto simp: early_def)
    then have all: "\<forall>j < n. entered t j = q + 1" by (auto simp: early_def)
    then have "early n (q + 1) t = {}" by (auto simp: early_def)
    then have "sync_inv n (q + 1) t"
      using assms(1,4) tk ok all c True by (auto simp: sync_inv_def t_def algebra_simps)
    then show ?thesis ..
  qed
qed

lemma sync_inv_step:
  assumes "sync_inv n q s" "sync_step n s t"
  shows "\<exists>q'. sync_inv n q' t"
  using assms(2)
proof cases
  case init
  then have "sync_inv n q t"
    using assms(1) by (auto simp: sync_inv_def cpu_ok_def cpu_sync_init_def early_def split: option.splits)
  then show ?thesis ..
next
  case (enter i tk w)
  then show ?thesis using sync_inv_enter [OF assms(1) enter(2-5)] by blast
next
  case (leave i w)
  then have "sync_inv n q t"
    using assms(1) by (auto simp: sync_inv_def cpu_ok_def sync_released_def early_def split: option.splits)
  then show ?thesis ..
qed

lemma sync_inv_reach: "sync_reach n s \<Longrightarrow> 0 < n \<Longrightarrow> \<exists>q. sync_inv n q s"
  by (induction rule: sync_reach.induct) (blast intro: sync_inv_start sync_inv_step)+

subsection \<open>Properties\<close>

text \<open>
  C29: Barrier safety: a CPU that has left the barrier \<open>k\<close> times has done so only after every one of
  the \<open>n\<close> CPUs had entered it \<open>k\<close> times, for every interleaving of arrivals and departures and also
  when fast CPUs re-enter the barrier while slow ones have not left it yet.
\<close>

theorem cpu_sync_barrier_safe:
  assumes "sync_reach n s" "i < n" "j < n"
  shows "left s i \<le> entered s j"
proof -
  obtain q where q: "sync_inv n q s" using sync_inv_reach [OF assms(1)] assms(2) by auto
  have "left s i * n \<le> q * n + card (early n q s)" "card (early n q s) < n"
    using q assms(2) by (auto simp: sync_inv_def cpu_ok_def)
  then have "left s i * n < (q + 1) * n" by (simp add: add_mult_distrib)
  then have "left s i \<le> q" by simp
  then show ?thesis using q assms(3) by (auto simp: sync_inv_def)
qed

theorem cpu_sync_barrier_safe_witness:
  "\<exists>s. sync_reach 1 s \<and> left s 0 = 1 \<and> left s 0 \<le> entered s 0"
proof -
  let ?a = "sync_start\<lparr>token := cpu_sync_init 1\<rparr>"
  let ?b = "?a\<lparr>token := fst (sync_arrive (token ?a)),
    waits := (waits ?a)(0 := Some (snd (sync_arrive (token ?a)))), entered := (entered ?a)(0 := entered ?a 0 + 1)\<rparr>"
  let ?c = "?b\<lparr>waits := (waits ?b)(0 := None), left := (left ?b)(0 := left ?b 0 + 1)\<rparr>"
  have a: "sync_reach 1 ?a" by (rule sync_reach.step [OF sync_reach.start sync_step.init]) (simp add: sync_start_def)
  have b: "sync_reach 1 ?b"
    by (rule sync_reach.step [OF a sync_step.enter]) (simp_all add: sync_start_def cpu_sync_init_def)
  have c: "sync_reach 1 ?c"
    by (rule sync_reach.step [OF b sync_step.leave [where w = 1]])
      (simp_all add: sync_start_def cpu_sync_init_def sync_arrive_def sync_released_def ALIGN_def One_nat_def)
  then show ?thesis using cpu_sync_barrier_safe [OF c, of 0 0]
    by (intro exI [of _ ?c]) (simp add: sync_start_def)
qed

text \<open>
  C30: A waiting CPU is released exactly when every CPU has entered the barrier at least as often as
  itself; in particular, of CPUs that all wait, those with the fewest entries are released, so that
  the barrier cannot deadlock.
\<close>

theorem cpu_sync_barrier_release:
  assumes "sync_reach n s" "i < n" "waits s i = Some w"
  shows "sync_released (token s) w \<longleftrightarrow> (\<forall>j < n. entered s i \<le> entered s j)"
proof -
  obtain q where q: "sync_inv n q s" using sync_inv_reach [OF assms(1)] assms(2) by auto
  let ?c = "card (early n q s)"
  have e: "\<forall>j < n. entered s j = q \<or> entered s j = q + 1" and ok: "cpu_ok n s i"
    using q assms(2) by (simp_all add: sync_inv_def)
  have "tk_count (token s) = q * n + ?c" "?c < n" using q unfolding sync_inv_def by blast+
  moreover have "w = entered s i * n" using ok assms(3) by (simp add: cpu_ok_def)
  ultimately have w: "w = entered s i * n" "tk_count (token s) = q * n + ?c" "?c < n" by blast+
  have "early n q s \<noteq> {..<n}" using w(3) by (metis card_lessThan less_irrefl)
  then obtain j where "j < n" "j \<notin> early n q s" by (auto simp: early_def)
  with e have j: "j < n" "entered s j = q" by (auto simp: early_def)
  show ?thesis
  proof (cases "entered s i = q")
    case True
    then show ?thesis using w e by (auto simp: sync_released_def)
  next
    case False
    then have "entered s i = q + 1" using e assms(2) by blast
    moreover from this have "\<not> sync_released (token s) w" using w by (simp add: sync_released_def add_mult_distrib)
    ultimately show ?thesis using j by auto
  qed
qed

theorem cpu_sync_barrier_release_witness:
  "\<exists>s w. sync_reach 1 s \<and> waits s 0 = Some w \<and> sync_released (token s) w"
proof -
  let ?a = "sync_start\<lparr>token := cpu_sync_init 1\<rparr>"
  let ?b = "?a\<lparr>token := fst (sync_arrive (token ?a)),
    waits := (waits ?a)(0 := Some (snd (sync_arrive (token ?a)))), entered := (entered ?a)(0 := entered ?a 0 + 1)\<rparr>"
  have a: "sync_reach 1 ?a" by (rule sync_reach.step [OF sync_reach.start sync_step.init]) (simp add: sync_start_def)
  have b: "sync_reach 1 ?b"
    by (rule sync_reach.step [OF a sync_step.enter]) (simp_all add: sync_start_def cpu_sync_init_def)
  show ?thesis using cpu_sync_barrier_release [OF b, of 0] b
    by (intro exI [of _ ?b] exI [of _ "snd (sync_arrive (token ?a))"]) simp
qed

end
