(* ===== verification/Vmm_Assign.thy ===== *)
theory Vmm_Assign
  imports Vm_Cpus Config
begin

text \<open>
  Assignment of physical CPUs to VMs, the two loops of \<^verbatim>\<open>vmm_init\<close> in \<^verbatim>\<open>core/vmm.c\<close>. All CPUs run the loops
  concurrently; the body for one VM is a critical section under that VM's lock, and a barrier
  separates the loop by affinity from the loop for the remaining CPUs. A step of the model is one
  critical section of one CPU.
\<close>

record vm_assignment =
  va_master :: bool
  va_ncpus :: nat
  va_cpus :: u64

text \<open>A critical section returns the assignment and, if the CPU was taken, whether it is master.\<close>

definition assign_take :: "nat \<Rightarrow> vm_assignment \<Rightarrow> vm_assignment" where
  "assign_take cpu_id a =
     a\<lparr>va_master := True, va_ncpus := va_ncpus a + 1, va_cpus := va_cpus a OR push_bit cpu_id 1\<rparr>"

definition assign_affinity :: "vm_config \<Rightarrow> nat \<Rightarrow> vm_assignment \<Rightarrow> vm_assignment \<times> bool option" where
  "assign_affinity c cpu_id a =
     (if vc_cpu_affinity c AND push_bit cpu_id 1 \<noteq> 0 then
        if \<not> va_master a then (assign_take cpu_id a, Some True)
        else if va_ncpus a < plat_cpu_num (vc_platform c) then (assign_take cpu_id a, Some False)
        else (a, None)
      else (a, None))"

definition assign_remaining :: "vm_config \<Rightarrow> nat \<Rightarrow> vm_assignment \<Rightarrow> vm_assignment \<times> bool option" where
  "assign_remaining c cpu_id a =
     (if va_ncpus a < plat_cpu_num (vc_platform c) then
        if \<not> va_master a then (assign_take cpu_id a, Some True) else (assign_take cpu_id a, Some False)
      else (a, None))"

datatype phase = Affinity nat | Barrier | Remaining nat | Done

record vmm_state =
  assign :: "nat \<Rightarrow> vm_assignment"
  phase :: "nat \<Rightarrow> phase"
  got :: "nat \<Rightarrow> nat option"
  lead :: "nat \<Rightarrow> bool"

definition vmm_start :: vmm_state where
  "vmm_start = \<lparr>assign = (\<lambda>_. \<lparr>va_master = False, va_ncpus = 0, va_cpus = 0\<rparr>), phase = (\<lambda>_. Affinity 0),
     got = (\<lambda>_. None), lead = (\<lambda>_. False)\<rparr>"

definition vmm_visit :: "nat \<Rightarrow> nat \<Rightarrow> vm_assignment \<times> bool option \<Rightarrow> phase \<Rightarrow> vmm_state \<Rightarrow> vmm_state" where
  "vmm_visit c i r p s =
     (let s = s\<lparr>assign := (assign s)(i := fst r), phase := (phase s)(c := p)\<rparr>
      in case snd r of
           None \<Rightarrow> s
         | Some m \<Rightarrow> s\<lparr>got := (got s)(c := Some i), lead := (lead s)(c := m)\<rparr>)"

inductive vmm_step :: "vm_config list \<Rightarrow> nat \<Rightarrow> vmm_state \<Rightarrow> vmm_state \<Rightarrow> bool" for cfgs n where
  affinity: "c < n \<Longrightarrow> phase s c = Affinity i \<Longrightarrow> i < length cfgs \<Longrightarrow> got s c = None \<Longrightarrow>
    vmm_step cfgs n s (vmm_visit c i (assign_affinity (cfgs ! i) c (assign s i)) (Affinity (i + 1)) s)"
| affinity_end: "c < n \<Longrightarrow> phase s c = Affinity i \<Longrightarrow> i \<ge> length cfgs \<or> got s c \<noteq> None \<Longrightarrow>
    vmm_step cfgs n s (s\<lparr>phase := (phase s)(c := Barrier)\<rparr>)"
| barrier: "c < n \<Longrightarrow> phase s c = Barrier \<Longrightarrow> \<forall>d < n. \<forall>i. phase s d \<noteq> Affinity i \<Longrightarrow>
    vmm_step cfgs n s (s\<lparr>phase := (phase s)(c := Remaining 0)\<rparr>)"
| remaining: "c < n \<Longrightarrow> phase s c = Remaining i \<Longrightarrow> i < length cfgs \<Longrightarrow> got s c = None \<Longrightarrow>
    vmm_step cfgs n s (vmm_visit c i (assign_remaining (cfgs ! i) c (assign s i)) (Remaining (i + 1)) s)"
| remaining_end: "c < n \<Longrightarrow> phase s c = Remaining i \<Longrightarrow> i \<ge> length cfgs \<or> got s c \<noteq> None \<Longrightarrow>
    vmm_step cfgs n s (s\<lparr>phase := (phase s)(c := Done)\<rparr>)"

inductive vmm_reach :: "vm_config list \<Rightarrow> nat \<Rightarrow> vmm_state \<Rightarrow> bool" for cfgs n where
  start: "vmm_reach cfgs n vmm_start"
| step: "vmm_reach cfgs n s \<Longrightarrow> vmm_step cfgs n s t \<Longrightarrow> vmm_reach cfgs n t"

subsection \<open>The invariant\<close>

definition members :: "nat \<Rightarrow> vmm_state \<Rightarrow> nat \<Rightarrow> nat set" where
  "members n s i = {c. c < n \<and> got s c = Some i}"

definition vm_ok :: "vm_config list \<Rightarrow> nat \<Rightarrow> vmm_state \<Rightarrow> nat \<Rightarrow> bool" where
  "vm_ok cfgs n s i \<longleftrightarrow>
     (\<forall>c. bit (va_cpus (assign s i)) c \<longleftrightarrow> c \<in> members n s i) \<and>
     va_ncpus (assign s i) = card (members n s i) \<and>
     va_ncpus (assign s i) \<le> max 1 (plat_cpu_num (vc_platform (cfgs ! i))) \<and>
     (va_master (assign s i) \<longleftrightarrow> members n s i \<noteq> {}) \<and>
     (members n s i \<noteq> {} \<longrightarrow> (\<exists>!c. c \<in> members n s i \<and> lead s c))"

definition cpu_phase_ok :: "vm_config list \<Rightarrow> vmm_state \<Rightarrow> nat \<Rightarrow> bool" where
  "cpu_phase_ok cfgs s c \<longleftrightarrow> got s c = None \<longrightarrow>
     (case phase s c of
        Remaining i \<Rightarrow> \<forall>j < i. j < length cfgs \<longrightarrow> plat_cpu_num (vc_platform (cfgs ! j)) \<le> va_ncpus (assign s j)
      | Done \<Rightarrow> \<forall>j < length cfgs. plat_cpu_num (vc_platform (cfgs ! j)) \<le> va_ncpus (assign s j)
      | _ \<Rightarrow> True)"

definition vmm_inv :: "vm_config list \<Rightarrow> nat \<Rightarrow> vmm_state \<Rightarrow> bool" where
  "vmm_inv cfgs n s \<longleftrightarrow> (\<forall>i < length cfgs. vm_ok cfgs n s i) \<and> (\<forall>c < n. cpu_phase_ok cfgs s c) \<and>
     (\<forall>c i. got s c = Some i \<longrightarrow> i < length cfgs)"

lemma vmm_inv_start: "vmm_inv cfgs n vmm_start"
  by (simp add: vmm_inv_def vm_ok_def vmm_start_def members_def cpu_phase_ok_def)

lemma vm_ok_take:
  assumes "vm_ok cfgs n s i" "c < n" "n \<le> 64" "got s c = None"
    "va_master (assign s i) \<longrightarrow> va_ncpus (assign s i) < plat_cpu_num (vc_platform (cfgs ! i))"
  shows "vm_ok cfgs n (vmm_visit c i (assign_take c (assign s i), Some (\<not> va_master (assign s i))) p s) i"
proof -
  let ?t = "vmm_visit c i (assign_take c (assign s i), Some (\<not> va_master (assign s i))) p s"
  have M: "members n ?t i = insert c (members n s i)"
    using assms(2) by (auto simp: members_def vmm_visit_def)
  have c: "c \<notin> members n s i" using assms(4) by (simp add: members_def)
  have fin: "finite (members n s i)" by (simp add: members_def)
  have "bit (va_cpus (assign ?t i)) x \<longleftrightarrow> x \<in> members n ?t i" for x
    using assms(1-3) unfolding M by (auto simp: vm_ok_def vmm_visit_def assign_take_def bit_simps bit_1_iff)
  moreover have "va_ncpus (assign ?t i) = card (members n ?t i)"
    using assms(1) c fin unfolding M by (simp add: vm_ok_def vmm_visit_def assign_take_def)
  moreover have "va_ncpus (assign ?t i) \<le> max 1 (plat_cpu_num (vc_platform (cfgs ! i)))"
    using assms(1,5) by (auto simp: vm_ok_def vmm_visit_def assign_take_def)
  moreover have "va_master (assign ?t i) \<longleftrightarrow> members n ?t i \<noteq> {}"
    unfolding M by (simp add: vmm_visit_def assign_take_def)
  moreover have "\<exists>!x. x \<in> members n ?t i \<and> lead ?t x"
  proof (cases "members n s i = {}")
    case True
    then show ?thesis using assms(1) unfolding M by (auto simp: vm_ok_def vmm_visit_def)
  next
    case False
    then have "va_master (assign s i)" "\<exists>!x. x \<in> members n s i \<and> lead s x" using assms(1) by (auto simp: vm_ok_def)
    then show ?thesis using c unfolding M by (auto simp: vmm_visit_def)
  qed
  ultimately show ?thesis by (simp add: vm_ok_def)
qed

lemma vm_ok_other:
  assumes "vm_ok cfgs n s j" "members n t j = members n s j" "assign t j = assign s j"
    "\<forall>x \<in> members n s j. lead t x = lead s x"
  shows "vm_ok cfgs n t j"
proof -
  have "(\<exists>!x. x \<in> members n s j \<and> lead t x) \<longleftrightarrow> (\<exists>!x. x \<in> members n s j \<and> lead s x)"
    using assms(4) by metis
  then show ?thesis using assms(1-3) by (simp add: vm_ok_def)
qed

lemma cpu_phase_ok_mono:
  assumes "cpu_phase_ok cfgs s c" "got t c = None \<Longrightarrow> got s c = None" "phase t c = phase s c"
    "\<forall>j. va_ncpus (assign s j) \<le> va_ncpus (assign t j)"
  shows "cpu_phase_ok cfgs t c"
  using assms by (auto simp: cpu_phase_ok_def split: phase.splits intro: order_trans)

lemma vmm_inv_take:
  assumes "vmm_inv cfgs n s" "c < n" "n \<le> 64" "i < length cfgs" "got s c = None"
    "va_master (assign s i) \<longrightarrow> va_ncpus (assign s i) < plat_cpu_num (vc_platform (cfgs ! i))"
  shows "vmm_inv cfgs n (vmm_visit c i (assign_take c (assign s i), Some (\<not> va_master (assign s i))) p s)"
proof -
  let ?t = "vmm_visit c i (assign_take c (assign s i), Some (\<not> va_master (assign s i))) p s"
  have inv: "\<forall>i < length cfgs. vm_ok cfgs n s i" "\<forall>c < n. cpu_phase_ok cfgs s c"
    "\<forall>c i. got s c = Some i \<longrightarrow> i < length cfgs" using assms(1) by (auto simp: vmm_inv_def)
  have "vm_ok cfgs n ?t j" if "j < length cfgs" for j
  proof (cases "j = i")
    case True
    then show ?thesis using vm_ok_take [OF _ assms(2,3,5,6)] inv(1) assms(4) by simp
  next
    case False
    have "members n ?t j = members n s j" using False assms(5) by (auto simp: members_def vmm_visit_def)
    moreover have "\<forall>x \<in> members n s j. lead ?t x = lead s x" using assms(5) by (auto simp: members_def vmm_visit_def)
    ultimately show ?thesis using vm_ok_other [of cfgs n s j ?t] inv(1) that False by (simp add: vmm_visit_def)
  qed
  moreover have "cpu_phase_ok cfgs ?t d" if "d < n" for d
  proof (cases "d = c")
    case True
    then show ?thesis by (simp add: cpu_phase_ok_def vmm_visit_def)
  next
    case False
    then show ?thesis using cpu_phase_ok_mono [of cfgs s d ?t] inv(2) that
      by (simp add: vmm_visit_def assign_take_def)
  qed
  moreover have "\<forall>d j. got ?t d = Some j \<longrightarrow> j < length cfgs" using inv(3) assms(4) by (auto simp: vmm_visit_def)
  ultimately show ?thesis by (simp add: vmm_inv_def)
qed

lemma vmm_inv_phase:
  assumes "vmm_inv cfgs n s" "cpu_phase_ok cfgs (s\<lparr>phase := (phase s)(c := p)\<rparr>) c"
  shows "vmm_inv cfgs n (s\<lparr>phase := (phase s)(c := p)\<rparr>)"
proof -
  let ?t = "s\<lparr>phase := (phase s)(c := p)\<rparr>"
  have "vm_ok cfgs n ?t i" if "i < length cfgs" for i
    using vm_ok_other [of cfgs n s i ?t] assms(1) that by (simp add: vmm_inv_def members_def)
  moreover have "cpu_phase_ok cfgs ?t d" if "d < n" for d
    using cpu_phase_ok_mono [of cfgs s d ?t] assms that by (cases "d = c") (auto simp: vmm_inv_def)
  ultimately show ?thesis using assms(1) by (simp add: vmm_inv_def)
qed

lemma visit_none: "vmm_visit c i (assign s i, None) p s = s\<lparr>phase := (phase s)(c := p)\<rparr>"
  by (simp add: vmm_visit_def)

lemma assign_affinity_cases:
  "assign_affinity c k a = (a, None) \<or>
   assign_affinity c k a = (assign_take k a, Some (\<not> va_master a)) \<and>
   (va_master a \<longrightarrow> va_ncpus a < plat_cpu_num (vc_platform c))"
  by (auto simp: assign_affinity_def)

lemma assign_remaining_cases:
  "assign_remaining c k a = (a, None) \<and> plat_cpu_num (vc_platform c) \<le> va_ncpus a \<or>
   assign_remaining c k a = (assign_take k a, Some (\<not> va_master a)) \<and> va_ncpus a < plat_cpu_num (vc_platform c)"
  by (auto simp: assign_remaining_def)

lemma vmm_inv_step:
  assumes "vmm_inv cfgs n s" "n \<le> 64" "vmm_step cfgs n s t"
  shows "vmm_inv cfgs n t"
  using assms(3)
proof cases
  case (affinity c i)
  let ?r = "assign_affinity (cfgs ! i) c (assign s i)"
  consider "?r = (assign s i, None)"
    | "?r = (assign_take c (assign s i), Some (\<not> va_master (assign s i)))"
      "va_master (assign s i) \<longrightarrow> va_ncpus (assign s i) < plat_cpu_num (vc_platform (cfgs ! i))"
    using assign_affinity_cases [of "cfgs ! i" c "assign s i"] by blast
  then show ?thesis
  proof cases
    case 1
    then show ?thesis using vmm_inv_phase [OF assms(1)] by (simp add: affinity(1) visit_none cpu_phase_ok_def)
  next
    case 2
    then show ?thesis using vmm_inv_take [OF assms(1) affinity(2) assms(2) affinity(4,5)] by (simp add: affinity(1))
  qed
next
  case (affinity_end c i)
  then show ?thesis using vmm_inv_phase [OF assms(1)] by (simp add: cpu_phase_ok_def)
next
  case (barrier c)
  then show ?thesis using vmm_inv_phase [OF assms(1)] by (simp add: cpu_phase_ok_def)
next
  case (remaining c i)
  let ?r = "assign_remaining (cfgs ! i) c (assign s i)"
  have ok: "cpu_phase_ok cfgs s c" using assms(1) remaining(2) by (simp add: vmm_inv_def)
  consider "?r = (assign s i, None)" "plat_cpu_num (vc_platform (cfgs ! i)) \<le> va_ncpus (assign s i)"
    | "?r = (assign_take c (assign s i), Some (\<not> va_master (assign s i)))"
      "va_ncpus (assign s i) < plat_cpu_num (vc_platform (cfgs ! i))"
    using assign_remaining_cases [of "cfgs ! i" c "assign s i"] by blast
  then show ?thesis
  proof cases
    case 1
    have "cpu_phase_ok cfgs (s\<lparr>phase := (phase s)(c := Remaining (i + 1))\<rparr>) c"
      using ok 1(2) remaining(3) by (auto simp: cpu_phase_ok_def less_Suc_eq simp flip: Suc_eq_plus1)
    then show ?thesis using vmm_inv_phase [OF assms(1)] 1(1) by (simp add: remaining(1) visit_none)
  next
    case 2
    then show ?thesis using vmm_inv_take [OF assms(1) remaining(2) assms(2) remaining(4,5)] by (simp add: remaining(1))
  qed
next
  case (remaining_end c i)
  have "cpu_phase_ok cfgs s c" using assms(1) remaining_end(2) by (simp add: vmm_inv_def)
  then have "cpu_phase_ok cfgs (s\<lparr>phase := (phase s)(c := Done)\<rparr>) c"
    using remaining_end(3,4) by (auto simp: cpu_phase_ok_def)
  then show ?thesis using vmm_inv_phase [OF assms(1)] by (simp add: remaining_end(1))
qed

lemma vmm_inv_reach: "vmm_reach cfgs n s \<Longrightarrow> n \<le> 64 \<Longrightarrow> vmm_inv cfgs n s"
  by (induction rule: vmm_reach.induct) (auto intro: vmm_inv_start vmm_inv_step)

subsection \<open>Running a schedule\<close>

definition vmm_exec :: "vm_config list \<Rightarrow> nat \<Rightarrow> vmm_state \<Rightarrow> nat \<Rightarrow> vmm_state" where
  "vmm_exec cfgs n s c =
     (case phase s c of
        Affinity i \<Rightarrow>
          if i < length cfgs \<and> got s c = None
          then vmm_visit c i (assign_affinity (cfgs ! i) c (assign s i)) (Affinity (i + 1)) s
          else s\<lparr>phase := (phase s)(c := Barrier)\<rparr>
      | Barrier \<Rightarrow>
          if list_all (\<lambda>d. case phase s d of Affinity i \<Rightarrow> False | _ \<Rightarrow> True) [0..<n]
          then s\<lparr>phase := (phase s)(c := Remaining 0)\<rparr> else s
      | Remaining i \<Rightarrow>
          if i < length cfgs \<and> got s c = None
          then vmm_visit c i (assign_remaining (cfgs ! i) c (assign s i)) (Remaining (i + 1)) s
          else s\<lparr>phase := (phase s)(c := Done)\<rparr>
      | Done \<Rightarrow> s)"

definition vmm_run :: "vm_config list \<Rightarrow> nat \<Rightarrow> nat list \<Rightarrow> vmm_state" where
  "vmm_run cfgs n sched = foldl (vmm_exec cfgs n) vmm_start sched"

lemma vmm_exec_step: "c < n \<Longrightarrow> vmm_exec cfgs n s c = s \<or> vmm_step cfgs n s (vmm_exec cfgs n s c)"
  by (cases "phase s c")
    (auto simp: vmm_exec_def list_all_iff split: phase.splits intro: vmm_step.intros intro!: vmm_step.barrier)

lemma vmm_run_reach: "\<forall>c \<in> set sched. c < n \<Longrightarrow> vmm_reach cfgs n (vmm_run cfgs n sched)"
proof (induction sched rule: rev_induct)
  case Nil
  then show ?case by (simp add: vmm_run_def vmm_reach.start)
next
  case (snoc c sched)
  then have "vmm_reach cfgs n (vmm_run cfgs n sched)" "c < n" by simp_all
  moreover have "vmm_run cfgs n (sched @ [c]) = vmm_exec cfgs n (vmm_run cfgs n sched) c" by (simp add: vmm_run_def)
  ultimately show ?case using vmm_exec_step by (metis vmm_reach.step)
qed

text \<open>One VM with one CPU and affinity to CPU 0.\<close>

definition two_cpus :: "vm_config list" where
  "two_cpus = [\<lparr>img_base_addr = 0, img_load_addr = 0, img_size = 0, vc_entry = 0, vc_cpu_affinity = 1, vc_colors = 0,
     vc_platform = \<lparr>plat_cpu_num = 1, plat_regions = [], plat_ipcs = [], plat_devs = [], plat_plic_base = 0\<rparr>\<rparr>]"

subsection \<open>Properties\<close>

text \<open>
  C5: CPU partitioning: in every state reachable by any interleaving of the CPUs, the mask, the
  counter and the master flag of a VM describe exactly the CPUs that consider themselves assigned
  to it; no CPU is in the masks of two VMs; no VM has more CPUs than its configuration asks for (but
  at least one is always allowed); and a VM with CPUs has exactly one master among them.
\<close>

theorem vmm_assignment_partition:
  assumes "vmm_reach cfgs n s" "n \<le> 64" "i < length cfgs"
  defines "a \<equiv> assign s i"
  shows "(\<forall>c. bit (va_cpus a) c \<longleftrightarrow> c < n \<and> got s c = Some i) \<and>
    va_ncpus a = card {c. bit (va_cpus a) c} \<and>
    va_ncpus a \<le> max 1 (plat_cpu_num (vc_platform (cfgs ! i))) \<and>
    (\<forall>j < length cfgs. j \<noteq> i \<longrightarrow> va_cpus a AND va_cpus (assign s j) = 0) \<and>
    (va_master a \<longleftrightarrow> va_cpus a \<noteq> 0) \<and>
    (va_cpus a \<noteq> 0 \<longrightarrow> (\<exists>!c. bit (va_cpus a) c \<and> lead s c))"
proof -
  have ok: "vm_ok cfgs n s j" if "j < length cfgs" for j
    using vmm_inv_reach [OF assms(1,2)] that by (simp add: vmm_inv_def)
  have bits: "bit (va_cpus (assign s j)) c \<longleftrightarrow> c \<in> members n s j" if "j < length cfgs" for j c
    using ok [OF that] by (simp add: vm_ok_def)
  have M: "members n s i = {c. bit (va_cpus a) c}" using bits [OF assms(3)] by (auto simp: a_def)
  have nz: "va_cpus a \<noteq> 0 \<longleftrightarrow> members n s i \<noteq> {}"
    unfolding M using word_bit_exists [of "va_cpus a"] by auto
  have "va_cpus a AND va_cpus (assign s j) = 0" if "j < length cfgs" "j \<noteq> i" for j
    by (rule bit_word_eqI) (use bits [OF assms(3)] bits [OF that(1)] that(2) in \<open>auto simp: a_def bit_and_iff members_def\<close>)
  moreover have "\<forall>c. bit (va_cpus a) c \<longleftrightarrow> c < n \<and> got s c = Some i"
    using bits [OF assms(3)] by (simp add: a_def members_def)
  ultimately show ?thesis
    using ok [OF assms(3)] nz unfolding M by (simp add: vm_ok_def a_def [symmetric] M)
qed

theorem vmm_assignment_partition_witness:
  "va_cpus (assign (vmm_run two_cpus 2 [0, 1, 1]) 0) = 0b01 \<and> va_master (assign (vmm_run two_cpus 2 [0, 1, 1]) 0)"
proof -
  let ?s = "vmm_run two_cpus 2 [0, 1, 1]"
  have "va_cpus (assign ?s 0) = 0b01" by code_simp
  moreover have "vmm_reach two_cpus 2 ?s" by (rule vmm_run_reach) simp
  ultimately show ?thesis using vmm_assignment_partition [of two_cpus 2 ?s 0] by (simp add: two_cpus_def)
qed

text \<open>
  C31: No CPU is left idle while a VM lacks CPUs: a CPU that ends the assignment without a VM has
  seen every VM provided with at least as many CPUs as its configuration asks for.
\<close>

theorem vmm_assignment_complete:
  assumes "vmm_reach cfgs n s" "n \<le> 64" "c < n" "phase s c = Done" "got s c = None" "i < length cfgs"
  shows "plat_cpu_num (vc_platform (cfgs ! i)) \<le> va_ncpus (assign s i)"
proof -
  have "cpu_phase_ok cfgs s c" using vmm_inv_reach [OF assms(1,2)] assms(3) by (simp add: vmm_inv_def)
  then show ?thesis using assms(4-6) by (simp add: cpu_phase_ok_def)
qed

theorem vmm_assignment_complete_witness:
  "phase (vmm_run two_cpus 2 [0, 1, 0, 1, 0, 1, 0, 1, 0, 1, 0, 1]) 1 = Done \<and>
   plat_cpu_num (vc_platform (two_cpus ! 0)) \<le> va_ncpus (assign (vmm_run two_cpus 2 [0, 1, 0, 1, 0, 1, 0, 1, 0, 1, 0, 1]) 0)"
proof -
  let ?s = "vmm_run two_cpus 2 [0, 1, 0, 1, 0, 1, 0, 1, 0, 1, 0, 1]"
  have "phase ?s 1 = Done" "got ?s 1 = None" by code_simp+
  moreover have "vmm_reach two_cpus 2 ?s" by (rule vmm_run_reach) simp
  ultimately show ?thesis using vmm_assignment_complete [of two_cpus 2 ?s 1 0] by (simp add: two_cpus_def)
qed

end
