(* ===== verification/Vm.thy ===== *)
theory Vm
  imports Sync_Exceptions Mem_Init Vm_Cpus Map_Props Cpu_Sync Ipc Vmm_Assign
begin

text \<open>
  Creation of a VM, \<^verbatim>\<open>core/vm.c\<close> with \<^verbatim>\<open>vm_arch_init\<close>, \<^verbatim>\<open>vplic_init\<close> and \<^verbatim>\<open>core/iommu.c\<close>. The record holds the VM structure
  and what its creation works on: the memory manager with the link words (inside \<open>vm_es\<close>), the interrupt
  tables and the control registers of each CPU. \<open>None\<close> is an \<^verbatim>\<open>ERROR\<close> or a faulting access. Sizes of
  structures and addresses of symbols are the record \<open>vm_env\<close>; \<open>ve_cas\<close> is the address space of each CPU.
\<close>

record vm_env =
  ve_mem :: mem_env
  ve_cas :: "nat \<Rightarrow> addr_space"
  ve_vcpu_size :: nat
  ve_emul_oc :: nat
  ve_dev_oc :: nat
  ve_plic_base :: nat
  ve_cntxt_num :: nat
  ve_plic_global :: nat
  ve_plic_hart :: nat
  ve_shmem :: "shmem list"
  ve_junk_pa :: nat

record vm =
  vm_master :: nat
  vm_cpu_num :: nat
  vm_id :: nat
  vm_sync :: cpu_synctoken
  vm_as :: addr_space
  vm_cpus :: u64
  vm_vcpus :: "vcpu list"
  vm_vplic :: vplic
  vm_ipcs :: "ipc list"
  vm_es :: emul_state
  vm_dev_oc :: objcache
  vm_dev_list :: list_t
  vm_dev_id :: "addr \<Rightarrow> u32"
  vm_irq :: irq_state
  vm_csr :: "nat \<Rightarrow> csrs"

definition vm_mm :: "vm \<Rightarrow> mm" where
  "vm_mm s = oc_mm (es_oc (vm_es s))"

definition set_vm_mm :: "mm \<Rightarrow> vm \<Rightarrow> vm" where
  "set_vm_mm m s = s\<lparr>vm_es := (vm_es s)\<lparr>es_oc := (es_oc (vm_es s))\<lparr>oc_mm := m\<rparr>\<rparr>\<rparr>"

definition EMUL_NODE_SIZE :: nat where "EMUL_NODE_SIZE = 56"
definition IOMMU_DEV_NODE_SIZE :: nat where "IOMMU_DEV_NODE_SIZE = 16"

subsection \<open>The VM structure and its virtual CPUs\<close>

definition vm_master_init :: "vm_env \<Rightarrow> nat \<Rightarrow> vm_config \<Rightarrow> nat \<Rightarrow> vm \<Rightarrow> vm option" where
  "vm_master_init v cpu config vmid s =
     (let n = plat_cpu_num (vc_platform config);
          s = s\<lparr>vm_master := cpu, vm_cpu_num := n, vm_id := vmid, vm_sync := cpu_sync_init n\<rparr>
      in do { (as, m) \<leftarrow> as_init (ve_mem v) (ve_cas v cpu) [] AS_VM vmid 0 (vc_colors config) (vm_mm s);
              let s = set_vm_mm m (s\<lparr>vm_as := as\<rparr>);
              let s = s\<lparr>vm_es := (vm_es s)\<lparr>es_list := list_init\<rparr>\<rparr>;
              (oc, st) \<leftarrow> objcache_init (ve_mem v) (ve_cas v cpu) (ve_emul_oc v) EMUL_NODE_SIZE SEC_HYP_VM False (es_oc (vm_es s));
              Some (s\<lparr>vm_es := (vm_es s)\<lparr>es_cache := oc, es_oc := st\<rparr>\<rparr>) })"

text \<open>The new virtual CPU; its structure has been cleared.\<close>

definition vcpu_create :: "vm \<Rightarrow> nat \<Rightarrow> u64 \<Rightarrow> vcpu \<times> csrs" where
  "vcpu_create s cpu entry =
     (let regs = \<lparr>r_x = (\<lambda>_. 0), r_hstatus = 0, r_sstatus = 0, r_sepc = 0\<rparr>;
          vcpu = \<lparr>vc_regs = regs, vc_hart_id = 0, vc_sbi_ctx = \<lparr>hsm_state = STARTED, hsm_start_addr = 0, hsm_priv = 0\<rparr>,
                  vc_id = 0, vc_phys_id = 0, vc_active = False\<rparr>;
          vcpu = vcpu\<lparr>vc_phys_id := cpu\<rparr>;
          vcpu = vcpu\<lparr>vc_id := vm_vcpu_id (vm_cpus s) (vm_cpu_num s) cpu\<rparr>;
          vcpu = vcpu_arch_init vcpu
      in vcpu_arch_reset vcpu entry (vm_csr s cpu))"

definition vm_vcpu_init :: "vm_env \<Rightarrow> nat \<Rightarrow> vm_config \<Rightarrow> vm \<Rightarrow> vm option" where
  "vm_vcpu_init v cpu config s =
     (let n = NUM_PAGES (ve_vcpu_size v) in
      do { (p, m) \<leftarrow> mem_alloc_page (ve_mem v) (ve_cas v cpu) n SEC_HYP_VM False (vm_mm s);
           if p = 0 then None
           else
             let s = set_vm_mm (zero_pages p n m) s;
                 (vcpu, c) = vcpu_create s cpu (vc_entry config)
             in Some (s\<lparr>vm_csr := (vm_csr s)(cpu := c), vm_vcpus := vm_vcpus s @ [vcpu]\<rparr>) })"

subsection \<open>Memory of the VM\<close>

text \<open>\<^verbatim>\<open>memcpy\<close> of whole pages between two ranges of the running CPU's address space.\<close>

primrec copy_pages :: "page_table \<Rightarrow> nat \<Rightarrow> nat \<Rightarrow> nat \<Rightarrow> mm \<Rightarrow> mm option" where
  "copy_pages pt dst src 0 s = Some s"
| "copy_pages pt dst src (Suc n) s =
     do { s \<leftarrow> copy_page pt dst src s; copy_pages pt (dst + PAGE_SIZE) (src + PAGE_SIZE) n s }"

definition vm_copy_img_to_rgn :: "vm_env \<Rightarrow> nat \<Rightarrow> vm_config \<Rightarrow> mem_region \<Rightarrow> vm \<Rightarrow> vm option" where
  "vm_copy_img_to_rgn v cpu config reg s =
     (let n_img = NUM_PAGES (img_size config);
          me = ve_mem v; cas = ve_cas v cpu;
          src_pa_img = mem_ppages_get (img_load_addr config) n_img
      in do { (src_va, m) \<leftarrow> mem_alloc_vpage me cas SEC_HYP_GLOBAL 0 n_img (vm_mm s);
              (r, m) \<leftarrow> mem_map me cas src_va (Some src_pa_img) n_img PTE_HYP_FLAGS m;
              if r \<noteq> 0 then None
              else
                let offset = sub64 (img_base_addr config) (mr_base reg);
                    dst_phys = (mr_phys reg + offset) mod 2 ^ 64;
                    dst_pp = mem_ppages_get dst_phys n_img
                in do { (dst_va, m) \<leftarrow> mem_alloc_vpage me cas SEC_HYP_GLOBAL 0 n_img m;
                        (r, m) \<leftarrow> mem_map me cas dst_va (Some dst_pp) n_img PTE_HYP_FLAGS m;
                        if r \<noteq> 0 then None
                        else do { m \<leftarrow> copy_pages (as_pt cas) dst_va src_va n_img m; Some (set_vm_mm m s) } } })"

definition vm_map_mem_region :: "vm_env \<Rightarrow> mem_region \<Rightarrow> vm \<Rightarrow> vm option" where
  "vm_map_mem_region v reg s =
     (let n = NUM_PAGES (mr_size reg) in
      do { (va, m) \<leftarrow> mem_alloc_vpage (ve_mem v) (vm_as s) SEC_VM_ANY (mr_base reg) n (vm_mm s);
           if va \<noteq> mr_base reg then None
           else do { (r, m) \<leftarrow> mem_map (ve_mem v) (vm_as s) va
                                (if mr_place_phys reg then Some (mem_ppages_get (mr_phys reg) n) else None) n PTE_VM_FLAGS m;
                     Some (set_vm_mm m s) } })"

definition vm_map_img_rgn_inplace :: "vm_env \<Rightarrow> nat \<Rightarrow> vm_config \<Rightarrow> mem_region \<Rightarrow> vm \<Rightarrow> vm option" where
  "vm_map_img_rgn_inplace v cpu config reg s =
     (let me = ve_mem v; as = vm_as s;
          n_before = sub64 (img_base_addr config) (mr_base reg) div PAGE_SIZE;
          n_aft = sub64 (mr_base reg + mr_size reg) (img_base_addr config + img_size config) div PAGE_SIZE;
          n_img = NUM_PAGES (img_size config);
          n_total = n_before + n_aft + n_img;
          pa_img = mem_ppages_get (img_load_addr config) n_img
      in do { (va, m) \<leftarrow> mem_alloc_vpage me as SEC_VM_ANY (mr_base reg) n_total (vm_mm s);
              (r, m) \<leftarrow> mem_map me as va None n_before PTE_VM_FLAGS m;
              (r, m) \<leftarrow>
                (if all_clrs (env_cc me) (as_colors as)
                 then mem_map me as (va + n_before * PAGE_SIZE) (Some pa_img) n_img PTE_VM_FLAGS m
                 else mem_map_reclr me (ve_cas v cpu) as (va + n_before * PAGE_SIZE) pa_img n_img PTE_VM_FLAGS m);
              (r, m) \<leftarrow> mem_map me as (va + (n_before + n_img) * PAGE_SIZE) None n_aft PTE_VM_FLAGS m;
              Some (set_vm_mm m s) })"

definition vm_map_img_rgn :: "vm_env \<Rightarrow> nat \<Rightarrow> vm_config \<Rightarrow> mem_region \<Rightarrow> vm \<Rightarrow> vm option" where
  "vm_map_img_rgn v cpu config reg s =
     (if mr_place_phys reg then Option.bind (vm_copy_img_to_rgn v cpu config reg s) (vm_map_mem_region v reg)
      else vm_map_img_rgn_inplace v cpu config reg s)"

fun init_regions :: "vm_env \<Rightarrow> nat \<Rightarrow> vm_config \<Rightarrow> mem_region list \<Rightarrow> vm \<Rightarrow> vm option" where
  "init_regions v cpu config [] s = Some s"
| "init_regions v cpu config (reg # regs) s =
     Option.bind
       (if range_in_range (img_base_addr config) (img_size config) (mr_base reg) (mr_size reg)
        then vm_map_img_rgn v cpu config reg s else vm_map_mem_region v reg s)
       (init_regions v cpu config regs)"

definition vm_init_mem_regions :: "vm_env \<Rightarrow> nat \<Rightarrow> vm_config \<Rightarrow> vm \<Rightarrow> vm option" where
  "vm_init_mem_regions v cpu config s = init_regions v cpu config (plat_regions (vc_platform config)) s"

text \<open>The region through which a VM sees a shared memory object.\<close>

definition ipc_region :: "shmem list \<Rightarrow> ipc \<Rightarrow> mem_region option" where
  "ipc_region table x =
     (case ipc_get_shmem table (ipc_shmem_id x) of
        None \<Rightarrow> None
      | Some k \<Rightarrow>
          let sh = table ! k; size = (if ipc_size x > shm_size sh then shm_size sh else ipc_size x)
          in Some \<lparr>mr_base = ipc_base x, mr_size = size, mr_colors = shm_colors sh, mr_place_phys = True, mr_phys = shm_phys sh\<rparr>)"

fun init_ipcs :: "vm_env \<Rightarrow> ipc list \<Rightarrow> vm \<Rightarrow> vm option" where
  "init_ipcs v [] s = Some s"
| "init_ipcs v (x # xs) s =
     (case ipc_region (ve_shmem v) x of
        None \<Rightarrow> init_ipcs v xs s
      | Some reg \<Rightarrow> Option.bind (vm_map_mem_region v reg s) (init_ipcs v xs))"

definition vm_init_ipc :: "vm_env \<Rightarrow> vm_config \<Rightarrow> vm \<Rightarrow> vm option" where
  "vm_init_ipc v config s =
     init_ipcs v (plat_ipcs (vc_platform config)) (s\<lparr>vm_ipcs := plat_ipcs (vc_platform config)\<rparr>)"

subsection \<open>Devices\<close>

text \<open>There is no IOMMU on RISC-V: the architecture's functions do nothing and succeed.\<close>

definition iommu_arch_init :: int where "iommu_arch_init = 0"
definition iommu_arch_vm_init :: int where "iommu_arch_vm_init = 0"
definition iommu_arch_vm_add_device :: int where "iommu_arch_vm_add_device = 0"

definition iommu_vm_init :: "vm_env \<Rightarrow> nat \<Rightarrow> vm \<Rightarrow> (int \<times> vm) option" where
  "iommu_vm_init v cpu s =
     do { (oc, st) \<leftarrow> objcache_init (ve_mem v) (ve_cas v cpu) (ve_dev_oc v) IOMMU_DEV_NODE_SIZE SEC_HYP_GLOBAL False (es_oc (vm_es s));
          Some (iommu_arch_vm_init, s\<lparr>vm_dev_oc := oc, vm_es := (vm_es s)\<lparr>es_oc := st\<rparr>\<rparr>) }"

definition iommu_vm_add_device :: "vm_env \<Rightarrow> nat \<Rightarrow> u32 \<Rightarrow> vm \<Rightarrow> (int \<times> vm) option" where
  "iommu_vm_add_device v cpu devid s =
     (let res = (if devid \<noteq> 0 then iommu_arch_vm_add_device else -1) in
      if res \<ge> 0 then
        do { (ptr, oc, st) \<leftarrow> objcache_alloc (ve_mem v) (ve_cas v cpu) (ve_dev_oc v) (vm_dev_oc s) (es_oc (vm_es s));
             let s = s\<lparr>vm_dev_oc := oc, vm_es := (vm_es s)\<lparr>es_oc := st\<rparr>\<rparr>;
             if ptr \<noteq> 0 then
               let (h, l) = list_push (oc_heap st) (vm_dev_list s) ptr
               in Some (res, s\<lparr>vm_dev_id := (vm_dev_id s)(ptr := devid), vm_dev_list := l,
                             vm_es := (vm_es s)\<lparr>es_oc := st\<lparr>oc_heap := h\<rparr>\<rparr>\<rparr>)
             else Some (-1, s) }
      else Some (res, s))"

fun assign_irqs :: "nat list \<Rightarrow> vm \<Rightarrow> vm option" where
  "assign_irqs [] s = Some s"
| "assign_irqs (i # is) s =
     do { (st, vp) \<leftarrow> interrupts_vm_assign (vm_id s) i (vm_irq s, vm_vplic s);
          assign_irqs is (s\<lparr>vm_irq := st, vm_vplic := vp\<rparr>) }"

fun init_devs :: "vm_env \<Rightarrow> dev_region list \<Rightarrow> vm \<Rightarrow> vm option" where
  "init_devs v [] s = Some s"
| "init_devs v (dev # devs) s =
     (let n = ALIGN (dev_size dev) PAGE_SIZE div PAGE_SIZE in
      do { (va, m) \<leftarrow> mem_alloc_vpage (ve_mem v) (vm_as s) SEC_VM_ANY (dev_va dev) n (vm_mm s);
           (r, m) \<leftarrow> mem_map_dev (ve_mem v) (vm_as s) va (dev_pa dev) n m;
           s \<leftarrow> assign_irqs (dev_interrupts dev) (set_vm_mm m s);
           init_devs v devs s })"

fun add_devices :: "vm_env \<Rightarrow> nat \<Rightarrow> dev_region list \<Rightarrow> vm \<Rightarrow> vm option" where
  "add_devices v cpu [] s = Some s"
| "add_devices v cpu (dev # devs) s =
     (if dev_id dev \<noteq> 0 then
        do { (r, s) \<leftarrow> iommu_vm_add_device v cpu (dev_id dev) s;
             if r < 0 then None else add_devices v cpu devs s }
      else add_devices v cpu devs s)"

definition vm_init_dev :: "vm_env \<Rightarrow> nat \<Rightarrow> vm_config \<Rightarrow> vm \<Rightarrow> vm option" where
  "vm_init_dev v cpu config s =
     (let devs = plat_devs (vc_platform config) in
      do { s \<leftarrow> init_devs v devs s;
           (r, s) \<leftarrow> iommu_vm_init v cpu s;
           if r \<ge> 0 then add_devices v cpu devs s else Some s })"

subsection \<open>Architecture\<close>

text \<open>The registers of the virtual controller are emulated; only the VM's master registers them.\<close>

definition plic_global_emu :: "vm_env \<Rightarrow> nat \<Rightarrow> emul_mem" where
  "plic_global_emu v vplic_base =
     \<lparr>em_va_base = vplic_base, em_pa_base = ve_plic_global v, em_size = plic_global_size (ve_cntxt_num v), em_flags = 0,
      em_handler = VPLIC_GLOBAL_EMUL_HANDLER\<rparr>"

definition plic_claimcomplte_emu :: "vm_env \<Rightarrow> nat \<Rightarrow> emul_mem" where
  "plic_claimcomplte_emu v vplic_base =
     \<lparr>em_va_base = vplic_base + PLIC_CLAIMCMPLT_OFF, em_pa_base = ve_plic_hart v, em_size = plic_hart_size (ve_cntxt_num v),
      em_flags = 0, em_handler = VPLIC_HART_EMUL_HANDLER\<rparr>"

definition vplic_init :: "vm_env \<Rightarrow> nat \<Rightarrow> nat \<Rightarrow> vm \<Rightarrow> vm option" where
  "vplic_init v cpu vplic_base s =
     (if cpu = vm_master s then
        do { es \<leftarrow> vm_emul_add_mem (ve_mem v) (ve_cas v cpu) (ve_emul_oc v) (plic_global_emu v vplic_base) (vm_es s);
             es \<leftarrow> vm_emul_add_mem (ve_mem v) (ve_cas v cpu) (ve_emul_oc v) (plic_claimcomplte_emu v vplic_base) es;
             Some (s\<lparr>vm_es := es, vm_vplic := (vm_vplic s)\<lparr>vp_cntxt_num := vm_cpu_num s * 2\<rparr>\<rparr>) }
      else Some s)"

text \<open>The root table's physical address is not initialised when its translation fails (\<open>ve_junk_pa\<close>).\<close>

definition hgatp_value :: "vm_env \<Rightarrow> nat \<Rightarrow> vm \<Rightarrow> u64" where
  "hgatp_value v cpu s =
     (let root_pt_pa =
            (case mem_translate (as_pt (ve_cas v cpu)) (mm_mem (vm_mm s)) (pt_root (as_pt (vm_as s))) of
               Some pa \<Rightarrow> pa | None \<Rightarrow> ve_junk_pa v)
      in drop_bit 12 (of_nat root_pt_pa) OR SATP_MODE_39 OR (push_bit HGATP_VMID_OFF (of_nat (vm_id s)) AND HGATP_VMID_MSK))"

definition vm_arch_init :: "vm_env \<Rightarrow> nat \<Rightarrow> vm \<Rightarrow> vm option" where
  "vm_arch_init v cpu s =
     vplic_init v cpu (ve_plic_base v) (s\<lparr>vm_csr := (vm_csr s)(cpu := (vm_csr s cpu)\<lparr>c_hgatp := hgatp_value v cpu s\<rparr>)\<rparr>)"

subsection \<open>Creation\<close>

text \<open>
  \<^verbatim>\<open>vm_init\<close> on one CPU, cut at its barriers: no CPU starts a part before all CPUs of the VM have finished
  the previous one, which is the property of \<^verbatim>\<open>cpu_sync_barrier\<close>.
\<close>

definition vm_init_enter :: "vm_env \<Rightarrow> nat \<Rightarrow> bool \<Rightarrow> vm_config \<Rightarrow> nat \<Rightarrow> vm \<Rightarrow> vm option" where
  "vm_init_enter v cpu master config vmid s =
     do { s \<leftarrow> (if master then vm_master_init v cpu config vmid s else Some s);
          Some (s\<lparr>vm_cpus := vm_cpu_init (vm_cpus s) cpu\<rparr>) }"

definition vm_init_finish :: "vm_env \<Rightarrow> nat \<Rightarrow> bool \<Rightarrow> vm_config \<Rightarrow> vm \<Rightarrow> vm option" where
  "vm_init_finish v cpu master config s =
     do { s \<leftarrow> vm_arch_init v cpu s;
          if master then
            do { s \<leftarrow> vm_init_mem_regions v cpu config s;
                 s \<leftarrow> vm_init_dev v cpu config s;
                 vm_init_ipc v config s }
          else Some s }"

fun seq_cpus :: "(nat \<Rightarrow> vm \<Rightarrow> vm option) \<Rightarrow> nat list \<Rightarrow> vm \<Rightarrow> vm option" where
  "seq_cpus f [] s = Some s"
| "seq_cpus f (c # cs) s = Option.bind (f c s) (seq_cpus f cs)"

text \<open>
  \<^verbatim>\<open>vm_init\<close> on all CPUs of a VM: between two barriers the CPUs run in any order, given by three lists.
\<close>

definition vm_init :: "vm_env \<Rightarrow> nat \<Rightarrow> vm_config \<Rightarrow> nat \<Rightarrow> nat list \<Rightarrow> nat list \<Rightarrow> nat list \<Rightarrow> vm \<Rightarrow> vm option" where
  "vm_init v master config vmid order1 order2 order3 s =
     do { s \<leftarrow> seq_cpus (\<lambda>c. vm_init_enter v c (c = master) config vmid) order1 s;
          s \<leftarrow> seq_cpus (\<lambda>c. vm_vcpu_init v c config) order2 s;
          seq_cpus (\<lambda>c. vm_init_finish v c (c = master) config) order3 s }"

text \<open>\<^verbatim>\<open>vm_msg_broadcast\<close>: the loop ends when \<open>n\<close> other CPUs of the VM have been found.\<close>

partial_function (option) broadcast_loop :: "hv_env \<Rightarrow> cpu_msg \<Rightarrow> nat \<Rightarrow> nat \<Rightarrow> hv \<Rightarrow> hv option" where
  "broadcast_loop e m i n s =
     (if n < sub64 (e_cpu_num e) 1 then
        if push_bit i 1 AND (ucast (e_cpus e) :: u32) \<noteq> 0 \<and> i \<noteq> e_cpu_id e
        then broadcast_loop e m (i + 1) (n + 1) (send_msg (int i) m s)
        else broadcast_loop e m (i + 1) n s
      else Some s)"

definition vm_msg_broadcast :: "hv_env \<Rightarrow> cpu_msg \<Rightarrow> hv \<Rightarrow> hv option" where
  "vm_msg_broadcast e m s = broadcast_loop e m 0 0 s"

subsection \<open>Messages to a VM\<close>

lemma broadcast_loop_sends:
  assumes "i \<le> 32" "n + length (filter (\<lambda>i. bit (e_cpus e) i \<and> i \<noteq> e_cpu_id e) [i..<32]) = sub64 (e_cpu_num e) 1"
  shows "broadcast_loop e m i n s =
    Some (s\<lparr>hv_msgs := hv_msgs s @ map (\<lambda>i. (int i, m)) (filter (\<lambda>i. bit (e_cpus e) i \<and> i \<noteq> e_cpu_id e) [i..<32])\<rparr>)"
  using assms
proof (induction i arbitrary: n s rule: inc_induct)
  case base
  then show ?case by (subst broadcast_loop.simps) simp
next
  case (step i)
  let ?P = "\<lambda>i. bit (e_cpus e) i \<and> i \<noteq> e_cpu_id e"
  have u: "[i..<32] = i # [Suc i..<32]" using step.hyps by (simp add: upt_rec)
  have b: "(push_bit i 1 AND (ucast (e_cpus e) :: u32) \<noteq> 0) = bit (e_cpus e) i"
  proof -
    have "(push_bit i 1 AND (ucast (e_cpus e) :: u32) \<noteq> 0) = bit (ucast (e_cpus e) :: u32) i"
      using step.hyps by (simp add: and.commute and_exp_eq_0_iff_not_bit)
    then show ?thesis using step.hyps by (simp add: bit_simps)
  qed
  show ?case
  proof (cases "n < sub64 (e_cpu_num e) 1")
    case True
    then show ?thesis
      using step.IH [of "n + 1" "send_msg (int i) m s"] step.IH [of n s] step.prems b
      by (subst broadcast_loop.simps) (auto simp: u send_msg_def)
  next
    case False
    then have "length (filter ?P [i..<32]) = 0" using step.prems by linarith
    then have "filter ?P [i..<32] = []" by (rule length_0_conv [THEN iffD1])
    then show ?thesis using False by (subst broadcast_loop.simps) simp
  qed
qed

text \<open>
  C22: \<^verbatim>\<open>vm_msg_broadcast\<close> ends and sends the message exactly once to every other CPU of the VM, in ascending
  order, when the VM's CPUs are among the first 32 and as many as \<^verbatim>\<open>cpu_num\<close> says.
\<close>

theorem vm_msg_broadcast_exact:
  assumes "bit (e_cpus e) (e_cpu_id e)" "e_cpu_id e < 32" "e_cpu_num e = card {i. i < 32 \<and> bit (e_cpus e) i}"
  shows "vm_msg_broadcast e m s =
    Some (s\<lparr>hv_msgs := hv_msgs s @ map (\<lambda>i. (int i, m)) (filter (\<lambda>i. bit (e_cpus e) i \<and> i \<noteq> e_cpu_id e) [0..<32])\<rparr>)"
proof -
  let ?A = "{i. i < 32 \<and> bit (e_cpus e) i}"
  have fin: "finite ?A" "card ?A \<le> 32" using card_mono [of "{..<32}" ?A] by auto
  have ne: "0 < card ?A" using assms(1,2) fin(1) by (auto simp: card_gt_0_iff)
  have "length (filter (\<lambda>i. bit (e_cpus e) i \<and> i \<noteq> e_cpu_id e) [0..<32]) = card (?A - {e_cpu_id e})"
    by (subst distinct_card [symmetric]) (auto intro: arg_cong [where f = card])
  also have "\<dots> = card ?A - 1" using assms(1,2) by (intro card_Diff_singleton) simp
  also have "\<dots> = sub64 (e_cpu_num e) 1" using sub64_le [of 1 "card ?A"] ne fin(2) assms(3) by simp
  finally show ?thesis unfolding vm_msg_broadcast_def by (intro broadcast_loop_sends) simp_all
qed

theorem vm_msg_broadcast_exact_witness:
  "vm_msg_broadcast (env_example\<lparr>e_cpus := 7, e_cpu_num := 3, e_cpu_id := 1\<rparr>) \<lparr>msg_handler = 0, msg_event = 0, msg_data = 5\<rparr> hv_example =
     Some (hv_example\<lparr>hv_msgs := [(0, \<lparr>msg_handler = 0, msg_event = 0, msg_data = 5\<rparr>), (2, \<lparr>msg_handler = 0, msg_event = 0, msg_data = 5\<rparr>)]\<rparr>)"
proof -
  let ?e = "env_example\<lparr>e_cpus := 7, e_cpu_num := 3, e_cpu_id := 1\<rparr>"
  have b: "bit (7 :: u64) i \<longleftrightarrow> i < 3" for i unfolding ins_masks(3) bit_mask_iff by auto
  have "{i. i < 32 \<and> bit (7 :: u64) i} = {..<3}" unfolding b by auto
  moreover have "filter (\<lambda>i. bit (7 :: u64) i \<and> i \<noteq> 1) [0..<32] = [0, 2]" unfolding b by (simp add: upt_rec)
  ultimately show ?thesis
    using vm_msg_broadcast_exact [of ?e "\<lparr>msg_handler = 0, msg_event = 0, msg_data = 5\<rparr>" hv_example]
    by (simp add: b hv_example_def)
qed

subsection \<open>Memory of a VM\<close>

lemma vm_mm_simps [simp]: "vm_mm (set_vm_mm m s) = m" "vm_as (set_vm_mm m s) = vm_as s" "vm_vcpus (set_vm_mm m s) = vm_vcpus s"
  "vm_cpus (set_vm_mm m s) = vm_cpus s" "vm_cpu_num (set_vm_mm m s) = vm_cpu_num s" "vm_csr (set_vm_mm m s) = vm_csr s"
  by (simp_all add: vm_mm_def set_vm_mm_def)

lemma vm_section: "as_type as = AS_VM \<Longrightarrow> a < 2 ^ 64 \<Longrightarrow> mem_find_sec e as a = Some 0"
  by (simp add: mem_find_sec_def sections_def vm_secs_def)

lemma vm_map_mem_region_exact:
  assumes "as_type (vm_as s) = AS_VM" "n = NUM_PAGES (mr_size reg)" "0 < n" "mr_place_phys reg" "mr_base reg \<noteq> 0"
    "free_window (as_pt (vm_as s)) (mm_mem (vm_mm s)) (mr_base reg) n" "mr_base reg + n * PAGE_SIZE < 2 ^ 64"
    "PAGE_SIZE dvd mr_phys reg" "le = leaf_entry (as_pt (vm_as s)) (mm_mem (vm_mm s)) (mr_base reg)"
  shows "vm_map_mem_region v reg s =
    Some (set_vm_mm (vm_mm s\<lparr>mm_mem := put (mm_mem (vm_mm s)) le n (page_entries (mr_phys reg) PTE_VM_FLAGS)\<rparr>) s)"
proof -
  let ?as = "vm_as s" and ?m = "vm_mm s" and ?va = "mr_base reg" and ?pp = "mem_ppages_get (mr_phys reg) n"
  note f = free_windowD [OF assms(6)]
  have sec: "mem_find_sec (ve_mem v) ?as ?va = Some 0" "mem_find_sec (ve_mem v) ?as (?va + n * PAGE_SIZE - 1) = Some 0"
    using vm_section [OF assms(1)] assms(7) by simp_all
  have "n \<le> (2 ^ 64 - ?va) div PAGE_SIZE" using assms(7) by (simp add: less_eq_div_iff_mult_less_eq PAGE_SIZE_def)
  then have "n \<le> sub64 ((sec_end (vm_secs ! 0) + 1) mod 2 ^ 64) ?va div PAGE_SIZE"
    using assms(5,7) by (simp add: vm_secs_def sub64_def)
  then have a: "mem_alloc_vpage (ve_mem v) ?as SEC_VM_ANY ?va n ?m =
      Some (?va, ?m\<lparr>mm_mem := put (mm_mem ?m) le n (\<lambda>k. pte_set_rsw (mm_mem ?m (le + 8 * k)) PTE_RSW_RSRV)\<rparr>)"
    using mem_alloc_vpage_at [OF assms(6,3) sec(1)] assms(1,5,9) by (simp add: SEC_VM_ANY_def sections_def)
  have "mem_map (ve_mem v) ?as ?va (Some ?pp) n PTE_VM_FLAGS
      (?m\<lparr>mm_mem := put (mm_mem ?m) le n (\<lambda>k. pte_set_rsw (mm_mem ?m (le + 8 * k)) PTE_RSW_RSRV)\<rparr>) =
      Some (0, ?m\<lparr>mm_mem := put (mm_mem ?m) le n (page_entries (mr_phys reg) PTE_VM_FLAGS)\<rparr>)"
    using mem_map_reserved [OF assms(6,3) _ _ sec assms(7,9), of ?pp PTE_VM_FLAGS] assms(8)
    by (simp add: mem_ppages_get_def all_clrs_def)
  then show ?thesis using a assms(2,4) by (simp add: vm_map_mem_region_def Let_def)
qed

text \<open>
  A region of the configuration with a given physical address, in a range of the guest physical address space that is
  free and lies in one last-level table: the region is mapped, the guest's address \<open>a\<close> translates to the same
  offset in the physical region, and the mapping touches neither the allocator nor any other entry.
\<close>

theorem vm_map_mem_region_maps:
  assumes "as_type (vm_as s) = AS_VM" "n = NUM_PAGES (mr_size reg)" "0 < n" "mr_place_phys reg" "mr_base reg \<noteq> 0"
    "free_window (as_pt (vm_as s)) (mm_mem (vm_mm s)) (mr_base reg) n" "mr_base reg + n * PAGE_SIZE < 2 ^ 64"
    "PAGE_SIZE dvd mr_phys reg" "mr_phys reg + n * PAGE_SIZE \<le> 2 ^ 56"
  shows "\<exists>s'. vm_map_mem_region v reg s = Some s' \<and>
    (\<forall>a. mr_base reg \<le> a \<longrightarrow> a < mr_base reg + n * PAGE_SIZE \<longrightarrow>
       mem_translate (as_pt (vm_as s)) (mm_mem (vm_mm s')) a = Some (mr_phys reg + (a - mr_base reg))) \<and>
    (\<forall>p. (\<forall>k < n. p \<noteq> pt_get_pte (as_pt (vm_as s)) (mm_mem (vm_mm s)) 2 (mr_base reg + k * PAGE_SIZE)) \<longrightarrow>
       mm_mem (vm_mm s') p = mm_mem (vm_mm s) p) \<and>
    mm_pools (vm_mm s') = mm_pools (vm_mm s)"
proof -
  let ?as = "vm_as s" and ?m = "vm_mm s" and ?va = "mr_base reg"
  let ?le = "leaf_entry (as_pt ?as) (mm_mem ?m) ?va"
  let ?s = "set_vm_mm (?m\<lparr>mm_mem := put (mm_mem ?m) ?le n (page_entries (mr_phys reg) PTE_VM_FLAGS)\<rparr>) s"
  note f = free_windowD [OF assms(6)]
  have "mm_mem (vm_mm ?s) p = mm_mem ?m p"
    if "\<forall>k < n. p \<noteq> pt_get_pte (as_pt ?as) (mm_mem ?m) 2 (?va + k * PAGE_SIZE)" for p
    using that window_get(3) [OF f(1)] by (simp add: put_else)
  then show ?thesis
    using vm_map_mem_region_exact [OF assms(1-8) refl, of v] put_translates [OF f(1) _ _ assms(8,9), of _ PTE_VM_FLAGS]
    by (auto simp: PTE_VM_FLAGS_def)
qed

subsection \<open>Virtual CPUs of a new VM\<close>

text \<open>The state in which a virtual CPU of the VM with CPU mask \<open>cpus\<close> starts.\<close>

definition boot_vcpu :: "u64 \<Rightarrow> u64 \<Rightarrow> vcpu \<Rightarrow> bool" where
  "boot_vcpu cpus entry x \<longleftrightarrow>
     vc_id x = rank cpus (vc_phys_id x) \<and> vcpu_readpc x = entry \<and> vcpu_readreg x REG_A0 = of_nat (vc_id x) \<and>
     (\<forall>r \<in> {1..31} - {REG_A0}. vcpu_readreg x r = 0) \<and>
     (hsm_state (vc_sbi_ctx x) = (if vc_id x = 0 then STARTED else STOPPED)) \<and> \<not> vc_active x"

lemma vcpu_create_boot:
  assumes "rank (vm_cpus s) cpu < vm_cpu_num s"
  shows "boot_vcpu (vm_cpus s) entry (fst (vcpu_create s cpu entry))" "vc_phys_id (fst (vcpu_create s cpu entry)) = cpu"
proof -
  have "vm_vcpu_id (vm_cpus s) (vm_cpu_num s) cpu = rank (vm_cpus s) cpu"
    using vcpu_id_loop_rank [of 0 "vm_cpus s" 0 cpu "vm_cpu_num s"] assms by (simp add: vm_vcpu_id_def rank_def)
  then show "boot_vcpu (vm_cpus s) entry (fst (vcpu_create s cpu entry))" "vc_phys_id (fst (vcpu_create s cpu entry)) = cpu"
    by (auto simp: boot_vcpu_def vcpu_create_def vcpu_arch_init_def vcpu_arch_reset_def vcpu_readpc_def vcpu_readreg_def REG_defs Let_def)
qed

lemma vm_vcpu_init_facts:
  assumes "vm_vcpu_init v cpu config s = Some s'"
  shows "vm_vcpus s' = vm_vcpus s @ [fst (vcpu_create s cpu (vc_entry config))]" "vm_cpus s' = vm_cpus s" "vm_cpu_num s' = vm_cpu_num s"
proof -
  have "vcpu_create (set_vm_mm m s) cpu x = vcpu_create s cpu x" for m x by (simp add: vcpu_create_def)
  then show "vm_vcpus s' = vm_vcpus s @ [fst (vcpu_create s cpu (vc_entry config))]" "vm_cpus s' = vm_cpus s" "vm_cpu_num s' = vm_cpu_num s"
    using assms by (auto simp: vm_vcpu_init_def Let_def split: bind_splits if_splits prod.splits)
qed

lemma seq_vcpus:
  assumes "seq_cpus (\<lambda>c. vm_vcpu_init v c config) order s = Some s'" "\<forall>c \<in> set order. rank (vm_cpus s) c < vm_cpu_num s"
  shows "\<exists>xs. vm_vcpus s' = vm_vcpus s @ xs \<and> map vc_phys_id xs = order \<and> (\<forall>x \<in> set xs. boot_vcpu (vm_cpus s) (vc_entry config) x)"
  using assms
proof (induction order arbitrary: s)
  case (Cons c cs)
  then obtain s1 where s1: "vm_vcpu_init v c config s = Some s1" "seq_cpus (\<lambda>c. vm_vcpu_init v c config) cs s1 = Some s'"
    by (auto split: bind_splits)
  note f = vm_vcpu_init_facts [OF s1(1)] and b = vcpu_create_boot [of s c "vc_entry config"]
  obtain xs where "vm_vcpus s' = vm_vcpus s1 @ xs" "map vc_phys_id xs = cs" "\<forall>x \<in> set xs. boot_vcpu (vm_cpus s1) (vc_entry config) x"
    using Cons.IH [OF s1(2)] Cons.prems(2) f(2,3) by auto
  then show ?case using f b Cons.prems(2)
    by (intro exI [of _ "fst (vcpu_create s c (vc_entry config)) # xs"]) auto
qed simp

text \<open>
  C20: The virtual CPUs of a new VM, created by its physical CPUs in any order: there is one per physical CPU,
  their numbers are exactly \<open>0\<close> to \<open>n - 1\<close>, the number of each is the one the translation of CPU numbers
  expects, exactly the virtual CPU \<open>0\<close> is started, and all begin at the VM's entry point with their number as first
  argument and all other registers zero.
\<close>

theorem vm_vcpus_created:
  assumes "seq_cpus (\<lambda>c. vm_vcpu_init v c config) order s = Some s'" "vm_vcpus s = []" "distinct order"
    "set order = {c. bit (vm_cpus s) c}" "length order = vm_cpu_num s"
  shows "map vc_phys_id (vm_vcpus s') = order \<and> distinct (map vc_id (vm_vcpus s')) \<and>
    set (map vc_id (vm_vcpus s')) = {0..<vm_cpu_num s} \<and>
    (\<forall>x \<in> set (vm_vcpus s'). boot_vcpu (vm_cpus s) (vc_entry config) x \<and>
       vm_translate_to_pcpuid (vm_cpus s) (vc_id x) = int (vc_phys_id x))"
proof -
  let ?w = "vm_cpus s"
  have b64: "bit ?w c \<Longrightarrow> c < 64" for c using bit_imp_le_length [of ?w c] by simp
  have "rank ?w 64 = card (set order)" using assms(4) b64 by (auto simp: rank_def intro: arg_cong [where f = card])
  then have n: "rank ?w 64 = vm_cpu_num s" using assms(3,5) distinct_card by metis
  have r: "\<forall>c \<in> set order. rank ?w c < vm_cpu_num s" using assms(4) rank_lt_64 n by (metis mem_Collect_eq)
  obtain xs where xs: "vm_vcpus s' = xs" "map vc_phys_id xs = order" "\<forall>x \<in> set xs. boot_vcpu ?w (vc_entry config) x"
    using seq_vcpus [OF assms(1) r] assms(2) by auto
  have ids: "map vc_id xs = map (rank ?w) order"
    using xs(2,3) by (auto simp: boot_vcpu_def)
  have inj: "inj_on (rank ?w) (set order)" using assms(4) rank_inj by (auto simp: inj_on_def)
  have "card (rank ?w ` set order) = vm_cpu_num s" using inj assms(3,5) by (simp add: card_image distinct_card)
  moreover have "rank ?w ` set order \<subseteq> {0..<vm_cpu_num s}" using r by auto
  ultimately have set: "rank ?w ` set order = {0..<vm_cpu_num s}" by (simp add: card_subset_eq)
  have "vm_translate_to_pcpuid ?w (vc_id x) = int (vc_phys_id x)" if "x \<in> set xs" for x
  proof -
    have "vc_phys_id x \<in> set order" using that xs(2) by (metis image_eqI set_map)
    then show ?thesis using to_pcpuid_rank [of ?w "vc_phys_id x"] assms(4) xs(3) that by (simp add: boot_vcpu_def)
  qed
  then show ?thesis using xs ids inj set assms(3) by (simp add: distinct_map)
qed

subsection \<open>An example\<close>

text \<open>
  A VM with two CPUs on the tables of \<open>mem3\<close>: the section of the VM's structures starts at \<^verbatim>\<open>0x5000\<close>, the pool has eight
  pages at \<^verbatim>\<open>0x8000\<close>.
\<close>

definition env5 :: mem_env where
  "env5 = \<lparr>env_cc = color_cfg_init,
     hyp_secs = replicate 4 \<lparr>sec_beg = 0x100000, sec_end = 0x100fff, sec_shared = False\<rparr> @
       [\<lparr>sec_beg = 0x5000, sec_end = 0xffff, sec_shared = False\<rparr>]\<rparr>"

definition vm_env_example :: vm_env where
  "vm_env_example = \<lparr>ve_mem = env5, ve_cas = (\<lambda>_. as3), ve_vcpu_size = 0x1000, ve_emul_oc = 0x100, ve_dev_oc = 0x200,
     ve_plic_base = 0xc000000, ve_cntxt_num = 2, ve_plic_global = 0, ve_plic_hart = 0, ve_shmem = [], ve_junk_pa = 0\<rparr>"

definition vm_example :: vm where
  "vm_example = \<lparr>vm_master = 0, vm_cpu_num = 2, vm_id = 0, vm_sync = cpu_sync_init 2,
     vm_as = \<lparr>as_pt = \<lparr>pt_root = 0x1000, pt_dscr = sv39x4_pt_dscr\<rparr>, as_type = AS_VM, as_colors = 0, as_id = 1\<rparr>,
     vm_cpus = 3, vm_vcpus = [], vm_vplic = vp_example, vm_ipcs = [],
     vm_es = emul_example\<lparr>es_oc := oc_example\<lparr>oc_mm := mm3\<rparr>\<rparr>,
     vm_dev_oc = es_cache emul_example, vm_dev_list = list_init, vm_dev_id = (\<lambda>_. 0), vm_irq = irq_empty, vm_csr = (\<lambda>_. csrs_zero)\<rparr>"

definition region_example :: mem_region where
  "region_example = \<lparr>mr_base = 0x5000, mr_size = 0x2000, mr_colors = 0, mr_place_phys = True, mr_phys = 0x80004000\<rparr>"

lemma vm_example_mm: "vm_mm vm_example = mm3" "as_type (vm_as vm_example) = AS_VM" "pt_root (as_pt (vm_as vm_example)) = 0x1000"
  "sv39 (as_pt (vm_as vm_example))"
  by (simp_all add: vm_mm_def vm_example_def sv39_def)

theorem vm_map_mem_region_maps_witness:
  "\<exists>s'. vm_map_mem_region vm_env_example region_example vm_example = Some s' \<and>
     mem_translate (as_pt (vm_as vm_example)) (mm_mem (vm_mm s')) 0x6123 = Some 0x80005123"
proof -
  have n: "2 = NUM_PAGES (mr_size region_example)" by (simp add: region_example_def NUM_PAGES_def PAGE_SIZE_def ALIGN_def)
  have "free_window (as_pt (vm_as vm_example)) (mm_mem (vm_mm vm_example)) (mr_base region_example) 2"
    using mem3_free [OF vm_example_mm(4,3), of 2] by (simp add: vm_example_mm(1) mm3_def region_example_def)
  from vm_map_mem_region_maps [OF vm_example_mm(2) n _ _ _ this, of vm_env_example] obtain s' where
    "vm_map_mem_region vm_env_example region_example vm_example = Some s'"
    "\<forall>a. 0x5000 \<le> a \<longrightarrow> a < 0x5000 + 2 * PAGE_SIZE \<longrightarrow>
       mem_translate (as_pt (vm_as vm_example)) (mm_mem (vm_mm s')) a = Some (0x80004000 + (a - 0x5000))"
    by (force simp: region_example_def PAGE_SIZE_def)
  moreover from this(2) have "mem_translate (as_pt (vm_as vm_example)) (mm_mem (vm_mm s')) 0x6123 = Some (0x80004000 + (0x6123 - 0x5000))"
    by (simp add: PAGE_SIZE_def del: add_diff_assoc)
  ultimately show ?thesis by simp
qed

lemma env5_section: "0x5000 \<le> a \<Longrightarrow> a < 0x10000 \<Longrightarrow> mem_find_sec env5 as3 a = Some 4"
  by (simp add: mem_find_sec_def env5_def as3_def sections_def upt_rec nth_append)

text \<open>One page taken from the pool, at the first free page of the section.\<close>

lemma env5_alloc:
  assumes "mem_alloc_ppages color_cfg_init 0 1 False (mm_pools s) = Some (mem_ppages_get pa 1, pools)" "PAGE_SIZE dvd pa"
    "alloc_window pt3 (mm_mem s) 0x5000 j 1" "j \<le> 7" "leaf_entry pt3 (mm_mem s) (0x5000 + j * PAGE_SIZE) = le"
  shows "mem_alloc_page env5 as3 1 SEC_HYP_VM False s =
    Some (0x5000 + j * PAGE_SIZE, s\<lparr>mm_pools := pools, mm_mem := put (mm_mem s) le 1 (page_entries pa PTE_HYP_FLAGS)\<rparr>)"
proof -
  have "mem_find_sec env5 as3 (0x5000 + j * PAGE_SIZE) = Some 4" "mem_find_sec env5 as3 (0x5000 + j * PAGE_SIZE + 1 * PAGE_SIZE - 1) = Some 4"
    using assms(4) by (intro env5_section; simp add: PAGE_SIZE_def)+
  moreover have "sections env5 (as_type as3) ! 4 = \<lparr>sec_beg = 0x5000, sec_end = 0xffff, sec_shared = False\<rparr>"
    by (simp add: env5_def as3_def sections_def nth_append)
  ultimately show ?thesis
    using mem_alloc_page_leaf [of env5 as3 1 False s "mem_ppages_get pa 1" pools 4 _ "0x5000" "0x5000 + j * PAGE_SIZE" j] assms
    by (simp add: SEC_HYP_VM_def env5_def as3_def mem_ppages_get_def all_clrs_def sub64_def PAGE_SIZE_def)
qed

definition mem3' :: ptmem where
  "mem3' = put mem3 0x3028 1 (page_entries 0x8000 PTE_HYP_FLAGS)"

lemma mem3'_window: "alloc_window pt3 mem3' 0x5000 1 1" "leaf_entry pt3 mem3' (0x5000 + 1 * PAGE_SIZE) = 0x3030"
proof -
  note e = mem3_entries [OF pt3_sv39]
  have m: "mem3' 0x1000 = mem3 0x1000" "mem3' 0x2000 = mem3 0x2000" "mem3' 0x3030 = 0"
    "mem3' 0x3028 = pte_set 0x8000 PTE_PAGE PTE_HYP_FLAGS"
    by (simp_all add: mem3'_def put_def page_entries_def) (simp add: mem3_def)
  have u: "mem3 0x1000 = pte_set 0x2000 PTE_TABLE PTE_HYP_FLAGS" "mem3 0x2000 = pte_set 0x3000 PTE_TABLE PTE_HYP_FLAGS"
    by (simp_all add: mem3_def)
  have "leaf_window pt3 mem3 0x5000 2" using free_windowD(1) [OF mem3_free [OF pt3_sv39, of 2]] by simp
  moreover have "\<forall>a. a < leaf_table pt3 mem3 0x5000 \<or> leaf_table pt3 mem3 0x5000 + PAGE_SIZE \<le> a \<longrightarrow> mem3' a = mem3 a"
    by (auto simp: e mem3'_def put_def PAGE_SIZE_def)
  ultimately have w: "leaf_window pt3 mem3' 0x5000 (1 + 1)" "leaf_entry pt3 mem3' 0x5000 = 0x3028"
    "entry_at pt3 mem3' 0x5000 0 = 0x1000" "entry_at pt3 mem3' 0x5000 1 = 0x2000"
    using window_upd [of pt3 mem3 "0x5000" 2 mem3'] e by (simp_all del: entry_at.simps add: numeral_2_eq_2)
  have ty: "PTE_PAGE < 16" by (simp add: PTE_PAGE_def PTE_RWX_def)
  have "taken (pte_set 0x8000 PTE_PAGE PTE_HYP_FLAGS)"
    using pte_table_set(2) pte_valid_set [OF ty] by (simp add: taken_def PTE_HYP_FLAGS_def)
  then show "alloc_window pt3 mem3' 0x5000 1 1"
    by (intro alloc_windowI) (use w m u table_not_reserved zero_free in \<open>simp_all del: entry_at.simps\<close>)
  show "leaf_entry pt3 mem3' (0x5000 + 1 * PAGE_SIZE) = 0x3030" using window_sub [OF w(1)] w(2) by simp
qed

lemma vcpu_init_step:
  assumes "mem_alloc_page env5 as3 1 SEC_HYP_VM False (vm_mm s) = Some (p, m)" "p \<noteq> 0" "zero_pages p 1 m = m"
  shows "\<exists>s'. vm_vcpu_init vm_env_example c config s = Some s' \<and> vm_mm s' = m"
proof -
  have "NUM_PAGES 0x1000 = 1" by (simp add: NUM_PAGES_def PAGE_SIZE_def ALIGN_def)
  then show ?thesis
    using assms by (auto simp: vm_vcpu_init_def vm_env_example_def Let_def vm_mm_def set_vm_mm_def split: prod.splits)
qed

theorem vm_vcpus_created_witness:
  "\<exists>s'. seq_cpus (\<lambda>c. vm_vcpu_init vm_env_example c (two_cpus ! 0)) [1, 0] vm_example = Some s' \<and>
     map vc_phys_id (vm_vcpus s') = [1, 0] \<and> set (map vc_id (vm_vcpus s')) = {0..<2} \<and>
     (\<forall>x \<in> set (vm_vcpus s'). boot_vcpu 3 (vc_entry (two_cpus ! 0)) x)"
proof -
  let ?a = "\<lambda>pools. mem_alloc_ppages color_cfg_init 0 1 False pools"
  let ?p1 = "snd (the (?a [pool8]))"
  have "?a [pool8] \<noteq> None" "fst (the (?a [pool8])) = mem_ppages_get 0x8000 1" by code_simp+
  then have a1: "?a [pool8] = Some (mem_ppages_get 0x8000 1, ?p1)" by (cases "?a [pool8]") (auto simp: prod_eq_iff)
  have "?a ?p1 \<noteq> None" "fst (the (?a ?p1)) = mem_ppages_get 0x9000 1" by code_simp+
  then obtain p2 where a2: "?a ?p1 = Some (mem_ppages_get 0x9000 1, p2)" by (cases "?a ?p1") (auto simp: prod_eq_iff)
  let ?m1 = "mm3\<lparr>mm_pools := ?p1, mm_mem := mem3'\<rparr>"
  have z: "mem3 a = 0" if "0x5000 \<le> a" for a using that by (auto simp: mem3_def)
  have w0: "alloc_window pt3 mem3 0x5000 0 1"
    using mem3_free [OF pt3_sv39, of 1] free_windowD(1) [of pt3 mem3 "0x5000" 1] by (simp add: alloc_window_def)
  have "mem_alloc_page env5 as3 1 SEC_HYP_VM False (vm_mm vm_example) = Some (0x5000, ?m1)"
    using env5_alloc [of mm3 "0x8000" ?p1 0 "0x3028"] a1 w0 mem3_entries(4) [OF pt3_sv39]
    by (simp add: vm_example_mm mm3_def mem3'_def PAGE_SIZE_def)
  moreover have "zero_pages 0x5000 1 ?m1 = ?m1"
    using z by (auto simp: zero_pages_def mm3_def mem3'_def put_def PAGE_SIZE_def intro!: ext)
  ultimately obtain s1 where s1: "vm_vcpu_init vm_env_example 1 (two_cpus ! 0) vm_example = Some s1" "vm_mm s1 = ?m1"
    using vcpu_init_step [of vm_example "0x5000" ?m1] by auto
  let ?m2 = "?m1\<lparr>mm_pools := p2, mm_mem := put mem3' 0x3030 1 (page_entries 0x9000 PTE_HYP_FLAGS)\<rparr>"
  have "mem_alloc_page env5 as3 1 SEC_HYP_VM False (vm_mm s1) = Some (0x6000, ?m2)"
    using env5_alloc [of ?m1 "0x9000" p2 1 "0x3030"] a2 mem3'_window s1(2) by (simp add: PAGE_SIZE_def)
  moreover have "zero_pages 0x6000 1 ?m2 = ?m2"
    using z by (auto simp: zero_pages_def mm3_def mem3'_def put_def PAGE_SIZE_def intro!: ext)
  ultimately obtain s2 where "vm_vcpu_init vm_env_example 0 (two_cpus ! 0) s1 = Some s2"
    using vcpu_init_step [of s1 "0x6000" ?m2] by auto
  then have r: "seq_cpus (\<lambda>c. vm_vcpu_init vm_env_example c (two_cpus ! 0)) [1, 0] vm_example = Some s2" using s1(1) by simp
  have "{c. bit (3 :: u64) c} = {1, 0}" unfolding ins_masks(4) bit_mask_iff by (auto simp: less_Suc_eq numeral_2_eq_2)
  then have "set [1, 0] = {c. bit (vm_cpus vm_example) c}" by (simp add: vm_example_def)
  from vm_vcpus_created [OF r _ _ this] r show ?thesis by (simp add: vm_example_def)
qed

end
