(* ===== verification/Vmm_Share.thy ===== *)
theory Vmm_Share
  imports Vm
begin

text \<open>
  The rest of \<^verbatim>\<open>vmm_init\<close> after the assignment of the CPUs: the master of a VM allocates the VM structure at \<^verbatim>\<open>BAO_VM_BASE\<close>
  and publishes the entry of its root table for that address; the other CPUs of the VM copy the entry into their own
  root tables. Then \<^verbatim>\<open>cpu_idle_wakeup\<close> of \<^verbatim>\<open>core/cpu.c\<close>.
\<close>

definition BAO_VM_BASE :: nat where "BAO_VM_BASE = 0xffffffe000000000"

definition share_master :: "mem_env \<Rightarrow> addr_space \<Rightarrow> nat \<Rightarrow> mm \<Rightarrow> (u64 \<times> mm) option" where
  "share_master me cas vm_size s =
     (let vm_npages = NUM_PAGES vm_size in
      do { (va, s) \<leftarrow> mem_alloc_vpage me cas SEC_HYP_VM BAO_VM_BASE vm_npages s;
           (r, s) \<leftarrow> mem_map me cas va None vm_npages PTE_HYP_FLAGS s;
           let s = zero_pages va vm_npages s;
           w \<leftarrow> deref s (pt_get_pte (as_pt cas) (mm_mem s) 0 BAO_VM_BASE);
           Some (w, s) })"

definition share_join :: "addr_space \<Rightarrow> u64 \<Rightarrow> mm \<Rightarrow> mm option" where
  "share_join cas vm_shared_table s =
     (let pte = pt_get_pte (as_pt cas) (mm_mem s) 0 BAO_VM_BASE in
      if pte = 0 then None else Some (write_pte pte vm_shared_table s))"

text \<open>
  \<^verbatim>\<open>cpu_idle_wakeup\<close>: \<open>drain\<close> is the handling of the pending messages; a CPU without a virtual CPU goes back to idle.
\<close>

definition cpu_idle_wakeup :: "(hv \<Rightarrow> hv option) \<Rightarrow> hv_env \<Rightarrow> bool \<Rightarrow> hv \<Rightarrow> (run_result \<times> hv) option" where
  "cpu_idle_wakeup drain e has_vcpu s =
     do { s \<leftarrow> (if interrupts_check IPI_CPU_MSG s then drain (interrupts_clear IPI_CPU_MSG s) else Some s);
          Some (if has_vcpu then vcpu_run e s else (CPU_IDLE, s)) }"

subsection \<open>The shared part of the address spaces\<close>

lemma translate_walk_cong:
  assumes "\<And>l. pt_getpteindex_by_va pt a l = pt_getpteindex_by_va pt' a l"
  shows "translate_walk pt m a n i p = translate_walk pt' m a n i p"
  by (induction n arbitrary: i p) (simp_all add: assms)

lemma same_root_entry:
  assumes "pt_dscr pt = sv39_pt_dscr" "pt_dscr pt' = sv39_pt_dscr"
    "m (entry_at pt m a 0) = m (entry_at pt' m a 0)" "entry_at pt m a 0 \<noteq> 0" "entry_at pt' m a 0 \<noteq> 0"
  shows "mem_translate pt m a = mem_translate pt' m a"
proof -
  let ?p = "entry_at pt m a 0" and ?q = "entry_at pt' m a 0"
  have ix: "pt_getpteindex_by_va pt a l = pt_getpteindex_by_va pt' a l" for l
    using assms(1,2) by (simp add: pt_getpteindex_by_va_def pt_nentries_def)
  have w: "translate_walk t m a 3 0 x = (if \<not> pte_valid (m x) \<or> \<not> pte_table (m x) then (x, 0)
      else translate_walk t m a 2 1 (pte_addr (m x) + 8 * pt_getpteindex_by_va t a 1))" for t x
    using translate_walk.simps(2) [of t m a 2 0 x] by (simp add: eval_nat_numeral)
  have l: "pt_lvls (pt_dscr pt) = 3" "pt_lvls (pt_dscr pt') = 3" "lvl_off (pt_dscr pt) = lvl_off (pt_dscr pt')"
    using assms(1,2) by (simp_all add: sv39_pt_dscr_def)
  have "translate_walk pt m a 2 1 x = translate_walk pt' m a 2 1 x" for x by (rule translate_walk_cong [OF ix])
  then show ?thesis
    unfolding mem_translate_def l entry_at.simps(1) [of pt m a, symmetric] entry_at.simps(1) [of pt' m a, symmetric] w ix [of 1]
    using assms(3-5) by (simp del: entry_at.simps)
qed

text \<open>
  C21: A CPU that joins a VM: it installs the entry published by the VM's master, and then every address of the area of the
  VM structure translates in its address space exactly as in the master's, and continues to whatever is
  written to the tables below the two entries.
\<close>

theorem share_join_same_view:
  assumes "pt_dscr (as_pt master) = sv39_pt_dscr" "pt_dscr (as_pt cas) = sv39_pt_dscr"
    "q = pt_get_pte (as_pt master) (mm_mem s) 0 BAO_VM_BASE" "p = pt_get_pte (as_pt cas) (mm_mem s) 0 BAO_VM_BASE" "q \<noteq> 0" "p \<noteq> 0"
    "a div 2 ^ 30 = BAO_VM_BASE div 2 ^ 30"
  shows "\<exists>s'. share_join cas (mm_mem s q) s = Some s' \<and>
    (\<forall>m. m p = mm_mem s' p \<longrightarrow> m q = mm_mem s' q \<longrightarrow> mem_translate (as_pt cas) m a = mem_translate (as_pt master) m a)"
proof -
  have ix: "pt_getpteindex_by_va pt a 0 = pt_getpteindex_by_va pt BAO_VM_BASE 0" if "pt_dscr pt = sv39_pt_dscr" for pt
    using assms(7) that by (simp add: pt_getpteindex_by_va_def sv39_pt_dscr_def)
  have e: "entry_at (as_pt master) m a 0 = q" "entry_at (as_pt cas) m a 0 = p" for m
    using ix assms(1-4) by (simp_all add: pt_get_pte_def)
  have "mem_translate (as_pt cas) m a = mem_translate (as_pt master) m a" if "m p = m q" for m
    using same_root_entry [OF assms(2,1), of m a] that assms(5,6) unfolding e by simp
  then show ?thesis using assms(4,6) by (auto simp: share_join_def write_pte_def)
qed

definition as4 :: addr_space where
  "as4 = as3\<lparr>as_pt := \<lparr>pt_root = 0xa000, pt_dscr = sv39_pt_dscr\<rparr>\<rparr>"

theorem share_join_same_view_witness:
  "\<exists>s'. share_join as4 (mem3 0x1c00) mm3 = Some s' \<and>
     mem_translate (as_pt as4) (mm_mem s') (BAO_VM_BASE + 0x123) = mem_translate (as_pt as3) (mm_mem s') (BAO_VM_BASE + 0x123)"
proof -
  have "pt_get_pte (as_pt as3) (mm_mem mm3) 0 BAO_VM_BASE = 0x1c00" "pt_get_pte (as_pt as4) (mm_mem mm3) 0 BAO_VM_BASE = 0xac00"
    by (simp_all add: pt_get_pte_def as3_def as4_def pt3_def pt_getpteindex_by_va_def pt_nentries_def sv39_pt_dscr_def BAO_VM_BASE_def)
  then have "\<exists>s'. share_join as4 (mm_mem mm3 0x1c00) mm3 = Some s' \<and>
    (\<forall>m. m 0xac00 = mm_mem s' 0xac00 \<longrightarrow> m 0x1c00 = mm_mem s' 0x1c00 \<longrightarrow>
       mem_translate (as_pt as4) m (BAO_VM_BASE + 0x123) = mem_translate (as_pt as3) m (BAO_VM_BASE + 0x123))"
    by (intro share_join_same_view) (simp_all add: as3_def as4_def pt3_def BAO_VM_BASE_def)
  then show ?thesis by (auto simp: mm3_def)
qed

end
