(* ===== verification/Strings.thy ===== *)
theory Strings
  imports Prelude
begin

text \<open>
  The memory and string routines of \<^verbatim>\<open>lib/string.c\<close> on a byte-addressed memory.

  The loop counter of \<^verbatim>\<open>memcpy\<close> is an \<^verbatim>\<open>int32_t\<close>; the comparisons with \<^verbatim>\<open>count\<close> are unsigned, the addition
  of \<^verbatim>\<open>WORD_SIZE\<close> is done in 64 bits and converted back, and \<^verbatim>\<open>i++\<close> overflows at \<open>2 ^ 31 - 1\<close>, which is
  \<open>None\<close>. A loop that looks for the end of a string that has none is \<open>None\<close> too.
\<close>

type_synonym bytes = "nat \<Rightarrow> u8"

definition WORD_SIZE :: nat where "WORD_SIZE = 8"

text \<open>One assignment \<^verbatim>\<open>*(WORD_TYPE *)dst_tmp = *(WORD_TYPE *)src_tmp\<close>: eight bytes are read, then written.\<close>

definition copy_word :: "nat \<Rightarrow> nat \<Rightarrow> bytes \<Rightarrow> bytes" where
  "copy_word d s m = (\<lambda>a. if d \<le> a \<and> a < d + WORD_SIZE then m (s + (a - d)) else m a)"

partial_function (option) copy_words :: "u32 \<Rightarrow> u32 \<Rightarrow> nat \<Rightarrow> nat \<Rightarrow> bytes \<Rightarrow> (u32 \<times> nat \<times> nat \<times> bytes) option" where
  [code]: "copy_words count i d s m =
     (if i < count then
        if (scast i :: u64) + (of_nat WORD_SIZE - 1) > ucast (count - 1) then Some (i, d, s, m)
        else copy_words count (i + of_nat WORD_SIZE) (d + WORD_SIZE) (s + WORD_SIZE) (copy_word d s m)
      else Some (i, d, s, m))"

partial_function (option) copy_tail :: "u32 \<Rightarrow> u32 \<Rightarrow> nat \<Rightarrow> nat \<Rightarrow> bytes \<Rightarrow> bytes option" where
  [code]: "copy_tail count i d s m =
     (if i < count then
        let m = m(d := m s) in
        if i = 0x7fffffff then None else copy_tail count (i + 1) (d + 1) (s + 1) m
      else Some m)"

partial_function (option) copy_bytes :: "u32 \<Rightarrow> u32 \<Rightarrow> nat \<Rightarrow> nat \<Rightarrow> bytes \<Rightarrow> bytes option" where
  [code]: "copy_bytes count i dst src m =
     (if i < count then
        let m = m(nat (int dst + sint i) := m (nat (int src + sint i))) in
        if i = 0x7fffffff then None else copy_bytes count (i + 1) dst src m
      else Some m)"

definition memcpy :: "nat \<Rightarrow> nat \<Rightarrow> u32 \<Rightarrow> bytes \<Rightarrow> bytes option" where
  "memcpy dst src count m =
     (if src mod WORD_SIZE = 0 \<and> dst mod WORD_SIZE = 0 then
        do { (i, d, s, m) \<leftarrow> copy_words count 0 dst src m;
             if i \<le> count - 1 then copy_tail count i d s m else Some m }
      else copy_bytes count 0 dst src m)"

text \<open>\<^verbatim>\<open>memset\<close>: the value is converted to a byte by the assignment.\<close>

primrec memset_loop :: "nat \<Rightarrow> nat \<Rightarrow> u32 \<Rightarrow> bytes \<Rightarrow> bytes" where
  "memset_loop 0 d c m = m"
| "memset_loop (Suc count) d c m = memset_loop count (d + 1) c (m(d := ucast c))"

definition memset :: "nat \<Rightarrow> u32 \<Rightarrow> u32 \<Rightarrow> bytes \<Rightarrow> bytes" where
  "memset dest c count m = memset_loop (unat count) dest c m"

partial_function (option) str_end :: "bytes \<Rightarrow> nat \<Rightarrow> nat option" where
  [code]: "str_end m sc = (if m sc \<noteq> 0 then str_end m (sc + 1) else Some sc)"

partial_function (option) str_copy :: "nat \<Rightarrow> nat \<Rightarrow> bytes \<Rightarrow> bytes option" where
  [code]: "str_copy dest src m =
     (let c = m src; m = m(dest := c) in if c \<noteq> 0 then str_copy (dest + 1) (src + 1) m else Some m)"

definition strcat :: "nat \<Rightarrow> nat \<Rightarrow> bytes \<Rightarrow> bytes option" where
  "strcat dest src m = do { e \<leftarrow> str_end m dest; str_copy e src m }"

definition strlen :: "bytes \<Rightarrow> nat \<Rightarrow> u32 option" where
  "strlen m s = do { sc \<leftarrow> str_end m s; Some (of_nat (sc - s)) }"

primrec strnlen_loop :: "bytes \<Rightarrow> nat \<Rightarrow> nat \<Rightarrow> nat" where
  "strnlen_loop m 0 str = str"
| "strnlen_loop m (Suc n) str = (if m str \<noteq> 0 then strnlen_loop m n (str + 1) else str)"

definition strnlen :: "bytes \<Rightarrow> nat \<Rightarrow> nat \<Rightarrow> u32" where
  "strnlen m s n = of_nat (strnlen_loop m n s - s)"

definition strcpy :: "nat \<Rightarrow> nat \<Rightarrow> bytes \<Rightarrow> bytes option" where
  "strcpy dest src m = str_copy dest src m"

partial_function (option) strcmp_loop :: "bytes \<Rightarrow> nat \<Rightarrow> nat \<Rightarrow> (nat \<times> nat) option" where
  [code]: "strcmp_loop m tmp0 tmp1 =
     (if m tmp0 = m tmp1 \<and> m tmp0 \<noteq> 0 \<and> m tmp1 \<noteq> 0 then strcmp_loop m (tmp0 + 1) (tmp1 + 1) else Some (tmp0, tmp1))"

definition strcmp :: "bytes \<Rightarrow> nat \<Rightarrow> nat \<Rightarrow> u32 option" where
  "strcmp m str0 str1 = do { (tmp0, tmp1) \<leftarrow> strcmp_loop m str0 str1; Some (if tmp0 \<noteq> tmp1 then 1 else 0) }"

subsection \<open>Copies\<close>

text \<open>The memory after \<open>n\<close> bytes at \<open>s\<close> have been moved to \<open>d\<close>.\<close>

definition moved :: "nat \<Rightarrow> nat \<Rightarrow> nat \<Rightarrow> bytes \<Rightarrow> bytes" where
  "moved d s n m = (\<lambda>a. if d \<le> a \<and> a < d + n then m (s + (a - d)) else m a)"

definition forward_safe :: "nat \<Rightarrow> nat \<Rightarrow> nat \<Rightarrow> bool" where
  "forward_safe dst src n \<longleftrightarrow> dst \<le> src \<or> src + n \<le> dst"

lemma moved_0 [simp]: "moved d s 0 m = m"
  by (rule ext) (auto simp: moved_def)

lemma moved_byte: "m(d := m s) = moved d s 1 m"
proof
  show "(m(d := m s)) a = moved d s 1 m a" for a by (cases "a = d") (auto simp: moved_def)
qed

lemma moved_more:
  assumes "forward_safe dst src n" "k + j \<le> n"
  shows "moved (dst + k) (src + k) j (moved dst src k m) = moved dst src (k + j) m"
  using assms by (auto simp: moved_def forward_safe_def fun_eq_iff)

lemma copy_word_moved: "copy_word d s m = moved d s WORD_SIZE m"
  by (simp add: copy_word_def moved_def)

lemma copy_tail_moves:
  assumes "forward_safe dst src (unat count)" "unat count < 2 ^ 31" "unat i \<le> unat count"
  shows "copy_tail count i (dst + unat i) (src + unat i) (moved dst src (unat i) m) = Some (moved dst src (unat count) m)"
  using assms(3)
proof (induction "unat count - unat i" arbitrary: i)
  case 0
  then show ?case by (subst copy_tail.simps) (simp add: word_less_nat_alt)
next
  case (Suc k)
  then have i: "unat i < unat count" by simp
  then have u: "unat (i + 1) = unat i + 1" using assms(2) by (simp add: unat_word_ariths)
  have "i \<noteq> 0x7fffffff" using i assms(2) by auto
  moreover have "copy_tail count (i + 1) (dst + unat (i + 1)) (src + unat (i + 1)) (moved dst src (unat (i + 1)) m) =
      Some (moved dst src (unat count) m)"
    using Suc.hyps(2) i u by (intro Suc.hyps(1)) auto
  moreover have "moved (dst + unat i) (src + unat i) 1 (moved dst src (unat i) m) = moved dst src (unat (i + 1)) m"
    using moved_more [OF assms(1), of "unat i" 1 m] i u by simp
  ultimately show ?case
    by (subst copy_tail.simps) (use i u in \<open>simp add: word_less_nat_alt moved_byte ac_simps\<close>)
qed

lemma sint_nonneg:
  fixes i :: u32
  assumes "unat i < 2 ^ 31"
  shows "sint i = int (unat i)"
proof -
  have "int (unat i) < int (2 ^ 31)" using assms by (simp only: of_nat_less_iff)
  then have "uint i < 2 ^ 31" by simp
  then have "signed_take_bit 31 (uint i) = uint i" using order_trans [OF _ uint_nonnegative, of "- (2 ^ 31)" i] by (intro signed_take_bit_int_eq_self) auto
  then show ?thesis by (simp add: sint_uint)
qed

lemma scast_nonneg:
  fixes i :: u32
  assumes "unat i < 2 ^ 31"
  shows "unat (scast i :: u64) = unat i"
proof -
  have "(scast i :: u64) = of_nat (unat i)" using sint_nonneg [OF assms] by (simp add: scast_eq)
  then show ?thesis using assms by (simp add: unsigned_ucast_eq take_bit_nat_eq_self)
qed

lemma word_guard:
  fixes i count :: u32
  assumes "unat i < unat count" "unat count < 2 ^ 31"
  shows "(scast i :: u64) + (of_nat WORD_SIZE - 1) > ucast (count - 1) \<longleftrightarrow> unat count < unat i + 8"
proof -
  have "unat ((scast i :: u64) + (of_nat WORD_SIZE - 1)) = unat i + 7"
    using assms scast_nonneg [of i] by (simp add: WORD_SIZE_def unat_word_ariths)
  moreover have "unat (ucast (count - 1) :: u64) = unat count - 1"
    using assms unat_minus_one [of count] by (cases "count = 0") (simp_all add: unsigned_ucast_eq take_bit_nat_eq_self)
  ultimately show ?thesis using assms(1) by (auto simp: word_less_nat_alt)
qed

lemma copy_words_moves:
  assumes "forward_safe dst src (unat count)" "unat count < 2 ^ 31" "unat i \<le> unat count"
  shows "\<exists>j. unat j \<le> unat count \<and>
    copy_words count i (dst + unat i) (src + unat i) (moved dst src (unat i) m) =
      Some (j, dst + unat j, src + unat j, moved dst src (unat j) m)"
  using assms(3)
proof (induction "unat count - unat i" arbitrary: i rule: less_induct)
  case less
  show ?case
  proof (cases "unat i + 8 \<le> unat count")
    case True
    have u: "unat (i + of_nat WORD_SIZE) = unat i + WORD_SIZE"
      using True assms(2) by (simp add: unat_word_ariths WORD_SIZE_def)
    have "\<exists>j. unat j \<le> unat count \<and>
        copy_words count (i + of_nat WORD_SIZE) (dst + unat i + WORD_SIZE) (src + unat i + WORD_SIZE)
          (moved dst src (unat i + WORD_SIZE) m) = Some (j, dst + unat j, src + unat j, moved dst src (unat j) m)"
      using less.hyps [of "i + of_nat WORD_SIZE"] True unfolding u by (simp add: WORD_SIZE_def ac_simps)
    moreover have "copy_word (dst + unat i) (src + unat i) (moved dst src (unat i) m) = moved dst src (unat i + WORD_SIZE) m"
      using moved_more [OF assms(1), of "unat i" WORD_SIZE m] True by (simp add: copy_word_moved WORD_SIZE_def)
    ultimately show ?thesis
      using True word_guard [OF _ assms(2), of i] by (subst copy_words.simps) (simp add: word_less_nat_alt)
  next
    case False
    have "copy_words count i d s m' = Some (i, d, s, m')" for d s m'
      using False less.prems word_guard [OF _ assms(2), of i] by (subst copy_words.simps) (simp add: word_less_nat_alt)
    then show ?thesis using less.prems by blast
  qed
qed

lemma copy_bytes_moves:
  assumes "forward_safe dst src (unat count)" "unat count < 2 ^ 31" "unat i \<le> unat count"
  shows "copy_bytes count i dst src (moved dst src (unat i) m) = Some (moved dst src (unat count) m)"
  using assms(3)
proof (induction "unat count - unat i" arbitrary: i)
  case 0
  then show ?case by (subst copy_bytes.simps) (simp add: word_less_nat_alt)
next
  case (Suc k)
  then have i: "unat i < unat count" by simp
  then have u: "unat (i + 1) = unat i + 1" and s: "sint i = int (unat i)"
    using assms(2) sint_nonneg [of i] by (simp_all add: unat_word_ariths)
  have "i \<noteq> 0x7fffffff" using i assms(2) by auto
  moreover have "copy_bytes count (i + 1) dst src (moved dst src (unat (i + 1)) m) = Some (moved dst src (unat count) m)"
    using Suc.hyps(2) i u by (intro Suc.hyps(1)) auto
  moreover have "moved (dst + unat i) (src + unat i) 1 (moved dst src (unat i) m) = moved dst src (unat (i + 1)) m"
    using moved_more [OF assms(1), of "unat i" 1 m] i u by simp
  ultimately show ?case
    by (subst copy_bytes.simps) (use i u in \<open>simp add: word_less_nat_alt moved_byte s nat_int_add del: of_nat_unat\<close>)
qed

text \<open>
  \<^verbatim>\<open>memcpy\<close> returns and moves exactly \<^verbatim>\<open>count\<close> bytes, whether it copies words or bytes, for every count below
  \<open>2 ^ 31\<close>, if the destination does not start inside the source: every other byte of the memory keeps its value.
\<close>

theorem memcpy_moves:
  assumes "unat count < 2 ^ 31" "dst \<le> src \<or> src + unat count \<le> dst"
  shows "memcpy dst src count m =
    Some (\<lambda>a. if dst \<le> a \<and> a < dst + unat count then m (src + (a - dst)) else m a)"
proof -
  have f: "forward_safe dst src (unat count)" using assms(2) by (simp add: forward_safe_def)
  obtain j where j: "unat j \<le> unat count"
      "copy_words count 0 dst src m = Some (j, dst + unat j, src + unat j, moved dst src (unat j) m)"
    using copy_words_moves [OF f assms(1), of 0 m] by auto
  have "unat j = unat count" if "\<not> j \<le> count - 1"
  proof (cases "count = 0")
    case False
    then have "unat (count - 1) = unat count - 1" by (simp add: unat_minus_one)
    then show ?thesis using that j(1) by (simp add: word_le_nat_alt)
  qed (use j(1) in simp)
  then have "memcpy dst src count m = Some (moved dst src (unat count) m)"
    using j(2) copy_tail_moves [OF f assms(1) j(1), of m] copy_bytes_moves [OF f assms(1), of 0 m]
    by (auto simp: memcpy_def)
  then show ?thesis by (simp add: moved_def)
qed

theorem memcpy_moves_witness:
  "memcpy 0x1000 0x2000 20 (\<lambda>a. of_nat (a mod 7)) =
     Some (\<lambda>a. if 0x1000 \<le> a \<and> a < 0x1014 then of_nat ((0x2000 + (a - 0x1000)) mod 7) else of_nat (a mod 7))"
  using memcpy_moves [of 20 "0x1000" "0x2000" "\<lambda>a. of_nat (a mod 7)"] by simp

lemma memset_loop_fills: "memset_loop n d c m = (\<lambda>a. if d \<le> a \<and> a < d + n then ucast c else m a)"
  by (induction n arbitrary: d m) (auto simp: fun_eq_iff)

lemma memset_fills: "memset dest c count m = (\<lambda>a. if dest \<le> a \<and> a < dest + unat count then ucast c else m a)"
  by (simp add: memset_def memset_loop_fills)

subsection \<open>Strings\<close>

text \<open>The memory holds the string \<open>cs\<close> at address \<open>a\<close>: its characters, none of them null, and a terminator.\<close>

definition string_at :: "bytes \<Rightarrow> nat \<Rightarrow> u8 list \<Rightarrow> bool" where
  "string_at m a cs \<longleftrightarrow> (\<forall>i < length cs. m (a + i) = cs ! i \<and> cs ! i \<noteq> 0) \<and> m (a + length cs) = 0"

lemma string_at_Nil [simp]: "string_at m a [] \<longleftrightarrow> m a = 0"
  by (simp add: string_at_def)

lemma string_at_Cons [simp]: "string_at m a (c # cs) \<longleftrightarrow> m a = c \<and> c \<noteq> 0 \<and> string_at m (a + 1) cs"
  unfolding string_at_def by (auto simp: All_less_Suc2 One_nat_def)

lemma str_end_string: "string_at m a cs \<Longrightarrow> str_end m a = Some (a + length cs)"
  by (induction cs arbitrary: a) (subst str_end.simps, simp)+

lemma strlen_string: "string_at m a cs \<Longrightarrow> strlen m a = Some (of_nat (length cs))"
  by (simp add: strlen_def str_end_string)

lemma strnlen_loop_string: "string_at m a cs \<Longrightarrow> strnlen_loop m n a = a + min n (length cs)"
proof (induction n arbitrary: a cs)
  case (Suc n)
  then show ?case by (cases cs) (auto simp: One_nat_def)
qed simp

lemma strnlen_string: "string_at m a cs \<Longrightarrow> strnlen m a n = of_nat (min n (length cs))"
  by (simp add: strnlen_def strnlen_loop_string)

lemma string_at_cong:
  assumes "\<And>i. i \<le> length cs \<Longrightarrow> m (a + i) = m' (a + i)"
  shows "string_at m a cs = string_at m' a cs"
  using assms unfolding string_at_def by (auto simp: less_imp_le)

lemma string_at_append:
  "string_at m a (xs @ ys) \<longleftrightarrow> (\<forall>i < length xs. m (a + i) = xs ! i \<and> xs ! i \<noteq> 0) \<and> string_at m (a + length xs) ys"
  by (induction xs arbitrary: a) (auto simp: All_less_Suc2 One_nat_def)

lemma str_copy_moves:
  assumes "forward_safe dest src (Suc (length cs))" "string_at m src cs"
  shows "str_copy dest src m = Some (moved dest src (Suc (length cs)) m)"
  using assms
proof (induction cs arbitrary: dest src m)
  case Nil
  then show ?case using moved_byte [of m dest src] by (subst str_copy.simps) (simp flip: One_nat_def)
next
  case (Cons c cs)
  have m: "m(dest := c) = moved dest src 1 m" using Cons.prems(2) moved_byte [of m dest src] by simp
  have "string_at (moved dest src 1 m) (src + 1) cs = string_at m (src + 1) cs"
    using Cons.prems(1) by (intro string_at_cong) (auto simp: moved_def forward_safe_def)
  then have "str_copy (dest + 1) (src + 1) (moved dest src 1 m) =
      Some (moved (dest + 1) (src + 1) (Suc (length cs)) (moved dest src 1 m))"
    using Cons.prems by (intro Cons.IH) (auto simp: forward_safe_def)
  also have "moved (dest + 1) (src + 1) (Suc (length cs)) (moved dest src 1 m) = moved dest src (Suc (length (c # cs))) m"
    using moved_more [OF Cons.prems(1), of 1 "Suc (length cs)" m] by (simp add: One_nat_def)
  finally show ?case using Cons.prems(2) m by (subst str_copy.simps) simp
qed

text \<open>\<^verbatim>\<open>strcat\<close> appends the source and its terminator and changes nothing else, if the source is not overwritten on the way.\<close>

theorem strcat_appends:
  assumes "string_at m dest ds" "string_at m src cs" "dest + length ds \<le> src \<or> src + length cs < dest + length ds"
  shows "\<exists>m'. strcat dest src m = Some m' \<and> string_at m' dest (ds @ cs) \<and>
    (\<forall>a. a < dest + length ds \<or> dest + length ds + length cs < a \<longrightarrow> m' a = m a)"
proof -
  let ?m = "moved (dest + length ds) src (Suc (length cs)) m"
  have f: "forward_safe (dest + length ds) src (Suc (length cs))" using assms(3) by (auto simp: forward_safe_def)
  have "string_at ?m (dest + length ds) cs"
    using assms(2) unfolding string_at_def by (auto simp: moved_def)
  then have "string_at ?m dest (ds @ cs)"
    using assms(1) unfolding string_at_append by (auto simp: moved_def string_at_def)
  then show ?thesis
    using str_copy_moves [OF f assms(2)] by (auto simp: strcat_def str_end_string [OF assms(1)] moved_def)
qed

theorem strcat_appends_witness:
  "\<exists>m'. strcat 100 200 (\<lambda>a. if a = 100 then 65 else if a = 200 then 66 else 0) = Some m' \<and> string_at m' 100 [65, 66]"
proof -
  let ?m = "\<lambda>a::nat. if a = 100 then 65 else if a = 200 then 66 else (0 :: u8)"
  have "\<exists>m'. strcat 100 200 ?m = Some m' \<and> string_at m' 100 ([65] @ [66]) \<and>
      (\<forall>a. a < 100 + length [65 :: u8] \<or> 100 + length [65 :: u8] + length [66 :: u8] < a \<longrightarrow> m' a = ?m a)"
    by (intro strcat_appends) simp_all
  then show ?thesis by auto
qed

text \<open>
  \<^verbatim>\<open>strcmp\<close> compares the two pointers at the end of the common prefix, which advance together: it says whether the
  two addresses are the same, not whether the strings are.
\<close>

lemma strcmp_loop_offset: "string_at m a cs \<Longrightarrow> \<exists>k. strcmp_loop m a b = Some (a + k, b + k)"
proof (induction cs arbitrary: a b)
  case Nil
  then show ?case by (intro exI [of _ 0]) (subst strcmp_loop.simps, simp)
next
  case (Cons c cs)
  obtain k where k: "strcmp_loop m (a + 1) (b + 1) = Some (a + 1 + k, b + 1 + k)"
    using Cons.IH [of "a + 1" "b + 1"] Cons.prems by auto
  show ?case
  proof (cases "m a = m b")
    case True
    then show ?thesis using Cons.prems k by (intro exI [of _ "1 + k"]) (subst strcmp_loop.simps, simp add: ac_simps)
  next
    case False
    then show ?thesis by (intro exI [of _ 0]) (subst strcmp_loop.simps, simp)
  qed
qed

lemma strcmp_compares_addresses:
  assumes "string_at m a cs"
  shows "strcmp m a b = Some (if a = b then 0 else 1)"
  using strcmp_loop_offset [OF assms, of b] by (auto simp: strcmp_def)

end
