(* ===== verification/Printk.thy ===== *)
theory Printk
  imports Strings
begin

text \<open>
  Formatted output: \<^verbatim>\<open>vsprintk\<close> of \<^verbatim>\<open>lib/printk.c\<close>.

  The format is the list of its characters before the terminator. The output is the list of the characters written to
  \<^verbatim>\<open>str\<close> so far. An argument is a 64-bit slot or a string, as the calling convention passes it. \<open>None\<close> stands
  for behaviour that C leaves undefined: reading past the terminator of the format or past the arguments, reading a
  pointer as a number, and the negation of the least \<^verbatim>\<open>int64_t\<close>.
\<close>

datatype va = VNum u64 | VStr "u8 list"

definition PRINT_TEXT_LEN :: nat where "PRINT_TEXT_LEN = 0x100"

fun va_num :: "va list \<Rightarrow> (u64 \<times> va list) option" where
  "va_num (VNum w # args) = Some (w, args)"
| "va_num _ = None"

fun va_str :: "va list \<Rightarrow> (u8 list \<times> va list) option" where
  "va_str (VStr cs # args) = Some (cs, args)"
| "va_str _ = None"

definition peek :: "u8 list \<Rightarrow> u8" where
  "peek fmt = (case fmt of [] \<Rightarrow> 0 | c # _ \<Rightarrow> c)"

text \<open>\<^verbatim>\<open>%x\<close>: \<open>k + 1\<close> digits are left.\<close>

definition hex_char :: "u8 \<Rightarrow> u8" where
  "hex_char byte = (if byte \<le> 9 then byte + 0x30 else byte + (0x61 - 0xa))"

primrec hex_loop :: "nat \<Rightarrow> u64 \<Rightarrow> bool \<Rightarrow> bool \<Rightarrow> u8 list \<Rightarrow> u8 list" where
  "hex_loop 0 number zero_padding keep_zeros out = out"
| "hex_loop (Suc k) number zero_padding keep_zeros out =
     (let byte = ucast (drop_bit (4 * k) number AND 0xF) :: u8;
          keep_zeros = (if byte \<noteq> 0 \<or> k = 0 then True else keep_zeros)
      in hex_loop k number zero_padding keep_zeros
           (if keep_zeros \<or> zero_padding then out @ [hex_char byte] else out))"

text \<open>
  \<^verbatim>\<open>%u\<close>, \<^verbatim>\<open>%d\<close>: the divisor of the step with \<open>k\<close> digits left behind it is \<open>10 ^ k\<close>; the quotient is counted by repeated
  subtraction.
\<close>

function div_loop :: "nat \<Rightarrow> nat \<Rightarrow> nat \<Rightarrow> nat \<times> nat" where
  "div_loop k number q = (if number \<ge> 10 ^ k then div_loop k (number - 10 ^ k) (q + 1) else (number, q))"
  by pat_completeness auto
termination
  by (relation "measure (\<lambda>(k, number, q). number)") (auto simp: le_eq_less_or_eq intro: diff_less)

declare div_loop.simps [simp del]

primrec dec_loop :: "nat \<Rightarrow> nat \<Rightarrow> bool \<Rightarrow> bool \<Rightarrow> u8 list \<Rightarrow> u8 list" where
  "dec_loop 0 number zero_padding keep_zeros out = out @ [of_nat (number + 0x30)]"
| "dec_loop (Suc k) number zero_padding keep_zeros out =
     (let (number, sw_quotient_value) = div_loop (Suc k) number 0;
          keep_zeros = (if sw_quotient_value \<noteq> 0 then True else keep_zeros)
      in dec_loop k number zero_padding keep_zeros
           (if keep_zeros \<or> zero_padding then out @ [of_nat (sw_quotient_value + 0x30)] else out))"

definition print_hex :: "bool \<Rightarrow> bool \<Rightarrow> u64 \<Rightarrow> u8 list \<Rightarrow> u8 list" where
  "print_hex zero_padding is_long w out =
     (let number = (if is_long then w else ucast (ucast w :: u32)) :: u64
      in hex_loop (if is_long then 16 else 8) number zero_padding False out)"

definition print_dec :: "bool \<Rightarrow> bool \<Rightarrow> bool \<Rightarrow> u64 \<Rightarrow> u8 list \<Rightarrow> u8 list option" where
  "print_dec is_unsigned zero_padding is_long w out =
     (if \<not> is_unsigned then
        let number_signed = (if is_long then sint w else sint (ucast w :: u32)) in
        if number_signed < 0 then
          if number_signed = - (2 ^ 63) then None
          else Some (dec_loop 9 (nat (- number_signed)) zero_padding False (out @ [0x2d]))
        else Some (dec_loop 9 (nat number_signed) zero_padding False out)
      else
        let number = (if is_long then unat w else unat (ucast w :: u32)) in
        Some (dec_loop 9 number zero_padding False out))"

definition print_str :: "u8 list \<Rightarrow> nat \<Rightarrow> u8 list \<Rightarrow> nat \<times> u8 list" where
  "print_str cs len out = (let n = min (length cs) (PRINT_TEXT_LEN - len) in (len + n, out @ take n cs))"

text \<open>The switch on the conversion character.\<close>

definition convert :: "u8 \<Rightarrow> bool \<Rightarrow> bool \<Rightarrow> va list \<Rightarrow> nat \<Rightarrow> u8 list \<Rightarrow> (va list \<times> nat \<times> u8 list) option" where
  "convert c zero_padding is_long args len out =
     (if c = 0x78 then do { (w, args) \<leftarrow> va_num args; Some (args, len, print_hex zero_padding is_long w out) }
      else if c = 0x75 \<or> c = 0x69 \<or> c = 0x64 then
        do { (w, args) \<leftarrow> va_num args; out \<leftarrow> print_dec (c = 0x75) zero_padding is_long w out; Some (args, len, out) }
      else if c = 0x73 then
        do { (cs, args) \<leftarrow> va_str args; let (len, out) = print_str cs len out; Some (args, len, out) }
      else if c = 0x63 then do { (w, args) \<leftarrow> va_num args; Some (args, len, out @ [ucast w]) }
      else if c = 0x25 then Some (args, len, out @ [c])
      else if c = 0x09 then Some (args, len, out @ [0x25, c])
      else if c = 0x0a then Some (args, len, out @ [0x25, 0x0d, 0x0a])
      else Some (args, len, out))"

definition line_feed :: "u8 \<Rightarrow> u8 list \<Rightarrow> u8 list" where
  "line_feed c out = (let out = (if c = 0x0a then out @ [0x0d, 0x0a] else out) in if c = 0x09 then out @ [c] else out)"

definition fmt_flags :: "u8 list \<Rightarrow> bool \<times> bool \<times> u8 list" where
  "fmt_flags fmt =
     (let zero_padding = (peek fmt = 0x30);
          fmt = (if zero_padding then tl fmt else fmt);
          is_long = (peek fmt = 0x6c);
          fmt = (if is_long then tl fmt else fmt)
      in (zero_padding, is_long, fmt))"

lemma fmt_flags_length: "fmt_flags fmt = (z, l, fmt') \<Longrightarrow> length fmt' \<le> length fmt"
  by (auto simp: fmt_flags_def Let_def split: if_splits)

function format_loop :: "u8 list \<Rightarrow> va list \<Rightarrow> nat \<Rightarrow> u8 list \<Rightarrow> u8 list option" where
  "format_loop [] args len out = Some out"
| "format_loop (c # fmt) args len out =
     (if c \<noteq> 0x25 \<and> c \<noteq> 0x0a \<and> c \<noteq> 0x09 then format_loop fmt args len (out @ [c])
      else if c = 0x25 then
        (case fmt_flags fmt of
           (zero_padding, is_long, []) \<Rightarrow> None
         | (zero_padding, is_long, c' # rest) \<Rightarrow>
             do { (args, len, out) \<leftarrow> convert c' zero_padding is_long args len out;
                  format_loop rest args len (line_feed c' out) })
      else format_loop fmt args len (line_feed c out))"
  by pat_completeness auto
termination
  by (relation "measure (\<lambda>(fmt, r). length fmt)") (auto dest!: fmt_flags_length [OF sym])

text \<open>At the end \<^verbatim>\<open>fmt\<close> is at the terminator, so the returned length is that of the empty string.\<close>

definition vsprintk :: "u8 list \<Rightarrow> va list \<Rightarrow> (nat \<times> u8 list) option" where
  "vsprintk fmt args =
     do { out \<leftarrow> format_loop fmt args (min PRINT_TEXT_LEN (length fmt)) []; Some (min PRINT_TEXT_LEN 0, out) }"

subsection \<open>Numerals\<close>

text \<open>The digits of a number, the most significant first: all of \<open>k\<close> digits, and without leading zeros.\<close>

primrec digits :: "nat \<Rightarrow> nat \<Rightarrow> nat \<Rightarrow> nat list" where
  "digits b 0 n = []"
| "digits b (Suc k) n = n div b ^ k # digits b k (n mod b ^ k)"

fun numeral_of :: "nat \<Rightarrow> nat \<Rightarrow> nat list" where
  "numeral_of b n = (if n < b \<or> b < 2 then [n] else numeral_of b (n div b) @ [n mod b])"

declare numeral_of.simps [simp del]

lemma numeral_of_small: "n < b \<Longrightarrow> numeral_of b n = [n]"
  by (subst numeral_of.simps) simp

lemma digits_snoc:
  assumes "n < b ^ Suc k" "0 < b"
  shows "digits b (Suc k) n = digits b k (n div b) @ [n mod b]"
  using assms(1)
proof (induction k arbitrary: n)
  case (Suc k)
  have "n mod b ^ Suc k < b ^ Suc k" using assms(2) by simp
  then have "digits b (Suc k) (n mod b ^ Suc k) = digits b k (n mod b ^ Suc k div b) @ [n mod b ^ Suc k mod b]"
    by (rule Suc.IH)
  moreover have "n mod b ^ Suc k div b = n div b mod b ^ k" using assms(2) by (simp add: mod_mult2_eq div_mult_self4 div_add_self2)
  moreover have "n mod b ^ Suc k mod b = n mod b" by (simp add: mod_mod_cancel)
  ultimately show ?case by (simp only: digits.simps append_Cons power_Suc div_mult2_eq)
qed simp

lemma numeral_of_digits:
  assumes "b ^ k \<le> n" "n < b ^ Suc k" "2 \<le> b"
  shows "numeral_of b n = digits b (Suc k) n"
  using assms(1,2)
proof (induction k arbitrary: n)
  case (Suc k)
  have "n div b < b ^ Suc k" using Suc.prems(2) by (intro less_mult_imp_div_less) (simp add: mult.commute)
  moreover have "b ^ k \<le> n div b" using div_le_mono [OF Suc.prems(1), of b] assms(3) by simp
  ultimately have "numeral_of b (n div b) = digits b (Suc k) (n div b)" using Suc.IH by blast
  moreover have "\<not> n < b"
    using le_trans [OF self_le_power [of b "Suc k"] Suc.prems(1)] assms(3) by simp
  ultimately show ?case
    using digits_snoc [OF Suc.prems(2)] assms(3) by (subst numeral_of.simps) simp
qed (simp add: numeral_of_small)

definition dec_char :: "nat \<Rightarrow> u8" where
  "dec_char d = of_nat (d + 0x30)"

lemma div_loop_divides: "div_loop k n q = (n mod 10 ^ k, q + n div 10 ^ k)"
proof (induction k n q rule: div_loop.induct)
  case (1 k n q)
  show ?case
  proof (cases "10 ^ k \<le> n")
    case True
    then have "n mod 10 ^ k = (n - 10 ^ k) mod 10 ^ k" "n div 10 ^ k = Suc ((n - 10 ^ k) div 10 ^ k)"
      by (simp_all add: le_mod_geq le_div_geq)
    then show ?thesis using 1 True by (subst div_loop.simps) (simp add: One_nat_def)
  qed (subst div_loop.simps, simp)
qed

lemma dec_loop_padded:
  "zp \<or> keep \<Longrightarrow> dec_loop k n zp keep out = out @ map dec_char (digits 10 (Suc k) n)"
  by (induction k arbitrary: n keep out) (auto simp: div_loop_divides dec_char_def)

lemma dec_loop_trimmed:
  "n < 10 ^ Suc k \<Longrightarrow> dec_loop k n False False out = out @ map dec_char (numeral_of 10 n)"
proof (induction k arbitrary: n out)
  case 0
  then show ?case by (simp add: numeral_of_small dec_char_def)
next
  case (Suc k)
  show ?case
  proof (cases "10 ^ Suc k \<le> n")
    case True
    then have "numeral_of 10 n = digits 10 (Suc (Suc k)) n" using Suc.prems by (intro numeral_of_digits) simp_all
    moreover have "0 < n div 10 ^ Suc k" using True by (simp add: div_greater_zero_iff)
    ultimately show ?thesis by (simp add: div_loop_divides dec_loop_padded dec_char_def del: power_Suc)
  next
    case False
    then show ?thesis using Suc.IH [of n out] by (simp add: div_loop_divides del: power_Suc)
  qed
qed

lemma hex_nibble:
  fixes w :: u64
  shows "(ucast (drop_bit (4 * k) w AND 0xF) :: u8) = of_nat (unat w div 16 ^ k mod 16)"
proof -
  have "drop_bit (4 * k) w AND 0xF = take_bit 4 (drop_bit (4 * k) w)" by (simp add: take_bit_eq_mask mask_eq_exp_minus_1)
  moreover have "unat (take_bit 4 (drop_bit (4 * k) w)) = take_bit 4 (drop_bit (4 * k) (take_bit 64 (unat w)))"
    by (simp only: unsigned_take_bit_eq unsigned_drop_bit_eq) simp
  moreover have "take_bit 64 (unat w) = unat w" by (rule take_bit_nat_eq_self) (use unsigned_less [of w, where ?'a = nat] in simp)
  ultimately have "unat (drop_bit (4 * k) w AND 0xF) = unat w div 16 ^ k mod 16"
    by (simp only: take_bit_eq_mod drop_bit_eq_div power_mult) simp
  moreover have "(ucast x :: u8) = of_nat (unat x)" for x :: u64 by simp
  ultimately show ?thesis by metis
qed

lemma mod_power_div:
  assumes "0 < b"
  shows "(n :: nat) mod b ^ Suc k div b ^ k = n div b ^ k mod b"
proof -
  have "n mod b ^ Suc k = b ^ k * (n div b ^ k mod b) + n mod b ^ k" unfolding power_Suc2 by (rule mod_mult2_eq)
  then show ?thesis using assms by (simp del: power_Suc)
qed

lemma hex_loop_padded:
  "zp \<or> keep \<Longrightarrow> hex_loop k w zp keep out = out @ map (\<lambda>d. hex_char (of_nat d)) (digits 16 k (unat w mod 16 ^ k))"
proof (induction k arbitrary: keep out)
  case (Suc k)
  have "unat w mod 16 ^ Suc k div 16 ^ k = unat w div 16 ^ k mod 16" by (rule mod_power_div) simp
  moreover have "unat w mod 16 ^ Suc k mod 16 ^ k = unat w mod 16 ^ k" by (simp add: mod_mod_cancel)
  ultimately show ?case using Suc by (auto simp: hex_nibble Let_def simp del: power_Suc)
qed simp

lemma byte_of_nat_0: "m < 256 \<Longrightarrow> (of_nat m :: u8) = 0 \<longleftrightarrow> m = 0"
  by (auto simp: word_of_nat_eq_0_iff dest: dvd_imp_le)

lemma hex_loop_trimmed:
  "hex_loop (Suc k) w False False out = out @ map (\<lambda>d. hex_char (of_nat d)) (numeral_of 16 (unat w mod 16 ^ Suc k))"
proof (induction k arbitrary: out)
  case 0
  then show ?case by (simp add: numeral_of_small hex_nibble [of 0, simplified])
next
  case (Suc k)
  let ?n = "unat w mod 16 ^ Suc (Suc k)"
  have q: "?n div 16 ^ Suc k = unat w div 16 ^ Suc k mod 16" by (rule mod_power_div) simp
  have r: "?n mod 16 ^ Suc k = unat w mod 16 ^ Suc k" by (simp add: mod_mod_cancel)
  have b: "(of_nat (unat w div 16 ^ Suc k mod 16) :: u8) = 0 \<longleftrightarrow> unat w div 16 ^ Suc k mod 16 = 0"
    by (rule byte_of_nat_0) (simp add: mod_less_divisor [THEN order_less_trans])
  let ?d = "unat w div 16 ^ Suc k mod 16"
  have step: "hex_loop (Suc (Suc k)) w False False out =
      hex_loop (Suc k) w False (?d \<noteq> 0) (if ?d \<noteq> 0 then out @ [hex_char (of_nat ?d)] else out)"
    unfolding hex_loop.simps(2) [of "Suc k"] hex_nibble using b by (simp add: Let_def del: hex_loop.simps power_Suc)
  show ?case
  proof (cases "16 ^ Suc k \<le> ?n")
    case True
    then have "numeral_of 16 ?n = digits 16 (Suc (Suc k)) ?n" by (intro numeral_of_digits) simp_all
    moreover have "0 < ?n div 16 ^ Suc k" using True by (simp add: div_greater_zero_iff)
    ultimately show ?thesis
      unfolding step using q r by (simp add: hex_loop_padded del: hex_loop.simps power_Suc)
  next
    case False
    then have "?n = unat w mod 16 ^ Suc k" "unat w div 16 ^ Suc k mod 16 = 0" using q r by auto
    then show ?thesis unfolding step using Suc.IH [of out] by (simp del: hex_loop.simps power_Suc)
  qed
qed

subsection \<open>What a format string means\<close>

text \<open>The directives of a format, the characters and arguments each stands for, and the text it should produce.\<close>

datatype directive =
  Literal u8 | Newline | Tab | Percent
| Hex bool bool u64 | Unsigned bool bool u64 | Signed bool bool u64
| Text "u8 list" | Character u64

definition flag_chars :: "bool \<Rightarrow> bool \<Rightarrow> u8 list" where
  "flag_chars zero_padding is_long = (if zero_padding then [0x30] else []) @ (if is_long then [0x6c] else [])"

fun format_of :: "directive \<Rightarrow> u8 list" where
  "format_of (Literal c) = [c]"
| "format_of Newline = [0x0a]"
| "format_of Tab = [0x09]"
| "format_of Percent = [0x25, 0x25]"
| "format_of (Hex z l w) = 0x25 # flag_chars z l @ [0x78]"
| "format_of (Unsigned z l w) = 0x25 # flag_chars z l @ [0x75]"
| "format_of (Signed z l w) = 0x25 # flag_chars z l @ [0x64]"
| "format_of (Text cs) = [0x25, 0x73]"
| "format_of (Character w) = [0x25, 0x63]"

fun args_of :: "directive \<Rightarrow> va list" where
  "args_of (Hex z l w) = [VNum w]"
| "args_of (Unsigned z l w) = [VNum w]"
| "args_of (Signed z l w) = [VNum w]"
| "args_of (Text cs) = [VStr cs]"
| "args_of (Character w) = [VNum w]"
| "args_of _ = []"

definition unsigned_value :: "bool \<Rightarrow> u64 \<Rightarrow> nat" where
  "unsigned_value is_long w = (if is_long then unat w else unat w mod 2 ^ 32)"

definition signed_value :: "bool \<Rightarrow> u64 \<Rightarrow> int" where
  "signed_value is_long w = (if is_long then sint w else sint (ucast w :: u32))"

definition decimal :: "bool \<Rightarrow> nat \<Rightarrow> u8 list" where
  "decimal zero_padding n = map dec_char (if zero_padding then digits 10 10 n else numeral_of 10 n)"

definition hexadecimal :: "bool \<Rightarrow> bool \<Rightarrow> nat \<Rightarrow> u8 list" where
  "hexadecimal zero_padding is_long n =
     map (\<lambda>d. hex_char (of_nat d)) (if zero_padding then digits 16 (if is_long then 16 else 8) n else numeral_of 16 n)"

fun render :: "directive \<Rightarrow> u8 list" where
  "render (Literal c) = [c]"
| "render Newline = [0x0d, 0x0a]"
| "render Tab = [0x09]"
| "render Percent = [0x25]"
| "render (Hex z l w) = hexadecimal z l (unsigned_value l w)"
| "render (Unsigned z l w) = decimal z (unsigned_value l w)"
| "render (Signed z l w) = (if signed_value l w < 0 then [0x2d] else []) @ decimal z (nat \<bar>signed_value l w\<bar>)"
| "render (Text cs) = cs"
| "render (Character w) = [ucast w]"

fun directive_ok :: "directive \<Rightarrow> bool" where
  "directive_ok (Literal c) \<longleftrightarrow> c \<noteq> 0x25 \<and> c \<noteq> 0x0a \<and> c \<noteq> 0x09"
| "directive_ok (Unsigned z l w) \<longleftrightarrow> unsigned_value l w < 10 ^ 10"
| "directive_ok (Signed z l w) \<longleftrightarrow> \<bar>signed_value l w\<bar> < 10 ^ 10"
| "directive_ok _ \<longleftrightarrow> True"

fun text_length :: "directive \<Rightarrow> nat" where
  "text_length (Text cs) = length cs"
| "text_length _ = 0"

lemma fmt_flags_chars: "c \<noteq> 0x30 \<Longrightarrow> c \<noteq> 0x6c \<Longrightarrow> fmt_flags (flag_chars z l @ c # fmt) = (z, l, c # fmt)"
  by (cases z; cases l) (simp_all add: fmt_flags_def flag_chars_def peek_def)

lemma fmt_flags_plain: "c \<noteq> 0x30 \<Longrightarrow> c \<noteq> 0x6c \<Longrightarrow> fmt_flags (c # fmt) = (False, False, c # fmt)"
  using fmt_flags_chars [of c False False fmt] by (simp add: flag_chars_def)

lemma unat_low: "unat (ucast (w :: u64) :: u32) = unat w mod 2 ^ 32"
  by (simp add: unsigned_ucast_eq take_bit_eq_mod)

lemma print_dec_loop:
  assumes "n < 10 ^ 10"
  shows "dec_loop 9 n z False out = out @ decimal z n"
proof -
  have "Suc 9 = (10 :: nat)" by simp
  then show ?thesis
    using dec_loop_padded [of z False 9 n out] dec_loop_trimmed [of n 9 out] assms
    by (cases z) (simp_all only: decimal_def if_True if_False simp_thms)
qed

lemma print_dec_unsigned:
  "unsigned_value l w < 10 ^ 10 \<Longrightarrow> print_dec True z l w out = Some (out @ decimal z (unsigned_value l w))"
  by (auto simp: print_dec_def unsigned_value_def unat_low print_dec_loop split: if_splits)

lemma print_dec_signed:
  assumes "\<bar>signed_value l w\<bar> < 10 ^ 10"
  shows "print_dec False z l w out = Some (out @ render (Signed z l w))"
proof -
  have "nat \<bar>signed_value l w\<bar> < 10 ^ 10" using assms by (simp add: nat_less_iff)
  then have "dec_loop 9 (nat \<bar>signed_value l w\<bar>) z False out' = out' @ decimal z (nat \<bar>signed_value l w\<bar>)" for out'
    by (rule print_dec_loop)
  then show ?thesis using assms
    by (auto simp: print_dec_def signed_value_def [symmetric] abs_if Let_def split: if_splits)
qed

lemma print_hex_exact: "print_hex z l w out = out @ render (Hex z l w)"
proof -
  let ?k = "if l then 15 else 7 :: nat" and ?w = "if l then w else ucast (ucast w :: u32) :: u64"
  have k: "Suc ?k = (if l then 16 else 8)" by simp
  have "unat (ucast (ucast w :: u32) :: u64) = unat w mod 2 ^ 32"
    unfolding unsigned_ucast_eq [of "ucast w :: u32"] unat_low by (simp add: take_bit_eq_mod mod_mod_cancel)
  then have n: "unat ?w mod 16 ^ (if l then 16 else 8) = unsigned_value l w"
    using unsigned_less [of w, where ?'a = nat] by (simp add: unsigned_value_def)
  show ?thesis
    using hex_loop_padded [of z False "Suc ?k" ?w out] hex_loop_trimmed [of ?k ?w out] n
    unfolding k print_hex_def by (cases z; cases l) (simp_all only: hexadecimal_def Let_def if_True if_False simp_thms render.simps)
qed

lemma format_loop_directive:
  assumes "directive_ok d" "len + text_length d \<le> PRINT_TEXT_LEN"
  shows "format_loop (format_of d @ fmt) (args_of d @ args) len out = format_loop fmt args (len + text_length d) (out @ render d)"
  using assms
  by (cases d) (auto simp: fmt_flags_chars fmt_flags_plain convert_def line_feed_def print_hex_exact print_dec_unsigned print_dec_signed
      print_str_def min_def simp del: render.simps(5,7))

lemma format_loop_renders:
  assumes "list_all directive_ok ds" "len + sum_list (map text_length ds) \<le> PRINT_TEXT_LEN"
  shows "format_loop (concat (map format_of ds)) (concat (map args_of ds)) len out = Some (out @ concat (map render ds))"
  using assms by (induction ds arbitrary: len out) (simp_all add: format_loop_directive del: format_loop.simps(2))

text \<open>
  \<^verbatim>\<open>vsprintk\<close> on a format made of any sequence of directives produces exactly the concatenation of their texts, if the
  decimal numbers have at most ten digits and the format and its string arguments fit in \<^verbatim>\<open>PRINT_TEXT_LEN\<close>
  characters: decimal and hexadecimal numerals with the right digits, signs, padding and widths, strings in full, line feeds as
  carriage return and line feed. The value it returns is always \<open>0\<close>.
\<close>

lemma vsprintk_text:
  assumes "list_all directive_ok ds"
    "length (concat (map format_of ds)) + sum_list (map text_length ds) \<le> PRINT_TEXT_LEN"
  shows "vsprintk (concat (map format_of ds)) (concat (map args_of ds)) = Some (0, concat (map render ds))"
proof -
  have "min PRINT_TEXT_LEN (length (concat (map format_of ds))) = length (concat (map format_of ds))" using assms(2) by simp
  then show ?thesis using format_loop_renders [OF assms, of "[]"] by (simp add: vsprintk_def)
qed

text \<open>The format \<^verbatim>\<open>"%d,%x"\<close> on \<open>- 120\<close> and \<open>255\<close> gives \<^verbatim>\<open>-120,ff\<close>.\<close>

lemma vsprintk_example:
  "vsprintk [0x25, 0x64, 0x2c, 0x25, 0x78] [VNum (- 120), VNum 255] = Some (0, [0x2d, 0x31, 0x32, 0x30, 0x2c, 0x66, 0x66])"
proof -
  let ?ds = "[Signed False False (- 120), Literal 0x2c, Hex False False 255]"
  have v: "signed_value False (- 120) = - 120" "unsigned_value False 255 = 255" by code_simp+
  have "numeral_of 10 120 = [1, 2, 0]" "numeral_of 16 255 = [15, 15]"
    by (simp_all add: numeral_of.simps [of 10] numeral_of.simps [of 16])
  then have "concat (map render ?ds) = [0x2d, 0x31, 0x32, 0x30, 0x2c, 0x66, 0x66]"
    by (simp add: v decimal_def hexadecimal_def dec_char_def hex_char_def)
  moreover have "vsprintk (concat (map format_of ?ds)) (concat (map args_of ?ds)) = Some (0, concat (map render ?ds))"
    by (rule vsprintk_text) (simp_all add: v flag_chars_def PRINT_TEXT_LEN_def)
  ultimately show ?thesis by (simp add: flag_chars_def)
qed

text \<open>The bound of ten digits is needed: \<^verbatim>\<open>"%lu"\<close> on \<open>10 ^ 10\<close> writes a colon for the first two digits.\<close>

lemma vsprintk_eleven_digits:
  "vsprintk [0x25, 0x6c, 0x75] [VNum (10 ^ 10)] = Some (0, 0x3a # replicate 9 0x30)"
  by code_simp

lemma vsprintk_trailing_percent: "vsprintk [0x25] [] = None"
  by (simp add: vsprintk_def fmt_flags_def peek_def)

end
