(* ===== verification/Console.thy ===== *)
theory Console
  imports Printk Mem_Map
begin

text \<open>
  The console: the driver of the serial port of the platform (\<^verbatim>\<open>platform/drivers/8250_uart\<close>), \<^verbatim>\<open>core/console.c\<close> and
  \<^verbatim>\<open>printk\<close> of \<^verbatim>\<open>lib/printk.c\<close>.

  The line status register is written by the device: \<open>u_lsr n\<close> is the value the \<open>n\<close>-th read returns and \<open>u_reads\<close> counts
  the reads. \<open>u_tx\<close> are the values written to the transmit register so far. Waiting for a device that never becomes ready
  does not return, which is \<open>None\<close>; so is a text that does not fit into the buffer of \<^verbatim>\<open>printk\<close>.
\<close>

record uart8250 =
  u_lcr :: u32
  u_ier :: u32
  u_fcr :: u32
  u_mcr :: u32
  u_msr :: u32
  u_lsr :: "nat \<Rightarrow> u32"
  u_reads :: nat
  u_tx :: "u32 list"

definition UART8250_LSR_THRE :: u32 where "UART8250_LSR_THRE = 0x20"
definition UART8250_LCR_DLAB :: u32 where "UART8250_LCR_DLAB = 0x80"
definition UART8250_LCR_8BIT :: u32 where "UART8250_LCR_8BIT = 0x3"
definition UART8250_FCR_EN :: u32 where "UART8250_FCR_EN = 0x1"

definition uart_init :: "uart8250 \<Rightarrow> uart8250" where
  "uart_init u =
     (let u = u\<lparr>u_lcr := u_lcr u OR UART8250_LCR_DLAB\<rparr>;
          u = u\<lparr>u_lcr := u_lcr u AND NOT UART8250_LCR_DLAB\<rparr>;
          u = u\<lparr>u_lcr := UART8250_LCR_8BIT\<rparr>;
          u = u\<lparr>u_ier := 0\<rparr>;
          u = u\<lparr>u_mcr := 0\<rparr>;
          u = u\<lparr>u_reads := u_reads u + 1\<rparr>
      in u\<lparr>u_msr := 0\<rparr>)"

definition uart_enable :: "uart8250 \<Rightarrow> uart8250" where
  "uart_enable u = u\<lparr>u_fcr := UART8250_FCR_EN\<rparr>"

partial_function (option) uart_wait :: "uart8250 \<Rightarrow> uart8250 option" where
  [code]: "uart_wait u =
     (let lsr = u_lsr u (u_reads u); u = u\<lparr>u_reads := u_reads u + 1\<rparr> in
      if lsr AND UART8250_LSR_THRE = 0 then uart_wait u else Some u)"

definition uart_putc :: "8 word \<Rightarrow> uart8250 \<Rightarrow> uart8250 option" where
  "uart_putc c u = do { u \<leftarrow> uart_wait u; Some (u\<lparr>u_tx := u_tx u @ [scast c]\<rparr>) }"

primrec uart_puts :: "u8 list \<Rightarrow> uart8250 \<Rightarrow> uart8250 option" where
  "uart_puts [] u = Some u"
| "uart_puts (c # str) u = (if c \<noteq> 0 then do { u \<leftarrow> uart_putc c u; uart_puts str u } else Some u)"

record console =
  con_uart :: uart8250
  con_ready :: bool

text \<open>\<open>uart_va\<close> is the address of the object \<^verbatim>\<open>uart\<close>, \<open>uart_size\<close> its size, \<open>base\<close> is \<^verbatim>\<open>platform.console.base\<close>.\<close>

definition console_init ::
  "mem_env \<Rightarrow> addr_space \<Rightarrow> nat \<Rightarrow> nat \<Rightarrow> nat \<Rightarrow> console \<times> mm \<Rightarrow> (console \<times> mm) option" where
  "console_init e cas uart_va uart_size base cs =
     (let (c, s) = cs in
      do { (r, s) \<leftarrow> mem_map_dev e cas uart_va base (NUM_PAGES uart_size) s;
           let u = uart_init (con_uart c);
           let u = uart_enable u;
           Some (c\<lparr>con_uart := u, con_ready := True\<rparr>, s) })"

definition console_write :: "u8 list \<Rightarrow> console \<Rightarrow> console option" where
  "console_write str c =
     (if \<not> con_ready c then Some c else do { u \<leftarrow> uart_puts str (con_uart c); Some (c\<lparr>con_uart := u\<rparr>) })"

definition printk :: "u8 list \<Rightarrow> va list \<Rightarrow> console \<Rightarrow> (nat \<times> console) option" where
  "printk fmt args c =
     do { (i, print_buffer) \<leftarrow> vsprintk fmt args;
          if length print_buffer < PRINT_TEXT_LEN
          then do { c \<leftarrow> console_write print_buffer c; Some (i, c) }
          else None }"

subsection \<open>Output\<close>

text \<open>The device keeps becoming ready: after every read there is one that shows an empty transmit register.\<close>

definition keeps_ready :: "uart8250 \<Rightarrow> bool" where
  "keeps_ready u \<longleftrightarrow> (\<forall>n. \<exists>k \<ge> n. u_lsr u k AND UART8250_LSR_THRE \<noteq> 0)"

lemma uart_wait_returns:
  assumes "u_lsr u k AND UART8250_LSR_THRE \<noteq> 0" "u_reads u \<le> k"
  shows "\<exists>r. uart_wait u = Some (u\<lparr>u_reads := r\<rparr>)"
  using assms
proof (induction "k - u_reads u" arbitrary: u)
  case 0
  then show ?case by (subst uart_wait.simps) auto
next
  case (Suc n)
  have "n = k - (u_reads u + 1)" "u_reads u + 1 \<le> k" using Suc.hyps(2) by auto
  then obtain r where "uart_wait (u\<lparr>u_reads := u_reads u + 1\<rparr>) = Some (u\<lparr>u_reads := r\<rparr>)"
    using Suc.hyps(1) [of "u\<lparr>u_reads := u_reads u + 1\<rparr>"] Suc.prems(1) by auto
  then show ?case by (subst uart_wait.simps) (auto simp: Let_def)
qed

lemma uart_putc_sends:
  assumes "keeps_ready u"
  shows "\<exists>u'. uart_putc c u = Some u' \<and> u_tx u' = u_tx u @ [scast c] \<and> keeps_ready u'"
proof -
  obtain k where "u_reads u \<le> k" "u_lsr u k AND UART8250_LSR_THRE \<noteq> 0" using assms by (auto simp: keeps_ready_def)
  then obtain r where "uart_wait u = Some (u\<lparr>u_reads := r\<rparr>)" using uart_wait_returns by blast
  then show ?thesis using assms by (simp add: uart_putc_def keeps_ready_def)
qed

lemma uart_puts_sends:
  assumes "keeps_ready u" "0 \<notin> set str"
  shows "\<exists>u'. uart_puts str u = Some u' \<and> u_tx u' = u_tx u @ map scast str \<and> keeps_ready u'"
  using assms
proof (induction str arbitrary: u)
  case (Cons c str)
  then show ?case using uart_putc_sends [OF Cons.prems(1), of c] by fastforce
qed simp


definition console_example :: console where
  "console_example = \<lparr>con_uart = \<lparr>u_lcr = 3, u_ier = 0, u_fcr = 1, u_mcr = 0, u_msr = 0, u_lsr = (\<lambda>n. if even n then 0 else 0x60),
     u_reads = 0, u_tx = []\<rparr>, con_ready = True\<rparr>"


end
