(* ===== verification/Table_Tree.thy ===== *)
theory Table_Tree
  imports Map_Props
begin

text \<open>
  The page tables of an address space as a tree in memory: the tables that the walk can reach, the frames they occupy, and
  the frames the address space maps.
\<close>

inductive reach :: "page_table \<Rightarrow> ptmem \<Rightarrow> nat \<Rightarrow> nat \<Rightarrow> bool" for pt m where
  reach_root: "reach pt m 0 (pt_root pt)"
| reach_child: "reach pt m l b \<Longrightarrow> l < 2 \<Longrightarrow> i < pt_nentries pt l \<Longrightarrow> pte_table (m (b + 8 * i)) \<Longrightarrow>
    reach pt m (Suc l) (pte_addr (m (b + 8 * i)))"

inductive_cases reach_0E: "reach pt m 0 b"
inductive_cases reach_SucE: "reach pt m (Suc l) b"

definition table_frames :: "page_table \<Rightarrow> nat \<Rightarrow> nat \<Rightarrow> nat set" where
  "table_frames pt l b = {b div PAGE_SIZE ..< b div PAGE_SIZE + pt_size pt l div PAGE_SIZE}"

definition tables_of :: "page_table \<Rightarrow> ptmem \<Rightarrow> nat set" where
  "tables_of pt m = {f. \<exists>l b. reach pt m l b \<and> f \<in> table_frames pt l b}"

definition slot :: "page_table \<Rightarrow> ptmem \<Rightarrow> nat \<Rightarrow> nat \<Rightarrow> bool" where
  "slot pt m l p \<longleftrightarrow> (\<exists>b i. reach pt m l b \<and> i < pt_nentries pt l \<and> p = b + 8 * i)"

definition leaf_frames :: "page_table \<Rightarrow> nat \<Rightarrow> u64 \<Rightarrow> nat set" where
  "leaf_frames pt l w =
     {pte_addr w div pt_lvlsize pt l * (pt_lvlsize pt l div PAGE_SIZE) ..<
      (pte_addr w div pt_lvlsize pt l + 1) * (pt_lvlsize pt l div PAGE_SIZE)}"

text \<open>The frames that addresses can translate to.\<close>

definition mapped :: "page_table \<Rightarrow> ptmem \<Rightarrow> nat set" where
  "mapped pt m = {f. \<exists>l p. slot pt m l p \<and> pte_valid (m p) \<and> \<not> pte_table (m p) \<and> f \<in> leaf_frames pt l (m p)}"

text \<open>
  The tables form a tree: no two of them share a frame. The entries of the last level are not tables, the root is aligned to
  its size, and the tables lie in frames of \<open>U\<close>, which does not contain the frame of the null pointer.
\<close>

definition tree :: "page_table \<Rightarrow> ptmem \<Rightarrow> nat set \<Rightarrow> bool" where
  "tree pt m U \<longleftrightarrow>
     sv39 pt \<and> pt_size pt 0 dvd pt_root pt \<and> tables_of pt m \<subseteq> U \<and> 0 \<notin> U \<and>
     (\<forall>l b l' b'. reach pt m l b \<longrightarrow> reach pt m l' b' \<longrightarrow> table_frames pt l b \<inter> table_frames pt l' b' \<noteq> {} \<longrightarrow> l = l' \<and> b = b') \<and>
     (\<forall>p. slot pt m 2 p \<longrightarrow> \<not> pte_table (m p))"

lemma treeD:
  assumes "tree pt m U"
  shows "sv39 pt" "pt_size pt 0 dvd pt_root pt" "tables_of pt m \<subseteq> U" "0 \<notin> U" "slot pt m 2 p \<Longrightarrow> \<not> pte_table (m p)"
    "reach pt m l b \<Longrightarrow> reach pt m l' b' \<Longrightarrow> table_frames pt l b \<inter> table_frames pt l' b' \<noteq> {} \<Longrightarrow> l = l' \<and> b = b'"
  using assms unfolding tree_def by blast+

subsection \<open>Sizes\<close>

lemma level_cases: "l < 3 \<longleftrightarrow> l = 0 \<or> l = 1 \<or> l = (2 :: nat)"
  by auto

lemma sv39_values:
  assumes "sv39 pt"
  shows "pt_lvlsize pt 0 = 0x40000000" "pt_lvlsize pt 1 = 0x200000" "pt_lvlsize pt 2 = 0x1000"
    "pt_nentries pt 0 = 512 \<or> pt_nentries pt 0 = 2048" "pt_nentries pt 1 = 512" "pt_nentries pt 2 = 512"
  using assms by (auto simp: sv39_def sv39_pt_dscr_def sv39x4_pt_dscr_def pt_nentries_def pt_lvlsize_def)

lemma sv39_size:
  assumes "sv39 pt" "l < 3"
  shows "pt_size pt l = 8 * pt_nentries pt l" "PAGE_SIZE dvd pt_size pt l" "0 < pt_nentries pt l" "l \<noteq> 0 \<Longrightarrow> pt_size pt l = PAGE_SIZE"
    "pt_size pt l div PAGE_SIZE \<in> {1, 4}" "PAGE_SIZE dvd pt_lvlsize pt l" "pt_lvlsize pt l dvd 0x40000000" "0 < pt_lvlsize pt l"
    "l \<noteq> 0 \<Longrightarrow> pt_nentries pt l = 512"
proof -
  note v = sv39_values [OF assms(1)]
  show n: "l \<noteq> 0 \<Longrightarrow> pt_nentries pt l = 512" using assms(2) v unfolding level_cases by auto
  show z: "pt_size pt l = 8 * pt_nentries pt l" by (simp add: pt_size_def)
  have "pt_nentries pt l = 512 \<or> pt_nentries pt l = 2048" using n v(4) by (cases "l = 0") auto
  then show "PAGE_SIZE dvd pt_size pt l" "0 < pt_nentries pt l" "pt_size pt l div PAGE_SIZE \<in> {1, 4}"
    unfolding z by (auto simp: PAGE_SIZE_def)
  show "l \<noteq> 0 \<Longrightarrow> pt_size pt l = PAGE_SIZE" using n z by (simp add: PAGE_SIZE_def)
  show "PAGE_SIZE dvd pt_lvlsize pt l" "pt_lvlsize pt l dvd 0x40000000" "0 < pt_lvlsize pt l"
    using assms(2) v unfolding level_cases by (auto simp: PAGE_SIZE_def)
qed

lemma reach_level: "reach pt m l b \<Longrightarrow> l < 3"
  by (cases rule: reach.cases) auto

lemma pte_addr_page: "PAGE_SIZE dvd pte_addr w"
proof -
  have "take_bit 12 (push_bit 2 w AND PTE_ADDR_MSK) = 0"
    by (rule bit_word_eqI) (auto simp: pt_simps bm_simps bit_simps)
  then have "take_bit 12 (pte_addr w) = 0" unfolding pte_addr_def by (metis unsigned_0 unsigned_take_bit_eq)
  then show ?thesis by (simp add: take_bit_eq_mod PAGE_SIZE_def dvd_eq_mod_eq_0)
qed

lemma reach_aligned:
  assumes "reach pt m l b" "tree pt m U"
  shows "pt_size pt l dvd b" "PAGE_SIZE dvd b"
proof -
  show "pt_size pt l dvd b" using assms(1)
  proof cases
    case (reach_child k c i)
    then show ?thesis using sv39_size(4) [OF treeD(1) [OF assms(2)] reach_level [OF assms(1)]] pte_addr_page by simp
  qed (use treeD(2) [OF assms(2)] in simp)
  then show "PAGE_SIZE dvd b"
    using sv39_size(2) [OF treeD(1) [OF assms(2)] reach_level [OF assms(1)]] by (rule dvd_trans [rotated])
qed

lemma slot_frame:
  assumes "tree pt m U" "reach pt m l b" "i < pt_nentries pt l"
  shows "(b + 8 * i) div PAGE_SIZE \<in> table_frames pt l b"
proof -
  note z = sv39_size [OF treeD(1) [OF assms(1)] reach_level [OF assms(2)]]
  obtain k where k: "b = PAGE_SIZE * k" using reach_aligned(2) [OF assms(2,1)] by (elim dvdE)
  have "8 * i < pt_size pt l div PAGE_SIZE * PAGE_SIZE" using assms(3) z(1,2) by simp
  then have "8 * i div PAGE_SIZE < pt_size pt l div PAGE_SIZE" by (rule less_mult_imp_div_less)
  moreover have "(b + 8 * i) div PAGE_SIZE = k + 8 * i div PAGE_SIZE" "b div PAGE_SIZE = k"
    using PAGE_SIZE_pos(2) unfolding k by simp_all
  ultimately show ?thesis unfolding table_frames_def by simp
qed

lemma slot_tables: "tree pt m U \<Longrightarrow> slot pt m l p \<Longrightarrow> p div PAGE_SIZE \<in> tables_of pt m"
  unfolding slot_def tables_of_def using slot_frame by blast

lemma slot_nonnull:
  assumes "tree pt m U" "slot pt m l p"
  shows "p \<noteq> 0"
proof
  assume "p = 0"
  then have "0 \<in> U" using slot_tables [OF assms] treeD(3) [OF assms(1)] by auto
  then show False using treeD(4) [OF assms(1)] by simp
qed

lemma slot_level: "slot pt m l p \<Longrightarrow> l < 3"
  unfolding slot_def using reach_level by blast

lemma slot_unique:
  assumes "tree pt m U" "reach pt m l b" "i < pt_nentries pt l" "reach pt m l' b'" "i' < pt_nentries pt l'" "b + 8 * i = b' + 8 * i'"
  shows "l = l'" "b = b'" "i = i'"
proof -
  have "table_frames pt l b \<inter> table_frames pt l' b' \<noteq> {}"
    using slot_frame [OF assms(1-3)] slot_frame [OF assms(1,4,5)] assms(6) by auto
  then show "l = l'" "b = b'" using treeD(6) [OF assms(1,2,4)] by auto
  then show "i = i'" using assms(6) by simp
qed

lemma slot_same_level:
  assumes "tree pt m U" "slot pt m l p" "slot pt m l' p"
  shows "l = l'"
proof -
  obtain b i where "reach pt m l b" "i < pt_nentries pt l" "p = b + 8 * i" using assms(2) unfolding slot_def by blast
  moreover obtain b' i' where "reach pt m l' b'" "i' < pt_nentries pt l'" "p = b' + 8 * i'" using assms(3) unfolding slot_def by blast
  ultimately show ?thesis using slot_unique(1) [OF assms(1)] by metis
qed

subsection \<open>Walks stay inside the tables\<close>

lemma index_va_lt: "sv39 pt \<Longrightarrow> l < 3 \<Longrightarrow> pt_getpteindex_by_va pt va l < pt_nentries pt l"
  using sv39_size(3) [of pt l] by (simp add: pt_getpteindex_by_va_def)

lemma tables_above_mono: "tables_above pt m va l \<Longrightarrow> k \<le> l \<Longrightarrow> tables_above pt m va k"
  by (simp add: tables_above_def)

lemma tables_above_Suc: "tables_above pt m va (Suc l) \<longleftrightarrow> tables_above pt m va l \<and> pte_table (m (entry_at pt m va l))"
  by (auto simp: tables_above_def less_Suc_eq)

text \<open>The table that the walk for \<open>va\<close> reaches at level \<open>l\<close>.\<close>

definition table_at :: "page_table \<Rightarrow> ptmem \<Rightarrow> nat \<Rightarrow> nat \<Rightarrow> nat" where
  "table_at pt m va l = (if l = 0 then pt_root pt else pte_addr (m (entry_at pt m va (l - 1))))"

lemma entry_table: "entry_at pt m va l = table_at pt m va l + 8 * pt_getpteindex_by_va pt va l"
  by (cases l) (simp_all add: table_at_def)

lemma table_at_reach:
  assumes "sv39 pt" "tables_above pt m va l" "l < 3"
  shows "reach pt m l (table_at pt m va l)"
  using assms(2,3)
proof (induction l)
  case 0
  then show ?case by (simp add: table_at_def reach_root)
next
  case (Suc l)
  then have "reach pt m l (table_at pt m va l)" "pte_table (m (entry_at pt m va l))" by (simp_all add: tables_above_Suc)
  moreover have "pt_getpteindex_by_va pt va l < pt_nentries pt l" using index_va_lt [OF assms(1)] Suc.prems(2) by simp
  ultimately show ?case
    using reach_child [of pt m l "table_at pt m va l" "pt_getpteindex_by_va pt va l"] Suc.prems(2)
    by (simp add: entry_table table_at_def [of _ _ _ "Suc l"])
qed

lemma entry_slot:
  assumes "sv39 pt" "tables_above pt m va l" "l < 3"
  shows "slot pt m l (entry_at pt m va l)"
  unfolding slot_def entry_table using table_at_reach [OF assms] index_va_lt [OF assms(1,3)] by blast

text \<open>Every walk ends at a level whose entry is not a table.\<close>

lemma walk_ends:
  assumes "tree pt m U"
  obtains l where "l < 3" "tables_above pt m va l" "\<not> pte_table (m (entry_at pt m va l))"
proof -
  note sv = treeD(1) [OF assms]
  have "\<exists>l < 3. tables_above pt m va l \<and> \<not> pte_table (m (entry_at pt m va l))"
  proof (rule ccontr)
    assume "\<not> ?thesis"
    then have n: "pte_table (m (entry_at pt m va l))" if "l < 3" "tables_above pt m va l" for l using that by blast
    have "tables_above pt m va 0" by (simp add: tables_above_def)
    then have "tables_above pt m va (Suc 0)" using n [of 0] by (simp add: tables_above_Suc)
    then have t: "tables_above pt m va 2" using n [of "Suc 0"] by (simp add: tables_above_Suc numeral_2_eq_2)
    then have "slot pt m 2 (entry_at pt m va 2)" using entry_slot [OF sv] by simp
    then show False using n [OF _ t] treeD(5) [OF assms] by simp
  qed
  then show thesis using that by blast
qed

lemma leaf_frame_of:
  assumes "sv39 pt" "l < 3"
  shows "(pte_addr w div pt_lvlsize pt l * pt_lvlsize pt l + va mod pt_lvlsize pt l) div PAGE_SIZE \<in> leaf_frames pt l w"
proof -
  let ?z = "pt_lvlsize pt l"
  obtain k where k: "?z = PAGE_SIZE * k" using sv39_size(6) [OF assms] by (elim dvdE)
  have "va mod ?z < ?z" using sv39_size(8) [OF assms] by simp
  then have "va mod ?z div PAGE_SIZE < k" unfolding k by (simp add: less_mult_imp_div_less mult.commute)
  moreover have "(pte_addr w div ?z * ?z + va mod ?z) div PAGE_SIZE = pte_addr w div ?z * k + va mod ?z div PAGE_SIZE"
    using PAGE_SIZE_pos(2) div_mult_self3 [of PAGE_SIZE "pte_addr w div ?z * k" "va mod ?z"] unfolding k by (simp add: ac_simps)
  moreover have "?z div PAGE_SIZE = k" using PAGE_SIZE_pos(2) unfolding k by simp
  ultimately show ?thesis by (simp add: leaf_frames_def add_mult_distrib)
qed

lemma translate_mapped:
  assumes "tree pt m U" "mem_translate pt m va = Some pa"
  shows "pa div PAGE_SIZE \<in> mapped pt m"
proof -
  obtain l where l: "l < 3" "tables_above pt m va l" "\<not> pte_table (m (entry_at pt m va l))" using walk_ends [OF assms(1)] .
  note sv = treeD(1) [OF assms(1)]
  have "l < pt_lvls (pt_dscr pt)" using l(1) sv39_lvls [OF sv] by simp
  from mem_translate_leaf [OF this l(2,3)] assms(2)
  have "pte_valid (m (entry_at pt m va l))"
    "pa = pte_addr (m (entry_at pt m va l)) div pt_lvlsize pt l * pt_lvlsize pt l + va mod pt_lvlsize pt l"
    by (auto simp: Let_def split: if_splits)
  then show ?thesis
    using entry_slot [OF sv l(2,1)] leaf_frame_of [OF sv l(1)] l(3) unfolding mapped_def by blast
qed

subsection \<open>Writes\<close>

text \<open>Writing an entry that is not a table adds no table.\<close>

lemma reach_leaf_write:
  assumes "\<not> pte_table w"
  shows "reach pt (m(p := w)) l b \<Longrightarrow> reach pt m l b"
proof (induction rule: reach.induct)
  case (reach_child l b i)
  then have "b + 8 * i \<noteq> p" using assms by (auto simp: fun_upd_def split: if_splits)
  then show ?case using reach_child by (auto intro: reach.reach_child)
qed (rule reach_root)

lemma slot_leaf_write: "\<not> pte_table w \<Longrightarrow> slot pt (m(p := w)) l q \<Longrightarrow> slot pt m l q"
  unfolding slot_def using reach_leaf_write by blast

lemma tables_leaf_write: "\<not> pte_table w \<Longrightarrow> tables_of pt (m(p := w)) \<subseteq> tables_of pt m"
  unfolding tables_of_def using reach_leaf_write by blast

lemma tree_leaf_write:
  assumes "tree pt m U" "\<not> pte_table w"
  shows "tree pt (m(p := w)) U"
proof -
  have "\<not> pte_table ((m(p := w)) q)" if "slot pt (m(p := w)) 2 q" for q
    using treeD(5) [OF assms(1) slot_leaf_write [OF assms(2) that]] assms(2) by simp
  moreover have "tables_of pt (m(p := w)) \<subseteq> U" using tables_leaf_write [OF assms(2)] treeD(3) [OF assms(1)] by blast
  ultimately show ?thesis
    using treeD(1,2,4) [OF assms(1)] treeD(6) [OF assms(1)] reach_leaf_write [OF assms(2)] unfolding tree_def by blast
qed

lemma mapped_leaf_write:
  assumes "tree pt m U" "\<not> pte_table w" "slot pt m l p" "pte_valid w \<Longrightarrow> leaf_frames pt l w \<subseteq> G"
  shows "mapped pt (m(p := w)) \<subseteq> mapped pt m \<union> G"
proof
  fix f assume "f \<in> mapped pt (m(p := w))"
  then obtain k q where q: "slot pt (m(p := w)) k q" "pte_valid ((m(p := w)) q)" "\<not> pte_table ((m(p := w)) q)"
      "f \<in> leaf_frames pt k ((m(p := w)) q)" unfolding mapped_def by blast
  have s: "slot pt m k q" using slot_leaf_write [OF assms(2) q(1)] .
  show "f \<in> mapped pt m \<union> G"
  proof (cases "q = p")
    case True
    then show ?thesis using slot_same_level [OF assms(1,3)] s q(2,4) assms(4) by auto
  next
    case False
    then show ?thesis using s q(2-4) unfolding mapped_def by auto
  qed
qed

text \<open>Writing an entry of level \<open>l\<close> leaves the tables of the levels up to \<open>l\<close> where they are.\<close>

lemma reach_kept:
  assumes "reach pt m k b" "tree pt m U" "\<And>j p. slot pt m j p \<Longrightarrow> j < k \<Longrightarrow> m' p = m p"
  shows "reach pt m' k b"
  using assms
proof (induction rule: reach.induct)
  case (reach_child l b i)
  then have "slot pt m l (b + 8 * i)" unfolding slot_def by blast
  then have "m' (b + 8 * i) = m (b + 8 * i)" using reach_child.prems(2) by blast
  moreover have "reach pt m' l b" using reach_child by (metis less_SucI)
  ultimately show ?case using reach_child.hyps reach.reach_child [of pt m' l b i] by simp
qed (rule reach_root)

lemma entry_kept:
  assumes "sv39 pt" "tables_above pt m va l" "l \<le> 3" "\<And>j p. slot pt m j p \<Longrightarrow> j < l \<Longrightarrow> pte_table (m p) \<Longrightarrow> m' p = m p"
  shows "tables_above pt m' va l" "k \<le> l \<Longrightarrow> entry_at pt m' va k = entry_at pt m va k"
proof -
  have "tables_above pt m' va l \<and> (\<forall>k \<le> l. entry_at pt m' va k = entry_at pt m va k)"
    using assms(2-4)
  proof (induction l)
    case 0
    then show ?case by (simp add: tables_above_def)
  next
    case (Suc l)
    then have t: "tables_above pt m va l" "pte_table (m (entry_at pt m va l))" by (simp_all add: tables_above_Suc)
    then have IH: "tables_above pt m' va l" "\<And>k. k \<le> l \<Longrightarrow> entry_at pt m' va k = entry_at pt m va k"
      using Suc by (auto simp: less_Suc_eq)
    have "m' (entry_at pt m va l) = m (entry_at pt m va l)"
      using Suc.prems(3) [OF entry_slot [OF assms(1) t(1)]] t(2) Suc.prems(2) by simp
    then show ?case using IH t by (auto simp: tables_above_Suc le_Suc_eq)
  qed
  then show "tables_above pt m' va l" "k \<le> l \<Longrightarrow> entry_at pt m' va k = entry_at pt m va k" by blast+
qed

subsection \<open>New tables\<close>

text \<open>The memory after a table at \<open>b\<close> has been entered at \<open>p\<close> and cleared.\<close>

definition with_table :: "ptmem \<Rightarrow> nat \<Rightarrow> nat \<Rightarrow> ptmem" where
  "with_table m p b =
     (\<lambda>a. if b \<le> a \<and> a < b + PAGE_SIZE then 0 else (m(p := pte_set b PTE_TABLE PTE_HYP_FLAGS)) a)"

definition new_table :: "page_table \<Rightarrow> ptmem \<Rightarrow> nat set \<Rightarrow> nat \<Rightarrow> nat \<Rightarrow> nat \<Rightarrow> bool" where
  "new_table pt m U l p b \<longleftrightarrow>
     tree pt m U \<and> slot pt m l p \<and> l < 2 \<and> \<not> pte_table (m p) \<and> PAGE_SIZE dvd b \<and> b < 2 ^ 56 \<and> b div PAGE_SIZE \<notin> U \<and> b \<noteq> 0"

lemma new_tableD:
  assumes "new_table pt m U l p b"
  shows "tree pt m U" "slot pt m l p" "l < 2" "\<not> pte_table (m p)" "PAGE_SIZE dvd b" "b div PAGE_SIZE \<notin> U" "b \<noteq> 0"
    "pte_addr (pte_set b PTE_TABLE PTE_HYP_FLAGS) = b"
  using assms pte_addr_set [of b PTE_TABLE PTE_HYP_FLAGS] unfolding new_table_def by (simp_all add: PTE_TABLE_def)

lemma in_page: "PAGE_SIZE dvd b \<Longrightarrow> b \<le> a \<and> a < b + PAGE_SIZE \<longleftrightarrow> a div PAGE_SIZE = b div PAGE_SIZE"
proof -
  assume "PAGE_SIZE dvd b"
  then obtain k where k: "b = PAGE_SIZE * k" by (elim dvdE)
  have "PAGE_SIZE * (a div PAGE_SIZE) \<le> a" "a < PAGE_SIZE * (a div PAGE_SIZE) + PAGE_SIZE"
    using dividend_less_times_div [of PAGE_SIZE a] by (simp_all add: add.commute)
  then show ?thesis using div_nat_eqI [of PAGE_SIZE k a] unfolding k by auto
qed

lemma with_table_at:
  assumes "new_table pt m U l p b" "slot pt m k q"
  shows "with_table m p b q = (if q = p then pte_set b PTE_TABLE PTE_HYP_FLAGS else m q)"
proof -
  note n = new_tableD [OF assms(1)]
  have "q div PAGE_SIZE \<noteq> b div PAGE_SIZE" using slot_tables [OF n(1) assms(2)] treeD(3) [OF n(1)] n(6) by auto
  then show ?thesis using in_page [OF n(5), of q] by (auto simp: with_table_def)
qed

lemma with_table_new:
  assumes "new_table pt m U l p b" "i < pt_nentries pt (Suc l)"
  shows "with_table m p b (b + 8 * i) = 0"
proof -
  note n = new_tableD [OF assms(1)]
  have "i < 512" using assms(2) sv39_size(9) [OF treeD(1) [OF n(1)], of "Suc l"] n(3) by simp
  then show ?thesis by (simp add: with_table_def PAGE_SIZE_def)
qed

lemma reach_with_table:
  assumes "new_table pt m U l p b"
  shows "reach pt (with_table m p b) k c \<Longrightarrow> reach pt m k c \<or> k = Suc l \<and> c = b"
proof (induction rule: reach.induct)
  case (reach_child k c i)
  note n = new_tableD [OF assms]
  let ?q = "c + 8 * i"
  from reach_child.IH show ?case
  proof (elim disjE conjE)
    assume r: "reach pt m k c"
    then have s: "slot pt m k ?q" using reach_child.hyps unfolding slot_def by blast
    show ?thesis
    proof (cases "?q = p")
      case True
      then have "k = l" using slot_same_level [OF n(1)] s n(2) by blast
      then show ?thesis using with_table_at [OF assms s] n(8) True by simp
    next
      case False
      then have "pte_table (m ?q)" "with_table m p b ?q = m ?q" using with_table_at [OF assms s] reach_child.hyps(4) by simp_all
      then show ?thesis using reach.reach_child [OF r reach_child.hyps(2,3)] by simp
    qed
  next
    assume "k = Suc l" "c = b"
    then have "with_table m p b ?q = 0" using with_table_new [OF assms] reach_child.hyps(3) by simp
    then show ?thesis using reach_child.hyps(4) by (simp add: pte_table_bits)
  qed
qed (use reach_root in blast)

lemma table_frames_new: "new_table pt m U l p b \<Longrightarrow> table_frames pt (Suc l) b = {b div PAGE_SIZE}"
  using sv39_size(4) [OF treeD(1), of pt m U "Suc l"] new_tableD [of pt m U l p b] by (simp add: table_frames_def One_nat_def)

lemma tables_with_table:
  assumes "new_table pt m U l p b"
  shows "tables_of pt (with_table m p b) \<subseteq> insert (b div PAGE_SIZE) (tables_of pt m)"
  using reach_with_table [OF assms] table_frames_new [OF assms] unfolding tables_of_def by blast

lemma slot_with_table:
  assumes "new_table pt m U l p b" "slot pt (with_table m p b) k q"
  shows "slot pt m k q \<or> with_table m p b q = 0"
  using assms(2) reach_with_table [OF assms(1)] with_table_new [OF assms(1)] unfolding slot_def by blast

lemma mapped_with_table:
  assumes "new_table pt m U l p b"
  shows "mapped pt (with_table m p b) \<subseteq> mapped pt m"
proof
  fix f assume "f \<in> mapped pt (with_table m p b)"
  then obtain k q where q: "slot pt (with_table m p b) k q" "pte_valid (with_table m p b q)" "\<not> pte_table (with_table m p b q)"
      "f \<in> leaf_frames pt k (with_table m p b q)" unfolding mapped_def by blast
  have "slot pt m k q" using slot_with_table [OF assms q(1)] q(2) by (auto simp: pte_valid_bit)
  moreover from this have "with_table m p b q = m q" using with_table_at [OF assms] q(3) pte_table_set(1) by (auto split: if_splits)
  ultimately show "f \<in> mapped pt m" using q(2-4) unfolding mapped_def by auto
qed

lemma tree_with_table:
  assumes "new_table pt m U l p b" "U \<subseteq> U'" "b div PAGE_SIZE \<in> U'" "0 \<notin> U'"
  shows "tree pt (with_table m p b) U'"
proof -
  note n = new_tableD [OF assms(1)] and r = reach_with_table [OF assms(1)]
  have old: "table_frames pt k c \<subseteq> U" if "reach pt m k c" for k c
    using that treeD(3) [OF n(1)] unfolding tables_of_def by blast
  have "k = k' \<and> c = c'" if "reach pt (with_table m p b) k c" "reach pt (with_table m p b) k' c'"
    "table_frames pt k c \<inter> table_frames pt k' c' \<noteq> {}" for k c k' c'
    using r [OF that(1)] r [OF that(2)]
  proof (elim disjE conjE)
    assume "reach pt m k c" "reach pt m k' c'"
    then show ?thesis using treeD(6) [OF n(1)] that(3) by blast
  qed (use that(3) old n(6) table_frames_new [OF assms(1)] in auto)
  moreover have "\<not> pte_table (with_table m p b q)" if s: "slot pt (with_table m p b) 2 q" for q
  proof (cases "slot pt m 2 q")
    case True
    then have "q \<noteq> p" using slot_same_level [OF n(1) n(2)] n(3) by blast
    then show ?thesis using with_table_at [OF assms(1) True] treeD(5) [OF n(1) True] by simp
  next
    case False
    then show ?thesis using slot_with_table [OF assms(1) s] by (simp add: pte_table_bits)
  qed
  moreover have "tables_of pt (with_table m p b) \<subseteq> U'"
    using tables_with_table [OF assms(1)] treeD(3) [OF n(1)] assms(2,3) by blast
  ultimately show ?thesis using treeD(1,2) [OF n(1)] assms(4) unfolding tree_def by blast
qed

end
