(* ===== verification/Confinement.thy ===== *)
theory Confinement
  imports Table_Tree
begin

text \<open>
  Operations on one address space leave every other address space alone. \<open>confined as F s s'\<close> says of an operation on the address
  space \<open>as\<close> that took the memory manager from \<open>s\<close> to \<open>s'\<close>: it wrote only to the tables of \<open>as\<close> and to frames it took from
  the pools, its tables are still a tree in allocated frames, and every frame it has mapped in addition was taken from the
  pools by it or is one of \<open>F\<close>.
\<close>

definition used :: "mm \<Rightarrow> nat set" where
  "used s = used_frames (mm_pools s)"

text \<open>All the frames the pools manage, allocated or not.\<close>

definition pooled :: "mm \<Rightarrow> nat set" where
  "pooled s = \<Union> (pool_frames ` set (mm_pools s))"

text \<open>
  Well-formed pools below the physical address limit that do not contain the null pointer and start at an address aligned to the
  largest page. The alignment matters: see \<open>pp_alloc_aligned_misaligned\<close>.
\<close>

definition pools_ok :: "page_pool list \<Rightarrow> bool" where
  "pools_ok pools \<longleftrightarrow> pools_wf pools \<and>
     (\<forall>p \<in> set pools. pool_frames p \<subseteq> {1 ..< 2 ^ 44} \<and> 0x40000000 dvd pp_base p)"

definition as_ok :: "addr_space \<Rightarrow> mm \<Rightarrow> bool" where
  "as_ok as s \<longleftrightarrow> tree (as_pt as) (mm_mem s) (used s) \<and> pools_ok (mm_pools s)"

text \<open>
  The address space does not map its own tables, nor a frame that the pools can still hand out, and neither happens by mapping a
  frame of \<open>F\<close>.
\<close>

definition guarded :: "addr_space \<Rightarrow> nat set \<Rightarrow> mm \<Rightarrow> bool" where
  "guarded as F s \<longleftrightarrow> tables_of (as_pt as) (mm_mem s) \<inter> (mapped (as_pt as) (mm_mem s) \<union> F) = {} \<and>
     (mapped (as_pt as) (mm_mem s) \<union> F) \<inter> pooled s \<subseteq> used s"

definition confined :: "addr_space \<Rightarrow> nat set \<Rightarrow> mm \<Rightarrow> mm \<Rightarrow> bool" where
  "confined as F s s' \<longleftrightarrow>
     as_ok as s' \<and> used s \<subseteq> used s' \<and> pooled s' = pooled s \<and>
     (\<forall>p. mm_mem s' p \<noteq> mm_mem s p \<longrightarrow> p div PAGE_SIZE \<in> tables_of (as_pt as) (mm_mem s) \<union> (used s' - used s)) \<and>
     tables_of (as_pt as) (mm_mem s') \<subseteq> tables_of (as_pt as) (mm_mem s) \<union> (used s' - used s) \<and>
     mapped (as_pt as) (mm_mem s') \<subseteq> mapped (as_pt as) (mm_mem s) \<union> (used s' - used s) \<union> F \<and>
     (guarded as F s \<longrightarrow> guarded as F s')"

lemma confinedD:
  assumes "confined as F s s'"
  shows "as_ok as s'" "used s \<subseteq> used s'"
    "mm_mem s' p \<noteq> mm_mem s p \<Longrightarrow> p div PAGE_SIZE \<in> tables_of (as_pt as) (mm_mem s) \<union> (used s' - used s)"
    "tables_of (as_pt as) (mm_mem s') \<subseteq> tables_of (as_pt as) (mm_mem s) \<union> (used s' - used s)"
    "mapped (as_pt as) (mm_mem s') \<subseteq> mapped (as_pt as) (mm_mem s) \<union> (used s' - used s) \<union> F"
    "pooled s' = pooled s" "guarded as F s \<Longrightarrow> guarded as F s'"
  using assms unfolding confined_def by blast+

lemma confined_refl: "as_ok as s \<Longrightarrow> confined as F s s"
  by (simp add: confined_def)

lemma confined_trans:
  assumes a: "confined as F s t" and b: "confined as F t u"
  shows "confined as F s u"
  unfolding confined_def
proof (intro conjI allI impI)
  show "as_ok as u" using confinedD(1) [OF b] .
  show "guarded as F u" if "guarded as F s" using confinedD(7) [OF b] confinedD(7) [OF a] that by blast
  show "pooled u = pooled s" using confinedD(6) [OF a] confinedD(6) [OF b] by simp
  show uu: "used s \<subseteq> used u" using confinedD(2) [OF a] confinedD(2) [OF b] by blast
  show "tables_of (as_pt as) (mm_mem u) \<subseteq> tables_of (as_pt as) (mm_mem s) \<union> (used u - used s)"
    using confinedD(2,4) [OF a] confinedD(2,4) [OF b] by blast
  show "mapped (as_pt as) (mm_mem u) \<subseteq> mapped (as_pt as) (mm_mem s) \<union> (used u - used s) \<union> F"
    using confinedD(2,5) [OF a] confinedD(2,5) [OF b] by blast
  fix p assume "mm_mem u p \<noteq> mm_mem s p"
  then have "mm_mem t p \<noteq> mm_mem s p \<or> mm_mem u p \<noteq> mm_mem t p" by auto
  then show "p div PAGE_SIZE \<in> tables_of (as_pt as) (mm_mem s) \<union> (used u - used s)"
    using confinedD(3) [OF a, of p] confinedD(3) [OF b, of p] confinedD(2,4) [OF a] confinedD(2) [OF b] by blast
qed

lemma used_pooled: "used s \<subseteq> pooled s"
  using pool_used_subset unfolding used_def pooled_def used_frames_def by blast

lemma confined_mono:
  assumes "confined as F s s'" "F \<subseteq> G"
  shows "confined as G s s'"
proof -
  note c = confinedD [OF assms(1)]
  have "guarded as G s'" if g: "guarded as G s"
  proof -
    have "guarded as F s'" using g assms(2) by (intro c(7)) (auto simp: guarded_def)
    then show ?thesis using g c(2,4,6) used_pooled [of s'] unfolding guarded_def by blast
  qed
  then show ?thesis using assms unfolding confined_def by blast
qed

text \<open>Frames the operation took itself need not be counted in \<open>F\<close>.\<close>

lemma confined_fresh:
  assumes "as_ok as s" "confined as F s t" "mm_mem t = mm_mem s" "confined as (G \<union> F) t u" "G \<subseteq> used t - used s"
  shows "confined as F s u"
proof -
  note c = confinedD [OF assms(2)] and d = confinedD [OF assms(4)]
  have ts: "tables_of (as_pt as) (mm_mem s) \<subseteq> used s" using assms(1) treeD(3) unfolding as_ok_def by blast
  have g: "guarded as F u" if "guarded as F s"
  proof -
    have "guarded as F t" using c(7) that .
    then have "guarded as (G \<union> F) t" using assms(3,5) ts unfolding guarded_def by auto
    then show ?thesis using d(7) unfolding guarded_def by blast
  qed
  have "confined as (G \<union> F) s u" using confined_trans [OF confined_mono [OF assms(2)] assms(4)] by blast
  then show ?thesis using g d(2) assms(5) unfolding confined_def by blast
qed

subsection \<open>The elementary steps\<close>

lemma used_frames_bound: "pools_ok pools \<Longrightarrow> used_frames pools \<subseteq> {1 ..< 2 ^ 44}"
  using pool_used_subset unfolding pools_ok_def used_frames_def by blast

lemma alloc_in_pools_aligned:
  assumes "all_clrs cc colors \<or> aligned" "\<forall>p \<in> set pools. pool_wf p \<and> 0x40000000 dvd pp_base p"
    "alloc_in_pools cc colors n aligned pg pools = Some (pg', pools')" "pg_size pg = 0"
  shows "map pp_base pools' = map pp_base pools \<and>
    (aligned \<and> pg_size pg' \<noteq> 0 \<and> n * PAGE_SIZE dvd 0x40000000 \<longrightarrow> n * PAGE_SIZE dvd pg_base pg')"
  using assms(2-4)
proof (induction pools arbitrary: pg pools')
  case (Cons p ps)
  obtain ok pg1 p1 where a: "pp_alloc p n aligned pg = (ok, pg1, p1)" by (cases "pp_alloc p n aligned pg") auto
  have wf: "pool_wf p" "pp_size p \<le> SIZE_MAX" "0x40000000 dvd pp_base p" using Cons.prems(1) by (simp_all add: pool_wf_def)
  have path: "\<not> (\<not> all_clrs cc colors \<and> \<not> aligned)" using assms(1) by simp
  show ?case
  proof (cases ok)
    case True
    have a1: "pp_alloc p n aligned pg = (True, pg1, p1)" using a True by simp
    have eq: "pg' = pg1" "pools' = p1 # ps" using Cons.prems(2) a path True by auto
    have "pp_base p1 = pp_base p" by (rule pp_alloc_cases [OF a1 wf(2)]) simp_all
    moreover have "n * PAGE_SIZE dvd pg_base pg1" if "aligned" "n * PAGE_SIZE dvd 0x40000000"
    proof -
      have "n * PAGE_SIZE dvd pp_base p" using that(2) wf(3) dvd_trans by blast
      then have "n dvd pp_base p div PAGE_SIZE" by (metis PAGE_SIZE_pos(2) dvd_mult_div_cancel dvd_mult_right mult.commute nat_mult_dvd_cancel1 PAGE_SIZE_pos(1))
      then show ?thesis using pp_alloc_aligned_frame [OF wf(1)] a1 that(1) by simp
    qed
    ultimately show ?thesis using eq by simp
  next
    case False
    have p1: "p1 = p" "pg_size pg1 = 0" by (rule pp_alloc_cases [OF a wf(2)]; use False in simp)+
    obtain ps' where rec: "alloc_in_pools cc colors n aligned pg1 ps = Some (pg', ps')" "pools' = p # ps'"
      using Cons.prems(2) a path False p1 by (auto split: bind_splits)
    then show ?thesis using Cons.IH [OF _ rec(1) p1(2)] Cons.prems(1) by simp
  qed
qed simp

lemma alloc_ok:
  assumes "all_clrs cc colors \<or> aligned" "pools_ok pools" "mem_alloc_ppages cc colors n aligned pools = Some (pg, pools')"
  shows "pools_ok pools'" "used_frames pools \<subseteq> used_frames pools'"
    "pg_size pg = 0 \<or> pg_size pg = n"
    "pg_size pg \<noteq> 0 \<Longrightarrow> page_frames pg \<subseteq> used_frames pools' - used_frames pools"
    "pg_size pg \<noteq> 0 \<Longrightarrow> PAGE_SIZE dvd pg_base pg"
    "pg_size pg \<noteq> 0 \<Longrightarrow> aligned \<Longrightarrow> n * PAGE_SIZE dvd 0x40000000 \<Longrightarrow> n * PAGE_SIZE dvd pg_base pg"
    "pool_frames ` set pools' = pool_frames ` set pools"
proof -
  have wf: "pools_wf pools" using assms(2) by (simp add: pools_ok_def)
  note c = alloc_in_pools_contiguous [of cc colors aligned, unfolded contiguous_request_def, OF assms(1) wf _
      assms(3) [unfolded mem_alloc_ppages_def], simplified]
  have al: "map pp_base pools' = map pp_base pools" "pg_size pg \<noteq> 0 \<Longrightarrow> aligned \<Longrightarrow> n * PAGE_SIZE dvd 0x40000000 \<Longrightarrow> n * PAGE_SIZE dvd pg_base pg"
    using alloc_in_pools_aligned [OF assms(1) _ assms(3) [unfolded mem_alloc_ppages_def]] assms(2)
    by (simp_all add: pools_ok_def pools_wf_def)
  then show "pg_size pg \<noteq> 0 \<Longrightarrow> aligned \<Longrightarrow> n * PAGE_SIZE dvd 0x40000000 \<Longrightarrow> n * PAGE_SIZE dvd pg_base pg" by blast
  show pf: "pool_frames ` set pools' = pool_frames ` set pools" using c by (metis list.set_map)
  have "pp_base ` set pools' = pp_base ` set pools" using al(1) by (metis list.set_map)
  then show "pools_ok pools'" using pf c assms(2) unfolding pools_ok_def by (metis (no_types, lifting) imageE imageI)
  show "used_frames pools \<subseteq> used_frames pools'" "pg_size pg = 0 \<or> pg_size pg = n"
    "pg_size pg \<noteq> 0 \<Longrightarrow> page_frames pg \<subseteq> used_frames pools' - used_frames pools" "pg_size pg \<noteq> 0 \<Longrightarrow> PAGE_SIZE dvd pg_base pg"
    using c by auto
qed

lemma as_okD:
  assumes "as_ok as s"
  shows "tree (as_pt as) (mm_mem s) (used s)" "pools_ok (mm_pools s)" "sv39 (as_pt as)"
  using assms treeD(1) unfolding as_ok_def by blast+

lemma tree_mono: "tree pt m U \<Longrightarrow> U \<subseteq> U' \<Longrightarrow> 0 \<notin> U' \<Longrightarrow> tree pt m U'"
  unfolding tree_def by blast

lemma used_0: "pools_ok (mm_pools s) \<Longrightarrow> 0 \<notin> used s"
  using used_frames_bound [of "mm_pools s"] unfolding used_def by auto

lemma confined_alloc:
  assumes "as_ok as s" "all_clrs cc colors \<or> aligned" "mem_alloc_ppages cc colors n aligned (mm_pools s) = Some (pg, pools)"
  shows "confined as F s (s\<lparr>mm_pools := pools\<rparr>)"
proof -
  note o = alloc_ok [OF assms(2) as_okD(2) [OF assms(1)] assms(3)]
  let ?s = "s\<lparr>mm_pools := pools\<rparr>"
  have u: "used s \<subseteq> used ?s" "0 \<notin> used ?s" using o(1,2) used_0 [of ?s] by (simp_all add: used_def)
  then have "as_ok as ?s" using tree_mono [OF as_okD(1) [OF assms(1)] u] o(1) by (simp add: as_ok_def)
  then show ?thesis using u(1) o(7) by (auto simp: confined_def pooled_def guarded_def)
qed

lemma confined_write:
  assumes "as_ok as s" "slot (as_pt as) (mm_mem s) l p" "\<not> pte_table w" "pte_valid w \<Longrightarrow> leaf_frames (as_pt as) l w \<subseteq> F"
  shows "confined as F s (write_pte p w s)"
proof -
  note t = as_okD(1) [OF assms(1)]
  have "as_ok as (write_pte p w s)"
    using assms(1) tree_leaf_write [OF t assms(3), of p] by (simp add: as_ok_def write_pte_def used_def)
  moreover have "q div PAGE_SIZE \<in> tables_of (as_pt as) (mm_mem s)" if "mm_mem (write_pte p w s) q \<noteq> mm_mem s q" for q
    using that slot_tables [OF t assms(2)] by (auto simp: write_pte_def split: if_splits)
  moreover have "used (write_pte p w s) = used s" "pooled (write_pte p w s) = pooled s"
    by (simp_all add: write_pte_def used_def pooled_def)
  moreover have "tables_of (as_pt as) (mm_mem (write_pte p w s)) \<subseteq> tables_of (as_pt as) (mm_mem s)"
    "mapped (as_pt as) (mm_mem (write_pte p w s)) \<subseteq> mapped (as_pt as) (mm_mem s) \<union> F"
    using tables_leaf_write [OF assms(3), of "as_pt as" "mm_mem s" p] mapped_leaf_write [OF t assms(3,2,4)]
    by (auto simp: write_pte_def)
  moreover from calculation have "guarded as F (write_pte p w s)" if "guarded as F s"
    using that unfolding guarded_def by blast
  ultimately show ?thesis unfolding confined_def by blast
qed

lemma pt_get_new:
  assumes "sv39 pt" "tables_above pt m addr l" "l < 2" "entry_at pt m addr l = p" "PAGE_SIZE dvd b" "b < 2 ^ 56"
    "\<And>j q. slot pt m j q \<Longrightarrow> j < l \<Longrightarrow> q \<noteq> p"
  shows "pt_get pt (m(p := pte_set b PTE_TABLE PTE_HYP_FLAGS)) (l + 1) addr = b"
proof -
  let ?m = "m(p := pte_set b PTE_TABLE PTE_HYP_FLAGS)"
  have a: "pte_addr (pte_set b PTE_TABLE PTE_HYP_FLAGS) = b"
    using pte_addr_set [OF assms(5,6)] by (simp add: PTE_TABLE_def)
  have k: "tables_above pt ?m addr l" "entry_at pt ?m addr l = p"
    using entry_kept [OF assms(1,2), of ?m] assms(3,4,7) by auto
  then have "tables_above pt ?m addr (Suc l)" using pte_table_set(1) by (simp add: tables_above_Suc)
  then have "pt_get_pte pt ?m (Suc l) addr = b + 8 * pt_getpteindex_by_va pt addr (Suc l)"
    using pt_get_pte_entry k(2) a by simp
  moreover have "pt_getpteindex_by_va pt addr (Suc l) < 512" "pt_size pt (Suc l) = PAGE_SIZE"
    using index_va_lt [OF assms(1), of "Suc l" addr] sv39_size(4,9) [OF assms(1), of "Suc l"] assms(3) by simp_all
  moreover from this(1) have "(b + 8 * pt_getpteindex_by_va pt addr (Suc l)) div PAGE_SIZE = b div PAGE_SIZE"
    by (intro in_page [OF assms(5), THEN iffD1]) (simp add: PAGE_SIZE_def)
  ultimately show ?thesis using assms(5) by (simp add: pt_get_def Let_def flip: Suc_eq_plus1)
qed

text \<open>A new table: \<open>mem_alloc_pt\<close> either leaves the memory as it is or enters a cleared table in a fresh frame.\<close>

lemma alloc_pt_cases:
  assumes "as_ok as s" "all_clrs (env_cc e) (as_colors as)" "l < 2" "tables_above (as_pt as) (mm_mem s) addr l"
    "p = entry_at (as_pt as) (mm_mem s) addr l" "\<not> pte_table (mm_mem s p)" "mem_alloc_pt e as p l addr s = Some (r, s')"
  shows "confined as F s s'"
    "r = 0 \<and> mm_mem s' = mm_mem s \<or> (\<exists>b. new_table (as_pt as) (mm_mem s) (used s) l p b \<and> mm_mem s' = with_table (mm_mem s) p b \<and> r = b)"
proof -
  let ?pt = "as_pt as" and ?m = "mm_mem s"
  note t = as_okD(1) [OF assms(1)] and sv = as_okD(3) [OF assms(1)]
  let ?n = "pt_size ?pt l div PAGE_SIZE"
  obtain pg pools where al: "mem_alloc_ppages (env_cc e) (as_colors as) ?n (?n > 1) (mm_pools s) = Some (pg, pools)"
    using assms(7) by (auto simp: mem_alloc_pt_def Let_def split: bind_splits)
  note o = alloc_ok [OF disjI1 [OF assms(2)] as_okD(2) [OF assms(1)] al]
  have c: "confined as F s (s\<lparr>mm_pools := pools\<rparr>)" using confined_alloc [OF assms(1) disjI1 [OF assms(2)] al] .
  have sl: "slot ?pt ?m l p" using entry_slot [OF sv assms(4)] assms(3,5) by simp
  have pz: "p \<noteq> 0" using slot_nonnull [OF t sl] .
  show "confined as F s s'"
    "r = 0 \<and> mm_mem s' = mm_mem s \<or> (\<exists>b. new_table (as_pt as) (mm_mem s) (used s) l p b \<and> mm_mem s' = with_table (mm_mem s) p b \<and> r = b)"
  proof (atomize (full), cases "pg_size pg = 0")
    case True
    then have "r = 0" "s' = s\<lparr>mm_pools := pools\<rparr>" using assms(7) al by (simp_all add: mem_alloc_pt_def Let_def)
    then show "confined as F s s' \<and> (r = 0 \<and> mm_mem s' = mm_mem s \<or>
        (\<exists>b. new_table ?pt ?m (used s) l p b \<and> mm_mem s' = with_table ?m p b \<and> r = b))" using c by simp
  next
    case False
    let ?b = "pg_base pg"
    have fr: "page_frames pg \<subseteq> used_frames pools - used s" using o(4) False by (simp add: used_def)
    have "?b div PAGE_SIZE \<in> page_frames pg" using False by (simp add: page_frames_def)
    then have b: "?b div PAGE_SIZE \<in> used_frames pools" "?b div PAGE_SIZE \<notin> used s" using fr by auto
    then have lt: "?b div PAGE_SIZE < 2 ^ 44" "?b div PAGE_SIZE \<noteq> 0" using used_frames_bound [OF o(1)] by auto
    then have "?b < 2 ^ 56" "?b \<noteq> 0" using o(5) False by (auto simp: PAGE_SIZE_def elim!: dvdE)
    then have nt: "new_table ?pt ?m (used s) l p ?b"
      using t sl assms(3,6) o(5) False b(2) by (simp add: new_table_def)
    have dif: "q \<noteq> p" if "slot ?pt ?m j q" "j < l" for j q using slot_same_level [OF t that(1)] sl that(2) by blast
    have g: "pt_get ?pt (?m(p := pte_set ?b PTE_TABLE PTE_HYP_FLAGS)) (l + 1) addr = ?b"
      using pt_get_new [OF sv assms(4,3) assms(5) [symmetric] _ \<open>?b < 2 ^ 56\<close> dif] o(5) False by simp
    have s': "mm_mem s' = with_table ?m p ?b" "mm_pools s' = pools" "r = ?b"
      using assms(7) al False pz g by (auto simp: mem_alloc_pt_def Let_def write_pte_def zero_page_def with_table_def)
    have u: "used s' = used_frames pools" "used s \<subseteq> used_frames pools" using s'(2) o(2) by (simp_all add: used_def)
    have pl: "pooled s' = pooled s" using s'(2) o(7) by (simp add: pooled_def)
    have z: "0 \<notin> used_frames pools" using used_frames_bound [OF o(1)] by auto
    have "as_ok as s'" using tree_with_table [OF nt u(2) b(1) z] o(1) s' u(1) by (simp add: as_ok_def)
    moreover have "q div PAGE_SIZE \<in> tables_of ?pt ?m \<union> (used s' - used s)" if "mm_mem s' q \<noteq> ?m q" for q
    proof (cases "q = p")
      case True
      then show ?thesis using slot_tables [OF t sl] by simp
    next
      case False
      then have "?b \<le> q \<and> q < ?b + PAGE_SIZE" using that s'(1) by (auto simp: with_table_def split: if_splits)
      then show ?thesis using in_page [OF new_tableD(5) [OF nt]] b u(1) by auto
    qed
    moreover have "tables_of ?pt (mm_mem s') \<subseteq> tables_of ?pt ?m \<union> (used s' - used s)"
      using tables_with_table [OF nt] b u(1) s'(1) by auto
    moreover have "mapped ?pt (mm_mem s') \<subseteq> mapped ?pt ?m" using mapped_with_table [OF nt] s'(1) by simp
    moreover from calculation have "guarded as F s'" if "guarded as F s"
      using that pl u used_pooled [of s'] unfolding guarded_def by blast
    ultimately show "confined as F s s' \<and> (r = 0 \<and> mm_mem s' = mm_mem s \<or>
        (\<exists>b. new_table ?pt ?m (used s) l p b \<and> mm_mem s' = with_table ?m p b \<and> r = b))"
      using u nt s'(1,3) pl unfolding confined_def by blast
  qed
qed

subsection \<open>Free addresses\<close>

text \<open>The walk for \<open>a\<close> ends at an entry that is not valid.\<close>

definition free :: "page_table \<Rightarrow> ptmem \<Rightarrow> nat \<Rightarrow> bool" where
  "free pt m a \<longleftrightarrow> (\<exists>l < 3. tables_above pt m a l \<and> \<not> pte_valid (m (entry_at pt m a l)))"

lemma free_with_table:
  assumes "new_table pt m U l p b" "\<not> pte_valid (m p)" "free pt m a"
  shows "free pt (with_table m p b) a"
proof -
  note n = new_tableD [OF assms(1)] and sv = treeD(1) [OF new_tableD(1) [OF assms(1)]]
  obtain k where k: "k < 3" "tables_above pt m a k" "\<not> pte_valid (m (entry_at pt m a k))" using assms(3) unfolding free_def by blast
  let ?m = "with_table m p b" and ?q = "entry_at pt m a k"
  have "?m q = m q" if "slot pt m j q" "pte_table (m q)" for j q
    using with_table_at [OF assms(1) that(1)] that(2) n(4) by auto
  then have t: "tables_above pt ?m a k" "entry_at pt ?m a k = ?q" using entry_kept [OF sv k(2), of ?m] k(1) by auto
  have s: "slot pt m k ?q" using entry_slot [OF sv k(2,1)] .
  show ?thesis
  proof (cases "?q = p")
    case True
    then have kl: "k = l" using slot_same_level [OF n(1) s] n(2) by simp
    have w: "?m ?q = pte_set b PTE_TABLE PTE_HYP_FLAGS" using with_table_at [OF assms(1) s] True by simp
    then have "tables_above pt ?m a (Suc l)" using t pte_table_set(1) kl by (simp add: tables_above_Suc)
    moreover have "?m (entry_at pt ?m a (Suc l)) = 0"
      using with_table_new [OF assms(1) index_va_lt [OF sv]] n(3,8) t(2) w kl by simp
    ultimately show ?thesis unfolding free_def using n(3) by (intro exI [of _ "Suc l"]) (simp add: pte_valid_bit)
  next
    case False
    then have "?m ?q = m ?q" using with_table_at [OF assms(1) s] by simp
    then show ?thesis using t k(1,3) unfolding free_def by auto
  qed
qed

lemma free_write:
  assumes "sv39 pt" "\<not> pte_valid (m p)" "\<not> pte_valid w" "free pt m a"
  shows "free pt (m(p := w)) a"
proof -
  obtain k where k: "k < 3" "tables_above pt m a k" "\<not> pte_valid (m (entry_at pt m a k))" using assms(4) unfolding free_def by blast
  have "(m(p := w)) q = m q" if "pte_table (m q)" for q using that assms(2) pte_table_valid by auto
  then have "tables_above pt (m(p := w)) a k" "entry_at pt (m(p := w)) a k = entry_at pt m a k"
    using entry_kept [OF assms(1) k(2), of "m(p := w)"] k(1) by auto
  then show ?thesis using k(1,3) assms(3) unfolding free_def by auto
qed

lemma next_index:
  assumes "sv39 pt" "l < 3" "pt_getpteindex_by_va pt va l + 1 < pt_nentries pt l"
  shows "pt_getpteindex_by_va pt (va + pt_lvlsize pt l) l = pt_getpteindex_by_va pt va l + 1"
    "j < l \<Longrightarrow> pt_getpteindex_by_va pt (va + pt_lvlsize pt l) j = pt_getpteindex_by_va pt va j"
proof -
  let ?q = "va div PAGE_SIZE"
  note v = sv39_values [OF assms(1)] and iq = sv39_index [OF assms(1) refl]
  have step: "(x + 1) mod n = x mod n + 1" if "x mod n + 1 < n" for x n :: nat using that by (simp add: mod_Suc One_nat_def)
  have same: "(x + 1) div n = x div n" if "x mod n + 1 < n" for x n :: nat using that by (simp add: div_Suc mod_Suc One_nat_def)
  have e: "(va + PAGE_SIZE * k) div PAGE_SIZE = ?q + k" for k using PAGE_SIZE_pos(2) by simp
  have q: "(va + 0x1000) div PAGE_SIZE = ?q + 1" "(va + 0x200000) div PAGE_SIZE = ?q + 512" "(va + 0x40000000) div PAGE_SIZE = ?q + 512 * 512"
    using e [of 1] e [of 512] e [of "512 * 512"] by (simp_all add: PAGE_SIZE_def)
  have d: "(x + 512) div 512 = x div 512 + 1" "(x + 262144) div 512 = x div 512 + 512" for x :: nat
    using div_mult_self1 [of "512 :: nat" x 1] div_mult_self1 [of "512 :: nat" x 512] by simp_all
  show "pt_getpteindex_by_va pt (va + pt_lvlsize pt l) l = pt_getpteindex_by_va pt va l + 1"
    using assms(2,3) unfolding level_cases by (elim disjE) (simp_all add: v iq q d step)
  show "pt_getpteindex_by_va pt (va + pt_lvlsize pt l) j = pt_getpteindex_by_va pt va j" if "j < l"
  proof -
    have "l = 1 \<and> j = 0 \<or> l = 2 \<and> j = 0 \<or> l = 2 \<and> j = 1" using assms(2) that unfolding level_cases by auto
    then show ?thesis using assms(3) by (elim disjE conjE) (simp_all add: v iq q d same)
  qed
qed

lemma entry_cong:
  "(\<And>j. j \<le> l \<Longrightarrow> pt_getpteindex_by_va pt va' j = pt_getpteindex_by_va pt va j) \<Longrightarrow> j \<le> l \<Longrightarrow> entry_at pt m va' j = entry_at pt m va j"
  by (induction j) simp_all

lemma next_entry:
  assumes "sv39 pt" "l < 3" "pt_getpteindex_by_va pt va l + 1 < pt_nentries pt l" "tables_above pt m va l"
  shows "tables_above pt m (va + pt_lvlsize pt l) l" "entry_at pt m (va + pt_lvlsize pt l) l = entry_at pt m va l + 8"
proof -
  note ix = next_index [OF assms(1-3)]
  have e: "entry_at pt m (va + pt_lvlsize pt l) j = entry_at pt m va j" if "j < l" for j
    using entry_cong [of j pt "va + pt_lvlsize pt l" va j m] ix(2) that by simp
  then show "tables_above pt m (va + pt_lvlsize pt l) l" using assms(4) by (simp add: tables_above_def)
  show "entry_at pt m (va + pt_lvlsize pt l) l = entry_at pt m va l + 8" using ix(1) e by (cases l) simp_all
qed

lemma block_entry:
  assumes "sv39 pt" "l < 3" "a div pt_lvlsize pt l = va div pt_lvlsize pt l" "tables_above pt m va l"
  shows "tables_above pt m a l" "entry_at pt m a l = entry_at pt m va l"
proof -
  have dv: "pt_lvlsize pt l dvd pt_lvlsize pt j" if "j \<le> l" for j
    using le_less_trans [OF that assms(2)] assms(2) that unfolding level_cases by (elim disjE) (simp_all add: sv39_values(1-3) [OF assms(1)])
  have "pt_getpteindex_by_va pt a j = pt_getpteindex_by_va pt va j" if j: "j \<le> l" for j
  proof -
    obtain k where "pt_lvlsize pt j = pt_lvlsize pt l * k" using dv [OF j] by (elim dvdE)
    then have "a div pt_lvlsize pt j = va div pt_lvlsize pt j" using assms(3) by (simp add: div_mult2_eq)
    then show ?thesis by (simp add: pt_getpteindex_by_va_def pt_lvlsize_def)
  qed
  then have "entry_at pt m a j = entry_at pt m va j" if "j \<le> l" for j using entry_cong [of l pt a va j m] that by blast
  then show "tables_above pt m a l" "entry_at pt m a l = entry_at pt m va l" using assms(4) by (simp_all add: tables_above_def)
qed

lemma free_block:
  assumes "sv39 pt" "l < 3" "tables_above pt m va l" "\<not> pte_valid (m (entry_at pt m va l))" "pt_lvlsize pt l dvd va"
    "va \<le> a" "a < va + pt_lvlsize pt l"
  shows "free pt m a"
proof -
  obtain k where k: "va = pt_lvlsize pt l * k" using assms(5) by (elim dvdE)
  have "a div pt_lvlsize pt l = k" using assms(6,7) by (intro div_nat_eqI) (simp_all add: k)
  then have "a div pt_lvlsize pt l = va div pt_lvlsize pt l" using sv39_size(8) [OF assms(1,2)] by (simp add: k)
  then show ?thesis using block_entry [OF assms(1,2) _ assms(3)] assms(2,4) unfolding free_def by metis
qed

lemma pteindex_entry:
  assumes "tree pt m U" "tables_above pt m va l" "l < 3"
  shows "pt_getpteindex pt (entry_at pt m va l) l = pt_getpteindex_by_va pt va l"
proof -
  note sv = treeD(1) [OF assms(1)]
  obtain k where "table_at pt m va l = pt_size pt l * k"
    using reach_aligned(1) [OF table_at_reach [OF sv assms(2,3)] assms(1)] by (elim dvdE)
  moreover have "8 * pt_getpteindex_by_va pt va l < pt_size pt l"
    using index_va_lt [OF sv assms(3), of va] sv39_size(1) [OF sv assms(3)] by simp
  ultimately show ?thesis unfolding entry_table pt_getpteindex_def by simp
qed

subsection \<open>Allocation of virtual pages\<close>

text \<open>
  Between the steps of the search of \<open>mem_alloc_vpage\<close>: the pages counted so far are the free pages from \<open>vpage\<close> up to the
  current address.
\<close>

definition counted :: "page_table \<Rightarrow> ptmem \<Rightarrow> nat \<Rightarrow> nat \<Rightarrow> nat \<Rightarrow> bool" where
  "counted pt m count addr vpage \<longleftrightarrow> PAGE_SIZE dvd addr \<and>
     (0 < count \<longrightarrow> addr = vpage + count * PAGE_SIZE \<and> (\<forall>a. vpage \<le> a \<longrightarrow> a < addr \<longrightarrow> free pt m a))"

lemma counted_block:
  assumes "counted pt m count addr vpage" "sv39 pt" "l < 3" "tables_above pt m addr l" "\<not> pte_valid (m (entry_at pt m addr l))"
    "pt_lvlsize pt l dvd addr"
  shows "counted pt m (count + pt_lvlsize pt l div PAGE_SIZE) (addr + pt_lvlsize pt l) (if count = 0 then addr else vpage)"
proof -
  have d: "PAGE_SIZE dvd pt_lvlsize pt l" using sv39_size(6) [OF assms(2,3)] .
  then have "pt_lvlsize pt l div PAGE_SIZE * PAGE_SIZE = pt_lvlsize pt l" by simp
  moreover have "PAGE_SIZE dvd addr + pt_lvlsize pt l" using assms(1) d by (simp add: counted_def)
  moreover have "free pt m a" if "addr \<le> a" "a < addr + pt_lvlsize pt l" for a using free_block [OF assms(2-6) that] .
  ultimately show ?thesis using assms(1) unfolding counted_def
    by (auto simp: add_mult_distrib not_le)
qed

lemma counted_keeps:
  assumes "counted pt m count addr vpage" "\<And>a. free pt m a \<Longrightarrow> free pt m' a"
  shows "counted pt m' count addr vpage"
  using assms unfolding counted_def by blast

lemma alloc_pt_table:
  assumes "as_ok as s" "all_clrs (env_cc e) (as_colors as)" "l < 2" "tables_above (as_pt as) (mm_mem s) addr l"
    "p = entry_at (as_pt as) (mm_mem s) addr l" "\<not> pte_table (mm_mem s p)" "mem_alloc_pt e as p l addr s = Some (r, s')" "r \<noteq> 0"
  shows "tables_above (as_pt as) (mm_mem s') addr (Suc l)" "\<not> pte_valid (mm_mem s p) \<Longrightarrow> free (as_pt as) (mm_mem s) a \<Longrightarrow> free (as_pt as) (mm_mem s') a"
    "pte_table (mm_mem s' p)"
proof -
  let ?pt = "as_pt as"
  obtain b where b: "new_table ?pt (mm_mem s) (used s) l p b" "mm_mem s' = with_table (mm_mem s) p b"
    using alloc_pt_cases(2) [OF assms(1-7)] assms(8) by blast
  note n = new_tableD [OF b(1)]
  have "mm_mem s' q = mm_mem s q" if "slot ?pt (mm_mem s) j q" "pte_table (mm_mem s q)" for j q
    using with_table_at [OF b(1) that(1)] that(2) n(4) b(2) by auto
  then have "tables_above ?pt (mm_mem s') addr l" "entry_at ?pt (mm_mem s') addr l = p"
    using entry_kept [OF as_okD(3) [OF assms(1)] assms(4), of "mm_mem s'"] assms(3,5) by auto
  moreover show t: "pte_table (mm_mem s' p)" using with_table_at [OF b(1) n(2)] pte_table_set(1) b(2) by simp
  ultimately show "tables_above ?pt (mm_mem s') addr (Suc l)" by (simp add: tables_above_Suc)
  show "\<not> pte_valid (mm_mem s p) \<Longrightarrow> free ?pt (mm_mem s) a \<Longrightarrow> free ?pt (mm_mem s') a" using free_with_table [OF b(1)] b(2) by simp
qed

text \<open>The state of the search, and what one pass over the entries of a table makes of it.\<close>

definition searching :: "addr_space \<Rightarrow> nat \<Rightarrow> nat \<Rightarrow> nat \<Rightarrow> nat \<Rightarrow> mm \<Rightarrow> bool" where
  "searching as l count addr vpage s \<longleftrightarrow>
     l < 3 \<and> tables_above (as_pt as) (mm_mem s) addr l \<and> counted (as_pt as) (mm_mem s) count addr vpage"

lemma vp_entries_confined:
  assumes "as_ok as s" "all_clrs (env_cc e) (as_colors as)"
    "vp_entries e as n fixd l entry pte count addr vpage s = Some (l', count', addr', vpage', failed, s')"
    "searching as l count addr vpage s" "pte = entry_at (as_pt as) (mm_mem s) addr l" "entry = pt_getpteindex_by_va (as_pt as) addr l"
  shows "confined as F s s' \<and> (\<not> failed \<longrightarrow> searching as l' count' addr' vpage' s')"
  using assms(3-6)
proof (induction "pt_nentries (as_pt as) l - entry" arbitrary: entry pte count addr vpage rule: less_induct)
  case less
  let ?pt = "as_pt as" and ?m = "mm_mem s" and ?sz = "pt_lvlsize (as_pt as) l" and ?w = "mm_mem s pte"
  note t = as_okD(1) [OF assms(1)] and sv = as_okD(3) [OF assms(1)] and cr = confined_refl [OF assms(1)]
  have l: "l < 3" "tables_above ?pt ?m addr l" "counted ?pt ?m count addr vpage" using less.prems(2) by (simp_all add: searching_def)
  have sl: "slot ?pt ?m l pte" and en: "entry < pt_nentries ?pt l"
    using entry_slot [OF sv l(2,1)] index_va_lt [OF sv l(1)] less.prems(3,4) by simp_all
  let ?busy = "pte_check_rsw ?w PTE_RSW_RSRV \<or> (pte_valid ?w \<and> \<not> pte_table ?w)"
  have table: "searching as (l + 1) count1 addr vpage1 s" if "pte_table ?w" "counted ?pt ?m count1 addr vpage1" for count1 vpage1
  proof -
    have "l \<noteq> 2" using treeD(5) [OF t] sl that(1) by auto
    then show ?thesis using l(1,2) that less.prems(3) by (simp add: searching_def tables_above_Suc flip: Suc_eq_plus1)
  qed
  let ?tail = "\<lambda>count1 vpage1. if pte_table ?w then Some (l + 1, count1, addr, vpage1, False, s)
      else if entry + 1 \<ge> pt_nentries ?pt l then Some (0, count1, addr + ?sz, vpage1, False, s)
      else vp_entries e as n fixd l (entry + 1) (pte + 8) count1 (addr + ?sz) vpage1 s"
  have tail: ?case if r: "?tail count1 vpage1 = Some (l', count', addr', vpage', failed, s')"
      and c: "pte_table ?w \<Longrightarrow> counted ?pt ?m count1 addr vpage1" "\<not> pte_table ?w \<Longrightarrow> counted ?pt ?m count1 (addr + ?sz) vpage1" for count1 vpage1
  proof -
    consider "pte_table ?w" | "\<not> pte_table ?w" "entry + 1 \<ge> pt_nentries ?pt l" | "\<not> pte_table ?w" "entry + 1 < pt_nentries ?pt l" by linarith
    then show ?case
    proof cases
      case 1
      then show ?thesis using r table c(1) cr by auto
    next
      case 2
      then show ?thesis using r c(2) cr by (auto simp: searching_def tables_above_def)
    next
      case 3
      note nx = next_entry [OF sv l(1) _ l(2)] and ni = next_index(1) [OF sv l(1)]
      show ?thesis
        using r 3 c(2) nx ni less.prems(3,4) l(1) by (intro less.hyps) (auto simp: searching_def)
    qed
  qed
  note eq = less.prems(1) [unfolded vp_entries.simps [of e as n fixd l entry pte]]
  consider "\<not> count < n" | "count < n" ?busy | "count < n" "\<not> ?busy" "\<not> pte_valid ?w" "pte_allocable as ?w l (n - count) addr"
    | "count < n" "\<not> ?busy" "\<not> pte_valid ?w" "\<not> pte_allocable as ?w l (n - count) addr" | "count < n" "\<not> ?busy" "pte_valid ?w" by blast
  then show ?case
  proof cases
    case 1
    then show ?thesis using eq less.prems(2) cr by auto
  next
    case 2
    have "counted ?pt ?m 0 addr 0" "counted ?pt ?m 0 (addr + ?sz) 0"
      using l(3) sv39_size(6) [OF sv l(1)] by (simp_all add: counted_def)
    then show ?thesis using eq 2 en slot_nonnull [OF t sl] cr tail [of 0 0] by (auto simp: Let_def split: if_splits)
  next
    case 3
    have "?sz dvd addr"
      using 3(4) l(1,3) sv39_lvls [OF sv] sv39_values(3) [OF sv]
      by (auto simp: pte_allocable_def counted_def PAGE_SIZE_def dvd_eq_mod_eq_0)
    then have "counted ?pt ?m (count + ?sz div PAGE_SIZE) (addr + ?sz) (if count = 0 then addr else vpage)"
      using counted_block [OF l(3) sv l(1,2)] 3(3) less.prems(3) by simp
    moreover have "\<not> pte_table ?w" using 3(3) pte_table_valid by blast
    ultimately show ?thesis using eq 3 en slot_nonnull [OF t sl] tail by (auto simp: Let_def split: if_splits)
  next
    case 4
    then have l2: "l < 2" using l(1) sv39_lvls [OF sv] by (auto simp: pte_allocable_def)
    have nt: "\<not> pte_table ?w" using 4(3) pte_table_valid by blast
    obtain r s1 where a: "mem_alloc_pt e as pte l addr s = Some (r, s1)" "r \<noteq> 0"
      using eq 4 en slot_nonnull [OF t sl] by (auto simp: Let_def split: bind_splits if_splits)
    note at = alloc_pt_table [OF assms(1,2) l2 l(2) less.prems(3) nt a]
    have "s' = s1" "l' = l + 1" "count' = count" "addr' = addr" "vpage' = vpage" "\<not> failed"
      using eq 4 en slot_nonnull [OF t sl] a at(3) by (simp_all add: Let_def)
    moreover have "searching as (l + 1) count addr vpage s1"
      using at(1,2) 4(3) l2 counted_keeps [OF l(3)] by (simp add: searching_def flip: Suc_eq_plus1)
    ultimately show ?thesis using alloc_pt_cases(1) [OF assms(1,2) l2 l(2) less.prems(3) nt a(1)] by simp
  next
    case 5
    then have "pte_table ?w" by blast
    then show ?thesis using eq 5 en slot_nonnull [OF t sl] tail [of count vpage] l(3) by (auto simp: Let_def split: if_splits)
  qed
qed

definition found :: "addr_space \<Rightarrow> nat set \<Rightarrow> nat \<Rightarrow> mm \<Rightarrow> nat \<times> bool \<times> mm \<Rightarrow> bool" where
  "found as F n s y \<longleftrightarrow> (case y of (v, failed, s') \<Rightarrow> confined as F s s' \<and>
     (\<not> failed \<longrightarrow> (\<forall>a. v \<le> a \<longrightarrow> a < v + n * PAGE_SIZE \<longrightarrow> free (as_pt as) (mm_mem s') a)))"

lemma found_trans: "confined as F s s1 \<Longrightarrow> found as F n s1 y \<Longrightarrow> found as F n s y"
  unfolding found_def using confined_trans by (auto split: prod.splits)

lemma vp_search_confined:
  assumes "vp_search e as n fixd tp l count addr vpage s = Some y"
  shows "as_ok as s \<longrightarrow> all_clrs (env_cc e) (as_colors as) \<longrightarrow> searching as l count addr vpage s \<longrightarrow> found as F n s y"
proof (rule vp_search.raw_induct [where P = "\<lambda>e as n fixd tp l count addr vpage s y. as_ok as s \<longrightarrow> all_clrs (env_cc e) (as_colors as) \<longrightarrow>
      searching as l count addr vpage s \<longrightarrow> found as F n s y", OF _ assms], intro impI, goal_cases)
  case (1 search e as n fixd tp l count addr vpage s y)
  note ok = 1(3) and t = as_okD(1) [OF 1(3)] and hyp = 1(2)
  have l: "l < 3" "tables_above (as_pt as) (mm_mem s) addr l" "counted (as_pt as) (mm_mem s) count addr vpage"
    using 1(5) by (simp_all add: searching_def)
  show ?case
  proof (cases "count < n \<and> \<not> sub64 ((tp + 1) mod 2 ^ 64) addr div PAGE_SIZE < n")
    case False
    have "a < vpage + count * PAGE_SIZE" if "\<not> count < n" "a < vpage + n * PAGE_SIZE" for a
      using that mult_le_mono1 [of n count PAGE_SIZE] by linarith
    then show ?thesis using False hyp l(3) confined_refl [OF ok] by (auto simp: found_def counted_def split: if_splits)
  next
    case True
    let ?p = "entry_at (as_pt as) (mm_mem s) addr l"
    have ix: "pt_get_pte (as_pt as) (mm_mem s) l addr = ?p" "pt_getpteindex (as_pt as) ?p l = pt_getpteindex_by_va (as_pt as) addr l"
      using pt_get_pte_entry [OF l(2)] pteindex_entry [OF t l(2,1)] by simp_all
    obtain l1 c1 a1 v1 f1 s1 where e: "vp_entries e as n fixd l (pt_getpteindex_by_va (as_pt as) addr l) ?p count addr vpage s =
        Some (l1, c1, a1, v1, f1, s1)" "(if f1 then Some (v1, True, s1) else search e as n fixd tp l1 c1 a1 v1 s1) = Some y"
      using hyp True ix by (auto simp: Let_def split: bind_splits)
    have c: "confined as F s s1" "\<not> f1 \<Longrightarrow> searching as l1 c1 a1 v1 s1"
      using vp_entries_confined [OF ok 1(4) e(1) 1(5) refl refl] by blast+
    show ?thesis
    proof (cases f1)
      case True
      then show ?thesis using e(2) c(1) by (auto simp: found_def)
    next
      case False
      then have "found as F n s1 y" using 1(1) [of e as n fixd tp l1 c1 a1 v1 s1 y] confinedD(1) [OF c(1)] 1(4) c(2) e(2) by simp
      then show ?thesis using found_trans [OF c(1)] by blast
    qed
  qed
qed

lemma first_invalid_free:
  assumes "free pt m a" "sv39 pt" "first_invalid pt m a = Some l"
  shows "l < 3" "tables_above pt m a l" "\<not> pte_valid (m (entry_at pt m a l))"
proof -
  obtain k where k: "k < 3" "tables_above pt m a k" "\<not> pte_valid (m (entry_at pt m a k))" using assms(1) unfolding free_def by blast
  have e: "pt_get_pte pt m j a = entry_at pt m a j" if "j \<le> k" for j
    using pt_get_pte_entry tables_above_mono [OF k(2) that] by blast
  have v: "pte_valid (m (entry_at pt m a j))" if "j < k" for j using k(2) that pte_table_valid by (auto simp: tables_above_def)
  have fi: "l < 3" "\<not> pte_valid (m (pt_get_pte pt m l a))" "\<And>j. j < l \<Longrightarrow> pte_valid (m (pt_get_pte pt m j a))"
    using assms(3) sv39_lvls [OF assms(2)] unfolding first_invalid_def by (auto simp: find_Some_iff)
  have "l = k" using fi(2) fi(3) [of k] e v k(3) by (metis le_refl less_imp_le nat_neq_iff)
  then show "l < 3" "tables_above pt m a l" "\<not> pte_valid (m (entry_at pt m a l))" using k by simp_all
qed

lemma pte_valid_rsw: "pte_valid (pte_set_rsw w fl) = pte_valid w"
  by (simp add: pte_valid_bit pte_set_rsw_bit)

lemma vp_reserve_confined:
  assumes "vp_reserve as n count addr s = Some s'"
  shows "as_ok as s \<longrightarrow> addr = vpage + count * PAGE_SIZE \<longrightarrow>
    (\<forall>a. vpage \<le> a \<longrightarrow> a < vpage + n * PAGE_SIZE \<longrightarrow> free (as_pt as) (mm_mem s) a) \<longrightarrow> confined as F s s'"
proof (rule vp_reserve.raw_induct [where P = "\<lambda>as n count addr s s'. as_ok as s \<longrightarrow> addr = vpage + count * PAGE_SIZE \<longrightarrow>
    (\<forall>a. vpage \<le> a \<longrightarrow> a < vpage + n * PAGE_SIZE \<longrightarrow> free (as_pt as) (mm_mem s) a) \<longrightarrow> confined as F s s'", OF _ assms],
    intro impI, goal_cases)
  case (1 res as n count addr s s')
  note ok = 1(3) and sv = as_okD(3) [OF 1(3)] and hyp = 1(2)
  let ?pt = "as_pt as" and ?m = "mm_mem s"
  show ?case
  proof (cases "count < n")
    case False
    then show ?thesis using hyp confined_refl [OF ok] by simp
  next
    case True
    then have "count * PAGE_SIZE < n * PAGE_SIZE" by simp
    then have "free ?pt ?m addr" using 1(4,5) by simp
    moreover obtain l where l: "first_invalid ?pt ?m addr = Some l" using hyp True by (auto split: bind_splits)
    ultimately have f: "l < 3" "tables_above ?pt ?m addr l" "\<not> pte_valid (?m (entry_at ?pt ?m addr l))"
      using first_invalid_free [OF _ sv] by blast+
    let ?p = "entry_at ?pt ?m addr l"
    let ?w = "pte_set_rsw (?m ?p) PTE_RSW_RSRV"
    have w: "\<not> pte_valid ?w" "\<not> pte_table ?w" using f(3) pte_valid_rsw pte_table_valid by blast+
    have c: "confined as F s (write_pte ?p ?w s)" using confined_write [OF ok entry_slot [OF sv f(2,1)] w(2)] w(1) by blast
    have r: "res as n (count + pt_lvlsize ?pt l div PAGE_SIZE) (addr + pt_lvlsize ?pt l) (write_pte ?p ?w s) = Some s'"
      using hyp True l pt_get_pte_entry [OF f(2)] by (auto simp: Let_def split: if_splits)
    have a: "addr + pt_lvlsize ?pt l = vpage + (count + pt_lvlsize ?pt l div PAGE_SIZE) * PAGE_SIZE"
      using 1(4) sv39_size(6) [OF sv f(1)] by (simp add: add_mult_distrib)
    have "free ?pt (mm_mem (write_pte ?p ?w s)) x" if "vpage \<le> x" "x < vpage + n * PAGE_SIZE" for x
      using free_write [OF sv, of ?m ?p ?w x] f(3) w(1) 1(5) that by (simp add: write_pte_def)
    then have "confined as F (write_pte ?p ?w s) s'" using 1(1) [OF r] confinedD(1) [OF c] a by blast
    then show ?thesis using confined_trans [OF c] by blast
  qed
qed

text \<open>The allocation of virtual pages in an address space is confined to it, whatever it returns.\<close>

lemma mem_alloc_vpage_confined:
  assumes "mem_alloc_vpage e as sec at n s = Some (va, s')" "as_ok as s" "all_clrs (env_cc e) (as_colors as)"
  shows "confined as F s s'"
proof (cases "at \<noteq> 0 \<and> mem_find_sec e as at \<noteq> Some sec")
  case True
  then show ?thesis using assms(1) confined_refl [OF assms(2)] by (simp add: mem_alloc_vpage_def Let_def)
next
  case False
  let ?addr = "(if at \<noteq> 0 then at else sec_beg (sections e (as_type as) ! sec)) div PAGE_SIZE * PAGE_SIZE"
  obtain v f s1 where v: "vp_search e as n (at \<noteq> 0) (sec_end (sections e (as_type as) ! sec)) 0 0 ?addr 0 s = Some (v, f, s1)"
      "(if v \<noteq> 0 \<and> \<not> f then do { s \<leftarrow> vp_reserve as n 0 v s1; Some (v, s) } else Some (v, s1)) = Some (va, s')"
    using assms(1) False by (auto simp: mem_alloc_vpage_def Let_def split: bind_splits)
  have "searching as 0 0 ?addr 0 s" by (simp add: searching_def tables_above_def counted_def)
  then have "found as F n s (v, f, s1)" using vp_search_confined [OF v(1)] assms(2,3) by blast
  then have c: "confined as F s s1" "\<not> f \<Longrightarrow> v \<le> a \<Longrightarrow> a < v + n * PAGE_SIZE \<Longrightarrow> free (as_pt as) (mm_mem s1) a" for a
    by (simp_all add: found_def)
  show ?thesis
  proof (cases "v \<noteq> 0 \<and> \<not> f")
    case True
    then obtain s2 where "vp_reserve as n 0 v s1 = Some s2" "s' = s2" using v(2) by (auto split: bind_splits)
    then have "confined as F s1 s'" using vp_reserve_confined [of as n 0 v s1 s' v] c True confinedD(1) [OF c(1)] by simp
    then show ?thesis using confined_trans [OF c(1)] by blast
  qed (use v(2) c(1) in auto)
qed

subsection \<open>Mapping\<close>

lemma pt_walk_invalid:
  "\<forall>j < k. pte_valid (m (entry_at pt m va (i + j))) \<Longrightarrow> \<not> pte_valid (m (entry_at pt m va (i + k))) \<Longrightarrow>
    pt_walk pt m va (Suc k) i (entry_at pt m va i) = 0"
proof (induction k arbitrary: i)
  case (Suc k)
  have "pte_valid (m (entry_at pt m va i))" using Suc.prems(1) by (metis add_0_right zero_less_Suc)
  moreover have "\<forall>j < k. pte_valid (m (entry_at pt m va (Suc i + j)))" using Suc.prems(1) by (metis Suc_less_eq add_Suc_shift)
  ultimately show ?case using Suc.IH [of "Suc i"] Suc.prems(2) by (simp flip: Suc_eq_plus1)
qed simp

lemma pt_get_pte_invalid:
  "tables_above pt m va l \<Longrightarrow> \<not> pte_valid (m (entry_at pt m va l)) \<Longrightarrow> pt_get_pte pt m (Suc l) va = 0"
  using pt_walk_invalid [of l m pt va 0] pte_table_valid by (simp add: pt_get_pte_def tables_above_def)

lemma map_level_confined:
  assumes "map_level e as rest vaddr paddr k l pte0 s = Some (l', pte, s')" "l + k = 3" "as_ok as s"
    "all_clrs (env_cc e) (as_colors as)" "tables_above (as_pt as) (mm_mem s) vaddr l" "l' < 3"
  shows "confined as F s s' \<and> tables_above (as_pt as) (mm_mem s') vaddr l' \<and> pte = entry_at (as_pt as) (mm_mem s') vaddr l' \<and>
    pt_pte_mappable as (mm_mem s' pte) l' rest vaddr paddr"
  using assms(1-3,5)
proof (induction k arbitrary: l pte0 s)
  case 0
  then show ?case using assms(6) by simp
next
  case (Suc k)
  let ?pt = "as_pt as" and ?m = "mm_mem s" and ?p = "entry_at (as_pt as) (mm_mem s) vaddr l"
  note t = as_okD(1) [OF Suc.prems(3)] and sv = as_okD(3) [OF Suc.prems(3)]
  have l: "l < 3" using Suc.prems(2) by simp
  note eq = Suc.prems(1) [unfolded map_level.simps pt_get_pte_entry [OF Suc.prems(4)], simplified Let_def sv39_terminal [OF sv l]]
  have pz: "?p \<noteq> 0" using slot_nonnull [OF t entry_slot [OF sv Suc.prems(4) l]] .
  consider "pt_pte_mappable as (?m ?p) l rest vaddr paddr" | "\<not> pt_pte_mappable as (?m ?p) l rest vaddr paddr" "\<not> pte_valid (?m ?p)"
    | "\<not> pt_pte_mappable as (?m ?p) l rest vaddr paddr" "pte_valid (?m ?p)" by blast
  then show ?case
  proof cases
    case 1
    then have "l' = l" "pte = ?p" "s' = s" using eq pz by auto
    then show ?thesis using 1 Suc.prems(4) confined_refl [OF Suc.prems(3)] by simp
  next
    case 2
    then obtain r s1 where a: "mem_alloc_pt e as ?p l vaddr s = Some (r, s1)" "map_level e as rest vaddr paddr k (l + 1) ?p s1 = Some (l', pte, s')"
      using eq pz by (auto split: bind_splits)
    have nt: "\<not> pte_table (?m ?p)" using 2(2) pte_table_valid by blast
    have "l \<noteq> 2" using a(2) Suc.prems(2) assms(6) by auto
    then have l2: "l < 2" using l by simp
    note c = alloc_pt_cases [OF Suc.prems(3) assms(4) l2 Suc.prems(4) refl nt a(1)]
    have k: "\<exists>j. k = Suc j" using l2 Suc.prems(2) by (cases k) auto
    have "r \<noteq> 0"
    proof
      assume "r = 0"
      then have "mm_mem s1 = ?m" using c(2) by (auto dest: new_tableD(7))
      then have "pt_get_pte ?pt (mm_mem s1) (Suc l) vaddr = 0" using pt_get_pte_invalid [OF Suc.prems(4) 2(2)] by simp
      then show False using a(2) k l2 sv39_terminal [OF sv, of "Suc l"] by (auto simp flip: Suc_eq_plus1)
    qed
    then have "tables_above ?pt (mm_mem s1) vaddr (Suc l)"
      using alloc_pt_table(1) [OF Suc.prems(3) assms(4) l2 Suc.prems(4) refl nt a(1)] by blast
    then show ?thesis
      using Suc.IH [of "l + 1" ?p s1] a(2) Suc.prems(2) confinedD(1) [OF c(1)] confined_trans [OF c(1)] by (auto simp flip: Suc_eq_plus1)
  next
    case 3
    then have p: "pte_table (?m ?p)" "map_level e as rest vaddr paddr k (l + 1) ?p s = Some (l', pte, s')"
      using eq pz by (auto split: if_splits)
    then have "tables_above ?pt ?m vaddr (Suc l)" using Suc.prems(4) by (simp add: tables_above_Suc)
    then show ?thesis using Suc.IH [of "l + 1" ?p s] p(2) Suc.prems(2,3) by (auto simp flip: Suc_eq_plus1)
  qed
qed

lemma leaf_frames_page:
  assumes "sv39 pt" "l < 3" "pt_lvlsize pt l dvd a" "a < 2 ^ 56"
  shows "leaf_frames pt l (pte_set a PTE_PAGE fl) = {a div PAGE_SIZE ..< a div PAGE_SIZE + pt_lvlsize pt l div PAGE_SIZE}"
proof -
  obtain k where k: "pt_lvlsize pt l = PAGE_SIZE * k" using sv39_size(6) [OF assms(1,2)] by (elim dvdE)
  obtain j where j: "a = pt_lvlsize pt l * j" using assms(3) by (elim dvdE)
  have "PAGE_SIZE dvd a" using dvd_trans [OF sv39_size(6) [OF assms(1,2)] assms(3)] .
  then have "pte_addr (pte_set a PTE_PAGE fl) = a" using pte_addr_set assms(4) by (simp add: PTE_PAGE_def PTE_RWX_def)
  moreover have "pt_lvlsize pt l div PAGE_SIZE = k" "a div pt_lvlsize pt l = j" "a div PAGE_SIZE = j * k"
    using PAGE_SIZE_pos(2) sv39_size(8) [OF assms(1,2)] by (simp_all add: j k mult.assoc mult.left_commute [of j])
  ultimately show ?thesis by (simp add: leaf_frames_def add_mult_distrib)
qed

text \<open>The physical pages still to be mapped, when they are given, are among \<open>F\<close>.\<close>

definition stocked :: "bool \<Rightarrow> nat set \<Rightarrow> nat \<Rightarrow> nat \<Rightarrow> bool" where
  "stocked given F paddr d \<longleftrightarrow>
     (given \<longrightarrow> paddr + d * PAGE_SIZE \<le> 2 ^ 56 \<and> {paddr div PAGE_SIZE ..< paddr div PAGE_SIZE + d} \<subseteq> F)"

text \<open>One entry: the pages it is to map, and the write.\<close>

lemma entry_pages:
  assumes "sv39 (as_pt as)" "pools_ok (mm_pools s)" "l < 3" "z = pt_lvlsize (as_pt as) l"
    "(if given then Some (mem_ppages_get paddr (z div PAGE_SIZE), mm_pools s)
      else mem_alloc_ppages (env_cc e) (as_colors as) (z div PAGE_SIZE) True (mm_pools s)) = Some (temp, pools)"
    "\<not> pg_size temp < z div PAGE_SIZE" "given \<Longrightarrow> z dvd paddr" "stocked given F paddr d" "z div PAGE_SIZE \<le> d"
    "G = (if given then {} else page_frames temp)"
  shows "z dvd pg_base temp" "pg_base temp < 2 ^ 56"
    "{pg_base temp div PAGE_SIZE ..< pg_base temp div PAGE_SIZE + z div PAGE_SIZE} \<subseteq> G \<union> F" "G \<subseteq> used_frames pools - used s"
proof (atomize (full), cases given)
  case True
  have z: "z div PAGE_SIZE \<noteq> 0" using sv39_size(6,8) [OF assms(1,3)] assms(4) by (auto elim!: dvdE)
  have "1 * PAGE_SIZE \<le> d * PAGE_SIZE" using z assms(9) by (intro mult_le_mono1) simp
  then have "paddr < 2 ^ 56" using True assms(8) PAGE_SIZE_pos(1) unfolding stocked_def by linarith
  moreover have "pg_base temp = paddr" using True assms(5) by (auto simp: mem_ppages_get_def)
  ultimately show "(z dvd pg_base temp \<and> pg_base temp < 2 ^ 56) \<and>
      {pg_base temp div PAGE_SIZE ..< pg_base temp div PAGE_SIZE + z div PAGE_SIZE} \<subseteq> G \<union> F \<and> G \<subseteq> used_frames pools - used s"
    using True assms(7-10) by (auto simp: stocked_def)
next
  case False
  have z: "z div PAGE_SIZE * PAGE_SIZE = z" "z div PAGE_SIZE \<noteq> 0" using sv39_size(6,8) [OF assms(1,3)] assms(4) by (auto elim!: dvdE)
  have al: "mem_alloc_ppages (env_cc e) (as_colors as) (z div PAGE_SIZE) True (mm_pools s) = Some (temp, pools)"
    using assms(5) False by simp
  note o = alloc_ok [OF disjI2 [OF TrueI] assms(2) al]
  have n: "pg_size temp = z div PAGE_SIZE" "pg_size temp \<noteq> 0" using o(3) assms(6) z(2) by auto
  have f: "page_frames temp \<subseteq> used_frames pools - used_frames (mm_pools s)" using o(4) [OF n(2)] .
  have "pg_base temp div PAGE_SIZE \<in> page_frames temp" using n(2) by (simp add: page_frames_def)
  then have "pg_base temp div PAGE_SIZE < 2 ^ 44" using f used_frames_bound [OF o(1)] by auto
  then have "pg_base temp < 2 ^ 56" using o(5) [OF n(2)] by (auto simp: PAGE_SIZE_def elim!: dvdE)
  moreover have "z dvd pg_base temp" using o(6) [OF n(2) TrueI] z(1) sv39_size(7) [OF assms(1,3)] assms(4) by simp
  ultimately show "(z dvd pg_base temp \<and> pg_base temp < 2 ^ 56) \<and>
      {pg_base temp div PAGE_SIZE ..< pg_base temp div PAGE_SIZE + z div PAGE_SIZE} \<subseteq> G \<union> F \<and> G \<subseteq> used_frames pools - used s"
    using False f n(1) assms(10) by (simp add: page_frames_def used_def)
qed

lemma map_entry_confined:
  assumes "as_ok as s" "l < 3" "tables_above (as_pt as) (mm_mem s) vaddr l" "pte = entry_at (as_pt as) (mm_mem s) vaddr l"
    "(if given then Some (mem_ppages_get paddr (pt_lvlsize (as_pt as) l div PAGE_SIZE), mm_pools s)
      else mem_alloc_ppages (env_cc e) (as_colors as) (pt_lvlsize (as_pt as) l div PAGE_SIZE) True (mm_pools s)) = Some (temp, pools)"
    "\<not> pg_size temp < pt_lvlsize (as_pt as) l div PAGE_SIZE"
    "given \<Longrightarrow> pt_lvlsize (as_pt as) l dvd paddr" "stocked given F paddr d" "pt_lvlsize (as_pt as) l div PAGE_SIZE \<le> d"
  shows "confined as F s (write_pte pte (pte_set (pg_base temp) (pt_pte_type (as_pt as) l) flags) (s\<lparr>mm_pools := pools\<rparr>))"
proof -
  let ?s = "s\<lparr>mm_pools := pools\<rparr>"
  let ?w = "pte_set (pg_base temp) PTE_PAGE flags" and ?G = "if given then {} else page_frames temp"
  note sv = as_okD(3) [OF assms(1)]
  note b = entry_pages [OF sv as_okD(2) [OF assms(1)] assms(2) refl assms(5-9) refl]
  have c: "confined as F s ?s"
    using confined_alloc [OF assms(1), of "env_cc e" "as_colors as" True] confined_refl [OF assms(1)] assms(5) by (cases given) auto
  have "slot (as_pt as) (mm_mem ?s) l pte" using entry_slot [OF sv assms(3,2)] assms(4) by simp
  then have "confined as (?G \<union> F) ?s (write_pte pte ?w ?s)"
    using confined_write [OF confinedD(1) [OF c], of l pte ?w "?G \<union> F"] pte_table_set(2) leaf_frames_page [OF sv assms(2) b(1,2)] b(3) by simp
  from confined_fresh [OF assms(1) c _ this] show ?thesis using b(4) by (simp add: pt_pte_type_def used_def)
qed

lemma stocked_step:
  assumes "stocked given F paddr d" "PAGE_SIZE dvd z" "z div PAGE_SIZE \<le> d"
  shows "stocked given F (paddr + z) (d - z div PAGE_SIZE)"
proof -
  obtain k where k: "z = PAGE_SIZE * k" using assms(2) by (elim dvdE)
  then have "k \<le> d" "(paddr + z) div PAGE_SIZE = paddr div PAGE_SIZE + k" "z div PAGE_SIZE = k" using assms(3) PAGE_SIZE_pos(2) by simp_all
  moreover from this(1) have "paddr + z + (d - k) * PAGE_SIZE = paddr + d * PAGE_SIZE"
    by (simp add: k diff_mult_distrib mult.commute [of PAGE_SIZE] add.assoc le_add_diff_inverse)
  ultimately show ?thesis using assms(1) by (auto simp: stocked_def)
qed

text \<open>The entries of one table.\<close>

lemma map_entries_confined:
  assumes "all_clrs (env_cc e) (as_colors as)" "l < 3"
    "map_entries e as flags given n l entry pte count vaddr paddr s = Some (count', vaddr', paddr', s')" "as_ok as s"
    "entry < pt_nentries (as_pt as) l \<longrightarrow> tables_above (as_pt as) (mm_mem s) vaddr l \<and> pte = entry_at (as_pt as) (mm_mem s) vaddr l \<and>
       entry = pt_getpteindex_by_va (as_pt as) vaddr l"
    "given \<longrightarrow> pt_lvlsize (as_pt as) l dvd paddr" "stocked given F paddr (n - count)"
  shows "confined as F s s' \<and> stocked given F paddr' (n - count')"
  using assms(3-7)
proof (induction "pt_nentries (as_pt as) l - entry" arbitrary: entry pte count vaddr paddr s rule: less_induct)
  case less
  let ?pt = "as_pt as" and ?z = "pt_lvlsize (as_pt as) l"
  note ok = less.prems(2) and t = as_okD(1) [OF less.prems(2)] and sv = as_okD(3) [OF less.prems(2)]
  note eq = less.prems(1) [unfolded map_entries.simps [of e as flags given n l entry], unfolded Let_def]
  show ?case
  proof (cases "entry < pt_nentries ?pt l \<and> count < n \<and> n - count \<ge> ?z div PAGE_SIZE")
    case False
    then show ?thesis using eq confined_refl [OF ok] less.prems(5) by auto
  next
    case True
    then have at: "tables_above ?pt (mm_mem s) vaddr l" "pte = entry_at ?pt (mm_mem s) vaddr l" "entry = pt_getpteindex_by_va ?pt vaddr l"
      using less.prems(3) by blast+
    obtain temp pools where al: "(if given then Some (mem_ppages_get paddr (?z div PAGE_SIZE), mm_pools s)
        else mem_alloc_ppages (env_cc e) (as_colors as) (?z div PAGE_SIZE) True (mm_pools s)) = Some (temp, pools)"
      using eq True by (auto split: bind_splits)
    let ?s = "s\<lparr>mm_pools := pools\<rparr>" and ?w = "pte_set (pg_base temp) (pt_pte_type ?pt l) flags"
    show ?thesis
    proof (cases "pg_size temp < ?z div PAGE_SIZE")
      case short: True
      then have ng: "\<not> given" using al by (auto simp: mem_ppages_get_def)
      then have c: "confined as F s ?s" using confined_alloc [OF ok disjI2 [OF TrueI]] al by simp
      have g: "pt_get_pte ?pt (mm_mem ?s) l vaddr = pte" "tables_above ?pt (mm_mem ?s) vaddr l" "pte = entry_at ?pt (mm_mem ?s) vaddr l"
        using pt_get_pte_entry at by simp_all
      have "l \<noteq> 2" using eq True al short sv39_lvls [OF sv] by auto
      then have l2: "l < 2" using assms(2) by simp
      have r: "count' = count \<and> paddr' = paddr \<and> (s' = ?s \<or> (\<exists>r. \<not> pte_valid (mm_mem ?s pte) \<and> mem_alloc_pt e as pte l vaddr ?s = Some (r, s')))"
        using eq True al short g(1) by (auto simp: deref_def split: bind_splits if_splits)
      have "confined as F ?s s'" if "mem_alloc_pt e as pte l vaddr ?s = Some (r, s')" "\<not> pte_valid (mm_mem ?s pte)" for r
        using alloc_pt_cases(1) [OF confinedD(1) [OF c] assms(1) l2 g(2,3) _ that(1)] that(2) pte_table_valid by blast
      then show ?thesis using r c confined_trans [OF c] less.prems(5) by blast
    next
      case False
      let ?t = "write_pte pte ?w ?s"
      have c: "confined as F s ?t"
        using map_entry_confined [OF ok assms(2) at(1,2) al False _ less.prems(5), of flags] less.prems(4) True by blast
      have rec: "map_entries e as flags given n l (entry + 1) (pte + 8) (count + ?z div PAGE_SIZE) (vaddr + ?z) (pg_base temp + ?z) ?t =
          Some (count', vaddr', paddr', s')" using eq True al False by simp
      have sl: "slot ?pt (mm_mem s) l pte" using entry_slot [OF sv at(1) assms(2)] at(2) by simp
      have "mm_mem ?t q = mm_mem s q" if "slot ?pt (mm_mem s) j q" "j < l" for j q
        using slot_same_level [OF t that(1)] sl that(2) by (auto simp: write_pte_def)
      then have k: "tables_above ?pt (mm_mem ?t) vaddr l" "entry_at ?pt (mm_mem ?t) vaddr l = pte"
        using entry_kept [OF sv at(1), of "mm_mem ?t"] assms(2) at(2) by auto
      have nx: "tables_above ?pt (mm_mem ?t) (vaddr + ?z) l \<and> pte + 8 = entry_at ?pt (mm_mem ?t) (vaddr + ?z) l \<and>
          entry + 1 = pt_getpteindex_by_va ?pt (vaddr + ?z) l" if "entry + 1 < pt_nentries ?pt l"
        using next_entry [OF sv assms(2) _ k(1)] next_index(1) [OF sv assms(2)] that at(3) k(2) by simp
      have b: "given \<longrightarrow> pg_base temp = paddr" using al by (auto simp: mem_ppages_get_def)
      have st: "stocked given F (pg_base temp + ?z) (n - (count + ?z div PAGE_SIZE))"
        using stocked_step [OF less.prems(5) sv39_size(6) [OF sv assms(2)]] True b by (simp add: stocked_def)
      have "confined as F ?t s' \<and> stocked given F paddr' (n - count')"
        using True nx b less.prems(4) by (intro less.hyps [OF _ rec confinedD(1) [OF c] _ _ st]) auto
      then show ?thesis using confined_trans [OF c] by blast
    qed
  qed
qed

lemma map_loop_confined:
  assumes "map_loop e as flags given n count vaddr paddr s = Some s'"
  shows "as_ok as s \<longrightarrow> all_clrs (env_cc e) (as_colors as) \<longrightarrow> stocked given F paddr (n - count) \<longrightarrow> confined as F s s'"
proof (rule map_loop.raw_induct [where P = "\<lambda>e as flags given n count vaddr paddr s s'. as_ok as s \<longrightarrow>
      all_clrs (env_cc e) (as_colors as) \<longrightarrow> stocked given F paddr (n - count) \<longrightarrow> confined as F s s'", OF _ assms], intro impI, goal_cases)
  case (1 loop e as flags given n count vaddr paddr s s')
  note sv = as_okD(3) [OF 1(3)]
  show ?case
  proof (cases "count < n")
    case False
    then show ?thesis using 1(2) confined_refl [OF 1(3)] by simp
  next
    case True
    obtain l pte s1 where lv: "map_level e as (n - count) vaddr (if given then paddr else 0) 3 0 0 s = Some (l, pte, s1)" "l < 3"
      "Option.bind (map_entries e as flags given n l (pt_getpteindex (as_pt as) pte l) pte count vaddr paddr s1)
         (\<lambda>(count, vaddr, paddr, s). loop e as flags given n count vaddr paddr s) = Some s'"
      using 1(2) True sv39_lvls [OF sv] by (auto split: bind_splits if_splits)
    have "tables_above (as_pt as) (mm_mem s) vaddr 0" by (simp add: tables_above_def)
    with map_level_confined [OF lv(1) _ 1(3,4) _ lv(2), of F]
    have c: "confined as F s s1" "tables_above (as_pt as) (mm_mem s1) vaddr l" "pte = entry_at (as_pt as) (mm_mem s1) vaddr l"
      "pt_lvlsize (as_pt as) l dvd (if given then paddr else 0)" by (auto simp: pt_pte_mappable_def dvd_eq_mod_eq_0)
    note ok = confinedD(1) [OF c(1)]
    have ix: "pt_getpteindex (as_pt as) pte l = pt_getpteindex_by_va (as_pt as) vaddr l"
      using pteindex_entry [OF as_okD(1) [OF ok] c(2) lv(2)] c(3) by simp
    obtain count' vaddr' paddr' s2 where m: "map_entries e as flags given n l (pt_getpteindex_by_va (as_pt as) vaddr l) pte count vaddr paddr s1 =
        Some (count', vaddr', paddr', s2)" "loop e as flags given n count' vaddr' paddr' s2 = Some s'"
      using lv(3) ix by (auto split: bind_splits)
    have "confined as F s1 s2 \<and> stocked given F paddr' (n - count')"
      by (rule map_entries_confined [OF 1(4) lv(2) m(1) ok]) (use c(2-4) 1(5) in auto)
    moreover from this have "confined as F s2 s'" using 1(1) [OF m(2)] 1(4) confinedD(1) by blast
    ultimately show ?thesis using confined_trans c(1) by blast
  qed
qed

text \<open>
  Mapping into an address space without colour restrictions is confined to it and maps only pages it allocates or the pages
  it is given.
\<close>

lemma mem_map_confined:
  assumes "mem_map e as va ppages n flags s = Some (r, s')" "as_ok as s" "all_clrs (env_cc e) (as_colors as)"
    "\<And>pp. ppages = Some pp \<Longrightarrow> all_clrs (env_cc e) (pg_colors pp) \<and> stocked True F (pg_base pp) n"
  shows "confined as F s s'"
proof (cases "r = -1 \<and> s' = s")
  case True
  then show ?thesis using confined_refl [OF assms(2)] by simp
next
  case False
  then have "map_pages e as (va div PAGE_SIZE * PAGE_SIZE) ppages n flags s = Some s'"
    using assms(1,3) by (auto simp: mem_map_def Let_def split: if_splits bind_splits)
  then show ?thesis
    using map_loop_confined [of e as flags _ n 0 _ _ s s' F] assms(2-4)
    by (auto simp: map_pages_def stocked_def split: option.splits)
qed

end
