(* ===== verification/Isolation.thy ===== *)
theory Isolation
  imports Confinement Vm
begin

text \<open>
  The separation of the memory of VMs: what is mapped into the address space of one VM never shows up in another, whatever
  sequence of allocations and mappings builds the address spaces.
\<close>

subsection \<open>The other address spaces\<close>

lemma reach_agree:
  assumes "tree pt m U" "\<And>l p. slot pt m l p \<Longrightarrow> m' p = m p"
  shows "reach pt m' l b \<longleftrightarrow> reach pt m l b"
proof
  assume "reach pt m l b"
  then show "reach pt m' l b" using reach_kept [OF _ assms(1)] assms(2) by blast
next
  show "reach pt m' l b \<Longrightarrow> reach pt m l b"
  proof (induction rule: reach.induct)
    case (reach_child l b i)
    then have "slot pt m l (b + 8 * i)" unfolding slot_def by blast
    then show ?case using reach_child assms(2) by (metis reach.reach_child)
  qed (rule reach_root)
qed

lemma slot_agree: "tree pt m U \<Longrightarrow> (\<And>l p. slot pt m l p \<Longrightarrow> m' p = m p) \<Longrightarrow> slot pt m' l p \<longleftrightarrow> slot pt m l p"
  using reach_agree [of pt m U m'] unfolding slot_def by simp

lemma translate_agree:
  assumes "tree pt m U" "\<And>l p. slot pt m l p \<Longrightarrow> m' p = m p"
  shows "mem_translate pt m' a = mem_translate pt m a"
proof -
  note sv = treeD(1) [OF assms(1)]
  obtain l where l: "l < 3" "tables_above pt m a l" "\<not> pte_table (m (entry_at pt m a l))" using walk_ends [OF assms(1)] .
  have k: "tables_above pt m' a l" "entry_at pt m' a l = entry_at pt m a l"
    using entry_kept [OF sv l(2), of m'] assms(2) l(1) by auto
  have e: "m' (entry_at pt m a l) = m (entry_at pt m a l)" using assms(2) entry_slot [OF sv l(2,1)] .
  have "l < pt_lvls (pt_dscr pt)" using l(1) sv39_lvls [OF sv] by simp
  then show ?thesis using mem_translate_leaf [of l pt m a] mem_translate_leaf [of l pt m' a] l k e by (simp add: Let_def)
qed

lemma confined_others:
  assumes "confined as F s s'" "as_ok other s" "tables_of (as_pt other) (mm_mem s) \<inter> tables_of (as_pt as) (mm_mem s) = {}"
  shows "as_ok other s'" "tables_of (as_pt other) (mm_mem s') = tables_of (as_pt other) (mm_mem s)"
    "mapped (as_pt other) (mm_mem s') = mapped (as_pt other) (mm_mem s)"
    "mem_translate (as_pt other) (mm_mem s') a = mem_translate (as_pt other) (mm_mem s) a"
proof -
  let ?pt = "as_pt other"
  note t = as_okD(1) [OF assms(2)]
  have g: "mm_mem s' p = mm_mem s p" if "slot ?pt (mm_mem s) l p" for l p
  proof (rule ccontr)
    assume "mm_mem s' p \<noteq> mm_mem s p"
    moreover have "p div PAGE_SIZE \<in> tables_of ?pt (mm_mem s)" using slot_tables [OF t that] .
    ultimately show False using confinedD(3) [OF assms(1)] treeD(3) [OF t] assms(3) by blast
  qed
  note r = reach_agree [OF t g] and sl = slot_agree [OF t g]
  show tb: "tables_of ?pt (mm_mem s') = tables_of ?pt (mm_mem s)" using r unfolding tables_of_def by simp
  show "mapped ?pt (mm_mem s') = mapped ?pt (mm_mem s)" unfolding mapped_def using sl g by (auto, metis+)
  show "mem_translate ?pt (mm_mem s') a = mem_translate ?pt (mm_mem s) a" using translate_agree [OF t g] .
  have "\<not> pte_table (mm_mem s' p)" if "slot ?pt (mm_mem s') 2 p" for p using that sl g treeD(5) [OF t] by auto
  then have "tree ?pt (mm_mem s') (used s')"
    using treeD(1,2) [OF t] treeD(6) [OF t] treeD(3) [OF t] tb r confinedD(2) [OF assms(1)]
      used_0 [OF as_okD(2) [OF confinedD(1) [OF assms(1)]]] unfolding tree_def by auto
  then show "as_ok other s'" using as_okD(2) [OF confinedD(1) [OF assms(1)]] by (simp add: as_ok_def)
qed

subsection \<open>Any number of VMs\<close>

text \<open>
  The steps by which the hypervisor builds the address spaces \<open>ass\<close> of the VMs: reserving virtual pages, mapping pages from the
  pools, mapping given pages, which for VM \<open>i\<close> lie in \<open>own i\<close>, and taking pages for something else.
\<close>

inductive vm_step :: "mem_env \<Rightarrow> addr_space list \<Rightarrow> (nat \<Rightarrow> nat set) \<Rightarrow> mm \<Rightarrow> mm \<Rightarrow> bool" for e ass own where
  vm_alloc: "i < length ass \<Longrightarrow> mem_alloc_vpage e (ass ! i) sec at n s = Some (va, s') \<Longrightarrow> vm_step e ass own s s'"
| vm_map: "i < length ass \<Longrightarrow> mem_map e (ass ! i) va None n flags s = Some (r, s') \<Longrightarrow> vm_step e ass own s s'"
| vm_map_given: "i < length ass \<Longrightarrow> mem_map e (ass ! i) va (Some pp) n flags s = Some (r, s') \<Longrightarrow> all_clrs (env_cc e) (pg_colors pp) \<Longrightarrow>
    pg_base pp + n * PAGE_SIZE \<le> 2 ^ 56 \<Longrightarrow> {pg_base pp div PAGE_SIZE ..< pg_base pp div PAGE_SIZE + n} \<subseteq> own i \<Longrightarrow> vm_step e ass own s s'"
| take_pages: "mem_alloc_ppages (env_cc e) colors n aligned (mm_pools s) = Some (pg, pools) \<Longrightarrow> all_clrs (env_cc e) colors \<or> aligned \<Longrightarrow>
    vm_step e ass own s (s\<lparr>mm_pools := pools\<rparr>)"

text \<open>
  Every VM has frames of its own, allocated from the pools or outside of them such as the registers of its devices, that
  contain its tables, what it maps and what it may be given; no two VMs share a frame, and no VM maps its own tables.
\<close>

definition separate :: "mem_env \<Rightarrow> addr_space list \<Rightarrow> (nat \<Rightarrow> nat set) \<Rightarrow> (nat \<Rightarrow> nat set) \<Rightarrow> mm \<Rightarrow> bool" where
  "separate e ass own fr s \<longleftrightarrow> pools_ok (mm_pools s) \<and>
     (\<forall>i < length ass. as_ok (ass ! i) s \<and> all_clrs (env_cc e) (as_colors (ass ! i)) \<and> own i \<subseteq> fr i \<and> fr i \<inter> pooled s \<subseteq> used s \<and>
        tables_of (as_pt (ass ! i)) (mm_mem s) \<subseteq> fr i \<and> mapped (as_pt (ass ! i)) (mm_mem s) \<subseteq> fr i \<and>
        guarded (ass ! i) (own i) s) \<and>
     (\<forall>i < length ass. \<forall>j < length ass. i \<noteq> j \<longrightarrow> fr i \<inter> fr j = {})"

lemma separate_confined:
  assumes "separate e ass own fr s" "i < length ass" "confined (ass ! i) (own i) s s'"
  shows "separate e ass own (fr(i := fr i \<union> (used s' - used s))) s'"
proof -
  let ?fr = "fr(i := fr i \<union> (used s' - used s))"
  note c = confinedD [OF assms(3)] and u = as_okD(2) [OF confinedD(1) [OF assms(3)]]
  have p: "as_ok (ass ! j) s" "all_clrs (env_cc e) (as_colors (ass ! j))" "own j \<subseteq> fr j" "fr j \<inter> pooled s \<subseteq> used s"
      "tables_of (as_pt (ass ! j)) (mm_mem s) \<subseteq> fr j" "mapped (as_pt (ass ! j)) (mm_mem s) \<subseteq> fr j"
      "guarded (ass ! j) (own j) s" if "j < length ass" for j
    using assms(1) that unfolding separate_def by blast+
  have d: "fr j \<inter> fr k = {}" if "j < length ass" "k < length ass" "j \<noteq> k" for j k using assms(1) that unfolding separate_def by blast
  have up: "used s' \<subseteq> pooled s" using used_pooled [of s'] c(6) by simp
  have "as_ok (ass ! j) s' \<and> tables_of (as_pt (ass ! j)) (mm_mem s') \<subseteq> ?fr j \<and> mapped (as_pt (ass ! j)) (mm_mem s') \<subseteq> ?fr j \<and>
      guarded (ass ! j) (own j) s'" if j: "j < length ass" for j
  proof (cases "j = i")
    case True
    then show ?thesis using c(1,4,5) c(7) [OF p(7) [OF assms(2)]] p(3,5,6) [OF assms(2)] by auto
  next
    case False
    then have "tables_of (as_pt (ass ! j)) (mm_mem s) \<inter> tables_of (as_pt (ass ! i)) (mm_mem s) = {}"
      using d [OF j assms(2)] p(5) [OF j] p(5) [OF assms(2)] by blast
    from confined_others [OF assms(3) p(1) [OF j] this] show ?thesis
      using p(5-7) [OF j] False c(2,6) unfolding guarded_def by auto
  qed
  moreover have "?fr j \<inter> pooled s' \<subseteq> used s'" "own j \<subseteq> ?fr j" if "j < length ass" for j using p(3,4) [OF that] c(2,6) by auto
  moreover have "?fr j \<inter> ?fr k = {}" if "j < length ass" "k < length ass" "j \<noteq> k" for j k
    using d [OF that] p(4) [OF that(1)] p(4) [OF that(2)] that(3) up by auto
  ultimately show ?thesis using p(2) u unfolding separate_def by blast
qed

lemma separate_take:
  assumes "separate e ass own fr s" "mem_alloc_ppages cc colors n aligned (mm_pools s) = Some (pg, pools)" "all_clrs cc colors \<or> aligned"
  shows "separate e ass own fr (s\<lparr>mm_pools := pools\<rparr>)"
proof -
  let ?s = "s\<lparr>mm_pools := pools\<rparr>"
  have ok: "pools_ok (mm_pools s)" "\<And>i. i < length ass \<Longrightarrow> as_ok (ass ! i) s \<and> guarded (ass ! i) (own i) s"
    using assms(1) unfolding separate_def by blast+
  have "as_ok (ass ! i) ?s" "used s \<subseteq> used ?s" "pooled ?s = pooled s" "guarded (ass ! i) (own i) ?s" if "i < length ass" for i
    using confinedD [OF confined_alloc [OF _ assms(3,2), of "ass ! i" "own i"]] ok(2) [OF that] by blast+
  moreover have "pools_ok pools" using alloc_ok(1) [OF assms(3) ok(1) assms(2)] .
  ultimately show ?thesis using assms(1) unfolding separate_def by (auto, blast+)
qed

lemma vm_step_separate:
  assumes "vm_step e ass own s s'" "separate e ass own fr s"
  shows "\<exists>fr'. separate e ass own fr' s'"
proof -
  have p: "as_ok (ass ! i) s" "all_clrs (env_cc e) (as_colors (ass ! i))" if "i < length ass" for i
    using assms(2) that unfolding separate_def by blast+
  have conf: "\<exists>fr'. separate e ass own fr' s'" if "i < length ass" "confined (ass ! i) (own i) s s'" for i
    using separate_confined [OF assms(2) that] by blast
  show ?thesis using assms(1)
  proof cases
    case (vm_alloc i sec at n va)
    then show ?thesis using conf mem_alloc_vpage_confined p by blast
  next
    case (vm_map i va n flags r)
    then show ?thesis using conf [of i] mem_map_confined [of e "ass ! i" va None n flags s r s' "own i"] p by blast
  next
    case (vm_map_given i va pp n flags r)
    then have "confined (ass ! i) (own i) s s'"
      using mem_map_confined [of e "ass ! i" va "Some pp" n flags s r s' "own i"] p by (simp add: stocked_def)
    then show ?thesis using conf vm_map_given by blast
  next
    case (take_pages colors n aligned pg pools)
    then show ?thesis using separate_take [OF assms(2)] by blast
  qed
qed

interpretation vms: step_system "vm_step e ass own" "\<lambda>s. \<exists>fr. separate e ass own fr s" for e ass own
  by unfold_locales (use vm_step_separate in blast)


subsection \<open>Empty tables\<close>

lemma empty_tables:
  assumes "\<forall>p. slot pt m 0 p \<longrightarrow> \<not> pte_valid (m p)"
  shows "reach pt m l b \<longleftrightarrow> l = 0 \<and> b = pt_root pt" "tables_of pt m = table_frames pt 0 (pt_root pt)" "mapped pt m = {}"
proof -
  have "l = 0 \<and> b = pt_root pt" if "reach pt m l b" for l b
    using that
  proof (induction rule: reach.induct)
    case (reach_child l b i)
    then have "slot pt m 0 (b + 8 * i)" unfolding slot_def by blast
    then show ?case using assms reach_child.hyps pte_table_valid by blast
  qed simp
  then have r: "reach pt m l b \<longleftrightarrow> l = 0 \<and> b = pt_root pt" for l b using reach_root by blast
  then show "reach pt m l b \<longleftrightarrow> l = 0 \<and> b = pt_root pt" "tables_of pt m = table_frames pt 0 (pt_root pt)" by (auto simp: tables_of_def)
  have "slot pt m 0 p" if "slot pt m l p" for l p using that r unfolding slot_def by auto
  then show "mapped pt m = {}" using assms unfolding mapped_def by blast
qed

lemma empty_tree:
  assumes "\<forall>p. slot pt m 0 p \<longrightarrow> \<not> pte_valid (m p)" "sv39 pt" "pt_size pt 0 dvd pt_root pt" "table_frames pt 0 (pt_root pt) \<subseteq> U" "0 \<notin> U"
  shows "tree pt m U"
  using assms(2-5) empty_tables [OF assms(1)] unfolding tree_def slot_def by simp

subsection \<open>An example\<close>

text \<open>
  Two VMs whose root tables are the first frames of a pool and still empty; each may be given a physical range of 1 GiB outside of
  the pool.
\<close>

definition iso_env :: mem_env where
  "iso_env = \<lparr>env_cc = color_cfg_init, hyp_secs = []\<rparr>"

definition iso_as :: "nat \<Rightarrow> addr_space" where
  "iso_as i = \<lparr>as_pt = \<lparr>pt_root = 0x40000000 + i * 0x4000, pt_dscr = sv39x4_pt_dscr\<rparr>, as_type = AS_VM, as_colors = 0, as_id = i\<rparr>"

definition iso_own :: "nat \<Rightarrow> nat set" where
  "iso_own i = {0x80000 + i * 0x40000 ..< 0x80000 + i * 0x40000 + 0x40000}"

definition iso_pool :: page_pool where
  "iso_pool = \<lparr>pp_base = 0x40000000, pp_size = 16, pp_free = 8, pp_last = 8, pp_bitmap = (\<lambda>_. 0xff)\<rparr>"

definition iso_mm :: mm where
  "iso_mm = \<lparr>mm_mem = (\<lambda>_. 0), mm_pools = [iso_pool], mm_tlb = []\<rparr>"

lemma iso_sv39: "sv39 (as_pt (iso_as i))"
  by (simp add: sv39_def iso_as_def)

lemma iso_entry: "entry_at (as_pt (iso_as i)) m 0x40000000 0 = 0x40000008 + i * 0x4000"
  using sv39_index(3) [OF iso_sv39, of "0x40000000" "0x40000" i]
  by (simp add: iso_as_def PAGE_SIZE_def pt_nentries_def sv39x4_pt_dscr_def)

lemma iso_get: "pt_get_pte (as_pt (iso_as i)) m 0 0x40000000 = 0x40000008 + i * 0x4000"
  using pt_get_pte_entry [of "as_pt (iso_as i)" m "0x40000000" 0] iso_entry [of i] by (simp add: tables_above_def del: entry_at.simps)

lemma iso_dims:
  assumes "i < 2"
  shows "pt_lvls (pt_dscr (as_pt (iso_as i))) = Suc (Suc (Suc 0))" "pt_lvl_terminal (as_pt (iso_as i)) 0"
    "pt_nentries (as_pt (iso_as i)) 0 = 2048" "pt_lvlsize (as_pt (iso_as i)) 0 = 0x40000000"
    "pt_getpteindex (as_pt (iso_as i)) (0x40000008 + i * 0x4000) 0 = 1"
  using assms by (auto simp: less_2_cases_iff iso_as_def sv39x4_pt_dscr_def pt_lvl_terminal_def pt_nentries_def pt_lvlsize_def
      pt_getpteindex_def pt_size_def)

text \<open>One entry of the root table maps the range.\<close>

definition iso_block :: "nat \<Rightarrow> mm \<Rightarrow> mm" where
  "iso_block i s = write_pte (0x40000008 + i * 0x4000) (pte_set (0x80000000 + i * 0x40000000) PTE_PAGE PTE_VM_FLAGS) s"

lemma iso_map_block:
  assumes "\<not> pte_valid (mm_mem s (0x40000008 + i * 0x4000))" "i < 2"
  shows "mem_map iso_env (iso_as i) 0x40000000 (Some (mem_ppages_get (0x80000000 + i * 0x40000000) 0x40000)) 0x40000 PTE_VM_FLAGS s =
    Some (0, iso_block i s)"
proof -
  let ?p = "0x40000008 + i * 0x4000"
  note get = iso_get [of i "mm_mem s"] and dims = iso_dims [OF assms(2)]
  have lvl: "map_level iso_env (iso_as i) 0x40000 0x40000000 (0x80000000 + i * 0x40000000) (Suc (Suc (Suc 0))) 0 0 s = Some (0, ?p, s)"
    using get dims assms(1) by (simp add: pt_pte_mappable_def PAGE_SIZE_def)
  have ent: "map_entries iso_env (iso_as i) PTE_VM_FLAGS True 0x40000 0 1 ?p 0 0x40000000 (0x80000000 + i * 0x40000000) s =
      Some (0x40000, 0x80000000, 0x80000000 + i * 0x40000000 + 0x40000000, iso_block i s)"
    using dims by (simp add: map_entries.simps mem_ppages_get_def PAGE_SIZE_def iso_block_def pt_pte_type_def)
  have "map_loop iso_env (iso_as i) PTE_VM_FLAGS True 0x40000 0 0x40000000 (0x80000000 + i * 0x40000000) s = Some (iso_block i s)"
    using lvl ent dims by (simp add: map_loop.simps)
  moreover have "as_type (iso_as i) = AS_VM" by (simp add: iso_as_def)
  ultimately show ?thesis
    by (simp add: mem_map_def vm_section sub64_def PAGE_SIZE_def map_pages_def mem_ppages_get_def all_clrs_def Let_def)
qed

lemma iso_translate:
  assumes "mm_mem s (0x40000008 + i * 0x4000) = pte_set (0x80000000 + i * 0x40000000) PTE_PAGE PTE_VM_FLAGS" "i < 2"
  shows "mem_translate (as_pt (iso_as i)) (mm_mem s) 0x40005123 = Some (0x80005123 + i * 0x40000000)"
proof -
  let ?pt = "as_pt (iso_as i)" and ?w = "pte_set (0x80000000 + i * 0x40000000) PTE_PAGE PTE_VM_FLAGS"
  have e: "entry_at ?pt (mm_mem s) 0x40005123 0 = 0x40000008 + i * 0x4000"
    using sv39_index(3) [OF iso_sv39, of "0x40005123" "0x40005" i]
    by (simp add: iso_as_def PAGE_SIZE_def pt_nentries_def sv39x4_pt_dscr_def)
  have ty: "PTE_PAGE < 16" by (simp add: PTE_PAGE_def PTE_RWX_def)
  have "pte_addr ?w = 0x80000000 + i * 0x40000000"
    using assms(2) by (intro pte_addr_set [OF _ _ ty]) (auto simp: less_2_cases_iff PAGE_SIZE_def)
  moreover have "pte_valid ?w" "\<not> pte_table ?w" using pte_valid_set [OF ty] pte_table_set(2) by (simp_all add: PTE_VM_FLAGS_def)
  moreover have "pt_lvlsize ?pt 0 = 0x40000000" "0 < pt_lvls (pt_dscr ?pt)" by (simp_all add: iso_as_def sv39x4_pt_dscr_def pt_lvlsize_def)
  ultimately show ?thesis
    using mem_translate_leaf [of 0 ?pt "mm_mem s" "0x40005123"] e assms
    by (auto simp: tables_above_def less_2_cases_iff Let_def simp del: entry_at.simps)
qed

lemma iso_used: "used iso_mm = {0x40000 ..< 0x40008}" "pooled iso_mm = {0x40000 ..< 0x40010}"
proof -
  have "bitmap_get (\<lambda>_. 0xff) k = 1 \<longleftrightarrow> k < 8" if "k < 16" for k :: nat
  proof -
    have "k \<in> set [0..<16]" using that by simp
    then show ?thesis by (simp add: upt_rec) (elim disjE; simp; code_simp)
  qed
  then show "used iso_mm = {0x40000 ..< 0x40008}" "pooled iso_mm = {0x40000 ..< 0x40010}"
    by (auto simp: used_def pooled_def iso_mm_def iso_pool_def pool_used_def pool_frames_def PAGE_SIZE_def)
qed

definition iso_frames :: "nat \<Rightarrow> nat set" where
  "iso_frames i = {0x40000 + i * 4 ..< 0x40004 + i * 4} \<union> iso_own i"

lemma iso_separate: "separate iso_env [iso_as 0, iso_as 1] iso_own iso_frames iso_mm"
proof -
  have z: "\<forall>p. slot pt (mm_mem iso_mm) 0 p \<longrightarrow> \<not> pte_valid (mm_mem iso_mm p)" for pt by (simp add: iso_mm_def pte_valid_bit)
  have f: "table_frames (as_pt (iso_as i)) 0 (pt_root (as_pt (iso_as i))) = {0x40000 + i * 4 ..< 0x40004 + i * 4}" if "i < 2" for i
    using that by (auto simp: table_frames_def iso_as_def pt_size_def pt_nentries_def sv39x4_pt_dscr_def PAGE_SIZE_def less_2_cases_iff)
  have d: "pt_size (as_pt (iso_as i)) 0 dvd pt_root (as_pt (iso_as i))" if "i < 2" for i
    using that by (auto simp: iso_as_def pt_size_def pt_nentries_def sv39x4_pt_dscr_def less_2_cases_iff)
  note m = empty_tables [OF z]
  have p: "pools_ok (mm_pools iso_mm)"
    by (simp add: pools_ok_def pools_wf_def pool_wf_def iso_mm_def iso_pool_def pool_frames_def PAGE_SIZE_def SIZE_MAX_def)
  have t: "as_ok (iso_as i) iso_mm" if "i < 2" for i
    using empty_tree [OF z iso_sv39 d [OF that]] f [OF that] p that by (auto simp: as_ok_def iso_used less_2_cases_iff)
  have g: "guarded (iso_as i) (iso_own i) iso_mm" if "i < 2" for i
    unfolding guarded_def m f [OF that] iso_used using that by (auto simp: iso_own_def less_2_cases_iff)
  have "as_ok (iso_as i) iso_mm \<and> all_clrs (env_cc iso_env) (as_colors (iso_as i)) \<and> iso_own i \<subseteq> iso_frames i \<and>
      iso_frames i \<inter> pooled iso_mm \<subseteq> used iso_mm \<and> tables_of (as_pt (iso_as i)) (mm_mem iso_mm) \<subseteq> iso_frames i \<and>
      mapped (as_pt (iso_as i)) (mm_mem iso_mm) \<subseteq> iso_frames i \<and> guarded (iso_as i) (iso_own i) iso_mm" if "i < 2" for i
    unfolding m f [OF that] iso_used using t g that by (auto simp: iso_frames_def iso_own_def all_clrs_def iso_as_def less_2_cases_iff)
  moreover have "iso_frames 0 \<inter> iso_frames 1 = {}" by (auto simp: iso_frames_def iso_own_def)
  ultimately show ?thesis using p unfolding separate_def by (auto simp: less_2_cases_iff numeral_2_eq_2 less_Suc_eq)
qed

lemma iso_run: "rtranclp (vm_step iso_env [iso_as 0, iso_as 1] iso_own) iso_mm (iso_block 1 (iso_block 0 iso_mm))"
proof -
  have "vm_step iso_env [iso_as 0, iso_as 1] iso_own s (iso_block i s)"
    if "\<not> pte_valid (mm_mem s (0x40000008 + i * 0x4000))" "i < 2" for i s
    using iso_map_block [OF that] that(2)
    by (intro vm_map_given [of i _ _ _ "mem_ppages_get (0x80000000 + i * 0x40000000) 0x40000"])
      (auto simp: less_2_cases_iff mem_ppages_get_def all_clrs_def PAGE_SIZE_def iso_own_def)
  from this [of iso_mm 0] this [of "iso_block 0 iso_mm" 1] show ?thesis
    by (simp add: iso_mm_def iso_block_def write_pte_def pte_valid_bit)
qed


end
