(* ===== verification/Vm_Isolation.thy ===== *)
theory Vm_Isolation
  imports Isolation
begin

text \<open>
  The initialisation of a VM's memory is a run of the steps of \<open>vm_step\<close>: the regions and devices of its
  configuration are mapped into its own address space only, from the pools or from the physical ranges the configuration gives it.
\<close>

definition frames_at :: "nat \<Rightarrow> nat \<Rightarrow> nat set" where
  "frames_at pa n = {pa div PAGE_SIZE ..< pa div PAGE_SIZE + n}"

text \<open>
  The physical ranges that the configuration gives to the VM lie in \<open>F\<close>. The image is used where it was loaded: a region that
  contains it has no physical address of its own.
\<close>

definition region_given :: "vm_config \<Rightarrow> nat set \<Rightarrow> mem_region \<Rightarrow> bool" where
  "region_given config F reg \<longleftrightarrow>
     (if range_in_range (img_base_addr config) (img_size config) (mr_base reg) (mr_size reg)
      then \<not> mr_place_phys reg \<and> img_load_addr config + NUM_PAGES (img_size config) * PAGE_SIZE \<le> 2 ^ 56 \<and>
        frames_at (img_load_addr config) (NUM_PAGES (img_size config)) \<subseteq> F
      else mr_place_phys reg \<longrightarrow> mr_phys reg + NUM_PAGES (mr_size reg) * PAGE_SIZE \<le> 2 ^ 56 \<and>
        frames_at (mr_phys reg) (NUM_PAGES (mr_size reg)) \<subseteq> F)"

definition dev_given :: "nat set \<Rightarrow> dev_region \<Rightarrow> bool" where
  "dev_given F dev \<longleftrightarrow> (let n = ALIGN (dev_size dev) PAGE_SIZE div PAGE_SIZE in
     dev_pa dev + n * PAGE_SIZE \<le> 2 ^ 56 \<and> frames_at (dev_pa dev) n \<subseteq> F)"

abbreviation vm_steps :: "mem_env \<Rightarrow> addr_space list \<Rightarrow> (nat \<Rightarrow> nat set) \<Rightarrow> mm \<Rightarrow> mm \<Rightarrow> bool" where
  "vm_steps e ass own \<equiv> rtranclp (vm_step e ass own)"

lemma all_clrs_0: "all_clrs cc 0"
  by (simp add: all_clrs_def)

text \<open>The calls that the initialisation is made of.\<close>

lemma step_vpage:
  assumes "i < length ass" "ass ! i = as" "mem_alloc_vpage e as sec at n m = Some (va, m')"
  shows "vm_steps e ass own m m'"
  using vm_alloc [of i ass e sec at n m va m'] assms by blast

lemma step_map_given:
  assumes "i < length ass" "ass ! i = as" "mem_map e as va (Some (mem_ppages_get pa n)) n flags m = Some (r, m')"
    "pa + n * PAGE_SIZE \<le> 2 ^ 56" "frames_at pa n \<subseteq> own i"
  shows "vm_steps e ass own m m'"
  using vm_map_given [of i ass e va "mem_ppages_get pa n" n flags m r m' own] assms all_clrs_0
  by (auto simp: mem_ppages_get_def frames_at_def)

lemma step_map_fresh:
  assumes "i < length ass" "ass ! i = as" "mem_map e as va None n flags m = Some (r, m')"
  shows "vm_steps e ass own m m'"
  using vm_map [of i ass e va n flags m r m' own] assms by blast

lemma vm_map_mem_region_steps:
  assumes "i < length ass" "ass ! i = vm_as s" "vm_map_mem_region v reg s = Some s'"
    "mr_place_phys reg \<longrightarrow> mr_phys reg + NUM_PAGES (mr_size reg) * PAGE_SIZE \<le> 2 ^ 56 \<and> frames_at (mr_phys reg) (NUM_PAGES (mr_size reg)) \<subseteq> own i"
  shows "vm_steps (ve_mem v) ass own (vm_mm s) (vm_mm s') \<and> vm_as s' = vm_as s"
proof -
  let ?n = "NUM_PAGES (mr_size reg)"
  obtain va m r m' where c: "mem_alloc_vpage (ve_mem v) (vm_as s) SEC_VM_ANY (mr_base reg) ?n (vm_mm s) = Some (va, m)"
    "mem_map (ve_mem v) (vm_as s) va (if mr_place_phys reg then Some (mem_ppages_get (mr_phys reg) ?n) else None) ?n PTE_VM_FLAGS m = Some (r, m')"
    "s' = set_vm_mm m' s"
    using assms(3) by (auto simp: vm_map_mem_region_def Let_def split: bind_splits if_splits)
  note a = step_vpage [OF assms(1,2) c(1), of own]
  have "vm_steps (ve_mem v) ass own m m'"
    using c(2) step_map_given [OF assms(1,2), of "ve_mem v" va "mr_phys reg"] step_map_fresh [OF assms(1,2)] assms(4)
    by (cases "mr_place_phys reg") auto
  with a show ?thesis using c(3) by simp
qed

lemma vm_map_img_inplace_steps:
  assumes "i < length ass" "ass ! i = vm_as s" "vm_map_img_rgn_inplace v cpu config reg s = Some s'"
    "all_clrs (env_cc (ve_mem v)) (as_colors (vm_as s))"
    "img_load_addr config + NUM_PAGES (img_size config) * PAGE_SIZE \<le> 2 ^ 56" "frames_at (img_load_addr config) (NUM_PAGES (img_size config)) \<subseteq> own i"
  shows "vm_steps (ve_mem v) ass own (vm_mm s) (vm_mm s') \<and> vm_as s' = vm_as s"
proof -
  let ?e = "ve_mem v" and ?as = "vm_as s" and ?n = "NUM_PAGES (img_size config)"
  obtain va b t a m1 r2 m2 r3 m3 r4 m4 where c: "mem_alloc_vpage ?e ?as SEC_VM_ANY (mr_base reg) t (vm_mm s) = Some (va, m1)"
    "mem_map ?e ?as va None b PTE_VM_FLAGS m1 = Some (r2, m2)"
    "mem_map ?e ?as (va + b * PAGE_SIZE) (Some (mem_ppages_get (img_load_addr config) ?n)) ?n PTE_VM_FLAGS m2 = Some (r3, m3)"
    "mem_map ?e ?as (va + (b + ?n) * PAGE_SIZE) None a PTE_VM_FLAGS m3 = Some (r4, m4)" "s' = set_vm_mm m4 s"
    using assms(3,4) by (auto simp: vm_map_img_rgn_inplace_def Let_def split: bind_splits)
  from step_vpage [OF assms(1,2) c(1), of own] step_map_fresh [OF assms(1,2) c(2), of own]
    step_map_given [OF assms(1,2) c(3), of own] step_map_fresh [OF assms(1,2) c(4), of own]
  show ?thesis using assms(5,6) c(5) by simp
qed

lemma init_regions_steps:
  assumes "init_regions v cpu config regs s = Some s'" "i < length ass" "ass ! i = vm_as s"
    "all_clrs (env_cc (ve_mem v)) (as_colors (vm_as s))" "\<forall>reg \<in> set regs. region_given config (own i) reg"
  shows "vm_steps (ve_mem v) ass own (vm_mm s) (vm_mm s') \<and> vm_as s' = vm_as s"
  using assms
proof (induction regs arbitrary: s)
  case (Cons reg regs)
  let ?img = "range_in_range (img_base_addr config) (img_size config) (mr_base reg) (mr_size reg)"
  have g: "region_given config (own i) reg" using Cons.prems(5) by simp
  obtain s1 where s1: "(if ?img then vm_map_img_rgn v cpu config reg s else vm_map_mem_region v reg s) = Some s1"
    "init_regions v cpu config regs s1 = Some s'" using Cons.prems(1) by (auto split: bind_splits)
  have a: "vm_steps (ve_mem v) ass own (vm_mm s) (vm_mm s1) \<and> vm_as s1 = vm_as s"
    using s1(1) g vm_map_img_inplace_steps [OF Cons.prems(2,3), of v cpu config reg s1 own] Cons.prems(4)
      vm_map_mem_region_steps [OF Cons.prems(2,3), of v reg s1 own]
    by (auto simp: region_given_def vm_map_img_rgn_def split: if_splits)
  then have "vm_steps (ve_mem v) ass own (vm_mm s1) (vm_mm s') \<and> vm_as s' = vm_as s1"
    using Cons.IH [OF s1(2)] Cons.prems by simp
  then show ?case using a by (metis rtranclp_trans)
qed simp

lemma assign_irqs_memory: "assign_irqs is s = Some s' \<Longrightarrow> vm_mm s' = vm_mm s \<and> vm_as s' = vm_as s"
  by (induction "is" s arbitrary: s' rule: assign_irqs.induct) (auto simp: vm_mm_def split: bind_splits)

lemma init_devs_steps:
  assumes "init_devs v devs s = Some s'" "i < length ass" "ass ! i = vm_as s" "\<forall>dev \<in> set devs. dev_given (own i) dev"
  shows "vm_steps (ve_mem v) ass own (vm_mm s) (vm_mm s') \<and> vm_as s' = vm_as s"
  using assms
proof (induction devs arbitrary: s)
  case (Cons dev devs)
  let ?n = "ALIGN (dev_size dev) PAGE_SIZE div PAGE_SIZE" and ?e = "ve_mem v"
  obtain va m r m' s1 where c: "mem_alloc_vpage ?e (vm_as s) SEC_VM_ANY (dev_va dev) ?n (vm_mm s) = Some (va, m)"
    "mem_map_dev ?e (vm_as s) va (dev_pa dev) ?n m = Some (r, m')" "assign_irqs (dev_interrupts dev) (set_vm_mm m' s) = Some s1"
    "init_devs v devs s1 = Some s'"
    using Cons.prems(1) by (auto simp: Let_def split: bind_splits)
  have s1: "vm_mm s1 = m'" "vm_as s1 = vm_as s" using assign_irqs_memory [OF c(3)] by simp_all
  have "vm_steps ?e ass own m m'"
    using step_map_given [OF Cons.prems(2,3) c(2) [unfolded mem_map_dev_def]] Cons.prems(4) by (simp add: dev_given_def Let_def)
  moreover have "vm_steps ?e ass own (vm_mm s1) (vm_mm s') \<and> vm_as s' = vm_as s1" using Cons.IH [OF c(4)] Cons.prems s1 by simp
  ultimately show ?case using step_vpage [OF Cons.prems(2,3) c(1), of own] s1 by (metis rtranclp_trans)
qed simp


subsection \<open>An example\<close>

text \<open>The first of the two VMs is given its range by its configuration.\<close>

definition iso_region :: mem_region where
  "iso_region = \<lparr>mr_base = 0x40000000, mr_size = 0x40000000, mr_colors = 0, mr_place_phys = True, mr_phys = 0x80000000\<rparr>"

definition iso_config :: vm_config where
  "iso_config = \<lparr>img_base_addr = 0, img_load_addr = 0, img_size = 0, vc_entry = 0x40000000, vc_cpu_affinity = 0, vc_colors = 0,
     vc_platform = \<lparr>plat_cpu_num = 2, plat_regions = [iso_region], plat_ipcs = [], plat_devs = [], plat_plic_base = 0\<rparr>\<rparr>"

definition iso_vm :: vm where
  "iso_vm = set_vm_mm iso_mm (vm_example\<lparr>vm_as := iso_as 0\<rparr>)"

lemma iso_alloc_block:
  assumes "mm_mem s 0x40000008 = 0" "m = pte_set_rsw 0 PTE_RSW_RSRV"
  shows "mem_alloc_vpage iso_env (iso_as 0) SEC_VM_ANY 0x40000000 0x40000 s = Some (0x40000000, write_pte 0x40000008 m s)"
proof -
  note get = iso_get [of 0, simplified] and dims = iso_dims [of 0, simplified]
  have z: "\<not> pte_valid 0" "\<not> pte_table 0" "\<not> pte_check_rsw 0 PTE_RSW_RSRV" by code_simp+
  have al: "pte_allocable (iso_as 0) 0 0 0x40000 0x40000000" using dims z by (simp add: pte_allocable_def PAGE_SIZE_def)
  have ents: "vp_entries iso_env (iso_as 0) 0x40000 True 0 1 0x40000008 0 0x40000000 0 s = Some (0, 0x40000, 0x80000000, 0x40000000, False, s)"
    using assms(1) z al dims by (simp add: vp_entries.simps Let_def PAGE_SIZE_def)
  have search: "vp_search iso_env (iso_as 0) 0x40000 True (2 ^ 64 - 1) 0 0 0x40000000 0 s = Some (0x40000000, False, s)"
    using ents get dims by (simp add: vp_search.simps sub64_def PAGE_SIZE_def Let_def)
  have "first_invalid (as_pt (iso_as 0)) (mm_mem s) 0x40000000 = Some 0"
    using get assms(1) z dims by (simp add: first_invalid_def upt_rec)
  then have "vp_reserve (iso_as 0) 0x40000 0 0x40000000 s = Some (write_pte 0x40000008 m s)"
    using get dims assms by (simp add: vp_reserve.simps Let_def PAGE_SIZE_def)
  moreover have "as_type (iso_as 0) = AS_VM" by (simp add: iso_as_def)
  ultimately show ?thesis
    using search by (simp add: mem_alloc_vpage_def vm_section SEC_VM_ANY_def sections_def vm_secs_def PAGE_SIZE_def Let_def)
qed

lemma iso_vm_region:
  assumes "ve_mem v = iso_env"
  shows "vm_init_mem_regions v cpu iso_config iso_vm = Some (set_vm_mm (iso_block 0 (write_pte 0x40000008 (pte_set_rsw 0 PTE_RSW_RSRV) iso_mm)) iso_vm)"
proof -
  let ?w = "pte_set_rsw 0 PTE_RSW_RSRV"
  have n: "NUM_PAGES 0x40000000 = 0x40000" by (simp add: NUM_PAGES_def ALIGN_def PAGE_SIZE_def)
  have s: "vm_as iso_vm = iso_as 0" "vm_mm iso_vm = iso_mm" by (simp_all add: iso_vm_def)
  have a: "mem_alloc_vpage iso_env (iso_as 0) SEC_VM_ANY 0x40000000 0x40000 iso_mm = Some (0x40000000, write_pte 0x40000008 ?w iso_mm)"
    by (rule iso_alloc_block) (simp_all add: iso_mm_def)
  have "\<not> pte_valid ?w" by (simp add: pte_valid_bit pte_set_rsw_bit)
  then have "mem_map iso_env (iso_as 0) 0x40000000 (Some (mem_ppages_get 0x80000000 0x40000)) 0x40000 PTE_VM_FLAGS (write_pte 0x40000008 ?w iso_mm) =
      Some (0, iso_block 0 (write_pte 0x40000008 ?w iso_mm))"
    using iso_map_block [of "write_pte 0x40000008 ?w iso_mm" 0] by (simp add: write_pte_def)
  then have "vm_map_mem_region v iso_region iso_vm = Some (set_vm_mm (iso_block 0 (write_pte 0x40000008 ?w iso_mm)) iso_vm)"
    using a s n assms by (simp add: vm_map_mem_region_def iso_region_def Let_def)
  then show ?thesis by (simp add: vm_init_mem_regions_def iso_config_def range_in_range_def iso_region_def)
qed


end
