(* ===== verification/Gic.thy ===== *)
theory Gic
  imports Vm_Cpus Machine "HOL-Library.Monad_Syntax"
begin

text \<open>
  The physical interrupt controller of the ARMv8 port, \<^verbatim>\<open>arch/armv8/gic.c\<close>, \<^verbatim>\<open>gicv2.c\<close>, \<^verbatim>\<open>gicv3.c\<close> and the platform's CPU numbers of
  \<^verbatim>\<open>arch/armv8/platform.c\<close>. The version of the controller, a constant of the build, is a field of the environment. What the code
  writes to the registers is recorded in order; what it reads from them is a function of that record, since the registers are
  changed by the hardware as well.
\<close>

subsection \<open>Registers\<close>

datatype gic_version = GICV2 | GICV3

datatype gic_frame = Dist | Redist nat

datatype gic_reg = GICD_CTLR | ISENABLER | ICENABLER | ISPENDR | ICPENDR | ISACTIVER | ICACTIVER | IPRIORITYR | ITARGETSR | ICFGR
  | IROUTER | SGIR | CPENDSGIR | SPENDSGIR | GICC_CTLR | GICC_PMR | GICC_BPR | GICC_IAR | GICC_EOIR | GICC_RPR | GICC_HPPIR | GICC_DIR
  | ICC_SRE | ICC_IGRPEN1 | ICC_SGI1R

text \<open>The CPU interface is banked: its accesses carry the number of the CPU.\<close>

record gic_write =
  gw_cpu :: nat
  gw_frame :: gic_frame
  gw_reg :: gic_reg
  gw_ind :: nat
  gw_val :: u64

record gic_env =
  g_ver :: gic_version
  g_cpu_id :: nat
  g_num_lrs :: nat
  g_read :: "gic_write list \<Rightarrow> nat \<Rightarrow> gic_frame \<Rightarrow> gic_reg \<Rightarrow> nat \<Rightarrow> u32"
  g_typer :: u32
  g_clusters :: "nat list"
  g_plat_cpu_num :: nat

record gic_state =
  gs_log :: "gic_write list"
  gs_lrs :: "nat \<Rightarrow> nat \<Rightarrow> u64"
  gs_hcr :: "nat \<Rightarrow> u32"
  gs_cpu_map :: "nat \<Rightarrow> nat"
  gs_reserved :: "nat list"

definition GIC_MAX_INTERUPTS :: nat where "GIC_MAX_INTERUPTS = 1024"
definition GIC_FIRST_SPECIAL_INTID :: nat where "GIC_FIRST_SPECIAL_INTID = 1020"
definition GIC_MAX_SGIS :: nat where "GIC_MAX_SGIS = 16"
definition GIC_MAX_PPIS :: nat where "GIC_MAX_PPIS = 16"
definition GIC_CPU_PRIV :: nat where "GIC_CPU_PRIV = 32"
definition GIC_TARGET_BITS :: nat where "GIC_TARGET_BITS = 8"
definition GIC_LOWEST_PRIO :: u8 where "GIC_LOWEST_PRIO = 0xff"

lemmas GIC_defs = GIC_MAX_INTERUPTS_def GIC_FIRST_SPECIAL_INTID_def GIC_MAX_SGIS_def GIC_MAX_PPIS_def GIC_CPU_PRIV_def
  GIC_TARGET_BITS_def GIC_LOWEST_PRIO_def

definition gic_is_sgi :: "nat \<Rightarrow> bool" where "gic_is_sgi int_id \<longleftrightarrow> int_id < GIC_MAX_SGIS"
definition gic_is_priv :: "nat \<Rightarrow> bool" where "gic_is_priv int_id \<longleftrightarrow> int_id < GIC_CPU_PRIV"

text \<open>The number of interrupts; the precedence of the operators makes it one more than a multiple of 32.\<close>

definition gic_num_irqs :: "gic_env \<Rightarrow> nat" where
  "gic_num_irqs e = 32 * unat (bit_extract (ucast (g_typer e)) 0 5) + 1"

definition gic_wr :: "gic_env \<Rightarrow> gic_frame \<Rightarrow> gic_reg \<Rightarrow> nat \<Rightarrow> u64 \<Rightarrow> gic_state \<Rightarrow> gic_state" where
  "gic_wr e fr reg i val s =
     s\<lparr>gs_log := gs_log s @ [\<lparr>gw_cpu = g_cpu_id e, gw_frame = fr, gw_reg = reg, gw_ind = i, gw_val = val\<rparr>]\<rparr>"

definition gic_rd :: "gic_env \<Rightarrow> gic_state \<Rightarrow> gic_frame \<Rightarrow> gic_reg \<Rightarrow> nat \<Rightarrow> u32" where
  "gic_rd e s fr reg i = g_read e (gs_log s) (g_cpu_id e) fr reg i"

definition GIC_INT_MASK :: "nat \<Rightarrow> u64" where
  "GIC_INT_MASK n = push_bit (n mod 32) 1"

text \<open>A write to the field of \<open>bits\<close> bits that belongs to interrupt \<open>n\<close> in an array of 32-bit registers.\<close>

definition rmw_field :: "gic_env \<Rightarrow> gic_frame \<Rightarrow> gic_reg \<Rightarrow> nat \<Rightarrow> nat \<Rightarrow> u8 \<Rightarrow> gic_state \<Rightarrow> gic_state" where
  "rmw_field e fr reg bits n v s =
     (let ind = n * bits div 32; off = n * bits mod 32; msk = BIT_MASK off bits;
          old = (ucast (gic_rd e s fr reg ind) :: u64)
      in gic_wr e fr reg ind ((old AND NOT msk) OR (push_bit off (ucast v) AND msk)) s)"

subsection \<open>The distributor\<close>

definition gicd_get_prio :: "gic_env \<Rightarrow> gic_state \<Rightarrow> nat \<Rightarrow> u64" where
  "gicd_get_prio e s int_id =
     drop_bit (int_id * 8 mod 32) (ucast (gic_rd e s Dist IPRIORITYR (int_id * 8 div 32))) AND BIT_MASK (int_id * 8 mod 32) 8"

definition gicd_set_icfgr :: "gic_env \<Rightarrow> nat \<Rightarrow> u8 \<Rightarrow> gic_state \<Rightarrow> gic_state" where
  "gicd_set_icfgr e int_id cfg s = rmw_field e Dist ICFGR 2 int_id cfg s"

definition gicd_set_prio :: "gic_env \<Rightarrow> nat \<Rightarrow> u8 \<Rightarrow> gic_state \<Rightarrow> gic_state" where
  "gicd_set_prio e int_id prio s = rmw_field e Dist IPRIORITYR 8 int_id prio s"

definition gicd_set_pend :: "gic_env \<Rightarrow> nat \<Rightarrow> bool \<Rightarrow> gic_state \<Rightarrow> gic_state" where
  "gicd_set_pend e int_id pend s = gic_wr e Dist (if pend then ISPENDR else ICPENDR) (int_id div 32) (GIC_INT_MASK int_id) s"

definition gicd_get_pend :: "gic_env \<Rightarrow> gic_state \<Rightarrow> nat \<Rightarrow> bool" where
  "gicd_get_pend e s int_id \<longleftrightarrow> ucast (gic_rd e s Dist ISPENDR (int_id div 32)) AND GIC_INT_MASK int_id \<noteq> 0"

definition gicd_set_act :: "gic_env \<Rightarrow> nat \<Rightarrow> bool \<Rightarrow> gic_state \<Rightarrow> gic_state" where
  "gicd_set_act e int_id act s = gic_wr e Dist (if act then ISACTIVER else ICACTIVER) (int_id div 32) (GIC_INT_MASK int_id) s"

definition gicd_get_act :: "gic_env \<Rightarrow> gic_state \<Rightarrow> nat \<Rightarrow> bool" where
  "gicd_get_act e s int_id \<longleftrightarrow> ucast (gic_rd e s Dist ISACTIVER (int_id div 32)) AND GIC_INT_MASK int_id \<noteq> 0"

definition gicd_set_enable :: "gic_env \<Rightarrow> nat \<Rightarrow> bool \<Rightarrow> gic_state \<Rightarrow> gic_state" where
  "gicd_set_enable e int_id en s = gic_wr e Dist (if en then ISENABLER else ICENABLER) (int_id div 32) (GIC_INT_MASK int_id) s"

definition gic_translate_cpu_to_trgt :: "gic_state \<Rightarrow> u8 \<Rightarrow> u8" where
  "gic_translate_cpu_to_trgt s cpu_targets =
     fold (\<lambda>i t. if push_bit i 1 AND cpu_targets \<noteq> 0 then t OR push_bit (gs_cpu_map s i) 1 else t) [0..<GIC_TARGET_BITS] 0"

definition gicd_set_trgt :: "gic_env \<Rightarrow> nat \<Rightarrow> u8 \<Rightarrow> gic_state \<Rightarrow> gic_state" where
  "gicd_set_trgt e int_id cpu_targets s = rmw_field e Dist ITARGETSR 8 int_id (gic_translate_cpu_to_trgt s cpu_targets) s"

definition GICD_IROUTER_AFF_MSK :: u64 where "GICD_IROUTER_AFF_MSK = 0xffffffffff AND NOT 0x80000000"

definition gicd_set_route :: "gic_env \<Rightarrow> nat \<Rightarrow> u64 \<Rightarrow> gic_state \<Rightarrow> gic_state" where
  "gicd_set_route e int_id route s =
     (if gic_is_priv int_id then s else gic_wr e Dist IROUTER int_id (route AND GICD_IROUTER_AFF_MSK) s)"

subsection \<open>Redistributors\<close>

definition gicr_set_prio :: "gic_env \<Rightarrow> nat \<Rightarrow> u8 \<Rightarrow> nat \<Rightarrow> gic_state \<Rightarrow> gic_state" where
  "gicr_set_prio e int_id prio r s = rmw_field e (Redist r) IPRIORITYR 8 int_id prio s"

definition gicr_get_prio :: "gic_env \<Rightarrow> gic_state \<Rightarrow> nat \<Rightarrow> nat \<Rightarrow> u64" where
  "gicr_get_prio e s int_id r =
     drop_bit (int_id * 8 mod 32) (ucast (gic_rd e s (Redist r) IPRIORITYR (int_id * 8 div 32))) AND BIT_MASK (int_id * 8 mod 32) 8"

text \<open>There are two registers: every interrupt after the first sixteen is in the second.\<close>

definition gicr_set_icfgr :: "gic_env \<Rightarrow> nat \<Rightarrow> u8 \<Rightarrow> nat \<Rightarrow> gic_state \<Rightarrow> gic_state" where
  "gicr_set_icfgr e int_id cfg r s =
     (let ind = (if int_id * 2 div 32 = 0 then 0 else 1); off = int_id * 2 mod 32; msk = BIT_MASK off 2;
          old = (ucast (gic_rd e s (Redist r) ICFGR ind) :: u64)
      in gic_wr e (Redist r) ICFGR ind ((old AND NOT msk) OR (push_bit off (ucast cfg) AND msk)) s)"

definition gicr_set_pend :: "gic_env \<Rightarrow> nat \<Rightarrow> bool \<Rightarrow> nat \<Rightarrow> gic_state \<Rightarrow> gic_state" where
  "gicr_set_pend e int_id pend r s = gic_wr e (Redist r) (if pend then ISPENDR else ICPENDR) 0 (push_bit int_id 1) s"

definition gicr_get_pend :: "gic_env \<Rightarrow> gic_state \<Rightarrow> nat \<Rightarrow> nat \<Rightarrow> bool" where
  "gicr_get_pend e s int_id r \<longleftrightarrow> gic_is_priv int_id \<and> ucast (gic_rd e s (Redist r) ISPENDR 0) AND GIC_INT_MASK int_id \<noteq> 0"

definition gicr_set_act :: "gic_env \<Rightarrow> nat \<Rightarrow> bool \<Rightarrow> nat \<Rightarrow> gic_state \<Rightarrow> gic_state" where
  "gicr_set_act e int_id act r s = gic_wr e (Redist r) (if act then ISACTIVER else ICACTIVER) 0 (GIC_INT_MASK int_id) s"

definition gicr_get_act :: "gic_env \<Rightarrow> gic_state \<Rightarrow> nat \<Rightarrow> nat \<Rightarrow> bool" where
  "gicr_get_act e s int_id r \<longleftrightarrow> gic_is_priv int_id \<and> ucast (gic_rd e s (Redist r) ISACTIVER 0) AND GIC_INT_MASK int_id \<noteq> 0"

definition gicr_set_enable :: "gic_env \<Rightarrow> nat \<Rightarrow> bool \<Rightarrow> nat \<Rightarrow> gic_state \<Rightarrow> gic_state" where
  "gicr_set_enable e int_id en r s = gic_wr e (Redist r) (if en then ISENABLER else ICENABLER) 0 (GIC_INT_MASK int_id) s"

subsection \<open>Either version\<close>

definition gic_set_prio :: "gic_env \<Rightarrow> nat \<Rightarrow> u8 \<Rightarrow> gic_state \<Rightarrow> gic_state" where
  "gic_set_prio e int_id prio s =
     (if g_ver e = GICV2 \<or> \<not> gic_is_priv int_id then gicd_set_prio e int_id prio s else gicr_set_prio e int_id prio (g_cpu_id e) s)"

definition gic_get_prio :: "gic_env \<Rightarrow> gic_state \<Rightarrow> nat \<Rightarrow> u64" where
  "gic_get_prio e s int_id =
     (if g_ver e = GICV2 \<or> \<not> gic_is_priv int_id then gicd_get_prio e s int_id else gicr_get_prio e s int_id (g_cpu_id e))"

definition gic_set_icfgr :: "gic_env \<Rightarrow> nat \<Rightarrow> u8 \<Rightarrow> gic_state \<Rightarrow> gic_state" where
  "gic_set_icfgr e int_id cfg s =
     (if g_ver e = GICV2 \<or> \<not> gic_is_priv int_id then gicd_set_icfgr e int_id cfg s else gicr_set_icfgr e int_id cfg (g_cpu_id e) s)"

definition gic_get_pend :: "gic_env \<Rightarrow> gic_state \<Rightarrow> nat \<Rightarrow> bool" where
  "gic_get_pend e s int_id =
     (if g_ver e = GICV2 \<or> \<not> gic_is_priv int_id then gicd_get_pend e s int_id else gicr_get_pend e s int_id (g_cpu_id e))"

definition gic_set_act :: "gic_env \<Rightarrow> nat \<Rightarrow> bool \<Rightarrow> gic_state \<Rightarrow> gic_state" where
  "gic_set_act e int_id act s =
     (if g_ver e = GICV2 \<or> \<not> gic_is_priv int_id then gicd_set_act e int_id act s else gicr_set_act e int_id act (g_cpu_id e) s)"

definition gic_get_act :: "gic_env \<Rightarrow> gic_state \<Rightarrow> nat \<Rightarrow> bool" where
  "gic_get_act e s int_id =
     (if g_ver e = GICV2 \<or> \<not> gic_is_priv int_id then gicd_get_act e s int_id else gicr_get_act e s int_id (g_cpu_id e))"

definition gic_set_enable :: "gic_env \<Rightarrow> nat \<Rightarrow> bool \<Rightarrow> gic_state \<Rightarrow> gic_state" where
  "gic_set_enable e int_id en s =
     (if g_ver e = GICV2 \<or> \<not> gic_is_priv int_id then gicd_set_enable e int_id en s else gicr_set_enable e int_id en (g_cpu_id e) s)"

text \<open>Version 2 keeps the pending state of software generated interrupts per sender.\<close>

definition gic_set_pend :: "gic_env \<Rightarrow> nat \<Rightarrow> bool \<Rightarrow> gic_state \<Rightarrow> gic_state" where
  "gic_set_pend e int_id pend s =
     (case g_ver e of
        GICV2 \<Rightarrow>
          if gic_is_sgi int_id then
            let ind = int_id div 4; off = int_id mod 4 * 8
            in if pend then gic_wr e Dist SPENDSGIR ind (push_bit (off + g_cpu_id e) 1) s
               else gic_wr e Dist CPENDSGIR ind (BIT_MASK off 8) s
          else gicd_set_pend e int_id pend s
      | GICV3 \<Rightarrow> if gic_is_priv int_id then gicr_set_pend e int_id pend (g_cpu_id e) s else gicd_set_pend e int_id pend s)"

subsection \<open>CPU numbers\<close>

definition MPIDR_RES1 :: u64 where "MPIDR_RES1 = 0x80000000"
definition MPIDR_U_BIT :: u64 where "MPIDR_U_BIT = 0x40000000"
definition MPIDR_AFF_MSK :: u64 where "MPIDR_AFF_MSK = 0xffff"
definition MPIDR_RES0_MSK :: u64 where "MPIDR_RES0_MSK = NOT (push_bit 49 0xffffff OR push_bit 25 0x1f)"

text \<open>The search through the clusters: \<open>i\<close> is the cluster, \<open>j\<close> the number of cores before it.\<close>

fun cluster_search :: "nat list \<Rightarrow> nat \<Rightarrow> nat \<Rightarrow> nat \<Rightarrow> u64 option" where
  "cluster_search [] cpuid i j = None"
| "cluster_search (c # cs) cpuid i j =
     (if cpuid < j + c then Some (push_bit 8 (of_nat i) OR (of_nat (cpuid - j) AND 0xff)) else cluster_search cs cpuid (i + 1) (j + c))"

definition platform_arch_cpuid_to_mpdir :: "nat \<Rightarrow> nat list \<Rightarrow> nat \<Rightarrow> u64 option" where
  "platform_arch_cpuid_to_mpdir cpu_num clusters cpuid =
     (if cpuid > cpu_num then Some (NOT (NOT MPIDR_RES1 AND MPIDR_RES0_MSK))
      else
        do { mpidr \<leftarrow> (if clusters \<noteq> [] then cluster_search clusters cpuid 0 0 else Some (of_nat cpuid));
             Some (mpidr OR MPIDR_RES1 OR (if cpu_num = 1 then MPIDR_U_BIT else 0)) })"

fun cluster_before :: "nat list \<Rightarrow> nat \<Rightarrow> nat \<Rightarrow> nat \<Rightarrow> int \<Rightarrow> nat \<times> int" where
  "cluster_before clusters aff 0 i cpuid = (i, cpuid)"
| "cluster_before clusters aff (Suc k) i cpuid =
     (if i < aff \<and> i < length clusters then cluster_before clusters aff k (i + 1) (int (clusters ! i)) else (i, cpuid))"

text \<open>The loop ends at the affinity of the cluster or at the number of clusters.\<close>

definition platform_arch_mpidr_to_cpuid :: "nat list \<Rightarrow> u64 \<Rightarrow> int" where
  "platform_arch_mpidr_to_cpuid clusters mpidr =
     (let aff = unat (drop_bit 8 mpidr AND 0xff);
          (i, cpuid) = cluster_before clusters aff (length clusters) 0 0
      in if i < length clusters then cpuid + int (clusters ! i) else -1)"

definition cpu_id_to_mpidr :: "gic_env \<Rightarrow> nat \<Rightarrow> u64 option" where
  "cpu_id_to_mpidr e cpuid = platform_arch_cpuid_to_mpdir (g_plat_cpu_num e) (g_clusters e) cpuid"

definition MPIDR_AFF_LVL :: "u64 \<Rightarrow> nat \<Rightarrow> u64" where
  "MPIDR_AFF_LVL mpidr lvl = drop_bit (8 * lvl) mpidr AND 0xff"

text \<open>\<^verbatim>\<open>gic_send_sgi\<close>.\<close>

definition gic_send_sgi :: "gic_env \<Rightarrow> nat \<Rightarrow> nat \<Rightarrow> gic_state \<Rightarrow> gic_state option" where
  "gic_send_sgi e cpu_target sgi_num s =
     (case g_ver e of
        GICV2 \<Rightarrow>
          Some (if sgi_num < GIC_MAX_SGIS \<and> cpu_target < GIC_TARGET_BITS
                then gic_wr e Dist SGIR 0 (push_bit (16 + gs_cpu_map s cpu_target) 1 OR (of_nat sgi_num AND BIT_MASK 0 4)) s
                else s)
      | GICV3 \<Rightarrow>
          if sgi_num < GIC_MAX_SGIS then
            do { m \<leftarrow> cpu_id_to_mpidr e cpu_target;
                 let mpidr = m AND MPIDR_AFF_MSK;
                 Some (gic_wr e Dist ICC_SGI1R 0
                   (push_bit 16 (MPIDR_AFF_LVL mpidr 1) OR push_bit (unat (MPIDR_AFF_LVL mpidr 0)) 1 OR push_bit 24 (of_nat sgi_num)) s) }
          else Some s)"

subsection \<open>List registers\<close>

definition gich_read_lr :: "gic_env \<Rightarrow> gic_state \<Rightarrow> nat \<Rightarrow> u64 option" where
  "gich_read_lr e s i =
     (if i < g_num_lrs e then Some (if g_ver e = GICV3 \<and> 16 \<le> i then 0 else gs_lrs s (g_cpu_id e) i) else None)"

text \<open>The list registers of version 2 have 32 bits.\<close>

definition gich_write_lr :: "gic_env \<Rightarrow> nat \<Rightarrow> u64 \<Rightarrow> gic_state \<Rightarrow> gic_state option" where
  "gich_write_lr e i val s =
     (if i < g_num_lrs e then
        Some (if g_ver e = GICV3 \<and> 16 \<le> i then s
              else s\<lparr>gs_lrs := (gs_lrs s)(g_cpu_id e := (gs_lrs s (g_cpu_id e))
                     (i := if g_ver e = GICV2 then ucast (ucast val :: u32) else val))\<rparr>)
      else None)"

definition gich_get_hcr :: "gic_env \<Rightarrow> gic_state \<Rightarrow> u32" where
  "gich_get_hcr e s = gs_hcr s (g_cpu_id e)"

definition gich_set_hcr :: "gic_env \<Rightarrow> u32 \<Rightarrow> gic_state \<Rightarrow> gic_state" where
  "gich_set_hcr e hcr s = s\<lparr>gs_hcr := (gs_hcr s)(g_cpu_id e := hcr)\<rparr>"

subsection \<open>Initialisation\<close>

definition wr_all :: "gic_env \<Rightarrow> gic_frame \<Rightarrow> gic_reg \<Rightarrow> u64 \<Rightarrow> nat list \<Rightarrow> gic_state \<Rightarrow> gic_state" where
  "wr_all e fr reg val is s = fold (\<lambda>i. gic_wr e fr reg i val) is s"

text \<open>Disabled, not pending, not active.\<close>

definition quiesce :: "gic_env \<Rightarrow> gic_frame \<Rightarrow> nat list \<Rightarrow> gic_state \<Rightarrow> gic_state" where
  "quiesce e fr is s =
     fold (\<lambda>i s. gic_wr e fr ICACTIVER i 0xffffffff (gic_wr e fr ICPENDR i 0xffffffff (gic_wr e fr ICENABLER i 0xffffffff s))) is s"

definition GICD_IROUTER_INV :: u64 where "GICD_IROUTER_INV = NOT MPIDR_AFF_MSK"

text \<open>The calls of \<^verbatim>\<open>interrupts_reserve\<close> are recorded in \<open>gs_reserved\<close>.\<close>

definition gicd_init :: "gic_env \<Rightarrow> nat \<Rightarrow> gic_state \<Rightarrow> gic_state" where
  "gicd_init e maintenance_id s =
     (let n = gic_num_irqs e;
          s = quiesce e Dist [1..<n div 32] s;
          s = wr_all e Dist IPRIORITYR 0xffffffff [8..<n * 8 div 32] s;
          s = (case g_ver e of
                 GICV2 \<Rightarrow>
                   let s = wr_all e Dist ITARGETSR 0 [8..<n * 8 div 32] s
                   in gic_wr e Dist GICD_CTLR 0 (ucast (gic_rd e s Dist GICD_CTLR 0) OR 1) s
               | GICV3 \<Rightarrow>
                   let s = wr_all e Dist IROUTER GICD_IROUTER_INV [GIC_CPU_PRIV..<GIC_MAX_INTERUPTS] s
                   in gic_wr e Dist GICD_CTLR 0 (ucast (gic_rd e s Dist GICD_CTLR 0) OR 0x12) s)
      in s\<lparr>gs_reserved := gs_reserved s @ [maintenance_id]\<rparr>)"

definition clear_lrs :: "gic_env \<Rightarrow> gic_state \<Rightarrow> gic_state option" where
  "clear_lrs e s = fold (\<lambda>i s. Option.bind s (gich_write_lr e i 0)) [0..<g_num_lrs e] (Some s)"

text \<open>\<open>None\<close>: no bit of the first target register is set. Version 3 uses system registers.\<close>

definition gicc_init :: "gic_env \<Rightarrow> gic_state \<Rightarrow> gic_state option" where
  "gicc_init e s =
     (case g_ver e of
        GICV2 \<Rightarrow>
          do { s \<leftarrow> clear_lrs e s;
               let s = gic_wr e Dist GICC_PMR 0 (ucast GIC_LOWEST_PRIO) s;
               let s = gic_wr e Dist GICC_CTLR 0 (ucast (gic_rd e s Dist GICC_CTLR 0) OR 0x201) s;
               let s = gich_set_hcr e (gich_get_hcr e s OR 4) s;
               let sgi_targets = ucast (gic_rd e s Dist ITARGETSR 0) AND BIT_MASK 0 GIC_TARGET_BITS;
               let gic_cpu_id = bitmap_find_nth (word_bitmap sgi_targets) GIC_TARGET_BITS 1 0 True;
               if gic_cpu_id < 0 then None
               else Some (s\<lparr>gs_cpu_map := (gs_cpu_map s)(g_cpu_id e := nat gic_cpu_id)\<rparr>) }
      | GICV3 \<Rightarrow>
          do { s \<leftarrow> clear_lrs e (gic_wr e Dist ICC_SRE 0 1 s);
               let s = gic_wr e Dist GICC_PMR 0 (ucast GIC_LOWEST_PRIO) s;
               let s = gic_wr e Dist GICC_BPR 0 0 s;
               let s = gic_wr e Dist GICC_CTLR 0 2 s;
               let s = gich_set_hcr e (gich_get_hcr e s OR 4) s;
               Some (gic_wr e Dist ICC_IGRPEN1 0 1 s) })"

definition gic_cpu_init :: "gic_env \<Rightarrow> gic_state \<Rightarrow> gic_state option" where
  "gic_cpu_init e s =
     (case g_ver e of
        GICV2 \<Rightarrow>
          gicc_init e (wr_all e Dist IPRIORITYR 0xffffffff [0..<8]
            (wr_all e Dist CPENDSGIR 0xffffffff [0..<4] (quiesce e Dist [0..<1] s)))
      | GICV3 \<Rightarrow>
          let r = Redist (g_cpu_id e)
          in gicc_init e (wr_all e r IPRIORITYR 0xffffffff [0..<8] (quiesce e r [0..<1] s)))"

text \<open>The state saved before a CPU is powered down.\<close>

record gicc_saved =
  sv_regs :: "gic_reg \<Rightarrow> u32"
  sv_enabler :: u32
  sv_prio :: "nat \<Rightarrow> u32"
  sv_hcr :: u32
  sv_lr :: "nat \<Rightarrow> u64"

definition gicc_regs :: "gic_version \<Rightarrow> gic_reg list" where
  "gicc_regs v = (case v of GICV2 \<Rightarrow> [GICC_CTLR, GICC_PMR, GICC_BPR, GICC_IAR, GICC_EOIR, GICC_RPR, GICC_HPPIR] | GICV3 \<Rightarrow> [GICC_PMR, GICC_BPR])"

definition priv_frame :: "gic_env \<Rightarrow> gic_frame" where
  "priv_frame e = (case g_ver e of GICV2 \<Rightarrow> Dist | GICV3 \<Rightarrow> Redist (g_cpu_id e))"

text \<open>The list registers are saved in words of 32 bits.\<close>

definition gicc_save_state :: "gic_env \<Rightarrow> gic_state \<Rightarrow> gicc_saved \<Rightarrow> gicc_saved" where
  "gicc_save_state e s st =
     \<lparr>sv_regs = (\<lambda>r. if r \<in> set (gicc_regs (g_ver e)) then gic_rd e s Dist r 0 else sv_regs st r),
      sv_enabler = gic_rd e s (priv_frame e) ISENABLER 0,
      sv_prio = (\<lambda>i. if i < 8 then gic_rd e s (priv_frame e) IPRIORITYR i else sv_prio st i),
      sv_hcr = gich_get_hcr e s,
      sv_lr = (\<lambda>i. case gich_read_lr e s i of Some w \<Rightarrow> ucast (ucast w :: u32) | None \<Rightarrow> sv_lr st i)\<rparr>"

definition gicc_restore_state :: "gic_env \<Rightarrow> gicc_saved \<Rightarrow> gic_state \<Rightarrow> gic_state option" where
  "gicc_restore_state e st s =
     (let s = (case g_ver e of
                 GICV2 \<Rightarrow> s
               | GICV3 \<Rightarrow> gic_wr e Dist ICC_IGRPEN1 0 1 (gic_wr e Dist GICC_CTLR 0 2 (gic_wr e Dist ICC_SRE 0 1 s)));
          s = fold (\<lambda>r. gic_wr e Dist r 0 (ucast (sv_regs st r))) (gicc_regs (g_ver e)) s;
          s = gic_wr e (priv_frame e) ISENABLER 0 (ucast (sv_enabler st)) s;
          s = fold (\<lambda>i. gic_wr e (priv_frame e) IPRIORITYR i (ucast (sv_prio st i))) [0..<8] s;
          s = gich_set_hcr e (sv_hcr st) s
      in fold (\<lambda>i s. Option.bind s (gich_write_lr e i (sv_lr st i))) [0..<g_num_lrs e] (Some s))"

subsection \<open>Dispatch\<close>

text \<open>\<^verbatim>\<open>interrupts_handle\<close> is the parameter \<open>handle\<close>, which tells whether the hypervisor itself handled the interrupt.\<close>

definition gic_handle ::
  "gic_env \<Rightarrow> (nat \<Rightarrow> gic_state \<times> 's \<Rightarrow> (bool \<times> gic_state \<times> 's) option) \<Rightarrow> gic_state \<times> 's \<Rightarrow> (gic_state \<times> 's) option" where
  "gic_handle e handle sx =
     (let ack = gic_rd e (fst sx) Dist GICC_IAR 0;
          int_id = unat (bit_extract (ucast ack) 0 (case g_ver e of GICV2 \<Rightarrow> 10 | GICV3 \<Rightarrow> 24))
      in if int_id < GIC_FIRST_SPECIAL_INTID then
           do { (by_hyp, s, x) \<leftarrow> handle int_id sx;
                let s = gic_wr e Dist GICC_EOIR 0 (ucast ack) s;
                Some (if by_hyp then gic_wr e Dist GICC_DIR 0 (ucast ack) s else s, x) }
         else Some sx)"

text \<open>\<^verbatim>\<open>arch/armv8/interrupts.c\<close>.\<close>

definition interrupts_arch_ipi_send_arm :: "gic_env \<Rightarrow> nat \<Rightarrow> nat \<Rightarrow> gic_state \<Rightarrow> gic_state option" where
  "interrupts_arch_ipi_send_arm e target_cpu ipi_id s = (if ipi_id < GIC_MAX_SGIS then gic_send_sgi e target_cpu ipi_id s else Some s)"

definition interrupts_arch_enable_arm :: "gic_env \<Rightarrow> u64 \<Rightarrow> nat \<Rightarrow> bool \<Rightarrow> gic_state \<Rightarrow> gic_state" where
  "interrupts_arch_enable_arm e mpidr int_id en s =
     (let s = gic_set_prio e int_id 1 (gic_set_enable e int_id en s)
      in case g_ver e of GICV2 \<Rightarrow> gicd_set_trgt e int_id (push_bit (g_cpu_id e) 1) s | GICV3 \<Rightarrow> gicd_set_route e int_id mpidr s)"

definition interrupts_arch_conflict_arm :: "bitmap \<Rightarrow> nat \<Rightarrow> bool" where
  "interrupts_arch_conflict_arm bm int_id \<longleftrightarrow> bitmap_get bm int_id \<noteq> 0 \<and> int_id > GIC_CPU_PRIV"

definition interrupts_arch_clear_arm :: "gic_env \<Rightarrow> nat \<Rightarrow> gic_state \<Rightarrow> gic_state" where
  "interrupts_arch_clear_arm e int_id s = gic_set_pend e int_id False (gic_set_act e int_id False s)"

end
