(* ===== verification/Vgic.thy ===== *)
theory Vgic
  imports Gic
begin

text \<open>
  The virtual interrupt controller of the ARMv8 port: \<^verbatim>\<open>arch/armv8/vgic.c\<close>, with the functions that depend on the version in
  \<^verbatim>\<open>vgicv2.c\<close> and \<^verbatim>\<open>vgicv3.c\<close>. The hypervisor keeps a record for every virtual interrupt of a VM and moves interrupts in and out of
  the list registers of the physical CPUs, from which the hardware delivers them to the guests. Private
  interrupts belong to a virtual CPU; the others are shared and owned by at most one virtual CPU at a time. One call holds
  the locks it needs throughout and is one transformation of the state.
\<close>

subsection \<open>Data\<close>

definition INV :: u8 where "INV = 0"
definition PEND :: u8 where "PEND = 1"
definition ACT :: u8 where "ACT = 2"
definition PENDACT :: u8 where "PENDACT = 3"

lemmas int_state_defs = INV_def PEND_def ACT_def PENDACT_def

text \<open>
  \<open>vi_phys\<close> is the union of \<^verbatim>\<open>phys.redist\<close> and \<^verbatim>\<open>phys.route\<close>, \<open>vi_targets\<close> that of \<^verbatim>\<open>targets\<close> and \<^verbatim>\<open>sgi.act\<close>. Owners are numbers of
  virtual CPUs.
\<close>

record vgic_int =
  vi_owner :: "nat option"
  vi_route :: u64
  vi_phys :: u64
  vi_id :: nat
  vi_state :: u8
  vi_prio :: u8
  vi_cfg :: u8
  vi_lr :: nat
  vi_targets :: u8
  vi_sgi_pend :: u8
  vi_hw :: bool
  vi_in_lr :: bool
  vi_enabled :: bool

text \<open>A pointer to such a record: a private interrupt of a virtual CPU, or an element of the array of shared interrupts.\<close>

datatype iref = Priv nat nat | Spi nat

text \<open>The handlers that the initialisation registers for emulation.\<close>

datatype vgic_emul = VGICD | VGICR | ICC_SGIR | ICC_SRE_EL1

text \<open>A node of the VM's list of emulated devices: a range (start, physical start, size) or a system register.\<close>

datatype vgic_node = VMEM nat nat nat vgic_emul | VREG nat vgic_emul

text \<open>
  \<open>vg_emul\<close> is the list of emulated devices, whose nodes the object cache is taken to provide, and \<open>vg_maps\<close> the devices mapped
  into the VM (start, physical start, pages), each in order.
\<close>

record vgic =
  vg_priv :: "nat \<Rightarrow> nat \<Rightarrow> vgic_int"
  vg_spis :: "nat \<Rightarrow> vgic_int"
  vg_int_num :: nat
  vg_CTLR :: u32
  vg_TYPER :: u32
  vg_IIDR :: u32
  vg_curr_lrs :: "nat \<Rightarrow> nat \<Rightarrow> nat"
  vg_gicr_TYPER :: "nat \<Rightarrow> u64"
  vg_gic :: gic_state
  vg_regs :: "nat \<Rightarrow> nat \<Rightarrow> u64"
  vg_msgs :: "(nat \<times> cpu_msg) list"
  vg_emul :: "vgic_node list"
  vg_maps :: "(nat \<times> nat \<times> nat) list"

text \<open>
  \<open>v_elrsr\<close>, \<open>v_eisr\<close> and \<open>v_misr\<close> are the status registers, which the hardware computes from the list registers. \<open>v_phys\<close> gives the
  physical CPU of a virtual CPU and \<open>v_vmpidr\<close> its virtual identification. \<open>v_shl n\<close> is the value of \<^verbatim>\<open>1ull << n\<close> for the shift
  amounts from 64 on, which the language leaves undefined, and \<open>v_ids\<close> the content of the identification registers. The last three are
  the address of the CPU interface for VMs and the pointers to the distributor and the redistributors.
\<close>

record vgic_env = gic_env +
  v_vcpu :: nat
  v_phys :: "nat \<Rightarrow> nat"
  v_vmpidr :: "nat \<Rightarrow> u64"
  v_cpu_num :: nat
  v_cpus :: u64
  v_vm_id :: nat
  v_ipi_id :: nat
  v_elrsr :: "(nat \<Rightarrow> u64) \<Rightarrow> u64"
  v_eisr :: "(nat \<Rightarrow> u64) \<Rightarrow> u64"
  v_misr :: "(nat \<Rightarrow> u64) \<Rightarrow> u32 \<Rightarrow> u32"
  v_shl :: "nat \<Rightarrow> u64"
  v_ids :: "gic_frame \<Rightarrow> nat \<Rightarrow> u32"
  v_gicr_addr :: nat
  v_mpidr_el1 :: u64
  v_gicv_addr :: nat
  v_gicd_ptr :: nat
  v_gicr_ptr :: "nat \<Rightarrow> nat"

definition int_at :: "vgic \<Rightarrow> iref \<Rightarrow> vgic_int" where
  "int_at s r = (case r of Priv v i \<Rightarrow> vg_priv s v i | Spi k \<Rightarrow> vg_spis s k)"

definition upd_int :: "(vgic_int \<Rightarrow> vgic_int) \<Rightarrow> iref \<Rightarrow> vgic \<Rightarrow> vgic" where
  "upd_int f r s =
     (case r of
        Priv v i \<Rightarrow> s\<lparr>vg_priv := (vg_priv s)(v := (vg_priv s v)(i := f (vg_priv s v i)))\<rparr>
      | Spi k \<Rightarrow> s\<lparr>vg_spis := (vg_spis s)(k := f (vg_spis s k))\<rparr>)"

definition upd_gic :: "(gic_state \<Rightarrow> gic_state) \<Rightarrow> vgic \<Rightarrow> vgic" where
  "upd_gic f s = s\<lparr>vg_gic := f (vg_gic s)\<rparr>"

definition write_lr :: "vgic_env \<Rightarrow> nat \<Rightarrow> u64 \<Rightarrow> vgic \<Rightarrow> vgic option" where
  "write_lr e i val s = do { g \<leftarrow> gich_write_lr (gic_env.truncate e) i val (vg_gic s); Some (s\<lparr>vg_gic := g\<rparr>) }"

definition read_lr :: "vgic_env \<Rightarrow> vgic \<Rightarrow> nat \<Rightarrow> u64 option" where
  "read_lr e s i = gich_read_lr (gic_env.truncate e) (vg_gic s) i"

definition cur_lrs :: "vgic_env \<Rightarrow> vgic \<Rightarrow> nat \<Rightarrow> u64" where
  "cur_lrs e s = gs_lrs (vg_gic s) (g_cpu_id e)"

definition GICH_HCR_En_BIT :: u32 where "GICH_HCR_En_BIT = 1"
definition GICH_HCR_NPIE_BIT :: u32 where "GICH_HCR_NPIE_BIT = 8"

definition set_npie :: "vgic_env \<Rightarrow> vgic \<Rightarrow> vgic" where
  "set_npie e s = upd_gic (\<lambda>g. gich_set_hcr (gic_env.truncate e) (gich_get_hcr (gic_env.truncate e) g OR GICH_HCR_NPIE_BIT) g) s"

definition send :: "nat \<Rightarrow> cpu_msg \<Rightarrow> vgic \<Rightarrow> vgic" where
  "send c m s = s\<lparr>vg_msgs := vg_msgs s @ [(c, m)]\<rparr>"

text \<open>Fields of a list register.\<close>

definition LR_VID_LEN :: "gic_version \<Rightarrow> nat" where "LR_VID_LEN v = (case v of GICV2 \<Rightarrow> 10 | GICV3 \<Rightarrow> 32)"
definition LR_PID_OFF :: "gic_version \<Rightarrow> nat" where "LR_PID_OFF v = (case v of GICV2 \<Rightarrow> 10 | GICV3 \<Rightarrow> 32)"
definition LR_PRIO_OFF :: "gic_version \<Rightarrow> nat" where "LR_PRIO_OFF v = (case v of GICV2 \<Rightarrow> 23 | GICV3 \<Rightarrow> 48)"
definition LR_PRIO_LEN :: "gic_version \<Rightarrow> nat" where "LR_PRIO_LEN v = (case v of GICV2 \<Rightarrow> 5 | GICV3 \<Rightarrow> 8)"
definition LR_STATE_OFF :: "gic_version \<Rightarrow> nat" where "LR_STATE_OFF v = (case v of GICV2 \<Rightarrow> 28 | GICV3 \<Rightarrow> 62)"
definition LR_HW_BIT :: "gic_version \<Rightarrow> u64" where "LR_HW_BIT v = (case v of GICV2 \<Rightarrow> push_bit 31 1 | GICV3 \<Rightarrow> push_bit 61 1)"
definition LR_EOI_BIT :: "gic_version \<Rightarrow> u64" where "LR_EOI_BIT v = (case v of GICV2 \<Rightarrow> push_bit 19 1 | GICV3 \<Rightarrow> push_bit 41 1)"
definition LR_GRP_BIT :: u64 where "LR_GRP_BIT = push_bit 60 1"

lemmas LR_defs = LR_VID_LEN_def LR_PID_OFF_def LR_PRIO_OFF_def LR_PRIO_LEN_def LR_STATE_OFF_def LR_HW_BIT_def LR_EOI_BIT_def LR_GRP_BIT_def

definition GICH_LR_VID :: "gic_version \<Rightarrow> u64 \<Rightarrow> nat" where
  "GICH_LR_VID v lr = unat (bit_extract lr 0 (LR_VID_LEN v))"

definition GICH_LR_STATE :: "gic_version \<Rightarrow> u64 \<Rightarrow> u8" where
  "GICH_LR_STATE v lr = ucast (bit_extract lr (LR_STATE_OFF v) 2)"

definition GICH_LR_CPUID :: "u64 \<Rightarrow> nat" where
  "GICH_LR_CPUID lr = unat (bit_extract lr 10 3)"

definition GICH_LR_PRIO :: "gic_version \<Rightarrow> u64 \<Rightarrow> u64" where
  "GICH_LR_PRIO v lr = drop_bit (LR_PRIO_OFF v) (lr AND BIT_MASK (LR_PRIO_OFF v) (LR_PRIO_LEN v))"

definition lr_field :: "nat \<Rightarrow> nat \<Rightarrow> u64 \<Rightarrow> u64" where
  "lr_field off len x = push_bit off x AND BIT_MASK off len"

subsection \<open>Interrupts and their owners\<close>

text \<open>The outer \<open>None\<close> is the dereference of a virtual CPU that does not exist; the inner one the null pointer.\<close>

definition vgic_get_int :: "vgic_env \<Rightarrow> vgic \<Rightarrow> nat \<Rightarrow> nat \<Rightarrow> nat \<Rightarrow> iref option option" where
  "vgic_get_int e s vcpu int_id vgicr_id =
     (if int_id < GIC_CPU_PRIV then
        if vgicr_id = vcpu \<or> vgicr_id < v_cpu_num e then Some (Some (Priv vgicr_id int_id)) else None
      else if int_id < vg_int_num s then Some (Some (Spi (int_id - GIC_CPU_PRIV)))
      else Some None)"

definition vgic_int_is_hw :: "vgic_int \<Rightarrow> bool" where
  "vgic_int_is_hw x \<longleftrightarrow> \<not> vi_id x < GIC_MAX_SGIS \<and> vi_hw x"

text \<open>The outer \<open>None\<close> is an error, the inner one the result \<open>-1\<close>.\<close>

definition gich_get_lr :: "vgic_env \<Rightarrow> vgic \<Rightarrow> vgic_int \<Rightarrow> (nat \<times> u64) option option" where
  "gich_get_lr e s x =
     (if \<not> vi_in_lr x then Some None
      else
        case vi_owner x of
          None \<Rightarrow> None
        | Some o' \<Rightarrow>
            if v_phys e o' \<noteq> g_cpu_id e then Some None
            else
              do { lr_val \<leftarrow> read_lr e s (vi_lr x);
                   Some (if GICH_LR_VID (g_ver e) lr_val = vi_id x \<and> GICH_LR_STATE (g_ver e) lr_val \<noteq> INV
                         then Some (vi_lr x, lr_val) else None) })"

definition vgic_get_state :: "vgic_env \<Rightarrow> vgic \<Rightarrow> vgic_int \<Rightarrow> u8 option" where
  "vgic_get_state e s x =
     do { r \<leftarrow> gich_get_lr e s x;
          let state = (case r of Some (_, lr_val) \<Rightarrow> GICH_LR_STATE (g_ver e) lr_val | None \<Rightarrow> vi_state x);
          Some (if g_ver e = GICV2 \<and> vi_id x < GIC_MAX_SGIS \<and> vi_sgi_pend x \<noteq> 0 then state OR PEND else state) }"

definition vgic_get_ownership :: "nat \<Rightarrow> iref \<Rightarrow> vgic \<Rightarrow> bool \<times> vgic" where
  "vgic_get_ownership vcpu r s =
     (if vi_owner (int_at s r) = Some vcpu then (True, s)
      else if vi_owner (int_at s r) = None then (True, upd_int (\<lambda>x. x\<lparr>vi_owner := Some vcpu\<rparr>) r s)
      else (False, s))"

definition vgic_owns :: "nat \<Rightarrow> vgic_int \<Rightarrow> bool" where
  "vgic_owns vcpu x \<longleftrightarrow> vi_owner x = Some vcpu"

definition vgic_yield_ownership :: "vgic_env \<Rightarrow> nat \<Rightarrow> iref \<Rightarrow> vgic \<Rightarrow> vgic option" where
  "vgic_yield_ownership e vcpu r s =
     (let x = int_at s r in
      if g_ver e = GICV2 \<and> gic_is_priv (vi_id x) \<or> \<not> vgic_owns vcpu x \<or> vi_in_lr x then Some s
      else
        do { state \<leftarrow> vgic_get_state e s x;
             Some (if state AND ACT \<noteq> 0 then s else upd_int (\<lambda>x. x\<lparr>vi_owner := None\<rparr>) r s) })"

subsection \<open>Messages\<close>

definition VGIC_UPDATE_ENABLE :: nat where "VGIC_UPDATE_ENABLE = 0"
definition VGIC_ROUTE :: nat where "VGIC_ROUTE = 1"
definition VGIC_INJECT :: nat where "VGIC_INJECT = 2"
definition VGIC_SET_REG :: nat where "VGIC_SET_REG = 3"

definition VGIC_MSG_DATA :: "nat \<Rightarrow> nat \<Rightarrow> nat \<Rightarrow> nat \<Rightarrow> u64 \<Rightarrow> u64" where
  "VGIC_MSG_DATA vm_id vgicrid int_id reg val =
     push_bit 48 (of_nat vm_id) OR push_bit 32 (of_nat vgicrid AND 0xffff) OR push_bit 16 (of_nat int_id AND 0x7fff) OR
     push_bit 8 (of_nat reg AND 0xff) OR (val AND 0xff)"

definition VGIC_MSG_VM :: "u64 \<Rightarrow> nat" where "VGIC_MSG_VM d = unat (drop_bit 48 d)"
definition VGIC_MSG_VGICRID :: "u64 \<Rightarrow> nat" where "VGIC_MSG_VGICRID d = unat (drop_bit 32 d AND 0xffff)"
definition VGIC_MSG_INTID :: "u64 \<Rightarrow> nat" where "VGIC_MSG_INTID d = unat (drop_bit 16 d AND 0x7fff)"
definition VGIC_MSG_REG :: "u64 \<Rightarrow> nat" where "VGIC_MSG_REG d = unat (drop_bit 8 d AND 0xff)"
definition VGIC_MSG_VAL :: "u64 \<Rightarrow> u64" where "VGIC_MSG_VAL d = d AND 0xff"

definition vgic_msg :: "vgic_env \<Rightarrow> nat \<Rightarrow> u64 \<Rightarrow> cpu_msg" where
  "vgic_msg e event d = \<lparr>msg_handler = v_ipi_id e, msg_event = event, msg_data = d\<rparr>"

definition send_mask :: "vgic_env \<Rightarrow> u64 \<Rightarrow> cpu_msg \<Rightarrow> vgic \<Rightarrow> vgic" where
  "send_mask e m msg s = fold (\<lambda>i s. if m AND push_bit i 1 \<noteq> 0 then send i msg s else s) [0..<g_plat_cpu_num e] s"

definition vgic_send_sgi_msg :: "vgic_env \<Rightarrow> u64 \<Rightarrow> nat \<Rightarrow> vgic \<Rightarrow> vgic" where
  "vgic_send_sgi_msg e pcpu_mask int_id s =
     send_mask e pcpu_mask (vgic_msg e VGIC_INJECT (VGIC_MSG_DATA (v_vm_id e) 0 int_id 0 (of_nat (v_vcpu e)))) s"

subsection \<open>Targets\<close>

definition GICD_IROUTER_IRM_BIT :: u64 where "GICD_IROUTER_IRM_BIT = push_bit 31 1"
definition GICD_IROUTER_RES0_MSK :: u64 where "GICD_IROUTER_RES0_MSK = 0xffffffffff"

definition vgic_broadcast :: "vgic_int \<Rightarrow> bool" where
  "vgic_broadcast x \<longleftrightarrow> vi_route x AND GICD_IROUTER_IRM_BIT \<noteq> 0"

definition routed_here :: "vgic_env \<Rightarrow> vgic_int \<Rightarrow> bool" where
  "routed_here e x \<longleftrightarrow> \<not> gic_is_priv (vi_id x) \<and> vi_phys x = v_mpidr_el1 e AND MPIDR_AFF_MSK"

definition vgic_int_vcpu_is_target :: "vgic_env \<Rightarrow> nat \<Rightarrow> vgic_int \<Rightarrow> bool" where
  "vgic_int_vcpu_is_target e vcpu x =
     (let priv = gic_is_priv (vi_id x) in
      case g_ver e of
        GICV2 \<Rightarrow> priv \<or> vi_targets x AND push_bit (g_cpu_id e) 1 \<noteq> 0
      | GICV3 \<Rightarrow> priv \<and> vi_phys x = of_nat (v_phys e vcpu) \<or> routed_here e x \<or> \<not> priv \<and> vgic_broadcast x)"

definition vgic_int_has_other_target :: "vgic_env \<Rightarrow> vgic_int \<Rightarrow> bool" where
  "vgic_int_has_other_target e x =
     (let priv = gic_is_priv (vi_id x) in
      case g_ver e of
        GICV2 \<Rightarrow> \<not> priv \<and> vi_targets x AND NOT (push_bit (g_cpu_id e) 1) \<noteq> 0
      | GICV3 \<Rightarrow> \<not> priv \<and> vgic_broadcast x \<or> \<not> routed_here e x \<and> vi_phys x \<noteq> GICD_IROUTER_INV)"

definition shl1 :: "vgic_env \<Rightarrow> nat \<Rightarrow> u64" where
  "shl1 e n = (if n < 64 then push_bit n 1 else v_shl e n)"

text \<open>The other CPUs of the VM: the complement of \<^verbatim>\<open>1U << phys_id\<close> has 32 bits.\<close>

definition others :: "vgic_env \<Rightarrow> u64" where
  "others e = v_cpus e AND ucast (NOT (push_bit (v_phys e (v_vcpu e)) 1 :: u32))"

definition vgic_int_ptarget_mask :: "vgic_env \<Rightarrow> vgic_int \<Rightarrow> u64" where
  "vgic_int_ptarget_mask e x =
     (case g_ver e of
        GICV2 \<Rightarrow> ucast (vi_targets x)
      | GICV3 \<Rightarrow> if vgic_broadcast x then others e else shl1 e (unat (vi_phys x)))"

subsection \<open>List registers\<close>

text \<open>The highest sender of a pending software generated interrupt, for version 2.\<close>

definition sgi_sender :: "u8 \<Rightarrow> nat option" where
  "sgi_sender pend = find (\<lambda>i. pend AND push_bit i 1 \<noteq> 0) (rev [0..<8])"

text \<open>The value of the list register and the senders left, given the state of the interrupt.\<close>

definition lr_value :: "vgic_env \<Rightarrow> u8 \<Rightarrow> vgic_int \<Rightarrow> u64 \<times> u8" where
  "lr_value e state x =
     (let v = g_ver e;
          act = push_bit (LR_STATE_OFF v) 2; pnd = push_bit (LR_STATE_OFF v) (1 :: u64);
          lr = lr_field 0 (LR_VID_LEN v) (of_nat (vi_id x));
          lr = lr OR (case v of GICV2 \<Rightarrow> lr_field 23 5 (ucast (drop_bit 3 (vi_prio x)))
                      | GICV3 \<Rightarrow> lr_field 48 8 (ucast (vi_prio x)) OR LR_GRP_BIT)
      in if vgic_int_is_hw x then
           let lr = lr OR LR_HW_BIT v;
               lr = lr OR lr_field (LR_PID_OFF v) 10 (of_nat (vi_id x))
           in (if state = PENDACT then lr OR act else lr OR lr_field (LR_STATE_OFF v) 2 (ucast state), vi_sgi_pend x)
         else if v = GICV2 \<and> vi_id x < GIC_MAX_SGIS then
           let (lr, pend) =
                 (if state AND ACT \<noteq> 0 then (lr OR lr_field 10 3 (ucast (vi_targets x)) OR act, vi_sgi_pend x)
                  else case sgi_sender (vi_sgi_pend x) of
                         Some i \<Rightarrow> (lr OR lr_field 10 3 (of_nat i) OR pnd, vi_sgi_pend x AND NOT (push_bit i 1))
                       | None \<Rightarrow> (lr, vi_sgi_pend x))
           in (if pend \<noteq> 0 then lr OR LR_EOI_BIT v else lr, pend)
         else
           let lr = (if \<not> gic_is_priv (vi_id x) then lr OR LR_EOI_BIT v else lr)
           in (lr OR lr_field (LR_STATE_OFF v) 2 (ucast state), vi_sgi_pend x))"

text \<open>The interrupt that held the list register before gives it up.\<close>

definition release_prev :: "vgic_env \<Rightarrow> nat \<Rightarrow> nat \<Rightarrow> nat \<Rightarrow> vgic \<Rightarrow> vgic option" where
  "release_prev e vcpu int_id lr_ind s =
     (let prev_int_id = vg_curr_lrs s vcpu lr_ind in
      if prev_int_id \<noteq> int_id \<and> \<not> gic_is_priv prev_int_id then
        do { p \<leftarrow> vgic_get_int e s vcpu prev_int_id vcpu;
             case p of
               None \<Rightarrow> Some s
             | Some q \<Rightarrow>
                 if vgic_owns vcpu (int_at s q) \<and> vi_in_lr (int_at s q) \<and> vi_lr (int_at s q) = lr_ind
                 then vgic_yield_ownership e vcpu q (upd_int (\<lambda>x. x\<lparr>vi_in_lr := False\<rparr>) q s)
                 else Some s }
      else Some s)"

definition vgic_write_lr :: "vgic_env \<Rightarrow> nat \<Rightarrow> iref \<Rightarrow> nat \<Rightarrow> vgic \<Rightarrow> vgic option" where
  "vgic_write_lr e vcpu r lr_ind s =
     do { s \<leftarrow> release_prev e vcpu (vi_id (int_at s r)) lr_ind s;
          state \<leftarrow> vgic_get_state e s (int_at s r);
          let (lr, pend) = lr_value e state (int_at s r);
          let s = upd_int (\<lambda>x. x\<lparr>vi_sgi_pend := pend, vi_state := 0, vi_in_lr := True, vi_lr := lr_ind\<rparr>) r s;
          let s = s\<lparr>vg_curr_lrs := (vg_curr_lrs s)(vcpu := (vg_curr_lrs s vcpu)(lr_ind := vi_id (int_at s r)))\<rparr>;
          write_lr e lr_ind lr s }"

definition vgic_remove_lr :: "vgic_env \<Rightarrow> nat \<Rightarrow> iref \<Rightarrow> vgic \<Rightarrow> (bool \<times> vgic) option" where
  "vgic_remove_lr e vcpu r s =
     (let x = int_at s r in
      if \<not> vgic_owns vcpu x \<or> \<not> vi_in_lr x then Some (False, s)
      else
        do { g \<leftarrow> gich_get_lr e s x;
             let lr_val = (case g of Some (_, w) \<Rightarrow> w | None \<Rightarrow> 0);
             s \<leftarrow> (case g of Some (lr_ind, _) \<Rightarrow> write_lr e lr_ind 0 s | None \<Rightarrow> Some s);
             let s = upd_int (\<lambda>x. x\<lparr>vi_in_lr := False\<rparr>) r s;
             let st = GICH_LR_STATE (g_ver e) lr_val;
             if st \<noteq> INV then
               let s = upd_int (\<lambda>x. x\<lparr>vi_state := st\<rparr>) r s;
                   s = (if g_ver e = GICV2 \<and> vi_id x < GIC_MAX_SGIS then
                          if st AND ACT \<noteq> 0 then upd_int (\<lambda>x. x\<lparr>vi_targets := of_nat (GICH_LR_CPUID lr_val)\<rparr>) r s
                          else if st AND PEND \<noteq> 0
                          then upd_int (\<lambda>x. x\<lparr>vi_sgi_pend := vi_sgi_pend x OR push_bit (GICH_LR_CPUID lr_val) 1\<rparr>) r s
                          else s
                        else s);
                   s = (if st AND PEND \<noteq> 0 \<and> vi_enabled x then set_npie e s else s)
               in Some (True, s)
             else Some (False, s) })"

text \<open>
  The choice of a register to spill, with the counters as the code keeps them: \<^verbatim>\<open>pend_found\<close> counts the active
  and \<^verbatim>\<open>act_found\<close> the pending registers.
\<close>

record spill =
  sp_min_pend :: u64
  sp_min_act :: u64
  sp_pend_found :: nat
  sp_act_found :: nat
  sp_pend_ind :: "nat option"
  sp_act_ind :: "nat option"

definition spill_step :: "gic_version \<Rightarrow> nat \<Rightarrow> u64 \<Rightarrow> spill \<Rightarrow> spill" where
  "spill_step v i lr z =
     (let prio = GICH_LR_PRIO v lr; st = GICH_LR_STATE v lr in
      if st AND ACT \<noteq> 0 then
        let z = (if prio > sp_min_act z then z\<lparr>sp_min_act := prio, sp_act_ind := Some i\<rparr> else z)
        in z\<lparr>sp_pend_found := sp_pend_found z + 1\<rparr>
      else if st AND PEND \<noteq> 0 then
        let z = (if prio > sp_min_pend z then z\<lparr>sp_min_pend := prio, sp_pend_ind := Some i\<rparr> else z)
        in z\<lparr>sp_act_found := sp_act_found z + 1\<rparr>
      else z)"

definition spill_choice :: "vgic_env \<Rightarrow> vgic \<Rightarrow> nat option" where
  "spill_choice e s =
     (let z = fold (\<lambda>i z. spill_step (g_ver e) i (case read_lr e s i of Some w \<Rightarrow> w | None \<Rightarrow> 0) z) [0..<g_num_lrs e]
                \<lparr>sp_min_pend = 0, sp_min_act = 0, sp_pend_found = 0, sp_act_found = 0, sp_pend_ind = None, sp_act_ind = None\<rparr>
      in if sp_pend_found z > 1 then sp_pend_ind z else sp_act_ind z)"

definition spill_lr :: "vgic_env \<Rightarrow> nat \<Rightarrow> nat \<Rightarrow> vgic \<Rightarrow> vgic option" where
  "spill_lr e vcpu lr_ind s =
     do { w \<leftarrow> read_lr e s lr_ind;
          p \<leftarrow> vgic_get_int e s vcpu (GICH_LR_VID (g_ver e) w) vcpu;
          case p of
            None \<Rightarrow> Some s
          | Some q \<Rightarrow> do { (b, s) \<leftarrow> vgic_remove_lr e vcpu q s; vgic_yield_ownership e vcpu q s } }"

definition free_lr :: "vgic_env \<Rightarrow> vgic \<Rightarrow> nat option" where
  "free_lr e s = find (\<lambda>i. bit_get (v_elrsr e (cur_lrs e s)) i \<noteq> 0) [0..<g_num_lrs e]"

definition vgic_add_lr :: "vgic_env \<Rightarrow> nat \<Rightarrow> iref \<Rightarrow> vgic \<Rightarrow> (bool \<times> vgic) option" where
  "vgic_add_lr e vcpu r s =
     (if \<not> vi_enabled (int_at s r) \<or> vi_in_lr (int_at s r) then Some (False, s)
      else
        do { (lr_ind, s) \<leftarrow>
               (case free_lr e s of
                  Some i \<Rightarrow> Some (Some i, s)
                | None \<Rightarrow>
                    case spill_choice e s of
                      None \<Rightarrow> Some (None, s)
                    | Some i \<Rightarrow> do { s \<leftarrow> spill_lr e vcpu i s; Some (Some i, s) });
             case lr_ind of
               Some i \<Rightarrow> do { s \<leftarrow> vgic_write_lr e vcpu r i s; Some (True, s) }
             | None \<Rightarrow>
                 do { state \<leftarrow> vgic_get_state e s (int_at s r);
                      Some (False, if state AND PEND \<noteq> 0 then set_npie e s else s) } })"

definition vgic_route :: "vgic_env \<Rightarrow> nat \<Rightarrow> iref \<Rightarrow> vgic \<Rightarrow> vgic option" where
  "vgic_route e vcpu r s =
     (if vi_state (int_at s r) = INV \<or> \<not> vi_enabled (int_at s r) then Some s
      else
        do { s \<leftarrow> (if vgic_int_vcpu_is_target e vcpu (int_at s r) then map_option snd (vgic_add_lr e vcpu r s) else Some s);
             if \<not> vi_in_lr (int_at s r) \<and> vgic_int_has_other_target e (int_at s r) then
               let msg = vgic_msg e VGIC_ROUTE (VGIC_MSG_DATA (v_vm_id e) vcpu (vi_id (int_at s r)) 0 0)
               in do { s \<leftarrow> vgic_yield_ownership e vcpu r s;
                       Some (send_mask e (vgic_int_ptarget_mask e (int_at s r) AND NOT (push_bit (v_phys e vcpu) 1)) msg s) }
             else Some s })"

subsection \<open>Fields of the registers\<close>

definition vcpu_readreg_arm :: "vgic \<Rightarrow> nat \<Rightarrow> nat \<Rightarrow> u64" where
  "vcpu_readreg_arm s vcpu reg = (if reg > 30 then 0 else vg_regs s vcpu reg)"

definition vcpu_writereg_arm :: "nat \<Rightarrow> nat \<Rightarrow> u64 \<Rightarrow> vgic \<Rightarrow> vgic" where
  "vcpu_writereg_arm vcpu reg val s =
     (if reg > 30 then s else s\<lparr>vg_regs := (vg_regs s)(vcpu := (vg_regs s vcpu)(reg := val))\<rparr>)"

definition vgic_int_update_enable :: "vgic_env \<Rightarrow> iref \<Rightarrow> bool \<Rightarrow> vgic \<Rightarrow> bool \<times> vgic" where
  "vgic_int_update_enable e r enable s =
     (if g_ver e = GICV2 \<and> gic_is_sgi (vi_id (int_at s r)) then (False, s)
      else if enable \<noteq> vi_enabled (int_at s r) then (True, upd_int (\<lambda>x. x\<lparr>vi_enabled := enable\<rparr>) r s)
      else (False, s))"

definition vgic_int_clear_enable :: "vgic_env \<Rightarrow> iref \<Rightarrow> u64 \<Rightarrow> vgic \<Rightarrow> bool \<times> vgic" where
  "vgic_int_clear_enable e r d s = (if d = 0 then (False, s) else vgic_int_update_enable e r False s)"

definition vgic_int_set_enable :: "vgic_env \<Rightarrow> iref \<Rightarrow> u64 \<Rightarrow> vgic \<Rightarrow> bool \<times> vgic" where
  "vgic_int_set_enable e r d s = (if d = 0 then (False, s) else vgic_int_update_enable e r True s)"

definition vgic_int_get_enable :: "vgic_int \<Rightarrow> u64" where
  "vgic_int_get_enable x = of_bool (vi_enabled x)"

definition vgic_int_update_pend :: "vgic_env \<Rightarrow> iref \<Rightarrow> bool \<Rightarrow> vgic \<Rightarrow> bool \<times> vgic" where
  "vgic_int_update_pend e r pend s =
     (if g_ver e = GICV2 \<and> gic_is_sgi (vi_id (int_at s r)) then (False, s)
      else if pend \<noteq> (vi_state (int_at s r) AND PEND \<noteq> 0)
      then (True, upd_int (\<lambda>x. x\<lparr>vi_state := if pend then vi_state x OR PEND else vi_state x AND NOT PEND\<rparr>) r s)
      else (False, s))"

definition vgic_int_clear_pend :: "vgic_env \<Rightarrow> iref \<Rightarrow> u64 \<Rightarrow> vgic \<Rightarrow> bool \<times> vgic" where
  "vgic_int_clear_pend e r d s = (if d = 0 then (False, s) else vgic_int_update_pend e r False s)"

definition vgic_int_set_pend :: "vgic_env \<Rightarrow> iref \<Rightarrow> u64 \<Rightarrow> vgic \<Rightarrow> bool \<times> vgic" where
  "vgic_int_set_pend e r d s = (if d = 0 then (False, s) else vgic_int_update_pend e r True s)"

definition vgic_int_get_pend :: "vgic_int \<Rightarrow> u64" where
  "vgic_int_get_pend x = of_bool (vi_state x AND PEND \<noteq> 0)"

definition vgic_int_update_act :: "iref \<Rightarrow> bool \<Rightarrow> vgic \<Rightarrow> bool \<times> vgic" where
  "vgic_int_update_act r act s =
     (if act \<noteq> (vi_state (int_at s r) AND ACT \<noteq> 0)
      then (True, upd_int (\<lambda>x. x\<lparr>vi_state := if act then vi_state x OR ACT else vi_state x AND NOT ACT\<rparr>) r s)
      else (False, s))"

definition vgic_int_clear_act :: "vgic_env \<Rightarrow> iref \<Rightarrow> u64 \<Rightarrow> vgic \<Rightarrow> bool \<times> vgic" where
  "vgic_int_clear_act e r d s = (if d = 0 then (False, s) else vgic_int_update_act r False s)"

definition vgic_int_set_act :: "vgic_env \<Rightarrow> iref \<Rightarrow> u64 \<Rightarrow> vgic \<Rightarrow> bool \<times> vgic" where
  "vgic_int_set_act e r d s = (if d = 0 then (False, s) else vgic_int_update_act r True s)"

definition vgic_int_get_act :: "vgic_int \<Rightarrow> u64" where
  "vgic_int_get_act x = of_bool (vi_state x AND ACT \<noteq> 0)"

definition vgic_int_set_cfg :: "vgic_env \<Rightarrow> iref \<Rightarrow> u64 \<Rightarrow> vgic \<Rightarrow> bool \<times> vgic" where
  "vgic_int_set_cfg e r cfg s = (ucast (vi_cfg (int_at s r)) \<noteq> cfg, upd_int (\<lambda>x. x\<lparr>vi_cfg := ucast cfg\<rparr>) r s)"

definition vgic_int_get_cfg :: "vgic_int \<Rightarrow> u64" where "vgic_int_get_cfg x = ucast (vi_cfg x)"

definition vgic_int_set_prio :: "vgic_env \<Rightarrow> iref \<Rightarrow> u64 \<Rightarrow> vgic \<Rightarrow> bool \<times> vgic" where
  "vgic_int_set_prio e r prio s = (ucast (vi_prio (int_at s r)) \<noteq> prio, upd_int (\<lambda>x. x\<lparr>vi_prio := ucast prio\<rparr>) r s)"

definition vgic_int_get_prio :: "vgic_int \<Rightarrow> u64" where "vgic_int_get_prio x = ucast (vi_prio x)"

text \<open>Updates of the physical controller, for interrupts that are linked to one.\<close>

definition redist_of :: "vgic_int \<Rightarrow> nat" where "redist_of x = unat (ucast (vi_phys x) :: u32)"

definition vgic_int_enable_hw :: "vgic_env \<Rightarrow> iref \<Rightarrow> vgic \<Rightarrow> vgic" where
  "vgic_int_enable_hw e r s =
     (let x = int_at s r; g = gic_env.truncate e in
      upd_gic (case g_ver e of
                 GICV2 \<Rightarrow> gic_set_enable g (vi_id x) (vi_enabled x)
               | GICV3 \<Rightarrow> if gic_is_priv (vi_id x) then gicr_set_enable g (vi_id x) (vi_enabled x) (redist_of x)
                          else gicd_set_enable g (vi_id x) (vi_enabled x)) s)"

definition vgic_int_state_hw :: "vgic_env \<Rightarrow> iref \<Rightarrow> vgic \<Rightarrow> vgic" where
  "vgic_int_state_hw e r s =
     (let x = int_at s r; g = gic_env.truncate e;
          state = (if vi_state x = PEND then ACT else vi_state x);
          pend = (state AND PEND \<noteq> 0); act = (state AND ACT \<noteq> 0)
      in if g_ver e = GICV3 \<and> gic_is_priv (vi_id x)
         then upd_gic (\<lambda>z. gicr_set_pend g (vi_id x) pend (redist_of x) (gicr_set_act g (vi_id x) act (redist_of x) z)) s
         else upd_gic (\<lambda>z. gicd_set_pend g (vi_id x) pend (gicd_set_act g (vi_id x) act z)) s)"

definition vgic_int_set_cfg_hw :: "vgic_env \<Rightarrow> iref \<Rightarrow> vgic \<Rightarrow> vgic" where
  "vgic_int_set_cfg_hw e r s =
     (let x = int_at s r; g = gic_env.truncate e in
      upd_gic (case g_ver e of
                 GICV2 \<Rightarrow> gic_set_icfgr g (vi_id x) (vi_cfg x)
               | GICV3 \<Rightarrow> if gic_is_priv (vi_id x) then gicr_set_icfgr g (vi_id x) (vi_cfg x) (redist_of x)
                          else gicd_set_icfgr g (vi_id x) (vi_cfg x)) s)"

definition vgic_int_set_prio_hw :: "vgic_env \<Rightarrow> iref \<Rightarrow> vgic \<Rightarrow> vgic" where
  "vgic_int_set_prio_hw e r s =
     (let x = int_at s r; g = gic_env.truncate e in
      upd_gic (case g_ver e of
                 GICV2 \<Rightarrow> gic_set_prio g (vi_id x) (vi_prio x)
               | GICV3 \<Rightarrow> if gic_is_priv (vi_id x) then gicr_set_prio g (vi_id x) (vi_prio x) (redist_of x)
                          else gicd_set_prio g (vi_id x) (vi_prio x)) s)"

text \<open>Version 2: the targets, as masks of physical CPUs.\<close>

definition vgicd_set_trgt :: "vgic_env \<Rightarrow> iref \<Rightarrow> u64 \<Rightarrow> vgic \<Rightarrow> bool \<times> vgic" where
  "vgicd_set_trgt e r targets s =
     (if gic_is_priv (vi_id (int_at s r)) then (False, s)
      else
        let t = vm_translate_to_pcpu_mask (v_cpus e) targets GIC_TARGET_BITS
        in (ucast (vi_targets (int_at s r)) \<noteq> t, upd_int (\<lambda>x. x\<lparr>vi_targets := ucast t\<rparr>) r s))"

definition vgicd_set_trgt_hw :: "vgic_env \<Rightarrow> iref \<Rightarrow> vgic \<Rightarrow> vgic" where
  "vgicd_set_trgt_hw e r s = upd_gic (gicd_set_trgt (gic_env.truncate e) (vi_id (int_at s r)) (vi_targets (int_at s r))) s"

definition vgicd_get_trgt :: "vgic_env \<Rightarrow> vgic_int \<Rightarrow> u64" where
  "vgicd_get_trgt e x =
     (if gic_is_priv (vi_id x) then push_bit (v_vcpu e) 1
      else ucast (ucast (vm_translate_to_vcpu_mask (v_cpus e) (ucast (vi_targets x)) GIC_TARGET_BITS) :: u8))"

text \<open>Version 3: the routes. \<open>None\<close>: the number of a CPU has no identification.\<close>

definition vm_get_vcpu_by_mpidr :: "vgic_env \<Rightarrow> u64 \<Rightarrow> nat option" where
  "vm_get_vcpu_by_mpidr e mpidr = find (\<lambda>v. v_vmpidr e v AND MPIDR_AFF_MSK = mpidr AND MPIDR_AFF_MSK) [0..<v_cpu_num e]"

definition vgic_int_set_route :: "vgic_env \<Rightarrow> nat \<Rightarrow> iref \<Rightarrow> u64 \<Rightarrow> vgic \<Rightarrow> (bool \<times> vgic) option" where
  "vgic_int_set_route e vcpu r route s =
     (let x = int_at s r; g = gic_env.truncate e in
      if gic_is_priv (vi_id x) then Some (False, s)
      else
        do { phys_route \<leftarrow>
               (if route AND GICD_IROUTER_IRM_BIT \<noteq> 0 then cpu_id_to_mpidr g (v_phys e vcpu)
                else
                  case vm_get_vcpu_by_mpidr e (route AND MPIDR_AFF_MSK) of
                    Some t \<Rightarrow> map_option (\<lambda>m. m AND MPIDR_AFF_MSK) (cpu_id_to_mpidr g (v_phys e t))
                  | None \<Rightarrow> Some GICD_IROUTER_INV);
             let s = upd_int (\<lambda>x. x\<lparr>vi_phys := phys_route, vi_route := route AND GICD_IROUTER_RES0_MSK\<rparr>) r s;
             Some (vi_route x \<noteq> route AND GICD_IROUTER_RES0_MSK, s) })"

definition vgic_int_get_route :: "vgic_int \<Rightarrow> u64" where
  "vgic_int_get_route x = (if gic_is_priv (vi_id x) then 0 else vi_route x)"

definition vgic_int_set_route_hw :: "vgic_env \<Rightarrow> iref \<Rightarrow> vgic \<Rightarrow> vgic" where
  "vgic_int_set_route_hw e r s = upd_gic (gicd_set_route (gic_env.truncate e) (vi_id (int_at s r)) (vi_phys (int_at s r))) s"

end
