(* ===== verification/Vgic_Regs.thy ===== *)
theory Vgic_Regs
  imports Vgic
begin

text \<open>
  The guest's side of the virtual interrupt controller of the ARMv8 port: the emulated registers of \<^verbatim>\<open>arch/armv8/vgic.c\<close>,
  \<^verbatim>\<open>vgicv2.c\<close> and \<^verbatim>\<open>vgicv3.c\<close>, injection, the messages between the CPUs of a VM, the maintenance interrupt and the initialisation.
\<close>

subsection \<open>Register handlers\<close>

datatype reg_kind = GENERIC | MISC | PIDR | RAZWI | SGIREGS | RCTRL | RTYPER | RPIDR

text \<open>\<open>None\<close> as the result of one of the functions is the call of a null pointer.\<close>

record reg_handler =
  rh_access :: reg_kind
  rh_alignment :: nat
  rh_regid :: nat
  rh_base :: nat
  rh_width :: nat
  rh_read :: "vgic_env \<Rightarrow> vgic_int \<Rightarrow> u64 option"
  rh_update :: "vgic_env \<Rightarrow> nat \<Rightarrow> iref \<Rightarrow> u64 \<Rightarrow> vgic \<Rightarrow> (bool \<times> vgic) option"
  rh_hw :: "vgic_env \<Rightarrow> iref \<Rightarrow> vgic \<Rightarrow> vgic"

definition generic_info ::
  "nat \<Rightarrow> nat \<Rightarrow> nat \<Rightarrow> nat \<Rightarrow> (vgic_int \<Rightarrow> u64) \<Rightarrow> (vgic_env \<Rightarrow> iref \<Rightarrow> u64 \<Rightarrow> vgic \<Rightarrow> bool \<times> vgic) \<Rightarrow>
   (vgic_env \<Rightarrow> iref \<Rightarrow> vgic \<Rightarrow> vgic) \<Rightarrow> reg_handler" where
  "generic_info al regid base width rd up hw =
     \<lparr>rh_access = GENERIC, rh_alignment = al, rh_regid = regid, rh_base = base, rh_width = width,
      rh_read = (\<lambda>e x. Some (rd x)), rh_update = (\<lambda>e vcpu r d s. Some (up e r d s)), rh_hw = hw\<rparr>"

definition other_info :: "reg_kind \<Rightarrow> nat \<Rightarrow> reg_handler" where
  "other_info acc al =
     \<lparr>rh_access = acc, rh_alignment = al, rh_regid = 0, rh_base = 0, rh_width = 0,
      rh_read = (\<lambda>e x. None), rh_update = (\<lambda>e vcpu r d s. None), rh_hw = (\<lambda>e r s. s)\<rparr>"

definition isenabler_info :: reg_handler where
  "isenabler_info = generic_info 4 0 0x100 1 vgic_int_get_enable vgic_int_set_enable vgic_int_enable_hw"
definition ispendr_info :: reg_handler where
  "ispendr_info = generic_info 4 1 0x200 1 vgic_int_get_pend vgic_int_set_pend vgic_int_state_hw"
definition isactiver_info :: reg_handler where
  "isactiver_info = generic_info 4 2 0x300 1 vgic_int_get_act vgic_int_set_act vgic_int_state_hw"
definition icenabler_info :: reg_handler where
  "icenabler_info = generic_info 4 3 0x180 1 vgic_int_get_enable vgic_int_clear_enable vgic_int_enable_hw"
definition icpendr_info :: reg_handler where
  "icpendr_info = generic_info 4 4 0x280 1 vgic_int_get_pend vgic_int_clear_pend vgic_int_state_hw"
definition iactiver_info :: reg_handler where
  "iactiver_info = generic_info 4 5 0x380 1 vgic_int_get_act vgic_int_clear_act vgic_int_state_hw"
definition icfgr_info :: reg_handler where
  "icfgr_info = generic_info 4 6 0xc00 2 vgic_int_get_cfg vgic_int_set_cfg vgic_int_set_cfg_hw"
definition ipriorityr_info :: reg_handler where
  "ipriorityr_info = generic_info 5 8 0x400 8 vgic_int_get_prio vgic_int_set_prio vgic_int_set_prio_hw"
definition vgicd_misc_info :: reg_handler where "vgicd_misc_info = other_info MISC 4"
definition vgicd_pidr_info :: reg_handler where "vgicd_pidr_info = other_info PIDR 4"
definition razwi_info :: reg_handler where "razwi_info = other_info RAZWI 4"
definition vgicr_ctrl_info :: reg_handler where "vgicr_ctrl_info = other_info RCTRL 4"
definition vgicr_typer_info :: reg_handler where "vgicr_typer_info = other_info RTYPER 8"
definition vgicr_pidr_info :: reg_handler where "vgicr_pidr_info = other_info RPIDR 4"

text \<open>The three handlers that a version may replace.\<close>

definition itargetr_info :: "gic_version \<Rightarrow> reg_handler" where
  "itargetr_info v =
     (case v of
        GICV2 \<Rightarrow> \<lparr>rh_access = GENERIC, rh_alignment = 5, rh_regid = 9, rh_base = 0x800, rh_width = 8,
                  rh_read = (\<lambda>e x. Some (vgicd_get_trgt e x)), rh_update = (\<lambda>e vcpu r d s. Some (vgicd_set_trgt e r d s)),
                  rh_hw = vgicd_set_trgt_hw\<rparr>
      | GICV3 \<Rightarrow> other_info RAZWI 5)"

definition sgir_info :: "gic_version \<Rightarrow> reg_handler" where
  "sgir_info v = (case v of GICV2 \<Rightarrow> other_info SGIREGS 4 | GICV3 \<Rightarrow> other_info RAZWI 4)"

definition irouter_info :: "gic_version \<Rightarrow> reg_handler" where
  "irouter_info v =
     (case v of
        GICV2 \<Rightarrow> other_info RAZWI 4
      | GICV3 \<Rightarrow> \<lparr>rh_access = GENERIC, rh_alignment = 8, rh_regid = 7, rh_base = 0x6000, rh_width = 64,
                  rh_read = (\<lambda>e x. Some (vgic_int_get_route x)), rh_update = vgic_int_set_route, rh_hw = vgic_int_set_route_hw\<rparr>)"

definition reg_handler_info_table :: "gic_version \<Rightarrow> reg_handler list" where
  "reg_handler_info_table v =
     [isenabler_info, ispendr_info, isactiver_info, icenabler_info, icpendr_info, iactiver_info, icfgr_info, irouter_info v,
      ipriorityr_info, itargetr_info v]"

definition vgic_get_reg_handler_info :: "gic_version \<Rightarrow> nat \<Rightarrow> reg_handler option" where
  "vgic_get_reg_handler_info v regid = (if regid < 10 then Some (reg_handler_info_table v ! regid) else None)"

subsection \<open>Accesses\<close>

definition vgic_int_set_field :: "vgic_env \<Rightarrow> reg_handler \<Rightarrow> nat \<Rightarrow> iref \<Rightarrow> u64 \<Rightarrow> vgic \<Rightarrow> vgic option" where
  "vgic_int_set_field e h vcpu r d s =
     (let (own, s) = vgic_get_ownership vcpu r s in
      if own then
        do { (b, s) \<leftarrow> vgic_remove_lr e vcpu r s;
             (ch, s) \<leftarrow> rh_update h e vcpu r d s;
             let s = (if ch \<and> vgic_int_is_hw (int_at s r) then rh_hw h e r s else s);
             s \<leftarrow> vgic_route e vcpu r s;
             vgic_yield_ownership e vcpu r s }
      else
        let msg = vgic_msg e VGIC_SET_REG (VGIC_MSG_DATA (v_vm_id e) 0 (vi_id (int_at s r)) (rh_regid h) d)
        in do { owner \<leftarrow> vi_owner (int_at s r); Some (send (v_phys e owner) msg s) })"

definition GICD_REG_MASK :: "gic_version \<Rightarrow> nat \<Rightarrow> nat" where
  "GICD_REG_MASK v addr = (case v of GICV2 \<Rightarrow> addr mod 0x1000 | GICV3 \<Rightarrow> addr mod 0x10000)"

text \<open>The loop of \<^verbatim>\<open>vgic_emul_generic_access\<close> over \<open>k\<close> more fields.\<close>

primrec generic_loop ::
  "vgic_env \<Rightarrow> bool \<Rightarrow> reg_handler \<Rightarrow> nat \<Rightarrow> u64 \<Rightarrow> nat \<Rightarrow> nat \<Rightarrow> u64 \<Rightarrow> vgic \<Rightarrow> (u64 \<times> vgic) option" where
  "generic_loop e write h vgicr_id first 0 i val s = Some (val, s)"
| "generic_loop e write h vgicr_id first (Suc k) i val s =
     do { p \<leftarrow> vgic_get_int e s (v_vcpu e) (unat (first + of_nat i)) vgicr_id;
          case p of
            None \<Rightarrow> Some (val, s)
          | Some r \<Rightarrow>
              if write then
                do { s \<leftarrow> vgic_int_set_field e h (v_vcpu e) r (bit_extract val (i * rh_width h) (rh_width h)) s;
                     generic_loop e write h vgicr_id first k (i + 1) val s }
              else
                do { f \<leftarrow> rh_read h e (int_at s r);
                     let val = val OR push_bit (i * rh_width h) (f AND (shl1 e (rh_width h) - 1));
                     generic_loop e write h vgicr_id first k (i + 1) val s } }"

definition vgic_emul_generic_access ::
  "vgic_env \<Rightarrow> emul_access \<Rightarrow> reg_handler \<Rightarrow> bool \<Rightarrow> nat \<Rightarrow> vgic \<Rightarrow> vgic option" where
  "vgic_emul_generic_access e acc h gicr_access vgicr_id s =
     (let w = rh_width h;
          first_int = (of_nat (GICD_REG_MASK (g_ver e) (acc_addr acc)) - of_nat (rh_base h)) * 8 div of_nat w;
          val = (if acc_write acc then vcpu_readreg_arm s (v_vcpu e) (acc_reg acc) else 0);
          valid_access = (g_ver e = GICV2 \<or> gicr_access = gic_is_priv (unat (first_int :: u64)))
      in do { (val, s) \<leftarrow> (if valid_access
                             then generic_loop e (acc_write acc) h vgicr_id first_int (acc_width acc * 8 div w) 0 val s
                             else Some (val, s));
              Some (if acc_write acc then s else vcpu_writereg_arm (v_vcpu e) (acc_reg acc) val s) })"

definition VGIC_ENABLE_MASK :: "gic_version \<Rightarrow> u32" where
  "VGIC_ENABLE_MASK v = (case v of GICV2 \<Rightarrow> 1 | GICV3 \<Rightarrow> 2)"

definition vgic_update_enable :: "vgic_env \<Rightarrow> vgic \<Rightarrow> vgic" where
  "vgic_update_enable e s =
     (let g = gic_env.truncate e in
      upd_gic (\<lambda>z. gich_set_hcr g (if vg_CTLR s AND VGIC_ENABLE_MASK (g_ver e) \<noteq> 0 then gich_get_hcr g z OR GICH_HCR_En_BIT
                                    else gich_get_hcr g z AND NOT GICH_HCR_En_BIT) z) s)"

text \<open>\<^verbatim>\<open>vm_msg_broadcast\<close> of \<^verbatim>\<open>core/vm.c\<close> on this state; \<open>n\<close> counts the CPUs found.\<close>

partial_function (option) vgic_broadcast_loop :: "vgic_env \<Rightarrow> cpu_msg \<Rightarrow> nat \<Rightarrow> nat \<Rightarrow> vgic \<Rightarrow> vgic option" where
  "vgic_broadcast_loop e m i n s =
     (if n < sub64 (v_cpu_num e) 1 then
        if push_bit i 1 AND (ucast (v_cpus e) :: u32) \<noteq> 0 \<and> i \<noteq> g_cpu_id e
        then vgic_broadcast_loop e m (i + 1) (n + 1) (send i m s)
        else vgic_broadcast_loop e m (i + 1) n s
      else Some s)"

declare vgic_broadcast_loop.simps [code]

definition vgicd_emul_misc_access :: "vgic_env \<Rightarrow> emul_access \<Rightarrow> vgic \<Rightarrow> vgic option" where
  "vgicd_emul_misc_access e acc s =
     (let reg = acc_addr acc mod 0x80; vcpu = v_vcpu e in
      if reg = 0 then
        if acc_write acc then
          let prev = vg_CTLR s;
              s = s\<lparr>vg_CTLR := ucast (vcpu_readreg_arm s vcpu (acc_reg acc)) AND VGIC_ENABLE_MASK (g_ver e)\<rparr>
          in if prev \<noteq> vg_CTLR s
             then vgic_broadcast_loop e (vgic_msg e VGIC_UPDATE_ENABLE (VGIC_MSG_DATA (v_vm_id e) 0 0 0 0)) 0 0 (vgic_update_enable e s)
             else Some s
        else Some (vcpu_writereg_arm vcpu (acc_reg acc) (ucast (vg_CTLR s OR 0x10)) s)
      else if reg = 4 then Some (if acc_write acc then s else vcpu_writereg_arm vcpu (acc_reg acc) (ucast (vg_TYPER s)) s)
      else if reg = 8 then Some (if acc_write acc then s else vcpu_writereg_arm vcpu (acc_reg acc) (ucast (vg_IIDR s)) s)
      else Some s)"

definition vgicd_emul_pidr_access :: "vgic_env \<Rightarrow> emul_access \<Rightarrow> vgic \<Rightarrow> vgic" where
  "vgicd_emul_pidr_access e acc s =
     (if acc_write acc then s
      else vcpu_writereg_arm (v_vcpu e) (acc_reg acc) (ucast (v_ids e Dist ((acc_addr acc mod 0x100 - 0xd0) div 4))) s)"

definition vgic_emul_razwi :: "vgic_env \<Rightarrow> emul_access \<Rightarrow> vgic \<Rightarrow> vgic" where
  "vgic_emul_razwi e acc s = (if acc_write acc then s else vcpu_writereg_arm (v_vcpu e) (acc_reg acc) 0 s)"

definition vgicd_emul_sgiregs_access :: "vgic_env \<Rightarrow> emul_access \<Rightarrow> vgic \<Rightarrow> vgic" where
  "vgicd_emul_sgiregs_access e acc s =
     (let val = (ucast (ucast (vcpu_readreg_arm s (v_vcpu e) (acc_reg acc)) :: u32) :: u64);
          int_id = unat (bit_extract val 0 4); flt = bit_extract val 24 2
      in if acc_addr acc mod 0x1000 = 0xf00 \<and> acc_write acc then
           if flt = 0 then vgic_send_sgi_msg e (vm_translate_to_pcpu_mask (v_cpus e) (bit_extract val 16 8) GIC_TARGET_BITS) int_id s
           else if flt = 1 then vgic_send_sgi_msg e (others e) int_id s
           else if flt = 2 then vgic_send_sgi_msg e (ucast (push_bit (g_cpu_id e) 1 :: u32)) int_id s
           else s
         else s)"

definition vgicr_emul_typer_access :: "vgic_env \<Rightarrow> emul_access \<Rightarrow> nat \<Rightarrow> vgic \<Rightarrow> vgic option" where
  "vgicr_emul_typer_access e acc vgicr_id s =
     (if acc_write acc then Some s
      else if vgicr_id < v_cpu_num e then Some (vcpu_writereg_arm (v_vcpu e) (acc_reg acc) (vg_gicr_TYPER s vgicr_id) s)
      else None)"

definition vgicr_emul_pidr_access :: "vgic_env \<Rightarrow> emul_access \<Rightarrow> nat \<Rightarrow> vgic \<Rightarrow> vgic option" where
  "vgicr_emul_pidr_access e acc vgicr_id s =
     (if acc_write acc then Some s
      else
        let pgicr_id = vm_translate_to_pcpuid (v_cpus e) vgicr_id
        in if pgicr_id < 0 then None
           else Some (vcpu_writereg_arm (v_vcpu e) (acc_reg acc)
                        (ucast (v_ids e (Redist (nat pgicr_id)) ((acc_addr acc mod 0x100 - 0xd0) div 4))) s))"

definition reg_access :: "vgic_env \<Rightarrow> emul_access \<Rightarrow> reg_handler \<Rightarrow> bool \<Rightarrow> nat \<Rightarrow> vgic \<Rightarrow> vgic option" where
  "reg_access e acc h gicr_access vgicr_id s =
     (case rh_access h of
        GENERIC \<Rightarrow> vgic_emul_generic_access e acc h gicr_access vgicr_id s
      | MISC \<Rightarrow> vgicd_emul_misc_access e acc s
      | PIDR \<Rightarrow> Some (vgicd_emul_pidr_access e acc s)
      | RAZWI \<Rightarrow> Some (vgic_emul_razwi e acc s)
      | SGIREGS \<Rightarrow> Some (vgicd_emul_sgiregs_access e acc s)
      | RCTRL \<Rightarrow> Some (vgic_emul_razwi e acc s)
      | RTYPER \<Rightarrow> vgicr_emul_typer_access e acc vgicr_id s
      | RPIDR \<Rightarrow> vgicr_emul_pidr_access e acc vgicr_id s)"

definition vgic_check_reg_alignment :: "emul_access \<Rightarrow> reg_handler \<Rightarrow> bool" where
  "vgic_check_reg_alignment acc h \<longleftrightarrow> and (rh_alignment h) (acc_width acc) \<noteq> 0 \<and> and (acc_addr acc) (acc_width acc - 1) = 0"

definition vgicd_handler :: "gic_version \<Rightarrow> nat \<Rightarrow> reg_handler" where
  "vgicd_handler v addr =
     (let off = GICD_REG_MASK v addr; grp = off div 0x80 in
      if grp = 0 then vgicd_misc_info
      else if grp = 0x100 div 0x80 then isenabler_info
      else if grp = 0x200 div 0x80 then ispendr_info
      else if grp = 0x300 div 0x80 then isactiver_info
      else if grp = 0x180 div 0x80 then icenabler_info
      else if grp = 0x280 div 0x80 then icpendr_info
      else if grp = 0x380 div 0x80 then iactiver_info
      else if grp = 0xc00 div 0x80 then icfgr_info
      else if grp = 0xf00 div 0x80 then sgir_info v
      else if 0x400 \<le> off \<and> off < 0x800 then ipriorityr_info
      else if 0x800 \<le> off \<and> off < 0xc00 then itargetr_info v
      else if 0x6000 \<le> off \<and> off < 0x8000 then irouter_info v
      else if 0xffd0 \<le> off \<and> off < 0x10000 then vgicd_pidr_info
      else razwi_info)"

text \<open>The handlers tell whether the access could be emulated.\<close>

definition vgicd_emul_handler :: "vgic_env \<Rightarrow> emul_access \<Rightarrow> vgic \<Rightarrow> (bool \<times> vgic) option" where
  "vgicd_emul_handler e acc s =
     (let h = vgicd_handler (g_ver e) (acc_addr acc) in
      if vgic_check_reg_alignment acc h then do { s \<leftarrow> reg_access e acc h False (v_vcpu e) s; Some (True, s) }
      else Some (False, s))"

definition vgicr_handler :: "vgic_env \<Rightarrow> nat \<Rightarrow> reg_handler" where
  "vgicr_handler e addr =
     (let reg = addr mod 0x20000; off = sub64 addr (v_gicr_addr e) mod 0x20000 in
      if reg = 0 then vgicr_ctrl_info
      else if reg = 8 then vgicr_typer_info
      else if reg = 0x10100 then isenabler_info
      else if reg = 0x10200 then ispendr_info
      else if reg = 0x10300 then iactiver_info
      else if reg = 0x10180 then icenabler_info
      else if reg = 0x10280 then icpendr_info
      else if reg = 0x10380 then icfgr_info
      else if reg = 0x10c00 \<or> reg = 0x10c04 then icfgr_info
      else if 0x10400 \<le> off \<and> off < 0x10420 then ipriorityr_info
      else if 0xffd0 \<le> off \<and> off < 0x10000 then vgicr_pidr_info
      else razwi_info)"

definition vgicr_emul_handler :: "vgic_env \<Rightarrow> emul_access \<Rightarrow> vgic \<Rightarrow> (bool \<times> vgic) option" where
  "vgicr_emul_handler e acc s =
     (let h = vgicr_handler e (acc_addr acc) in
      if vgic_check_reg_alignment acc h then
        let vgicr_id = sub64 (acc_addr acc) (v_gicr_addr e) div 0x20000 mod 2 ^ 32
        in if vgicr_id = v_vcpu e \<or> vgicr_id < v_cpu_num e
           then do { s \<leftarrow> reg_access e acc h True vgicr_id s; Some (True, s) } else None
      else Some (False, s))"

definition vgic_icc_sgir_handler :: "vgic_env \<Rightarrow> emul_access \<Rightarrow> vgic \<Rightarrow> bool \<times> vgic" where
  "vgic_icc_sgir_handler e acc s =
     (if acc_write acc then
        let sgir = vcpu_readreg_arm s (v_vcpu e) (acc_reg acc);
            int_id = unat (bit_extract sgir 24 4);
            trgtlist = (if sgir AND push_bit 40 1 \<noteq> 0 then others e
                        else vm_translate_to_pcpu_mask (v_cpus e) (bit_extract sgir 0 16) (v_cpu_num e))
        in (True, vgic_send_sgi_msg e trgtlist int_id s)
      else (True, s))"

definition vgic_icc_sre_handler :: "vgic_env \<Rightarrow> emul_access \<Rightarrow> vgic \<Rightarrow> bool \<times> vgic" where
  "vgic_icc_sre_handler e acc s = (True, if acc_write acc then s else vcpu_writereg_arm (v_vcpu e) (acc_reg acc) 1 s)"

subsection \<open>Injection and messages\<close>

definition vgic_inject_sgi :: "vgic_env \<Rightarrow> nat \<Rightarrow> iref \<Rightarrow> nat \<Rightarrow> vgic \<Rightarrow> vgic option" where
  "vgic_inject_sgi e vcpu r source s =
     do { (b, s) \<leftarrow> vgic_remove_lr e vcpu r s;
          let pendstate = vi_sgi_pend (int_at s r);
          let new_pendstate = pendstate OR push_bit source 1;
          if pendstate \<noteq> new_pendstate then
            let s = upd_int (\<lambda>x. x\<lparr>vi_sgi_pend := new_pendstate,
                                   vi_state := if new_pendstate \<noteq> 0 then vi_state x OR PEND else vi_state x AND NOT PEND\<rparr>) r s
            in if vi_state (int_at s r) \<noteq> INV then map_option snd (vgic_add_lr e vcpu r s) else Some s
          else Some s }"

definition vgic_inject :: "vgic_env \<Rightarrow> nat \<Rightarrow> nat \<Rightarrow> vgic \<Rightarrow> vgic option" where
  "vgic_inject e int_id source s =
     (let vcpu = v_vcpu e in
      do { p \<leftarrow> vgic_get_int e s vcpu int_id vcpu;
           case p of
             None \<Rightarrow> Some s
           | Some r \<Rightarrow>
               if vgic_int_is_hw (int_at s r) then
                 vgic_route e vcpu r (upd_int (\<lambda>x. x\<lparr>vi_owner := Some vcpu, vi_state := PEND, vi_in_lr := False\<rparr>) r s)
               else if g_ver e = GICV2 \<and> gic_is_sgi int_id then vgic_inject_sgi e vcpu r source s
               else vgic_int_set_field e ispendr_info vcpu r 1 s })"

text \<open>\<open>None\<close>: the message is for another VM.\<close>

definition vgic_ipi_handler :: "vgic_env \<Rightarrow> nat \<Rightarrow> u64 \<Rightarrow> vgic \<Rightarrow> vgic option" where
  "vgic_ipi_handler e event d s =
     (let vcpu = v_vcpu e; int_id = VGIC_MSG_INTID d in
      if VGIC_MSG_VM d \<noteq> v_vm_id e then None
      else if event = VGIC_UPDATE_ENABLE then Some (vgic_update_enable e s)
      else if event = VGIC_ROUTE then
        do { p \<leftarrow> vgic_get_int e s vcpu int_id vcpu;
             case p of
               None \<Rightarrow> Some s
             | Some r \<Rightarrow>
                 let (own, s) = vgic_get_ownership vcpu r s in
                 if own then
                   do { s \<leftarrow> (if vgic_int_vcpu_is_target e vcpu (int_at s r) then map_option snd (vgic_add_lr e vcpu r s) else Some s);
                        vgic_yield_ownership e vcpu r s }
                 else Some s }
      else if event = VGIC_INJECT then vgic_inject e int_id (unat (VGIC_MSG_VAL d)) s
      else if event = VGIC_SET_REG then
        do { p \<leftarrow> vgic_get_int e s vcpu int_id (VGIC_MSG_VGICRID d);
             case (vgic_get_reg_handler_info (g_ver e) (VGIC_MSG_REG d), p) of
               (Some h, Some r) \<Rightarrow> vgic_int_set_field e h vcpu r (VGIC_MSG_VAL d) s
             | _ \<Rightarrow> Some s }
      else Some s)"

subsection \<open>Maintenance\<close>

text \<open>The interrupt chosen so far, whether it is pending, and its priority.\<close>

type_synonym candidate = "iref option \<times> bool \<times> u8"

fun refill_scan :: "vgic_env \<Rightarrow> nat \<Rightarrow> bool \<Rightarrow> nat list \<Rightarrow> candidate \<Rightarrow> vgic \<Rightarrow> (candidate \<times> vgic) option" where
  "refill_scan e vcpu has_pend [] c s = Some (c, s)"
| "refill_scan e vcpu has_pend (i # is) (intr, prev_pend, prev_prio) s =
     do { p \<leftarrow> vgic_get_int e s vcpu i vcpu;
          case p of
            None \<Rightarrow> Some ((intr, prev_pend, prev_prio), s)
          | Some t \<Rightarrow>
              let (own, s) = vgic_get_ownership vcpu t s in
              if own then
                do { st \<leftarrow> vgic_get_state e s (int_at s t);
                     let x = int_at s t; is_act = (st AND ACT \<noteq> 0); is_pend = (st AND PEND \<noteq> 0);
                         eligible = (vgic_int_vcpu_is_target e vcpu x \<and> st \<noteq> INV \<and> \<not> vi_in_lr x);
                         better = (intr = None \<or> (\<not> has_pend \<and> is_pend \<and> \<not> prev_pend) \<or> (has_pend \<and> is_act \<and> prev_pend) \<or>
                                   vi_prio x < prev_prio)
                     in if eligible \<and> better then
                          do { s \<leftarrow> (case intr of Some aux \<Rightarrow> vgic_yield_ownership e vcpu aux s | None \<Rightarrow> Some s);
                               refill_scan e vcpu has_pend is (Some t, is_pend, vi_prio x) s }
                        else
                          do { s \<leftarrow> vgic_yield_ownership e vcpu t s;
                               refill_scan e vcpu has_pend is (intr, prev_pend, prev_prio) s } }
              else
                do { s \<leftarrow> vgic_yield_ownership e vcpu t s; refill_scan e vcpu has_pend is (intr, prev_pend, prev_prio) s } }"

definition clear_npie :: "vgic_env \<Rightarrow> vgic \<Rightarrow> vgic" where
  "clear_npie e s = upd_gic (\<lambda>g. gich_set_hcr (gic_env.truncate e) (gich_get_hcr (gic_env.truncate e) g AND NOT GICH_HCR_NPIE_BIT) g) s"

partial_function (option) refill_loop :: "vgic_env \<Rightarrow> nat \<Rightarrow> bool \<Rightarrow> vgic \<Rightarrow> vgic option" where
  "refill_loop e vcpu has_pend s =
     (let lr_ind = bitmap_find_nth (word_bitmap (v_elrsr e (cur_lrs e s))) (g_num_lrs e) 1 0 True in
      if lr_ind \<ge> 0 then
        Option.bind (refill_scan e vcpu has_pend [0..<gic_num_irqs (gic_env.truncate e)] (None, False, GIC_LOWEST_PRIO) s)
          (\<lambda>((intr, prev_pend, prev_prio), s).
             case intr of
               Some r \<Rightarrow>
                 Option.bind (vgic_write_lr e vcpu r (nat lr_ind) s) (refill_loop e vcpu (has_pend \<or> prev_pend))
             | None \<Rightarrow> Some (clear_npie e s))
      else Some s)"

declare refill_loop.simps [code]

definition vgic_refill_lrs :: "vgic_env \<Rightarrow> nat \<Rightarrow> vgic \<Rightarrow> vgic option" where
  "vgic_refill_lrs e vcpu s =
     refill_loop e vcpu
       (list_ex (\<lambda>i. GICH_LR_STATE (g_ver e) (case read_lr e s i of Some w \<Rightarrow> w | None \<Rightarrow> 0) AND PEND \<noteq> 0) [0..<g_num_lrs e]) s"

fun eoir_scan :: "vgic_env \<Rightarrow> nat \<Rightarrow> nat list \<Rightarrow> iref option \<Rightarrow> vgic \<Rightarrow> (iref option \<times> vgic) option" where
  "eoir_scan e vcpu [] intr s = Some (intr, s)"
| "eoir_scan e vcpu (i # is) intr s =
     do { p \<leftarrow> vgic_get_int e s vcpu i vcpu;
          case p of
            None \<Rightarrow> Some (intr, s)
          | Some t \<Rightarrow>
              let (own, s) = vgic_get_ownership vcpu t s;
                  better = (case intr of None \<Rightarrow> True | Some r \<Rightarrow> vi_prio (int_at s r) < vi_prio (int_at s t))
              in if own \<and> vi_state (int_at s t) AND ACT \<noteq> 0 \<and> better then
                   do { s \<leftarrow> (case intr of Some aux \<Rightarrow> vgic_yield_ownership e vcpu aux s | None \<Rightarrow> Some s);
                        eoir_scan e vcpu is (Some t) s }
                 else do { s \<leftarrow> vgic_yield_ownership e vcpu t s; eoir_scan e vcpu is intr s } }"

definition vgic_eoir_highest_spilled_active :: "vgic_env \<Rightarrow> nat \<Rightarrow> vgic \<Rightarrow> vgic option" where
  "vgic_eoir_highest_spilled_active e vcpu s =
     do { (intr, s) \<leftarrow> eoir_scan e vcpu [0..<gic_num_irqs (gic_env.truncate e)] None s;
          case intr of
            None \<Rightarrow> Some s
          | Some r \<Rightarrow>
              let s = upd_int (\<lambda>x. x\<lparr>vi_state := vi_state x AND NOT ACT\<rparr>) r s in
              if vgic_int_is_hw (int_at s r) then Some (upd_gic (gic_set_act (gic_env.truncate e) (vi_id (int_at s r)) False) s)
              else if vi_state (int_at s r) AND PEND \<noteq> 0 then map_option snd (vgic_add_lr e vcpu r s)
              else Some s }"

partial_function (option) vgic_handle_trapped_eoir :: "vgic_env \<Rightarrow> nat \<Rightarrow> vgic \<Rightarrow> vgic option" where
  "vgic_handle_trapped_eoir e vcpu s =
     (let lr_ind = bitmap_find_nth (word_bitmap (v_eisr e (cur_lrs e s))) (g_num_lrs e) 1 0 True in
      if lr_ind \<ge> 0 then
        Option.bind (read_lr e s (nat lr_ind))
          (\<lambda>lr_val. Option.bind (write_lr e (nat lr_ind) 0 s)
             (\<lambda>s. Option.bind (vgic_get_int e s vcpu (GICH_LR_VID (g_ver e) lr_val) vcpu)
                (\<lambda>p. case p of
                        None \<Rightarrow> vgic_handle_trapped_eoir e vcpu s
                      | Some r \<Rightarrow>
                          Option.bind
                            (let s = upd_int (\<lambda>x. x\<lparr>vi_in_lr := False\<rparr>) r s in
                             if vi_id (int_at s r) < GIC_MAX_SGIS then map_option snd (vgic_add_lr e vcpu r s)
                             else vgic_yield_ownership e vcpu r s)
                            (vgic_handle_trapped_eoir e vcpu))))
      else Some s)"

declare vgic_handle_trapped_eoir.simps [code]

partial_function (option) eoi_count_loop :: "vgic_env \<Rightarrow> nat \<Rightarrow> vgic \<Rightarrow> vgic option" where
  "eoi_count_loop e vcpu s =
     (let hcr = gich_get_hcr (gic_env.truncate e) (vg_gic s) in
      if hcr AND push_bit 27 0x1f \<noteq> 0 then
        Option.bind (vgic_eoir_highest_spilled_active e vcpu s)
          (\<lambda>s. eoi_count_loop e vcpu (upd_gic (gich_set_hcr (gic_env.truncate e) (hcr - push_bit 27 1)) s))
      else Some s)"

declare eoi_count_loop.simps [code]

definition gic_maintenance_handler :: "vgic_env \<Rightarrow> vgic \<Rightarrow> vgic option" where
  "gic_maintenance_handler e s =
     (let misr = v_misr e (cur_lrs e s) (gich_get_hcr (gic_env.truncate e) (vg_gic s)); vcpu = v_vcpu e in
      do { s \<leftarrow> (if misr AND 1 \<noteq> 0 then vgic_handle_trapped_eoir e vcpu s else Some s);
           s \<leftarrow> (if misr AND 8 \<noteq> 0 then vgic_refill_lrs e vcpu s else Some s);
           if misr AND 4 \<noteq> 0 then eoi_count_loop e vcpu s else Some s })"

subsection \<open>Initialisation\<close>

definition vgic_get_itln :: "gic_env \<Rightarrow> nat \<Rightarrow> nat" where
  "vgic_get_itln e interrupt_num =
     (if interrupt_num > GIC_MAX_PPIS then (ALIGN interrupt_num 32 div 32 - 1) mod 32
      else unat (bit_extract (ucast (g_typer e)) 0 5))"

text \<open>What both versions set; the other fields keep the content of the memory.\<close>

definition int_init :: "nat option \<Rightarrow> nat \<Rightarrow> vgic_int \<Rightarrow> vgic_int" where
  "int_init owner int_id x =
     x\<lparr>vi_owner := owner, vi_id := int_id, vi_state := INV, vi_prio := GIC_LOWEST_PRIO, vi_cfg := 0, vi_hw := False,
       vi_in_lr := False, vi_enabled := False\<rparr>"

definition gicr_typer :: "vgic_env \<Rightarrow> nat \<Rightarrow> u64" where
  "gicr_typer e vcpu =
     push_bit 8 (of_nat vcpu) OR push_bit 32 (v_vmpidr e vcpu AND MPIDR_AFF_MSK) OR (if vcpu = v_cpu_num e - 1 then push_bit 4 1 else 0)"

text \<open>The description of the controller in the VM's configuration.\<close>

record gic_dscrp =
  gd_gicc_addr :: nat
  gd_gicd_addr :: nat
  gd_gicr_addr :: nat
  gd_interrupt_num :: nat

definition sizeof_gicd :: nat where "sizeof_gicd = 0x10000"
definition sizeof_gicr :: nat where "sizeof_gicr = 0x20000"
definition sizeof_gicc :: nat where "sizeof_gicc = 0x2000"

text \<open>The fields of the distributor; \<open>iidr\<close> is the physical one's.\<close>

definition vgicd_fields :: "vgic_env \<Rightarrow> nat \<Rightarrow> u32 \<Rightarrow> vgic \<Rightarrow> vgic" where
  "vgicd_fields e interrupt_num iidr s =
     (let itln = vgic_get_itln (gic_env.truncate e) interrupt_num;
          typer = lr_field 0 5 (of_nat itln) OR lr_field 5 3 (of_nat (v_cpu_num e - 1)) OR
                  (case g_ver e of GICV2 \<Rightarrow> 0 | GICV3 \<Rightarrow> lr_field 19 5 9)
      in s\<lparr>vg_CTLR := 0, vg_int_num := 32 * (itln + 1), vg_TYPER := ucast typer, vg_IIDR := iidr\<rparr>)"

definition vgicd_interrupts :: "vgic_env \<Rightarrow> vgic \<Rightarrow> vgic" where
  "vgicd_interrupts e s =
     s\<lparr>vg_spis := (\<lambda>i.
         if i < vg_int_num s then
           let x = int_init None (i + GIC_CPU_PRIV) (vg_spis s i) in
           case g_ver e of
             GICV2 \<Rightarrow> x\<lparr>vi_targets := 0\<rparr>
           | GICV3 \<Rightarrow> x\<lparr>vi_route := GICD_IROUTER_INV, vi_phys := GICD_IROUTER_INV\<rparr>
         else vg_spis s i)\<rparr>"

text \<open>One round of the loop over the virtual CPUs, for version 3.\<close>

definition vgicr_register :: "vgic_env \<Rightarrow> gic_dscrp \<Rightarrow> nat \<Rightarrow> vgic \<Rightarrow> vgic" where
  "vgicr_register e d v s =
     s\<lparr>vg_emul := vg_emul s @ [VMEM (gd_gicr_addr d + sizeof_gicr * v) (v_gicr_ptr e (v_phys e v)) (ALIGN sizeof_gicr PAGE_SIZE) VGICR],
       vg_gicr_TYPER := (vg_gicr_TYPER s)(v := gicr_typer e v)\<rparr>"

definition SYSREG_ENC_ADDR :: "nat \<Rightarrow> nat \<Rightarrow> nat \<Rightarrow> nat \<Rightarrow> nat \<Rightarrow> nat" where
  "SYSREG_ENC_ADDR op0 op1 crn crm op2 = op0 mod 4 * 2 ^ 20 + op2 mod 8 * 2 ^ 17 + op1 mod 8 * 2 ^ 14 + crn mod 16 * 2 ^ 10 + crm mod 16 * 2"

text \<open>
  \<^verbatim>\<open>vgic_init\<close>: \<open>va\<close> and \<open>page\<close> are the results of \<^verbatim>\<open>mem_alloc_vpage\<close> and \<^verbatim>\<open>mem_alloc_page\<close>. \<open>None\<close> is an error: the
  guest's address of the CPU interface is taken, or there is no memory for the interrupts.
\<close>

definition vgic_init :: "vgic_env \<Rightarrow> gic_dscrp \<Rightarrow> u32 \<Rightarrow> nat option \<Rightarrow> nat option \<Rightarrow> vgic \<Rightarrow> vgic option" where
  "vgic_init e d iidr va page s =
     (let s = vgicd_fields e (gd_interrupt_num d) iidr s in
      case g_ver e of
        GICV2 \<Rightarrow>
          if va \<noteq> Some (gd_gicc_addr d) \<or> page = None then None
          else
            let s = s\<lparr>vg_maps := vg_maps s @ [(gd_gicc_addr d, v_gicv_addr e, NUM_PAGES sizeof_gicc)]\<rparr>;
                s = vgicd_interrupts e s
            in Some (s\<lparr>vg_emul := vg_emul s @ [VMEM (gd_gicd_addr d) (v_gicd_ptr e) (ALIGN sizeof_gicd PAGE_SIZE) VGICD]\<rparr>)
      | GICV3 \<Rightarrow>
          if page = None then None
          else
            let s = vgicd_interrupts e s;
                s = s\<lparr>vg_emul := vg_emul s @ [VMEM (gd_gicd_addr d) (v_gicd_ptr e) (ALIGN sizeof_gicd PAGE_SIZE) VGICD]\<rparr>;
                s = fold (vgicr_register e d) [0..<v_cpu_num e] s
            in Some (s\<lparr>vg_emul := vg_emul s @ [VREG (SYSREG_ENC_ADDR 3 0 12 11 5) ICC_SGIR, VREG (SYSREG_ENC_ADDR 3 0 12 12 5) ICC_SRE_EL1]\<rparr>))"

definition vgic_cpu_init :: "vgic_env \<Rightarrow> nat \<Rightarrow> vgic \<Rightarrow> vgic" where
  "vgic_cpu_init e vcpu s =
     s\<lparr>vg_priv := (vg_priv s)(vcpu := (\<lambda>i.
         if i < GIC_CPU_PRIV then
           case g_ver e of
             GICV2 \<Rightarrow> (int_init (Some vcpu) i (vg_priv s vcpu i))\<lparr>vi_targets := 0, vi_sgi_pend := 0, vi_enabled := i < GIC_MAX_SGIS\<rparr>
           | GICV3 \<Rightarrow> (int_init None i (vg_priv s vcpu i))\<lparr>vi_route := GICD_IROUTER_INV, vi_phys := of_nat (v_phys e vcpu),
                        vi_cfg := if i < GIC_MAX_SGIS then 2 else 0\<rparr>
         else vg_priv s vcpu i))\<rparr>"

definition vgic_set_hw :: "vgic_env \<Rightarrow> nat \<Rightarrow> vgic \<Rightarrow> vgic" where
  "vgic_set_hw e int_id s =
     (if int_id < GIC_MAX_SGIS then s
      else if int_id < GIC_CPU_PRIV then
        fold (\<lambda>v. upd_int (\<lambda>x. x\<lparr>vi_hw := True\<rparr>) (Priv v int_id)) [0..<v_cpu_num e] s
      else if int_id < vg_int_num s then upd_int (\<lambda>x. x\<lparr>vi_hw := True\<rparr>) (Spi (int_id - GIC_CPU_PRIV)) s
      else s)"

end
