(* ===== verification/Vgic_Inv.thy ===== *)
theory Vgic_Inv
  imports Vgic_Regs
begin

text \<open>
  The list registers of a VM's CPUs: what a valid list register says of the interrupt it holds. The register knows its
  interrupt, which in turn knows the register and its owner; so no interrupt is in two list registers, of one CPU or of two.
\<close>

subsection \<open>The invariant\<close>

definition lr_at :: "vgic_env \<Rightarrow> vgic \<Rightarrow> nat \<Rightarrow> nat \<Rightarrow> u64" where
  "lr_at e s v i = (if g_ver e = GICV3 \<and> 16 \<le> i then 0 else gs_lrs (vg_gic s) (v_phys e v) i)"

definition lr_valid :: "vgic_env \<Rightarrow> u64 \<Rightarrow> bool" where
  "lr_valid e w \<longleftrightarrow> GICH_LR_STATE (g_ver e) w \<noteq> INV"

text \<open>The interrupt that the number \<open>i\<close> in a list register of virtual CPU \<open>v\<close> stands for.\<close>

definition ref :: "nat \<Rightarrow> nat \<Rightarrow> iref" where
  "ref v i = (if i < GIC_CPU_PRIV then Priv v i else Spi (i - GIC_CPU_PRIV))"

definition held_by :: "vgic_env \<Rightarrow> vgic \<Rightarrow> nat \<Rightarrow> nat \<Rightarrow> iref \<Rightarrow> bool" where
  "held_by e s v i r \<longleftrightarrow> v < v_cpu_num e \<and> i < g_num_lrs e \<and> lr_valid e (lr_at e s v i) \<and> r = ref v (GICH_LR_VID (g_ver e) (lr_at e s v i))"

definition known :: "vgic \<Rightarrow> nat \<Rightarrow> bool" where
  "known s i \<longleftrightarrow> i < GIC_CPU_PRIV \<or> i < vg_int_num s"

text \<open>The pointers that the code can have.\<close>

fun is_ref :: "vgic_env \<Rightarrow> vgic \<Rightarrow> iref \<Rightarrow> bool" where
  "is_ref e s (Priv v i) \<longleftrightarrow> v < v_cpu_num e \<and> i < GIC_CPU_PRIV"
| "is_ref e s (Spi k) \<longleftrightarrow> k + GIC_CPU_PRIV < vg_int_num s"

fun ref_id :: "iref \<Rightarrow> nat" where
  "ref_id (Priv v i) = i"
| "ref_id (Spi k) = k + GIC_CPU_PRIV"

definition vgic_inv :: "vgic_env \<Rightarrow> vgic \<Rightarrow> bool" where
  "vgic_inv e s \<longleftrightarrow>
     vg_int_num s \<le> 1024 \<and>
     (\<forall>r. is_ref e s r \<longrightarrow> vi_id (int_at s r) = ref_id r) \<and>
     (\<forall>v i. v < v_cpu_num e \<longrightarrow> i < GIC_CPU_PRIV \<longrightarrow>
        (g_ver e = GICV2 \<longrightarrow> vi_owner (int_at s (Priv v i)) = Some v) \<and>
        (g_ver e = GICV3 \<longrightarrow> vi_phys (int_at s (Priv v i)) = of_nat (v_phys e v))) \<and>
     (\<forall>v i r. held_by e s v i r \<longrightarrow>
        known s (GICH_LR_VID (g_ver e) (lr_at e s v i)) \<and>
        vi_in_lr (int_at s r) \<and> vi_lr (int_at s r) = i \<and> vi_owner (int_at s r) = Some v)"

text \<open>
  What is assumed of the numbers of CPUs and of the hardware, as the architecture documents it: an empty list register is not
  valid, and the end of an interrupt is signalled for a register that is not valid and asks for it. The handler runs on the
  physical CPU of the virtual CPU \<open>v_vcpu\<close>.
\<close>

definition eoi_pending :: "gic_version \<Rightarrow> u64 \<Rightarrow> bool" where
  "eoi_pending v w \<longleftrightarrow> GICH_LR_STATE v w = INV \<and> w AND LR_EOI_BIT v \<noteq> 0 \<and> w AND LR_HW_BIT v = 0"

definition env_ok :: "vgic_env \<Rightarrow> bool" where
  "env_ok e \<longleftrightarrow> inj_on (v_phys e) {..<v_cpu_num e} \<and> (\<forall>v < v_cpu_num e. v_phys e v < 2 ^ 64) \<and>
     v_vcpu e < v_cpu_num e \<and> g_cpu_id e = v_phys e (v_vcpu e) \<and>
     g_num_lrs e \<le> (case g_ver e of GICV2 \<Rightarrow> 64 | GICV3 \<Rightarrow> 16) \<and>
     (\<forall>lrs i. bit (v_elrsr e lrs) i \<longrightarrow> \<not> lr_valid e (lrs i)) \<and>
     (\<forall>lrs i. i < g_num_lrs e \<longrightarrow> bit (v_eisr e lrs) i = eoi_pending (g_ver e) (lrs i))"

lemma vgic_invD:
  assumes "vgic_inv e s"
  shows "vg_int_num s \<le> 1024" "is_ref e s r \<Longrightarrow> vi_id (int_at s r) = ref_id r"
    "v < v_cpu_num e \<Longrightarrow> i < GIC_CPU_PRIV \<Longrightarrow> g_ver e = GICV2 \<Longrightarrow> vi_owner (int_at s (Priv v i)) = Some v"
    "v < v_cpu_num e \<Longrightarrow> i < GIC_CPU_PRIV \<Longrightarrow> g_ver e = GICV3 \<Longrightarrow> vi_phys (int_at s (Priv v i)) = of_nat (v_phys e v)"
    "held_by e s v i r \<Longrightarrow> known s (GICH_LR_VID (g_ver e) (lr_at e s v i))"
    "held_by e s v i r \<Longrightarrow> vi_in_lr (int_at s r) \<and> vi_lr (int_at s r) = i \<and> vi_owner (int_at s r) = Some v"
  using assms unfolding vgic_inv_def by blast+

lemma held_unique: "vgic_inv e s \<Longrightarrow> held_by e s v i r \<Longrightarrow> held_by e s w j r \<Longrightarrow> v = w \<and> i = j"
  using vgic_invD(6) by (metis option.inject)

subsection \<open>Changes that leave list registers and ownership alone\<close>

definition key :: "vgic_int \<Rightarrow> nat option \<times> bool \<times> nat \<times> nat" where
  "key x = (vi_owner x, vi_in_lr x, vi_lr x, vi_id x)"

definition same_keys :: "vgic \<Rightarrow> vgic \<Rightarrow> bool" where
  "same_keys s s' \<longleftrightarrow> (\<forall>r. key (int_at s' r) = key (int_at s r)) \<and> (\<forall>v i. i < GIC_CPU_PRIV \<longrightarrow> vi_phys (int_at s' (Priv v i)) = vi_phys (int_at s (Priv v i))) \<and>
     gs_lrs (vg_gic s') = gs_lrs (vg_gic s) \<and> vg_int_num s' = vg_int_num s"

named_theorems keys

lemma same_keys_refl [keys]: "same_keys s s"
  by (simp add: same_keys_def)

lemma same_keys_trans: "same_keys s t \<Longrightarrow> same_keys t u \<Longrightarrow> same_keys s u"
  by (simp add: same_keys_def)

lemma same_keysD:
  assumes "same_keys s s'"
  shows "vi_owner (int_at s' r) = vi_owner (int_at s r)" "vi_in_lr (int_at s' r) = vi_in_lr (int_at s r)"
    "vi_lr (int_at s' r) = vi_lr (int_at s r)" "vi_id (int_at s' r) = vi_id (int_at s r)"
    "i < GIC_CPU_PRIV \<Longrightarrow> vi_phys (int_at s' (Priv v i)) = vi_phys (int_at s (Priv v i))" "vg_int_num s' = vg_int_num s"
    "gs_lrs (vg_gic s') = gs_lrs (vg_gic s)" "lr_at e s' v i = lr_at e s v i" "held_by e s' v i r = held_by e s v i r"
    "is_ref e s' r = is_ref e s r" "known s' k = known s k"
  using assms by (cases r; auto simp: same_keys_def key_def lr_at_def held_by_def known_def)+

lemma same_keys_inv: "same_keys s s' \<Longrightarrow> vgic_inv e s \<Longrightarrow> vgic_inv e s'"
  unfolding vgic_inv_def by (simp add: same_keysD)

lemma int_at_upd: "int_at (upd_int f r s) q = (if q = r then f (int_at s r) else int_at s q)"
  by (cases r; cases q) (auto simp: int_at_def upd_int_def)

lemma upd_int_simps [simp]:
  "vg_gic (upd_int f r s) = vg_gic s" "vg_int_num (upd_int f r s) = vg_int_num s" "vg_curr_lrs (upd_int f r s) = vg_curr_lrs s"
  "vg_msgs (upd_int f r s) = vg_msgs s" "vg_CTLR (upd_int f r s) = vg_CTLR s" "vg_regs (upd_int f r s) = vg_regs s"
  by (cases r; simp add: upd_int_def)+

lemma int_at_other [simp]:
  "int_at (s\<lparr>vg_gic := g\<rparr>) r = int_at s r" "int_at (s\<lparr>vg_curr_lrs := c\<rparr>) r = int_at s r" "int_at (s\<lparr>vg_msgs := m\<rparr>) r = int_at s r"
  "int_at (s\<lparr>vg_CTLR := d\<rparr>) r = int_at s r" "int_at (s\<lparr>vg_regs := x\<rparr>) r = int_at s r"
  by (cases r; simp add: int_at_def)+

lemma keys_upd_int [keys]:
  "(\<And>x. key (f x) = key x) \<Longrightarrow> (\<And>x. vi_phys (f x) = vi_phys x) \<Longrightarrow> same_keys s (upd_int f r s)"
  by (simp add: same_keys_def int_at_upd)

lemma keys_upd_gic [keys]: "(\<And>g. gs_lrs (f g) = gs_lrs g) \<Longrightarrow> same_keys s (upd_gic f s)"
  by (simp add: same_keys_def upd_gic_def)

lemma gic_lrs [simp]:
  "gs_lrs (gic_wr g fr reg i val z) = gs_lrs z" "gs_lrs (gich_set_hcr g h z) = gs_lrs z"
  by (simp_all add: gic_wr_def gich_set_hcr_def)

lemmas gic_ops = rmw_field_def gicd_set_icfgr_def gicd_set_prio_def gicd_set_pend_def gicd_set_act_def gicd_set_enable_def gicd_set_trgt_def
  gicd_set_route_def gicr_set_prio_def gicr_set_icfgr_def gicr_set_pend_def gicr_set_act_def gicr_set_enable_def gic_set_prio_def
  gic_set_icfgr_def gic_set_act_def gic_set_enable_def gic_set_pend_def

lemma keys_send [keys]: "same_keys s (send c m s)"
  by (simp add: same_keys_def send_def)

lemma keys_fold: "(\<And>i s. same_keys s (f i s)) \<Longrightarrow> same_keys s (fold f is s)"
  by (induction "is" arbitrary: s) (auto intro: same_keys_refl same_keys_trans)

lemma keys_send_mask [keys]: "same_keys s (send_mask e m msg s)"
  unfolding send_mask_def by (rule keys_fold) (simp add: keys_send same_keys_refl)

lemma keys_npie [keys]: "same_keys s (set_npie e s)" "same_keys s (clear_npie e s)" "same_keys s (vgic_update_enable e s)"
  unfolding set_npie_def clear_npie_def vgic_update_enable_def Let_def by (rule keys_upd_gic; simp)+

lemma keys_writereg [keys]: "same_keys s (vcpu_writereg_arm v reg val s)" "same_keys s (s\<lparr>vg_CTLR := d\<rparr>)" "same_keys s (s\<lparr>vg_curr_lrs := c\<rparr>)"
  by (simp_all add: same_keys_def vcpu_writereg_arm_def)

lemma keys_hw [keys]:
  "same_keys s (vgic_int_enable_hw e r s)" "same_keys s (vgic_int_state_hw e r s)" "same_keys s (vgic_int_set_cfg_hw e r s)"
  "same_keys s (vgic_int_set_prio_hw e r s)" "same_keys s (vgicd_set_trgt_hw e r s)" "same_keys s (vgic_int_set_route_hw e r s)"
  unfolding vgic_int_enable_hw_def vgic_int_state_hw_def vgic_int_set_cfg_hw_def vgic_int_set_prio_hw_def vgicd_set_trgt_hw_def
    vgic_int_set_route_hw_def Let_def
  by (auto simp: gic_ops Let_def intro!: keys_upd_gic split: gic_version.splits)

lemma keys_update:
  "same_keys s (snd (vgic_int_update_enable e r b s))" "same_keys s (snd (vgic_int_update_pend e r b s))"
  "same_keys s (snd (vgic_int_update_act r b s))"
  by (auto simp: vgic_int_update_enable_def vgic_int_update_pend_def vgic_int_update_act_def key_def intro: keys)

lemmas update_defs = vgic_int_set_enable_def vgic_int_clear_enable_def vgic_int_set_pend_def vgic_int_clear_pend_def vgic_int_set_act_def
  vgic_int_clear_act_def vgic_int_set_cfg_def vgic_int_set_prio_def vgicd_set_trgt_def

text \<open>The handlers of the register table change only such fields.\<close>

definition benign :: "reg_handler \<Rightarrow> bool" where
  "benign h \<longleftrightarrow> (\<forall>e v r d s b s'. vi_id (int_at s r) = ref_id r \<longrightarrow> rh_update h e v r d s = Some (b, s') \<longrightarrow> same_keys s s') \<and>
     (\<forall>e r s. same_keys s (rh_hw h e r s))"

lemma route_keys:
  assumes "vgic_int_set_route e v r d s = Some (b, s')" "vi_id (int_at s r) = ref_id r"
  shows "same_keys s s'"
proof (cases "gic_is_priv (vi_id (int_at s r))")
  case True
  then show ?thesis using assms by (auto simp: vgic_int_set_route_def Let_def intro: keys)
next
  case False
  then have p: "r \<noteq> Priv w i" if "i < GIC_CPU_PRIV" for w i using assms(2) that by (auto simp: gic_is_priv_def)
  obtain m where "s' = upd_int (\<lambda>x. x\<lparr>vi_phys := m, vi_route := d AND GICD_IROUTER_RES0_MSK\<rparr>) r s"
    using assms False by (auto simp: vgic_int_set_route_def Let_def split: bind_splits)
  then show ?thesis using p by (auto simp: same_keys_def int_at_upd key_def)
qed

lemma benign_generic:
  assumes "\<And>e r d s. same_keys s (snd (up e r d s))" "\<And>e r s. same_keys s (hw e r s)"
  shows "benign (generic_info al regid base width rd up hw)"
proof -
  have "same_keys s s'" if "up e r d s = (b, s')" for e r d s b s' using assms(1) [of s e r d] that by simp
  then show ?thesis using assms(2) by (auto simp: benign_def generic_info_def)
qed

lemma benign_other: "benign (other_info acc al)"
  by (simp add: benign_def other_info_def same_keys_refl)

lemma benign_infos:
  "benign isenabler_info" "benign ispendr_info" "benign isactiver_info" "benign icenabler_info" "benign icpendr_info" "benign iactiver_info"
  "benign icfgr_info" "benign ipriorityr_info" "benign (itargetr_info v)" "benign (sgir_info v)" "benign (irouter_info v)"
  "benign vgicd_misc_info" "benign vgicd_pidr_info" "benign razwi_info" "benign vgicr_ctrl_info" "benign vgicr_typer_info" "benign vgicr_pidr_info"
proof -
  have u: "same_keys s (snd (vgic_int_set_enable e r d s))" "same_keys s (snd (vgic_int_clear_enable e r d s))"
    "same_keys s (snd (vgic_int_set_pend e r d s))" "same_keys s (snd (vgic_int_clear_pend e r d s))"
    "same_keys s (snd (vgic_int_set_act e r d s))" "same_keys s (snd (vgic_int_clear_act e r d s))"
    "same_keys s (snd (vgic_int_set_cfg e r d s))" "same_keys s (snd (vgic_int_set_prio e r d s))" "same_keys s (snd (vgicd_set_trgt e r d s))"
    for s e r d by (auto simp: update_defs key_def Let_def intro: keys keys_update)
  show "benign isenabler_info" "benign ispendr_info" "benign isactiver_info" "benign icenabler_info" "benign icpendr_info" "benign iactiver_info"
    "benign icfgr_info" "benign ipriorityr_info"
    unfolding isenabler_info_def ispendr_info_def isactiver_info_def icenabler_info_def icpendr_info_def iactiver_info_def icfgr_info_def
      ipriorityr_info_def by (rule benign_generic; rule u keys)+
  have t: "same_keys s s'" if "vgicd_set_trgt e r d s = (b, s')" for e r d s b s' using u(9) [of s e r d] that by simp
  then show "benign (itargetr_info v)" using keys_hw(5) benign_other by (auto simp: benign_def itargetr_info_def split: gic_version.splits)
  show "benign (irouter_info v)" using benign_other route_keys keys_hw(6) by (auto simp: benign_def irouter_info_def split: gic_version.splits)
  show "benign (sgir_info v)" "benign vgicd_misc_info" "benign vgicd_pidr_info" "benign razwi_info" "benign vgicr_ctrl_info"
    "benign vgicr_typer_info" "benign vgicr_pidr_info"
    using benign_other by (auto simp: sgir_info_def vgicd_misc_info_def vgicd_pidr_info_def razwi_info_def vgicr_ctrl_info_def
        vgicr_typer_info_def vgicr_pidr_info_def split: gic_version.splits)
qed

lemma benign_table: "vgic_get_reg_handler_info v regid = Some h \<Longrightarrow> benign h"
proof -
  assume a: "vgic_get_reg_handler_info v regid = Some h"
  then have "regid < length (reg_handler_info_table v)" "h = reg_handler_info_table v ! regid"
    by (auto simp: vgic_get_reg_handler_info_def reg_handler_info_table_def split: if_splits)
  then have "h \<in> set (reg_handler_info_table v)" by simp
  then show ?thesis using benign_infos by (auto simp: reg_handler_info_table_def)
qed

lemma benign_handler: "benign (vgicd_handler v addr)" "benign (vgicr_handler e addr)"
  unfolding vgicd_handler_def vgicr_handler_def Let_def by (simp_all add: benign_infos)

subsection \<open>Ownership\<close>

text \<open>What the steps below need to know of an interrupt: the pointer is real, and it is not in a list register.\<close>

definition loose :: "vgic_env \<Rightarrow> vgic \<Rightarrow> iref \<Rightarrow> bool" where
  "loose e s r \<longleftrightarrow> (\<forall>v i. \<not> held_by e s v i r)"

lemma looseI: "vgic_inv e s \<Longrightarrow> \<not> vi_in_lr (int_at s r) \<Longrightarrow> loose e s r"
  unfolding loose_def using vgic_invD(6) by blast

lemma lr_at_upd [simp]: "lr_at e (upd_int f r s) v i = lr_at e s v i"
  by (simp add: lr_at_def)

lemma held_upd [simp]: "held_by e (upd_int f r s) v i q = held_by e s v i q" "known (upd_int f r s) k = known s k"
  by (simp_all add: held_by_def known_def)

lemma is_ref_upd [simp]: "is_ref e (upd_int f r s) q = is_ref e s q"
  by (cases q) simp_all

text \<open>An interrupt that is in no list register may change its owner and its registers.\<close>

lemma loose_upd_inv:
  assumes "vgic_inv e s" "loose e s r" "\<And>x. vi_id (f x) = vi_id x" "\<And>x. vi_phys (f x) = vi_phys x"
    "\<And>v i. g_ver e = GICV2 \<Longrightarrow> r = Priv v i \<Longrightarrow> v < v_cpu_num e \<Longrightarrow> i < GIC_CPU_PRIV \<Longrightarrow> vi_owner (f (int_at s r)) = Some v"
  shows "vgic_inv e (upd_int f r s)"
proof -
  note inv = vgic_invD [OF assms(1)]
  have "held_by e s v i q \<Longrightarrow> q \<noteq> r" for v i q using assms(2) unfolding loose_def by blast
  then show ?thesis using inv assms(3-5) unfolding vgic_inv_def by (auto simp: int_at_upd)
qed

lemma get_ownership_inv:
  assumes "vgic_inv e s" "vgic_get_ownership v r s = (b, s')"
  shows "vgic_inv e s'" "b \<Longrightarrow> vi_owner (int_at s' r) = Some v" "is_ref e s' q = is_ref e s q"
    "vi_in_lr (int_at s' q) = vi_in_lr (int_at s q)" "q \<noteq> r \<Longrightarrow> vi_owner (int_at s' q) = vi_owner (int_at s q)"
    "vg_gic s' = vg_gic s" "vg_int_num s' = vg_int_num s" "\<not> b \<Longrightarrow> s' = s"
proof -
  show "b \<Longrightarrow> vi_owner (int_at s' r) = Some v" "is_ref e s' q = is_ref e s q" "vi_in_lr (int_at s' q) = vi_in_lr (int_at s q)"
    "q \<noteq> r \<Longrightarrow> vi_owner (int_at s' q) = vi_owner (int_at s q)" "vg_gic s' = vg_gic s" "vg_int_num s' = vg_int_num s" "\<not> b \<Longrightarrow> s' = s"
    using assms(2) by (auto simp: vgic_get_ownership_def int_at_upd split: if_splits)
  show "vgic_inv e s'"
  proof (cases "vi_owner (int_at s r) = None")
    case True
    then have "loose e s r" using vgic_invD(6) [OF assms(1)] unfolding loose_def by fastforce
    then have "vgic_inv e (upd_int (\<lambda>x. x\<lparr>vi_owner := Some v\<rparr>) r s)"
      using vgic_invD(3) [OF assms(1)] True by (intro loose_upd_inv [OF assms(1)]) auto
    then show ?thesis using assms(2) True by (simp add: vgic_get_ownership_def)
  next
    case False
    then show ?thesis using assms by (auto simp: vgic_get_ownership_def split: if_splits)
  qed
qed

lemma yield_inv:
  assumes "vgic_inv e s" "is_ref e s r" "vgic_yield_ownership e v r s = Some s'"
  shows "vgic_inv e s'" "is_ref e s' q = is_ref e s q" "vi_in_lr (int_at s' q) = vi_in_lr (int_at s q)"
    "q \<noteq> r \<Longrightarrow> int_at s' q = int_at s q" "vg_gic s' = vg_gic s" "vg_int_num s' = vg_int_num s" "vg_curr_lrs s' = vg_curr_lrs s"
proof -
  let ?s = "upd_int (\<lambda>x. x\<lparr>vi_owner := None\<rparr>) r s"
  have c: "s' = s \<or> s' = ?s \<and> \<not> (g_ver e = GICV2 \<and> gic_is_priv (vi_id (int_at s r))) \<and> \<not> vi_in_lr (int_at s r)"
    using assms(3) by (auto simp: vgic_yield_ownership_def Let_def split: if_splits bind_splits)
  then show "is_ref e s' q = is_ref e s q" "vi_in_lr (int_at s' q) = vi_in_lr (int_at s q)" "q \<noteq> r \<Longrightarrow> int_at s' q = int_at s q"
    "vg_gic s' = vg_gic s" "vg_int_num s' = vg_int_num s" "vg_curr_lrs s' = vg_curr_lrs s"
    by (auto simp: int_at_upd split: if_splits)
  have "vgic_inv e ?s" if "\<not> vi_in_lr (int_at s r)" "\<not> (g_ver e = GICV2 \<and> gic_is_priv (vi_id (int_at s r)))"
    using that looseI [OF assms(1) that(1)] vgic_invD(2) [OF assms(1,2)]
    by (intro loose_upd_inv [OF assms(1)]) (auto simp: gic_is_priv_def)
  then show "vgic_inv e s'" using c assms(1) by blast
qed

subsection \<open>List registers\<close>

lemma env_okD:
  assumes "env_ok e"
  shows "v < v_cpu_num e \<Longrightarrow> w < v_cpu_num e \<Longrightarrow> v_phys e v = v_phys e w \<Longrightarrow> v = w" "v < v_cpu_num e \<Longrightarrow> v_phys e v < 2 ^ 64"
    "v_vcpu e < v_cpu_num e" "g_cpu_id e = v_phys e (v_vcpu e)" "bit (v_elrsr e lrs) i \<Longrightarrow> \<not> lr_valid e (lrs i)"
    "i < g_num_lrs e \<Longrightarrow> bit (v_eisr e lrs) i = eoi_pending (g_ver e) (lrs i)"
  using assms unfolding env_ok_def inj_on_def by blast+

lemma env_ok_lrs: "env_ok e \<Longrightarrow> i < g_num_lrs e \<Longrightarrow> i < 64 \<and> (g_ver e = GICV3 \<longrightarrow> i < 16)"
  unfolding env_ok_def by (auto split: gic_version.splits)

lemma truncate_simps [simp]:
  "g_ver (gic_env.truncate e) = g_ver e" "g_cpu_id (gic_env.truncate e) = g_cpu_id e" "g_num_lrs (gic_env.truncate e) = g_num_lrs e"
  "g_typer (gic_env.truncate e) = g_typer e" "g_read (gic_env.truncate e) = g_read e"
  by (simp_all add: gic_env.defs)

lemma cur_lrs_at: "env_ok e \<Longrightarrow> i < g_num_lrs e \<Longrightarrow> cur_lrs e s i = lr_at e s (v_vcpu e) i"
  using env_ok_lrs [of e i] env_okD(4) by (auto simp: cur_lrs_def lr_at_def)

lemma read_lr_at: "env_ok e \<Longrightarrow> read_lr e s i = (if i < g_num_lrs e then Some (lr_at e s (v_vcpu e) i) else None)"
  using env_okD(4) by (auto simp: read_lr_def gich_read_lr_def lr_at_def)

text \<open>The word a list register of 32 or 64 bits keeps.\<close>

definition lr_word :: "vgic_env \<Rightarrow> u64 \<Rightarrow> u64" where
  "lr_word e w = (if g_ver e = GICV2 then ucast (ucast w :: u32) else w)"

lemma write_lr_at:
  assumes "env_ok e" "write_lr e i w s = Some s'"
  shows "i < g_num_lrs e" "int_at s' r = int_at s r" "vg_int_num s' = vg_int_num s" "vg_curr_lrs s' = vg_curr_lrs s"
    "lr_at e s' (v_vcpu e) i = lr_word e w"
    "v < v_cpu_num e \<Longrightarrow> v \<noteq> v_vcpu e \<or> j \<noteq> i \<Longrightarrow> lr_at e s' v j = lr_at e s v j" "is_ref e s' r = is_ref e s r" "known s' k = known s k"
proof -
  note o = env_okD [OF assms(1)]
  obtain g where g: "gich_write_lr (gic_env.truncate e) i w (vg_gic s) = Some g" "s' = s\<lparr>vg_gic := g\<rparr>"
    using assms(2) by (auto simp: write_lr_def split: bind_splits)
  then show "i < g_num_lrs e" "int_at s' r = int_at s r" "vg_int_num s' = vg_int_num s" "vg_curr_lrs s' = vg_curr_lrs s" "known s' k = known s k"
    by (auto simp: gich_write_lr_def known_def split: if_splits)
  show "is_ref e s' r = is_ref e s r" using g(2) by (cases r) simp_all
  show "lr_at e s' (v_vcpu e) i = lr_word e w"
    using env_ok_lrs [OF assms(1), of i] g o(4) by (auto simp: gich_write_lr_def lr_at_def lr_word_def split: if_splits)
  show "v < v_cpu_num e \<Longrightarrow> v \<noteq> v_vcpu e \<or> j \<noteq> i \<Longrightarrow> lr_at e s' v j = lr_at e s v j"
    using g o(1) [of v "v_vcpu e"] o(3,4) by (auto simp: gich_write_lr_def lr_at_def split: if_splits)
qed

text \<open>Clearing a list register.\<close>

lemma state_0: "\<not> lr_valid e 0"
  by (simp add: lr_valid_def GICH_LR_STATE_def bit_extract_def INV_def)

lemma lr_word_0 [simp]: "lr_word e 0 = 0"
  by (simp add: lr_word_def)

lemma clear_lr_held:
  assumes "env_ok e" "write_lr e i 0 s = Some s'"
  shows "held_by e s' v j q \<Longrightarrow> held_by e s v j q \<and> (v \<noteq> v_vcpu e \<or> j \<noteq> i)"
proof -
  assume h: "held_by e s' v j q"
  have "\<not> lr_valid e (lr_at e s' (v_vcpu e) i)" using write_lr_at(5) [OF assms] state_0 by simp
  then have "v \<noteq> v_vcpu e \<or> j \<noteq> i" using h by (auto simp: held_by_def)
  then show ?thesis using h write_lr_at(6) [OF assms, of v j] by (auto simp: held_by_def)
qed

lemma clear_lr_inv:
  assumes "env_ok e" "vgic_inv e s" "write_lr e i 0 s = Some s'"
  shows "vgic_inv e s'"
proof -
  note w = write_lr_at [OF assms(1,3)] and inv = vgic_invD [OF assms(2)]
  have "known s' (GICH_LR_VID (g_ver e) (lr_at e s' v j)) \<and> vi_in_lr (int_at s' q) \<and> vi_lr (int_at s' q) = j \<and> vi_owner (int_at s' q) = Some v"
    if h: "held_by e s' v j q" for v j q
  proof -
    have h': "held_by e s v j q" "v \<noteq> v_vcpu e \<or> j \<noteq> i" using clear_lr_held [OF assms(1,3) h] by blast+
    then have "v < v_cpu_num e" by (simp add: held_by_def)
    then show ?thesis using inv(5,6) [OF h'(1)] w(2,6,8) h'(2) by simp
  qed
  then show ?thesis using inv(1-4) w(2,3,7) unfolding vgic_inv_def by simp
qed

end
