(* ===== verification/Vgic_Lrs.thy ===== *)
theory Vgic_Lrs
  imports Vgic_Inv
begin

text \<open>
  The operations on list registers keep the invariant of \<^verbatim>\<open>Vgic_Inv\<close>: removing an interrupt from its register, writing one to a
  register that is free, spilling, adding and routing.
\<close>

subsection \<open>Removing an interrupt\<close>

text \<open>What changes in a list register of the VM: nothing, or it is cleared.\<close>

definition lr_shrinks :: "vgic_env \<Rightarrow> vgic \<Rightarrow> vgic \<Rightarrow> bool" where
  "lr_shrinks e s s' \<longleftrightarrow> (\<forall>v < v_cpu_num e. \<forall>i. lr_at e s' v i = lr_at e s v i \<or> lr_at e s' v i = 0)"

lemma lr_shrinks_refl: "lr_shrinks e s s"
  by (simp add: lr_shrinks_def)

lemma lr_shrinks_held: "lr_shrinks e s s' \<Longrightarrow> held_by e s' v i q \<Longrightarrow> held_by e s v i q"
  using state_0 [of e] unfolding lr_shrinks_def held_by_def by metis

lemma ref_id_ref [simp]: "ref_id (ref v i) = i"
  by (auto simp: ref_def)

lemma held_get_lr:
  assumes "env_ok e" "vgic_inv e s" "is_ref e s r" "held_by e s (v_vcpu e) i r"
  shows "gich_get_lr e s (int_at s r) = Some (Some (i, lr_at e s (v_vcpu e) i))"
proof -
  note inv = vgic_invD [OF assms(2)]
  have r: "vi_in_lr (int_at s r)" "vi_lr (int_at s r) = i" "vi_owner (int_at s r) = Some (v_vcpu e)" using inv(6) [OF assms(4)] by auto
  have "vi_id (int_at s r) = GICH_LR_VID (g_ver e) (lr_at e s (v_vcpu e) i)" "i < g_num_lrs e" "lr_valid e (lr_at e s (v_vcpu e) i)"
    using inv(2) [OF assms(3)] assms(4) by (auto simp: held_by_def)
  then show ?thesis using r env_okD(4) [OF assms(1)] read_lr_at [OF assms(1)] by (simp add: gich_get_lr_def lr_valid_def)
qed

text \<open>The body of \<^verbatim>\<open>vgic_remove_lr\<close> after the list register is read: the interrupt takes over what it says.\<close>

lemma remove_lr_cases:
  assumes "env_ok e" "vgic_remove_lr e (v_vcpu e) r s = Some (b, s')" "vgic_owns (v_vcpu e) (int_at s r)" "vi_in_lr (int_at s r)"
  obtains s1 g where "gich_get_lr e s (int_at s r) = Some g"
    "case g of Some (i, w) \<Rightarrow> write_lr e i 0 s = Some s1 | None \<Rightarrow> s1 = s"
    "same_keys (upd_int (\<lambda>x. x\<lparr>vi_in_lr := False\<rparr>) r s1) s'"
proof -
  let ?s = "\<lambda>s. upd_int (\<lambda>x. x\<lparr>vi_in_lr := False\<rparr>) r s"
  obtain g where g: "gich_get_lr e s (int_at s r) = Some g"
    using assms(2-4) by (auto simp: vgic_remove_lr_def Let_def split: bind_splits)
  have k: "same_keys t (upd_int f q u)" if "same_keys t u" "\<And>x. key (f x) = key x" "\<And>x. vi_phys (f x) = vi_phys x" for t u f q
    using that same_keys_trans keys_upd_int by blast
  have n: "same_keys t (set_npie e u)" if "same_keys t u" for t u using that same_keys_trans keys_npie(1) by blast
  obtain s1 where s1: "(case g of Some (i, w) \<Rightarrow> write_lr e i 0 s | None \<Rightarrow> Some s) = Some s1"
    using assms(2-4) g by (auto simp: vgic_remove_lr_def Let_def split: bind_splits)
  have "same_keys (?s s1) s'"
    using assms(2-4) g s1 unfolding vgic_remove_lr_def Let_def
    by (auto split: if_splits intro!: k n same_keys_refl simp: key_def)
  then show ?thesis using that [OF g, of s1] s1 by (auto split: option.splits)
qed

lemma clear_lr_shrinks: "env_ok e \<Longrightarrow> write_lr e i 0 s = Some s' \<Longrightarrow> lr_shrinks e s s'"
  using write_lr_at(5,6) [of e i 0 s s'] unfolding lr_shrinks_def by (metis lr_word_0)

lemma same_keys_shrinks: "same_keys s s' \<Longrightarrow> lr_shrinks e t s' = lr_shrinks e t s"
  by (simp add: lr_shrinks_def same_keysD(8))

lemma remove_lr_inv:
  assumes e: "env_ok e" and inv: "vgic_inv e s" and r: "is_ref e s r" and f: "vgic_remove_lr e (v_vcpu e) r s = Some (b, s')"
  shows "vgic_inv e s'" "vi_owner (int_at s' q) = vi_owner (int_at s q)" "q \<noteq> r \<Longrightarrow> vi_in_lr (int_at s' q) = vi_in_lr (int_at s q)"
    "is_ref e s' q = is_ref e s q" "lr_shrinks e s s'" "vi_owner (int_at s r) = Some (v_vcpu e) \<Longrightarrow> \<not> vi_in_lr (int_at s' r)"
    "vg_int_num s' = vg_int_num s" "q \<noteq> r \<Longrightarrow> key (int_at s' q) = key (int_at s q)"
proof -
  let ?out = "\<lambda>s'. vgic_inv e s' \<and> (\<forall>q. vi_owner (int_at s' q) = vi_owner (int_at s q) \<and>
      (q \<noteq> r \<longrightarrow> key (int_at s' q) = key (int_at s q)) \<and> is_ref e s' q = is_ref e s q) \<and> lr_shrinks e s s' \<and>
      (vi_owner (int_at s r) = Some (v_vcpu e) \<longrightarrow> \<not> vi_in_lr (int_at s' r)) \<and> vg_int_num s' = vg_int_num s"
  have "?out s'"
  proof (cases "vgic_owns (v_vcpu e) (int_at s r) \<and> vi_in_lr (int_at s r)")
    case False
    then have "s' = s" using f by (auto simp: vgic_remove_lr_def Let_def)
    then show ?thesis using False inv by (auto simp: vgic_owns_def lr_shrinks_refl)
  next
    case True
    then obtain s1 g where g: "gich_get_lr e s (int_at s r) = Some g"
      "case g of Some (i, w) \<Rightarrow> write_lr e i 0 s = Some s1 | None \<Rightarrow> s1 = s"
      "same_keys (upd_int (\<lambda>x. x\<lparr>vi_in_lr := False\<rparr>) r s1) s'" using remove_lr_cases [OF e f] by blast
    have s1: "vgic_inv e s1" "int_at s1 = int_at s" "is_ref e s1 = is_ref e s" "lr_shrinks e s s1" "vg_int_num s1 = vg_int_num s"
      using g(2) inv write_lr_at(2,3,7) [OF e, of _ 0 s s1] clear_lr_inv [OF e inv] clear_lr_shrinks [OF e] lr_shrinks_refl
      by (auto split: option.splits)
    have "loose e s1 r" unfolding loose_def
    proof (intro allI notI)
      fix w j assume h1: "held_by e s1 w j r"
      then have h: "held_by e s w j r" using lr_shrinks_held s1(4) by blast
      then have w: "w = v_vcpu e" using vgic_invD(6) [OF inv] True by (auto simp: vgic_owns_def)
      then have "write_lr e j 0 s = Some s1" using g held_get_lr [OF e inv r] h by auto
      then show False using clear_lr_held [OF e _ h1] w by blast
    qed
    then have "vgic_inv e (upd_int (\<lambda>x. x\<lparr>vi_in_lr := False\<rparr>) r s1)"
      using vgic_invD(3) [OF s1(1)] by (intro loose_upd_inv [OF s1(1)]) auto
    then have "vgic_inv e s'" using same_keys_inv [OF g(3)] by blast
    then show ?thesis using s1 same_keysD [OF g(3)] same_keys_shrinks [OF g(3)]
      by (auto simp: int_at_upd lr_shrinks_def key_def split: if_splits)
  qed
  then show "vgic_inv e s'" "vi_owner (int_at s' q) = vi_owner (int_at s q)" "q \<noteq> r \<Longrightarrow> vi_in_lr (int_at s' q) = vi_in_lr (int_at s q)"
    "is_ref e s' q = is_ref e s q" "lr_shrinks e s s'" "vi_owner (int_at s r) = Some (v_vcpu e) \<Longrightarrow> \<not> vi_in_lr (int_at s' r)"
    "vg_int_num s' = vg_int_num s" "q \<noteq> r \<Longrightarrow> key (int_at s' q) = key (int_at s q)" by (auto simp: key_def)
qed

subsection \<open>The value of a list register\<close>

lemma take_bit_lr_field: "n \<le> off \<Longrightarrow> take_bit n (lr_field off len x) = 0"
  by (auto simp: lr_field_def bit_simps intro!: bit_eqI)

lemma take_bit_push: "n \<le> k \<Longrightarrow> take_bit n (push_bit k x :: u64) = 0"
  by (auto simp: bit_simps intro!: bit_eqI)

lemma take_bit_id: "take_bit n (lr_field 0 n x) = take_bit n x" if "0 < n"
  using that by (simp add: lr_field_def BIT_MASK_eq take_bit_eq_mask and.assoc)

text \<open>No field but the first reaches the bits of the number.\<close>

lemma VID_LEN_le:
  "LR_VID_LEN v \<le> LR_STATE_OFF v" "LR_VID_LEN v \<le> LR_PID_OFF v" "LR_VID_LEN v \<le> 48" "LR_VID_LEN GICV2 \<le> 23" "LR_VID_LEN GICV2 \<le> 10"
  "0 < LR_VID_LEN v"
  by (cases v; simp add: LR_defs)+

lemma low_const:
  "take_bit (LR_VID_LEN v) (LR_HW_BIT v) = 0" "take_bit (LR_VID_LEN v) (LR_EOI_BIT v) = 0" "take_bit (LR_VID_LEN v) LR_GRP_BIT = 0"
  unfolding LR_HW_BIT_def LR_EOI_BIT_def LR_GRP_BIT_def LR_VID_LEN_def by (cases v; simp only: gic_version.case; rule take_bit_push; simp)+

lemma low_state: "take_bit (LR_VID_LEN v) (2 ^ LR_STATE_OFF v) = (0 :: u64)"
  using take_bit_push [OF VID_LEN_le(1), of v 1] by (simp add: push_bit_eq_mult)

lemmas low_bits = low_const low_state take_bit_or VID_LEN_le take_bit_push take_bit_lr_field take_bit_id

lemma lr_value_low: "take_bit (LR_VID_LEN (g_ver e)) (fst (lr_value e st x)) = take_bit (LR_VID_LEN (g_ver e)) (of_nat (vi_id x))"
  unfolding lr_value_def Let_def
  by (cases "g_ver e"; cases "vgic_int_is_hw x"; cases "vi_id x < GIC_MAX_SGIS"; simp add: low_bits split: option.split)

lemma VID_take_bit: "GICH_LR_VID v w = unat (take_bit (LR_VID_LEN v) w)"
  by (cases v) (simp_all add: GICH_LR_VID_def bit_extract_def BIT_MASK_eq LR_defs take_bit_eq_mask)

lemma lr_value_vid:
  assumes "vi_id x < 1024"
  shows "GICH_LR_VID (g_ver e) (lr_word e (fst (lr_value e st x))) = vi_id x"
proof -
  have "take_bit (LR_VID_LEN (g_ver e)) (lr_word e w) = take_bit (LR_VID_LEN (g_ver e)) w" for w
    by (auto simp: lr_word_def LR_defs bit_simps intro!: bit_eqI split: gic_version.splits)
  moreover have "unat (take_bit (LR_VID_LEN (g_ver e)) (of_nat (vi_id x) :: u64)) = vi_id x"
    using assms by (cases "g_ver e") (simp_all add: LR_defs unsigned_take_bit_eq unat_of_nat take_bit_nat_eq_self)
  ultimately show ?thesis by (simp add: VID_take_bit lr_value_low)
qed

text \<open>The register of a software generated interrupt asks for the end of the interrupt only while it is valid.\<close>

lemma state_INV: "GICH_LR_STATE v w = INV \<longleftrightarrow> \<not> bit w (LR_STATE_OFF v) \<and> \<not> bit w (LR_STATE_OFF v + 1)"
proof -
  have "GICH_LR_STATE v w = INV \<longleftrightarrow> (\<forall>i < 2. \<not> bit w (LR_STATE_OFF v + i))"
    by (auto simp: GICH_LR_STATE_def INV_def bit_extract_def BIT_MASK_eq bit_eq_iff bit_simps) (drule_tac x=i in spec, simp)
  then show ?thesis unfolding numeral_2_eq_2 All_less_Suc by (auto simp: Suc_eq_plus1)
qed

lemma bit_lr_field: "0 < len \<Longrightarrow> bit (lr_field off len y) i \<longleftrightarrow> i < 64 \<and> off \<le> i \<and> i < off + len \<and> bit y (i - off)"
  by (auto simp: lr_field_def bm_simps bit_simps)

lemma bit_lr_const:
  "bit (LR_EOI_BIT GICV2) i \<longleftrightarrow> i = 19" "bit (LR_EOI_BIT GICV3) i \<longleftrightarrow> i = 41" "bit LR_GRP_BIT i \<longleftrightarrow> i = 60"
  unfolding LR_EOI_BIT_def LR_GRP_BIT_def gic_version.case bit_push_bit_iff bit_1_iff by auto

lemma eoi_pendingD:
  "eoi_pending GICV2 w \<Longrightarrow> bit w 19 \<and> \<not> bit w 28 \<and> \<not> bit w 29" "eoi_pending GICV3 w \<Longrightarrow> bit w 41"
  using state_INV [of GICV2 w] unfolding eoi_pending_def bit_eq_iff by (auto simp: LR_STATE_OFF_def bit_and_iff bit_lr_const)

lemma sgi_sender_None: "sgi_sender p = None \<Longrightarrow> p = 0"
proof -
  assume "sgi_sender p = None"
  then have "\<not> bit p i" if "i < 8" for i
    using that by (auto simp: sgi_sender_def find_None_iff push_bit_eq_mult and_exp_eq_0_iff_not_bit)
  then show "p = 0" by (intro bit_eqI) (auto simp: bit_simps)
qed

lemma sgi_not_eoi:
  assumes "vi_id x < GIC_MAX_SGIS"
  shows "\<not> eoi_pending (g_ver e) (lr_word e (fst (lr_value e st x)))"
proof (cases "g_ver e")
  case GICV3
  have "\<not> bit (fst (lr_value e st x)) 41" using assms GICV3
    by (simp add: lr_value_def Let_def bit_lr_field bit_or_iff bit_lr_const LR_VID_LEN_def LR_STATE_OFF_def vgic_int_is_hw_def gic_is_priv_def GIC_defs)
  then show ?thesis using GICV3 eoi_pendingD(2) by (auto simp: lr_word_def)
next
  case GICV2
  have "bit w 28 \<or> bit w 29 \<or> \<not> bit w 19" if w: "w = fst (lr_value e st x)" for w
  proof (cases "st AND ACT = 0 \<and> sgi_sender (vi_sgi_pend x) = None")
    case True
    then show ?thesis using w assms GICV2 sgi_sender_None
      by (simp add: lr_value_def Let_def bit_lr_field bit_or_iff LR_VID_LEN_def vgic_int_is_hw_def)
  next
    case False
    have "bit (push_bit (LR_STATE_OFF GICV2) 2 :: u64) 29" "bit (2 ^ LR_STATE_OFF GICV2 :: u64) 28"
      unfolding bit_push_bit_iff bit_exp_iff by (simp_all add: LR_STATE_OFF_def bit_simps)
    then show ?thesis using False w assms GICV2
      by (auto simp: lr_value_def Let_def bit_or_iff vgic_int_is_hw_def split: if_splits)
  qed
  then show ?thesis using GICV2 eoi_pendingD(1) by (fastforce simp: lr_word_def bit_simps)
qed

subsection \<open>Writing a list register\<close>

text \<open>The pointers that a list register of the running CPU can stand for.\<close>

definition own_ref :: "vgic_env \<Rightarrow> vgic \<Rightarrow> iref \<Rightarrow> bool" where
  "own_ref e s r \<longleftrightarrow> is_ref e s r \<and> r = ref (v_vcpu e) (ref_id r)"

lemma get_int_ref:
  "vgic_get_int e s (v_vcpu e) i (v_vcpu e) = Some (Some r) \<Longrightarrow> env_ok e \<Longrightarrow> own_ref e s r \<and> r = ref (v_vcpu e) i"
  using env_okD(3) by (auto simp: vgic_get_int_def own_ref_def ref_def split: if_splits)

lemma get_int_known: "known s i \<Longrightarrow> env_ok e \<Longrightarrow> vgic_get_int e s (v_vcpu e) i (v_vcpu e) = Some (Some (ref (v_vcpu e) i))"
  by (auto simp: vgic_get_int_def ref_def known_def)

lemma release_prev_inv:
  assumes e: "env_ok e" and inv: "vgic_inv e s" and r: "is_ref e s r"
    and free: "\<not> lr_valid e (lr_at e s (v_vcpu e) i)" and f: "release_prev e (v_vcpu e) (vi_id (int_at s r)) i s = Some s'"
  shows "vgic_inv e s'" "int_at s' r = int_at s r" "vg_gic s' = vg_gic s" "is_ref e s' q = is_ref e s q" "vg_int_num s' = vg_int_num s"
    "\<not> (vi_in_lr (int_at s q) \<and> vi_lr (int_at s q) = i) \<Longrightarrow> int_at s' q = int_at s q"
proof -
  let ?v = "v_vcpu e" and ?f = "\<lambda>x. x\<lparr>vi_in_lr := False\<rparr> :: vgic_int"
  consider "s' = s" | q where "vgic_get_int e s ?v (vg_curr_lrs s ?v i) ?v = Some (Some q)" "vg_curr_lrs s ?v i \<noteq> vi_id (int_at s r)"
    "vi_owner (int_at s q) = Some ?v" "vi_in_lr (int_at s q)" "vi_lr (int_at s q) = i" "vgic_yield_ownership e ?v q (upd_int ?f q s) = Some s'"
    using f by (auto simp: release_prev_def vgic_owns_def Let_def split: if_splits bind_splits option.splits)
  then have "vgic_inv e s' \<and> int_at s' r = int_at s r \<and> vg_gic s' = vg_gic s \<and> is_ref e s' q = is_ref e s q \<and> vg_int_num s' = vg_int_num s \<and>
      (\<not> (vi_in_lr (int_at s q) \<and> vi_lr (int_at s q) = i) \<longrightarrow> int_at s' q = int_at s q)" for q
  proof cases
    case 1
    then show ?thesis
      using inv by simp
  next
    case (2 p)
    have p: "is_ref e s p" "p = ref ?v (vg_curr_lrs s ?v i)" using get_int_ref [OF 2(1) e] by (auto simp: own_ref_def)
    have "\<not> held_by e s w j p" for w j
      using vgic_invD(6) [OF inv, of w j p] 2(3,5) free by (auto simp: held_by_def)
    then have "vgic_inv e (upd_int ?f p s)"
      using vgic_invD(3) [OF inv] by (intro loose_upd_inv [OF inv]) (auto simp: loose_def)
    moreover have "p \<noteq> r" using p(2) 2(2) vgic_invD(2) [OF inv r] by auto
    ultimately show ?thesis
      using yield_inv [OF _ _ 2(6)] p(1) 2(4,5) by (cases "q = p") (auto simp: int_at_upd)
  qed
  then show "vgic_inv e s'" "int_at s' r = int_at s r" "vg_gic s' = vg_gic s" "is_ref e s' q = is_ref e s q" "vg_int_num s' = vg_int_num s"
    "\<not> (vi_in_lr (int_at s q) \<and> vi_lr (int_at s q) = i) \<Longrightarrow> int_at s' q = int_at s q" by blast+
qed

text \<open>The effect on the registers: one of them holds \<open>r\<close>, the others are kept or cleared.\<close>

definition lr_adds :: "vgic_env \<Rightarrow> iref \<Rightarrow> vgic \<Rightarrow> vgic \<Rightarrow> bool" where
  "lr_adds e r s s' \<longleftrightarrow>
     (\<forall>v i. v < v_cpu_num e \<longrightarrow> lr_at e s' v i = lr_at e s v i \<or> lr_at e s' v i = 0 \<or>
        v = v_vcpu e \<and> ref v (GICH_LR_VID (g_ver e) (lr_at e s' v i)) = r \<and>
        (ref_id r < GIC_MAX_SGIS \<longrightarrow> \<not> eoi_pending (g_ver e) (lr_at e s' v i)))"

lemma write_lr_inv:
  assumes e: "env_ok e" and inv: "vgic_inv e s" and r: "own_ref e s r"
    and own: "vi_owner (int_at s r) = Some (v_vcpu e)" "\<not> vi_in_lr (int_at s r)"
    and free: "\<not> lr_valid e (lr_at e s (v_vcpu e) i)" and f: "vgic_write_lr e (v_vcpu e) r i s = Some s'"
  shows "vgic_inv e s'" "is_ref e s' q = is_ref e s q" "vg_int_num s' = vg_int_num s" "lr_adds e r s s'"
    "q \<noteq> r \<Longrightarrow> \<not> (vi_in_lr (int_at s q) \<and> vi_lr (int_at s q) = i) \<Longrightarrow> int_at s' q = int_at s q"
    "ref_id r < GIC_MAX_SGIS \<Longrightarrow> \<not> eoi_pending (g_ver e) (lr_at e s' (v_vcpu e) i)"
proof -
  let ?v = "v_vcpu e"
  have isr: "is_ref e s r" and rr: "r = ref ?v (ref_id r)" using r by (auto simp: own_ref_def)
  obtain s1 st where s1: "release_prev e ?v (vi_id (int_at s r)) i s = Some s1"
    and st: "vgic_get_state e s1 (int_at s1 r) = Some st"
    using f by (auto simp: vgic_write_lr_def split: bind_splits)
  note p = release_prev_inv [OF e inv isr free s1]
  define lr where "lr = lr_value e st (int_at s1 r)"
  define s2 where "s2 = upd_int (\<lambda>x. x\<lparr>vi_sgi_pend := snd lr, vi_state := 0, vi_in_lr := True, vi_lr := i\<rparr>) r s1"
  obtain c where w: "write_lr e i (fst lr) (s2\<lparr>vg_curr_lrs := c\<rparr>) = Some s'"
    using f s1 st by (auto simp: vgic_write_lr_def Let_def lr_def s2_def split: prod.splits)
  have lr_at2: "lr_at e (s2\<lparr>vg_curr_lrs := c\<rparr>) v j = lr_at e s v j" for v j using p(3) by (simp add: lr_at_def s2_def)
  note w = write_lr_at [OF e w]
  have id: "vi_id (int_at s1 r) = ref_id r" "ref_id r < 1024"
    using vgic_invD(1,2) [OF p(1)] isr p(4,5) by (auto, cases r) (auto simp: GIC_defs)
  have vid: "GICH_LR_VID (g_ver e) (lr_at e s' ?v i) = ref_id r" using w(5) lr_value_vid id by (simp add: lr_def)
  have int: "int_at s' q = (if q = r then (int_at s1 r)\<lparr>vi_sgi_pend := snd lr, vi_state := 0, vi_in_lr := True, vi_lr := i\<rparr> else int_at s1 q)" for q
    using w(2) by (simp add: s2_def int_at_upd)
  have isr': "is_ref e s' q = is_ref e s q" "vg_int_num s' = vg_int_num s" for q using w(3,7) p(4,5) by (cases q; simp add: s2_def)+
  have loose: "\<not> held_by e s1 v j r" for v j using looseI [OF p(1)] own(2) p(2) by (simp add: loose_def)
  have "known s' (GICH_LR_VID (g_ver e) (lr_at e s' v j)) \<and> vi_in_lr (int_at s' q) \<and> vi_lr (int_at s' q) = j \<and> vi_owner (int_at s' q) = Some v"
    if h: "held_by e s' v j q" for v j q
  proof (cases "v = ?v \<and> j = i")
    case True
    then have "q = r" using h vid rr by (simp add: held_by_def)
    moreover have "known s' (ref_id r)" using isr isr'(2) by (cases r) (auto simp: known_def)
    ultimately show ?thesis using True vid int own(1) p(2) by simp
  next
    case False
    then have "lr_at e s' v j = lr_at e s1 v j" using w(6) [of v j] h lr_at2 p(3) by (auto simp: held_by_def lr_at_def)
    then have "held_by e s1 v j q" using h by (simp add: held_by_def)
    then show ?thesis using loose vgic_invD(5,6) [OF p(1)] int isr'(2) p(5) \<open>lr_at e s' v j = _\<close> by (auto simp: known_def)
  qed
  then show "vgic_inv e s'" using vgic_invD(1-4) [OF p(1)] isr' p(4,5) int unfolding vgic_inv_def by auto
  show "is_ref e s' q = is_ref e s q" "vg_int_num s' = vg_int_num s" using isr' by auto
  show eoi: "\<not> eoi_pending (g_ver e) (lr_at e s' ?v i)" if "ref_id r < GIC_MAX_SGIS" using sgi_not_eoi [of "int_at s1 r"] that id w(5) lr_def by simp
  then show "lr_adds e r s s'" unfolding lr_adds_def using w(6) lr_at2 vid rr by metis
  show "q \<noteq> r \<Longrightarrow> \<not> (vi_in_lr (int_at s q) \<and> vi_lr (int_at s q) = i) \<Longrightarrow> int_at s' q = int_at s q" using int p(6) by simp
qed

subsection \<open>Spilling and adding\<close>

lemma spill_step_ind:
  assumes "\<And>i. sp_pend_ind z = Some i \<or> sp_act_ind z = Some i \<Longrightarrow> P i" "GICH_LR_STATE v lr \<noteq> INV \<Longrightarrow> P k"
    "sp_pend_ind (spill_step v k lr z) = Some i \<or> sp_act_ind (spill_step v k lr z) = Some i"
  shows "P i"
  using assms by (cases "GICH_LR_STATE v lr = INV") (auto simp: spill_step_def Let_def INV_def split: if_splits)

lemma spill_choice_valid:
  assumes e: "env_ok e" and c: "spill_choice e s = Some i"
  shows "i < g_num_lrs e \<and> lr_valid e (lr_at e s (v_vcpu e) i)"
proof -
  let ?f = "\<lambda>i z. spill_step (g_ver e) i (case read_lr e s i of Some w \<Rightarrow> w | None \<Rightarrow> 0) z"
  let ?P = "\<lambda>i. i < g_num_lrs e \<and> lr_valid e (lr_at e s (v_vcpu e) i)"
  have step: "?P i" if "\<And>i. sp_pend_ind z = Some i \<or> sp_act_ind z = Some i \<Longrightarrow> ?P i" "k < g_num_lrs e"
    "sp_pend_ind (?f k z) = Some i \<or> sp_act_ind (?f k z) = Some i" for k z i
    using spill_step_ind [of z ?P, OF that(1) _ that(3)] that(2) read_lr_at [OF e] by (simp add: lr_valid_def)
  have "?P i" if "\<And>i. sp_pend_ind z = Some i \<or> sp_act_ind z = Some i \<Longrightarrow> ?P i" "set ks \<subseteq> {..<g_num_lrs e}"
    "sp_pend_ind (fold ?f ks z) = Some i \<or> sp_act_ind (fold ?f ks z) = Some i" for ks z i
    using that
  proof (induction ks arbitrary: z)
    case (Cons k ks)
    have k: "k < g_num_lrs e" using Cons.prems(2) by simp
    show ?case by (rule Cons.IH [of "?f k z"]) (use step [OF Cons.prems(1) k] Cons.prems in auto)
  qed simp
  note * = this
  let ?z = "\<lparr>sp_min_pend = 0, sp_min_act = 0, sp_pend_found = 0, sp_act_found = 0, sp_pend_ind = None, sp_act_ind = None\<rparr>"
  have "sp_pend_ind (fold ?f [0..<g_num_lrs e] ?z) = Some i \<or> sp_act_ind (fold ?f [0..<g_num_lrs e] ?z) = Some i"
    using c unfolding spill_choice_def Let_def by presburger
  with * [of ?z "[0..<g_num_lrs e]" i] show ?thesis by (simp add: lessThan_atLeast0)
qed

lemma spill_lr_inv:
  assumes e: "env_ok e" and inv: "vgic_inv e s" and i: "i < g_num_lrs e" "lr_valid e (lr_at e s (v_vcpu e) i)"
    and f: "spill_lr e (v_vcpu e) i s = Some s'"
  shows "vgic_inv e s'" "\<not> lr_valid e (lr_at e s' (v_vcpu e) i)" "is_ref e s' q = is_ref e s q" "vg_int_num s' = vg_int_num s" "lr_shrinks e s s'"
    "\<not> vi_in_lr (int_at s r) \<Longrightarrow> vi_owner (int_at s' r) = vi_owner (int_at s r) \<and> \<not> vi_in_lr (int_at s' r)"
    "loose e s q \<Longrightarrow> key (int_at s' q) = key (int_at s q)"
proof -
  let ?v = "v_vcpu e"
  define p where "p = ref ?v (GICH_LR_VID (g_ver e) (lr_at e s ?v i))"
  have h: "held_by e s ?v i p" using i env_okD(3) [OF e] by (simp add: held_by_def p_def)
  have g: "vgic_get_int e s ?v (GICH_LR_VID (g_ver e) (lr_at e s ?v i)) ?v = Some (Some p)"
    using get_int_known [OF vgic_invD(5) [OF inv h] e] by (simp add: p_def)
  obtain b s1 where s1: "vgic_remove_lr e ?v p s = Some (b, s1)" "vgic_yield_ownership e ?v p s1 = Some s'"
    using f g i(1) read_lr_at [OF e] by (auto simp: spill_lr_def split: bind_splits)
  have isr: "is_ref e s p" using get_int_ref [OF g e] unfolding own_ref_def by blast
  note rm = remove_lr_inv [OF e inv isr s1(1)]
  note y = yield_inv [OF rm(1) _ s1(2), unfolded rm(4), OF isr]
  have o: "vi_in_lr (int_at s p)" "vi_owner (int_at s p) = Some ?v" using vgic_invD(6) [OF inv h] by auto
  have lr: "lr_at e s' v j = lr_at e s1 v j" for v j using y(5) by (simp add: lr_at_def)
  show "vgic_inv e s'" "is_ref e s' q = is_ref e s q" "vg_int_num s' = vg_int_num s" using y(1,2,6) rm(4,7) by auto
  show "lr_shrinks e s s'" using rm(5) lr by (simp add: lr_shrinks_def)
  have "\<not> held_by e s1 ?v i p" using rm(6) [OF o(2)] vgic_invD(6) [OF rm(1)] by blast
  moreover have "lr_at e s1 ?v i = lr_at e s ?v i \<or> lr_at e s1 ?v i = 0" using rm(5) env_okD(3) [OF e] by (simp add: lr_shrinks_def)
  ultimately show "\<not> lr_valid e (lr_at e s' ?v i)" using h lr state_0 by (metis held_by_def)
  show "\<not> vi_in_lr (int_at s r) \<Longrightarrow> vi_owner (int_at s' r) = vi_owner (int_at s r) \<and> \<not> vi_in_lr (int_at s' r)"
    using o(1) y(4) [of r] rm(2,3) [of r] by (cases "r = p") auto
  show "loose e s q \<Longrightarrow> key (int_at s' q) = key (int_at s q)" using h y(4) [of q] rm(8) [of q] by (cases "q = p") (auto simp: loose_def)
qed

lemma free_lr_invalid: "env_ok e \<Longrightarrow> free_lr e s = Some i \<Longrightarrow> i < g_num_lrs e \<and> \<not> lr_valid e (lr_at e s (v_vcpu e) i)"
  using cur_lrs_at [of e i s] env_okD(5) [of e "cur_lrs e s" i] by (auto simp: free_lr_def find_Some_iff bit_get_iff)

lemma lr_adds_shrinks: "lr_shrinks e s t \<Longrightarrow> lr_adds e r t s' \<Longrightarrow> lr_adds e r s s'"
  unfolding lr_shrinks_def lr_adds_def by metis

lemma lr_adds_refl: "lr_adds e r s s"
  by (simp add: lr_adds_def)

lemma same_keys_adds: "same_keys s s' \<Longrightarrow> lr_adds e r t s' = lr_adds e r t s"
  by (simp add: lr_adds_def same_keysD(8))

text \<open>An interrupt that is in no register keeps its record while the end of its last register is pending.\<close>

definition eoi_frame :: "vgic_env \<Rightarrow> iref \<Rightarrow> vgic \<Rightarrow> vgic \<Rightarrow> bool" where
  "eoi_frame e r s s' \<longleftrightarrow>
     (\<forall>q. q \<noteq> r \<and> loose e s q \<and> ref_id r < GIC_MAX_SGIS \<and> eoi_pending (g_ver e) (lr_at e s' (v_vcpu e) (vi_lr (int_at s q))) \<longrightarrow>
        key (int_at s' q) = key (int_at s q))"

lemma add_lr_inv:
  assumes e: "env_ok e" and inv: "vgic_inv e s" and r: "own_ref e s r" and own: "vi_owner (int_at s r) = Some (v_vcpu e)"
    and f: "vgic_add_lr e (v_vcpu e) r s = Some (b, s')"
  shows "vgic_inv e s' \<and> is_ref e s' = is_ref e s \<and> vg_int_num s' = vg_int_num s \<and> lr_adds e r s s' \<and> eoi_frame e r s s'"
proof -
  let ?v = "v_vcpu e"
  let ?out = "\<lambda>s'. vgic_inv e s' \<and> is_ref e s' = is_ref e s \<and> vg_int_num s' = vg_int_num s \<and> lr_adds e r s s' \<and> eoi_frame e r s s'"
  have put: "?out s'" if t: "vgic_inv e t" "is_ref e t = is_ref e s" "vg_int_num t = vg_int_num s" "lr_shrinks e s t"
    "vi_owner (int_at t r) = Some ?v" "\<not> vi_in_lr (int_at t r)" "\<not> lr_valid e (lr_at e t ?v i)" "vgic_write_lr e ?v r i t = Some s'" "\<And>q. loose e s q \<Longrightarrow> key (int_at t q) = key (int_at s q)" for t i s'
  proof -
    have rt: "own_ref e t r" using r t(2) by (simp add: own_ref_def)
    note w = write_lr_inv [OF e t(1) rt t(5-8)]
    have "eoi_frame e r s s'" unfolding eoi_frame_def using w(5,6) t(9) by (auto simp: key_def) metis+
    then show ?thesis using w(1-4) t(2,3) lr_adds_shrinks [OF t(4)] by auto
  qed
  have keys: "same_keys s s' \<Longrightarrow> ?out s'" for s'
    using same_keys_inv [OF _ inv] same_keysD(6,10) [of s s'] same_keys_adds [of s s'] lr_adds_refl
    by (auto simp: eoi_frame_def same_keys_def)
  consider "s' = s" | i where "\<not> vi_in_lr (int_at s r)" "free_lr e s = Some i" "vgic_write_lr e ?v r i s = Some s'"
    | i t where "\<not> vi_in_lr (int_at s r)" "spill_choice e s = Some i" "spill_lr e ?v i s = Some t" "vgic_write_lr e ?v r i t = Some s'"
    | "s' = set_npie e s"
    using f by (auto simp: vgic_add_lr_def Let_def split: if_splits bind_splits option.splits)
  then show ?thesis
  proof cases
    case 1
    show ?thesis unfolding 1 by (rule keys [OF same_keys_refl])
  next
    case 4
    show ?thesis unfolding 4 by (rule keys [OF keys_npie(1)])
  next
    case (2 i)
    then show ?thesis using put [OF inv] own free_lr_invalid [OF e] lr_shrinks_refl by blast
  next
    case (3 i t)
    note c = spill_choice_valid [OF e 3(2)]
    note sp = spill_lr_inv [OF e inv conjunct1 [OF c] conjunct2 [OF c] 3(3)]
    have "is_ref e t = is_ref e s" using sp(3) by blast
    then show ?thesis using put [OF sp(1) _ sp(4,5) _ _ sp(2) 3(4) sp(7)] sp(6) [OF 3(1)] own by simp
  qed
qed

end
