(* ===== verification/Vgic_Steps.thy ===== *)
theory Vgic_Steps
  imports Vgic_Lrs
begin

text \<open>
  The entry points of the virtual interrupt controller keep the invariant of \<^verbatim>\<open>Vgic_Inv\<close>: accesses of the guest to the
  emulated registers, injection, messages between CPUs and the maintenance interrupt; and so does every interleaving of them on the CPUs of a VM.
\<close>

subsection \<open>Routing and register fields\<close>

lemma bind_SomeE: "Option.bind m f = Some y \<Longrightarrow> (\<And>x. m = Some x \<Longrightarrow> f x = Some y \<Longrightarrow> P) \<Longrightarrow> P"
  by (cases m) simp_all

text \<open>What every operation keeps.\<close>

definition keeps :: "vgic_env \<Rightarrow> vgic \<Rightarrow> vgic \<Rightarrow> bool" where
  "keeps e s s' \<longleftrightarrow> vgic_inv e s' \<and> is_ref e s' = is_ref e s \<and> vg_int_num s' = vg_int_num s"

lemma keeps_inv: "keeps e s s' \<Longrightarrow> vgic_inv e s'"
  by (simp add: keeps_def)

lemma keeps_refl: "vgic_inv e s \<Longrightarrow> keeps e s s"
  by (simp add: keeps_def)

lemma keeps_trans: "keeps e s t \<Longrightarrow> keeps e t u \<Longrightarrow> keeps e s u"
  by (simp add: keeps_def)

lemma keeps_keys: "vgic_inv e s \<Longrightarrow> same_keys s s' \<Longrightarrow> keeps e s s'"
  using same_keys_inv same_keysD(6,10) unfolding keeps_def by blast

lemma keeps_yield: "vgic_inv e s \<Longrightarrow> is_ref e s r \<Longrightarrow> vgic_yield_ownership e v r s = Some s' \<Longrightarrow> keeps e s s'"
  using yield_inv(1,2,6) unfolding keeps_def by blast

lemma keeps_own: "vgic_inv e s \<Longrightarrow> vgic_get_ownership v r s = (b, s') \<Longrightarrow> keeps e s s'"
  using get_ownership_inv(1,3,7) unfolding keeps_def by blast

lemma keeps_add:
  "env_ok e \<Longrightarrow> vgic_inv e s \<Longrightarrow> own_ref e s r \<Longrightarrow> vi_owner (int_at s r) = Some (v_vcpu e) \<Longrightarrow>
   vgic_add_lr e (v_vcpu e) r s = Some (b, s') \<Longrightarrow> keeps e s s'"
  using add_lr_inv unfolding keeps_def by blast

text \<open>An interrupt that the running CPU owns and that is meant for it is one of its own pointers.\<close>

lemma target_own:
  assumes e: "env_ok e" and inv: "vgic_inv e s" and r: "is_ref e s r" "vi_owner (int_at s r) = Some (v_vcpu e)"
    and t: "vgic_int_vcpu_is_target e (v_vcpu e) (int_at s r)"
  shows "own_ref e s r"
proof (cases r)
  case (Spi k)
  then show ?thesis using r(1) by (simp add: own_ref_def ref_def)
next
  case (Priv w i)
  then have w: "w < v_cpu_num e" "i < GIC_CPU_PRIV" using r(1) by auto
  then have p: "gic_is_priv (vi_id (int_at s r))" using vgic_invD(2) [OF inv r(1)] Priv by (simp add: gic_is_priv_def)
  have n: "unat (of_nat (v_phys e v) :: u64) = v_phys e v" if "v < v_cpu_num e" for v
    using env_okD(2) [OF e that] by (simp add: unat_of_nat)
  have "g_ver e = GICV3 \<Longrightarrow> (of_nat (v_phys e w) :: u64) = of_nat (v_phys e (v_vcpu e))"
    using p t vgic_invD(4) [OF inv w] Priv by (auto simp: vgic_int_vcpu_is_target_def routed_here_def)
  then have "g_ver e = GICV3 \<Longrightarrow> v_phys e w = v_phys e (v_vcpu e)"
    using n [OF w(1)] n [OF env_okD(3) [OF e]] by metis
  then have "w = v_vcpu e"
    using env_okD(1,3) [OF e] w vgic_invD(3) [OF inv w] r(2) Priv by (cases "g_ver e") auto
  then show ?thesis using r(1) Priv w by (simp add: own_ref_def ref_def)
qed

lemma route_keeps:
  assumes e: "env_ok e" and inv: "vgic_inv e s" and r: "is_ref e s r" "vi_owner (int_at s r) = Some (v_vcpu e)"
    and f: "vgic_route e (v_vcpu e) r s = Some s'"
  shows "keeps e s s'"
proof -
  let ?v = "v_vcpu e"
  show ?thesis
  proof (cases "vi_state (int_at s r) = INV \<or> \<not> vi_enabled (int_at s r)")
    case True
    then show ?thesis using f keeps_refl [OF inv] by (auto simp: vgic_route_def)
  next
    case False
    obtain t where
      t: "(if vgic_int_vcpu_is_target e ?v (int_at s r) then map_option snd (vgic_add_lr e ?v r s) else Some s) = Some t"
      and t': "(if \<not> vi_in_lr (int_at t r) \<and> vgic_int_has_other_target e (int_at t r) then
               let msg = vgic_msg e VGIC_ROUTE (VGIC_MSG_DATA (v_vm_id e) ?v (vi_id (int_at t r)) 0 0)
               in do { s \<leftarrow> vgic_yield_ownership e ?v r t;
                       Some (send_mask e (vgic_int_ptarget_mask e (int_at s r) AND NOT (push_bit (v_phys e ?v) 1)) msg s) }
             else Some t) = Some s'"
      using f unfolding vgic_route_def if_not_P [OF False] by (elim bind_SomeE)
    have t2: "s' = t \<or> (\<exists>u m msg. vgic_yield_ownership e ?v r t = Some u \<and> s' = send_mask e m msg u)"
      using t' by (auto simp: Let_def bind_eq_Some_conv split: if_splits)
    have k: "keeps e s t"
      using t target_own [OF e inv r] keeps_add [OF e inv _ r(2)] keeps_refl [OF inv] by (auto split: if_splits)
    then have "keeps e t s'"
      using t2 keeps_refl keeps_yield [of e t r ?v] keeps_keys [OF _ keys_send_mask] keeps_trans r(1) by (auto simp: keeps_def)
    then show ?thesis using k keeps_trans by blast
  qed
qed

lemma set_field_keeps:
  assumes e: "env_ok e" and inv: "vgic_inv e s" and r: "is_ref e s r" and h: "benign h"
    and f: "vgic_int_set_field e h (v_vcpu e) r d s = Some s'"
  shows "keeps e s s'"
proof -
  let ?v = "v_vcpu e"
  obtain own t where t: "vgic_get_ownership ?v r s = (own, t)" by fastforce
  have kt: "keeps e s t" using keeps_own [OF inv t] .
  show ?thesis
  proof (cases own)
    case False
    then show ?thesis using f t keeps_keys [OF keeps_inv [OF kt] keys_send] kt keeps_trans
      by (auto simp: vgic_int_set_field_def Let_def split: bind_splits)
  next
    case True
    obtain b u ch w x where c: "vgic_remove_lr e ?v r t = Some (b, u)" "rh_update h e ?v r d u = Some (ch, w)"
      "vgic_route e ?v r (if ch \<and> vgic_int_is_hw (int_at w r) then rh_hw h e r w else w) = Some x"
      "vgic_yield_ownership e ?v r x = Some s'"
      using f t True by (auto simp: vgic_int_set_field_def Let_def split: bind_splits)
    let ?w = "if ch \<and> vgic_int_is_hw (int_at w r) then rh_hw h e r w else w"
    have rt: "is_ref e t r" "vi_owner (int_at t r) = Some ?v" using kt r get_ownership_inv(2) [OF inv t] True by (auto simp: keeps_def)
    note rm = remove_lr_inv [OF e keeps_inv [OF kt] rt(1) c(1)]
    have id: "vi_id (int_at u r) = ref_id r" using vgic_invD(2) [OF rm(1)] rm(4) rt(1) by simp
    have w: "same_keys u ?w" using h c(2) id same_keys_trans unfolding benign_def by (metis (full_types))
    have "keeps e t u" using rm(1,4,7) by (auto simp: keeps_def)
    moreover have kw: "keeps e u ?w" using keeps_keys [OF rm(1) w] .
    moreover have rw: "is_ref e ?w r" "vi_owner (int_at ?w r) = Some ?v" using same_keysD(1,10) [OF w] rm(2,4) rt by auto
    moreover have "keeps e ?w x" using route_keeps [OF e keeps_inv [OF kw] rw c(3)] .
    moreover have "keeps e x s'" using keeps_yield [OF _ _ c(4)] \<open>keeps e ?w x\<close> rw(1) by (auto simp: keeps_def)
    ultimately show ?thesis using kt keeps_trans by blast
  qed
qed

subsection \<open>Accesses of the guest\<close>

lemma get_int_is_ref: "env_ok e \<Longrightarrow> vgic_get_int e s (v_vcpu e) i g = Some (Some r) \<Longrightarrow> is_ref e s r"
  using env_okD(3) by (auto simp: vgic_get_int_def split: if_splits)

lemma generic_loop_keeps:
  assumes "env_ok e" "benign h" "vgic_inv e s" "generic_loop e write h g first k i val s = Some (val', s')"
  shows "keeps e s s'"
  using assms(3,4)
proof (induction k arbitrary: i val s)
  case 0
  then show ?case by (simp add: keeps_refl)
next
  case (Suc k)
  show ?case
  proof (cases "vgic_get_int e s (v_vcpu e) (unat (first + of_nat i)) g")
    case None
    then show ?thesis using Suc.prems by simp
  next
    case (Some p)
    consider "p = None" | r where "p = Some r" "write" | r where "p = Some r" "\<not> write" by (cases p) blast+
    then show ?thesis
    proof cases
      case 1
      then show ?thesis using Suc.prems Some keeps_refl by simp
    next
      case (2 r)
      then obtain t where t: "vgic_int_set_field e h (v_vcpu e) r (bit_extract val (i * rh_width h) (rh_width h)) s = Some t"
        "generic_loop e write h g first k (i + 1) val t = Some (val', s')" using Suc.prems(2) Some by (auto elim: bind_SomeE)
      have "keeps e s t" using set_field_keeps [OF assms(1) Suc.prems(1) _ assms(2) t(1)] get_int_is_ref assms(1) Some 2 by blast
      then show ?thesis using Suc.IH [OF keeps_inv t(2)] keeps_trans by blast
    next
      case (3 r)
      then show ?thesis using Suc.prems Some Suc.IH by (auto simp: Let_def elim!: bind_SomeE)
    qed
  qed
qed

lemma broadcast_keys:
  assumes "vgic_broadcast_loop e m i n s = Some s'"
  shows "same_keys s s'"
proof (rule vgic_broadcast_loop.raw_induct [where P="\<lambda>e m i n s s'. same_keys s s'", OF _ assms], goal_cases)
  case (1 f e m i n s s')
  then show ?case using same_keys_refl same_keys_trans [OF keys_send] by (auto split: if_splits) blast
qed

lemma reg_access_keeps:
  assumes e: "env_ok e" and inv: "vgic_inv e s" and h: "benign h" and f: "reg_access e acc h ga g s = Some s'"
  shows "keeps e s s'"
proof (cases "rh_access h")
  case GENERIC
  then obtain val t where t: "t = s \<or> (\<exists>first k i val0. generic_loop e (acc_write acc) h g first k i val0 s = Some (val, t))"
    "s' = t \<or> s' = vcpu_writereg_arm (v_vcpu e) (acc_reg acc) val t"
    using f by (auto simp: reg_access_def vgic_emul_generic_access_def Let_def split: if_splits elim!: bind_SomeE) blast+
  have "keeps e s t" using t(1) generic_loop_keeps [OF e h inv] keeps_refl [OF inv] by blast
  then show ?thesis using t(2) keeps_keys [OF keeps_inv keys_writereg(1)] keeps_trans by blast
next
  case MISC
  have "vgic_broadcast_loop e m i n (vgic_update_enable e (s\<lparr>vg_CTLR := d\<rparr>)) = Some s' \<Longrightarrow> same_keys s s'" for m i n d
    by (rule same_keys_trans [OF same_keys_trans [OF keys_writereg(2) keys_npie(3)] broadcast_keys])
  then have "same_keys s s'" using f MISC
    by (auto simp: reg_access_def vgicd_emul_misc_access_def Let_def keys_writereg same_keys_refl split: if_splits)
  then show ?thesis using keeps_keys [OF inv] by blast
next
  case SGIREGS
  then show ?thesis using f keeps_keys [OF inv] keys
    by (auto simp: reg_access_def vgicd_emul_sgiregs_access_def vgic_send_sgi_msg_def Let_def split: if_splits)
qed (use f keeps_keys [OF inv] keys keeps_refl [OF inv] in
    \<open>auto simp: reg_access_def vgicd_emul_pidr_access_def vgic_emul_razwi_def vgicr_emul_typer_access_def vgicr_emul_pidr_access_def Let_def
       split: if_splits\<close>)

lemma emul_keeps:
  assumes e: "env_ok e" and inv: "vgic_inv e s"
  shows "vgicd_emul_handler e acc s = Some (b, s') \<Longrightarrow> keeps e s s'" "vgicr_emul_handler e acc s = Some (b, s') \<Longrightarrow> keeps e s s'"
  using reg_access_keeps [OF e inv benign_handler(1)] reg_access_keeps [OF e inv benign_handler(2)] keeps_refl [OF inv]
  by (auto simp: vgicd_emul_handler_def vgicr_emul_handler_def Let_def split: if_splits elim!: bind_SomeE)

lemma icc_keeps:
  assumes inv: "vgic_inv e s"
  shows "vgic_icc_sgir_handler e acc s = (b, s') \<Longrightarrow> keeps e s s'" "vgic_icc_sre_handler e acc s = (b, s') \<Longrightarrow> keeps e s s'"
  using keeps_keys [OF inv] keys
  by (auto simp: vgic_icc_sgir_handler_def vgic_icc_sre_handler_def vgic_send_sgi_msg_def Let_def split: if_splits)

subsection \<open>Injection and messages\<close>

lemma inject_sgi_keeps:
  assumes e: "env_ok e" and inv: "vgic_inv e s" and r: "own_ref e s r" "vi_owner (int_at s r) = Some (v_vcpu e)"
    and f: "vgic_inject_sgi e (v_vcpu e) r source s = Some s'"
  shows "keeps e s s'"
proof -
  obtain b t where t: "vgic_remove_lr e (v_vcpu e) r s = Some (b, t)" using f by (auto simp: vgic_inject_sgi_def elim: bind_SomeE)
  have isr: "is_ref e s r" using r(1) by (simp add: own_ref_def)
  note rm = remove_lr_inv [OF e inv isr t]
  have kt: "keeps e s t" using rm(1,4,7) by (auto simp: keeps_def)
  define u where "u = upd_int (\<lambda>x. x\<lparr>vi_sgi_pend := vi_sgi_pend (int_at t r) OR push_bit source 1,
      vi_state := if vi_sgi_pend (int_at t r) OR push_bit source 1 \<noteq> 0 then vi_state x OR PEND else vi_state x AND NOT PEND\<rparr>) r t"
  have tu: "same_keys t u" unfolding u_def by (rule keys_upd_int) (simp_all add: key_def)
  have ku: "keeps e s u" using keeps_trans [OF kt keeps_keys [OF rm(1) tu]] .
  have o: "own_ref e u r" "vi_owner (int_at u r) = Some (v_vcpu e)"
    using r ku rm(2) same_keysD(1) [OF tu] by (auto simp: own_ref_def keeps_def)
  have "s' = t \<or> s' = u \<or> (\<exists>b. vgic_add_lr e (v_vcpu e) r u = Some (b, s'))"
    using f t by (auto simp: vgic_inject_sgi_def Let_def u_def split: if_splits)
  then show ?thesis using kt ku keeps_add [OF e keeps_inv [OF ku] o] keeps_trans by blast
qed

text \<open>A physical interrupt fires only while no list register holds it.\<close>

definition fires_loose :: "vgic_env \<Rightarrow> nat \<Rightarrow> vgic \<Rightarrow> bool" where
  "fires_loose e int_id s \<longleftrightarrow> vgic_int_is_hw (int_at s (ref (v_vcpu e) int_id)) \<longrightarrow> loose e s (ref (v_vcpu e) int_id)"

lemma inject_keeps:
  assumes e: "env_ok e" and inv: "vgic_inv e s" and l: "fires_loose e int_id s" and f: "vgic_inject e int_id source s = Some s'"
  shows "keeps e s s'"
proof -
  let ?v = "v_vcpu e"
  obtain p where p: "vgic_get_int e s ?v int_id ?v = Some p" using f by (auto simp: vgic_inject_def Let_def elim: bind_SomeE)
  show ?thesis
  proof (cases p)
    case None
    then show ?thesis using f p keeps_refl [OF inv] by (simp add: vgic_inject_def Let_def)
  next
    case (Some r)
    have r: "own_ref e s r" "r = ref ?v int_id" using get_int_ref e p Some by blast+
    then have isr: "is_ref e s r" by (simp add: own_ref_def)
    consider (hw) "vgic_int_is_hw (int_at s r)"
      "vgic_route e ?v r (upd_int (\<lambda>x. x\<lparr>vi_owner := Some ?v, vi_state := PEND, vi_in_lr := False\<rparr>) r s) = Some s'"
      | (sgi) "g_ver e = GICV2" "gic_is_sgi int_id" "vgic_inject_sgi e ?v r source s = Some s'"
      | (other) "vgic_int_set_field e ispendr_info ?v r 1 s = Some s'"
      using f p Some by (auto simp: vgic_inject_def Let_def split: if_splits)
    then show ?thesis
    proof cases
      case hw
      let ?s = "upd_int (\<lambda>x. x\<lparr>vi_owner := Some ?v, vi_state := PEND, vi_in_lr := False\<rparr>) r s"
      have "loose e s r" using l hw(1) r(2) by (simp add: fires_loose_def)
      then have "vgic_inv e ?s" using r by (intro loose_upd_inv [OF inv]) (auto simp: ref_def split: if_splits)
      moreover have "keeps e ?s s'" using route_keeps [OF e calculation _ _ hw(2)] isr by (simp add: int_at_upd)
      ultimately show ?thesis by (auto simp: keeps_def)
    next
      case sgi
      then have "r = Priv ?v int_id" "int_id < GIC_CPU_PRIV" using r(2) by (auto simp: ref_def gic_is_sgi_def GIC_defs)
      then have "vi_owner (int_at s r) = Some ?v" using vgic_invD(3) [OF inv] env_okD(3) [OF e] sgi(1) by simp
      then show ?thesis using inject_sgi_keeps [OF e inv r(1) _ sgi(3)] by blast
    next
      case other
      then show ?thesis using set_field_keeps [OF e inv isr benign_infos(2)] by blast
    qed
  qed
qed

lemma ipi_keeps:
  assumes e: "env_ok e" and inv: "vgic_inv e s" and l: "event = VGIC_INJECT \<Longrightarrow> fires_loose e (VGIC_MSG_INTID d) s"
    and f: "vgic_ipi_handler e event d s = Some s'"
  shows "keeps e s s'"
proof -
  let ?v = "v_vcpu e"
  consider (same) "same_keys s s'" | (route) r own t where "event = VGIC_ROUTE" "vgic_get_int e s ?v (VGIC_MSG_INTID d) ?v = Some (Some r)"
      "vgic_get_ownership ?v r s = (own, t)" "\<not> own \<and> s' = t \<or> own \<and> (\<exists>u. (if vgic_int_vcpu_is_target e ?v (int_at t r) then
         map_option snd (vgic_add_lr e ?v r t) else Some t) = Some u \<and> vgic_yield_ownership e ?v r u = Some s')"
    | (inject) "event = VGIC_INJECT" "vgic_inject e (VGIC_MSG_INTID d) (unat (VGIC_MSG_VAL d)) s = Some s'"
    | (set) r h where "vgic_get_int e s ?v (VGIC_MSG_INTID d) (VGIC_MSG_VGICRID d) = Some (Some r)"
      "vgic_get_reg_handler_info (g_ver e) (VGIC_MSG_REG d) = Some h" "vgic_int_set_field e h ?v r (VGIC_MSG_VAL d) s = Some s'"
    using f keys same_keys_refl unfolding vgic_ipi_handler_def Let_def
    by (auto split: if_splits option.splits prod.splits elim!: bind_SomeE)
  then show ?thesis
  proof cases
    case same
    then show ?thesis using keeps_keys [OF inv] by blast
  next
    case inject
    then show ?thesis using inject_keeps [OF e inv l] by blast
  next
    case (set r h)
    then show ?thesis using set_field_keeps [OF e inv get_int_is_ref [OF e] benign_table] by blast
  next
    case (route r own t)
    have kt: "keeps e s t" using keeps_own [OF inv route(3)] .
    have r: "is_ref e t r" using get_int_is_ref [OF e route(2)] kt by (simp add: keeps_def)
    have u: "keeps e t u" if "own" "(if vgic_int_vcpu_is_target e ?v (int_at t r) then map_option snd (vgic_add_lr e ?v r t) else Some t) = Some u" for u
      using that(2) target_own [OF e keeps_inv [OF kt] r] keeps_add [OF e keeps_inv [OF kt]] get_ownership_inv(2) [OF inv route(3) that(1)]
        keeps_refl [OF keeps_inv [OF kt]] by (auto split: if_splits)
    have "keeps e u s'" if "keeps e t u" "vgic_yield_ownership e ?v r u = Some s'" for u
      using keeps_yield [OF keeps_inv [OF that(1)] _ that(2)] r that(1) by (simp add: keeps_def)
    then show ?thesis using route(4) u kt keeps_trans by metis
  qed
qed

end
