(* ===== verification/Vgic_Maint.thy ===== *)
theory Vgic_Maint
  imports Vgic_Steps
begin

text \<open>
  The maintenance interrupt keeps the invariant of \<^verbatim>\<open>Vgic_Inv\<close>: the searches for an interrupt take and give back ownership, and the loops
  write only to list registers that are free.
\<close>

subsection \<open>Searches\<close>

text \<open>The pass over the interrupts changes ownership only, and keeps the candidate.\<close>

definition scanned :: "vgic_env \<Rightarrow> vgic \<Rightarrow> vgic \<Rightarrow> bool" where
  "scanned e s s' \<longleftrightarrow> keeps e s s' \<and> vg_gic s' = vg_gic s \<and> (\<forall>q. vi_in_lr (int_at s' q) = vi_in_lr (int_at s q))"

definition cand :: "vgic_env \<Rightarrow> vgic \<Rightarrow> iref option \<Rightarrow> nat list \<Rightarrow> bool" where
  "cand e s c is \<longleftrightarrow> (\<forall>r. c = Some r \<longrightarrow> own_ref e s r \<and> vi_owner (int_at s r) = Some (v_vcpu e) \<and> ref_id r \<notin> set is)"

lemma scanned_refl: "vgic_inv e s \<Longrightarrow> scanned e s s"
  by (simp add: scanned_def keeps_refl)

lemma scanned_trans: "scanned e s t \<Longrightarrow> scanned e t u \<Longrightarrow> scanned e s u"
  using keeps_trans by (auto simp: scanned_def)

lemma scanned_own:
  assumes "vgic_inv e s" "vgic_get_ownership (v_vcpu e) t s = (own, s1)"
  shows "scanned e s s1" "cand e s c (ref_id t # is) \<Longrightarrow> cand e s1 c (ref_id t # is)"
  using assms keeps_own get_ownership_inv [OF assms] by (auto simp: scanned_def cand_def own_ref_def keeps_def) metis

lemma scanned_yield:
  assumes "vgic_inv e s" "is_ref e s t" "vgic_yield_ownership e (v_vcpu e) t s = Some s1"
  shows "scanned e s s1" "ref_id t \<notin> set is \<Longrightarrow> cand e s c (ref_id t # is) \<Longrightarrow> cand e s1 c is"
    "own_ref e s q \<Longrightarrow> vi_owner (int_at s q) = Some (v_vcpu e) \<Longrightarrow> q \<noteq> t \<Longrightarrow> ref_id q \<notin> set is \<Longrightarrow> cand e s1 (Some q) is"
  using assms keeps_yield yield_inv [OF assms] by (auto simp: scanned_def cand_def own_ref_def) metis

text \<open>One step of a search: interrupt \<open>i\<close> is looked at, and becomes the candidate in place of the one before or not.\<close>

lemma scan_step:
  assumes e: "env_ok e" and inv: "vgic_inv e s" and i: "vgic_get_int e s (v_vcpu e) i (v_vcpu e) = Some (Some t)" "i \<notin> set is"
    and c: "cand e s c (i # is)" and o: "vgic_get_ownership (v_vcpu e) t s = (own, s1)"
  shows "vgic_yield_ownership e (v_vcpu e) t s1 = Some s2 \<Longrightarrow> scanned e s s2 \<and> cand e s2 c is"
    "own \<Longrightarrow> (case c of Some aux \<Rightarrow> vgic_yield_ownership e (v_vcpu e) aux s1 | None \<Rightarrow> Some s1) = Some s2 \<Longrightarrow>
     scanned e s s2 \<and> cand e s2 (Some t) is"
proof -
  have t: "own_ref e s t" "ref_id t = i" using get_int_ref [OF i(1) e] by auto
  note s1 = scanned_own [OF inv o]
  have inv1: "vgic_inv e s1" and t1: "own_ref e s1 t" using s1(1) t by (auto simp: scanned_def keeps_def own_ref_def)
  have c1: "cand e s1 c (ref_id t # is)" using s1(2) [of c "is"] c t(2) by simp
  show "vgic_yield_ownership e (v_vcpu e) t s1 = Some s2 \<Longrightarrow> scanned e s s2 \<and> cand e s2 c is"
    using scanned_yield [OF inv1] t1 c1 i(2) t(2) scanned_trans [OF s1(1)] by (auto simp: own_ref_def)
  assume "own" and y: "(case c of Some aux \<Rightarrow> vgic_yield_ownership e (v_vcpu e) aux s1 | None \<Rightarrow> Some s1) = Some s2"
  then have ot: "vi_owner (int_at s1 t) = Some (v_vcpu e)" using get_ownership_inv(2) [OF inv o] by blast
  show "scanned e s s2 \<and> cand e s2 (Some t) is"
  proof (cases c)
    case None
    then show ?thesis using y s1(1) t1 ot t(2) i(2) by (auto simp: cand_def)
  next
    case (Some aux)
    then have a: "is_ref e s1 aux" "aux \<noteq> t" using c1 by (auto simp: cand_def own_ref_def)
    note sy = scanned_yield [OF inv1 a(1), of s2]
    then show ?thesis using y Some sy(3) [OF _ t1 ot] a(2) t(2) i(2) scanned_trans [OF s1(1) sy(1)] by auto
  qed
qed

lemma refill_scan_ok:
  assumes "env_ok e" "vgic_inv e s" "distinct is" "cand e s c is"
    "refill_scan e (v_vcpu e) hp is (c, pp, pr) s = Some ((c', pp', pr'), s')"
  shows "scanned e s s' \<and> cand e s' c' [] \<and> (c' = c \<or> (\<exists>r. c' = Some r \<and> \<not> vi_in_lr (int_at s r)))"
  using assms(2-5)
proof (induction "is" arbitrary: c pp pr s)
  case Nil
  then show ?case by (auto simp: scanned_refl)
next
  case (Cons i "is")
  let ?v = "v_vcpu e"
  obtain p where p: "vgic_get_int e s ?v i ?v = Some p" using Cons.prems(4) by (auto elim: bind_SomeE)
  show ?case
  proof (cases p)
    case None
    then show ?thesis using Cons.prems p by (auto simp: scanned_refl cand_def)
  next
    case (Some t)
    obtain own s1 where o: "vgic_get_ownership ?v t s = (own, s1)" by fastforce
    have i: "i \<notin> set is" using Cons.prems(2) by simp
    note st = scan_step [OF assms(1) Cons.prems(1) p [unfolded Some] i Cons.prems(3) o]
    consider (skip) s2 where "vgic_yield_ownership e ?v t s1 = Some s2" "refill_scan e ?v hp is (c, pp, pr) s2 = Some ((c', pp', pr'), s')"
      | (take) s2 pp2 pr2 where "own" "\<not> vi_in_lr (int_at s1 t)"
        "(case c of Some aux \<Rightarrow> vgic_yield_ownership e ?v aux s1 | None \<Rightarrow> Some s1) = Some s2"
        "refill_scan e ?v hp is (Some t, pp2, pr2) s2 = Some ((c', pp', pr'), s')"
      using Cons.prems(4) p Some o by (auto simp: Let_def split: if_splits elim!: bind_SomeE)
    then show ?thesis
    proof cases
      case (skip s2)
      note s2 = st(1) [OF skip(1)]
      then have "vgic_inv e s2" by (simp add: scanned_def keeps_def)
      then show ?thesis using Cons.IH [OF _ _ _ skip(2)] s2 Cons.prems(2) scanned_trans [of e s s2 s'] by (auto simp: scanned_def)
    next
      case (take s2 pp2 pr2)
      note s2 = st(2) [OF take(1,3)]
      then have "vgic_inv e s2" by (simp add: scanned_def keeps_def)
      moreover have "\<not> vi_in_lr (int_at s t)" using take(2) get_ownership_inv(4) [OF Cons.prems(1) o] by blast
      ultimately show ?thesis using Cons.IH [OF _ _ _ take(4)] s2 Cons.prems(2) scanned_trans [of e s s2 s'] by (auto simp: scanned_def)
    qed
  qed
qed

lemma eoir_scan_ok:
  assumes "env_ok e" "vgic_inv e s" "distinct is" "cand e s c is" "eoir_scan e (v_vcpu e) is c s = Some (c', s')"
  shows "scanned e s s' \<and> cand e s' c' []"
  using assms(2-5)
proof (induction "is" arbitrary: c s)
  case Nil
  then show ?case by (auto simp: scanned_refl)
next
  case (Cons i "is")
  let ?v = "v_vcpu e"
  obtain p where p: "vgic_get_int e s ?v i ?v = Some p" using Cons.prems(4) by (auto elim: bind_SomeE)
  show ?case
  proof (cases p)
    case None
    then show ?thesis using Cons.prems p by (auto simp: scanned_refl cand_def)
  next
    case (Some t)
    obtain own s1 where o: "vgic_get_ownership ?v t s = (own, s1)" by fastforce
    have i: "i \<notin> set is" using Cons.prems(2) by simp
    note st = scan_step [OF assms(1) Cons.prems(1) p [unfolded Some] i Cons.prems(3) o]
    obtain c2 s2 where s2: "scanned e s s2 \<and> cand e s2 c2 is" "eoir_scan e ?v is c2 s2 = Some (c', s')"
      using Cons.prems(4) p Some o st by (auto simp: Let_def split: if_splits elim!: bind_SomeE)
    then have "vgic_inv e s2" by (simp add: scanned_def keeps_def)
    then show ?thesis using Cons.IH [OF _ _ _ s2(2)] s2(1) Cons.prems(2) scanned_trans by auto
  qed
qed

subsection \<open>Loops\<close>

lemma find_lr:
  assumes "env_ok e" "0 \<le> bitmap_find_nth (word_bitmap w) (g_num_lrs e) 1 0 True"
  obtains i where "nat (bitmap_find_nth (word_bitmap w) (g_num_lrs e) 1 0 True) = i" "i < g_num_lrs e" "bit w i"
proof -
  obtain i where i: "bitmap_find_nth (word_bitmap w) (g_num_lrs e) 1 0 True = int i" "i < g_num_lrs e" "bitmap_get (word_bitmap w) i = 1"
    using bitmap_find_nth_spec [of 1 "word_bitmap w" "g_num_lrs e" 0 True] assms(2) by auto
  moreover have "bit w i" using i(3) word_bitmap_get env_ok_lrs [OF assms(1) i(2)] by (auto split: if_splits)
  ultimately show ?thesis using that by simp
qed

lemma refill_loop_keeps:
  assumes "refill_loop e v hp s = Some s'"
  shows "env_ok e \<longrightarrow> v = v_vcpu e \<longrightarrow> vgic_inv e s \<longrightarrow> keeps e s s'"
proof (rule refill_loop.raw_induct [where P="\<lambda>e v hp s s'. env_ok e \<longrightarrow> v = v_vcpu e \<longrightarrow> vgic_inv e s \<longrightarrow> keeps e s s'", OF _ assms],
    intro impI, goal_cases)
  case (1 f e v hp s s')
  note IH = 1(1) [rule_format] and e = 1(3) and v = 1(4) and inv = 1(5)
  let ?w = "v_elrsr e (cur_lrs e s)"
  show ?case
  proof (cases "0 \<le> bitmap_find_nth (word_bitmap ?w) (g_num_lrs e) 1 0 True")
    case False
    then show ?thesis using 1(2) keeps_refl [OF inv] by (simp add: Let_def)
  next
    case True
    obtain i where i: "nat (bitmap_find_nth (word_bitmap ?w) (g_num_lrs e) 1 0 True) = i" "i < g_num_lrs e" "bit ?w i"
      using find_lr [OF e True] .
    obtain c pp pr t where t: "refill_scan e v hp [0..<gic_num_irqs (gic_env.truncate e)] (None, False, GIC_LOWEST_PRIO) s = Some ((c, pp, pr), t)"
      "(case c of Some r \<Rightarrow> Option.bind (vgic_write_lr e v r i t) (f e v (hp \<or> pp)) | None \<Rightarrow> Some (clear_npie e t)) = Some s'"
      using 1(2) True i(1) by (auto simp: Let_def elim!: bind_SomeE)
    have sc: "scanned e s t" "cand e t c []" "c = None \<or> (\<exists>r. c = Some r \<and> \<not> vi_in_lr (int_at s r))"
      using refill_scan_ok [OF e inv _ _ t(1) [unfolded v]] by (auto simp: cand_def)
    have kt: "keeps e s t" and it: "vgic_inv e t" using sc(1) by (auto simp: scanned_def keeps_def)
    have free: "\<not> lr_valid e (lr_at e t v i)"
      using env_okD(5) [OF e i(3)] cur_lrs_at [OF e i(2)] sc(1) v by (auto simp: scanned_def lr_at_def split: if_splits)
    show ?thesis
    proof (cases c)
      case None
      then show ?thesis using t(2) keeps_keys [OF it keys_npie(2)] keeps_trans [OF kt] by auto
    next
      case (Some r)
      then obtain u where u: "vgic_write_lr e v r i t = Some u" "f e v (hp \<or> pp) u = Some s'" using t(2) by (auto elim: bind_SomeE)
      have "own_ref e t r" "vi_owner (int_at t r) = Some v" "\<not> vi_in_lr (int_at t r)"
        using sc Some v by (auto simp: cand_def scanned_def)
      then have "keeps e t u" using write_lr_inv(1-3) [OF e it _ _ _ _ u(1) [unfolded v]] free v by (auto simp: keeps_def)
      then show ?thesis using IH [OF u(2) e v] keeps_trans [OF kt] keeps_trans keeps_inv by blast
    qed
  qed
qed

lemma eoir_highest_keeps:
  assumes e: "env_ok e" and inv: "vgic_inv e s" and f: "vgic_eoir_highest_spilled_active e (v_vcpu e) s = Some s'"
  shows "keeps e s s'"
proof -
  let ?v = "v_vcpu e"
  obtain c t where t: "eoir_scan e ?v [0..<gic_num_irqs (gic_env.truncate e)] None s = Some (c, t)"
    using f by (auto simp: vgic_eoir_highest_spilled_active_def elim!: bind_SomeE)
  have sc: "scanned e s t" "cand e t c []" using eoir_scan_ok [OF e inv _ _ t] by (auto simp: cand_def)
  have kt: "keeps e s t" and it: "vgic_inv e t" using sc(1) by (auto simp: scanned_def keeps_def)
  show ?thesis
  proof (cases c)
    case None
    then show ?thesis using f t kt by (simp add: vgic_eoir_highest_spilled_active_def)
  next
    case (Some r)
    let ?t = "upd_int (\<lambda>x. x\<lparr>vi_state := vi_state x AND NOT ACT\<rparr>) r t"
    have k: "same_keys t ?t" by (rule keys_upd_int) (simp_all add: key_def)
    have ku: "keeps e t ?t" using keeps_keys [OF it k] .
    have r: "own_ref e ?t r" "vi_owner (int_at ?t r) = Some ?v" using sc(2) Some by (auto simp: cand_def own_ref_def int_at_upd)
    have "same_keys ?t (upd_gic (gic_set_act (gic_env.truncate e) i False) ?t)" for i by (rule keys_upd_gic) (simp add: gic_ops)
    note g = keeps_keys [OF keeps_inv [OF ku] this]
    consider "s' = ?t" | i where "s' = upd_gic (gic_set_act (gic_env.truncate e) i False) ?t" | b where "vgic_add_lr e ?v r ?t = Some (b, s')"
      using f t Some by (auto simp: vgic_eoir_highest_spilled_active_def Let_def split: if_splits)
    then show ?thesis using kt ku g keeps_add [OF e keeps_inv [OF ku] r] keeps_trans by cases (blast | metis)+
  qed
qed

lemma eoi_count_keeps:
  assumes "eoi_count_loop e v s = Some s'"
  shows "env_ok e \<longrightarrow> v = v_vcpu e \<longrightarrow> vgic_inv e s \<longrightarrow> keeps e s s'"
proof (rule eoi_count_loop.raw_induct [where P="\<lambda>e v s s'. env_ok e \<longrightarrow> v = v_vcpu e \<longrightarrow> vgic_inv e s \<longrightarrow> keeps e s s'", OF _ assms],
    intro impI, goal_cases)
  case (1 f e v s s')
  note IH = 1(1) [rule_format] and e = 1(3) and v = 1(4) and inv = 1(5)
  have k: "same_keys t (upd_gic (gich_set_hcr g h) t)" for t g h by (rule keys_upd_gic) simp
  from 1(2) consider "s' = s" | t g h where "vgic_eoir_highest_spilled_active e v s = Some t" "f e v (upd_gic (gich_set_hcr g h) t) = Some s'"
    by (auto simp: Let_def split: if_splits elim!: bind_SomeE)
  then show ?case
  proof cases
    case 1
    then show ?thesis by (simp add: keeps_refl inv)
  next
    case (2 t g h)
    have kt: "keeps e s t" using eoir_highest_keeps [OF e inv] 2(1) v by blast
    have ku: "keeps e t (upd_gic (gich_set_hcr g h) t)" using keeps_keys [OF keeps_inv [OF kt] k] .
    show ?thesis using IH [OF 2(2) e v keeps_inv [OF ku]] keeps_trans [OF kt] keeps_trans [OF ku] by blast
  qed
qed

subsection \<open>The end of interrupts\<close>

text \<open>
  The interrupt whose end is signalled is still recorded with its register. The code does not ensure this: a register
  that the hypervisor removes an interrupt from after the guest has ended it stays signalled.
\<close>

definition eoi_clean :: "vgic_env \<Rightarrow> vgic \<Rightarrow> bool" where
  "eoi_clean e s \<longleftrightarrow>
     (\<forall>i < g_num_lrs e. eoi_pending (g_ver e) (lr_at e s (v_vcpu e) i) \<longrightarrow>
        (let x = int_at s (ref (v_vcpu e) (GICH_LR_VID (g_ver e) (lr_at e s (v_vcpu e) i)))
         in vi_in_lr x \<and> vi_lr x = i \<and> vi_owner x = Some (v_vcpu e)))"

lemma eoi_0: "\<not> eoi_pending v 0"
  by (simp add: eoi_pending_def)

lemma eoi_cleanD:
  assumes "eoi_clean e s" "i < g_num_lrs e" "eoi_pending (g_ver e) (lr_at e s (v_vcpu e) i)"
    "r = ref (v_vcpu e) (GICH_LR_VID (g_ver e) (lr_at e s (v_vcpu e) i))"
  shows "vi_in_lr (int_at s r)" "vi_lr (int_at s r) = i" "vi_owner (int_at s r) = Some (v_vcpu e)" "vgic_inv e s \<Longrightarrow> loose e s r"
proof -
  show *: "vi_in_lr (int_at s r)" "vi_lr (int_at s r) = i" "vi_owner (int_at s r) = Some (v_vcpu e)"
    using assms unfolding eoi_clean_def Let_def by blast+
  have "\<not> lr_valid e (lr_at e s (v_vcpu e) i)" using assms(3) by (simp add: eoi_pending_def lr_valid_def)
  then show "loose e s r" if "vgic_inv e s" using vgic_invD(6) [OF that] * unfolding loose_def held_by_def by (metis option.inject)
qed

text \<open>Registers and records of the ends that are left.\<close>

lemma eoi_clean_step:
  assumes "eoi_clean e s"
    "\<And>j. j < g_num_lrs e \<Longrightarrow> eoi_pending (g_ver e) (lr_at e s' (v_vcpu e) j) \<Longrightarrow> lr_at e s' (v_vcpu e) j = lr_at e s (v_vcpu e) j \<and>
       key (int_at s' (ref (v_vcpu e) (GICH_LR_VID (g_ver e) (lr_at e s (v_vcpu e) j)))) =
       key (int_at s (ref (v_vcpu e) (GICH_LR_VID (g_ver e) (lr_at e s (v_vcpu e) j))))"
  shows "eoi_clean e s'"
  unfolding eoi_clean_def Let_def
proof (intro allI impI)
  fix j assume j: "j < g_num_lrs e" "eoi_pending (g_ver e) (lr_at e s' (v_vcpu e) j)"
  note k = assms(2) [OF j]
  then show "vi_in_lr (int_at s' (ref (v_vcpu e) (GICH_LR_VID (g_ver e) (lr_at e s' (v_vcpu e) j)))) \<and>
      vi_lr (int_at s' (ref (v_vcpu e) (GICH_LR_VID (g_ver e) (lr_at e s' (v_vcpu e) j)))) = j \<and>
      vi_owner (int_at s' (ref (v_vcpu e) (GICH_LR_VID (g_ver e) (lr_at e s' (v_vcpu e) j)))) = Some (v_vcpu e)"
    using eoi_cleanD(1-3) [OF assms(1) j(1) _ refl] j(2) by (simp add: key_def)
qed

text \<open>The body of the loop: the register is cleared, and its interrupt released or added again.\<close>

lemma eoir_step:
  assumes e: "env_ok e" and inv: "vgic_inv e s" and cl: "eoi_clean e s" and i: "i < g_num_lrs e" "bit (v_eisr e (cur_lrs e s)) i"
    and w: "write_lr e i 0 s = Some s1"
  shows "keeps e s s1" "eoi_clean e s1"
    "own_ref e s1 r \<Longrightarrow> r = ref (v_vcpu e) (GICH_LR_VID (g_ver e) (lr_at e s (v_vcpu e) i)) \<Longrightarrow> s2 = upd_int (\<lambda>x. x\<lparr>vi_in_lr := False\<rparr>) r s1 \<Longrightarrow>
       (if vi_id (int_at s2 r) < GIC_MAX_SGIS then map_option snd (vgic_add_lr e (v_vcpu e) r s2) else vgic_yield_ownership e (v_vcpu e) r s2) = Some s3 \<Longrightarrow>
       keeps e s s3 \<and> eoi_clean e s3"
proof -
  let ?v = "v_vcpu e" and ?id = "\<lambda>s j. GICH_LR_VID (g_ver e) (lr_at e s (v_vcpu e) j)"
  have p: "eoi_pending (g_ver e) (lr_at e s ?v i)" using env_okD(6) [OF e i(1)] i(2) cur_lrs_at [OF e i(1)] by simp
  note wl = write_lr_at [OF e w]
  have v: "?v < v_cpu_num e" using env_okD(3) [OF e] .
  show k1: "keeps e s s1" using clear_lr_inv [OF e inv w] wl(3,7) by (auto simp: keeps_def)
  have other: "j \<noteq> i \<and> lr_at e s1 ?v j = lr_at e s ?v j" if "eoi_pending (g_ver e) (lr_at e s1 ?v j)" for j
    using that wl(5,6) v eoi_0 by (metis lr_word_0)
  show cl1: "eoi_clean e s1" by (rule eoi_clean_step [OF cl]) (use other wl(2) in auto)
  assume r: "own_ref e s1 r" "r = ref ?v (?id s i)" and s2: "s2 = upd_int (\<lambda>x. x\<lparr>vi_in_lr := False\<rparr>) r s1"
    and s3: "(if vi_id (int_at s2 r) < GIC_MAX_SGIS then map_option snd (vgic_add_lr e ?v r s2) else vgic_yield_ownership e ?v r s2) = Some s3"
  have c: "vi_lr (int_at s r) = i" "vi_owner (int_at s r) = Some ?v" "loose e s r" using eoi_cleanD [OF cl i(1) p r(2)] inv by auto
  have "loose e s1 r" using c(3) lr_shrinks_held [OF clear_lr_shrinks [OF e w]] unfolding loose_def by blast
  then have i2: "vgic_inv e s2" unfolding s2 using vgic_invD(3) [OF keeps_inv [OF k1]] by (intro loose_upd_inv [OF keeps_inv [OF k1]]) auto
  have k2: "keeps e s s2" using i2 k1 unfolding s2 by (auto simp: keeps_def)
  have r2: "own_ref e s2 r" "vi_owner (int_at s2 r) = Some ?v" using r(1) c(2) wl(2) by (auto simp: s2 own_ref_def int_at_upd)
  have id: "vi_id (int_at s2 r) = ref_id r" using vgic_invD(2) [OF i2] r2(1) by (simp add: own_ref_def)
  have lr2: "lr_at e s2 = lr_at e s1" by (auto simp: s2 fun_eq_iff)
  have rest: "ref ?v (?id s j) \<noteq> r \<and> key (int_at s2 (ref ?v (?id s j))) = key (int_at s (ref ?v (?id s j))) \<and> loose e s2 (ref ?v (?id s j)) \<and>
      vi_lr (int_at s2 (ref ?v (?id s j))) = j"
    if "j < g_num_lrs e" "eoi_pending (g_ver e) (lr_at e s2 ?v j)" for j
  proof -
    have j: "j \<noteq> i" "lr_at e s1 ?v j = lr_at e s ?v j" using other that(2) lr2 by auto
    then have q: "vi_lr (int_at s (ref ?v (?id s j))) = j" "loose e s1 (ref ?v (?id s j))"
      using eoi_cleanD [OF cl that(1) _ refl] eoi_cleanD(4) [OF cl1 that(1) _ refl keeps_inv [OF k1]] that(2) lr2 inv by auto
    then have "ref ?v (?id s j) \<noteq> r" using c(1) j(1) by auto
    then show ?thesis using wl(2) q unfolding s2 by (auto simp: int_at_upd loose_def)
  qed
  show "keeps e s s3 \<and> eoi_clean e s3"
  proof (cases "vi_id (int_at s2 r) < GIC_MAX_SGIS")
    case False
    then have y: "vgic_yield_ownership e ?v r s2 = Some s3" using s3 by simp
    have ir: "is_ref e s2 r" using r2(1) by (simp add: own_ref_def)
    note yi = yield_inv [OF i2 ir y]
    have "lr_at e s3 = lr_at e s2" using yi(5) by (auto simp: lr_at_def fun_eq_iff)
    then have "eoi_clean e s3" using rest yi(4) other lr2 by (intro eoi_clean_step [OF cl]) auto
    then show ?thesis using keeps_trans [OF k2 keeps_yield [OF i2 ir y]] by blast
  next
    case True
    then obtain b where a: "vgic_add_lr e ?v r s2 = Some (b, s3)" using s3 by auto
    note ai = add_lr_inv [OF e i2 r2 a]
    have "lr_at e s3 ?v j = lr_at e s ?v j \<and> key (int_at s3 (ref ?v (?id s j))) = key (int_at s (ref ?v (?id s j)))"
      if j: "j < g_num_lrs e" "eoi_pending (g_ver e) (lr_at e s3 ?v j)" for j
    proof -
      have l: "lr_at e s3 ?v j = lr_at e s2 ?v j" using ai True id j(2) v eoi_0 unfolding lr_adds_def by metis
      then have p2: "eoi_pending (g_ver e) (lr_at e s2 ?v j)" using j(2) by simp
      note q = rest [OF j(1) p2]
      have "key (int_at s3 (ref ?v (?id s j))) = key (int_at s2 (ref ?v (?id s j)))"
        using ai q True id j(2) unfolding eoi_frame_def by simp
      then show ?thesis using l q other [of j] p2 lr2 by simp
    qed
    then have "eoi_clean e s3" by (intro eoi_clean_step [OF cl])
    then show ?thesis using ai k2 by (auto simp: keeps_def)
  qed
qed

lemma trapped_eoir_keeps:
  assumes "vgic_handle_trapped_eoir e v s = Some s'"
  shows "env_ok e \<longrightarrow> v = v_vcpu e \<longrightarrow> vgic_inv e s \<longrightarrow> eoi_clean e s \<longrightarrow> keeps e s s'"
proof (rule vgic_handle_trapped_eoir.raw_induct
    [where P="\<lambda>e v s s'. env_ok e \<longrightarrow> v = v_vcpu e \<longrightarrow> vgic_inv e s \<longrightarrow> eoi_clean e s \<longrightarrow> keeps e s s'", OF _ assms], intro impI, goal_cases)
  case (1 f e v s s')
  note IH = 1(1) [rule_format] and e = 1(3) and v = 1(4) and inv = 1(5) and cl = 1(6)
  let ?w = "v_eisr e (cur_lrs e s)"
  show ?case
  proof (cases "0 \<le> bitmap_find_nth (word_bitmap ?w) (g_num_lrs e) 1 0 True")
    case False
    then show ?thesis using 1(2) keeps_refl [OF inv] by (simp add: Let_def)
  next
    case True
    obtain i where i: "nat (bitmap_find_nth (word_bitmap ?w) (g_num_lrs e) 1 0 True) = i" "i < g_num_lrs e" "bit ?w i"
      using find_lr [OF e True] .
    have rd: "read_lr e s i = Some (lr_at e s v i)" using read_lr_at [OF e] i(2) v by simp
    obtain s1 p where s1: "write_lr e i 0 s = Some s1" "vgic_get_int e s1 v (GICH_LR_VID (g_ver e) (lr_at e s v i)) v = Some p"
      using 1(2) True i(1) rd by (auto simp: Let_def elim!: bind_SomeE)
    note st = eoir_step [OF e inv cl i(2,3) s1(1)]
    show ?thesis
    proof (cases p)
      case None
      then have "f e v s1 = Some s'" using 1(2) True i(1) rd s1 by (simp add: Let_def)
      then show ?thesis using IH [OF _ e v keeps_inv [OF st(1)] st(2)] keeps_trans [OF st(1)] by blast
    next
      case (Some r)
      let ?s2 = "upd_int (\<lambda>x. x\<lparr>vi_in_lr := False\<rparr>) r s1"
      obtain s3 where s3: "(if vi_id (int_at ?s2 r) < GIC_MAX_SGIS then map_option snd (vgic_add_lr e v r ?s2)
          else vgic_yield_ownership e v r ?s2) = Some s3" "f e v s3 = Some s'"
        using 1(2) True i(1) rd s1 Some by (auto simp: Let_def elim!: bind_SomeE)
      have "own_ref e s1 r" "r = ref (v_vcpu e) (GICH_LR_VID (g_ver e) (lr_at e s (v_vcpu e) i))" using get_int_ref [OF _ e] s1(2) v Some by auto
      then have "keeps e s s3" "eoi_clean e s3" using st(3) [OF _ _ refl s3(1) [unfolded v]] by blast+
      then show ?thesis using IH [OF s3(2) e v keeps_inv] keeps_trans by blast
    qed
  qed
qed

lemma maintenance_keeps:
  assumes e: "env_ok e" and inv: "vgic_inv e s" and cl: "eoi_clean e s" and f: "gic_maintenance_handler e s = Some s'"
  shows "keeps e s s'"
proof -
  let ?m = "v_misr e (cur_lrs e s) (gich_get_hcr (gic_env.truncate e) (vg_gic s))"
  obtain t u where "(if ?m AND 1 \<noteq> 0 then vgic_handle_trapped_eoir e (v_vcpu e) s else Some s) = Some t"
    "(if ?m AND 8 \<noteq> 0 then vgic_refill_lrs e (v_vcpu e) t else Some t) = Some u"
    "(if ?m AND 4 \<noteq> 0 then eoi_count_loop e (v_vcpu e) u else Some u) = Some s'"
    using f unfolding gic_maintenance_handler_def Let_def by (elim bind_SomeE)
  then have t: "t = s \<or> vgic_handle_trapped_eoir e (v_vcpu e) s = Some t" "u = t \<or> vgic_refill_lrs e (v_vcpu e) t = Some u"
    "s' = u \<or> eoi_count_loop e (v_vcpu e) u = Some s'" by (auto split: if_splits)
  have kt: "keeps e s t" using t(1) trapped_eoir_keeps [of e _ s t] e inv cl keeps_refl by blast
  then have ku: "keeps e t u" using t(2) refill_loop_keeps [of e _ _ t u] e keeps_inv keeps_refl unfolding vgic_refill_lrs_def by blast
  then have "keeps e u s'" using t(3) eoi_count_keeps [of e _ u s'] e keeps_inv keeps_refl by blast
  then show ?thesis using kt ku keeps_trans by blast
qed

end
