(* ===== verification/Vgic_Safety.thy ===== *)
theory Vgic_Safety
  imports Vgic_Maint
begin

text \<open>
  The virtual interrupt controller of a VM as a system of steps: every CPU of the VM runs the handlers of \<^verbatim>\<open>arch/armv8/vgic.c\<close>, in any
  order, and the hardware moves the interrupts in the list registers. No interrupt is ever in two list registers.
\<close>

subsection \<open>Steps\<close>

text \<open>The environment of a handler that runs on one of the CPUs of the VM of \<open>e\<close>.\<close>

definition runs :: "vgic_env \<Rightarrow> vgic_env \<Rightarrow> bool" where
  "runs e e' \<longleftrightarrow> env_ok e' \<and> g_ver e' = g_ver e \<and> v_phys e' = v_phys e \<and> v_cpu_num e' = v_cpu_num e \<and> g_num_lrs e' = g_num_lrs e"

text \<open>The hardware delivers and ends interrupts: a list register keeps its number, and never becomes valid by itself.\<close>

definition lr_progress :: "vgic_env \<Rightarrow> vgic \<Rightarrow> vgic \<Rightarrow> bool" where
  "lr_progress e s s' \<longleftrightarrow>
     (\<forall>v < v_cpu_num e. \<forall>i < g_num_lrs e. GICH_LR_VID (g_ver e) (lr_at e s' v i) = GICH_LR_VID (g_ver e) (lr_at e s v i) \<and>
        (lr_valid e (lr_at e s' v i) \<longrightarrow> lr_valid e (lr_at e s v i)))"

inductive vgic_step :: "vgic_env \<Rightarrow> vgic \<Rightarrow> vgic \<Rightarrow> bool" for e where
  dist: "runs e e' \<Longrightarrow> vgicd_emul_handler e' acc s = Some (b, s') \<Longrightarrow> vgic_step e s s'"
| redist: "runs e e' \<Longrightarrow> g_ver e = GICV3 \<Longrightarrow> vgicr_emul_handler e' acc s = Some (b, s') \<Longrightarrow> vgic_step e s s'"
| sgir: "runs e e' \<Longrightarrow> vgic_icc_sgir_handler e' acc s = (b, s') \<Longrightarrow> vgic_step e s s'"
| sre: "runs e e' \<Longrightarrow> vgic_icc_sre_handler e' acc s = (b, s') \<Longrightarrow> vgic_step e s s'"
| inject: "runs e e' \<Longrightarrow> fires_loose e' int_id s \<Longrightarrow> vgic_inject e' int_id source s = Some s' \<Longrightarrow> vgic_step e s s'"
| message: "runs e e' \<Longrightarrow> event \<noteq> VGIC_INJECT \<or> fires_loose e' (VGIC_MSG_INTID d) s \<Longrightarrow> vgic_ipi_handler e' event d s = Some s' \<Longrightarrow>
    vgic_step e s s'"
| maintenance: "runs e e' \<Longrightarrow> eoi_clean e' s \<Longrightarrow> gic_maintenance_handler e' s = Some s' \<Longrightarrow> vgic_step e s s'"
| hardware: "lr_progress e s (s\<lparr>vg_gic := g\<rparr>) \<Longrightarrow> vgic_step e s (s\<lparr>vg_gic := g\<rparr>)"
| guest: "vgic_step e s (s\<lparr>vg_regs := regs, vg_msgs := msgs\<rparr>)"

lemma runs_inv: "runs e e' \<Longrightarrow> vgic_inv e' s = vgic_inv e s"
proof -
  assume r: "runs e e'"
  then have "lr_at e' s v i = lr_at e s v i" for v i by (simp add: runs_def lr_at_def)
  then have "held_by e' s v i q = held_by e s v i q" for v i q using r by (simp add: runs_def held_by_def lr_valid_def)
  moreover have "is_ref e' s q = is_ref e s q" for q using r by (cases q) (simp_all add: runs_def)
  ultimately show ?thesis using r \<open>\<And>v i. lr_at e' s v i = _\<close> unfolding vgic_inv_def by (simp add: runs_def)
qed

lemma progress_inv:
  assumes inv: "vgic_inv e s" and p: "lr_progress e s (s\<lparr>vg_gic := g\<rparr>)"
  shows "vgic_inv e (s\<lparr>vg_gic := g\<rparr>)"
proof -
  let ?s = "s\<lparr>vg_gic := g\<rparr>"
  have h: "held_by e s v i q \<and> GICH_LR_VID (g_ver e) (lr_at e ?s v i) = GICH_LR_VID (g_ver e) (lr_at e s v i)" if "held_by e ?s v i q" for v i q
    using that p by (auto simp: held_by_def lr_progress_def)
  have "known ?s (GICH_LR_VID (g_ver e) (lr_at e ?s v i)) \<and> vi_in_lr (int_at s q) \<and> vi_lr (int_at s q) = i \<and> vi_owner (int_at s q) = Some v"
    if "held_by e ?s v i q" for v i q using h [OF that] vgic_invD(5,6) [OF inv, of v i q] by (simp add: known_def)
  moreover have "is_ref e ?s q = is_ref e s q" for q by (cases q) simp_all
  ultimately show ?thesis using vgic_invD(1-4) [OF inv] unfolding vgic_inv_def by simp
qed

lemma guest_keys: "same_keys s (s\<lparr>vg_regs := regs, vg_msgs := msgs\<rparr>)"
  by (auto simp: same_keys_def int_at_def split: iref.split)

text \<open>The invariant is that of a step system.\<close>

lemma vgic_step_inv: "vgic_inv e s \<Longrightarrow> vgic_step e s s' \<Longrightarrow> vgic_inv e s'"
proof -
  assume inv: "vgic_inv e s" and "vgic_step e s s'"
  have k: "vgic_inv e s'" if "runs e e'" "keeps e' s s'" for e' using that runs_inv keeps_inv by blast
  have i: "env_ok e' \<and> vgic_inv e' s" if "runs e e'" for e' using that runs_inv inv by (simp add: runs_def)
  from \<open>vgic_step e s s'\<close> show ?thesis
  proof cases
    case (dist e' acc b)
    then show ?thesis using k emul_keeps(1) i by blast
  next
    case (redist e' acc b)
    then show ?thesis using k emul_keeps(2) i by blast
  next
    case (sgir e' acc b)
    then show ?thesis using k icc_keeps(1) i by blast
  next
    case (sre e' acc b)
    then show ?thesis using k icc_keeps(2) i by blast
  next
    case (inject e' int_id source)
    then show ?thesis using k inject_keeps i by blast
  next
    case (message e' event d)
    then show ?thesis using k ipi_keeps i by blast
  next
    case (maintenance e')
    then show ?thesis using k maintenance_keeps i by blast
  next
    case (hardware g)
    then show ?thesis using progress_inv inv by blast
  next
    case (guest regs msgs)
    then show ?thesis using same_keys_inv guest_keys inv by blast
  qed
qed

subsection \<open>The initial state\<close>

text \<open>
  The initialisation of the VM's controller by its first CPU, and that of the CPU interface and the private
  interrupts by each of its CPUs.
\<close>

definition on_cpu :: "vgic_env \<Rightarrow> nat \<Rightarrow> vgic_env" where
  "on_cpu e v = e\<lparr>v_vcpu := v, g_cpu_id := v_phys e v\<rparr>"

definition boot_cpu :: "vgic_env \<Rightarrow> nat \<Rightarrow> vgic \<Rightarrow> vgic option" where
  "boot_cpu e v s = do { g \<leftarrow> gic_cpu_init (gic_env.truncate (on_cpu e v)) (vg_gic s); Some (vgic_cpu_init e v (s\<lparr>vg_gic := g\<rparr>)) }"

primrec boot_cpus :: "vgic_env \<Rightarrow> nat \<Rightarrow> vgic \<Rightarrow> vgic option" where
  "boot_cpus e 0 s = Some s"
| "boot_cpus e (Suc v) s = Option.bind (boot_cpus e v s) (boot_cpu e v)"

definition vgic_boot :: "vgic_env \<Rightarrow> gic_dscrp \<Rightarrow> u32 \<Rightarrow> nat option \<Rightarrow> nat option \<Rightarrow> vgic \<Rightarrow> vgic option" where
  "vgic_boot e d iidr va page s = Option.bind (vgic_init e d iidr va page s) (boot_cpus e (v_cpu_num e))"

lemma register_fold:
  "vg_spis (fold (vgicr_register e d) vs s) = vg_spis s \<and> vg_int_num (fold (vgicr_register e d) vs s) = vg_int_num s \<and>
   vg_priv (fold (vgicr_register e d) vs s) = vg_priv s \<and> vg_curr_lrs (fold (vgicr_register e d) vs s) = vg_curr_lrs s"
  by (induction vs arbitrary: s) (simp_all add: vgicr_register_def)

lemma vgic_init_fields:
  assumes "vgic_init e d iidr va page s = Some s'"
  shows "vg_int_num s' = 32 * (vgic_get_itln (gic_env.truncate e) (gd_interrupt_num d) + 1)"
    "k < vg_int_num s' \<Longrightarrow> vi_id (vg_spis s' k) = k + GIC_CPU_PRIV" "vg_priv s' = vg_priv s" "vg_curr_lrs s' = vg_curr_lrs s"
  using assms by (auto simp: vgic_init_def vgicd_fields_def vgicd_interrupts_def Let_def register_fold int_init_def split: gic_version.splits if_splits)

lemma log_lrs [simp]: "gs_lrs (wr_all g fr reg val is z) = gs_lrs z" "gs_lrs (quiesce g fr is z) = gs_lrs z"
  unfolding wr_all_def quiesce_def by (induction "is" arbitrary: z) simp_all

lemma clear_lrs_zero:
  assumes "clear_lrs g z = Some z'" "g_ver g = GICV3 \<longrightarrow> g_num_lrs g \<le> 16"
  shows "gs_lrs z' c i = (if c = g_cpu_id g \<and> i < g_num_lrs g then 0 else gs_lrs z c i)"
proof -
  have "fold (\<lambda>i s. Option.bind s (gich_write_lr g i 0)) [0..<n] (Some z) = Some y \<Longrightarrow> n \<le> g_num_lrs g \<Longrightarrow>
      gs_lrs y c i = (if c = g_cpu_id g \<and> i < n then 0 else gs_lrs z c i)" for n y
  proof (induction n arbitrary: y)
    case (Suc n)
    obtain x where x: "fold (\<lambda>i s. Option.bind s (gich_write_lr g i 0)) [0..<n] (Some z) = Some x" "gich_write_lr g n 0 x = Some y"
      using Suc.prems(1) by (auto elim: bind_SomeE)
    have "y = x\<lparr>gs_lrs := (gs_lrs x)(g_cpu_id g := (gs_lrs x (g_cpu_id g))(n := 0))\<rparr>"
      using x(2) Suc.prems(2) assms(2) by (auto simp: gich_write_lr_def split: if_splits)
    then show ?case using Suc.IH [OF x(1)] Suc.prems(2) by (auto simp: less_Suc_eq)
  qed simp
  from this [of "g_num_lrs g"] show ?thesis using assms(1) by (simp add: clear_lrs_def)
qed

lemma cpu_init_lrs:
  assumes "gic_cpu_init g z = Some z'" "g_ver g = GICV3 \<longrightarrow> g_num_lrs g \<le> 16"
  shows "gs_lrs z' c i = (if c = g_cpu_id g \<and> i < g_num_lrs g then 0 else gs_lrs z c i)"
proof -
  obtain x y where "clear_lrs g x = Some y" "gs_lrs x = gs_lrs z" "gs_lrs z' = gs_lrs y"
    using assms(1) by (auto simp: gic_cpu_init_def gicc_init_def Let_def split: gic_version.splits if_splits elim!: bind_SomeE)
  then show ?thesis using clear_lrs_zero assms(2) by simp
qed

text \<open>What the initialisation of the CPUs below \<open>n\<close> has established.\<close>

definition booted :: "vgic_env \<Rightarrow> nat \<Rightarrow> vgic \<Rightarrow> vgic \<Rightarrow> bool" where
  "booted e n s s' \<longleftrightarrow>
     vg_spis s' = vg_spis s \<and> vg_int_num s' = vg_int_num s \<and> vg_curr_lrs s' = vg_curr_lrs s \<and>
     (\<forall>v. vg_priv s' v = (if v < n then vg_priv (vgic_cpu_init e v s) v else vg_priv s v)) \<and>
     (\<forall>v < n. \<forall>i < g_num_lrs e. lr_at e s' v i = 0)"

lemma boot_cpus_booted:
  assumes "env_ok e" "n \<le> v_cpu_num e" "boot_cpus e n s = Some s'"
  shows "booted e n s s'"
  using assms(2,3)
proof (induction n arbitrary: s')
  case 0
  then show ?case by (simp add: booted_def)
next
  case (Suc n)
  then obtain t g where t: "boot_cpus e n s = Some t" "gic_cpu_init (gic_env.truncate (on_cpu e n)) (vg_gic t) = Some g"
    "s' = vgic_cpu_init e n (t\<lparr>vg_gic := g\<rparr>)" by (auto simp: boot_cpu_def elim!: bind_SomeE)
  have b: "booted e n s t" using Suc t(1) by simp
  have "g_ver e = GICV3 \<longrightarrow> g_num_lrs e \<le> 16" using assms(1) by (auto simp: env_ok_def)
  then have l: "gs_lrs g c k = (if c = v_phys e n \<and> k < g_num_lrs e then 0 else gs_lrs (vg_gic t) c k)" for c k
    using cpu_init_lrs [OF t(2)] by (simp add: on_cpu_def)
  have i: "v_phys e v \<noteq> v_phys e n" if "v < n" for v using env_okD(1) [OF assms(1), of v n] that Suc.prems(1) by auto
  have g: "vg_gic s' = g" "vg_spis s' = vg_spis t" "vg_int_num s' = vg_int_num t" "vg_curr_lrs s' = vg_curr_lrs t"
    by (simp_all add: t(3) vgic_cpu_init_def)
  have "lr_at e s' v k = 0" if v: "v < Suc n" "k < g_num_lrs e" for v k
  proof (cases "v = n")
    case True
    then show ?thesis using v(2) l by (simp add: lr_at_def g(1))
  next
    case False
    then have "lr_at e s' v k = lr_at e t v k" "v < n" using v l i [of v] by (auto simp: lr_at_def g(1))
    then show ?thesis using b v(2) by (simp add: booted_def)
  qed
  moreover have "vg_priv s' v = (if v < Suc n then vg_priv (vgic_cpu_init e v s) v else vg_priv s v)" for v
    using b by (auto simp: t(3) booted_def vgic_cpu_init_def less_Suc_eq cong: if_cong split: gic_version.splits)
  ultimately show ?case using b g(2-4) by (simp add: booted_def)
qed

lemma booted_priv:
  assumes "booted e n s s'" "v < n" "i < GIC_CPU_PRIV"
  shows "vi_id (vg_priv s' v i) = i" "g_ver e = GICV2 \<Longrightarrow> vi_owner (vg_priv s' v i) = Some v"
    "g_ver e = GICV3 \<Longrightarrow> vi_phys (vg_priv s' v i) = of_nat (v_phys e v)"
  using assms by (auto simp: booted_def vgic_cpu_init_def int_init_def split: gic_version.splits)

lemma itln_lt: "vgic_get_itln g n < 32"
proof -
  have "bit_extract w 0 5 = take_bit 5 w" for w by (simp add: bit_extract_def BIT_MASK_eq take_bit_eq_mask)
  then have "unat (bit_extract w 0 5) < 32" for w using take_bit_nat_less_exp [of 5 "unat w"] by (simp add: unsigned_take_bit_eq)
  then show ?thesis by (simp add: vgic_get_itln_def)
qed

lemma boot_inv:
  assumes e: "env_ok e" and b: "vgic_boot e d iidr va page s0 = Some s"
  shows "vgic_inv e s"
proof -
  obtain t where t: "vgic_init e d iidr va page s0 = Some t" "boot_cpus e (v_cpu_num e) t = Some s"
    using b by (auto simp: vgic_boot_def elim: bind_SomeE)
  have bt: "booted e (v_cpu_num e) t s" using boot_cpus_booted [OF e le_refl t(2)] .
  note i = vgic_init_fields [OF t(1)]
  have n: "vg_int_num s = vg_int_num t" "vg_spis s = vg_spis t" using bt by (auto simp: booted_def)
  have id: "vi_id (int_at s r) = ref_id r" if "is_ref e s r" for r
    using that n i(2) booted_priv(1) [OF bt] by (cases r) (auto simp: int_at_def)
  have "\<not> held_by e s v i r" for v i r using bt state_0 by (auto simp: held_by_def booted_def)
  then show ?thesis using id n(1) i(1) itln_lt [of "gic_env.truncate e" "gd_interrupt_num d"] booted_priv(2,3) [OF bt]
    unfolding vgic_inv_def by (auto simp: int_at_def)
qed

interpretation vgics: reach_system "vgic_step e" "vgic_inv e" "\<lambda>s. env_ok e \<and> (\<exists>d iidr va page s0. vgic_boot e d iidr va page s0 = Some s)" for e
  by unfold_locales (use vgic_step_inv boot_inv in blast)+

subsection \<open>Uniqueness\<close>


text \<open>A VM of two CPUs with version 2 and one list register each; interrupt 5 is sent to the first of them.\<close>

definition ex_int :: vgic_int where
  "ex_int = \<lparr>vi_owner = None, vi_route = 0, vi_phys = 0, vi_id = 0, vi_state = 0, vi_prio = 0, vi_cfg = 0, vi_lr = 0, vi_targets = 0,
     vi_sgi_pend = 0, vi_hw = False, vi_in_lr = False, vi_enabled = False\<rparr>"

definition ex_vgic :: vgic where
  "ex_vgic = \<lparr>vg_priv = (\<lambda>v i. ex_int), vg_spis = (\<lambda>i. ex_int), vg_int_num = 0, vg_CTLR = 0, vg_TYPER = 0, vg_IIDR = 0,
     vg_curr_lrs = (\<lambda>v i. 0), vg_gicr_TYPER = (\<lambda>v. 0),
     vg_gic = \<lparr>gs_log = [], gs_lrs = (\<lambda>c i. 0), gs_hcr = (\<lambda>c. 0), gs_cpu_map = (\<lambda>c. 0), gs_reserved = []\<rparr>,
     vg_regs = (\<lambda>v r. 0), vg_msgs = [], vg_emul = [], vg_maps = []\<rparr>"

definition ex_env :: vgic_env where
  "ex_env = \<lparr>g_ver = GICV2, g_cpu_id = 2, g_num_lrs = 1, g_read = (\<lambda>log c fr reg i. 1), g_typer = 0, g_clusters = [], g_plat_cpu_num = 4,
     v_vcpu = 0, v_phys = (\<lambda>v. v + 2), v_vmpidr = (\<lambda>v. of_nat v), v_cpu_num = 2, v_cpus = 0xc, v_vm_id = 1, v_ipi_id = 0,
     v_elrsr = (\<lambda>lrs. of_bool (GICH_LR_STATE GICV2 (lrs 0) = INV)), v_eisr = (\<lambda>lrs. of_bool (eoi_pending GICV2 (lrs 0))),
     v_misr = (\<lambda>lrs hcr. 0), v_shl = (\<lambda>n. 0), v_ids = (\<lambda>fr i. 0), v_gicr_addr = 0, v_mpidr_el1 = 0,
     v_gicv_addr = 0x2000, v_gicd_ptr = 0x10000, v_gicr_ptr = (\<lambda>c. 0)\<rparr>"

definition ex_dscrp :: gic_dscrp where
  "ex_dscrp = \<lparr>gd_gicc_addr = 0x4000, gd_gicd_addr = 0x8000, gd_gicr_addr = 0, gd_interrupt_num = 32\<rparr>"

definition ex_init :: vgic where
  "ex_init = the (vgic_init ex_env ex_dscrp 0 (Some 0x4000) (Some 0) ex_vgic)"

definition ex_booted :: vgic where
  "ex_booted = the (boot_cpus ex_env 2 ex_init)"

definition ex_sent :: vgic where
  "ex_sent = the (vgic_inject ex_env 5 1 ex_booted)"

lemma ex_env_ok: "env_ok ex_env"
  by (auto simp: env_ok_def ex_env_def lr_valid_def bit_1_iff intro: inj_onI)

lemma ex_env_fields:
  "g_ver ex_env = GICV2" "g_cpu_id ex_env = 2" "g_num_lrs ex_env = 1" "v_vcpu ex_env = 0" "v_phys ex_env v = v + 2" "v_cpu_num ex_env = 2"
  "v_elrsr ex_env lrs = of_bool (GICH_LR_STATE GICV2 (lrs 0) = INV)"
  by (simp_all add: ex_env_def)

lemma ex_init: "vgic_init ex_env ex_dscrp 0 (Some 0x4000) (Some 0) ex_vgic = Some ex_init"
  by (simp add: ex_init_def vgic_init_def ex_env_fields ex_dscrp_def Let_def)

lemma ex_boot_cpus: "boot_cpus ex_env 2 ex_init = Some ex_booted"
proof -
  have "bitmap_find_nth (word_bitmap (1 AND BIT_MASK 0 GIC_TARGET_BITS)) GIC_TARGET_BITS 1 0 True = 0" by code_simp
  then have "\<exists>z'. gic_cpu_init (gic_env.truncate (on_cpu ex_env v)) z = Some z'" for v z
    by (simp add: gic_cpu_init_def gicc_init_def clear_lrs_def gich_write_lr_def gic_rd_def on_cpu_def ex_env_def gic_env.defs Let_def upt_rec)
  then have "boot_cpu ex_env v s \<noteq> None" for v s by (metis boot_cpu_def bind.bind_lunit option.discI)
  then have "boot_cpus ex_env n s \<noteq> None" for n s by (induction n) (auto simp: bind_eq_None_conv)
  then show ?thesis by (simp add: ex_booted_def)
qed

lemma ex_boot: "vgic_boot ex_env ex_dscrp 0 (Some 0x4000) (Some 0) ex_vgic = Some ex_booted"
  using ex_init ex_boot_cpus by (simp add: vgic_boot_def ex_env_fields)

text \<open>What the sending of the interrupt meets.\<close>

lemma ex_booted_parts:
  "int_at ex_booted (Priv 0 5) = ex_int\<lparr>vi_owner := Some 0, vi_id := 5, vi_prio := 0xff, vi_enabled := True\<rparr>"
  "gs_lrs (vg_gic ex_booted) 2 0 = 0" "vg_curr_lrs ex_booted 0 0 = 0"
proof -
  have b: "booted ex_env 2 ex_init ex_booted"
    using boot_cpus_booted [OF ex_env_ok _ ex_boot_cpus] by (simp add: ex_env_fields)
  have i: "vg_priv ex_init = (\<lambda>v i. ex_int)" "vg_curr_lrs ex_init = (\<lambda>v i. 0)" using vgic_init_fields(3,4) [OF ex_init] by (simp_all add: ex_vgic_def)
  then show "int_at ex_booted (Priv 0 5) = ex_int\<lparr>vi_owner := Some 0, vi_id := 5, vi_prio := 0xff, vi_enabled := True\<rparr>"
    using b by (simp add: booted_def int_at_def vgic_cpu_init_def int_init_def ex_env_fields GIC_defs ex_int_def INV_def)
  have "lr_at ex_env ex_booted 0 0 = 0" using b by (simp add: booted_def ex_env_fields)
  then show "gs_lrs (vg_gic ex_booted) 2 0 = 0" by (simp add: lr_at_def ex_env_fields numeral_2_eq_2)
  show "vg_curr_lrs ex_booted 0 0 = 0" using b i by (simp add: booted_def)
qed

lemma lr_value_sgi:
  assumes "g_ver e = GICV2" "vi_id x < GIC_MAX_SGIS" "st AND ACT = 0" "sgi_sender (vi_sgi_pend x) = Some i" "vi_sgi_pend x AND NOT (push_bit i 1) = 0"
  shows "lr_value e st x =
    (((lr_field 0 10 (of_nat (vi_id x)) OR lr_field 23 5 (ucast (drop_bit 3 (vi_prio x)))) OR lr_field 10 3 (of_nat i)) OR push_bit 28 1, 0)"
  using assms by (simp add: lr_value_def Let_def vgic_int_is_hw_def LR_VID_LEN_def LR_STATE_OFF_def or.assoc)

definition ex_pending :: vgic_int where
  "ex_pending = ex_int\<lparr>vi_owner := Some 0, vi_id := 5, vi_prio := 0xff, vi_enabled := True, vi_sgi_pend := 2, vi_state := 1\<rparr>"

lemma ex_pending_fields:
  "\<not> vi_in_lr ex_pending" "vi_id ex_pending = 5" "vi_enabled ex_pending" "vi_state ex_pending = 1" "vi_sgi_pend ex_pending = 2"
  by (simp_all add: ex_pending_def ex_int_def)

lemma ex_lr_value:
  "GICH_LR_VID GICV2 (lr_word ex_env (fst (lr_value ex_env 1 ex_pending))) = 5"
  "GICH_LR_STATE GICV2 (lr_word ex_env (fst (lr_value ex_env 1 ex_pending))) \<noteq> INV"
proof -
  show "GICH_LR_VID GICV2 (lr_word ex_env (fst (lr_value ex_env 1 ex_pending))) = 5"
    using lr_value_vid [of ex_pending ex_env 1] by (simp add: ex_pending_fields ex_env_fields)
  have "sgi_sender 2 = Some 1" by (simp add: sgi_sender_def upt_rec)
  then have p: "g_ver ex_env = GICV2" "vi_id ex_pending < GIC_MAX_SGIS" "(1 :: u8) AND ACT = 0" "sgi_sender (vi_sgi_pend ex_pending) = Some 1"
    "vi_sgi_pend ex_pending AND NOT (push_bit 1 1) = 0" by (simp_all add: ex_env_fields ex_pending_fields GIC_defs ACT_def)
  have "bit (push_bit 28 (1 :: u64)) 28" unfolding bit_push_bit_iff bit_1_iff by simp
  then have "bit (fst (lr_value ex_env 1 ex_pending)) 28" unfolding lr_value_sgi [OF p] fst_conv bit_or_iff by blast
  then show "GICH_LR_STATE GICV2 (lr_word ex_env (fst (lr_value ex_env 1 ex_pending))) \<noteq> INV"
    unfolding state_INV by (simp add: lr_word_def ex_env_fields LR_STATE_OFF_def bit_simps)
qed

lemma ex_inject:
  "vgic_inject ex_env 5 1 ex_booted = Some ex_sent" "gs_lrs (vg_gic ex_sent) 2 0 = lr_word ex_env (fst (lr_value ex_env 1 ex_pending))"
proof -
  let ?r = "Priv 0 5"
  define s1 where "s1 = upd_int (\<lambda>x. x\<lparr>vi_sgi_pend := 2, vi_state := vi_state x OR 1\<rparr>) ?r ex_booted"
  have x: "int_at s1 ?r = ex_pending" by (simp add: s1_def int_at_upd ex_booted_parts ex_int_def ex_pending_def)
  have g: "vg_gic s1 = vg_gic ex_booted" "vg_curr_lrs s1 = vg_curr_lrs ex_booted" by (simp_all add: s1_def)
  have "GICH_LR_STATE GICV2 0 = 0" using state_0 [of ex_env] by (simp add: lr_valid_def INV_def ex_env_fields)
  then have f: "free_lr ex_env s1 = Some 0" by (simp add: free_lr_def cur_lrs_def ex_env_fields g ex_booted_parts bit_get_def INV_def upt_rec)
  obtain s2 where s2: "vgic_write_lr ex_env 0 ?r 0 s1 = Some s2" "gs_lrs (vg_gic s2) 2 0 = lr_word ex_env (fst (lr_value ex_env 1 ex_pending))"
    by (cases "lr_value ex_env 1 ex_pending") (simp add: vgic_write_lr_def release_prev_def x g ex_booted_parts gic_is_priv_def GIC_defs vgic_get_state_def
        gich_get_lr_def ex_env_fields Let_def write_lr_def gich_write_lr_def ex_pending_fields PEND_def lr_word_def)
  have "vgic_inject ex_env 5 1 ex_booted = map_option snd (vgic_add_lr ex_env 0 ?r s1)"
    using x by (simp add: vgic_inject_def vgic_get_int_def ex_env_fields vgic_int_is_hw_def gic_is_sgi_def vgic_inject_sgi_def vgic_remove_lr_def
        ex_booted_parts Let_def vgic_owns_def GIC_defs ex_int_def PEND_def INV_def s1_def ex_pending_fields)
  also have "\<dots> = Some s2" using f s2(1) x by (simp add: vgic_add_lr_def ex_pending_fields)
  finally show "vgic_inject ex_env 5 1 ex_booted = Some ex_sent" "gs_lrs (vg_gic ex_sent) 2 0 = lr_word ex_env (fst (lr_value ex_env 1 ex_pending))"
    using s2(2) by (simp_all add: ex_sent_def)
qed

lemma ex_held: "held_by ex_env ex_sent 0 0 (Priv 0 5)"
proof -
  have "lr_at ex_env ex_sent 0 0 = lr_word ex_env (fst (lr_value ex_env 1 ex_pending))"
    using ex_inject(2) by (simp add: lr_at_def ex_env_fields numeral_2_eq_2)
  then show ?thesis using ex_lr_value by (simp add: held_by_def ex_env_fields lr_valid_def ref_def GIC_defs)
qed


end
