(* ===== verification/Psci.thy ===== *)
theory Psci
  imports Vgic_Safety
begin

text \<open>
  Power management of the virtual CPUs of an ARMv8 guest: \<^verbatim>\<open>arch/armv8/psci.c\<close>, with the parts of \<^verbatim>\<open>arch/armv8/vm.c\<close> and
  \<^verbatim>\<open>arch/armv8/cpu.c\<close> that it calls. The state is that of a VM: the virtual interrupt controller with the general registers, and the
  power state, the remaining registers and the saved state of each virtual CPU. A virtual CPU always runs on the same physical one, and
  every CPU here has a virtual CPU. The locks are left out: each operation is undivided, but for the interleavings of
  \<open>on_step\<close>.
\<close>

subsection \<open>State\<close>

datatype psci_power = ON | OFF | ON_PENDING

record psci_ctx =
  pc_entrypoint :: u64
  pc_context_id :: u64
  pc_state :: psci_power

datatype arm_sysreg = TCR_EL2 | TTBR0_EL2 | MAIR_EL2 | CPTR_EL2 | HCR_EL2 | VMPIDR_EL2 | VTCR_EL2 | VTTBR_EL2
  | CNTVOFF_EL2 | SCTLR_EL1 | CNTKCTL_EL1 | PMCR_EL0

record psci_off_state =
  off_regs :: "arm_sysreg \<Rightarrow> u64"
  off_wakeup_reason :: nat
  off_flat_map :: u64
  off_gicc :: gicc_saved

record arm_vm =
  av_vgic :: vgic
  av_ctx :: "nat \<Rightarrow> psci_ctx"
  av_elr :: "nat \<Rightarrow> u64"
  av_spsr :: "nat \<Rightarrow> u64"
  av_sys :: "nat \<Rightarrow> arm_sysreg \<Rightarrow> u64"
  av_off :: "nat \<Rightarrow> psci_off_state"
  av_tlb :: "nat list"

text \<open>
  \<open>p_smc\<close> is the firmware: \<open>None\<close> when a call does not return, and the CPU continues at the entry point it gave. Three are physical
  addresses: of the flat page table, of the state saved, and of the entry point after a power down. The last four are the encodings of power
  states, which differ between the platforms (\<^verbatim>\<open>plat/psci.h\<close>).
\<close>

record psci_env =
  p_vgic :: vgic_env
  p_smc :: "u64 \<Rightarrow> u64 \<Rightarrow> u64 \<Rightarrow> u64 \<Rightarrow> u64 option"
  p_cpumsg_id :: nat
  p_flat_pa :: u64
  p_off_pa :: u64
  p_wake_pa :: u64
  p_lvl_0 :: u64
  p_standby :: u64
  p_powerdown :: u64
  p_type_bit :: u64

abbreviation self :: "psci_env \<Rightarrow> nat" where
  "self e \<equiv> v_vcpu (p_vgic e)"

definition upd_ctx :: "nat \<Rightarrow> (psci_ctx \<Rightarrow> psci_ctx) \<Rightarrow> arm_vm \<Rightarrow> arm_vm" where
  "upd_ctx v f s = s\<lparr>av_ctx := (av_ctx s)(v := f (av_ctx s v))\<rparr>"

subsection \<open>Virtual CPUs\<close>

definition SPSR_RESET :: u64 where "SPSR_RESET = 0x3c5"
definition SCTLR_RES1 :: u64 where "SCTLR_RES1 = 0x30c50830"
definition VTTBR_VMID_MSK :: u64 where "VTTBR_VMID_MSK = BIT_MASK 48 8"

definition vcpu_arch_reset_arm :: "nat \<Rightarrow> u64 \<Rightarrow> arm_vm \<Rightarrow> arm_vm" where
  "vcpu_arch_reset_arm v entry s =
     s\<lparr>av_vgic := (av_vgic s)\<lparr>vg_regs := (vg_regs (av_vgic s))(v := (\<lambda>r. 0))\<rparr>,
       av_elr := (av_elr s)(v := entry), av_spsr := (av_spsr s)(v := SPSR_RESET),
       av_sys := (av_sys s)(v := (av_sys s v)(CNTVOFF_EL2 := 0, SCTLR_EL1 := SCTLR_RES1, CNTKCTL_EL1 := 0, PMCR_EL0 := 0))\<rparr>"

definition writereg_arm :: "nat \<Rightarrow> nat \<Rightarrow> u64 \<Rightarrow> arm_vm \<Rightarrow> arm_vm" where
  "writereg_arm v reg val s = s\<lparr>av_vgic := vcpu_writereg_arm v reg val (av_vgic s)\<rparr>"

text \<open>\<open>root_pt_pa\<close> is the physical address of the VM's root page table.\<close>

definition vcpu_arch_init_arm :: "psci_env \<Rightarrow> u64 \<Rightarrow> arm_vm \<Rightarrow> arm_vm" where
  "vcpu_arch_init_arm e root_pt_pa s =
     (let v = self e; vm_id = v_vm_id (p_vgic e);
          s = s\<lparr>av_sys := (av_sys s)(v := (av_sys s v)(VMPIDR_EL2 := v_vmpidr (p_vgic e) v))\<rparr>;
          s = upd_ctx v (\<lambda>c. c\<lparr>pc_state := if v = 0 then ON else OFF\<rparr>) s;
          vttbr = (push_bit 48 (of_nat vm_id) AND VTTBR_VMID_MSK) OR (root_pt_pa AND NOT VTTBR_VMID_MSK);
          s = s\<lparr>av_sys := (av_sys s)(v := (av_sys s v)(VTTBR_EL2 := vttbr)), av_tlb := av_tlb s @ [vm_id]\<rparr>
      in s\<lparr>av_vgic := vgic_cpu_init (p_vgic e) v (av_vgic s)\<rparr>)"

definition vcpu_arch_run_arm :: "nat \<Rightarrow> arm_vm \<Rightarrow> run_result" where
  "vcpu_arch_run_arm v s = (if pc_state (av_ctx s v) = ON then ENTER_GUEST else CPU_IDLE)"

subsection \<open>Function numbers and results\<close>

definition PSCI_VERSION :: u64 where "PSCI_VERSION = 0x84000000"
definition PSCI_CPU_SUSPEND_AARCH64 :: u64 where "PSCI_CPU_SUSPEND_AARCH64 = 0xc4000001"
definition PSCI_CPU_OFF :: u64 where "PSCI_CPU_OFF = 0x84000002"
definition PSCI_CPU_ON_AARCH64 :: u64 where "PSCI_CPU_ON_AARCH64 = 0xc4000003"
definition PSCI_AFFINITY_INFO_AARCH32 :: u64 where "PSCI_AFFINITY_INFO_AARCH32 = 0x84000004"
definition PSCI_AFFINITY_INFO_AARCH64 :: u64 where "PSCI_AFFINITY_INFO_AARCH64 = 0xc4000004"
definition PSCI_FEATURES :: u64 where "PSCI_FEATURES = 0x8400000a"
definition PSCI_MIG_INFO_TYPE :: u64 where "PSCI_MIG_INFO_TYPE = 0x84000006"

definition PSCI_E_SUCCESS :: u64 where "PSCI_E_SUCCESS = 0"
definition PSCI_E_NOT_SUPPORTED :: u64 where "PSCI_E_NOT_SUPPORTED = -1"
definition PSCI_E_INVALID_PARAMS :: u64 where "PSCI_E_INVALID_PARAMS = -2"
definition PSCI_E_ALREADY_ON :: u64 where "PSCI_E_ALREADY_ON = -4"
definition PSCI_TOS_NOT_PRESENT_MP :: u64 where "PSCI_TOS_NOT_PRESENT_MP = 2"

lemmas PSCI_E_defs = PSCI_E_SUCCESS_def PSCI_E_NOT_SUPPORTED_def PSCI_E_INVALID_PARAMS_def PSCI_E_ALREADY_ON_def

definition PSCI_WAKEUP_CPU_OFF :: nat where "PSCI_WAKEUP_CPU_OFF = 0"
definition PSCI_WAKEUP_POWERDOWN :: nat where "PSCI_WAKEUP_POWERDOWN = 1"
definition PSCI_WAKEUP_IDLE :: nat where "PSCI_WAKEUP_IDLE = 2"
definition PSCI_MSG_ON :: nat where "PSCI_MSG_ON = 0"

definition is_psci_fid :: "u64 \<Rightarrow> bool" where
  "is_psci_fid fid \<longleftrightarrow> (fid AND 0xff000000 = 0xc4000000 \<or> fid AND 0xff000000 = 0x84000000) \<and> fid AND 0xffe0 = 0"

subsection \<open>Calls of the firmware\<close>

definition psci_version :: "psci_env \<Rightarrow> u64 option" where
  "psci_version e = p_smc e PSCI_VERSION 0 0 0"

definition psci_cpu_suspend :: "psci_env \<Rightarrow> u64 \<Rightarrow> u64 \<Rightarrow> u64 \<Rightarrow> u64 option" where
  "psci_cpu_suspend e power_state entrypoint context_id = p_smc e PSCI_CPU_SUSPEND_AARCH64 power_state entrypoint context_id"

definition psci_cpu_on :: "psci_env \<Rightarrow> u64 \<Rightarrow> u64 \<Rightarrow> u64 \<Rightarrow> u64 option" where
  "psci_cpu_on e target_cpu entrypoint context_id = p_smc e PSCI_CPU_ON_AARCH64 target_cpu entrypoint context_id"

definition psci_cpu_off :: "psci_env \<Rightarrow> u64 option" where
  "psci_cpu_off e = p_smc e PSCI_CPU_OFF 0 0 0"

definition psci_affinity_info :: "psci_env \<Rightarrow> u64 \<Rightarrow> u64 \<Rightarrow> u64 option" where
  "psci_affinity_info e target_affinity lowest_affinity_level = p_smc e PSCI_AFFINITY_INFO_AARCH64 target_affinity lowest_affinity_level 0"

definition psci_standby :: "psci_env \<Rightarrow> u64 option" where
  "psci_standby e = psci_cpu_suspend e (p_lvl_0 e OR p_standby e) 0 0"

text \<open>
  \<^verbatim>\<open>cpu_arch_init\<close> of \<^verbatim>\<open>cpu.c\<close>: the first CPU starts the others, in the order of their numbers. The result of a call is
  read as a 32-bit number. The calls made are returned; \<open>None\<close>: a CPU cannot be started, or has no identification.
\<close>

fun start_cpus :: "psci_env \<Rightarrow> nat \<Rightarrow> u64 \<Rightarrow> nat list \<Rightarrow> u64 list option" where
  "start_cpus e cpuid load_addr [] = Some []"
| "start_cpus e cpuid load_addr (core # cores) =
     (if core = cpuid then start_cpus e cpuid load_addr cores
      else
        do { mpidr \<leftarrow> cpu_id_to_mpidr (gic_env.truncate (p_vgic e)) core;
             result \<leftarrow> psci_cpu_on e mpidr load_addr 0;
             let result = (ucast result :: u32);
             if result = ucast PSCI_E_SUCCESS \<or> result = ucast PSCI_E_ALREADY_ON
             then map_option ((#) mpidr) (start_cpus e cpuid load_addr cores) else None })"

definition cpu_arch_init_arm :: "nat \<Rightarrow> psci_env \<Rightarrow> nat \<Rightarrow> u64 \<Rightarrow> u64 list option" where
  "cpu_arch_init_arm master e cpuid load_addr =
     (if cpuid = master then start_cpus e cpuid load_addr [0..<g_plat_cpu_num (p_vgic e)] else Some [])"

subsection \<open>Power down and wake up\<close>

definition saved_regs :: "arm_sysreg list" where
  "saved_regs = [TCR_EL2, TTBR0_EL2, MAIR_EL2, CPTR_EL2, HCR_EL2, VMPIDR_EL2, VTCR_EL2, VTTBR_EL2]"

definition psci_save_state :: "psci_env \<Rightarrow> nat \<Rightarrow> arm_vm \<Rightarrow> arm_vm" where
  "psci_save_state e wakeup_reason s =
     (let v = self e; st = av_off s v
      in s\<lparr>av_off := (av_off s)(v :=
            \<lparr>off_regs = (\<lambda>r. if r \<in> set saved_regs then av_sys s v r else off_regs st r), off_wakeup_reason = wakeup_reason,
             off_flat_map = p_flat_pa e, off_gicc = gicc_save_state (gic_env.truncate (p_vgic e)) (vg_gic (av_vgic s)) (off_gicc st)\<rparr>)\<rparr>)"

definition psci_restore_state :: "psci_env \<Rightarrow> arm_vm \<Rightarrow> arm_vm option" where
  "psci_restore_state e s =
     do { g \<leftarrow> gicc_restore_state (gic_env.truncate (p_vgic e)) (off_gicc (av_off s (self e))) (vg_gic (av_vgic s));
          Some (s\<lparr>av_vgic := (av_vgic s)\<lparr>vg_gic := g\<rparr>\<rparr>) }"

definition psci_power_down :: "psci_env \<Rightarrow> nat \<Rightarrow> arm_vm \<Rightarrow> u64 option \<times> arm_vm" where
  "psci_power_down e reason s =
     (psci_cpu_suspend e (p_lvl_0 e OR p_powerdown e) (p_wake_pa e) (p_off_pa e), psci_save_state e reason s)"

definition psci_wake_from_off :: "psci_env \<Rightarrow> arm_vm \<Rightarrow> arm_vm" where
  "psci_wake_from_off e s =
     (let v = self e; c = av_ctx s v in
      if pc_state c = ON_PENDING
      then writereg_arm v 0 (pc_context_id c) (upd_ctx v (\<lambda>c. c\<lparr>pc_state := ON\<rparr>) (vcpu_arch_reset_arm v (pc_entrypoint c) s))
      else s)"

definition psci_cpumsg_handler :: "psci_env \<Rightarrow> nat \<Rightarrow> arm_vm \<Rightarrow> arm_vm" where
  "psci_cpumsg_handler e event s = (if event = PSCI_MSG_ON then psci_wake_from_off e s else s)"

definition psci_wake_from_powerdown :: "psci_env \<Rightarrow> arm_vm \<Rightarrow> run_result \<times> arm_vm" where
  "psci_wake_from_powerdown e s =
     (let v = self e; c = av_ctx s v; s = writereg_arm v 0 (pc_context_id c) (vcpu_arch_reset_arm v (pc_entrypoint c) s)
      in (vcpu_arch_run_arm v s, s))"

text \<open>
  The messages that a CPU handles in \<^verbatim>\<open>cpu_idle_wakeup\<close>: those of this component, and those of the others, which change the interrupt
  controller.
\<close>

datatype vcpu_msg = PSCI_MSG nat | OTHER_MSG "vgic \<Rightarrow> vgic"

fun handle_msg :: "psci_env \<Rightarrow> vcpu_msg \<Rightarrow> arm_vm \<Rightarrow> arm_vm" where
  "handle_msg e (PSCI_MSG event) s = psci_cpumsg_handler e event s"
| "handle_msg e (OTHER_MSG f) s = s\<lparr>av_vgic := f (av_vgic s)\<rparr>"

definition psci_wake_from_idle :: "vcpu_msg list \<Rightarrow> psci_env \<Rightarrow> arm_vm \<Rightarrow> run_result \<times> arm_vm" where
  "psci_wake_from_idle msgs e s = (let s = fold (handle_msg e) msgs s in (vcpu_arch_run_arm (self e) s, s))"

text \<open>The inner \<open>None\<close>: the function returns to the code that enters the guest. The outer one: an unknown reason.\<close>

definition psci_wake :: "vcpu_msg list \<Rightarrow> psci_env \<Rightarrow> nat \<Rightarrow> arm_vm \<Rightarrow> (run_result option \<times> arm_vm) option" where
  "psci_wake msgs e handler_id s =
     do { s \<leftarrow> psci_restore_state e s;
          if handler_id = PSCI_WAKEUP_CPU_OFF then Some (None, psci_wake_from_off e s)
          else if handler_id = PSCI_WAKEUP_POWERDOWN then Some (map_prod Some id (psci_wake_from_powerdown e s))
          else if handler_id = PSCI_WAKEUP_IDLE then Some (map_prod Some id (psci_wake_from_idle msgs e s))
          else None }"

text \<open>
  \<^verbatim>\<open>cpu_arch_idle\<close>: after the power down, or when it is not supported, the CPU wakes up in \<^verbatim>\<open>cpu_idle_wakeup\<close>; the inner \<open>None\<close> is a call
  that does not return and wakes up in \<^verbatim>\<open>psci_wake\<close>.
\<close>

definition cpu_arch_idle_arm :: "vcpu_msg list \<Rightarrow> psci_env \<Rightarrow> arm_vm \<Rightarrow> (run_result option \<times> arm_vm) option" where
  "cpu_arch_idle_arm msgs e s =
     (let (err, s) = psci_power_down e PSCI_WAKEUP_IDLE s in
      case err of
        None \<Rightarrow> Some (None, s)
      | Some err \<Rightarrow> if err = 0 \<or> err = PSCI_E_NOT_SUPPORTED then Some (map_prod Some id (psci_wake_from_idle msgs e s)) else None)"

subsection \<open>Calls of the guest\<close>

text \<open>
  A call returns to the guest, or the CPU is powered down and the virtual CPU goes on after a wake up, or it is run again without a
  return. \<open>None\<close>: the hypervisor stops.
\<close>

datatype psci_out = RETURNS u64 | ASLEEP | RUNS run_result

fun smc_out :: "u64 option \<Rightarrow> psci_out" where
  "smc_out None = ASLEEP"
| "smc_out (Some ret) = RETURNS ret"

fun idle_out :: "run_result option \<Rightarrow> psci_out" where
  "idle_out None = ASLEEP"
| "idle_out (Some r) = RUNS r"

definition psci_cpu_suspend_handler :: "psci_env \<Rightarrow> u64 \<Rightarrow> u64 \<Rightarrow> u64 \<Rightarrow> arm_vm \<Rightarrow> psci_out \<times> arm_vm" where
  "psci_cpu_suspend_handler e power_state entrypoint context_id s =
     (if (ucast (power_state AND p_type_bit e) :: u32) \<noteq> 0
      then map_prod smc_out id (psci_power_down e PSCI_WAKEUP_POWERDOWN
             (upd_ctx (self e) (\<lambda>c. c\<lparr>pc_entrypoint := entrypoint, pc_context_id := context_id\<rparr>) s))
      else (RETURNS PSCI_E_SUCCESS, s))"

text \<open>\<^verbatim>\<open>cpu_idle\<close> does not return, so that the end of the handler is never reached.\<close>

definition psci_cpu_off_handler :: "vcpu_msg list \<Rightarrow> psci_env \<Rightarrow> arm_vm \<Rightarrow> (psci_out \<times> arm_vm) option" where
  "psci_cpu_off_handler msgs e s =
     map_option (map_prod idle_out id) (cpu_arch_idle_arm msgs e (upd_ctx (self e) (\<lambda>c. c\<lparr>pc_state := OFF\<rparr>) s))"

text \<open>The two parts of the critical section of \<^verbatim>\<open>psci_cpu_on_handler\<close>, which is protected by the lock of the calling virtual CPU.\<close>

definition cpu_on_test :: "nat \<Rightarrow> arm_vm \<Rightarrow> bool" where
  "cpu_on_test t s \<longleftrightarrow> pc_state (av_ctx s t) = OFF"

definition cpu_on_claim :: "nat \<Rightarrow> u64 \<Rightarrow> u64 \<Rightarrow> arm_vm \<Rightarrow> arm_vm" where
  "cpu_on_claim t entrypoint context_id s =
     upd_ctx t (\<lambda>c. c\<lparr>pc_state := ON_PENDING, pc_entrypoint := entrypoint, pc_context_id := context_id\<rparr>) s"

definition psci_on_msg :: "psci_env \<Rightarrow> cpu_msg" where
  "psci_on_msg e = \<lparr>msg_handler = p_cpumsg_id e, msg_event = PSCI_MSG_ON, msg_data = 0\<rparr>"

definition cpu_on_notify :: "psci_env \<Rightarrow> nat \<Rightarrow> arm_vm \<Rightarrow> arm_vm" where
  "cpu_on_notify e t s =
     s\<lparr>av_vgic := send (nat (vm_translate_to_pcpuid (v_cpus (p_vgic e)) t mod 2 ^ 64)) (psci_on_msg e) (av_vgic s)\<rparr>"

definition psci_cpu_on_handler :: "psci_env \<Rightarrow> u64 \<Rightarrow> u64 \<Rightarrow> u64 \<Rightarrow> arm_vm \<Rightarrow> psci_out \<times> arm_vm" where
  "psci_cpu_on_handler e target_cpu entrypoint context_id s =
     (case vm_get_vcpu_by_mpidr (p_vgic e) target_cpu of
        None \<Rightarrow> (RETURNS PSCI_E_INVALID_PARAMS, s)
      | Some t \<Rightarrow>
          if cpu_on_test t s then (RETURNS PSCI_E_SUCCESS, cpu_on_notify e t (cpu_on_claim t entrypoint context_id s))
          else (RETURNS PSCI_E_ALREADY_ON, s))"

definition psci_affinity_info_handler :: u64 where
  "psci_affinity_info_handler = 0"

definition psci_features_handler :: "u64 \<Rightarrow> u64" where
  "psci_features_handler feature_id =
     (if feature_id \<in> {PSCI_VERSION, PSCI_CPU_OFF, PSCI_CPU_SUSPEND_AARCH64, PSCI_CPU_ON_AARCH64, PSCI_AFFINITY_INFO_AARCH32, PSCI_FEATURES}
      then PSCI_E_SUCCESS else PSCI_E_NOT_SUPPORTED)"

definition psci_smc_handler ::
  "vcpu_msg list \<Rightarrow> psci_env \<Rightarrow> u32 \<Rightarrow> u64 \<Rightarrow> u64 \<Rightarrow> u64 \<Rightarrow> arm_vm \<Rightarrow> (psci_out \<times> arm_vm) option" where
  "psci_smc_handler msgs e smc_fid x1 x2 x3 s =
     (let fid = (ucast smc_fid :: u64) in
      if fid = PSCI_VERSION then Some (smc_out (psci_version e), s)
      else if fid = PSCI_CPU_OFF then psci_cpu_off_handler msgs e s
      else if fid = PSCI_CPU_SUSPEND_AARCH64 then Some (psci_cpu_suspend_handler e x1 x2 x3 s)
      else if fid = PSCI_CPU_ON_AARCH64 then Some (psci_cpu_on_handler e x1 x2 x3 s)
      else if fid = PSCI_AFFINITY_INFO_AARCH64 then Some (RETURNS psci_affinity_info_handler, s)
      else if fid = PSCI_FEATURES then Some (RETURNS (psci_features_handler x1), s)
      else if fid = PSCI_MIG_INFO_TYPE then Some (RETURNS PSCI_TOS_NOT_PRESENT_MP, s)
      else Some (RETURNS PSCI_E_NOT_SUPPORTED, s))"

subsection \<open>Starting a virtual CPU\<close>

definition on_vcpu :: "psci_env \<Rightarrow> nat \<Rightarrow> psci_env" where
  "on_vcpu e v = e\<lparr>p_vgic := on_cpu (p_vgic e) v\<rparr>"

lemma self_on_vcpu [simp]: "self (on_vcpu e v) = v"
  by (simp add: on_vcpu_def on_cpu_def)

text \<open>What the other virtual CPUs see of the state.\<close>

definition same_vcpu :: "nat \<Rightarrow> arm_vm \<Rightarrow> arm_vm \<Rightarrow> bool" where
  "same_vcpu v s s' \<longleftrightarrow> av_ctx s' v = av_ctx s v \<and> av_elr s' v = av_elr s v \<and> av_spsr s' v = av_spsr s v \<and> av_sys s' v = av_sys s v \<and>
     vg_regs (av_vgic s') v = vg_regs (av_vgic s) v"

lemmas psci_defs = psci_cpu_on_handler_def cpu_on_test_def cpu_on_claim_def cpu_on_notify_def psci_cpumsg_handler_def psci_wake_from_off_def
  vcpu_arch_reset_arm_def writereg_arm_def vcpu_writereg_arm_def upd_ctx_def send_def vcpu_arch_run_arm_def

text \<open>
  C26: A guest starts a virtual CPU that is off: the call succeeds, sends one message to the physical CPU of the target, and leaves the target
  idle; when the target handles the message, it runs the guest at the given entry point, with the context number in the first
  register and every other register cleared. No other virtual CPU changes.
\<close>

theorem psci_cpu_on_starts:
  assumes "vm_get_vcpu_by_mpidr (p_vgic e) target = Some t" "pc_state (av_ctx s t) = OFF"
    "psci_cpu_on_handler e target entrypoint context_id s = (ret, s1)" "psci_cpumsg_handler (on_vcpu e t) PSCI_MSG_ON s1 = s2"
  shows "ret = RETURNS PSCI_E_SUCCESS \<and>
    vg_msgs (av_vgic s1) = vg_msgs (av_vgic s) @ [(nat (vm_translate_to_pcpuid (v_cpus (p_vgic e)) t mod 2 ^ 64), psci_on_msg e)] \<and>
    vcpu_arch_run_arm t s1 = CPU_IDLE \<and> vcpu_arch_run_arm t s2 = ENTER_GUEST \<and> av_elr s2 t = entrypoint \<and>
    (\<forall>r. vcpu_readreg_arm (av_vgic s2) t r = (if r = 0 then context_id else 0)) \<and> (\<forall>v. v \<noteq> t \<longrightarrow> same_vcpu v s s2)"
  using assms by (auto simp: psci_defs vcpu_readreg_arm_def same_vcpu_def PSCI_MSG_ON_def)

text \<open>The VM of the example of the interrupt controller, with firmware that supports none of the calls.\<close>

definition ex_psci_env :: psci_env where
  "ex_psci_env = \<lparr>p_vgic = ex_env, p_smc = (\<lambda>fid a b c. Some PSCI_E_NOT_SUPPORTED), p_cpumsg_id = 1, p_flat_pa = 0, p_off_pa = 0,
     p_wake_pa = 0, p_lvl_0 = 0, p_standby = 0, p_powerdown = 0x40000000, p_type_bit = 0x40000000\<rparr>"

definition ex_arm_vm :: arm_vm where
  "ex_arm_vm = \<lparr>av_vgic = ex_vgic, av_ctx = (\<lambda>v. \<lparr>pc_entrypoint = 0, pc_context_id = 0, pc_state = if v = 0 then ON else OFF\<rparr>), av_elr = (\<lambda>v. 0),
     av_spsr = (\<lambda>v. 0), av_sys = (\<lambda>v r. 0),
     av_off = (\<lambda>v. \<lparr>off_regs = (\<lambda>r. 0), off_wakeup_reason = 0, off_flat_map = 0,
       off_gicc = \<lparr>sv_regs = (\<lambda>r. 0), sv_enabler = 0, sv_prio = (\<lambda>i. 0), sv_hcr = 0, sv_lr = (\<lambda>i. 0)\<rparr>\<rparr>), av_tlb = []\<rparr>"

lemma ex_target: "vm_get_vcpu_by_mpidr (p_vgic ex_psci_env) 1 = Some 1"
proof -
  have "[0..<v_cpu_num ex_env] = [0, 1]" by (simp add: ex_env_fields upt_rec)
  moreover have "(0 :: u64) AND MPIDR_AFF_MSK \<noteq> 1 AND MPIDR_AFF_MSK" by code_simp
  ultimately show ?thesis by (simp add: vm_get_vcpu_by_mpidr_def ex_psci_env_def) (simp add: ex_env_def)
qed

lemma ex_arm_state: "pc_state (av_ctx ex_arm_vm v) = (if v = 0 then ON else OFF)"
  by (simp add: ex_arm_vm_def)

theorem psci_cpu_on_starts_witness:
  "(let s2 = psci_cpumsg_handler (on_vcpu ex_psci_env 1) PSCI_MSG_ON (snd (psci_cpu_on_handler ex_psci_env 1 0x80000 7 ex_arm_vm))
    in vcpu_arch_run_arm 1 s2 = ENTER_GUEST \<and> av_elr s2 1 = 0x80000)"
  using psci_cpu_on_starts [where e=ex_psci_env and target=1 and t=1 and s=ex_arm_vm and entrypoint="0x80000" and context_id=7, OF ex_target _
      surjective_pairing refl]
  by (simp add: ex_arm_state Let_def)

subsection \<open>Ordering\<close>

text \<open>
  The calls of a VM's virtual CPUs, the handling of their messages and their wake ups, each one undivided. A virtual CPU makes calls while
  it is on, and one that is not on may go idle again. With the state go the numbers of successful starts and of power offs of each virtual CPU.
\<close>

type_synonym counted_vm = "arm_vm \<times> (nat \<Rightarrow> nat) \<times> (nat \<Rightarrow> nat)"

inductive psci_step :: "psci_env \<Rightarrow> counted_vm \<Rightarrow> counted_vm \<Rightarrow> bool" for e where
  started: "pc_state (av_ctx s v) = ON \<Longrightarrow> psci_cpu_on_handler (on_vcpu e v) target entrypoint context_id s = (RETURNS PSCI_E_SUCCESS, s') \<Longrightarrow>
    vm_get_vcpu_by_mpidr (p_vgic e) target = Some t \<Longrightarrow> psci_step e (s, ons, offs) (s', ons(t := ons t + 1), offs)"
| refused: "pc_state (av_ctx s v) = ON \<Longrightarrow> psci_cpu_on_handler (on_vcpu e v) target entrypoint context_id s = (RETURNS ret, s') \<Longrightarrow>
    ret \<noteq> PSCI_E_SUCCESS \<Longrightarrow> psci_step e (s, ons, offs) (s', ons, offs)"
| off: "pc_state (av_ctx s v) = ON \<Longrightarrow> psci_cpu_off_handler msgs (on_vcpu e v) s = Some (r, s') \<Longrightarrow>
    psci_step e (s, ons, offs) (s', ons, offs(v := offs v + 1))"
| suspend: "pc_state (av_ctx s v) = ON \<Longrightarrow> psci_cpu_suspend_handler (on_vcpu e v) power_state entrypoint context_id s = (r, s') \<Longrightarrow>
    psci_step e (s, ons, offs) (s', ons, offs)"
| message: "psci_step e (s, ons, offs) (handle_msg (on_vcpu e v) m s, ons, offs)"
| wake: "psci_wake msgs (on_vcpu e v) reason s = Some (r, s') \<Longrightarrow> psci_step e (s, ons, offs) (s', ons, offs)"
| idle: "pc_state (av_ctx s v) \<noteq> ON \<Longrightarrow> cpu_arch_idle_arm msgs (on_vcpu e v) s = Some (r, s') \<Longrightarrow>
    psci_step e (s, ons, offs) (s', ons, offs)"

definition powered :: "arm_vm \<Rightarrow> nat \<Rightarrow> nat" where
  "powered s v = (if pc_state (av_ctx s v) = OFF then 0 else 1)"

definition balanced :: "(nat \<Rightarrow> nat) \<Rightarrow> counted_vm \<Rightarrow> bool" where
  "balanced base z \<longleftrightarrow> (case z of (s, ons, offs) \<Rightarrow> \<forall>v. base v + ons v = offs v + powered s v)"

lemma powered_simps [simp]:
  "powered (writereg_arm v r x s) = powered s" "powered (s\<lparr>av_vgic := g\<rparr>) = powered s" "powered (psci_save_state e w s) = powered s"
  "powered (vcpu_arch_reset_arm v x s) = powered s"
  "powered (upd_ctx v f s) = (powered s)(v := if pc_state (f (av_ctx s v)) = OFF then 0 else 1)"
  by (auto simp: powered_def fun_eq_iff writereg_arm_def psci_save_state_def vcpu_arch_reset_arm_def upd_ctx_def Let_def)

lemma powered_wake_from_off [simp]: "powered (psci_wake_from_off e s) = powered s"
  by (auto simp: psci_wake_from_off_def Let_def vcpu_arch_reset_arm_def) (auto simp: powered_def)

lemma powered_handle_msg [simp]: "powered (handle_msg e m s) = powered s"
  by (cases m) (simp_all add: psci_cpumsg_handler_def)

lemma powered_handle_msgs [simp]: "powered (fold (handle_msg e) msgs s) = powered s"
  by (induction msgs arbitrary: s) simp_all

lemma powered_idle: "cpu_arch_idle_arm msgs e s = Some (r, s') \<Longrightarrow> powered s' = powered s"
  by (auto simp: cpu_arch_idle_arm_def psci_power_down_def psci_wake_from_idle_def Let_def split: option.splits if_splits)

lemma powered_wake: "psci_wake msgs e reason s = Some (r, s') \<Longrightarrow> powered s' = powered s"
  by (auto simp: psci_wake_def psci_restore_state_def psci_wake_from_powerdown_def psci_wake_from_idle_def Let_def
      split: if_splits elim!: bind_SomeE)

lemma powered_suspend: "psci_cpu_suspend_handler e p x c s = (r, s') \<Longrightarrow> powered s' = powered s"
  by (auto simp: psci_cpu_suspend_handler_def psci_power_down_def fun_eq_iff split: if_splits) (auto simp: powered_def)

lemma powered_on:
  "psci_cpu_on_handler e target x c s = (RETURNS ret, s') \<Longrightarrow>
   if ret = PSCI_E_SUCCESS then \<exists>t. vm_get_vcpu_by_mpidr (p_vgic e) target = Some t \<and> powered s t = 0 \<and> powered s' = (powered s)(t := 1)
   else powered s' = powered s"
  by (auto simp: psci_cpu_on_handler_def cpu_on_test_def cpu_on_claim_def cpu_on_notify_def powered_def PSCI_E_defs split: option.splits if_splits)

lemma powered_off:
  "psci_cpu_off_handler msgs e s = Some (r, s') \<Longrightarrow> powered s' = (powered s)(self e := 0)"
  by (auto simp: psci_cpu_off_handler_def dest!: powered_idle)

lemma get_vcpu_on_vcpu [simp]: "vm_get_vcpu_by_mpidr (p_vgic (on_vcpu e v)) m = vm_get_vcpu_by_mpidr (p_vgic e) m"
  by (simp add: vm_get_vcpu_by_mpidr_def on_vcpu_def on_cpu_def)

lemma balanced_step: "psci_step e z z' \<Longrightarrow> balanced base z \<Longrightarrow> balanced base z'"
proof (induction rule: psci_step.induct)
  case (started s v target entrypoint context_id s' t ons offs)
  then show ?case using powered_on [OF started(2)] by (auto simp: balanced_def)
next
  case (refused s v target entrypoint context_id ret s' ons offs)
  then show ?case using powered_on [OF refused(2)] by (auto simp: balanced_def)
next
  case (off s v msgs r s' ons offs)
  then have "powered s v = 1" by (simp add: powered_def)
  then show ?case using off powered_off [OF off(2)] by (auto simp: balanced_def)
qed (auto simp: balanced_def dest: powered_suspend powered_wake powered_idle)

interpretation psci: step_system "psci_step e" "balanced base"
  by unfold_locales (rule balanced_step)



subsection \<open>Concurrent starts\<close>

text \<open>
  \<^verbatim>\<open>psci_cpu_on_handler\<close> in steps, run by several virtual CPUs for the same target. The lock that a caller takes is its
  own.
\<close>

datatype on_phase = CALLED u64 u64 | LOCKED u64 u64 | TESTED u64 u64 bool | CLAIMED | RETURNED u64

inductive on_step :: "psci_env \<Rightarrow> nat \<Rightarrow> arm_vm \<times> (nat \<Rightarrow> bool) \<times> (nat \<Rightarrow> on_phase) \<Rightarrow> arm_vm \<times> (nat \<Rightarrow> bool) \<times> (nat \<Rightarrow> on_phase) \<Rightarrow> bool"
  for e t where
  take: "ph v = CALLED x c \<Longrightarrow> \<not> lk v \<Longrightarrow> on_step e t (s, lk, ph) (s, lk(v := True), ph(v := LOCKED x c))"
| test: "ph v = LOCKED x c \<Longrightarrow> on_step e t (s, lk, ph) (s, lk, ph(v := TESTED x c (cpu_on_test t s)))"
| claim: "ph v = TESTED x c True \<Longrightarrow> on_step e t (s, lk, ph) (cpu_on_claim t x c s, lk(v := False), ph(v := CLAIMED))"
| busy: "ph v = TESTED x c False \<Longrightarrow> on_step e t (s, lk, ph) (s, lk(v := False), ph(v := RETURNED PSCI_E_ALREADY_ON))"
| notify: "ph v = CLAIMED \<Longrightarrow> on_step e t (s, lk, ph) (cpu_on_notify e t s, lk, ph(v := RETURNED PSCI_E_SUCCESS))"

lemmas on_step_intros = on_step.take on_step.test on_step.claim on_step.busy on_step.notify

text \<open>The steps of one caller alone are those of the handler.\<close>

lemma on_steps_handler:
  assumes "vm_get_vcpu_by_mpidr (p_vgic e) target = Some t" "psci_cpu_on_handler e target x c s = (RETURNS ret, s')" "ph v = CALLED x c" "\<not> lk v"
  shows "\<exists>ph'. rtranclp (on_step e t) (s, lk, ph) (s', lk, ph') \<and> ph' v = RETURNED ret"
proof -
  have l: "rtranclp (on_step e t) (s, lk, ph) (s, lk(v := True), ph(v := TESTED x c (cpu_on_test t s)))"
    using on_step.take [of ph v x c lk e t s] on_step.test [of "ph(v := LOCKED x c)" v x c e t s "lk(v := True)"] assms(3,4)
    by (auto intro: rtranclp.rtrancl_into_rtrancl)
  have u: "lk(v := True, v := False) = lk" using assms(4) by (auto simp: fun_upd_idem)
  show ?thesis
  proof (cases "cpu_on_test t s")
    case True
    let ?s = "cpu_on_claim t x c s" and ?p = "ph(v := TESTED x c True)"
    have "on_step e t (s, lk(v := True), ?p) (?s, lk, ?p(v := CLAIMED))"
      using on_step.claim [of ?p v x c e t s "lk(v := True)"] u by simp
    moreover have "on_step e t (?s, lk, ?p(v := CLAIMED)) (cpu_on_notify e t ?s, lk, ?p(v := CLAIMED, v := RETURNED PSCI_E_SUCCESS))"
      by (rule on_step.notify) simp
    moreover have "ret = PSCI_E_SUCCESS" "s' = cpu_on_notify e t ?s" using assms(1,2) True by (auto simp: psci_cpu_on_handler_def)
    ultimately show ?thesis using l True by (intro exI [of _ "?p(v := CLAIMED, v := RETURNED PSCI_E_SUCCESS)"]) auto
  next
    case False
    let ?p = "ph(v := TESTED x c False)"
    have "on_step e t (s, lk(v := True), ?p) (s, lk, ?p(v := RETURNED PSCI_E_ALREADY_ON))"
      using on_step.busy [of ?p v x c e t s "lk(v := True)"] u by simp
    moreover have "ret = PSCI_E_ALREADY_ON" "s' = s" using assms(1,2) False by (auto simp: psci_cpu_on_handler_def)
    ultimately show ?thesis using l False by (intro exI [of _ "?p(v := RETURNED PSCI_E_ALREADY_ON)"]) auto
  qed
qed

text \<open>
  Two virtual CPUs that start the same target at the same time can both be told that they did: the first entry point is lost. The lock of
  the target would have excluded this.
\<close>

lemma psci_cpu_on_race:
  assumes "pc_state (av_ctx s t) = OFF" "v \<noteq> w" "ph v = CALLED x c" "ph w = CALLED y d" "\<not> lk v" "\<not> lk w"
  shows "\<exists>s' lk' ph'. rtranclp (on_step e t) (s, lk, ph) (s', lk', ph') \<and> ph' v = RETURNED PSCI_E_SUCCESS \<and> ph' w = RETURNED PSCI_E_SUCCESS \<and>
    pc_entrypoint (av_ctx s' t) = y"
proof -
  let ?p = "ph(v := LOCKED x c, v := TESTED x c True)" and ?l = "lk(v := True, w := True)"
  let ?q = "?p(w := LOCKED y d, w := TESTED y d True)" and ?s = "cpu_on_claim t y d (cpu_on_claim t x c s)"
  let ?r = "?q(v := CLAIMED, w := CLAIMED, v := RETURNED PSCI_E_SUCCESS, w := RETURNED PSCI_E_SUCCESS)"
  have t: "cpu_on_test t s" using assms(1) by (simp add: cpu_on_test_def)
  have "rtranclp (on_step e t) (s, lk, ph) (s, lk(v := True), ?p)"
    using on_step.take [of ph v x c lk e t s] on_step.test [of "ph(v := LOCKED x c)" v x c e t s "lk(v := True)"] assms t
    by (auto intro: rtranclp.rtrancl_into_rtrancl)
  moreover have "on_step e t (s, lk(v := True), ?p) (s, ?l, ?p(w := LOCKED y d))" by (rule on_step.take) (use assms in auto)
  moreover have "on_step e t (s, ?l, ?p(w := LOCKED y d)) (s, ?l, ?q)"
    using on_step.test [of "?p(w := LOCKED y d)" w y d e t s ?l] t by simp
  moreover have "on_step e t (s, ?l, ?q) (cpu_on_claim t x c s, ?l(v := False), ?q(v := CLAIMED))"
    by (rule on_step.claim) (use assms(2) in simp)
  moreover have "on_step e t (cpu_on_claim t x c s, ?l(v := False), ?q(v := CLAIMED)) (?s, ?l(v := False, w := False), ?q(v := CLAIMED, w := CLAIMED))"
    by (rule on_step.claim) (use assms(2) in simp)
  moreover have "on_step e t (?s, ?l(v := False, w := False), ?q(v := CLAIMED, w := CLAIMED))
      (cpu_on_notify e t ?s, ?l(v := False, w := False), ?q(v := CLAIMED, w := CLAIMED, v := RETURNED PSCI_E_SUCCESS))"
    by (rule on_step.notify) (use assms(2) in simp)
  moreover have "on_step e t (cpu_on_notify e t ?s, ?l(v := False, w := False), ?q(v := CLAIMED, w := CLAIMED, v := RETURNED PSCI_E_SUCCESS))
      (cpu_on_notify e t (cpu_on_notify e t ?s), ?l(v := False, w := False), ?r)"
    by (rule on_step.notify) (use assms(2) in simp)
  ultimately have "rtranclp (on_step e t) (s, lk, ph) (cpu_on_notify e t (cpu_on_notify e t ?s), ?l(v := False, w := False), ?r)"
    by (meson rtranclp.rtrancl_into_rtrancl)
  moreover have "pc_entrypoint (av_ctx (cpu_on_notify e t (cpu_on_notify e t ?s)) t) = y" by (simp add: cpu_on_notify_def cpu_on_claim_def upd_ctx_def)
  ultimately show ?thesis using assms(2)
    by (intro exI [of _ "cpu_on_notify e t (cpu_on_notify e t ?s)"] exI [of _ "?l(v := False, w := False)"] exI [of _ ?r] conjI) simp_all
qed

end
