(* ===== verification/Aborts.thy ===== *)
theory Aborts
  imports Psci Ipc
begin

text \<open>
  Exits of an ARMv8 guest, \<^verbatim>\<open>arch/armv8/aborts.c\<close>: the hypervisor decodes the syndrome of the exception and emulates the access, calls
  the power management or serves the hypercall. Every exit is a step of the virtual interrupt controller.
\<close>

subsection \<open>Syndrome\<close>

record exception =
  x_esr :: u32
  x_far :: u64
  x_hpfar :: u64

definition ESR_EC_HVC64 :: nat where "ESR_EC_HVC64 = 0x16"
definition ESR_EC_SMC64 :: nat where "ESR_EC_SMC64 = 0x17"
definition ESR_EC_SYSRG :: nat where "ESR_EC_SYSRG = 0x18"
definition ESR_EC_DALEL :: nat where "ESR_EC_DALEL = 0x24"

lemmas ESR_EC_defs = ESR_EC_HVC64_def ESR_EC_SMC64_def ESR_EC_SYSRG_def ESR_EC_DALEL_def

definition ESR_ISS_DA_WnR_BIT :: u64 where "ESR_ISS_DA_WnR_BIT = push_bit 6 1"
definition ESR_ISS_DA_FnV_BIT :: u64 where "ESR_ISS_DA_FnV_BIT = push_bit 10 1"
definition ESR_ISS_DA_ISV_BIT :: u64 where "ESR_ISS_DA_ISV_BIT = push_bit 24 1"
definition ESR_ISS_DA_DSFC_CODE :: u64 where "ESR_ISS_DA_DSFC_CODE = 0x3c"
definition ESR_ISS_DA_DSFC_TRNSLT :: u64 where "ESR_ISS_DA_DSFC_TRNSLT = 4"
definition ESR_ISS_SYSREG_ADDR :: u64 where "ESR_ISS_SYSREG_ADDR = 0x3ffc1e"
definition ESR_ISS_SYSREG_DIR :: u64 where "ESR_ISS_SYSREG_DIR = 1"

datatype abort_error = NO_INFORMATION | NOT_TRANSLATION_FAULT | NO_EMULATION_HANDLER | EMULATION_FAILED | HANDLER_STOPPED | NO_ABORT_HANDLER

text \<open>The guest goes on with the exception return, or not: as in \<open>psci_out\<close>.\<close>

datatype exit_out = RESUMES | LEAVES psci_out

type_synonym exit_result = "abort_error + exit_out \<times> arm_vm"

text \<open>The environment: with the power management, the configuration of the VM for communication.\<close>

record abort_env = psci_env +
  a_ipcs :: "ipc list"
  a_shmem :: "shmem list"
  a_ipc_cpumsg_id :: nat

definition pc_step :: "u64 \<Rightarrow> u64" where
  "pc_step il = 2 + 2 * il"

definition advance_elr :: "nat \<Rightarrow> u64 \<Rightarrow> arm_vm \<Rightarrow> arm_vm" where
  "advance_elr v il s = s\<lparr>av_elr := (av_elr s)(v := av_elr s v + pc_step il)\<rparr>"

subsection \<open>Emulated devices\<close>

text \<open>\<^verbatim>\<open>vm_emul_get\<close> on the list of the VM.\<close>

fun node_match :: "nat \<Rightarrow> vgic_node \<Rightarrow> vgic_emul option" where
  "node_match a (VMEM va pa sz h) = (if va \<le> a \<and> a < (va + sz) mod 2 ^ 64 then Some h else None)"
| "node_match a (VREG reg h) = (if reg = a then Some h else None)"

fun emul_get_arm :: "vgic_node list \<Rightarrow> nat \<Rightarrow> vgic_emul option" where
  "emul_get_arm [] a = None"
| "emul_get_arm (node # nodes) a = (case node_match a node of Some h \<Rightarrow> Some h | None \<Rightarrow> emul_get_arm nodes a)"

definition run_emul_arm :: "vgic_emul \<Rightarrow> vgic_env \<Rightarrow> emul_access \<Rightarrow> vgic \<Rightarrow> (bool \<times> vgic) option" where
  "run_emul_arm h e acc s =
     (case h of
        VGICD \<Rightarrow> vgicd_emul_handler e acc s
      | VGICR \<Rightarrow> vgicr_emul_handler e acc s
      | ICC_SGIR \<Rightarrow> Some (vgic_icc_sgir_handler e acc s)
      | ICC_SRE_EL1 \<Rightarrow> Some (vgic_icc_sre_handler e acc s))"

text \<open>The call of the handler and what follows, common to accesses of memory and of system registers.\<close>

definition emulate :: "abort_env \<Rightarrow> u64 \<Rightarrow> emul_access \<Rightarrow> arm_vm \<Rightarrow> exit_result" where
  "emulate e il emul s =
     (case emul_get_arm (vg_emul (av_vgic s)) (acc_addr emul) of
        None \<Rightarrow> Inl NO_EMULATION_HANDLER
      | Some h \<Rightarrow>
          (case run_emul_arm h (p_vgic e) emul (av_vgic s) of
             None \<Rightarrow> Inl HANDLER_STOPPED
           | Some (ok, g) \<Rightarrow>
               if ok then Inr (RESUMES, advance_elr (self (psci_env.truncate e)) il (s\<lparr>av_vgic := g\<rparr>)) else Inl EMULATION_FAILED))"

subsection \<open>Handlers\<close>

definition data_access :: "u64 \<Rightarrow> u64 \<Rightarrow> emul_access" where
  "data_access iss far =
     \<lparr>acc_addr = unat far, acc_write = (iss AND ESR_ISS_DA_WnR_BIT \<noteq> 0), acc_sign_ext = (bit_extract iss 21 1 \<noteq> 0),
      acc_width = 2 ^ unat (bit_extract iss 22 2), acc_reg = unat (bit_extract iss 16 5), acc_reg_width = 4 + 4 * unat (bit_extract iss 15 1)\<rparr>"

definition aborts_data_lower :: "abort_env \<Rightarrow> u64 \<Rightarrow> u64 \<Rightarrow> u64 \<Rightarrow> arm_vm \<Rightarrow> exit_result" where
  "aborts_data_lower e iss far il s =
     (if iss AND ESR_ISS_DA_ISV_BIT = 0 \<or> iss AND ESR_ISS_DA_FnV_BIT \<noteq> 0 then Inl NO_INFORMATION
      else if bit_extract iss 0 6 AND ESR_ISS_DA_DSFC_CODE \<noteq> ESR_ISS_DA_DSFC_TRNSLT then Inl NOT_TRANSLATION_FAULT
      else emulate e il (data_access iss far) s)"

text \<open>\<open>msgs\<close> are the messages handled if the virtual CPU goes idle and wakes up during the call.\<close>

definition smc64_handler :: "vcpu_msg list \<Rightarrow> abort_env \<Rightarrow> u64 \<Rightarrow> u64 \<Rightarrow> u64 \<Rightarrow> arm_vm \<Rightarrow> exit_result" where
  "smc64_handler msgs e iss far il s =
     (let pe = psci_env.truncate e; v = self pe; x = vg_regs (av_vgic s) v; smc_fid = x 0;
          r = (if is_psci_fid smc_fid then psci_smc_handler msgs pe (ucast smc_fid) (x 1) (x 2) (x 3) s else Some (RETURNS (- 1), s))
      in case r of
           None \<Rightarrow> Inl HANDLER_STOPPED
         | Some (RETURNS ret, s) \<Rightarrow> Inr (RESUMES, advance_elr v il (writereg_arm v 0 ret s))
         | Some (out, s) \<Rightarrow> Inr (LEAVES out, s))"

text \<open>\<^verbatim>\<open>ipc_hypercall\<close>, as in \<open>Ipc\<close>, on the state of this port.\<close>

definition ipc_hypercall_arm :: "abort_env \<Rightarrow> u64 \<Rightarrow> u64 \<Rightarrow> u64 \<Rightarrow> vgic \<Rightarrow> int \<times> vgic" where
  "ipc_hypercall_arm e arg0 arg1 arg2 s =
     (let ipc_id = unat arg0;
          shmem = (if ipc_id < length (a_ipcs e) then ipc_get_shmem (a_shmem e) (ipc_shmem_id (a_ipcs e ! ipc_id)) else None)
      in case shmem of
           None \<Rightarrow> (- HC_E_INVAL_ARGS, s)
         | Some k \<Rightarrow>
             let data = ipc_msg_raw (of_nat (ipc_shmem_id (a_ipcs e ! ipc_id))) (ucast arg1);
                 msg = \<lparr>msg_handler = a_ipc_cpumsg_id e, msg_event = IPC_NOTIFY, msg_data = data\<rparr>
             in (- HC_E_SUCCESS, send_mask (p_vgic e) (shm_cpu_masters (a_shmem e ! k) AND NOT (v_cpus (p_vgic e))) msg s))"

definition hvc64_handler :: "abort_env \<Rightarrow> u64 \<Rightarrow> u64 \<Rightarrow> u64 \<Rightarrow> arm_vm \<Rightarrow> exit_result" where
  "hvc64_handler e iss far il s =
     (let v = self (psci_env.truncate e); x = vg_regs (av_vgic s) v;
          (ret, g) = (if x 0 = of_nat HC_IPC then ipc_hypercall_arm e (x 1) (x 2) (x 3) (av_vgic s) else (- HC_E_INVAL_ID, av_vgic s))
      in Inr (RESUMES, writereg_arm v 0 (of_int ret) (s\<lparr>av_vgic := g\<rparr>)))"

definition sysreg_access :: "u64 \<Rightarrow> emul_access" where
  "sysreg_access iss =
     \<lparr>acc_addr = unat (iss AND ESR_ISS_SYSREG_ADDR), acc_write = (iss AND ESR_ISS_SYSREG_DIR = 0), acc_sign_ext = False, acc_width = 8,
      acc_reg = unat (bit_extract iss 5 5), acc_reg_width = 8\<rparr>"

definition sysreg_handler :: "abort_env \<Rightarrow> u64 \<Rightarrow> u64 \<Rightarrow> u64 \<Rightarrow> arm_vm \<Rightarrow> exit_result" where
  "sysreg_handler e iss far il s = emulate e il (sysreg_access iss) s"

definition abort_handlers :: "vcpu_msg list \<Rightarrow> (abort_env \<Rightarrow> u64 \<Rightarrow> u64 \<Rightarrow> u64 \<Rightarrow> arm_vm \<Rightarrow> exit_result) option list" where
  "abort_handlers msgs =
     (replicate 64 None)
       [ESR_EC_DALEL := Some aborts_data_lower, ESR_EC_SMC64 := Some (smc64_handler msgs), ESR_EC_SYSRG := Some sysreg_handler,
        ESR_EC_HVC64 := Some hvc64_handler]"

definition aborts_sync_handler :: "vcpu_msg list \<Rightarrow> abort_env \<Rightarrow> exception \<Rightarrow> arm_vm \<Rightarrow> exit_result" where
  "aborts_sync_handler msgs e x s =
     (let esr = (ucast (x_esr x) :: u64);
          ipa_fault_addr = (x_far x AND 0xfff) OR push_bit 8 (x_hpfar x);
          ec = unat (bit_extract esr 26 6); il = bit_extract esr 25 1; iss = bit_extract esr 0 25
      in case abort_handlers msgs ! ec of
           Some handler \<Rightarrow> handler e iss ipa_fault_addr il s
         | None \<Rightarrow> Inl NO_ABORT_HANDLER)"

text \<open>The hypercall gives the same result and sends the same messages as that of the other port.\<close>

lemma ipc_hypercall_agrees:
  assumes "e_ipcs h = a_ipcs e" "e_shmem h = a_shmem e" "e_cpus h = v_cpus (p_vgic e)" "e_plat_cpu_num h = g_plat_cpu_num (p_vgic e)"
    "e_ipc_cpumsg_id h = a_ipc_cpumsg_id e" "hv_msgs s = map (map_prod int id) (vg_msgs g)"
  shows "fst (ipc_hypercall_arm e x y z g) = fst (ipc_hypercall h x y z s) \<and>
    hv_msgs (snd (ipc_hypercall h x y z s)) = map (map_prod int id) (vg_msgs (snd (ipc_hypercall_arm e x y z g)))"
proof -
  have "hv_msgs (fold (\<lambda>i s. if P i then send_msg (int i) m s else s) is s) = map (map_prod int id) (vg_msgs (fold (\<lambda>i s. if P i then send i m s else s) is g))"
    for P m "is" using assms(6) by (induction "is" arbitrary: s g) (simp_all add: send_msg_def send_def)
  then show ?thesis using assms by (simp add: ipc_hypercall_arm_def ipc_hypercall_def send_mask_def Let_def split: option.split)
qed

subsection \<open>Decoding of the syndrome of the architecture\<close>

text \<open>
  The syndrome of an access that has no translation at level \<open>lvl\<close>: the size of the instruction, the size of the access, sign extension, the
  register, its width and the direction.
\<close>

definition data_syndrome :: "1 word \<Rightarrow> 2 word \<Rightarrow> 1 word \<Rightarrow> 5 word \<Rightarrow> 1 word \<Rightarrow> 1 word \<Rightarrow> 2 word \<Rightarrow> u32" where
  "data_syndrome il sas sse srt sf wnr lvl =
     push_bit 26 0x24 OR push_bit 25 (ucast il) OR push_bit 24 1 OR push_bit 22 (ucast sas) OR push_bit 21 (ucast sse) OR
     push_bit 16 (ucast srt) OR push_bit 15 (ucast sf) OR push_bit 6 (ucast wnr) OR push_bit 2 1 OR ucast lvl"

lemma bit_extract_eq: "0 < len \<Longrightarrow> bit_extract w off len = take_bit len (drop_bit off w)"
  by (simp add: bit_extract_def BIT_MASK_eq take_bit_eq_mask)

definition data_iss :: "2 word \<Rightarrow> 1 word \<Rightarrow> 5 word \<Rightarrow> 1 word \<Rightarrow> 1 word \<Rightarrow> 2 word \<Rightarrow> u64" where
  "data_iss sas sse srt sf wnr lvl =
     push_bit 24 1 OR push_bit 22 (ucast sas) OR push_bit 21 (ucast sse) OR push_bit 16 (ucast srt) OR push_bit 15 (ucast sf) OR
     push_bit 6 (ucast wnr) OR push_bit 2 1 OR ucast lvl"

definition in_field :: "nat \<Rightarrow> nat \<Rightarrow> 'a::len word \<Rightarrow> nat \<Rightarrow> bool" where
  "in_field off len x n \<longleftrightarrow> off \<le> n \<and> n < off + len \<and> bit x (n - off)"

lemma bit_field:
  fixes x :: "'a::len word"
  assumes "off + LENGTH('a) \<le> LENGTH('b::len)"
  shows "bit (push_bit off (ucast x :: 'b word)) n \<longleftrightarrow> in_field off LENGTH('a) x n"
  using assms bit_imp_le_length [of x "n - off"] by (auto simp: in_field_def bit_simps)

lemma bit_low_field:
  fixes x :: "'a::len word"
  assumes "LENGTH('a) \<le> LENGTH('b::len)"
  shows "bit (ucast x :: 'b word) n \<longleftrightarrow> in_field 0 LENGTH('a) x n"
  using assms bit_imp_le_length [of x n] by (auto simp: in_field_def bit_simps)

lemma bit_flag: "off < LENGTH('b::len) \<Longrightarrow> bit (push_bit off (1 :: 'b word)) n \<longleftrightarrow> n = off"
  by (auto simp: bit_simps)

lemma bit_data_iss:
  "bit (data_iss sas sse srt sf wnr lvl) n \<longleftrightarrow> n = 24 \<or> in_field 22 2 sas n \<or> in_field 21 1 sse n \<or> in_field 16 5 srt n \<or>
     in_field 15 1 sf n \<or> in_field 6 1 wnr n \<or> n = 2 \<or> in_field 0 2 lvl n"
  unfolding data_iss_def bit_or_iff by (simp add: bit_field bit_low_field bit_flag del: push_bit_of_1)

lemma bit_data_syndrome:
  "bit (data_syndrome il sas sse srt sf wnr lvl) n \<longleftrightarrow> n = 28 \<or> n = 31 \<or> in_field 25 1 il n \<or> bit (data_iss sas sse srt sf wnr lvl) n"
proof -
  have "push_bit 26 (0x24::u32) = push_bit 28 1 OR push_bit 31 1" by simp
  then have "bit (push_bit 26 (0x24::u32)) n \<longleftrightarrow> n = 28 \<or> n = 31"
    by (simp add: bit_or_iff bit_flag del: push_bit_of_1 push_bit_numeral)
  then show ?thesis unfolding data_syndrome_def bit_or_iff bit_data_iss
    by (simp add: bit_field bit_low_field bit_flag del: push_bit_of_1)
qed

lemma lt_cases:
  "i < 1 \<Longrightarrow> i = (0::nat)" "i < 2 \<Longrightarrow> i = (0::nat) \<or> i = 1" "i < 5 \<Longrightarrow> i = (0::nat) \<or> i = 1 \<or> i = 2 \<or> i = 3 \<or> i = 4"
  "i < 6 \<Longrightarrow> i = (0::nat) \<or> i = 1 \<or> i = 2 \<or> i = 3 \<or> i = 4 \<or> i = 5"
  by arith+

text \<open>A field of a word of known bits.\<close>

lemma bit_extractI:
  fixes x :: "'a::len word"
  assumes "0 < len" "off + len \<le> 64" "LENGTH('a) = len" "\<And>i. i < len \<Longrightarrow> bit w (off + i) \<longleftrightarrow> bit x i"
  shows "bit_extract w off len = ucast x"
proof (rule bit_word_eqI)
  fix i assume "i < LENGTH(64)"
  then show "bit (bit_extract w off len) i \<longleftrightarrow> bit (ucast x :: u64) i"
    using assms bit_imp_le_length [of x i] by (auto simp: bit_extract_eq bit_simps)
qed

lemma data_iss_fields:
  "bit_extract (data_iss sas sse srt sf wnr lvl) 21 1 = ucast sse" "bit_extract (data_iss sas sse srt sf wnr lvl) 22 2 = ucast sas"
  "bit_extract (data_iss sas sse srt sf wnr lvl) 16 5 = ucast srt" "bit_extract (data_iss sas sse srt sf wnr lvl) 15 1 = ucast sf"
  by (rule bit_extractI; (drule lt_cases; elim disjE)?; simp add: bit_data_iss in_field_def)+

lemma word1_eq_1: "(w :: 1 word) = 1 \<longleftrightarrow> bit w 0"
proof
  assume "bit w 0"
  then show "w = 1" by (intro bit_word_eqI) (auto simp: bit_1_iff)
qed simp

lemma word1_0_or_1: "(w :: 1 word) = 0 \<or> w = 1"
proof -
  have "bit w i \<Longrightarrow> i = 0" for i using bit_imp_le_length [of w i] by simp
  then have "\<not> bit w 0 \<Longrightarrow> w = 0" by (metis bit_0_eq bit_eqI bot_apply bot_bool_def)
  then show ?thesis using word1_eq_1 by blast
qed

lemma data_iss_bits:
  "data_iss sas sse srt sf wnr lvl AND push_bit 6 1 \<noteq> 0 \<longleftrightarrow> wnr = 1" "data_iss sas sse srt sf wnr lvl AND push_bit 10 1 = 0"
  "data_iss sas sse srt sf wnr lvl AND push_bit 24 1 \<noteq> 0"
proof -
  have b: "(w :: u64) AND push_bit i 1 = 0 \<longleftrightarrow> \<not> bit w i" for w i by (simp add: push_bit_eq_mult and_exp_eq_0_iff_not_bit)
  show "data_iss sas sse srt sf wnr lvl AND push_bit 6 1 \<noteq> 0 \<longleftrightarrow> wnr = 1" "data_iss sas sse srt sf wnr lvl AND push_bit 10 1 = 0"
    "data_iss sas sse srt sf wnr lvl AND push_bit 24 1 \<noteq> 0" unfolding b word1_eq_1 by (simp_all add: bit_data_iss in_field_def)
qed

lemma data_iss_fault: "bit_extract (data_iss sas sse srt sf wnr lvl) 0 6 AND ESR_ISS_DA_DSFC_CODE = ESR_ISS_DA_DSFC_TRNSLT"
proof (rule bit_word_eqI)
  fix i assume i: "i < LENGTH(64)"
  have c: "ESR_ISS_DA_DSFC_CODE = push_bit 2 (mask 4)" "ESR_ISS_DA_DSFC_TRNSLT = push_bit 2 1"
    by (simp_all add: ESR_ISS_DA_DSFC_CODE_def ESR_ISS_DA_DSFC_TRNSLT_def mask_eq_exp_minus_1)
  have "bit ESR_ISS_DA_DSFC_CODE i \<longleftrightarrow> 2 \<le> i \<and> i < 6" "bit ESR_ISS_DA_DSFC_TRNSLT i \<longleftrightarrow> i = 2"
    unfolding c by (auto simp: bit_simps simp del: push_bit_of_1)
  then show "bit (bit_extract (data_iss sas sse srt sf wnr lvl) 0 6 AND ESR_ISS_DA_DSFC_CODE) i \<longleftrightarrow> bit ESR_ISS_DA_DSFC_TRNSLT i"
    by (auto simp: bit_and_iff bit_extract_eq bit_take_bit_iff bit_data_iss in_field_def)
qed

lemma data_syndrome_fields:
  "bit_extract (ucast (data_syndrome il sas sse srt sf wnr lvl)) 26 6 = 0x24"
  "bit_extract (ucast (data_syndrome il sas sse srt sf wnr lvl)) 25 1 = ucast il"
  "bit_extract (ucast (data_syndrome il sas sse srt sf wnr lvl)) 0 25 = data_iss sas sse srt sf wnr lvl"
proof -
  let ?w = "ucast (data_syndrome il sas sse srt sf wnr lvl) :: u64"
  have b: "bit ?w n \<longleftrightarrow> n < 32 \<and> bit (data_syndrome il sas sse srt sf wnr lvl) n" for n
    using bit_imp_le_length [of "data_syndrome il sas sse srt sf wnr lvl" n] by (auto simp: bit_simps)
  have "bit_extract ?w 26 6 = ucast (0x24 :: 6 word)"
    by (rule bit_extractI; (drule lt_cases; elim disjE)?; simp add: b bit_data_syndrome bit_data_iss in_field_def)
  then show "bit_extract ?w 26 6 = 0x24" by simp
  show "bit_extract ?w 25 1 = ucast il"
    by (rule bit_extractI; (drule lt_cases; elim disjE)?; simp add: b bit_data_syndrome bit_data_iss in_field_def)
  show "bit_extract ?w 0 25 = data_iss sas sse srt sf wnr lvl"
  proof (rule bit_word_eqI)
    fix n assume "n < LENGTH(64)"
    have "bit (data_iss sas sse srt sf wnr lvl) n \<Longrightarrow> n < 25" by (auto simp: bit_data_iss in_field_def)
    moreover have "n < 25 \<Longrightarrow> \<not> in_field 25 1 il n" by (simp add: in_field_def)
    ultimately show "bit (bit_extract ?w 0 25) n \<longleftrightarrow> bit (data_iss sas sse srt sf wnr lvl) n"
      by (auto simp: bit_extract_eq bit_take_bit_iff b bit_data_syndrome)
  qed
qed

lemma unat_ucast_small:
  fixes x :: "'a::len word"
  assumes "LENGTH('a) \<le> 64"
  shows "unat (ucast x :: u64) = unat x"
proof -
  have "unat x < 2 ^ 64" using order_less_le_trans [OF unsigned_less power_increasing [OF assms, of "2::nat"]] by simp
  then show ?thesis by (simp add: unsigned_ucast_eq take_bit_nat_eq_self_iff)
qed

text \<open>The address of the fault: the page from one register and the offset from another.\<close>

lemma fault_address:
  assumes "unat page < 2 ^ 52"
  shows "unat ((far AND 0xfff) OR push_bit 12 page :: u64) = unat page * 4096 + unat far mod 4096"
proof -
  have m: "(0xfff :: u64) = mask 12" by (simp add: mask_eq_exp_minus_1)
  have "(far AND 0xfff) AND push_bit 12 page = 0" unfolding m by (rule bit_word_eqI) (auto simp: bit_simps)
  then have "(far AND 0xfff) OR push_bit 12 page = (far AND 0xfff) + push_bit 12 page" by (simp add: disjunctive_add_eq_or)
  moreover have "unat (far AND 0xfff) = unat far mod 4096" unfolding m by (simp add: take_bit_nat_def unsigned_take_bit_eq flip: take_bit_eq_mask)
  moreover have "unat (push_bit 12 page) = unat page * 4096" using assms by (simp add: push_bit_eq_mult unat_word_ariths)
  ultimately show ?thesis using assms by (simp add: unat_word_ariths)
qed


subsection \<open>Exits are steps of the interrupt controller\<close>

fun node_handler :: "vgic_node \<Rightarrow> vgic_emul" where
  "node_handler (VMEM va pa sz h) = h"
| "node_handler (VREG a h) = h"

text \<open>Redistributors are emulated for version 3 only.\<close>

definition emul_ok :: "vgic_env \<Rightarrow> vgic_node list \<Rightarrow> bool" where
  "emul_ok e nodes \<longleftrightarrow> (g_ver e = GICV3 \<or> VGICR \<notin> node_handler ` set nodes)"

lemma emul_get_in: "emul_get_arm nodes a = Some h \<Longrightarrow> h \<in> node_handler ` set nodes"
proof (induction nodes)
  case (Cons node nodes)
  then show ?case by (cases node) (auto split: option.splits if_splits)
qed simp

lemma register_emul: "vg_emul (fold (vgicr_register e d) vs s) = vg_emul s @ map (\<lambda>v. VMEM (gd_gicr_addr d + sizeof_gicr * v) (v_gicr_ptr e (v_phys e v))
    (ALIGN sizeof_gicr PAGE_SIZE) VGICR) vs"
  by (induction vs arbitrary: s) (simp_all add: vgicr_register_def)

lemma init_emul_ok: "vgic_init e d iidr va page s = Some s' \<Longrightarrow> emul_ok e (vg_emul s) \<Longrightarrow> emul_ok e (vg_emul s')"
  by (auto simp: vgic_init_def vgicd_fields_def vgicd_interrupts_def emul_ok_def Let_def split: gic_version.splits if_splits)

lemma run_emul_step:
  assumes "run_emul_arm h e' acc g = Some (b, g')" "runs e e'" "h = VGICR \<Longrightarrow> g_ver e = GICV3"
  shows "vgic_step e g g'"
  using assms by (cases h) (auto simp: run_emul_arm_def intro: vgic_step.dist vgic_step.redist vgic_step.sgir vgic_step.sre)

lemma emulate_step:
  assumes "emulate a il acc s = Inr (out, s')" "runs e (p_vgic a)" "emul_ok e (vg_emul (av_vgic s))"
  shows "vgic_step e (av_vgic s) (av_vgic s')"
proof -
  obtain h b g where h: "emul_get_arm (vg_emul (av_vgic s)) (acc_addr acc) = Some h" "run_emul_arm h (p_vgic a) acc (av_vgic s) = Some (b, g)" "av_vgic s' = g"
    using assms(1) by (auto simp: emulate_def advance_elr_def split: option.splits if_splits)
  then show ?thesis using run_emul_step [OF h(2) assms(2)] emul_get_in [OF h(1)] assms(3) unfolding emul_ok_def by blast
qed

text \<open>The power management changes the registers of virtual CPUs and sends messages.\<close>

abbreviation reach :: "vgic_env \<Rightarrow> arm_vm \<Rightarrow> arm_vm \<Rightarrow> bool" where
  "reach e s s' \<equiv> rtranclp (vgic_step e) (av_vgic s) (av_vgic s')"

definition erase :: "vgic \<Rightarrow> vgic" where
  "erase g = g\<lparr>vg_regs := (\<lambda>v r. 0), vg_msgs := []\<rparr>"

lemma erase_simps [simp]:
  "erase (g\<lparr>vg_regs := regs\<rparr>) = erase g" "erase (send c m g) = erase g" "erase (vcpu_writereg_arm v r x g) = erase g"
  by (simp_all add: erase_def send_def vcpu_writereg_arm_def)

lemma erase_send_mask [simp]: "erase (send_mask ve k m g) = erase g"
proof -
  have "erase (fold (\<lambda>i s. if P i then send i m s else s) is g) = erase g" for P "is" by (induction "is" arbitrary: g) simp_all
  then show ?thesis by (simp add: send_mask_def)
qed

lemma erase_step:
  assumes "erase g = erase g'"
  shows "rtranclp (vgic_step e) g g'"
proof -
  have "g' = g\<lparr>vg_regs := vg_regs g', vg_msgs := vg_msgs g'\<rparr>" using assms by (cases g; cases g') (simp add: erase_def)
  then show ?thesis using vgic_step.guest [of e g "vg_msgs g'" "vg_regs g'"] by simp
qed

lemma erase_psci [simp]:
  "erase (av_vgic (psci_cpumsg_handler pe ev s)) = erase (av_vgic s)" "erase (av_vgic (writereg_arm v r x s)) = erase (av_vgic s)"
  "erase (av_vgic (cpu_on_notify pe t s)) = erase (av_vgic s)" "av_vgic (upd_ctx v f s) = av_vgic s" "av_vgic (psci_save_state pe w s) = av_vgic s"
  "av_vgic (cpu_on_claim t x c s) = av_vgic s" "av_vgic (advance_elr v il s) = av_vgic s"
  by (simp_all add: psci_cpumsg_handler_def psci_wake_from_off_def vcpu_arch_reset_arm_def writereg_arm_def cpu_on_notify_def upd_ctx_def
      psci_save_state_def cpu_on_claim_def advance_elr_def Let_def)

text \<open>The messages of the other components are steps too.\<close>

definition msg_ok :: "vgic_env \<Rightarrow> vcpu_msg \<Rightarrow> bool" where
  "msg_ok e m \<longleftrightarrow> (case m of PSCI_MSG event \<Rightarrow> True | OTHER_MSG f \<Rightarrow> \<forall>g. rtranclp (vgic_step e) g (f g))"

lemma handle_msgs_reach: "list_all (msg_ok e) msgs \<Longrightarrow> reach e s (fold (handle_msg pe) msgs s)"
proof (induction msgs arbitrary: s)
  case (Cons m msgs)
  have "reach e s (handle_msg pe m s)" using Cons.prems by (cases m) (auto simp: msg_ok_def intro: erase_step)
  then show ?case using Cons.IH [of "handle_msg pe m s"] Cons.prems by simp
qed simp

lemma idle_reach: "cpu_arch_idle_arm msgs pe s = Some (r, s') \<Longrightarrow> list_all (msg_ok e) msgs \<Longrightarrow> reach e s s'"
  using handle_msgs_reach [of e msgs "psci_save_state pe PSCI_WAKEUP_IDLE s" pe]
  by (auto simp: cpu_arch_idle_arm_def psci_power_down_def psci_wake_from_idle_def Let_def split: option.splits if_splits)

lemma off_reach: "psci_cpu_off_handler msgs pe s = Some (r, s') \<Longrightarrow> list_all (msg_ok e) msgs \<Longrightarrow> reach e s s'"
  by (auto simp: psci_cpu_off_handler_def dest!: idle_reach [of msgs pe _ _ _ e])

lemma smc_reach:
  assumes "psci_smc_handler msgs pe fid x1 x2 x3 s = Some (out, s')" "list_all (msg_ok e) msgs"
  shows "reach e s s'"
proof -
  have c: "erase (av_vgic s) = erase (av_vgic (snd (psci_cpu_on_handler pe x1 x2 x3 s)))"
    "av_vgic (snd (psci_cpu_suspend_handler pe x1 x2 x3 s)) = av_vgic s"
    by (auto simp: psci_cpu_on_handler_def psci_cpu_suspend_handler_def psci_power_down_def split: option.split)
  show ?thesis
    using assms(1) off_reach [OF _ assms(2)] erase_step [OF c(1), of e] c(2) by (auto simp: psci_smc_handler_def Let_def split: if_splits)
qed

lemma smc64_reach:
  assumes "smc64_handler msgs a iss far il s = Inr (out, s')" "list_all (msg_ok e) msgs"
  shows "reach e s s'"
proof -
  define r where "r = (let pe = psci_env.truncate a; x = vg_regs (av_vgic s) (self pe) in
    if is_psci_fid (x 0) then psci_smc_handler msgs pe (ucast (x 0)) (x 1) (x 2) (x 3) s else Some (RETURNS (- 1), s))"
  obtain o1 s1 where s1: "r = Some (o1, s1)" "erase (av_vgic s1) = erase (av_vgic s')"
    using assms(1) unfolding smc64_handler_def Let_def r_def by (auto split: option.splits psci_out.splits)
  then have "reach e s s1" using smc_reach [OF _ assms(2)] by (auto simp: r_def Let_def split: if_splits)
  then show ?thesis using erase_step [OF s1(2), of e] by simp
qed


text \<open>The first virtual CPU of the example reads the type of the distributor into its register 3.\<close>

definition ex_abort_env :: abort_env where
  "ex_abort_env = psci_env.extend ex_psci_env (abort_env.fields [] [] 0)"

definition ex_gic_vm :: arm_vm where
  "ex_gic_vm = ex_arm_vm\<lparr>av_vgic := ex_vgic\<lparr>vg_TYPER := 0x21, vg_emul := [VMEM 0x8000 0x10000 0x10000 VGICD]\<rparr>\<rparr>"

definition ex_read :: exception where
  "ex_read = \<lparr>x_esr = data_syndrome 1 2 0 3 0 0 1, x_far = 0x4, x_hpfar = push_bit 4 8\<rparr>"

definition ex_access :: emul_access where
  "ex_access = \<lparr>acc_addr = 0x8004, acc_write = False, acc_sign_ext = False, acc_width = 4, acc_reg = 3, acc_reg_width = 4\<rparr>"

definition ex_served :: arm_vm where
  "ex_served = advance_elr 0 1 (writereg_arm 0 3 0x21 ex_gic_vm)"

lemma ex_abort_fields: "p_vgic ex_abort_env = ex_env" "psci_env.truncate ex_abort_env = ex_psci_env" "self ex_psci_env = 0"
  by (simp_all add: ex_abort_env_def psci_env.defs abort_env.defs ex_psci_env_def ex_env_fields)

lemma ex_emulate: "emulate ex_abort_env 1 ex_access ex_gic_vm = Inr (RESUMES, ex_served)"
proof -
  have h: "vgicd_handler GICV2 0x8004 = vgicd_misc_info" by (simp add: vgicd_handler_def GICD_REG_MASK_def)
  have "vgic_check_reg_alignment ex_access vgicd_misc_info" by (simp add: vgic_check_reg_alignment_def ex_access_def vgicd_misc_info_def other_info_def)
  then have "vgicd_emul_handler ex_env ex_access (av_vgic ex_gic_vm) = Some (True, vcpu_writereg_arm 0 3 0x21 (av_vgic ex_gic_vm))"
    by (simp add: vgicd_emul_handler_def ex_env_fields ex_access_def h reg_access_def vgicd_misc_info_def other_info_def vgicd_emul_misc_access_def
        ex_gic_vm_def Let_def)
  moreover have "emul_get_arm (vg_emul (av_vgic ex_gic_vm)) (acc_addr ex_access) = Some VGICD" by (simp add: ex_gic_vm_def ex_access_def)
  ultimately show ?thesis by (simp add: emulate_def run_emul_arm_def ex_abort_fields ex_served_def writereg_arm_def)
qed


text \<open>The first virtual CPU of the example starts the second one.\<close>

definition ex_call_vm :: arm_vm where
  "ex_call_vm = ex_arm_vm\<lparr>av_vgic := ex_vgic\<lparr>vg_regs := (\<lambda>v r. [0xc4000003, 1, 0x80000, 7] ! r)\<rparr>\<rparr>"

definition ex_call :: exception where
  "ex_call = \<lparr>x_esr = 0x5e000000, x_far = 0, x_hpfar = 0\<rparr>"

lemma ex_exit: "\<exists>s'. aborts_sync_handler [] ex_abort_env ex_call ex_call_vm = Inr (RESUMES, s') \<and> pc_state (av_ctx s' 1) = ON_PENDING"
proof -
  have "bit_extract 0x5e000000 26 6 = 0x17" "bit_extract 0x5e000000 25 1 = 1" "is_psci_fid 0xc4000003" by code_simp+
  moreover have "abort_handlers [] ! 0x17 = Some (smc64_handler [])" by (simp add: abort_handlers_def ESR_EC_defs)
  moreover have "pc_state (av_ctx ex_call_vm 1) = OFF" by (simp add: ex_call_vm_def ex_arm_state)
  ultimately show ?thesis
    by (simp add: aborts_sync_handler_def ex_call_def smc64_handler_def ex_abort_fields psci_smc_handler_def ex_call_vm_def Let_def PSCI_VERSION_def
        PSCI_CPU_OFF_def PSCI_CPU_SUSPEND_AARCH64_def PSCI_CPU_ON_AARCH64_def psci_cpu_on_handler_def ex_target cpu_on_test_def cpu_on_claim_def
        cpu_on_notify_def upd_ctx_def advance_elr_def writereg_arm_def)
qed


end
