(* ===== verification/Smmu.thy ===== *)
theory Smmu
  imports Bits Bitmap Page_Table
begin

text \<open>
  Translation of the memory accesses of devices in the ARMv8 port: \<^verbatim>\<open>arch/armv8/smmuv2.c\<close> and \<^verbatim>\<open>arch/armv8/iommu.c\<close>, with the part of
  \<^verbatim>\<open>arch/armv8/vmm.c\<close> that sets up the second stage of the CPUs. A device is known by the number of its stream; a stream match entry
  gives a set of streams a context bank, and a context bank holds the page table of a VM.
\<close>

type_synonym u16 = "16 word"

subsection \<open>Second stage translation of the CPUs\<close>

definition parange_table :: "nat list" where
  "parange_table = [32, 36, 40, 42, 44, 48]"

text \<open>\<open>None\<close>: the read is behind the end of the table.\<close>

definition parange_bits :: "nat \<Rightarrow> nat option" where
  "parange_bits parange = (if parange < length parange_table then Some (parange_table ! parange) else None)"

text \<open>
  \<^verbatim>\<open>vmm_arch_init\<close>: \<open>ranges\<close> are the values of \<^verbatim>\<open>ID_AA64MMFR0_EL1\<close> of the CPUs, which agree on the smallest one. The result is the
  range, the descriptor of the VMs' page tables and the values written to \<^verbatim>\<open>VTCR_EL2\<close> and \<^verbatim>\<open>HCR_EL2\<close>.
\<close>

definition ID_AA64MMFR0_PAR_MSK :: u64 where "ID_AA64MMFR0_PAR_MSK = BIT_MASK 0 4"

definition min_parange :: "u64 list \<Rightarrow> nat" where
  "min_parange ranges = fold (\<lambda>r m. let t = unat (r AND ID_AA64MMFR0_PAR_MSK) in if t < m then t else m) ranges 7"

definition armv8_pt_s2_dscr :: page_table_dscr where
  "armv8_pt_s2_dscr = \<lparr>pt_lvls = 4, lvl_off = [39, 30, 21, 12], lvl_wdt = [48, 39, 30, 21], lvl_term = [False, True, True, True]\<rparr>"

definition shift_levels :: "'a list \<Rightarrow> 'a list" where
  "shift_levels xs = tl xs @ [last xs]"

definition VTCR_RES1 :: u64 where "VTCR_RES1 = push_bit 31 1"
definition VTCR_PS_MSK :: u64 where "VTCR_PS_MSK = push_bit 16 7"
definition VTCR_TG0_4K :: u64 where "VTCR_TG0_4K = 0"
definition VTCR_ORGN0_WB_RA_WA :: u64 where "VTCR_ORGN0_WB_RA_WA = push_bit 10 1"
definition VTCR_IRGN0_WB_RA_WA :: u64 where "VTCR_IRGN0_WB_RA_WA = push_bit 8 1"
definition VTCR_T0SZ :: "nat \<Rightarrow> u64" where "VTCR_T0SZ sz = of_nat sz AND 0x1f"
definition VTCR_SH0_IS :: u64 where "VTCR_SH0_IS = push_bit 12 3"
definition VTCR_SL0_12 :: u64 where "VTCR_SL0_12 = push_bit 6 1"
definition VTCR_SL0_01 :: u64 where "VTCR_SL0_01 = push_bit 6 2"

lemmas VTCR_defs = VTCR_RES1_def VTCR_PS_MSK_def VTCR_TG0_4K_def VTCR_ORGN0_WB_RA_WA_def VTCR_IRGN0_WB_RA_WA_def VTCR_T0SZ_def VTCR_SH0_IS_def
  VTCR_SL0_12_def VTCR_SL0_01_def

definition vtcr_value :: "nat \<Rightarrow> nat \<Rightarrow> u64" where
  "vtcr_value parange bits =
     VTCR_RES1 OR (push_bit 16 (of_nat parange) AND VTCR_PS_MSK) OR VTCR_TG0_4K OR VTCR_ORGN0_WB_RA_WA OR VTCR_IRGN0_WB_RA_WA OR
     VTCR_T0SZ (64 - bits) OR VTCR_SH0_IS OR (if bits < 44 then VTCR_SL0_12 else VTCR_SL0_01)"

definition hcr_value :: u64 where
  "hcr_value = push_bit 0 1 OR push_bit 31 1 OR push_bit 4 1 OR push_bit 3 1 OR push_bit 19 1"

definition vmm_arch_init_arm :: "u64 list \<Rightarrow> page_table_dscr \<Rightarrow> (nat \<times> page_table_dscr \<times> u64 \<times> u64) option" where
  "vmm_arch_init_arm ranges d =
     (let parange = min_parange ranges in
      do { bits \<leftarrow> parange_bits parange;
           let d = (if bits < 44
                    then d\<lparr>lvl_wdt := (shift_levels (lvl_wdt d))[0 := bits], lvl_off := shift_levels (lvl_off d),
                           lvl_term := shift_levels (lvl_term d), pt_lvls := pt_lvls d - 1\<rparr>
                    else d);
           Some (parange, d, vtcr_value parange bits, hcr_value) })"

subsection \<open>Registers and state\<close>

text \<open>
  The registers the driver writes: match and context registers of the entries, attribute registers of the banks, and the banks' own registers.
  Then the bookkeeping.
\<close>

record smmu =
  sm_CR0 :: u32
  sm_SMR :: "nat \<Rightarrow> u32"
  sm_S2CR :: "nat \<Rightarrow> u32"
  sm_CBAR :: "nat \<Rightarrow> u32"
  sm_CBA2R :: "nat \<Rightarrow> u32"
  sm_TCR :: "nat \<Rightarrow> u32"
  sm_TTBR0 :: "nat \<Rightarrow> u64"
  sm_SCTLR :: "nat \<Rightarrow> u32"
  sm_FSR :: "nat \<Rightarrow> u32"
  sme_num :: nat
  sme_bitmap :: bitmap
  grp_bitmap :: bitmap
  ctx_num :: nat
  ctxbank_bitmap :: bitmap

text \<open>The identification registers, the CPU's own \<^verbatim>\<open>ID_AA64MMFR0_EL1\<close>, and the global \<^verbatim>\<open>parange\<close>.\<close>

record smmu_env =
  s_IDR0 :: u64
  s_IDR1 :: u64
  s_IDR2 :: u64
  s_IDR7 :: u64
  s_mmfr0 :: u64
  s_parange :: nat

definition SMMU_SMR_ID :: "u32 \<Rightarrow> u16" where "SMMU_SMR_ID smr = ucast (bit_extract (ucast smr) 0 15)"
definition SMMU_SMR_MASK :: "u32 \<Rightarrow> u16" where "SMMU_SMR_MASK smr = ucast (bit_extract (ucast smr) 16 15)"
definition SMMU_ID_MSK :: u16 where "SMMU_ID_MSK = 0x7fff"
definition S2CR_CBNDX :: "u32 \<Rightarrow> nat" where "S2CR_CBNDX s2cr = unat (bit_extract (ucast s2cr) 0 8)"

definition smmu_sme_is_group :: "smmu \<Rightarrow> nat \<Rightarrow> bool" where
  "smmu_sme_is_group s sme \<longleftrightarrow> bitmap_get (grp_bitmap s) sme \<noteq> 0"

definition smmu_sme_get_ctx :: "smmu \<Rightarrow> nat \<Rightarrow> nat" where
  "smmu_sme_get_ctx s sme = S2CR_CBNDX (sm_S2CR s sme)"

definition smmu_sme_get_id :: "smmu \<Rightarrow> nat \<Rightarrow> u16" where
  "smmu_sme_get_id s sme = SMMU_SMR_ID (sm_SMR s sme)"

definition smmu_sme_get_mask :: "smmu \<Rightarrow> nat \<Rightarrow> u16" where
  "smmu_sme_get_mask s sme = SMMU_SMR_MASK (sm_SMR s sme)"

subsection \<open>Initialisation\<close>

text \<open>\<^verbatim>\<open>smmu_check_features\<close>: whether none of the errors is reported.\<close>

definition smmu_check_features :: "smmu_env \<Rightarrow> bool" where
  "smmu_check_features e \<longleftrightarrow>
     bit_extract (s_IDR7 e) 4 4 = 2 \<and> bit (s_IDR0 e) 30 \<and> bit (s_IDR0 e) 27 \<and> bit (s_IDR0 e) 13 \<and> bit (s_IDR2 e) 12 \<and>
     (let parange = s_mmfr0 e AND ID_AA64MMFR0_PAR_MSK in \<not> bit_extract (s_IDR2 e) 4 4 < parange \<and> \<not> bit_extract (s_IDR2 e) 0 4 < parange)"

definition cr0_value :: "u32 \<Rightarrow> u32" where
  "cr0_value cr0 = ((cr0 AND (push_bit 30 3 OR push_bit 11 1)) OR push_bit 10 1 OR push_bit 21 1) AND NOT 1"

text \<open>
  \<^verbatim>\<open>smmu_init\<close> after the device has been mapped. The global fault registers, which are written with what they hold, and the
  mapping are not part of the state.
\<close>

definition smmu_init :: "smmu_env \<Rightarrow> smmu \<Rightarrow> smmu option" where
  "smmu_init e s =
     (if smmu_check_features e then
        let n = unat (bit_extract (s_IDR1 e) 0 8); k = unat (s_IDR0 e AND 0xff) in
        Some (s\<lparr>ctx_num := n, ctxbank_bitmap := bitmap_clear_consecutive (ctxbank_bitmap s) 0 n, sme_num := k,
                sme_bitmap := bitmap_clear_consecutive (sme_bitmap s) 0 k, grp_bitmap := bitmap_clear_consecutive (grp_bitmap s) 0 k,
                sm_SMR := (\<lambda>i. if i < k then 0 else sm_SMR s i), sm_SCTLR := (\<lambda>i. if i < n then 0 else sm_SCTLR s i),
                sm_FSR := (\<lambda>i. if i < n then -1 else sm_FSR s i), sm_CR0 := cr0_value (sm_CR0 s)\<rparr>)
      else None)"

subsection \<open>Context banks\<close>

definition smmu_alloc_ctxbnk :: "smmu \<Rightarrow> int \<times> smmu" where
  "smmu_alloc_ctxbnk s =
     (let nth = bitmap_find_nth (ctxbank_bitmap s) (ctx_num s) 1 0 False
      in (nth, if nth \<ge> 0 then s\<lparr>ctxbank_bitmap := bitmap_set (ctxbank_bitmap s) (nat nth)\<rparr> else s))"

definition smmu_cb_ttba_offset :: "nat \<Rightarrow> nat \<Rightarrow> nat" where
  "smmu_cb_ttba_offset bits t0sz =
     (if bits < 44 then if 21 \<le> t0sz \<and> t0sz \<le> 33 then 37 - t0sz else 12
      else if 16 \<le> t0sz \<and> t0sz \<le> 24 then 28 - t0sz else 12)"

definition tcr_value :: "nat \<Rightarrow> nat \<Rightarrow> u32" where
  "tcr_value parange bits =
     (push_bit 16 (of_nat parange) AND push_bit 16 7) OR 0 OR push_bit 10 1 OR push_bit 8 1 OR (of_nat (64 - bits) AND 0x1f) OR push_bit 12 3 OR
     (if bits < 44 then push_bit 6 1 else push_bit 6 2)"

definition ttbr_value :: "nat \<Rightarrow> u64 \<Rightarrow> u64" where
  "ttbr_value bits root_pt = (let off = smmu_cb_ttba_offset bits (64 - bits) in root_pt AND BIT_MASK off (48 - off))"

definition SMMUV2_SCTLR_CLEAR :: "u32 \<Rightarrow> u32" where
  "SMMUV2_SCTLR_CLEAR sctlr = sctlr AND (push_bit 28 0xf OR push_bit 20 1 OR push_bit 9 0xf OR push_bit 11 1)"

definition SMMUV2_SCTLR_DEFAULT :: u32 where
  "SMMUV2_SCTLR_DEFAULT = push_bit 7 1 OR push_bit 0 1"

definition smmu_write_ctxbnk :: "smmu_env \<Rightarrow> nat \<Rightarrow> u64 \<Rightarrow> nat \<Rightarrow> smmu \<Rightarrow> smmu option" where
  "smmu_write_ctxbnk e ctx_id root_pt vm_id s =
     (if bitmap_get (ctxbank_bitmap s) ctx_id = 0 then None
      else
        do { bits \<leftarrow> parange_bits (s_parange e);
             let sctlr = SMMUV2_SCTLR_CLEAR (sm_SCTLR s ctx_id) OR SMMUV2_SCTLR_DEFAULT;
             Some (s\<lparr>sm_CBAR := (sm_CBAR s)(ctx_id := of_nat vm_id AND 0xff), sm_CBA2R := (sm_CBA2R s)(ctx_id := 1),
                     sm_TCR := (sm_TCR s)(ctx_id := tcr_value (s_parange e) bits),
                     sm_TTBR0 := (sm_TTBR0 s)(ctx_id := ttbr_value bits root_pt),
                     sm_SCTLR := (sm_SCTLR s)(ctx_id := sm_SCTLR s ctx_id OR sctlr)\<rparr>) })"

subsection \<open>Stream match entries\<close>

definition smmu_alloc_sme :: "smmu \<Rightarrow> int" where
  "smmu_alloc_sme s = bitmap_find_nth (sme_bitmap s) (sme_num s) 1 0 False"

text \<open>The search over the entries from \<open>sme\<close> on, \<open>k\<close> of them. \<open>None\<close> is a conflict.\<close>

fun compatible_loop :: "u16 \<Rightarrow> u16 \<Rightarrow> nat \<Rightarrow> bool \<Rightarrow> nat \<Rightarrow> nat \<Rightarrow> smmu \<Rightarrow> (bool \<times> smmu) option" where
  "compatible_loop msk sid ctx grp 0 sme s = Some (False, s)"
| "compatible_loop msk sid ctx grp (Suc k) sme s =
     (if bitmap_get (sme_bitmap s) sme = 0 then compatible_loop msk sid ctx grp k (sme + 1) s
      else
        let sme_mask = smmu_sme_get_mask s sme; mask_r = msk AND sme_mask;
            diff_id = (smmu_sme_get_id s sme XOR sid) AND NOT (msk OR sme_mask)
        in if diff_id = 0 then
             if grp \<or> (smmu_sme_is_group s sme \<and> (mask_r = msk \<or> mask_r = sme_mask)) \<or> ctx = smmu_sme_get_ctx s sme
             then if msk > sme_mask
                  then compatible_loop msk sid ctx grp k (sme + 1) (s\<lparr>sme_bitmap := bitmap_clear (sme_bitmap s) sme\<rparr>)
                  else Some (True, s)
             else None
           else compatible_loop msk sid ctx grp k (sme + 1) s)"

definition smmu_compatible_sme_exists :: "u16 \<Rightarrow> u16 \<Rightarrow> nat \<Rightarrow> bool \<Rightarrow> smmu \<Rightarrow> (bool \<times> smmu) option" where
  "smmu_compatible_sme_exists msk sid ctx grp s = compatible_loop msk sid ctx grp (sme_num s) 0 s"

definition smr_value :: "u16 \<Rightarrow> u16 \<Rightarrow> u32" where
  "smr_value msk sid = (push_bit 16 (ucast msk) OR ucast (sid AND SMMU_ID_MSK)) OR push_bit 31 1"

definition smmu_write_sme :: "nat \<Rightarrow> u16 \<Rightarrow> u16 \<Rightarrow> bool \<Rightarrow> smmu \<Rightarrow> smmu option" where
  "smmu_write_sme sme msk sid grp s =
     (if bitmap_get (sme_bitmap s) sme \<noteq> 0 then None
      else Some (s\<lparr>sm_SMR := (sm_SMR s)(sme := smr_value msk sid), sme_bitmap := bitmap_set (sme_bitmap s) sme,
                   grp_bitmap := (if grp then bitmap_set (grp_bitmap s) sme else grp_bitmap s)\<rparr>))"

definition s2cr_value :: "u32 \<Rightarrow> nat \<Rightarrow> u32" where
  "s2cr_value s2cr ctx_id = ((s2cr AND push_bit 30 3) OR 0) OR (of_nat ctx_id AND 0xff)"

definition smmu_write_s2c :: "nat \<Rightarrow> nat \<Rightarrow> smmu \<Rightarrow> smmu option" where
  "smmu_write_s2c sme ctx_id s =
     (if bitmap_get (sme_bitmap s) sme = 0 then None
      else Some (s\<lparr>sm_S2CR := (sm_S2CR s)(sme := s2cr_value (sm_S2CR s sme) ctx_id)\<rparr>))"

subsection \<open>The devices of a VM\<close>

text \<open>What the VM structure holds; \<open>iv_id\<close> and \<open>iv_root\<close> are the number and the physical address of the root page table.\<close>

record iommu_vm =
  iv_id :: nat
  iv_root :: u64
  iv_global_mask :: u32
  iv_ctx_id :: int

definition iommu_arch_init_arm :: "smmu_env \<Rightarrow> u64 \<Rightarrow> smmu \<Rightarrow> (int \<times> smmu) option" where
  "iommu_arch_init_arm e base s = (if base \<noteq> 0 then map_option (Pair 0) (smmu_init e s) else Some (-1, s))"

definition iommu_vm_arch_init_ctx :: "smmu_env \<Rightarrow> iommu_vm \<Rightarrow> smmu \<Rightarrow> (int \<times> iommu_vm \<times> smmu) option" where
  "iommu_vm_arch_init_ctx e vm s =
     (if iv_ctx_id vm < 0 then
        let (ctx_id, s) = smmu_alloc_ctxbnk s in
        if ctx_id \<ge> 0 then
          do { s \<leftarrow> smmu_write_ctxbnk e (nat ctx_id) (iv_root vm) (iv_id vm) s;
               Some (ctx_id, vm\<lparr>iv_ctx_id := ctx_id\<rparr>, s) }
        else Some (ctx_id, vm, s)
      else Some (iv_ctx_id vm, vm, s))"

definition iommu_vm_arch_add :: "smmu_env \<Rightarrow> u16 \<Rightarrow> u16 \<Rightarrow> iommu_vm \<Rightarrow> smmu \<Rightarrow> (int \<times> iommu_vm \<times> smmu) option" where
  "iommu_vm_arch_add e msk sid vm s =
     do { (vm_ctx, vm, s) \<leftarrow> iommu_vm_arch_init_ctx e vm s;
          let prep_mask = (msk AND SMMU_ID_MSK) OR ucast (iv_global_mask vm);
          let prep_id = sid AND SMMU_ID_MSK;
          let grp = (msk \<noteq> 0);
          if vm_ctx < 0 then Some (-1, vm, s)
          else
            do { (found, s) \<leftarrow> smmu_compatible_sme_exists prep_mask prep_id (nat vm_ctx) grp s;
                 if found then Some (0, vm, s)
                 else
                   let sme = smmu_alloc_sme s in
                   if sme < 0 then Some (-1, vm, s)
                   else
                     do { s \<leftarrow> smmu_write_sme (nat sme) prep_mask prep_id grp s;
                          s \<leftarrow> smmu_write_s2c (nat sme) (nat vm_ctx) s;
                          Some (0, vm, s) } } }"

definition iommu_arch_vm_add_device_arm :: "smmu_env \<Rightarrow> int \<Rightarrow> iommu_vm \<Rightarrow> smmu \<Rightarrow> (int \<times> iommu_vm \<times> smmu) option" where
  "iommu_arch_vm_add_device_arm e sid vm s = iommu_vm_arch_add e 0 (of_int sid) vm s"

fun add_groups :: "smmu_env \<Rightarrow> (u16 \<times> u16) list \<Rightarrow> iommu_vm \<Rightarrow> smmu \<Rightarrow> (int \<times> iommu_vm \<times> smmu) option" where
  "add_groups e [] vm s = Some (0, vm, s)"
| "add_groups e ((msk, sid) # groups) vm s =
     do { (r, vm, s) \<leftarrow> iommu_vm_arch_add e msk sid vm s;
          if r < 0 then Some (-1, vm, s) else add_groups e groups vm s }"

text \<open>\<open>groups\<close> are the groups of streams of the VM's configuration and the two masks those of the configuration and of the platform.\<close>

definition iommu_arch_vm_init_arm ::
  "smmu_env \<Rightarrow> u32 \<Rightarrow> u32 \<Rightarrow> (u16 \<times> u16) list \<Rightarrow> iommu_vm \<Rightarrow> smmu \<Rightarrow> (int \<times> iommu_vm \<times> smmu) option" where
  "iommu_arch_vm_init_arm e cfg_mask plat_mask groups vm s =
     add_groups e groups (vm\<lparr>iv_global_mask := cfg_mask OR plat_mask, iv_ctx_id := -1\<rparr>) s"

subsection \<open>The same translation for CPUs and devices\<close>

text \<open>
  C33: A context bank translates the accesses of a VM's devices with the configuration that the CPUs use for the VM: for every range of addresses
  of the table, the control registers agree but for a reserved bit.
\<close>

theorem ctxbnk_matches_vtcr:
  assumes "vmm_arch_init_arm ranges d = Some (parange, d', vtcr, hcr)" "s_parange e = parange" "smmu_write_ctxbnk e ctx root_pt vm_id s = Some s'"
  shows "vtcr = VTCR_RES1 OR ucast (sm_TCR s' ctx)"
proof -
  obtain bits where b: "parange_bits parange = Some bits" "vtcr = vtcr_value parange bits"
    using assms(1) by (auto simp: vmm_arch_init_arm_def Let_def split: bind_splits)
  then have t: "sm_TCR s' ctx = tcr_value parange bits" using assms(2,3) by (auto simp: smmu_write_ctxbnk_def split: if_splits)
  have "parange < 6" "bits = parange_table ! parange" using b(1) by (auto simp: parange_bits_def parange_table_def split: if_splits)
  then have c: "parange = 0 \<and> bits = 32 \<or> parange = 1 \<and> bits = 36 \<or> parange = 2 \<and> bits = 40 \<or> parange = 3 \<and> bits = 42 \<or>
      parange = 4 \<and> bits = 44 \<or> parange = 5 \<and> bits = 48" by (auto simp: parange_table_def less_Suc_eq numeral_eq_Suc)
  show ?thesis unfolding b(2) t using c
    by (elim disjE conjE) (simp_all add: vtcr_value_def VTCR_defs tcr_value_def push_bit_eq_mult)
qed

subsection \<open>Fields of the entries\<close>

lemma smr_fields:
  assumes "\<not> bit msk 15"
  shows "SMMU_SMR_ID (smr_value msk sid) = sid AND SMMU_ID_MSK" "SMMU_SMR_MASK (smr_value msk sid) = msk" "bit (smr_value msk sid) 31"
proof -
  have m: "SMMU_ID_MSK = mask 15" "(0x7fff :: u16) = mask 15" by (simp_all add: SMMU_ID_MSK_def mask_eq_exp_minus_1)
  have b: "bit msk n \<Longrightarrow> n < 15" for n using assms bit_imp_le_length [of msk n] by (cases "n = 15") auto
  show "SMMU_SMR_ID (smr_value msk sid) = sid AND SMMU_ID_MSK" "SMMU_SMR_MASK (smr_value msk sid) = msk"
    by (rule bit_word_eqI; auto simp: SMMU_SMR_ID_def SMMU_SMR_MASK_def smr_value_def bit_extract_def bm_simps m bit_simps dest: b simp del: push_bit_of_1)+
  show "bit (smr_value msk sid) 31" unfolding smr_value_def bit_or_iff bit_push_bit_iff by simp
qed

lemma s2cr_fields: "c < 256 \<Longrightarrow> S2CR_CBNDX (s2cr_value x c) = c"
proof -
  assume c: "c < 256"
  have m: "(0xff :: u32) = mask 8" "(push_bit 30 3 :: u32) = push_bit 30 (mask 2)" by (simp_all add: mask_eq_exp_minus_1)
  have "bit_extract (ucast (s2cr_value x c)) 0 8 = of_nat (c mod 256)"
  proof (rule bit_word_eqI)
    fix n assume "n < LENGTH(64)"
    then show "bit (bit_extract (ucast (s2cr_value x c)) 0 8) n \<longleftrightarrow> bit (of_nat (c mod 256) :: u64) n"
      unfolding s2cr_value_def m
      by (auto simp: bit_extract_def bm_simps bit_simps take_bit_eq_mod [of 8 c, simplified, symmetric])
  qed
  then show ?thesis using c by (simp add: S2CR_CBNDX_def unat_of_nat)
qed

lemma diff_matches:
  assumes "(a XOR t) AND NOT m AND SMMU_ID_MSK = 0" "(b XOR t) AND NOT n AND SMMU_ID_MSK = 0" "a AND SMMU_ID_MSK = a" "b AND SMMU_ID_MSK = b"
  shows "(a XOR b) AND NOT (n OR m) = (0 :: u16)"
proof (rule bit_word_eqI)
  fix i assume i: "i < LENGTH(16)"
  have "bit ((a XOR t) AND NOT m AND SMMU_ID_MSK) i = False" "bit ((b XOR t) AND NOT n AND SMMU_ID_MSK) i = False"
    "bit (a AND SMMU_ID_MSK) i = bit a i" "bit (b AND SMMU_ID_MSK) i = bit b i" by (simp_all only: assms bit_0_eq bot_apply bot_bool_def)
  then show "bit ((a XOR b) AND NOT (n OR m)) i \<longleftrightarrow> bit (0 :: u16) i" using i by (auto simp: bit_simps)
qed

subsection \<open>The search without groups\<close>

text \<open>A word-level distance of the sets of streams of an entry and of a device: 0 when they have a common stream.\<close>

definition sme_diff :: "smmu \<Rightarrow> u16 \<Rightarrow> u16 \<Rightarrow> nat \<Rightarrow> u16" where
  "sme_diff s msk sid i = (smmu_sme_get_id s i XOR sid) AND NOT (msk OR smmu_sme_get_mask s i)"

abbreviation used :: "smmu \<Rightarrow> nat \<Rightarrow> bool" where
  "used s i \<equiv> bitmap_get (sme_bitmap s) i = 1"

lemma compatible_loop_device:
  assumes "compatible_loop msk sid ctx False k j s = Some (found, s')"
    and "\<And>i. j \<le> i \<Longrightarrow> i < j + k \<Longrightarrow> used s i \<Longrightarrow> \<not> smmu_sme_is_group s i \<and> (ctx = smmu_sme_get_ctx s i \<longrightarrow> smmu_sme_get_mask s i = msk)"
  shows "s' = s \<and> (if found then \<exists>i. j \<le> i \<and> i < j + k \<and> used s i \<and> sme_diff s msk sid i = 0 \<and> ctx = smmu_sme_get_ctx s i
    else \<forall>i. j \<le> i \<and> i < j + k \<and> used s i \<longrightarrow> sme_diff s msk sid i \<noteq> 0)"
  using assms
proof (induction k arbitrary: j)
  case (Suc k)
  have hyp: "\<not> smmu_sme_is_group s i \<and> (ctx = smmu_sme_get_ctx s i \<longrightarrow> smmu_sme_get_mask s i = msk)"
    if "j + 1 \<le> i" "i < j + 1 + k" "used s i" for i using Suc.prems(2) that by simp
  show ?case
  proof (cases "used s j \<and> sme_diff s msk sid j = 0")
    case True
    then have "ctx = smmu_sme_get_ctx s j \<and> found \<and> s' = s"
      using Suc.prems(1) Suc.prems(2) [of j] by (auto simp: sme_diff_def Let_def split: if_splits)
    then show ?thesis using True by auto
  next
    case False
    then have "compatible_loop msk sid ctx False k (j + 1) s = Some (found, s')"
      using Suc.prems(1) by (auto simp: sme_diff_def Let_def split: if_splits)
    then have ih: "s' = s \<and> (if found then \<exists>i. j + 1 \<le> i \<and> i < j + 1 + k \<and> used s i \<and> sme_diff s msk sid i = 0 \<and> ctx = smmu_sme_get_ctx s i
      else \<forall>i. j + 1 \<le> i \<and> i < j + 1 + k \<and> used s i \<longrightarrow> sme_diff s msk sid i \<noteq> 0)"
      by (rule Suc.IH) (use hyp in blast)
    show ?thesis
    proof (cases found)
      case True
      then obtain i where i: "s' = s" "j + 1 \<le> i" "i < j + 1 + k" "used s i" "sme_diff s msk sid i = 0" "ctx = smmu_sme_get_ctx s i"
        using ih by auto
      then have "j \<le> i" "i < j + Suc k" by simp_all
      then show ?thesis using i(1,4-6) True by auto
    next
      case not: False
      have "sme_diff s msk sid i \<noteq> 0" if "j \<le> i" "i < j + Suc k" "used s i" for i
      proof (cases "i = j")
        case True
        then show ?thesis using False that by blast
      next
        case False
        then have "j + 1 \<le> i \<and> i < j + 1 + k" using that by simp
        then show ?thesis using ih not that by simp
      qed
      then show ?thesis using ih not by simp
    qed
  qed
qed auto

subsection \<open>Devices of VMs\<close>

text \<open>
  The unit, the VMs by number, and the devices that have been given to VMs. The VMs have no groups of streams; a VM that gets no
  context bank, or no entry, is told so.
\<close>

type_synonym iommu_sys = "smmu \<times> (nat \<Rightarrow> iommu_vm) \<times> (nat \<times> u16) set"

inductive iommu_step :: "smmu_env \<Rightarrow> iommu_sys \<Rightarrow> iommu_sys \<Rightarrow> bool" for e where
  added: "iommu_arch_vm_add_device_arm e dev (vms v) s = Some (0, vm, s') \<Longrightarrow>
    iommu_step e (s, vms, D) (s', vms(v := vm), insert (v, of_int dev AND SMMU_ID_MSK) D)"
| failed: "iommu_arch_vm_add_device_arm e dev (vms v) s = Some (r, vm, s') \<Longrightarrow> r \<noteq> 0 \<Longrightarrow> iommu_step e (s, vms, D) (s', vms(v := vm), D)"

definition iommu_start :: "smmu_env \<Rightarrow> iommu_sys \<Rightarrow> bool" where
  "iommu_start e z \<longleftrightarrow> (case z of (s, vms, D) \<Rightarrow>
     D = {} \<and> (\<exists>s0. smmu_init e s0 = Some s) \<and>
     (\<forall>v. \<exists>vm cfg_mask plat_mask. iommu_arch_vm_init_arm e cfg_mask plat_mask [] vm s = Some (0, vms v, s) \<and> iv_id vm = v \<and>
        \<not> bit (cfg_mask OR plat_mask) 15))"

abbreviation vm_mask :: "iommu_vm \<Rightarrow> u16" where
  "vm_mask vm \<equiv> ucast (iv_global_mask vm)"

text \<open>A VM that has a context bank, and its number.\<close>

definition has_ctx :: "iommu_vm \<Rightarrow> nat \<Rightarrow> bool" where
  "has_ctx vm c \<longleftrightarrow> iv_ctx_id vm = int c"

definition ctx_inv :: "smmu_env \<Rightarrow> smmu \<Rightarrow> (nat \<Rightarrow> iommu_vm) \<Rightarrow> bool" where
  "ctx_inv e s vms \<longleftrightarrow> ctx_num s \<le> 256 \<and> (\<forall>v. iv_id (vms v) = v \<and> \<not> bit (iv_global_mask (vms v)) 15) \<and>
     (\<forall>v c. has_ctx (vms v) c \<longrightarrow> c < ctx_num s \<and> bitmap_get (ctxbank_bitmap s) c = 1 \<and> sm_CBAR s c = of_nat v AND 0xff \<and>
        (\<exists>bits. parange_bits (s_parange e) = Some bits \<and> sm_TTBR0 s c = ttbr_value bits (iv_root (vms v)))) \<and>
     (\<forall>v w c. has_ctx (vms v) c \<and> has_ctx (vms w) c \<longrightarrow> v = w)"

text \<open>The entry \<open>i\<close> is that of the device \<open>d\<close> of the VM \<open>v\<close>.\<close>

definition entry_of :: "smmu \<Rightarrow> (nat \<Rightarrow> iommu_vm) \<Rightarrow> nat \<Rightarrow> nat \<Rightarrow> u16 \<Rightarrow> bool" where
  "entry_of s vms i v d \<longleftrightarrow> i < sme_num s \<and> used s i \<and> has_ctx (vms v) (smmu_sme_get_ctx s i) \<and> sm_SMR s i = smr_value (vm_mask (vms v)) d"

definition sme_inv :: "smmu \<Rightarrow> (nat \<Rightarrow> iommu_vm) \<Rightarrow> (nat \<times> u16) set \<Rightarrow> bool" where
  "sme_inv s vms D \<longleftrightarrow>
     (\<forall>v d. (v, d) \<in> D \<longrightarrow> d AND SMMU_ID_MSK = d) \<and>
     (\<forall>i < sme_num s. \<not> smmu_sme_is_group s i \<and> (if used s i then \<exists>v d. (v, d) \<in> D \<and> entry_of s vms i v d else sm_SMR s i = 0)) \<and>
     (\<forall>i j. i < sme_num s \<and> j < sme_num s \<and> used s i \<and> used s j \<and> i \<noteq> j \<longrightarrow> sme_diff s (smmu_sme_get_mask s j) (smmu_sme_get_id s j) i \<noteq> 0) \<and>
     (\<forall>v d. (v, d) \<in> D \<longrightarrow> (\<exists>i d'. entry_of s vms i v d' \<and> sme_diff s (vm_mask (vms v)) d i = 0))"

definition iommu_inv :: "smmu_env \<Rightarrow> iommu_sys \<Rightarrow> bool" where
  "iommu_inv e z \<longleftrightarrow> (case z of (s, vms, D) \<Rightarrow> ctx_inv e s vms \<and> sme_inv s vms D)"

lemma vm_mask_15: "\<not> bit (iv_global_mask vm) 15 \<Longrightarrow> \<not> bit (vm_mask vm) 15"
  by (simp add: bit_simps)

lemma entry_fields:
  assumes "entry_of s vms i v d" "\<not> bit (iv_global_mask (vms v)) 15"
  shows "smmu_sme_get_mask s i = vm_mask (vms v)" "smmu_sme_get_id s i = d AND SMMU_ID_MSK"
  using assms smr_fields [OF vm_mask_15] by (simp_all add: entry_of_def smmu_sme_get_mask_def smmu_sme_get_id_def)

text \<open>The allocation of a context bank.\<close>

lemma find_nth_free:
  assumes "bitmap_find_nth bm n 1 0 False = r" "0 \<le> r"
  shows "nat r < n" "bitmap_get bm (nat r) = 0"
  using bitmap_find_nth_spec [of 1 bm n 0 False] assms by auto

lemma init_ctx_cases:
  assumes "iommu_vm_arch_init_ctx e vm s = Some (c, vm', s')"
  obtains "vm' = vm" "s' = s" "c = iv_ctx_id vm \<or> c < 0"
  | k bits where "c = int k" "iv_ctx_id vm < 0" "k < ctx_num s" "bitmap_get (ctxbank_bitmap s) k = 0" "vm' = vm\<lparr>iv_ctx_id := c\<rparr>"
    "ctxbank_bitmap s' = bitmap_set (ctxbank_bitmap s) k" "parange_bits (s_parange e) = Some bits"
    "sm_CBAR s' = (sm_CBAR s)(k := of_nat (iv_id vm) AND 0xff)" "sm_TTBR0 s' = (sm_TTBR0 s)(k := ttbr_value bits (iv_root vm))"
    "sm_SMR s' = sm_SMR s" "sm_S2CR s' = sm_S2CR s" "sme_num s' = sme_num s" "sme_bitmap s' = sme_bitmap s" "grp_bitmap s' = grp_bitmap s"
    "ctx_num s' = ctx_num s"
proof (cases "iv_ctx_id vm < 0 \<and> 0 \<le> bitmap_find_nth (ctxbank_bitmap s) (ctx_num s) 1 0 False")
  case True
  let ?r = "bitmap_find_nth (ctxbank_bitmap s) (ctx_num s) 1 0 False"
  have f: "nat ?r < ctx_num s" "bitmap_get (ctxbank_bitmap s) (nat ?r) = 0" using find_nth_free [OF refl, of "ctxbank_bitmap s" "ctx_num s"] True by auto
  obtain bits where b: "parange_bits (s_parange e) = Some bits"
    using True assms by (auto simp: iommu_vm_arch_init_ctx_def smmu_alloc_ctxbnk_def smmu_write_ctxbnk_def Let_def bm_simps split: bind_splits if_splits)
  then show thesis using True assms f
    by (intro that(2) [of "nat ?r" bits])
      (auto simp: iommu_vm_arch_init_ctx_def smmu_alloc_ctxbnk_def smmu_write_ctxbnk_def Let_def bm_simps split: bind_splits if_splits)
next
  case False
  then show thesis using assms that(1)
    by (auto simp: iommu_vm_arch_init_ctx_def smmu_alloc_ctxbnk_def Let_def split: if_splits)
qed

lemmas sme_fields = smmu_sme_get_ctx_def smmu_sme_get_id_def smmu_sme_get_mask_def smmu_sme_is_group_def sme_diff_def

lemma has_ctx_inject: "has_ctx vm c \<Longrightarrow> has_ctx vm c' \<Longrightarrow> c' = c"
  by (simp add: has_ctx_def)

lemma ctx_invD:
  assumes "ctx_inv e s vms"
  shows "ctx_num s \<le> 256" "iv_id (vms v) = v" "\<not> bit (iv_global_mask (vms v)) 15" "has_ctx (vms v) c \<Longrightarrow> c < ctx_num s"
    "has_ctx (vms v) c \<Longrightarrow> bitmap_get (ctxbank_bitmap s) c = 1" "has_ctx (vms v) c \<Longrightarrow> sm_CBAR s c = of_nat v AND 0xff"
    "has_ctx (vms v) c \<Longrightarrow> \<exists>bits. parange_bits (s_parange e) = Some bits \<and> sm_TTBR0 s c = ttbr_value bits (iv_root (vms v))"
    "has_ctx (vms v) c \<Longrightarrow> has_ctx (vms w) c \<Longrightarrow> v = w"
  using assms unfolding ctx_inv_def by blast+

lemma ctx_invI:
  assumes "ctx_num s \<le> 256" "\<And>v. iv_id (vms v) = v" "\<And>v. \<not> bit (iv_global_mask (vms v)) 15" "\<And>v c. has_ctx (vms v) c \<Longrightarrow> c < ctx_num s"
    "\<And>v c. has_ctx (vms v) c \<Longrightarrow> bitmap_get (ctxbank_bitmap s) c = 1" "\<And>v c. has_ctx (vms v) c \<Longrightarrow> sm_CBAR s c = of_nat v AND 0xff"
    "\<And>v c. has_ctx (vms v) c \<Longrightarrow> \<exists>bits. parange_bits (s_parange e) = Some bits \<and> sm_TTBR0 s c = ttbr_value bits (iv_root (vms v))"
    "\<And>v c w. has_ctx (vms v) c \<Longrightarrow> has_ctx (vms w) c \<Longrightarrow> v = w"
  shows "ctx_inv e s vms"
  unfolding ctx_inv_def using assms by blast

lemma sme_invD:
  assumes "sme_inv s vms D"
  shows "(v, d) \<in> D \<Longrightarrow> d AND SMMU_ID_MSK = d" "i < sme_num s \<Longrightarrow> \<not> smmu_sme_is_group s i"
    "i < sme_num s \<Longrightarrow> used s i \<Longrightarrow> \<exists>v d. (v, d) \<in> D \<and> entry_of s vms i v d" "i < sme_num s \<Longrightarrow> \<not> used s i \<Longrightarrow> sm_SMR s i = 0"
    "i < sme_num s \<Longrightarrow> j < sme_num s \<Longrightarrow> used s i \<Longrightarrow> used s j \<Longrightarrow> i \<noteq> j \<Longrightarrow> sme_diff s (smmu_sme_get_mask s j) (smmu_sme_get_id s j) i \<noteq> 0"
    "(v, d) \<in> D \<Longrightarrow> \<exists>i d'. entry_of s vms i v d' \<and> sme_diff s (vm_mask (vms v)) d i = 0"
  using assms unfolding sme_inv_def by (blast | metis)+

lemma sme_invI:
  assumes "\<And>v d. (v, d) \<in> D \<Longrightarrow> d AND SMMU_ID_MSK = d" "\<And>i. i < sme_num s \<Longrightarrow> \<not> smmu_sme_is_group s i"
    "\<And>i. i < sme_num s \<Longrightarrow> used s i \<Longrightarrow> \<exists>v d. (v, d) \<in> D \<and> entry_of s vms i v d" "\<And>i. i < sme_num s \<Longrightarrow> \<not> used s i \<Longrightarrow> sm_SMR s i = 0"
    "\<And>i j. i < sme_num s \<Longrightarrow> j < sme_num s \<Longrightarrow> used s i \<Longrightarrow> used s j \<Longrightarrow> i \<noteq> j \<Longrightarrow> sme_diff s (smmu_sme_get_mask s j) (smmu_sme_get_id s j) i \<noteq> 0"
    "\<And>v d. (v, d) \<in> D \<Longrightarrow> \<exists>i d'. entry_of s vms i v d' \<and> sme_diff s (vm_mask (vms v)) d i = 0"
  shows "sme_inv s vms D"
  unfolding sme_inv_def using assms by (intro conjI allI impI) (blast | simp)+

lemma init_ctx_inv:
  assumes c: "ctx_inv e s vms" and m: "sme_inv s vms D" and f: "iommu_vm_arch_init_ctx e (vms v) s = Some (c, vm', s')"
  shows "ctx_inv e s' (vms(v := vm')) \<and> sme_inv s' (vms(v := vm')) D \<and> (0 \<le> c \<longrightarrow> has_ctx vm' (nat c)) \<and> iv_global_mask vm' = iv_global_mask (vms v)"
  using f
proof (cases rule: init_ctx_cases)
  case 1
  then have "vms(v := vm') = vms" by auto
  then show ?thesis using 1 c m by (auto simp: has_ctx_def)
next
  case (2 k bits)
  let ?w = "vms(v := vm')"
  have h: "has_ctx (?w u) x \<longleftrightarrow> (if u = v then x = k else has_ctx (vms u) x)" "iv_id (?w u) = u" "iv_root (?w u) = iv_root (vms u)"
    "iv_global_mask (?w u) = iv_global_mask (vms u)" for u x using 2(1,5) ctx_invD(2) [OF c] by (auto simp: has_ctx_def)
  have new: "\<not> has_ctx (vms u) k" for u using ctx_invD(5) [OF c, of u k] 2(4) by auto
  have no: "\<not> has_ctx (vms v) x" for x using 2(2) by (simp add: has_ctx_def)
  have "ctx_inv e s' ?w"
  proof (rule ctx_invI)
    fix u x assume x: "has_ctx (?w u) x"
    have "u = v \<and> x = k \<or> u \<noteq> v \<and> x \<noteq> k \<and> has_ctx (vms u) x" using x [unfolded h(1)] new [of u] by (cases "u = v") auto
    then consider (own) "u = v" "x = k" | (other) "x \<noteq> k" "has_ctx (vms u) x" by blast
    then show "x < ctx_num s'" "bitmap_get (ctxbank_bitmap s') x = 1" "sm_CBAR s' x = of_nat u AND 0xff"
      "\<exists>bits. parange_bits (s_parange e) = Some bits \<and> sm_TTBR0 s' x = ttbr_value bits (iv_root (?w u))"
      using ctx_invD(2,4-7) [OF c] 2(3,6-9,15) unfolding h(3) by (cases; simp add: bm_simps)+
  next
    show "u = w" if "has_ctx (?w u) x" "has_ctx (?w w) x" for u x w
      using that [unfolded h(1)] new ctx_invD(8) [OF c] by (cases "u = v"; cases "w = v") auto
  qed (use ctx_invD(1,3) [OF c] 2(15) h in simp_all)
  moreover have "entry_of s vms i u d \<Longrightarrow> entry_of s' ?w i u d" for i u d
    using no 2 by (auto simp: entry_of_def h sme_fields)
  then have "sme_inv s' ?w D" using sme_invD [OF m] 2(10-15) by (intro sme_invI) (simp_all only: sme_fields h(4), blast+)
  ultimately show ?thesis using 2 by (simp add: has_ctx_def)
qed

text \<open>The device shares its streams with an entry of the same VM.\<close>

lemma add_found:
  assumes c: "ctx_inv e s vms" and m: "sme_inv s vms D" and k: "has_ctx (vms v) k" and d: "d AND SMMU_ID_MSK = d"
    and i: "i < sme_num s" "used s i" "sme_diff s (vm_mask (vms v)) d i = 0" "k = smmu_sme_get_ctx s i"
  shows "sme_inv s vms (insert (v, d) D)"
proof -
  obtain w d' where w: "(w, d') \<in> D" "entry_of s vms i w d'" using sme_invD(3) [OF m i(1,2)] by blast
  then have "w = v" using k i(4) ctx_invD(8) [OF c] by (auto simp: entry_of_def)
  have e: "\<exists>i d'. entry_of s vms i v d' \<and> sme_diff s (vm_mask (vms v)) d i = 0" using w i(3) \<open>w = v\<close> by blast
  show ?thesis
  proof (rule sme_invI)
    show "\<exists>v' d'. (v', d') \<in> insert (v, d) D \<and> entry_of s vms j v' d'" if "j < sme_num s" "used s j" for j
      using sme_invD(3) [OF m that] by blast
    show "\<exists>i d''. entry_of s vms i v' d'' \<and> sme_diff s (vm_mask (vms v')) d' i = 0" if "(v', d') \<in> insert (v, d) D" for v' d'
      using that e sme_invD(6) [OF m] by blast
    show "d' AND SMMU_ID_MSK = d'" if "(v', d') \<in> insert (v, d) D" for v' d' using that d sme_invD(1) [OF m] by blast
  qed (use sme_invD(2,4,5) [OF m] in simp_all)
qed

text \<open>The device gets an entry of its own.\<close>

lemma add_new:
  assumes c: "ctx_inv e s vms" and m: "sme_inv s vms D" and k: "has_ctx (vms v) k" and d: "d AND SMMU_ID_MSK = d"
    and free: "\<And>i. i < sme_num s \<Longrightarrow> used s i \<Longrightarrow> sme_diff s (vm_mask (vms v)) d i \<noteq> 0"
    and j: "j < sme_num s" "bitmap_get (sme_bitmap s) j = 0"
    and w: "smmu_write_sme j (vm_mask (vms v)) d False s = Some s1" "smmu_write_s2c j k s1 = Some s'"
  shows "sme_inv s' vms (insert (v, d) D)" "ctx_inv e s' vms"
proof -
  let ?m = "vm_mask (vms v)"
  have s': "s' = s\<lparr>sm_SMR := (sm_SMR s)(j := smr_value ?m d), sme_bitmap := bitmap_set (sme_bitmap s) j,
      sm_S2CR := (sm_S2CR s)(j := s2cr_value (sm_S2CR s j) k)\<rparr>"
    using w j(2) by (auto simp: smmu_write_sme_def smmu_write_s2c_def bm_simps)
  then show "ctx_inv e s' vms" using c by (simp add: ctx_inv_def)
  have n: "sme_num s' = sme_num s" "\<And>i. used s' i \<longleftrightarrow> i = j \<or> used s i" "\<And>i. smmu_sme_is_group s' i = smmu_sme_is_group s i"
    using s' by (auto simp: bm_simps smmu_sme_is_group_def)
  have old: "smmu_sme_get_ctx s' i = smmu_sme_get_ctx s i" "smmu_sme_get_id s' i = smmu_sme_get_id s i" "smmu_sme_get_mask s' i = smmu_sme_get_mask s i"
    "sm_SMR s' i = sm_SMR s i" if "i \<noteq> j" for i using s' that by (simp_all add: sme_fields)
  have b: "\<not> bit ?m 15" using vm_mask_15 [OF ctx_invD(3) [OF c]] .
  have "k < 256" using ctx_invD(1,4) [OF c] k by (meson less_le_trans)
  then have new: "smmu_sme_get_ctx s' j = k" "smmu_sme_get_id s' j = d" "smmu_sme_get_mask s' j = ?m"
    using s' smr_fields [OF b] d by (simp_all add: sme_fields s2cr_fields)
  have ent: "entry_of s' vms j v d" using s' k n(1,2) j(1) new(1) by (simp add: entry_of_def)
  have keep: "entry_of s' vms i w d'" if "entry_of s vms i w d'" for i w d'
    using that j(2) old [of i] n by (cases "i = j") (auto simp: entry_of_def)
  have far: "sme_diff s' x y i = sme_diff s x y i" if "i \<noteq> j" for i x y using old [OF that] by (simp add: sme_diff_def)
  show "sme_inv s' vms (insert (v, d) D)"
  proof (rule sme_invI)
    show "d' AND SMMU_ID_MSK = d'" if "(v', d') \<in> insert (v, d) D" for v' d' using that d sme_invD(1) [OF m] by blast
    show "\<not> smmu_sme_is_group s' i" if "i < sme_num s'" for i using that n(1,3) sme_invD(2) [OF m] by simp
    show "\<exists>v' d'. (v', d') \<in> insert (v, d) D \<and> entry_of s' vms i v' d'" if "i < sme_num s'" "used s' i" for i
    proof (cases "i = j")
      case True
      then show ?thesis using ent by auto
    next
      case False
      then have "i < sme_num s" "used s i" using that n(1,2) by simp_all
      then obtain v' d' where "(v', d') \<in> D" "entry_of s vms i v' d'" using sme_invD(3) [OF m] by blast
      then show ?thesis using keep [of i v' d'] by auto
    qed
    show "sm_SMR s' i = 0" if "i < sme_num s'" "\<not> used s' i" for i
    proof -
      have "i < sme_num s" "i \<noteq> j" "\<not> used s i" using that n(1,2) by auto
      then show ?thesis using old(4) sme_invD(4) [OF m] by metis
    qed
    show "sme_diff s' (smmu_sme_get_mask s' x) (smmu_sme_get_id s' x) i \<noteq> 0" if "i < sme_num s'" "x < sme_num s'" "used s' i" "used s' x" "i \<noteq> x" for i x
    proof -
      have u: "i < sme_num s" "x < sme_num s" "i \<noteq> j \<Longrightarrow> used s i" "x \<noteq> j \<Longrightarrow> used s x" using that n(1,2) by auto
      have ne: "i \<noteq> x" using that(5) .
      then consider "i = j" "x \<noteq> j" | "x = j" "i \<noteq> j" | "i \<noteq> j" "x \<noteq> j" by blast
      then show ?thesis
      proof cases
        case 1
        then have "sme_diff s ?m d x \<noteq> 0" using free u by blast
        then show ?thesis using old(2,3) [OF 1(2)] new(2,3) unfolding 1(1) sme_diff_def by (simp add: xor.commute or.commute)
      next
        case 2
        then have "sme_diff s ?m d i \<noteq> 0" using free u by blast
        then show ?thesis using far [OF 2(2)] new(2,3) unfolding 2(1) by metis
      next
        case 3
        then have "sme_diff s (smmu_sme_get_mask s x) (smmu_sme_get_id s x) i \<noteq> 0" using sme_invD(5) [OF m u(1,2)] u(3,4) ne by blast
        then show ?thesis using far [OF 3(1)] old(2,3) [OF 3(2)] by metis
      qed
    qed
    show "\<exists>i d''. entry_of s' vms i v' d'' \<and> sme_diff s' (vm_mask (vms v')) d' i = 0" if "(v', d') \<in> insert (v, d) D" for v' d'
    proof (cases "(v', d') = (v, d)")
      case True
      then show ?thesis using ent new by (auto simp: sme_diff_def)
    next
      case False
      then have "(v', d') \<in> D" using that by blast
      then obtain i d'' where i: "entry_of s vms i v' d''" "sme_diff s (vm_mask (vms v')) d' i = 0" using sme_invD(6) [OF m] by blast
      then have "i \<noteq> j" using j(2) by (auto simp: entry_of_def)
      then show ?thesis using keep [OF i(1)] far i(2) by auto
    qed
  qed
qed

lemma add_device_inv:
  assumes inv: "ctx_inv e s vms" "sme_inv s vms D" and f: "iommu_arch_vm_add_device_arm e dev (vms v) s = Some (r, vm, s')"
  shows "ctx_inv e s' (vms(v := vm)) \<and> sme_inv s' (vms(v := vm)) (if r = 0 then insert (v, of_int dev AND SMMU_ID_MSK) D else D)"
proof -
  let ?d = "of_int dev AND SMMU_ID_MSK :: u16"
  obtain c vm1 s1 where i: "iommu_vm_arch_init_ctx e (vms v) s = Some (c, vm1, s1)"
    using f by (auto simp: iommu_arch_vm_add_device_arm_def iommu_vm_arch_add_def split: bind_splits)
  let ?w = "vms(v := vm1)"
  have c: "ctx_inv e s1 ?w" and m: "sme_inv s1 ?w D" and h: "0 \<le> c \<Longrightarrow> has_ctx (?w v) (nat c)" using init_ctx_inv [OF inv i] by auto
  have d: "?d AND SMMU_ID_MSK = ?d" by (simp add: and.assoc)
  let ?m = "vm_mask (?w v)"
  show ?thesis
  proof (cases "c < 0")
    case True
    then show ?thesis using f i c m by (auto simp: iommu_arch_vm_add_device_arm_def iommu_vm_arch_add_def Let_def)
  next
    case False
    have hc: "has_ctx (?w v) (nat c)" using False by (intro h) simp
    obtain found s2 where l: "smmu_compatible_sme_exists ?m ?d (nat c) False s1 = Some (found, s2)"
      using f i False by (auto simp: iommu_arch_vm_add_device_arm_def iommu_vm_arch_add_def Let_def split: bind_splits if_splits)
    have k: "\<not> smmu_sme_is_group s1 x \<and> (nat c = smmu_sme_get_ctx s1 x \<longrightarrow> smmu_sme_get_mask s1 x = ?m)" if "x < sme_num s1" "used s1 x" for x
    proof -
      have "\<exists>u d'. (u, d') \<in> D \<and> entry_of s1 ?w x u d'" by (rule sme_invD(3) [OF m that])
      then obtain u d' where u: "entry_of s1 ?w x u d'" by blast
      then have hu: "has_ctx (?w u) (smmu_sme_get_ctx s1 x)" unfolding entry_of_def by blast
      have "nat c = smmu_sme_get_ctx s1 x \<Longrightarrow> u = v" using ctx_invD(8) [OF c hu] hc by metis
      then show ?thesis using entry_fields(1) [OF u ctx_invD(3) [OF c]] sme_invD(2) [OF m that(1)] by blast
    qed
    have q: "s2 = s1 \<and> (if found then \<exists>x. 0 \<le> x \<and> x < 0 + sme_num s1 \<and> used s1 x \<and> sme_diff s1 ?m ?d x = 0 \<and> nat c = smmu_sme_get_ctx s1 x
        else \<forall>x. 0 \<le> x \<and> x < 0 + sme_num s1 \<and> used s1 x \<longrightarrow> sme_diff s1 ?m ?d x \<noteq> 0)"
      by (rule compatible_loop_device [OF l [unfolded smmu_compatible_sme_exists_def]]) (use k in simp)
    show ?thesis
    proof (cases found)
      case True
      then obtain x where x: "x < sme_num s1" "used s1 x" "sme_diff s1 ?m ?d x = 0" "nat c = smmu_sme_get_ctx s1 x" using q by auto
      have "r = 0 \<and> vm = vm1 \<and> s' = s1"
        using f i l False True q by (auto simp: iommu_arch_vm_add_device_arm_def iommu_vm_arch_add_def Let_def)
      then show ?thesis using c add_found [where vms="?w" and v=v, OF c m hc d x] by (simp only: simp_thms if_True)
    next
      case not: False
      let ?j = "smmu_alloc_sme s1"
      show ?thesis
      proof (cases "?j < 0")
        case True
        then show ?thesis using f i l False not q c m by (auto simp: iommu_arch_vm_add_device_arm_def iommu_vm_arch_add_def Let_def)
      next
        case j: False
        have j': "nat ?j < sme_num s1" "bitmap_get (sme_bitmap s1) (nat ?j) = 0"
          using find_nth_free [of "sme_bitmap s1" "sme_num s1" ?j] j by (auto simp: smmu_alloc_sme_def)
        obtain s3 where s3: "smmu_write_sme (nat ?j) ?m ?d False s1 = Some s3" "smmu_write_s2c (nat ?j) (nat c) s3 = Some s'" "r = 0" "vm = vm1"
          using f i l False not j q by (auto simp: iommu_arch_vm_add_device_arm_def iommu_vm_arch_add_def Let_def split: bind_splits)
        have "sme_diff s1 ?m ?d x \<noteq> 0" if "x < sme_num s1" "used s1 x" for x using q not that by simp
        from add_new [where vms="?w" and v=v, OF c m hc d this j' s3(1,2)] show ?thesis unfolding s3(3,4) by (simp only: simp_thms if_True)
      qed
    qed
  qed
qed

lemma iommu_step_inv: "iommu_step e z z' \<Longrightarrow> iommu_inv e z \<Longrightarrow> iommu_inv e z'"
proof (induction rule: iommu_step.induct)
  case (added dev vms v s vm s' D)
  then show ?case using add_device_inv [where vms=vms and v=v and D=D, OF _ _ added(1)] by (simp add: iommu_inv_def)
next
  case (failed dev vms v s r vm s' D)
  then show ?case using add_device_inv [where vms=vms and v=v and D=D, OF _ _ failed(1)] by (simp add: iommu_inv_def)
qed

lemma iommu_start_inv: "iommu_start e z \<Longrightarrow> iommu_inv e z"
proof -
  assume z: "iommu_start e z"
  obtain s vms D where t: "z = (s, vms, D)" using prod_cases3 by blast
  obtain s0 where s0: "smmu_init e s0 = Some s" "D = {}" using z t by (auto simp: iommu_start_def)
  have "ctx_num s = unat (bit_extract (s_IDR1 e) 0 8)" "i < sme_num s \<Longrightarrow> \<not> used s i \<and> sm_SMR s i = 0 \<and> bitmap_get (grp_bitmap s) i = 0" for i
    using s0(1) by (auto simp: smmu_init_def Let_def bm_simps split: if_splits)
  moreover have "unat (bit_extract (s_IDR1 e) 0 8) < 256"
    using take_bit_nat_less_exp [of 8 "unat (s_IDR1 e)"] by (simp add: bit_extract_def BIT_MASK_eq unsigned_take_bit_eq flip: take_bit_eq_mask)
  moreover have "iv_id (vms v) = v \<and> \<not> bit (iv_global_mask (vms v)) 15 \<and> iv_ctx_id (vms v) = -1" for v
  proof -
    have "\<exists>vm cm pm. iommu_arch_vm_init_arm e cm pm [] vm s = Some (0, vms v, s) \<and> iv_id vm = v \<and> \<not> bit (cm OR pm) 15"
      using z unfolding t iommu_start_def by simp
    then obtain vm cm pm where q: "iommu_arch_vm_init_arm e cm pm [] vm s = Some (0, vms v, s)" "iv_id vm = v" "\<not> bit (cm OR pm) 15"
      by blast
    then have "vms v = vm\<lparr>iv_global_mask := cm OR pm, iv_ctx_id := - 1\<rparr>" by (simp add: iommu_arch_vm_init_arm_def)
    then show ?thesis using q by simp
  qed
  ultimately show ?thesis unfolding t iommu_inv_def ctx_inv_def sme_inv_def by (simp add: s0(2) has_ctx_def smmu_sme_is_group_def) blast
qed

interpretation iommu: reach_system "iommu_step e" "iommu_inv e" "iommu_start e"
  by unfold_locales (use iommu_step_inv iommu_start_inv in blast)+

subsection \<open>Isolation of devices\<close>

text \<open>What the hardware does: an entry that is valid matches a stream up to the bits of its mask.\<close>

definition smr_matches :: "u32 \<Rightarrow> u16 \<Rightarrow> bool" where
  "smr_matches smr t \<longleftrightarrow> bit smr 31 \<and> (SMMU_SMR_ID smr XOR t) AND NOT (SMMU_SMR_MASK smr) AND SMMU_ID_MSK = 0"

text \<open>The streams of a device of a VM: those that differ from its number in bits of the VM's mask.\<close>

definition has_stream :: "iommu_vm \<Rightarrow> u16 \<Rightarrow> u16 \<Rightarrow> bool" where
  "has_stream vm d t \<longleftrightarrow> (d XOR t) AND NOT (vm_mask vm) AND SMMU_ID_MSK = 0"

lemma matches_used:
  assumes "sme_inv s vms D" "i < sme_num s" "smr_matches (sm_SMR s i) t"
  shows "used s i"
proof (rule ccontr)
  assume "\<not> used s i"
  then have "sm_SMR s i = 0" by (rule sme_invD(4) [OF assms(1,2)])
  then show False using assms(3) by (simp add: smr_matches_def)
qed

lemma matches_unique:
  assumes c: "ctx_inv e s vms" and m: "sme_inv s vms D"
    and i: "i < sme_num s" "smr_matches (sm_SMR s i) t" and j: "j < sme_num s" "smr_matches (sm_SMR s j) t"
  shows "i = j"
proof (rule ccontr)
  assume ne: "i \<noteq> j"
  have u: "used s i" "used s j" using matches_used [OF m] i j by blast+
  have x: "smmu_sme_get_id s x AND SMMU_ID_MSK = smmu_sme_get_id s x" if "x < sme_num s" "used s x" for x
  proof -
    have "\<exists>v d. (v, d) \<in> D \<and> entry_of s vms x v d" by (rule sme_invD(3) [OF m that])
    then show ?thesis using entry_fields(2) [OF _ ctx_invD(3) [OF c]] by (auto simp: and.assoc)
  qed
  have "sme_diff s (smmu_sme_get_mask s j) (smmu_sme_get_id s j) i = 0"
    unfolding sme_diff_def
    by (rule diff_matches [OF _ _ x [OF i(1) u(1)] x [OF j(1) u(2)]]) (use i j in \<open>auto simp: smr_matches_def sme_fields\<close>)
  then show False using sme_invD(5) [OF m i(1) j(1) u ne] by blast
qed

lemma stream_matched:
  assumes c: "ctx_inv e s vms" and m: "sme_inv s vms D" and d: "(v, d) \<in> D" "has_stream (vms v) d t"
  shows "\<exists>i < sme_num s. smr_matches (sm_SMR s i) t \<and> has_ctx (vms v) (smmu_sme_get_ctx s i)"
proof -
  obtain i d' where i: "entry_of s vms i v d'" "sme_diff s (vm_mask (vms v)) d i = 0" using sme_invD(6) [OF m d(1)] by blast
  have f: "smmu_sme_get_mask s i = vm_mask (vms v)" by (rule entry_fields(1) [OF i(1) ctx_invD(3) [OF c]])
  have "(smmu_sme_get_id s i XOR t) AND NOT (vm_mask (vms v)) AND SMMU_ID_MSK = 0"
  proof (rule bit_word_eqI)
    fix n assume "n < LENGTH(16)"
    have "\<not> bit ((smmu_sme_get_id s i XOR d) AND NOT (vm_mask (vms v) OR vm_mask (vms v))) n" using i(2) f by (simp add: sme_diff_def)
    moreover have "\<not> bit ((d XOR t) AND NOT (vm_mask (vms v)) AND SMMU_ID_MSK) n" using d(2) by (simp add: has_stream_def)
    ultimately show "bit ((smmu_sme_get_id s i XOR t) AND NOT (vm_mask (vms v)) AND SMMU_ID_MSK) n \<longleftrightarrow> bit (0 :: u16) n"
      using \<open>n < LENGTH(16)\<close> by (auto simp: bit_and_iff bit_xor_iff bit_not_iff bit_or_iff)
  qed
  moreover have "bit (sm_SMR s i) 31" using i(1) smr_fields(3) [OF vm_mask_15 [OF ctx_invD(3) [OF c]]] by (auto simp: entry_of_def)
  ultimately show ?thesis using i(1) f by (auto simp: entry_of_def smr_matches_def smmu_sme_get_id_def smmu_sme_get_mask_def)
qed


text \<open>A unit with two entries and two banks.\<close>

definition ex_senv :: smmu_env where
  "ex_senv = \<lparr>s_IDR0 = 0x48002002, s_IDR1 = 2, s_IDR2 = 0x1055, s_IDR7 = 0x20, s_mmfr0 = 5, s_parange = 2\<rparr>"

definition ex_smmu :: smmu where
  "ex_smmu = \<lparr>sm_CR0 = 0, sm_SMR = (\<lambda>i. 0), sm_S2CR = (\<lambda>i. 0), sm_CBAR = (\<lambda>i. 0), sm_CBA2R = (\<lambda>i. 0), sm_TCR = (\<lambda>i. 0), sm_TTBR0 = (\<lambda>i. 0),
     sm_SCTLR = (\<lambda>i. 0), sm_FSR = (\<lambda>i. 0), sme_num = 0, sme_bitmap = (\<lambda>i. 0), grp_bitmap = (\<lambda>i. 0), ctx_num = 0, ctxbank_bitmap = (\<lambda>i. 0)\<rparr>"

definition ex_on :: smmu where
  "ex_on = the (smmu_init ex_senv ex_smmu)"

definition ex_dvm :: "nat \<Rightarrow> iommu_vm" where
  "ex_dvm v = \<lparr>iv_id = v, iv_root = 0x80000000 + of_nat v * 0x10000, iv_global_mask = 0, iv_ctx_id = -1\<rparr>"

lemma ex_on: "smmu_init ex_senv ex_smmu = Some ex_on"
proof -
  have "smmu_check_features ex_senv" by code_simp
  then show ?thesis by (simp add: ex_on_def smmu_init_def Let_def)
qed

lemma ex_on_fields:
  "ctx_num ex_on = 2" "sme_num ex_on = 2" "bitmap_get (ctxbank_bitmap ex_on) i = 0" "bitmap_get (sme_bitmap ex_on) i = 0"
  "bitmap_get (grp_bitmap ex_on) i = 0" "sm_SMR ex_on i = 0"
proof -
  have "unat (bit_extract (s_IDR1 ex_senv) 0 8) = 2" "unat (s_IDR0 ex_senv AND 0xff) = 2" by code_simp+
  moreover have "bitmap_get (\<lambda>i. 0) j = 0" for j by (simp add: bitmap_get_def)
  moreover have "smmu_check_features ex_senv" by code_simp
  ultimately show "ctx_num ex_on = 2" "sme_num ex_on = 2" "bitmap_get (ctxbank_bitmap ex_on) i = 0" "bitmap_get (sme_bitmap ex_on) i = 0"
    "bitmap_get (grp_bitmap ex_on) i = 0" "sm_SMR ex_on i = 0"
    by (simp_all add: ex_on_def smmu_init_def Let_def bm_simps ex_smmu_def)
qed

lemma find_first: "bitmap_get bm 0 = 0 \<Longrightarrow> 0 < n \<Longrightarrow> bitmap_find_nth bm n 1 0 False = 0"
  by (simp add: bitmap_find_nth_def find_nth_loop.simps)

lemma find_second: "bitmap_get bm 0 = 1 \<Longrightarrow> bitmap_get bm 1 = 0 \<Longrightarrow> 1 < n \<Longrightarrow> bitmap_find_nth bm n 1 0 False = 1"
  by (simp add: bitmap_find_nth_def find_nth_loop.simps [of bm n _ _ 0] find_nth_loop.simps [of bm n _ _ 1])

lemma compatible_loop_unused: "(\<And>i. bitmap_get (sme_bitmap s) i = 0) \<Longrightarrow> compatible_loop msk sid ctx grp k j s = Some (False, s)"
  by (induction k arbitrary: j) simp_all

text \<open>The first device or group of a unit that is not used yet.\<close>

lemma first_add:
  assumes "iv_ctx_id vm < 0" "parange_bits (s_parange e) = Some bits" "bitmap_get (ctxbank_bitmap s) 0 = 0" "0 < ctx_num s"
    "\<And>i. bitmap_get (sme_bitmap s) i = 0" "0 < sme_num s"
  shows "\<exists>s'. iommu_vm_arch_add e msk sid vm s = Some (0, vm\<lparr>iv_ctx_id := 0\<rparr>, s') \<and>
    sm_SMR s' = (sm_SMR s)(0 := smr_value ((msk AND SMMU_ID_MSK) OR vm_mask vm) (sid AND SMMU_ID_MSK)) \<and> smmu_sme_get_ctx s' 0 = 0 \<and>
    sme_bitmap s' = bitmap_set (sme_bitmap s) 0 \<and> grp_bitmap s' = (if msk \<noteq> 0 then bitmap_set (grp_bitmap s) 0 else grp_bitmap s) \<and>
    ctxbank_bitmap s' = bitmap_set (ctxbank_bitmap s) 0 \<and> ctx_num s' = ctx_num s \<and> sme_num s' = sme_num s"
  using assms find_first [of "ctxbank_bitmap s" "ctx_num s"] find_first [of "sme_bitmap s" "sme_num s"]
  by (simp add: iommu_vm_arch_add_def iommu_vm_arch_init_ctx_def smmu_alloc_ctxbnk_def smmu_write_ctxbnk_def bm_simps Let_def
      smmu_compatible_sme_exists_def compatible_loop_unused smmu_alloc_sme_def smmu_write_sme_def smmu_write_s2c_def smmu_sme_get_ctx_def s2cr_fields)


text \<open>
  With groups, a VM's device can end up in the bank of another VM: the first VM has the group of the streams 16 to 31, and the device 18 of the
  second one is taken to be compatible with it, although the second VM has a bank of its own.
\<close>

lemma smmu_group_leak:
  "\<exists>s vm0 vm1. (do { (r, vm0, s) \<leftarrow> iommu_arch_vm_init_arm ex_senv 0 0 [(0xf, 0x10)] (ex_dvm 0) ex_on;
                     (r, vm1, s) \<leftarrow> iommu_arch_vm_add_device_arm ex_senv 0x12 (ex_dvm 1) s;
                     Some (r, vm0, vm1, s) }) = Some (0, vm0, vm1, s) \<and>
     has_ctx vm0 0 \<and> has_ctx vm1 1 \<and> smr_matches (sm_SMR s 0) 0x12 \<and> smmu_sme_get_ctx s 0 = 0"
proof -
  let ?m = "0xf AND SMMU_ID_MSK :: u16"
  have p: "parange_bits (s_parange ex_senv) = Some 40" by (simp add: parange_bits_def parange_table_def ex_senv_def)
  obtain s where s: "iommu_vm_arch_add ex_senv 0xf 0x10 (ex_dvm 0) ex_on = Some (0, (ex_dvm 0)\<lparr>iv_ctx_id := 0\<rparr>, s)"
    "sm_SMR s = (sm_SMR ex_on)(0 := smr_value 0xf 0x10)" "smmu_sme_get_ctx s 0 = 0" "sme_bitmap s = bitmap_set (sme_bitmap ex_on) 0"
    "grp_bitmap s = bitmap_set (grp_bitmap ex_on) 0" "ctxbank_bitmap s = bitmap_set (ctxbank_bitmap ex_on) 0" "ctx_num s = 2" "sme_num s = Suc (Suc 0)"
    using first_add [where vm="ex_dvm 0" and e=ex_senv and bits=40 and s=ex_on and msk="0xf" and sid="0x10"] p by (auto simp: ex_on_fields ex_dvm_def SMMU_ID_MSK_def)
  have f: "SMMU_SMR_ID (smr_value 0xf 0x10) = 0x10" "SMMU_SMR_MASK (smr_value 0xf 0x10) = 0xf" "bit (smr_value 0xf 0x10) 31"
    using smr_fields [where msk="0xf" and sid="0x10"] by (simp_all add: SMMU_ID_MSK_def)
  have c: "bitmap_find_nth (ctxbank_bitmap s) 2 1 0 False = 1" by (rule find_second) (simp_all add: s(6) bm_simps ex_on_fields)
  have "\<exists>s'. iommu_arch_vm_add_device_arm ex_senv 0x12 (ex_dvm 1) s = Some (0, (ex_dvm 1)\<lparr>iv_ctx_id := 1\<rparr>, s') \<and> sm_SMR s' = sm_SMR s \<and>
      smmu_sme_get_ctx s' 0 = 0"
    using c p s(3-8) f
    by (simp add: iommu_arch_vm_add_device_arm_def iommu_vm_arch_add_def iommu_vm_arch_init_ctx_def smmu_alloc_ctxbnk_def smmu_write_ctxbnk_def
        ex_dvm_def bm_simps Let_def smmu_compatible_sme_exists_def sme_fields s(2) SMMU_ID_MSK_def)
  then show ?thesis using s(1-3) f
    by (auto simp: iommu_arch_vm_init_arm_def ex_dvm_def has_ctx_def smr_matches_def SMMU_ID_MSK_def)
qed

theorem ctxbnk_matches_vtcr_witness:
  "\<exists>s'. smmu_write_ctxbnk ex_senv 0 0x80000000 1 (ex_on\<lparr>ctxbank_bitmap := bitmap_set (ctxbank_bitmap ex_on) 0\<rparr>) = Some s' \<and>
     vtcr_value 2 40 = VTCR_RES1 OR ucast (sm_TCR s' 0)"
proof -
  have p: "parange_bits 2 = Some 40" "s_parange ex_senv = 2" by (simp_all add: parange_bits_def parange_table_def ex_senv_def)
  have "min_parange [2, 5] = 2" by code_simp
  then have v: "vmm_arch_init_arm [2, 5] armv8_pt_s2_dscr = Some (2, armv8_pt_s2_dscr\<lparr>lvl_wdt := [40, 30, 21, 21],
      lvl_off := [30, 21, 12, 12], lvl_term := [True, True, True, True], pt_lvls := 3\<rparr>, vtcr_value 2 40, hcr_value)"
    using p by (simp add: vmm_arch_init_arm_def armv8_pt_s2_dscr_def shift_levels_def)
  obtain s' where s': "smmu_write_ctxbnk ex_senv 0 0x80000000 1 (ex_on\<lparr>ctxbank_bitmap := bitmap_set (ctxbank_bitmap ex_on) 0\<rparr>) = Some s'"
    using p by (simp add: smmu_write_ctxbnk_def bm_simps)
  then show ?thesis using ctxbnk_matches_vtcr [OF v p(2) s'] by blast
qed

end
