(* ===== verification/Spec2Isabelle.thy ===== *)
theory Spec2Isabelle
  imports Spinlock Recolor Cpu_Msg Vmm_Share Console Vm_Isolation Aborts Smmu
begin

text \<open>
  A verification development for the Bao hypervisor of this repository (\<^verbatim>\<open>src/bao-hypervisor/src\<close>), in its RISC-V port,
  which the repository builds, and with the interrupt controllers, power management, guest exits and IOMMU of its ARMv8 port.
  Bao is a static partitioning hypervisor: at boot it assigns the CPUs, the memory, the devices and the interrupts of the
  machine to virtual machines (VMs) as a configuration says, and afterwards only forwards interrupts, emulates the interrupt
  controller, and serves the calls of the guests. The development follows that structure. Paths below are relative to
  \<^verbatim>\<open>src/bao-hypervisor/src\<close>.

  \<^bold>\<open>How the program's parts interact.\<close>
  \<^verbatim>\<open>init\<close> runs on every CPU: \<^verbatim>\<open>cpu_init\<close> (messages, barrier, firmware), \<^verbatim>\<open>mem_init\<close> (page pools, configuration), the console,
  \<^verbatim>\<open>interrupts_init\<close>, and \<^verbatim>\<open>vmm_init\<close>, which assigns the CPU to a VM and calls \<^verbatim>\<open>vm_init\<close>. From then on the CPU runs its
  guest and re-enters the hypervisor through \<^verbatim>\<open>interrupts_handle\<close> and \<^verbatim>\<open>sync_exception_handler\<close>; CPUs talk to
  each other by messages (\<^verbatim>\<open>cpu_send_msg\<close>, \<^verbatim>\<open>cpu_msg_handler\<close>) and VMs by shared memory notifications (\<^verbatim>\<open>ipc_hypercall\<close>).

  \<^bold>\<open>The library routines.\<close>
  \<^item> \<open>Prelude\<close>: machine types, the macros of \<^verbatim>\<open>lib/inc/util.h\<close>, lemmas on bounded search and on words.
  \<^item> \<open>Bitmap\<close>, \<open>Bits\<close>: \<^verbatim>\<open>lib/bitmap.c\<close>, \<^verbatim>\<open>lib/bit.c\<close>. Bitmaps meet the locale \<open>bitset\<close>; the search for a run of
    clear bits is the first such run.
  \<^item> \<open>Lists\<close>: \<^verbatim>\<open>lib/inc/list.h\<close> on a heap of nodes; a list refines an abstract queue (locale \<open>fifo\<close>).
  \<^item> \<open>Strings\<close>, \<open>Printk\<close>, \<open>Console\<close>: \<^verbatim>\<open>lib/string.c\<close> on a byte memory (copies are exact, for words and bytes),
    \<^verbatim>\<open>lib/printk.c\<close> (the text of every directive), \<^verbatim>\<open>core/console.c\<close> with the serial driver of the platform: what is printed
    reaches the device.

  \<^bold>\<open>Concurrency primitives.\<close>
  \<^item> \<open>Spinlock\<close>: the ticket lock of \<^verbatim>\<open>arch/riscv/riscv_locks.c\<close>, instruction by instruction, as a step relation of any number
    of interleaved harts below \<open>2 ^ 16\<close>: mutual exclusion and first-come first-served progress.
  \<^item> \<open>Cpu_Sync\<close>: the barrier of \<^verbatim>\<open>core/inc/cpu.h\<close> as a step relation: no CPU leaves before the last has arrived, and
    then all can leave.
  Everywhere else an operation that holds its lock throughout is one state transformation.

  \<^bold>\<open>Memory.\<close>
  \<^item> \<open>Colors\<close>, \<open>Page_Pool\<close>, \<open>Pool_Coloring\<close>: cache colours and the physical page allocator of \<^verbatim>\<open>core/cache.c\<close> and \<^verbatim>\<open>core/mem.c\<close>.
    \<open>Frame_Alloc\<close> states the contract of a frame allocator (locale \<open>frame_allocator\<close>) over any history of allocations and
    releases and shows that the pools meet it; \<open>Pool_Props\<close> has the properties.
  \<^item> \<open>Page_Table\<close>: the page table entries and walks of \<^verbatim>\<open>arch/riscv/page_table.c\<close> and \<^verbatim>\<open>arch/riscv/mem.c\<close>, with the memory that holds
    the tables as a map from physical addresses to words; translation, identity map.
  \<^item> \<open>Mem_Map\<close>: sections, virtual page allocation, mapping and release of \<^verbatim>\<open>core/mem.c\<close>. \<open>Map_Props\<close>: a mapped range translates to
    the pages given, contiguous or coloured, and allocation followed by mapping works together. \<open>Recolor\<close>:
    \<^verbatim>\<open>mem_map_reclr\<close>.
  \<^item> \<open>Table_Tree\<close>, \<open>Confinement\<close>, \<open>Isolation\<close>, \<open>Vm_Isolation\<close>: the tables of an address space as a tree of frames; virtual page
    allocation and mapping, on every branch, write only to the tables of their own address space and to frames fresh from the
    pools; hence, after any sequence of such operations, no two VMs can reach a common frame and none can reach a page table, and
    the initialisation of a VM's memory is such a sequence. The address spaces use all colours and the pools start at a multiple of
    the largest page, without which the allocator does not align large pages.
  \<^item> \<open>Objcache\<close>: the slab allocator of \<^verbatim>\<open>core/objcache.c\<close>. \<open>Config\<close>, \<open>Mem_Init\<close>: the configuration structures, their relocation,
    the pools and the reservation of what VMs own.

  \<^bold>\<open>CPUs and VMs.\<close>
  \<^item> \<open>Vm_Cpus\<close>, \<open>Vmm_Assign\<close>, \<open>Vmm_Share\<close>: CPU numbers inside a VM, the assignment of CPUs to VMs as a step relation of all
    CPUs (\<^verbatim>\<open>core/vmm.c\<close>), the sharing of the VM structure between the CPUs of a VM.
  \<^item> \<open>Machine\<close>: registers, reset and entry of virtual CPUs (\<^verbatim>\<open>arch/riscv/vm.c\<close>); the record \<open>hv\<close> is the state the handlers of one
    CPU work on and \<open>hv_env\<close> what they read.
  \<^item> \<open>Vm\<close>: \<^verbatim>\<open>core/vm.c\<close>, every step of \<^verbatim>\<open>vm_init\<close> between its barriers.
  \<^item> \<open>Cpu_Msg\<close>: messages between CPUs, on the object cache and the lists; they refine queues of messages.

  \<^bold>\<open>Interrupts, devices and guest calls.\<close>
  \<^item> \<open>Plic\<close>, \<open>Vplic\<close>, \<open>Vplic_Props\<close>: the physical and the emulated interrupt controller. \<open>Interrupts\<close>: \<^verbatim>\<open>core/interrupts.c\<close>.
  \<^item> \<open>Ipc\<close>, \<open>Sbi\<close>, \<open>Sbi_Props\<close>: notifications between VMs and the calls of guests (\<^verbatim>\<open>core/ipc.c\<close>, \<^verbatim>\<open>arch/riscv/sbi.c\<close>); a call
    only reaches the CPUs of the caller's VM.
  \<^item> \<open>Emul\<close>, \<open>Sync_Exceptions\<close>: lookup of emulated devices, decoding of trapped instructions, and the exception handlers.

  \<^bold>\<open>The ARMv8 port.\<close>
  \<^item> \<open>Gic\<close>: the drivers \<^verbatim>\<open>arch/armv8/gic.c\<close>, \<^verbatim>\<open>gicv2.c\<close> and \<^verbatim>\<open>gicv3.c\<close> of the interrupt controller, for both versions; writes to the
    device are recorded in a log, reads are answered by a parameter.
  \<^item> \<open>Vgic\<close>, \<open>Vgic_Regs\<close>: the virtual interrupt controller (\<^verbatim>\<open>vgic.c\<close>, \<^verbatim>\<open>vgicv2.c\<close>, \<^verbatim>\<open>vgicv3.c\<close>): ownership of the interrupts by virtual
    CPUs, the list registers that hold the interrupts presented to the guest, the emulated registers, messages and maintenance.
  \<^item> \<open>Vgic_Inv\<close>, \<open>Vgic_Lrs\<close>, \<open>Vgic_Steps\<close>, \<open>Vgic_Maint\<close>, \<open>Vgic_Safety\<close>: the invariant of the list registers, kept by every operation,
    and the controller as a step system of all CPUs of a VM and the hardware (locale \<open>reach_system\<close>): no interrupt is in two list
    registers.
  \<^item> \<open>Psci\<close>: power management of virtual CPUs (\<^verbatim>\<open>psci.c\<close>); starting a virtual CPU, and the balance of starts and power offs in every
    order of calls (locale \<open>step_system\<close>). The handler is also split at its lock, where two callers can start the same target.
  \<^item> \<open>Aborts\<close>: the exits of a guest (\<^verbatim>\<open>aborts.c\<close>); the syndrome is decoded as the architecture encodes it, and every exit is a sequence of
    steps of the virtual interrupt controller.
  \<^item> \<open>Smmu\<close>: translation of the accesses of devices (\<^verbatim>\<open>smmuv2.c\<close>, \<^verbatim>\<open>iommu.c\<close>) and the second stage configuration of \<^verbatim>\<open>vmm.c\<close>. For VMs
    without groups of streams, every stream is translated with the page table of the VM that has the device and of no other; with groups it is
    not, as an example shows.

  \<^bold>\<open>Conventions.\<close>
  A function whose source may print an error and stop, follow a null pointer, or loop for ever returns an option; \<open>None\<close> is that
  outcome, and a claim that the code returns is stated as an equation with \<open>Some\<close>. No model uses fuel: loops are structural
  recursion, \<open>function\<close> with a termination proof, or \<open>partial_function (option)\<close>. Bit patterns are words; numbers are
  naturals, with the reduction modulo \<open>2 ^ 64\<close> where the code can wrap around. Parameters stand for what is outside the
  sources: the answers of the firmware, the response of the interrupt controller and the serial port to reads and writes, and
  the addresses the linker chooses.

  \<^bold>\<open>Not modelled.\<close>
  The assembly files (boot, exception entry, relocation), the page tables and caches of the ARMv8 port and the drivers of other
  platforms, since the repository builds the RISC-V one; the vendored firmware (\<^verbatim>\<open>src/opensbi\<close>) and the guests; \<^verbatim>\<open>color_hypervisor\<close>, which copies the
  running image over itself; the unused \<^verbatim>\<open>emul_read\<close> and \<^verbatim>\<open>emul_write\<close>; caches and TLBs, of which only the invalidations are
  recorded.
\<close>

end
